(* ===== verification/Prelude.thy ===== *)
theory Prelude
  imports Main "HOL-Library.Word"
begin

text \<open>
  Shared vocabulary of the development: results of fallible Python code, host strings as
  lists of code points, decimal rendering of integers, and the standard-library binary
  search \<open>bisect_right\<close> which the source map and the collector both call.
\<close>

section \<open>Results\<close>

text \<open>
  A Python computation that may raise is a value of \<open>'e + 'a\<close>: \<open>Inl\<close> carries the raised
  error, \<open>Inr\<close> the result. \<open>bindR\<close> is sequencing: the continuation runs only when the
  first part did not raise.
\<close>

named_theorems result_simps \<open>inversion of sequenced computations\<close>
named_theorems result_intros \<open>building sequenced computations\<close>

definition bindR :: "'e + 'a \<Rightarrow> ('a \<Rightarrow> 'e + 'b) \<Rightarrow> 'e + 'b" where
  "bindR m f = (case m of Inl e \<Rightarrow> Inl e | Inr x \<Rightarrow> f x)"

definition checkR :: "bool \<Rightarrow> 'e \<Rightarrow> 'e + unit" where
  "checkR c e = (if c then Inr () else Inl e)"

lemma bindR_simps [simp]:
  "bindR (Inl e) f = Inl e"
  "bindR (Inr x) f = f x"
  by (simp_all add: bindR_def)

lemma bindR_cong [fundef_cong]:
  assumes "m = m'" and "\<And>x. m' = Inr x \<Longrightarrow> f x = g x"
  shows "bindR m f = bindR m' g"
  using assms by (cases m') simp_all

lemma bindR_eq_Inr [result_simps]:
  "bindR m f = Inr y \<longleftrightarrow> (\<exists>x. m = Inr x \<and> f x = Inr y)"
  by (cases m) simp_all

lemma bindR_eq_Inl [result_simps]:
  "bindR m f = Inl e \<longleftrightarrow> m = Inl e \<or> (\<exists>x. m = Inr x \<and> f x = Inl e)"
  by (cases m) simp_all

lemma checkR_simps [simp]:
  "c \<Longrightarrow> checkR c e = Inr ()"
  "\<not> c \<Longrightarrow> checkR c e = Inl e"
  "checkR True e = Inr ()"
  "checkR False e = Inl e"
  by (simp_all add: checkR_def)

lemma checkR_eq [result_simps]:
  "checkR c e = Inr u \<longleftrightarrow> c"
  "checkR c e = Inl e' \<longleftrightarrow> \<not> c \<and> e' = e"
  by (auto simp: checkR_def)

lemma bindR_assoc: "bindR (bindR m f) g = bindR m (\<lambda>x. bindR (f x) g)"
  by (cases m) simp_all

lemma bindR_eqI [result_intros]: "m = Inr x \<Longrightarrow> f x = r \<Longrightarrow> bindR m f = r"
  by simp

fun mapR :: "('a \<Rightarrow> 'e + 'b) \<Rightarrow> 'a list \<Rightarrow> 'e + 'b list" where
  "mapR f [] = Inr []"
| "mapR f (x # xs) = bindR (f x) (\<lambda>y. bindR (mapR f xs) (\<lambda>ys. Inr (y # ys)))"

fun foldR :: "('a \<Rightarrow> 's \<Rightarrow> 'e + 's) \<Rightarrow> 'a list \<Rightarrow> 's \<Rightarrow> 'e + 's" where
  "foldR f [] s = Inr s"
| "foldR f (x # xs) s = bindR (f x s) (foldR f xs)"

lemma mapR_Inr: "(\<And>x. x \<in> set xs \<Longrightarrow> f x = Inr (g x)) \<Longrightarrow> mapR f xs = Inr (map g xs)"
  by (induction xs) simp_all

lemma foldR_append: "foldR f (xs @ ys) s = bindR (foldR f xs s) (foldR f ys)"
proof (induction xs arbitrary: s)
  case (Cons x xs)
  then show ?case by (cases "f x s") simp_all
qed simp

lemma foldR_invariant:
  assumes "foldR f xs s = Inr t" and "I s"
    and "\<And>x s s'. x \<in> set xs \<Longrightarrow> I s \<Longrightarrow> f x s = Inr s' \<Longrightarrow> I s'"
  shows "I t"
  using assms by (induction xs arbitrary: s) (auto simp: result_simps)

section \<open>Stateful results\<close>

text \<open>
  A method that reads and updates the state of its object and may raise: the state is passed
  explicitly, and no state comes back with an exception, since none of the callers catches one.
\<close>

type_synonym ('s, 'e, 'a) stateR = "'s \<Rightarrow> 'e + 'a \<times> 's"

definition bindS :: "('s, 'e, 'a) stateR \<Rightarrow> ('a \<Rightarrow> ('s, 'e, 'b) stateR) \<Rightarrow> ('s, 'e, 'b) stateR" where
  "bindS m f s = bindR (m s) (\<lambda>(x, s1). f x s1)"

definition giveS :: "'a \<Rightarrow> ('s, 'e, 'a) stateR" where
  "giveS x s = Inr (x, s)"

definition raiseS :: "'e \<Rightarrow> ('s, 'e, 'a) stateR" where
  "raiseS e s = Inl e"

definition askS :: "('s \<Rightarrow> 'a) \<Rightarrow> ('s, 'e, 'a) stateR" where
  "askS f s = Inr (f s, s)"

definition updS :: "('s \<Rightarrow> 's) \<Rightarrow> ('s, 'e, unit) stateR" where
  "updS f s = Inr ((), f s)"

definition checkS :: "bool \<Rightarrow> ('s, 'e, unit) stateR \<Rightarrow> ('s, 'e, unit) stateR" where
  "checkS c otherwise = (if c then giveS () else otherwise)"

fun mapS :: "('a \<Rightarrow> ('s, 'e, 'b) stateR) \<Rightarrow> 'a list \<Rightarrow> ('s, 'e, 'b list) stateR" where
  "mapS f [] = giveS []"
| "mapS f (x # xs) = bindS (f x) (\<lambda>y. bindS (mapS f xs) (\<lambda>ys. giveS (y # ys)))"

fun forS :: "'a list \<Rightarrow> ('a \<Rightarrow> ('s, 'e, unit) stateR) \<Rightarrow> ('s, 'e, unit) stateR" where
  "forS [] f = giveS ()"
| "forS (x # xs) f = bindS (f x) (\<lambda>_. forS xs f)"

lemma bindS_Inr [result_simps]:
  "bindS m f s = Inr (y, t) \<longleftrightarrow> (\<exists>x u. m s = Inr (x, u) \<and> f x u = Inr (y, t))"
  by (cases "m s") (auto simp: bindS_def)

lemma method_simps [result_simps]:
  "giveS x s = Inr (y, t) \<longleftrightarrow> y = x \<and> t = s" "raiseS e s = Inr p \<longleftrightarrow> False"
  "askS f s = Inr (a, t) \<longleftrightarrow> a = f s \<and> t = s" "updS g s = Inr (u, t) \<longleftrightarrow> t = g s"
  "checkS c k s = Inr (u, t) \<longleftrightarrow> (if c then t = s else k s = Inr (u, t))"
  by (auto simp: giveS_def raiseS_def askS_def updS_def checkS_def)

lemma bindS_simps [simp]:
  "bindS (giveS x) f = f x" "bindS (raiseS e) f = raiseS e" "bindS (askS g) f s = f (g s) s"
  "bindS (updS h) k s = k () (h s)"
  by (auto simp: bindS_def giveS_def raiseS_def askS_def updS_def)

section \<open>Dictionaries\<close>

text \<open>A dictionary keeps the place of a key that is assigned again.\<close>

fun dict_set :: "'k \<Rightarrow> 'v \<Rightarrow> ('k \<times> 'v) list \<Rightarrow> ('k \<times> 'v) list" where
  "dict_set k v [] = [(k, v)]"
| "dict_set k v ((k', v') # ps) = (if k' = k then (k, v) # ps else (k', v') # dict_set k v ps)"

lemma dict_set_new: "k \<notin> fst ` set ps \<Longrightarrow> dict_set k v ps = ps @ [(k, v)]"
  by (induction ps) auto

lemma map_of_dict_set: "map_of (dict_set k v ps) = (map_of ps)(k \<mapsto> v)"
  by (induction ps) (auto simp: fun_eq_iff)

lemma keys_dict_set: "fst ` set (dict_set k v ps) = insert k (fst ` set ps)"
  by (induction k v ps rule: dict_set.induct) (simp_all add: insert_commute)

section \<open>Host errors\<close>

text \<open>
  Exceptions of the host that the source does not raise itself: they escape as Python
  exceptions, not as the program's own error classes.
\<close>

datatype host_error = IndexError | TypeError | AttributeError | ValueError | OverflowError
  | UnicodeEncodeError | KeyError | StructError

section \<open>Host strings\<close>

text \<open>
  A Python \<open>str\<close> is a sequence of code points. \<open>lit\<close> embeds a literal of the source.
\<close>

type_synonym ustr = "nat list"

definition lit :: "string \<Rightarrow> ustr" where
  "lit s = map of_char s"

lemma lit_append [simp]: "lit (s @ t) = lit s @ lit t"
  by (simp add: lit_def)

lemma length_lit [simp]: "length (lit s) = length s"
  by (simp add: lit_def)

lemma lit_inj [simp]: "lit s = lit t \<longleftrightarrow> s = t"
  by (auto simp: lit_def inj_map_eq_map inj_on_def of_char_eq_iff)

lemma lit_byte: "c \<in> set (lit s) \<Longrightarrow> c < 256"
  by (auto simp: lit_def)

text \<open>Decimal text of a non-negative integer, and Python's \<open>str\<close> of an \<open>int\<close>.\<close>

fun dec_nat :: "nat \<Rightarrow> ustr" where
  "dec_nat n = (if n < 10 then [48 + n] else dec_nat (n div 10) @ [48 + n mod 10])"

declare dec_nat.simps [simp del]

definition dec_int :: "int \<Rightarrow> ustr" where
  "dec_int i = (if i < 0 then 45 # dec_nat (nat (- i)) else dec_nat (nat i))"

definition read_digits :: "nat \<Rightarrow> ustr \<Rightarrow> nat" where
  "read_digits base ds = foldl (\<lambda>acc d. acc * base + d) 0 ds"

lemma read_digits_snoc: "read_digits b (ds @ [d]) = read_digits b ds * b + d"
  by (simp add: read_digits_def)

lemma dec_nat_digits: "d \<in> set (dec_nat n) \<Longrightarrow> 48 \<le> d \<and> d \<le> 57"
proof (induction n rule: dec_nat.induct)
  case (1 n)
  have "n mod 10 < 10" by simp
  moreover have "d \<in> set (if n < 10 then [48 + n] else dec_nat (n div 10) @ [48 + n mod 10])"
    using "1.prems" by (simp only: dec_nat.simps [of n, symmetric])
  ultimately show ?case using "1.IH" by (auto split: if_splits)
qed

lemma read_dec_nat: "read_digits 10 (map (\<lambda>d. d - 48) (dec_nat n)) = n"
proof (induction n rule: dec_nat.induct)
  case (1 n)
  show ?case
  proof (cases "n < 10")
    case True
    then show ?thesis by (subst dec_nat.simps) (simp add: read_digits_def)
  next
    case False
    with 1 have "read_digits 10 (map (\<lambda>d. d - 48) (dec_nat (n div 10))) = n div 10"
      by simp
    with False show ?thesis
      by (subst dec_nat.simps) (simp add: read_digits_snoc)
  qed
qed

lemma dec_nat_inj: "dec_nat m = dec_nat n \<Longrightarrow> m = n"
  by (metis read_dec_nat)

lemma dec_nat_nonempty [simp]: "dec_nat n \<noteq> []"
  by (subst dec_nat.simps) simp

lemma dec_int_inj: "dec_int i = dec_int j \<Longrightarrow> i = j"
proof -
  have hd45: "hd (dec_nat n) \<noteq> 45" for n
    using dec_nat_digits [of "hd (dec_nat n)" n] by auto
  then have "dec_nat n \<noteq> 45 # xs" for n xs
    by (metis list.sel(1))
  moreover assume "dec_int i = dec_int j"
  ultimately show "i = j"
    by (auto simp: dec_int_def split: if_splits dest!: dec_nat_inj)
      (metis \<open>\<And>xs n. dec_nat n \<noteq> 45 # xs\<close>)
qed

section \<open>Binary search\<close>

text \<open>
  \<open>bisect.bisect_right\<close>, as the standard library runs it: the interval \<open>lo..<hi\<close> is halved
  until it is empty. On a sorted list the result counts the elements not above the key.
\<close>

function bisect_right_in :: "'a::linorder list \<Rightarrow> 'a \<Rightarrow> nat \<Rightarrow> nat \<Rightarrow> nat" where
  "bisect_right_in xs x lo hi =
     (if lo < hi then
        (let mid = (lo + hi) div 2 in
         if x < xs ! mid then bisect_right_in xs x lo mid
         else bisect_right_in xs x (Suc mid) hi)
      else lo)"
  by pat_completeness auto
termination
  by (relation "measure (\<lambda>(xs, x, lo, hi). hi - lo)") auto

declare bisect_right_in.simps [simp del]

definition bisect_right :: "'a::linorder list \<Rightarrow> 'a \<Rightarrow> nat" where
  "bisect_right xs x = bisect_right_in xs x 0 (length xs)"

lemma bisect_right_in_le: "lo \<le> hi \<Longrightarrow> bisect_right_in xs x lo hi \<le> hi"
proof (induction xs x lo hi rule: bisect_right_in.induct)
  case (1 xs x lo hi)
  show ?case
  proof (cases "lo < hi")
    case True
    define mid where "mid = (lo + hi) div 2"
    have "lo \<le> mid" "mid < hi" using True by (auto simp: mid_def)
    with 1 True show ?thesis
      by (subst bisect_right_in.simps) (auto simp: Let_def simp flip: mid_def)
  next
    case False
    with 1 show ?thesis by (subst bisect_right_in.simps) simp
  qed
qed

lemma bisect_right_le: "bisect_right xs x \<le> length xs"
  by (simp add: bisect_right_def bisect_right_in_le)

lemma bisect_right_in_spec:
  assumes "sorted xs" and "lo \<le> hi" and "hi \<le> length xs"
    and "\<And>i. i < lo \<Longrightarrow> xs ! i \<le> x" and "\<And>i. hi \<le> i \<Longrightarrow> i < length xs \<Longrightarrow> x < xs ! i"
  shows "bisect_right_in xs x lo hi \<le> length xs
    \<and> (\<forall>i < bisect_right_in xs x lo hi. xs ! i \<le> x)
    \<and> (\<forall>i. bisect_right_in xs x lo hi \<le> i \<longrightarrow> i < length xs \<longrightarrow> x < xs ! i)"
  using assms
proof (induction xs x lo hi rule: bisect_right_in.induct)
  case (1 xs x lo hi)
  show ?case
  proof (cases "lo < hi")
    case False
    with "1.prems" show ?thesis by (subst (1 2 3) bisect_right_in.simps) auto
  next
    case True
    define mid where "mid = (lo + hi) div 2"
    have mid: "lo \<le> mid" "mid < hi" using True by (auto simp: mid_def)
    show ?thesis
    proof (cases "x < xs ! mid")
      case less: True
      have "x < xs ! i" if "mid \<le> i" "i < length xs" for i
        using less that \<open>sorted xs\<close> by (meson order_less_le_trans sorted_nth_mono)
      with "1.IH"(1) [OF True mid_def less] "1.prems" mid True less show ?thesis
        by (subst (1 2 3) bisect_right_in.simps) (auto simp: Let_def mid_def)
    next
      case ge: False
      have "xs ! i \<le> x" if "i < Suc mid" for i
      proof -
        have "xs ! i \<le> xs ! mid"
          using that mid "1.prems"(1,3) by (intro sorted_nth_mono) auto
        with ge show ?thesis by simp
      qed
      with "1.IH"(2) [OF True mid_def ge] "1.prems" mid True ge show ?thesis
        by (subst (1 2 3) bisect_right_in.simps) (auto simp: Let_def mid_def)
    qed
  qed
qed

lemma bisect_right_spec:
  assumes "sorted xs"
  shows "bisect_right xs x \<le> length xs"
    and "i < bisect_right xs x \<Longrightarrow> xs ! i \<le> x"
    and "bisect_right xs x \<le> i \<Longrightarrow> i < length xs \<Longrightarrow> x < xs ! i"
  using bisect_right_in_spec [OF assms, of 0 "length xs" x] by (auto simp: bisect_right_def)

lemma bisect_right_unique:
  assumes "sorted xs" and "n \<le> length xs"
    and below: "\<And>i. i < n \<Longrightarrow> xs ! i \<le> x"
    and above: "\<And>i. n \<le> i \<Longrightarrow> i < length xs \<Longrightarrow> x < xs ! i"
  shows "bisect_right xs x = n"
proof (rule antisym)
  show "bisect_right xs x \<le> n"
  proof (rule ccontr)
    assume "\<not> bisect_right xs x \<le> n"
    then have "n < bisect_right xs x" by simp
    with bisect_right_spec(1) [OF assms(1), of x] bisect_right_spec(2) [OF assms(1), of n x]
    have "xs ! n \<le> x" "n < length xs"
      by simp_all
    with above [of n] show False by simp
  qed
  show "n \<le> bisect_right xs x"
  proof (rule ccontr)
    assume "\<not> n \<le> bisect_right xs x"
    then have "bisect_right xs x < n" by simp
    with below [of "bisect_right xs x"] assms(2)
      bisect_right_spec(3) [OF assms(1), of x "bisect_right xs x"]
    show False by simp
  qed
qed

section \<open>Lists\<close>

text \<open>Python's indexing of a list, where a negative index counts from the end.\<close>

definition py_index :: "'a list \<Rightarrow> int \<Rightarrow> 'a option" where
  "py_index xs i =
     (if 0 \<le> i then (if i < int (length xs) then Some (xs ! nat i) else None)
      else if - int (length xs) \<le> i then Some (xs ! nat (int (length xs) + i)) else None)"

lemma py_index_nat [simp]: "i < length xs \<Longrightarrow> py_index xs (int i) = Some (xs ! i)"
  by (simp add: py_index_def)

lemma nth_append_length_Suc [simp]: "(xs @ x # ys) ! length xs = x"
  by simp

end
