(* ===== verification/Bytecode.thy ===== *)
theory Bytecode
  imports Prelude
begin

text \<open>
  \<open>compiler/bytecode.py\<close>: the instruction set with its fixed numbering, instructions, and
  the source map with its builder and its two directions of lookup.
\<close>

section \<open>Opcodes\<close>

text \<open>
  The numbers are part of the file format, so they are written out, as in the source;
  \<open>opcode_of_number\<close> is the enumeration's lookup \<open>OpCode(number)\<close>.
\<close>

datatype (plugins only: size) opcode =
    PUSH_INT | LOAD_LOCAL | STORE_LOCAL | ADD | SUB | MUL | DIV | MOD | XOR | AND | OR | SHL
  | SHR | NEG | CMP_EQ | CMP_NE | CMP_LT | CMP_LE | CMP_GT | CMP_GE | LOAD_STR | STR_CMP
  | STR_LEN | STR_CHAR_AT | STR_CONCAT | STR_SLICE | STR_FROM_INT | STR_FROM_CHAR
  | PUSH_FLOAT | LOAD_LOCAL_F | STORE_LOCAL_F | FADD | FSUB | FMUL | FDIV | FNEG | FCMP
  | F_FROM_INT | F_TO_INT | STR_FROM_FLOAT | PRINT_FLOAT | PRINTLN_FLOAT | NOT | BITNOT
  | JMP | JZ | JNZ | CALL | RET | LOAD_LOCAL_IDX | STORE_LOCAL_IDX | BOUNDS_CHECK
  | LOAD_INDIRECT | STORE_INDIRECT | MEMCPY_LOCALS | MEMSET_LOCALS | POP | DUP | SWAP
  | PRINT_INT | PRINT_STR | PRINTLN_INT | PRINTLN_STR | ALLOC | ALLOC_TYPED | HEAP_LOAD
  | HEAP_STORE | HEAP_LOAD_FIELD | HEAP_STORE_FIELD | HEAP_LOAD_FIELD_F | HEAP_STORE_FIELD_F
  | GC | PANIC | TAG_OF | LOAD_VARIANT | READ_LINE | ARGC | ARGV | CALL_INDIRECT | NEW_ARRAY
  | ARRAY_LEN | ARRAY_GET | ARRAY_SET | FILE_READ | FILE_WRITE | FILE_APPEND | FILE_EXISTS
  | FILE_DELETE | FILE_ERROR | FILE_READ_BYTES | FILE_WRITE_BYTES

primrec opcode_number :: "opcode \<Rightarrow> nat" where
  "opcode_number PUSH_INT = 1"
| "opcode_number LOAD_LOCAL = 2"
| "opcode_number STORE_LOCAL = 3"
| "opcode_number ADD = 4"
| "opcode_number SUB = 5"
| "opcode_number MUL = 6"
| "opcode_number DIV = 7"
| "opcode_number MOD = 8"
| "opcode_number XOR = 9"
| "opcode_number AND = 10"
| "opcode_number OR = 11"
| "opcode_number SHL = 12"
| "opcode_number SHR = 13"
| "opcode_number NEG = 14"
| "opcode_number CMP_EQ = 15"
| "opcode_number CMP_NE = 16"
| "opcode_number CMP_LT = 17"
| "opcode_number CMP_LE = 18"
| "opcode_number CMP_GT = 19"
| "opcode_number CMP_GE = 20"
| "opcode_number LOAD_STR = 21"
| "opcode_number STR_CMP = 22"
| "opcode_number STR_LEN = 23"
| "opcode_number STR_CHAR_AT = 24"
| "opcode_number STR_CONCAT = 25"
| "opcode_number STR_SLICE = 26"
| "opcode_number STR_FROM_INT = 27"
| "opcode_number STR_FROM_CHAR = 28"
| "opcode_number PUSH_FLOAT = 29"
| "opcode_number LOAD_LOCAL_F = 30"
| "opcode_number STORE_LOCAL_F = 31"
| "opcode_number FADD = 32"
| "opcode_number FSUB = 33"
| "opcode_number FMUL = 34"
| "opcode_number FDIV = 35"
| "opcode_number FNEG = 36"
| "opcode_number FCMP = 37"
| "opcode_number F_FROM_INT = 38"
| "opcode_number F_TO_INT = 39"
| "opcode_number STR_FROM_FLOAT = 40"
| "opcode_number PRINT_FLOAT = 41"
| "opcode_number PRINTLN_FLOAT = 42"
| "opcode_number NOT = 43"
| "opcode_number BITNOT = 44"
| "opcode_number JMP = 45"
| "opcode_number JZ = 46"
| "opcode_number JNZ = 47"
| "opcode_number CALL = 48"
| "opcode_number RET = 49"
| "opcode_number LOAD_LOCAL_IDX = 50"
| "opcode_number STORE_LOCAL_IDX = 51"
| "opcode_number BOUNDS_CHECK = 52"
| "opcode_number LOAD_INDIRECT = 53"
| "opcode_number STORE_INDIRECT = 54"
| "opcode_number MEMCPY_LOCALS = 55"
| "opcode_number MEMSET_LOCALS = 56"
| "opcode_number POP = 57"
| "opcode_number DUP = 58"
| "opcode_number SWAP = 59"
| "opcode_number PRINT_INT = 60"
| "opcode_number PRINT_STR = 61"
| "opcode_number PRINTLN_INT = 62"
| "opcode_number PRINTLN_STR = 63"
| "opcode_number ALLOC = 64"
| "opcode_number ALLOC_TYPED = 65"
| "opcode_number HEAP_LOAD = 66"
| "opcode_number HEAP_STORE = 67"
| "opcode_number HEAP_LOAD_FIELD = 68"
| "opcode_number HEAP_STORE_FIELD = 69"
| "opcode_number HEAP_LOAD_FIELD_F = 70"
| "opcode_number HEAP_STORE_FIELD_F = 71"
| "opcode_number GC = 72"
| "opcode_number PANIC = 73"
| "opcode_number TAG_OF = 74"
| "opcode_number LOAD_VARIANT = 75"
| "opcode_number READ_LINE = 76"
| "opcode_number ARGC = 77"
| "opcode_number ARGV = 78"
| "opcode_number CALL_INDIRECT = 79"
| "opcode_number NEW_ARRAY = 80"
| "opcode_number ARRAY_LEN = 81"
| "opcode_number ARRAY_GET = 82"
| "opcode_number ARRAY_SET = 83"
| "opcode_number FILE_READ = 84"
| "opcode_number FILE_WRITE = 85"
| "opcode_number FILE_APPEND = 86"
| "opcode_number FILE_EXISTS = 87"
| "opcode_number FILE_DELETE = 88"
| "opcode_number FILE_ERROR = 89"
| "opcode_number FILE_READ_BYTES = 90"
| "opcode_number FILE_WRITE_BYTES = 91"

definition all_opcodes :: "opcode list" where
  "all_opcodes =
    [PUSH_INT, LOAD_LOCAL, STORE_LOCAL, ADD, SUB, MUL, DIV, MOD, XOR, AND, OR, SHL, SHR, NEG
     , CMP_EQ, CMP_NE, CMP_LT, CMP_LE, CMP_GT, CMP_GE, LOAD_STR, STR_CMP, STR_LEN
     , STR_CHAR_AT, STR_CONCAT, STR_SLICE, STR_FROM_INT, STR_FROM_CHAR, PUSH_FLOAT
     , LOAD_LOCAL_F, STORE_LOCAL_F, FADD, FSUB, FMUL, FDIV, FNEG, FCMP, F_FROM_INT, F_TO_INT
     , STR_FROM_FLOAT, PRINT_FLOAT, PRINTLN_FLOAT, NOT, BITNOT, JMP, JZ, JNZ, CALL, RET
     , LOAD_LOCAL_IDX, STORE_LOCAL_IDX, BOUNDS_CHECK, LOAD_INDIRECT, STORE_INDIRECT
     , MEMCPY_LOCALS, MEMSET_LOCALS, POP, DUP, SWAP, PRINT_INT, PRINT_STR, PRINTLN_INT
     , PRINTLN_STR, ALLOC, ALLOC_TYPED, HEAP_LOAD, HEAP_STORE, HEAP_LOAD_FIELD
     , HEAP_STORE_FIELD, HEAP_LOAD_FIELD_F, HEAP_STORE_FIELD_F, GC, PANIC, TAG_OF
     , LOAD_VARIANT, READ_LINE, ARGC, ARGV, CALL_INDIRECT, NEW_ARRAY, ARRAY_LEN, ARRAY_GET
     , ARRAY_SET, FILE_READ, FILE_WRITE, FILE_APPEND, FILE_EXISTS, FILE_DELETE, FILE_ERROR
     , FILE_READ_BYTES, FILE_WRITE_BYTES]"

definition opcode_of_number :: "nat \<Rightarrow> opcode option" where
  "opcode_of_number n = map_of (map (\<lambda>op. (opcode_number op, op)) all_opcodes) n"

lemma all_opcodes_complete: "op \<in> set all_opcodes"
  by (cases op) (simp_all add: all_opcodes_def)

lemma distinct_opcode_numbers: "distinct (map opcode_number all_opcodes)"
  by (simp add: all_opcodes_def)

lemma opcode_number_inj: "opcode_number a = opcode_number b \<Longrightarrow> a = b"
  using distinct_opcode_numbers all_opcodes_complete
  by (auto simp: distinct_map inj_on_def)

lemma opcode_number_range: "1 \<le> opcode_number op \<and> opcode_number op \<le> 91"
  by (cases op) simp_all

lemma opcode_of_number_iff: "opcode_of_number n = Some op \<longleftrightarrow> opcode_number op = n"
proof
  assume "opcode_of_number n = Some op"
  then show "opcode_number op = n"
    unfolding opcode_of_number_def by (auto dest!: map_of_SomeD)
next
  assume "opcode_number op = n"
  moreover have "distinct (map fst (map (\<lambda>op. (opcode_number op, op)) all_opcodes))"
    using distinct_opcode_numbers by (simp add: comp_def)
  ultimately show "opcode_of_number n = Some op"
    unfolding opcode_of_number_def
    using all_opcodes_complete [of op] by (force intro: map_of_is_SomeI)
qed

lemma opcode_of_number_number [simp]: "opcode_of_number (opcode_number op) = Some op"
  by (simp add: opcode_of_number_iff)

instantiation opcode :: equal
begin

definition equal_opcode :: "opcode \<Rightarrow> opcode \<Rightarrow> bool" where
  "equal_opcode a b \<longleftrightarrow> opcode_number a = opcode_number b"

instance
  by standard (auto simp: equal_opcode_def dest: opcode_number_inj)

end

instantiation opcode :: linorder
begin

definition less_eq_opcode :: "opcode \<Rightarrow> opcode \<Rightarrow> bool" where
  "less_eq_opcode a b \<longleftrightarrow> opcode_number a \<le> opcode_number b"

definition less_opcode :: "opcode \<Rightarrow> opcode \<Rightarrow> bool" where
  "less_opcode a b \<longleftrightarrow> opcode_number a < opcode_number b"

instance
  by standard (auto simp: less_eq_opcode_def less_opcode_def dest: opcode_number_inj)

end

text \<open>An instruction; the operand is any Python integer or absent.\<close>

record instruction =
  op :: opcode
  arg :: "int option"

type_synonym bytecode = "instruction list"

abbreviation instr :: "opcode \<Rightarrow> int option \<Rightarrow> instruction" where
  "instr o' a \<equiv> \<lparr>op = o', arg = a\<rparr>"

section \<open>Source map\<close>

text \<open>
  A marker says that from its pc onwards the position is the given one. \<open>lookup\<close> searches
  the marker pcs, \<open>lines_in\<close> and \<open>first_pc_on_line\<close> run the map the other way. Indexing
  the positions past their end is Python's \<open>IndexError\<close>. Lines and columns are integers: a lexer
  that computes a column back from the end of a token can make one negative.
\<close>

type_synonym position = "int \<times> int"

record source_map =
  pcs :: "nat list"
  positions :: "position list"

definition empty_source_map :: source_map where
  "empty_source_map = \<lparr>pcs = [], positions = []\<rparr>"

definition lookup :: "source_map \<Rightarrow> int \<Rightarrow> host_error + position option" where
  "lookup m pc =
     (let i = bisect_right (map int (pcs m)) pc in
      if i = 0 then Inr None
      else if i - 1 < length (positions m) then Inr (Some (positions m ! (i - 1)))
      else Inl IndexError)"

definition describe :: "source_map \<Rightarrow> int \<Rightarrow> host_error + ustr" where
  "describe m pc =
     bindR (lookup m pc) (\<lambda>pos. Inr (case pos of None \<Rightarrow> []
       | Some (line, col) \<Rightarrow> lit ''['' @ dec_int line @ lit '':'' @ dec_int col @ lit '']''))"

definition in_pc_range :: "nat \<Rightarrow> nat option \<Rightarrow> nat \<Rightarrow> bool" where
  "in_pc_range start end pc \<longleftrightarrow> start \<le> pc \<and> (case end of None \<Rightarrow> True | Some e \<Rightarrow> pc < e)"

definition lines_in :: "source_map \<Rightarrow> nat \<Rightarrow> nat option \<Rightarrow> int list" where
  "lines_in m start end =
     sort (remdups [line. (pc, (line, col)) \<leftarrow> zip (pcs m) (positions m),
                          in_pc_range start end pc])"

definition first_pc_on_line :: "source_map \<Rightarrow> int \<Rightarrow> nat \<Rightarrow> nat option \<Rightarrow> nat option" where
  "first_pc_on_line m line start end =
     (case [pc. (pc, (l, col)) \<leftarrow> zip (pcs m) (positions m),
                l = line \<and> in_pc_range start end pc] of
        [] \<Rightarrow> None
      | c # cs \<Rightarrow> Some (fold min cs c))"

text \<open>
  The builder. \<open>mark\<close> replaces the last marker when nothing was emitted since, and adds
  none when the position in force is already the wanted one.
\<close>

definition mark :: "nat \<Rightarrow> int \<Rightarrow> int \<Rightarrow> source_map \<Rightarrow> source_map" where
  "mark pc line col b =
     (if pcs b \<noteq> [] \<and> last (pcs b) = pc
      then b\<lparr>positions := butlast (positions b) @ [(line, col)]\<rparr>
      else if positions b \<noteq> [] \<and> last (positions b) = (line, col) then b
      else \<lparr>pcs = pcs b @ [pc], positions = positions b @ [(line, col)]\<rparr>)"

definition build :: "(nat \<times> position) list \<Rightarrow> source_map" where
  "build marks = fold (\<lambda>(pc, line, col). mark pc line col) marks empty_source_map"

section \<open>Correctness of the source map\<close>

lemma build_Nil [simp]: "build [] = empty_source_map"
  by (simp add: build_def)

lemma build_snoc: "build (ms @ [(pc, line, col)]) = mark pc line col (build ms)"
  by (simp add: build_def)

definition source_map_wf :: "source_map \<Rightarrow> bool" where
  "source_map_wf m \<longleftrightarrow> length (pcs m) = length (positions m) \<and> sorted_wrt (<) (pcs m)"

definition position_at :: "(nat \<times> position) list \<Rightarrow> int \<Rightarrow> position option" where
  "position_at ms pc =
     (let before = filter (\<lambda>(p, _). int p \<le> pc) ms in
      if before = [] then None else Some (snd (last before)))"

lemma mark_pcs_subset: "set (pcs (mark pc line col b)) \<subseteq> insert pc (set (pcs b))"
  by (auto simp: mark_def)

lemma build_pcs_subset: "set (pcs (build ms)) \<subseteq> fst ` set ms"
proof (induction ms rule: rev_induct)
  case (snoc m ms)
  obtain pc line col where m: "m = (pc, line, col)" by (cases m) auto
  show ?case using snoc mark_pcs_subset [of pc line col "build ms"]
    by (force simp: m build_snoc)
qed (simp add: empty_source_map_def)

lemma mark_wf:
  assumes "source_map_wf b" and "\<And>p. p \<in> set (pcs b) \<Longrightarrow> p \<le> pc"
  shows "source_map_wf (mark pc line col b)"
proof (cases "pcs b = []")
  case False
  then have "sorted_wrt (<) (butlast (pcs b) @ [last (pcs b)])"
    using assms(1) by (simp add: source_map_wf_def)
  moreover have "last (pcs b) \<le> pc" using assms(2) False by simp
  ultimately have "last (pcs b) \<noteq> pc \<Longrightarrow> \<forall>p \<in> set (pcs b). p < pc"
    using False by (metis (no_types, lifting) UnE append_butlast_last_id empty_iff
        le_neq_implies_less less_le_trans list.set(1) set_ConsD set_append sorted_wrt_append
        list.set_intros(1))
  moreover have "length (positions b) = Suc (length (positions b) - Suc 0)"
    using assms(1) False by (cases "positions b") (auto simp: source_map_wf_def)
  ultimately show ?thesis
    using assms(1) False by (auto simp: mark_def source_map_wf_def sorted_wrt_append)
qed (use assms(1) in \<open>auto simp: mark_def source_map_wf_def\<close>)

lemma build_wf:
  assumes "sorted (map fst ms)"
  shows "source_map_wf (build ms)"
  using assms
proof (induction ms rule: rev_induct)
  case (snoc m ms)
  obtain pc line col where m: "m = (pc, line, col)" by (cases m) auto
  have "p \<le> pc" if "p \<in> set (pcs (build ms))" for p
    using that build_pcs_subset [of ms] snoc.prems by (auto simp: m sorted_append)
  with snoc show ?case by (simp add: m build_snoc mark_wf sorted_append)
qed (simp add: empty_source_map_def source_map_wf_def)

lemma position_at_zip:
  assumes "source_map_wf m"
  shows "lookup m pc = Inr (position_at (zip (pcs m) (positions m)) pc)"
proof -
  let ?ps = "pcs m" and ?qs = "positions m"
  let ?i = "bisect_right (map int ?ps) pc"
  have len: "length ?ps = length ?qs" and srt: "sorted_wrt (<) ?ps"
    using assms by (simp_all add: source_map_wf_def)
  have "sorted (map int ?ps)"
    using srt by (simp add: sorted_wrt_map sorted_wrt_mono_rel [of _ "(<)"])
  note spec = bisect_right_spec(1) [OF this, of pc] bisect_right_spec(2) [OF this, of _ pc]
    bisect_right_spec(3) [OF this, of pc]
  have i: "?i \<le> length ?ps" using spec(1) by simp
  have "filter (\<lambda>(p, _). int p \<le> pc) (take ?i (zip ?ps ?qs)) = take ?i (zip ?ps ?qs)"
    using spec(2) i len by (auto simp: filter_id_conv in_set_conv_nth)
  moreover have "filter (\<lambda>(p, _). int p \<le> pc) (drop ?i (zip ?ps ?qs)) = []"
  proof -
    have "\<not> int p \<le> pc" if pq: "(p, q) \<in> set (drop ?i (zip ?ps ?qs))" for p q
    proof -
      obtain k where k: "k < length (drop ?i (zip ?ps ?qs))" "drop ?i (zip ?ps ?qs) ! k = (p, q)"
        using pq unfolding in_set_conv_nth by blast
      then have "p = ?ps ! (?i + k)" using len by auto
      moreover have "?i + k < length ?ps" using k(1) len by auto
      ultimately show ?thesis using spec(3) [of "?i + k"] by simp
    qed
    then show ?thesis by (auto simp: filter_empty_conv)
  qed
  ultimately have "filter (\<lambda>(p, _). int p \<le> pc) (zip ?ps ?qs) = take ?i (zip ?ps ?qs)"
    by (metis append_Nil2 append_take_drop_id filter_append)
  then show ?thesis
    using i len by (auto simp: lookup_def position_at_def Let_def last_conv_nth)
qed

lemma position_at_snoc:
  "position_at (ms @ [(p, q)]) pc = (if int p \<le> pc then Some q else position_at ms pc)"
  by (simp add: position_at_def)

lemma position_at_snoc2:
  "position_at (ms @ [m, (p, q)]) pc = (if int p \<le> pc then Some q else position_at (ms @ [m]) pc)"
  using position_at_snoc [of "ms @ [m]"] by simp

lemma mark_position_at:
  assumes "source_map_wf b" and "\<And>p. p \<in> set (pcs b) \<Longrightarrow> p \<le> pc"
  shows "position_at (zip (pcs (mark pc line col b)) (positions (mark pc line col b))) x
    = (if int pc \<le> x then Some (line, col) else position_at (zip (pcs b) (positions b)) x)"
proof (cases "pcs b = []")
  case True
  then show ?thesis using assms(1)
    by (simp add: mark_def source_map_wf_def position_at_def)
next
  case False
  then obtain ps p qs q where b: "pcs b = ps @ [p]" "positions b = qs @ [q]"
    using assms(1) by (metis length_0_conv rev_exhaust source_map_wf_def)
  then have len: "length ps = length qs" using assms(1) by (simp add: source_map_wf_def)
  have p: "p \<le> pc" using assms(2) b by simp
  show ?thesis using p len
    by (auto simp: mark_def b position_at_snoc position_at_snoc2)
qed

text \<open>
  Claim C26. When codegen marks positions at non-decreasing pcs, looking a pc up in the built map
  yields exactly the position of the last mark at or before it, and nothing before the first
  mark: merging and overwriting markers in the builder loses no position, and the binary search
  finds the right one.
\<close>

theorem build_lookup:
  assumes "sorted (map fst ms)"
  shows "lookup (build ms) pc = Inr (position_at ms pc)"
proof -
  have "position_at (zip (pcs (build ms)) (positions (build ms))) pc = position_at ms pc"
    using assms
  proof (induction ms rule: rev_induct)
    case (snoc m ms)
    obtain q line col where m: "m = (q, line, col)" by (cases m) auto
    have "p \<le> q" if "p \<in> set (pcs (build ms))" for p
      using that build_pcs_subset [of ms] snoc.prems by (auto simp: m sorted_append)
    moreover have "source_map_wf (build ms)"
      using snoc.prems by (simp add: build_wf sorted_append)
    ultimately show ?case
      using snoc by (simp add: m build_snoc mark_position_at position_at_snoc sorted_append)
  qed (simp add: empty_source_map_def)
  with position_at_zip [OF build_wf [OF assms]] show ?thesis by simp
qed

theorem build_lookup_witness:
  "lookup (build [(0, 1, 1), (2, 1, 5), (2, 2, 3), (4, 2, 3)]) 5 = Inr (Some (2, 3))"
  using build_lookup [of "[(0, 1, 1), (2, 1, 5), (2, 2, 3), (4, 2, 3)]" 5]
  by (simp add: position_at_def)

lemma fold_min_spec: "fold min cs (c::nat) \<in> insert c (set cs) \<and> (\<forall>x \<in> insert c (set cs). fold min cs c \<le> x)"
proof (induction cs arbitrary: c)
  case (Cons a cs)
  show ?case using Cons.IH [of "min a c"]
    by (auto simp: min_def split: if_splits)
qed simp

lemma lookup_at_marker:
  assumes "source_map_wf m" and "i < length (pcs m)"
  shows "lookup m (int (pcs m ! i)) = Inr (Some (positions m ! i))"
proof -
  have srt: "sorted_wrt (<) (pcs m)" and len: "length (pcs m) = length (positions m)"
    using assms(1) by (simp_all add: source_map_wf_def)
  have lt: "pcs m ! j < pcs m ! k" if "j < k" "k < length (pcs m)" for j k
    using sorted_wrt_nth_less [OF srt] that by simp
  have "sorted (map int (pcs m))"
    using srt by (simp add: sorted_wrt_map sorted_wrt_mono_rel [of _ "(<)"])
  then have "bisect_right (map int (pcs m)) (int (pcs m ! i)) = Suc i"
  proof (rule bisect_right_unique)
    show "map int (pcs m) ! j \<le> int (pcs m ! i)" if "j < Suc i" for j
      using that lt [of j i] assms(2) by (cases "j = i") (auto simp: less_Suc_eq)
    show "int (pcs m ! i) < map int (pcs m) ! j"
      if "Suc i \<le> j" "j < length (map int (pcs m))" for j
      using that lt [of i j] by simp
  qed (use assms in simp)
  with assms(2) len show ?thesis by (simp add: lookup_def Let_def)
qed

text \<open>
  A pc returned for a breakpoint line lies in the requested range, is attributed to
  that very line by \<open>lookup\<close>, and is the least marker of the line in the range.
\<close>

theorem first_pc_on_line_correct:
  assumes "source_map_wf m" and "first_pc_on_line m line start end = Some pc"
  shows "(\<exists>col. lookup m (int pc) = Inr (Some (line, col))) \<and> in_pc_range start end pc
    \<and> (\<forall>i < length (pcs m). fst (positions m ! i) = line \<and> in_pc_range start end (pcs m ! i)
          \<longrightarrow> pc \<le> pcs m ! i)"
proof -
  define cands where "cands = [pc. (pc, (l, col)) \<leftarrow> zip (pcs m) (positions m),
                l = line \<and> in_pc_range start end pc]"
  have len: "length (pcs m) = length (positions m)"
    using assms(1) by (simp add: source_map_wf_def)
  have cands: "x \<in> set cands \<longleftrightarrow> (\<exists>i < length (pcs m). pcs m ! i = x
      \<and> fst (positions m ! i) = line \<and> in_pc_range start end x)" for x
    using len by (cases "in_pc_range start end x") (auto simp: cands_def set_zip, metis fst_conv, metis prod.collapse)
  obtain c cs where cs: "cands = c # cs" and pc: "pc = fold min cs c"
    using assms(2) by (auto simp: first_pc_on_line_def cands_def [symmetric] split: list.splits)
  have mem: "pc \<in> set cands" and least: "\<forall>x \<in> set cands. pc \<le> x"
    using fold_min_spec [of cs c] by (simp_all add: cs pc)
  from mem obtain i where "i < length (pcs m)" "pcs m ! i = pc" "fst (positions m ! i) = line"
    and rng: "in_pc_range start end pc"
    by (auto simp: cands)
  then have "\<exists>col. lookup m (int pc) = Inr (Some (line, col))"
    using lookup_at_marker [OF assms(1), of i] by (metis surjective_pairing)
  moreover have "pc \<le> pcs m ! i"
    if "i < length (pcs m)" "fst (positions m ! i) = line" "in_pc_range start end (pcs m ! i)" for i
    using that least cands by blast
  ultimately show ?thesis using rng by blast
qed

theorem first_pc_on_line_correct_witness:
  "first_pc_on_line (build [(0, 1, 1), (2, 1, 5), (4, 2, 3)]) 2 0 None = Some 4
   \<and> (\<exists>col. lookup (build [(0, 1, 1), (2, 1, 5), (4, 2, 3)]) 4 = Inr (Some (2, col)))"
proof -
  let ?m = "build [(0, 1, 1), (2, 1, 5), (4, 2, 3)]"
  have "source_map_wf ?m" by (rule build_wf) simp
  moreover have "first_pc_on_line ?m 2 0 None = Some 4"
    by (simp add: build_def mark_def empty_source_map_def first_pc_on_line_def in_pc_range_def)
  ultimately show ?thesis using first_pc_on_line_correct [of ?m 2 0 None 4] by auto
qed
end
