(* ===== verification/Values.thy ===== *)
theory Values
  imports Prelude "HOL-Library.Signed_Division"
begin

text \<open>
  The 16-bit word arithmetic of \<open>runtime/vm.py\<close>. Words are held as non-negative Python
  integers; pushing masks to 16 bits and \<open>to_signed\<close> reads a word as two's complement.
  The lemmas relate this to \<open>16 word\<close>, so that every later statement about wrap-around is
  a statement about machine words.
\<close>

section \<open>Constants\<close>

abbreviation (input) WORD_MOD :: nat where "WORD_MOD \<equiv> 65536"        \<comment> \<open>\<open>WORD_MASK + 1\<close>\<close>
abbreviation (input) HEAP_SIZE :: nat where "HEAP_SIZE \<equiv> 65536"
abbreviation (input) NULL_ADDR :: nat where "NULL_ADDR \<equiv> 0"
abbreviation (input) HEADER_BYTES :: nat where "HEADER_BYTES \<equiv> 4"
abbreviation (input) HEAP_START :: nat where "HEAP_START \<equiv> 2"
abbreviation (input) MIN_PAYLOAD :: nat where "MIN_PAYLOAD \<equiv> 2"
abbreviation (input) MARK_BIT :: nat where "MARK_BIT \<equiv> 32768"
abbreviation (input) KIND_STRUCT :: nat where "KIND_STRUCT \<equiv> 0"
abbreviation (input) KIND_RAW :: nat where "KIND_RAW \<equiv> 1"
abbreviation (input) KIND_STRING :: nat where "KIND_STRING \<equiv> 2"
abbreviation (input) KIND_REFARRAY :: nat where "KIND_REFARRAY \<equiv> 3"
abbreviation (input) KIND_VALARRAY :: nat where "KIND_VALARRAY \<equiv> 4"

section \<open>Masking and signs\<close>

text \<open>\<open>value & WORD_MASK\<close> on any Python integer, and \<open>to_signed\<close> on a word.\<close>

definition mask16 :: "int \<Rightarrow> nat" where
  "mask16 v = nat (v mod 65536)"

definition to_signed :: "nat \<Rightarrow> int" where
  "to_signed v = (let w = v mod 65536 in if 32768 \<le> w then int w - 65536 else int w)"

definition trunc_div :: "int \<Rightarrow> int \<Rightarrow> int" where
  "trunc_div a b = (let q = \<bar>a\<bar> div \<bar>b\<bar> in if (a < 0) \<noteq> (b < 0) then - q else q)"

lemma mask16_less [simp]: "mask16 v < 65536"
  by (simp add: mask16_def nat_less_iff)

lemma mask16_of_nat [simp]: "mask16 (int n) = n mod 65536"
  by (simp add: mask16_def nat_mod_distrib)

lemma mask16_small: "0 \<le> v \<Longrightarrow> v < 65536 \<Longrightarrow> mask16 v = nat v"
  by (simp add: mask16_def)

lemma mask16_mod [simp]: "mask16 (v mod 65536) = mask16 v"
  by (simp add: mask16_def)

lemma mask16_eq_iff: "mask16 a = mask16 b \<longleftrightarrow> a mod 65536 = b mod 65536"
  by (simp add: mask16_def eq_nat_nat_iff)

lemma int_mask16: "int (mask16 v) = v mod 65536"
  by (simp add: mask16_def)

lemma to_signed_range: "- 32768 \<le> to_signed v \<and> to_signed v < 32768"
  by (auto simp: to_signed_def Let_def)

lemma to_signed_mod [simp]: "to_signed (v mod 65536) = to_signed v"
  by (simp add: to_signed_def)

lemma mask16_to_signed [simp]: "mask16 (to_signed v) = v mod 65536"
  by (auto simp: mask16_def to_signed_def Let_def nat_mod_distrib)

lemma to_signed_mask16:
  assumes "- 32768 \<le> v" and "v < 32768"
  shows "to_signed (mask16 v) = v"
proof (cases "v < 0")
  case True
  then have "v mod 65536 = v + 65536"
    using assms mod_add_self2 [of v 65536] mod_pos_pos_trivial [of "v + 65536" 65536] by simp
  with True assms show ?thesis by (simp add: to_signed_def mask16_def Let_def)
next
  case False
  with assms show ?thesis by (simp add: to_signed_def mask16_def Let_def)
qed

lemma to_signed_inj: "a < 65536 \<Longrightarrow> b < 65536 \<Longrightarrow> to_signed a = to_signed b \<longleftrightarrow> a = b"
  by (metis mask16_to_signed mod_less)

lemma to_signed_zero_iff: "a < 65536 \<Longrightarrow> to_signed a = 0 \<longleftrightarrow> a = 0"
  by (auto simp: to_signed_def Let_def)

section \<open>Words\<close>

definition word_of :: "nat \<Rightarrow> 16 word" where
  "word_of v = of_nat v"

lemma of_int_mod_word: "(of_int (v mod 65536) :: 16 word) = of_int v"
proof -
  have "(of_int (v mod 65536 + 65536 * (v div 65536)) :: 16 word)
      = of_int (v mod 65536) + of_int 65536 * of_int (v div 65536)"
    by (simp only: of_int_add of_int_mult)
  moreover have "(of_int 65536 :: 16 word) = 0" by simp
  ultimately show ?thesis by (simp only: mod_mult_div_eq mult_zero_left add_0_right)
qed

lemma word_of_mask16 [simp]: "word_of (mask16 v) = of_int v"
proof -
  have "word_of (mask16 v) = of_int (int (mask16 v))" by (simp add: word_of_def)
  then show ?thesis by (simp only: int_mask16 of_int_mod_word)
qed

lemma unat_word_of: "unat (word_of v) = v mod 65536"
  by (simp add: word_of_def unat_of_nat)

lemma word_of_inj: "a < 65536 \<Longrightarrow> b < 65536 \<Longrightarrow> word_of a = word_of b \<longleftrightarrow> a = b"
  by (metis mod_less unat_word_of)

lemma of_int_to_signed [simp]: "of_int (to_signed v) = word_of v"
proof -
  have "word_of (mask16 (to_signed v)) = word_of (v mod 65536)" by simp
  moreover have "word_of (v mod 65536) = word_of v"
    by (simp add: word_unat_eq_iff unat_word_of)
  ultimately show ?thesis by (simp only: word_of_mask16)
qed

lemma sint_word_of: "sint (word_of v) = to_signed v"
proof -
  have "sint (of_int (to_signed v) :: 16 word) = signed_take_bit 15 (to_signed v)"
    by (simp add: signed_of_int del: of_int_to_signed)
  also have "\<dots> = to_signed v"
    using to_signed_range [of v] by (intro signed_take_bit_int_eq_self) simp_all
  finally show ?thesis by simp
qed

lemma trunc_div_eq_sdiv: "trunc_div a b = a sdiv b"
  by (auto simp: trunc_div_def signed_divide_int_def Let_def sgn_if)

lemma trunc_mod_eq_smod: "a - trunc_div a b * b = a smod b"
  by (simp add: trunc_div_eq_sdiv minus_sdiv_mult_eq_smod)

end
