(* ===== verification/Float32.thy ===== *)
theory Float32
  imports Complex_Main Values
begin

text \<open>
  The floating-point part of \<open>runtime/vm.py\<close>. A Python float is an IEEE 754 double; its
  finite non-zero values are kept here as exact rationals, with signed zeros, infinities and
  nan apart. Rounding to double and to single precision is round-to-nearest-even on the exact
  value. A QuinLang float is the 32-bit pattern of a single; \<open>bits_to_float\<close> and
  \<open>float_to_bits\<close> convert, as \<open>struct.unpack\<close> and \<open>struct.pack\<close> do with format \<open><f\<close>.
\<close>

section \<open>Exact values and rounding\<close>

datatype pyfloat = NaN | Inf (negative: bool) | Zero (negative: bool) | Fin rat

fun ilog2 :: "nat \<Rightarrow> nat" where
  "ilog2 n = (if n < 2 then 0 else Suc (ilog2 (n div 2)))"

declare ilog2.simps [simp del]

definition pow2 :: "int \<Rightarrow> rat" where
  "pow2 i = (if 0 \<le> i then 2 ^ nat i else 1 / 2 ^ nat (- i))"

text \<open>The binary exponent of a positive rational: \<open>2 ^ e \<le> x < 2 ^ (e + 1)\<close>.\<close>

definition exponent2 :: "rat \<Rightarrow> int" where
  "exponent2 x =
     (let (n, d) = quotient_of x; e = int (ilog2 (nat n)) - int (ilog2 (nat d)) in
      if pow2 e \<le> x then e else e - 1)"

definition round_half_even :: "rat \<Rightarrow> int" where
  "round_half_even x =
     (let f = \<lfloor>x\<rfloor>; r = x - of_int f in
      if r < 1 / 2 then f else if 1 / 2 < r then f + 1 else if even f then f else f + 1)"

text \<open>
  Rounding a non-zero value to \<open>prec\<close> significant bits, no bit below \<open>2 ^ qmin\<close>; the result
  may be zero (underflow) and is not yet checked for overflow.
\<close>

definition round_binary :: "nat \<Rightarrow> int \<Rightarrow> rat \<Rightarrow> rat" where
  "round_binary prec qmin x =
     (let q = max (exponent2 \<bar>x\<bar> - int prec + 1) qmin in
      (if x < 0 then - 1 else 1) * of_int (round_half_even (\<bar>x\<bar> / pow2 q)) * pow2 q)"

definition double_of :: "rat \<Rightarrow> pyfloat" where
  "double_of x =
     (let y = round_binary 53 (- 1074) x in
      if pow2 1024 \<le> \<bar>y\<bar> then Inf (x < 0) else if y = 0 then Zero (x < 0) else Fin y)"

section \<open>Python's float operations\<close>

fun is_finite :: "pyfloat \<Rightarrow> bool" where
  "is_finite (Zero s) = True"
| "is_finite (Fin x) = True"
| "is_finite v = False"

fun fneg :: "pyfloat \<Rightarrow> pyfloat" where
  "fneg NaN = NaN"
| "fneg (Inf s) = Inf (\<not> s)"
| "fneg (Zero s) = Zero (\<not> s)"
| "fneg (Fin x) = Fin (- x)"

fun fadd :: "pyfloat \<Rightarrow> pyfloat \<Rightarrow> pyfloat" where
  "fadd NaN b = NaN"
| "fadd a NaN = NaN"
| "fadd (Inf s) (Inf t) = (if s = t then Inf s else NaN)"
| "fadd (Inf s) b = Inf s"
| "fadd a (Inf t) = Inf t"
| "fadd (Zero s) (Zero t) = Zero (s \<and> t)"
| "fadd (Zero s) (Fin y) = Fin y"
| "fadd (Fin x) (Zero t) = Fin x"
| "fadd (Fin x) (Fin y) = (if x + y = 0 then Zero False else double_of (x + y))"

definition fsub :: "pyfloat \<Rightarrow> pyfloat \<Rightarrow> pyfloat" where
  "fsub a b = fadd a (fneg b)"

fun fmul :: "pyfloat \<Rightarrow> pyfloat \<Rightarrow> pyfloat" where
  "fmul NaN b = NaN"
| "fmul a NaN = NaN"
| "fmul (Inf s) (Inf t) = Inf (s \<noteq> t)"
| "fmul (Inf s) (Zero t) = NaN"
| "fmul (Zero s) (Inf t) = NaN"
| "fmul (Inf s) (Fin y) = Inf (s \<noteq> (y < 0))"
| "fmul (Fin x) (Inf t) = Inf ((x < 0) \<noteq> t)"
| "fmul (Zero s) (Zero t) = Zero (s \<noteq> t)"
| "fmul (Zero s) (Fin y) = Zero (s \<noteq> (y < 0))"
| "fmul (Fin x) (Zero t) = Zero ((x < 0) \<noteq> t)"
| "fmul (Fin x) (Fin y) = double_of (x * y)"

text \<open>Division by a non-zero value; a zero divisor is \<open>ZeroDivisionError\<close>, which the VM
  checks for first.\<close>

fun fdiv :: "pyfloat \<Rightarrow> pyfloat \<Rightarrow> pyfloat option" where
  "fdiv a (Zero t) = None"
| "fdiv NaN b = Some NaN"
| "fdiv a NaN = Some NaN"
| "fdiv (Inf s) (Inf t) = Some NaN"
| "fdiv (Inf s) (Fin y) = Some (Inf (s \<noteq> (y < 0)))"
| "fdiv (Zero s) (Inf t) = Some (Zero (s \<noteq> t))"
| "fdiv (Fin x) (Inf t) = Some (Zero ((x < 0) \<noteq> t))"
| "fdiv (Zero s) (Fin y) = Some (Zero (s \<noteq> (y < 0)))"
| "fdiv (Fin x) (Fin y) = Some (double_of (x / y))"

fun feq :: "pyfloat \<Rightarrow> pyfloat \<Rightarrow> bool" where
  "feq NaN b = False"
| "feq a NaN = False"
| "feq (Zero s) (Zero t) = True"
| "feq a b = (a = b)"

fun flt :: "pyfloat \<Rightarrow> pyfloat \<Rightarrow> bool" where
  "flt NaN b = False"
| "flt a NaN = False"
| "flt (Inf s) (Inf t) = (s \<and> \<not> t)"
| "flt (Inf s) b = s"
| "flt a (Inf t) = (\<not> t)"
| "flt (Zero s) (Zero t) = False"
| "flt (Zero s) (Fin y) = (0 < y)"
| "flt (Fin x) (Zero t) = (x < 0)"
| "flt (Fin x) (Fin y) = (x < y)"

definition float_of_int :: "int \<Rightarrow> pyfloat" where
  "float_of_int i = (if i = 0 then Zero False else double_of (of_int i))"

fun int_of_float :: "pyfloat \<Rightarrow> host_error + int" where
  "int_of_float NaN = Inl ValueError"
| "int_of_float (Inf s) = Inl OverflowError"
| "int_of_float (Zero s) = Inr 0"
| "int_of_float (Fin x) = Inr (if x < 0 then - \<lfloor>- x\<rfloor> else \<lfloor>x\<rfloor>)"

section \<open>The 32-bit pattern\<close>

definition unpack_f :: "nat \<Rightarrow> pyfloat" where
  "unpack_f bits =
     (let s = (bits div 2 ^ 31) mod 2 = 1;
          e = (bits div 2 ^ 23) mod 2 ^ 8;
          m = bits mod 2 ^ 23;
          sg = (if s then - 1 else 1) in
      if e = 255 then (if m = 0 then Inf s else NaN)
      else if e = 0 then (if m = 0 then Zero s else Fin (sg * of_nat m * pow2 (- 149)))
      else Fin (sg * of_nat (2 ^ 23 + m) * pow2 (int e - 150)))"

text \<open>\<open>struct.pack("<f", v)\<close>: \<open>None\<close> is its \<open>OverflowError\<close>. A nan packs to some quiet
  pattern; no caller packs one and keeps the bits.\<close>

definition pack_f :: "pyfloat \<Rightarrow> nat option" where
  "pack_f v = (case v of
     NaN \<Rightarrow> Some 0x7fc00000
   | Inf s \<Rightarrow> Some ((if s then 2 ^ 31 else 0) + 255 * 2 ^ 23)
   | Zero s \<Rightarrow> Some (if s then 2 ^ 31 else 0)
   | Fin x \<Rightarrow>
       (let y = round_binary 24 (- 149) x; sb = (if x < 0 then 2 ^ 31 else 0) in
        if pow2 128 \<le> \<bar>y\<bar> then None
        else if y = 0 then Some sb
        else let e = exponent2 \<bar>y\<bar> in
          if e < - 126 then Some (sb + nat \<lfloor>\<bar>y\<bar> * pow2 149\<rfloor>)
          else Some (sb + nat (e + 127) * 2 ^ 23 + (nat \<lfloor>\<bar>y\<bar> * pow2 (23 - e)\<rfloor> - 2 ^ 23))))"

definition bits_to_float :: "nat \<Rightarrow> pyfloat" where
  "bits_to_float bits = unpack_f (bits mod 2 ^ 32)"

datatype float_fault = NotFinite pyfloat | DoesNotFit pyfloat

definition float_to_bits :: "pyfloat \<Rightarrow> float_fault + nat" where
  "float_to_bits v =
     (if \<not> is_finite v then Inl (NotFinite v)
      else case pack_f v of None \<Rightarrow> Inl (DoesNotFit v) | Some b \<Rightarrow> Inr b)"

section \<open>How a float prints\<close>

text \<open>
  \<open>format_float\<close> tries \<open>f"{value:.{digits}g}"\<close> for one to nine digits and keeps the first
  text that reads back as the same 32-bit value. A decimal rendering is a digit string of the
  requested length and a decimal exponent, correctly rounded; reading it back rounds its exact
  value to a double. Packing that double may overflow, and the \<open>OverflowError\<close> of
  \<open>struct.pack\<close> is not caught here.
\<close>

fun ilog10 :: "nat \<Rightarrow> nat" where
  "ilog10 n = (if n < 10 then 0 else Suc (ilog10 (n div 10)))"

declare ilog10.simps [simp del]

definition pow10 :: "int \<Rightarrow> rat" where
  "pow10 i = (if 0 \<le> i then 10 ^ nat i else 1 / 10 ^ nat (- i))"

definition exponent10 :: "rat \<Rightarrow> int" where
  "exponent10 x =
     (let (n, d) = quotient_of x; e = int (ilog10 (nat n)) - int (ilog10 (nat d)) in
      if pow10 e \<le> x then e else e - 1)"

text \<open>\<open>d\<close> significant digits, as a number below \<open>10 ^ d\<close>, and the exponent of the first.\<close>

definition sci_digits :: "nat \<Rightarrow> rat \<Rightarrow> nat \<times> int" where
  "sci_digits d x =
     (let e = exponent10 x; n = nat (round_half_even (x / pow10 (e - int d + 1))) in
      if n = 10 ^ d then (10 ^ (d - 1), e + 1) else (n, e))"

definition strip_zeros :: "ustr \<Rightarrow> ustr" where
  "strip_zeros ds = rev (dropWhile (\<lambda>c. c = 48) (rev ds))"

definition with_fraction :: "ustr \<Rightarrow> ustr \<Rightarrow> ustr" where
  "with_fraction whole fr =
     (let f = strip_zeros fr in if f = [] then whole else whole @ lit ''.'' @ f)"

definition exponent_text :: "int \<Rightarrow> ustr" where
  "exponent_text e =
     (let ds = dec_nat (nat \<bar>e\<bar>) in
      lit (if e < 0 then ''e-'' else ''e+'') @ (if length ds < 2 then 48 # ds else ds))"

text \<open>Positional notation when the exponent is in \<open>- 4 ..< limit\<close>, exponent notation otherwise.\<close>

definition decimal_text :: "int \<Rightarrow> ustr \<Rightarrow> int \<Rightarrow> ustr" where
  "decimal_text limit ds e =
     (if - 4 \<le> e \<and> e < limit then
        (if 0 \<le> e then
           (let padded = ds @ replicate (nat (e + 1) - length ds) 48 in
            with_fraction (take (nat (e + 1)) padded) (drop (nat (e + 1)) padded))
         else with_fraction [48] (replicate (nat (- e - 1)) 48 @ ds))
      else with_fraction (take 1 ds) (drop 1 ds) @ exponent_text e)"

definition sign_text :: "bool \<Rightarrow> ustr" where
  "sign_text s = (if s then lit ''-'' else [])"

fun g_text :: "nat \<Rightarrow> pyfloat \<Rightarrow> ustr" where
  "g_text d NaN = lit ''nan''"
| "g_text d (Inf s) = sign_text s @ lit ''inf''"
| "g_text d (Zero s) = sign_text s @ lit ''0''"
| "g_text d (Fin x) =
     (let (n, e) = sci_digits d \<bar>x\<bar> in sign_text (x < 0) @ decimal_text (int d) (dec_nat n) e)"

fun g_value :: "nat \<Rightarrow> pyfloat \<Rightarrow> pyfloat" where
  "g_value d (Fin x) =
     (let (n, e) = sci_digits d \<bar>x\<bar> in
      double_of ((if x < 0 then - 1 else 1) * of_nat n * pow10 (e - int d + 1)))"
| "g_value d v = v"

text \<open>\<open>repr\<close> of a double: the shortest digits that read back as the same double.\<close>

definition repr_float :: "pyfloat \<Rightarrow> ustr" where
  "repr_float v = (case v of
     NaN \<Rightarrow> lit ''nan''
   | Inf s \<Rightarrow> sign_text s @ lit ''inf''
   | Zero s \<Rightarrow> sign_text s @ lit ''0.0''
   | Fin x \<Rightarrow>
       (let d = (case filter (\<lambda>d. g_value d v = v) [1..<18] of [] \<Rightarrow> 17 | d # _ \<Rightarrow> d);
            (n, e) = sci_digits d \<bar>x\<bar>;
            t = decimal_text 16 (dec_nat n) e in
        sign_text (x < 0) @ (if 46 \<in> set t \<or> 101 \<in> set t then t else t @ lit ''.0'')))"

fun shortest_text :: "nat list \<Rightarrow> pyfloat \<Rightarrow> host_error + ustr" where
  "shortest_text [] v = Inr (repr_float v)"
| "shortest_text (d # ds) v =
     (case pack_f (g_value d v) of
        None \<Rightarrow> Inl OverflowError
      | Some b \<Rightarrow> if feq (unpack_f b) v then Inr (g_text d v) else shortest_text ds v)"

definition format_float :: "pyfloat \<Rightarrow> host_error + ustr" where
  "format_float v =
     bindR (shortest_text [1..<10] v) (\<lambda>text.
       if (\<exists>c \<in> set text. c \<in> set (lit ''.eE'')) \<or> text \<in> {lit ''inf'', lit ''-inf'', lit ''nan''}
       then Inr text else Inr (text @ lit ''.0''))"

section \<open>Binary exponents\<close>

lemma pow2_powi: "pow2 i = 2 powi i"
  by (auto simp: pow2_def power_int_def field_simps)

lemma pow2_pos [simp]: "0 < pow2 i"
  by (simp add: pow2_powi)

lemma pow2_nonzero [simp]: "pow2 i \<noteq> 0"
  by (simp add: pow2_powi)

lemma scaled_not_neg [simp]: "\<not> rat_of_nat n * pow2 q < 0"
  using mult_nonneg_nonneg [OF of_nat_0_le_iff less_imp_le [OF pow2_pos]] by (simp add: not_less)

lemma scaled_abs [simp]: "\<bar>rat_of_nat n * pow2 q\<bar> = rat_of_nat n * pow2 q"
  using scaled_not_neg [of n q] by linarith

lemma pow2_add: "pow2 (a + b) = pow2 a * pow2 b"
  by (simp add: pow2_powi power_int_add)

lemma abs_pow2 [simp]: "\<bar>pow2 i\<bar> = pow2 i"
  using pow2_pos [of i] by linarith

lemma pow2_0 [simp]: "pow2 0 = 1"
  by (simp add: pow2_def)

lemma pow2_nat: "pow2 (int n) = 2 ^ n"
  by (simp add: pow2_def)

lemma pow2_mono: "a \<le> b \<Longrightarrow> pow2 a \<le> pow2 b"
  by (simp add: pow2_powi power_int_increasing)

lemma pow2_strict_mono: "a < b \<Longrightarrow> pow2 a < pow2 b"
  by (simp add: pow2_powi power_int_strict_increasing)

lemma pow2_less_iff: "pow2 a < pow2 b \<longleftrightarrow> a < b"
  by (metis linorder_not_less pow2_mono pow2_strict_mono)

lemma ilog2_spec: "0 < n \<Longrightarrow> 2 ^ ilog2 n \<le> n \<and> n < 2 ^ Suc (ilog2 n)"
proof (induction n rule: ilog2.induct)
  case (1 n)
  show ?case
  proof (cases "n < 2")
    case True
    with 1 show ?thesis by (subst (1 2) ilog2.simps) simp
  next
    case False
    then have "ilog2 n = Suc (ilog2 (n div 2))" by (subst ilog2.simps) simp
    with 1 False show ?thesis by (auto simp: less_eq_div_iff_mult_less_eq div_less_iff_less_mult)
  qed
qed

lemma exponent2_spec:
  assumes "0 < x"
  shows "pow2 (exponent2 x) \<le> x \<and> x < pow2 (exponent2 x + 1)"
proof -
  obtain n d where q: "quotient_of x = (n, d)" by (cases "quotient_of x") auto
  have d: "0 < d" and x: "x = of_int n / of_int d"
    using q quotient_of_denom_pos quotient_of_div by blast+
  with assms have n: "0 < n" by (simp add: zero_less_divide_iff)
  define a where "a = ilog2 (nat n)"
  define b where "b = ilog2 (nat d)"
  have "(2::int) ^ a \<le> n \<and> n < 2 ^ Suc a" "(2::int) ^ b \<le> d \<and> d < 2 ^ Suc b"
    using ilog2_spec [of "nat n"] ilog2_spec [of "nat d"] n d
    by (auto simp: a_def b_def nat_le_iff nat_less_iff le_nat_iff)
  then have N: "(2::rat) ^ a \<le> of_int n" "of_int n < (2::rat) ^ Suc a"
    and D: "(2::rat) ^ b \<le> of_int d" "of_int d < (2::rat) ^ Suc b"
    by (metis of_int_le_iff of_int_less_iff of_int_numeral of_int_power)+
  have "x < 2 ^ Suc a / 2 ^ b"
    unfolding x using N D d n by (intro frac_less) auto
  then have up: "x < pow2 (int a - int b + 1)"
    by (simp add: pow2_powi power_int_diff power_int_add mult.commute)
  have "2 ^ a / 2 ^ Suc b \<le> x"
    unfolding x using N D d n by (intro frac_le) auto
  then have lo: "pow2 (int a - int b - 1) \<le> x"
    by (simp add: pow2_powi power_int_diff power_int_add field_simps)
  show ?thesis
    using up lo by (auto simp: exponent2_def q Let_def a_def [symmetric] b_def [symmetric] not_le)
qed

lemma exponent2_unique:
  assumes "pow2 e \<le> x" and "x < pow2 (e + 1)"
  shows "exponent2 x = e"
proof -
  have "0 < x" using assms(1) pow2_pos less_le_trans by blast
  with exponent2_spec [of x] assms
  have "pow2 e < pow2 (exponent2 x + 1)" "pow2 (exponent2 x) < pow2 (e + 1)" by linarith+
  then show ?thesis by (simp add: pow2_less_iff)
qed

lemma exponent2_scaled:
  assumes "2 ^ k \<le> n" and "n < 2 ^ Suc k"
  shows "exponent2 (of_nat n * pow2 q) = int k + q"
proof (rule exponent2_unique)
  have "(2::rat) ^ k \<le> of_nat n" and "of_nat n < (2::rat) ^ Suc k"
    using assms by (metis of_nat_le_iff of_nat_less_iff of_nat_numeral of_nat_power)+
  then show "pow2 (int k + q) \<le> of_nat n * pow2 q"
    and "of_nat n * pow2 q < pow2 (int k + q + 1)"
    by (auto simp: pow2_add pow2_nat mult.commute pow2_def [of 1])
qed

lemma round_half_even_of_int [simp]: "round_half_even (of_int i) = i"
  by (simp add: round_half_even_def)

lemma round_half_even_of_nat [simp]: "round_half_even (of_nat n) = int n"
  using round_half_even_of_int [of "int n"] by simp

lemma round_binary_exact:
  assumes "max (exponent2 (of_nat n * pow2 q) - int prec + 1) qmin = q" and "0 < n"
  shows "round_binary prec qmin (of_nat n * pow2 q) = of_nat n * pow2 q"
    and "round_binary prec qmin (- (of_nat n * pow2 q)) = - (of_nat n * pow2 q)"
proof -
  have "0 < rat_of_nat n * pow2 q" using assms(2) by simp
  then have "\<not> rat_of_nat n * pow2 q < 0" by linarith
  with assms show "round_binary prec qmin (of_nat n * pow2 q) = of_nat n * pow2 q"
    and "round_binary prec qmin (- (of_nat n * pow2 q)) = - (of_nat n * pow2 q)"
    by (simp_all add: round_binary_def Let_def)
qed


section \<open>Packing inverts unpacking\<close>

text \<open>A significand below \<open>2 ^ 24\<close> that is normal, or sits at the subnormal exponent, is
  representable in single precision and rounds to itself.\<close>

definition single_rep :: "nat \<Rightarrow> int \<Rightarrow> bool" where
  "single_rep n q \<longleftrightarrow> 0 < n \<and> n < 2 ^ 24 \<and> - 149 \<le> q \<and> q \<le> 104 \<and> (2 ^ 23 \<le> n \<or> q = - 149)"

lemma exponent2_single:
  assumes "single_rep n q"
  shows "2 ^ 23 \<le> n \<Longrightarrow> exponent2 (of_nat n * pow2 q) = 23 + q"
    and "n < 2 ^ 23 \<Longrightarrow> exponent2 (of_nat n * pow2 q) < 23 + q"
proof -
  show "exponent2 (of_nat n * pow2 q) = 23 + q" if "2 ^ 23 \<le> n"
    using that assms exponent2_scaled [of 23 n q] by (simp add: single_rep_def)
  assume "n < 2 ^ 23"
  moreover have "2 ^ ilog2 n \<le> n" "n < 2 ^ Suc (ilog2 n)"
    using ilog2_spec [of n] assms by (auto simp: single_rep_def)
  moreover from calculation have "(2::nat) ^ ilog2 n < 2 ^ 23" by (rule_tac le_less_trans)
  then have "ilog2 n < 23" by (rule power_less_imp_less_exp [rotated]) simp
  ultimately show "exponent2 (of_nat n * pow2 q) < 23 + q"
    using exponent2_scaled [of "ilog2 n" n q] by simp
qed

lemma round_single:
  assumes "single_rep n q"
  shows "round_binary 24 (- 149) (of_nat n * pow2 q) = of_nat n * pow2 q"
    and "round_binary 24 (- 149) (- (of_nat n * pow2 q)) = - (of_nat n * pow2 q)"
proof -
  have "max (exponent2 (of_nat n * pow2 q) - int 24 + 1) (- 149) = q"
    using assms exponent2_single [OF assms] by (cases "2 ^ 23 \<le> n") (auto simp: single_rep_def)
  then show "round_binary 24 (- 149) (of_nat n * pow2 q) = of_nat n * pow2 q"
    and "round_binary 24 (- 149) (- (of_nat n * pow2 q)) = - (of_nat n * pow2 q)"
    using assms round_binary_exact [of n q 24 "- 149"] by (simp_all add: single_rep_def)
qed

lemma single_below_overflow:
  assumes "single_rep n q"
  shows "of_nat n * pow2 q < pow2 128"
proof -
  have "rat_of_nat n < 2 ^ 24"
    using assms by (metis of_nat_less_iff of_nat_numeral of_nat_power single_rep_def)
  then have "of_nat n * pow2 q < pow2 24 * pow2 q" by (simp add: pow2_def [of 24])
  also have "\<dots> = pow2 (24 + q)" by (simp add: pow2_add)
  also have "\<dots> \<le> pow2 128" using assms by (intro pow2_mono) (simp add: single_rep_def)
  finally show ?thesis .
qed

definition single_bits :: "nat \<Rightarrow> int \<Rightarrow> nat" where
  "single_bits n q = (if 2 ^ 23 \<le> n then nat (q + 150) * 2 ^ 23 + (n - 2 ^ 23) else n)"

lemma pack_single:
  assumes "single_rep n q"
  shows "pack_f (Fin (of_nat n * pow2 q)) = Some (single_bits n q)"
    and "pack_f (Fin (- (of_nat n * pow2 q))) = Some (2 ^ 31 + single_bits n q)"
proof -
  have pos: "0 < rat_of_nat n * pow2 q" using assms by (simp add: single_rep_def)
  have scale: "of_nat n * pow2 q * pow2 (- q) = of_nat n"
    by (simp add: mult.assoc pow2_add [symmetric])
  have floor_scale: "\<lfloor>of_nat n * pow2 q * pow2 (- q)\<rfloor> = int n"
    by (simp only: scale floor_of_nat)
  have signs: "\<not> of_nat n * pow2 q < 0" "\<not> pow2 128 \<le> of_nat n * pow2 q"
    "\<not> of_nat n * pow2 q = 0"
    using pos single_below_overflow [OF assms] by linarith+
  have q149: "n < 2 ^ 23 \<Longrightarrow> q = - 149" using assms by (auto simp: single_rep_def)
  have "pack_f (Fin (of_nat n * pow2 q)) = Some (single_bits n q)
    \<and> pack_f (Fin (- (of_nat n * pow2 q))) = Some (2 ^ 31 + single_bits n q)"
  proof (cases "2 ^ 23 \<le> n")
    case True
    then have "exponent2 (of_nat n * pow2 q) = 23 + q"
      using exponent2_single(1) [OF assms] by simp
    moreover have "- 149 \<le> q" using assms by (simp add: single_rep_def)
    ultimately show ?thesis
      using True signs floor_scale round_single [OF assms]
      by (simp add: pack_f_def Let_def single_bits_def add.commute)
  next
    case False
    with exponent2_single(2) [OF assms] q149
    have "exponent2 (of_nat n * pow2 q) < - 126" and "q = - 149" by auto
    moreover have "nat \<lfloor>of_nat n * pow2 q * pow2 149\<rfloor> = n"
      using floor_scale \<open>q = - 149\<close> by simp
    ultimately show ?thesis
      using False signs round_single [OF assms]
      by (simp add: pack_f_def Let_def single_bits_def)
  qed
  then show "pack_f (Fin (of_nat n * pow2 q)) = Some (single_bits n q)"
    and "pack_f (Fin (- (of_nat n * pow2 q))) = Some (2 ^ 31 + single_bits n q)" by auto
qed

lemma bits_split:
  assumes "(bits::nat) < 2 ^ 32"
  shows "bits = (bits div 2 ^ 31) mod 2 * 2 ^ 31 + ((bits div 2 ^ 23) mod 2 ^ 8 * 2 ^ 23 + bits mod 2 ^ 23)"
proof -
  define d where "d = bits div 2 ^ 23"
  have "bits = d * 2 ^ 23 + bits mod 2 ^ 23" by (simp add: d_def)
  moreover have "d = d div 2 ^ 8 * 2 ^ 8 + d mod 2 ^ 8" by simp
  moreover have "d div 2 ^ 8 = bits div 2 ^ 31 mod 2"
    using assms by (simp add: d_def div_mult2_eq [symmetric] less_mult_imp_div_less)
  ultimately have "bits = (bits div 2 ^ 31 mod 2 * 2 ^ 8 + d mod 2 ^ 8) * 2 ^ 23 + bits mod 2 ^ 23"
    by metis
  moreover have "(h * 2 ^ 8 + x) * 2 ^ 23 + y = h * 2 ^ 31 + (x * 2 ^ 23 + y)" for h x y :: nat
    by simp
  ultimately show ?thesis unfolding d_def by metis
qed

text \<open>
  Claim C25. Every finite 32-bit pattern survives unpacking and packing: what \<open>_pop_float\<close>
  reads and \<open>_push_float\<close> writes back is the identical pattern, subnormals and signed zeros
  included, so a float never drifts by being moved.
\<close>

theorem float_roundtrip:
  assumes "bits < 2 ^ 32" and "is_finite (bits_to_float bits)"
  shows "float_to_bits (bits_to_float bits) = Inr bits"
proof -
  define s where "s = ((bits div 2 ^ 31) mod 2 = 1)"
  define e where "e = (bits div 2 ^ 23) mod 2 ^ 8"
  define m where "m = bits mod 2 ^ 23"
  have bits: "bits = (if s then 2 ^ 31 else 0) + (e * 2 ^ 23 + m)"
    using bits_split [OF assms(1)] by (auto simp: s_def e_def m_def)
  have unpack: "bits_to_float bits = (if e = 255 then (if m = 0 then Inf s else NaN)
      else if e = 0 then (if m = 0 then Zero s else Fin ((if s then - 1 else 1) * of_nat m * pow2 (- 149)))
      else Fin ((if s then - 1 else 1) * of_nat (2 ^ 23 + m) * pow2 (int e - 150)))"
    using assms(1) unfolding bits_to_float_def unpack_f_def Let_def s_def e_def m_def by simp
  have m: "m < 2 ^ 23" and e: "e < 256" by (simp_all add: m_def e_def)
  have "e \<noteq> 255" using assms(2) unpack by (auto split: if_splits)
  have "float_to_bits (bits_to_float bits) = Inr ((if s then 2 ^ 31 else 0) + (e * 2 ^ 23 + m))"
  proof (cases "e = 0")
    case True
    show ?thesis
    proof (cases "m = 0")
      case False
      then have "single_rep m (- 149)" using m by (simp add: single_rep_def)
      from pack_single [OF this] True False m show ?thesis
        by (auto simp: float_to_bits_def unpack single_bits_def)
    qed (simp add: float_to_bits_def unpack pack_f_def True)
  next
    case False
    with e \<open>e \<noteq> 255\<close> m have "single_rep (2 ^ 23 + m) (int e - 150)"
      by (simp add: single_rep_def)
    note pack = pack_single [OF this]
    have "bits_to_float bits = Fin (if s then - (of_nat (2 ^ 23 + m) * pow2 (int e - 150))
        else of_nat (2 ^ 23 + m) * pow2 (int e - 150))"
      using False \<open>e \<noteq> 255\<close> by (simp only: unpack if_False) (simp add: minus_mult_left)
    with pack False show ?thesis
      by (cases s) (simp_all add: float_to_bits_def single_bits_def)
  qed
  with bits show ?thesis by simp
qed
theorem float_roundtrip_witness:
  "float_to_bits (bits_to_float 2147483649) = Inr 2147483649"
proof (rule float_roundtrip)
  show "is_finite (bits_to_float 2147483649)"
    by (simp add: bits_to_float_def unpack_f_def Let_def)
qed simp

end
