(* ===== verification/Machine.thy ===== *)
theory Machine
  imports Bytecode Float32
begin

text \<open>
  The state of the virtual machine of \<open>runtime/vm.py\<close>: the program's tables, frames, the
  operand stack with its parallel reference tags, the heap as bytes, and the faults the machine
  raises. Python lists that grow at their end (the operand stack, the call stack) are kept top
  first.
\<close>

section \<open>Faults\<close>

text \<open>One constructor per raise site of \<open>VMError\<close>, with the values its message reports.\<close>

datatype vm_fault =
    NoMain
  | StackUnderflow | StackUnderflowOn opcode
  | LocalOutOfRange int nat
  | FloatFault float_fault
  | CorruptHeap nat nat | OutOfMemory
  | UnknownStruct int | ArrayNegative int | ArrayTooLong int
  | NullReferenceIn ustr | NotAnArray nat | ArrayBounds int int
  | NegativeSize int
  | StringTooLong nat | WideCharacter ustr nat | NotBytes ustr ustr
  | NeedsValueArray | ElementNotByte nat int
  | NullString | NotAString nat
  | UnknownLiteral int
  | HeapRange ustr int
  | InvalidFunction ustr int
  | DivisionByZero | ModuloByZero | ShiftRange opcode int
  | FloatDivisionByZero | FloatToIntRange pyfloat
  | CharAtRange int nat | SliceRange int int nat | CharCode int
  | UnbalancedRet nat nat
  | NegativeCount opcode int
  | NullInMatch | NotAVariant nat | UnknownVariant int
  | ArgvRange int nat
  | NullDereference opcode
  | Panic ustr

datatype vm_error = VMError vm_fault | Host host_error

abbreviation fault :: "vm_fault \<Rightarrow> vm_error + 'a" where
  "fault f \<equiv> Inl (VMError f)"

abbreviation raise_host :: "host_error \<Rightarrow> vm_error + 'a" where
  "raise_host e \<equiv> Inl (Host e)"

section \<open>The program's tables\<close>

record field_layout =
  fl_name :: ustr
  fl_type_name :: ustr
  fl_offset :: nat

record struct_layout =
  sl_name :: ustr
  word_size :: nat
  ref_offsets :: "nat list"
  sl_fields :: "field_layout list"
  is_variant :: bool

record local_info =
  li_name :: ustr
  li_slot :: nat
  li_type_name :: ustr
  li_words :: nat
  is_param :: bool

record function_info =
  fn_name :: ustr
  entry_pc :: nat
  num_locals :: nat
  num_params :: nat
  ref_slots :: "nat list"
  param_words :: "nat list"
  fn_locals :: "local_info list"
  source_file :: ustr

text \<open>
  The tables a machine is built from. A struct table may have holes (\<open>None\<close>), as codegen
  leaves them for unused type ids; \<open>strings\<close> is the literal table in insertion order.
\<close>

record program =
  code :: bytecode
  fns :: "function_info list"
  strings :: "(nat \<times> ustr) list"
  structs :: "struct_layout option list"
  srcmap :: source_map
  prog_args :: "ustr list"

section \<open>The machine\<close>

record frame =
  return_pc :: int
  frame_locals :: "nat list"
  stack_base :: nat
  fn_index :: nat

record heap_stats =
  collections :: nat
  objects_freed :: nat
  bytes_freed :: nat
  objects_allocated :: nat
  objects_moved :: nat

type_synonym byte = "8 word"
type_synonym bytes = "byte list"

record 'w vm =
  stack :: "nat list"
  stack_is_ref :: "bool list"
  call_stack :: "frame list"
  pc :: int
  locals :: "nat list"
  current_fn :: nat
  frame_base :: nat
  heap :: "nat \<Rightarrow> byte"
  heap_len :: nat
  heap_ptr :: nat
  stats :: heap_stats
  literals :: "nat list"
  variants :: "nat list"
  file_error :: ustr
  io :: 'w

definition new_stats :: heap_stats where
  "new_stats = \<lparr>collections = 0, objects_freed = 0, bytes_freed = 0,
     objects_allocated = 0, objects_moved = 0\<rparr>"

definition new_vm :: "'w \<Rightarrow> 'w vm" where
  "new_vm w = \<lparr>stack = [], stack_is_ref = [], call_stack = [], pc = 0, locals = [],
     current_fn = 0, frame_base = 0, heap = (\<lambda>_. 0), heap_len = HEAP_SIZE,
     heap_ptr = HEAP_START, stats = new_stats, literals = [], variants = [],
     file_error = [], io = w\<rparr>"

section \<open>Operand stack and locals\<close>

text \<open>
  \<open>_push\<close> masks to 16 bits, \<open>_push_raw\<close> does not; every pop refuses to reach below the
  frame's base. The two parallel lists move in step.
\<close>

definition push_raw :: "nat \<Rightarrow> bool \<Rightarrow> 'w vm \<Rightarrow> 'w vm" where
  "push_raw v is_ref s = s\<lparr>stack := v # stack s, stack_is_ref := is_ref # stack_is_ref s\<rparr>"

definition push :: "int \<Rightarrow> bool \<Rightarrow> 'w vm \<Rightarrow> 'w vm" where
  "push v is_ref s = push_raw (mask16 v) is_ref s"

definition pop_tagged :: "'w vm \<Rightarrow> vm_error + ((nat \<times> bool) \<times> 'w vm)" where
  "pop_tagged s =
     (if length (stack s) \<le> frame_base s then fault StackUnderflow
      else case (stack s, stack_is_ref s) of
        (v # vs, r # rs) \<Rightarrow> Inr ((v, r), s\<lparr>stack := vs, stack_is_ref := rs\<rparr>)
      | _ \<Rightarrow> raise_host IndexError)"

definition pop :: "'w vm \<Rightarrow> vm_error + (nat \<times> 'w vm)" where
  "pop s = bindR (pop_tagged s) (\<lambda>((v, _), s'). Inr (v, s'))"

definition lift_float :: "float_fault + 'a \<Rightarrow> vm_error + 'a" where
  "lift_float r = (case r of Inl f \<Rightarrow> fault (FloatFault f) | Inr x \<Rightarrow> Inr x)"

definition lift_host :: "host_error + 'a \<Rightarrow> vm_error + 'a" where
  "lift_host r = (case r of Inl e \<Rightarrow> raise_host e | Inr x \<Rightarrow> Inr x)"

definition push_float :: "pyfloat \<Rightarrow> 'w vm \<Rightarrow> vm_error + 'w vm" where
  "push_float v s = bindR (lift_float (float_to_bits v)) (\<lambda>b. Inr (push_raw b False s))"

definition pop_float :: "'w vm \<Rightarrow> vm_error + (pyfloat \<times> 'w vm)" where
  "pop_float s = bindR (pop s) (\<lambda>(v, s'). Inr (bits_to_float v, s'))"

definition get_local :: "'w vm \<Rightarrow> int \<Rightarrow> vm_error + nat" where
  "get_local s i =
     (if i < 0 \<or> int (length (locals s)) \<le> i
      then fault (LocalOutOfRange i (length (locals s))) else Inr (locals s ! nat i))"

definition set_local :: "int \<Rightarrow> int \<Rightarrow> 'w vm \<Rightarrow> vm_error + 'w vm" where
  "set_local i v s =
     (if i < 0 \<or> int (length (locals s)) \<le> i
      then fault (LocalOutOfRange i (length (locals s)))
      else Inr (s\<lparr>locals := (locals s)[nat i := mask16 v]\<rparr>))"

text \<open>\<open>low | high << 16\<close> for a low part below \<open>2 ^ 16\<close>, which a stored slot always is.\<close>

definition get_local_float :: "'w vm \<Rightarrow> int \<Rightarrow> vm_error + pyfloat" where
  "get_local_float s i =
     bindR (get_local s i) (\<lambda>low. bindR (get_local s (i + 1)) (\<lambda>high.
       Inr (bits_to_float (semiring_bit_operations_class.or low (push_bit 16 high)))))"

definition set_local_float :: "int \<Rightarrow> pyfloat \<Rightarrow> 'w vm \<Rightarrow> vm_error + 'w vm" where
  "set_local_float i v s =
     bindR (lift_float (float_to_bits v)) (\<lambda>bits.
     bindR (set_local i (int (bits mod WORD_MOD)) s)
       (set_local (i + 1) (int (bits div WORD_MOD mod WORD_MOD))))"

section \<open>Heap words\<close>

text \<open>
  Reading and writing a little-endian word of the \<open>bytearray\<close>; an index past its end is
  Python's \<open>IndexError\<close>. \<open>rword\<close> and \<open>wword\<close> are the byte-level core.
\<close>

definition rword :: "(nat \<Rightarrow> byte) \<Rightarrow> nat \<Rightarrow> nat" where
  "rword h a = unat (h (a + 1)) * 256 + unat (h a)"

definition wword :: "(nat \<Rightarrow> byte) \<Rightarrow> nat \<Rightarrow> nat \<Rightarrow> (nat \<Rightarrow> byte)" where
  "wword h a v = h(a := of_nat v, a + 1 := of_nat (v div 256))"

definition read_word :: "'w vm \<Rightarrow> nat \<Rightarrow> vm_error + nat" where
  "read_word s a = (if a + 1 < heap_len s then Inr (rword (heap s) a) else raise_host IndexError)"

definition write_word :: "nat \<Rightarrow> nat \<Rightarrow> 'w vm \<Rightarrow> vm_error + 'w vm" where
  "write_word a v s =
     (if a + 1 < heap_len s then Inr (s\<lparr>heap := wword (heap s) a v\<rparr>) else raise_host IndexError)"

definition check_heap_word :: "int \<Rightarrow> ustr \<Rightarrow> 'w vm \<Rightarrow> vm_error + unit" where
  "check_heap_word addr what s =
     checkR (\<not> (addr < 0 \<or> int (heap_len s) < addr + 2)) (VMError (HeapRange what addr))"

lemma unat_byte_less [simp]: "unat (b :: byte) < 256"
  using unsigned_less [of b, where ?'a = nat] by simp

lemma rword_less [simp]: "rword h a < 65536"
proof -
  have "unat (h (a + 1)) \<le> 255" "unat (h a) \<le> 255"
    using unat_byte_less [of "h (a + 1)"] unat_byte_less [of "h a"] by linarith+
  then show ?thesis by (simp add: rword_def)
qed

lemma rword_wword_same [simp]: "v < 65536 \<Longrightarrow> rword (wword h a v) a = v"
proof -
  assume "v < 65536"
  then have "v div 256 mod 256 = v div 256" by (simp add: div_less_iff_less_mult)
  then show ?thesis by (simp add: rword_def wword_def unat_of_nat)
qed

lemma rword_wword_other [simp]:
  "b + 1 < a \<or> a + 1 < b \<Longrightarrow> rword (wword h a v) b = rword h b"
  by (auto simp: rword_def wword_def)

lemma wword_other: "b \<noteq> a \<Longrightarrow> b \<noteq> a + 1 \<Longrightarrow> wword h a v b = h b"
  by (simp add: wword_def)

lemma rword_cong: "h a = h' a \<Longrightarrow> h (a + 1) = h' (a + 1) \<Longrightarrow> rword h a = rword h' a"
  by (simp add: rword_def)

lemma read_word_ok [simp]: "a + 1 < heap_len s \<Longrightarrow> read_word s a = Inr (rword (heap s) a)"
  by (simp add: read_word_def)

lemma write_word_ok [simp]:
  "a + 1 < heap_len s \<Longrightarrow> write_word a v s = Inr (s\<lparr>heap := wword (heap s) a v\<rparr>)"
  by (simp add: write_word_def)

end
