(* ===== verification/Heap.thy ===== *)
theory Heap
  imports Machine
begin

text \<open>
  The object heap of \<open>runtime/vm.py\<close>: headers, block sizes, the walk over all blocks and
  slice assignment to the \<open>bytearray\<close>. Every operation is given as the code runs it, errors
  included; beside it stands a total reading of the bytes (\<open>hkind\<close>, \<open>psize\<close>, \<open>tiles\<close>) in which
  the invariant is stated: from \<open>HEAP_START\<close> up to \<open>heap_ptr\<close> the heap is tiled by blocks.
\<close>

section \<open>Object headers\<close>

text \<open>
  Bit 15 of the flags word is the mark bit. A word read is below \<open>2 ^ 16\<close>, so the mark test
  is a comparison and masking the bit out is a remainder (\<open>kind_bits\<close> below).
\<close>

definition kind :: "'w vm \<Rightarrow> nat \<Rightarrow> vm_error + nat" where
  "kind s hdr = bindR (read_word s hdr) (\<lambda>w. Inr (w mod MARK_BIT))"

definition is_marked :: "'w vm \<Rightarrow> nat \<Rightarrow> vm_error + bool" where
  "is_marked s hdr = bindR (read_word s hdr) (\<lambda>w. Inr (MARK_BIT \<le> w))"

definition set_mark :: "nat \<Rightarrow> bool \<Rightarrow> 'w vm \<Rightarrow> vm_error + 'w vm" where
  "set_mark hdr marked s = bindR (read_word s hdr) (\<lambda>flags.
     write_word hdr (if marked then flags mod MARK_BIT + MARK_BIT else flags mod MARK_BIT) s)"

definition detail :: "'w vm \<Rightarrow> nat \<Rightarrow> vm_error + nat" where
  "detail s hdr = read_word s (hdr + 2)"

text \<open>A hole of the struct table is \<open>None\<close>, whose \<open>word_size\<close> Python cannot read.\<close>

definition payload_size :: "program \<Rightarrow> 'w vm \<Rightarrow> nat \<Rightarrow> vm_error + nat" where
  "payload_size P s hdr =
     bindR (kind s hdr) (\<lambda>k. bindR (detail s hdr) (\<lambda>d.
       if k = KIND_STRUCT then
         (if length (structs P) \<le> d then fault (CorruptHeap hdr d)
          else case structs P ! d of
            None \<Rightarrow> raise_host AttributeError
          | Some l \<Rightarrow> Inr (max (word_size l * 2) MIN_PAYLOAD))
       else if k = KIND_REFARRAY \<or> k = KIND_VALARRAY then Inr (max (d * 2) MIN_PAYLOAD)
       else if k = KIND_STRING then Inr (max (d + d mod 2) MIN_PAYLOAD)
       else Inr d))"

definition block_end :: "program \<Rightarrow> 'w vm \<Rightarrow> nat \<Rightarrow> vm_error + nat" where
  "block_end P s hdr = bindR (payload_size P s hdr) (\<lambda>n. Inr (hdr + HEADER_BYTES + n))"

definition write_header :: "nat \<Rightarrow> nat \<Rightarrow> nat \<Rightarrow> 'w vm \<Rightarrow> vm_error + 'w vm" where
  "write_header hdr k d s = bindR (write_word hdr k s) (write_word (hdr + 2) d)"

lemma block_end_greater: "block_end P s hdr = Inr e \<Longrightarrow> hdr < e"
  by (auto simp: block_end_def result_simps)

text \<open>The generator \<open>_blocks\<close>, run to its end from a given address.\<close>

function blocks_from :: "program \<Rightarrow> 'w vm \<Rightarrow> nat \<Rightarrow> vm_error + nat list" where
  "blocks_from P s addr =
     (if addr < heap_ptr s then
        bindR (block_end P s addr) (\<lambda>e. bindR (blocks_from P s e) (\<lambda>bs. Inr (addr # bs)))
      else Inr [])"
  by pat_completeness auto
termination
proof (relation "measure (\<lambda>(P, s, addr). heap_ptr s - addr)")
  show "((P, s, e), (P, s, addr)) \<in> measure (\<lambda>(P, s, addr). heap_ptr s - addr)"
    if "addr < heap_ptr s" "block_end P s addr = Inr e" for P and s :: "'w vm" and addr e
    using that block_end_greater [of P s addr e] by auto
qed simp

declare blocks_from.simps [simp del]

definition blocks :: "program \<Rightarrow> 'w vm \<Rightarrow> vm_error + nat list" where
  "blocks P s = blocks_from P s HEAP_START"

definition heap_in_use :: "'w vm \<Rightarrow> int" where
  "heap_in_use s = int (heap_ptr s) - int HEAP_START"

section \<open>Slices of the heap\<close>

text \<open>
  Reading \<open>heap[lo:hi]\<close> and assigning to it. Python clamps both bounds to the length, and an
  assignment of a different length resizes the \<open>bytearray\<close>.
\<close>

definition heap_slice :: "'w vm \<Rightarrow> nat \<Rightarrow> nat \<Rightarrow> bytes" where
  "heap_slice s lo hi = map (heap s) [min lo (heap_len s)..<min hi (heap_len s)]"

definition slice_assign :: "nat \<Rightarrow> nat \<Rightarrow> bytes \<Rightarrow> 'w vm \<Rightarrow> 'w vm" where
  "slice_assign lo hi data s =
     (let a = min lo (heap_len s); b = max a (min hi (heap_len s)); n = length data in
      s\<lparr>heap := (\<lambda>i. if i < a then heap s i else if i < a + n then data ! (i - a)
                      else heap s (i - (a + n) + b)),
        heap_len := a + n + (heap_len s - b)\<rparr>)"

lemma heap_slice_ok: "hi \<le> heap_len s \<Longrightarrow> lo \<le> hi \<Longrightarrow> heap_slice s lo hi = map (heap s) [lo..<hi]"
  by (simp add: heap_slice_def)

lemma slice_assign_ok:
  assumes "lo + length data = hi" and "hi \<le> heap_len s"
  shows "slice_assign lo hi data s =
    s\<lparr>heap := (\<lambda>i. if lo \<le> i \<and> i < hi then data ! (i - lo) else heap s i)\<rparr>"
proof -
  have "heap_len s = lo + length data + (heap_len s - hi)" using assms by simp
  then have len: "s\<lparr>heap := g, heap_len := lo + length data + (heap_len s - hi)\<rparr> = s\<lparr>heap := g\<rparr>"
    for g by (metis vm.surjective vm.update_convs(8,9))
  show ?thesis
    using assms by (auto simp: slice_assign_def Let_def min_def max_def len intro!: arg_cong2 [where f = heap_update] ext)
qed

section \<open>Reading the bytes\<close>

definition hkind :: "(nat \<Rightarrow> byte) \<Rightarrow> nat \<Rightarrow> nat" where
  "hkind h b = rword h b mod MARK_BIT"

definition hmarked :: "(nat \<Rightarrow> byte) \<Rightarrow> nat \<Rightarrow> bool" where
  "hmarked h b = (MARK_BIT \<le> rword h b)"

definition hdetail :: "(nat \<Rightarrow> byte) \<Rightarrow> nat \<Rightarrow> nat" where
  "hdetail h b = rword h (b + 2)"

definition layout_of :: "program \<Rightarrow> nat \<Rightarrow> struct_layout option" where
  "layout_of P d = (if d < length (structs P) then structs P ! d else None)"

definition size_for :: "program \<Rightarrow> nat \<Rightarrow> nat \<Rightarrow> nat" where
  "size_for P k d =
     (if k = KIND_STRUCT then
        (case layout_of P d of None \<Rightarrow> MIN_PAYLOAD | Some l \<Rightarrow> max (word_size l * 2) MIN_PAYLOAD)
      else if k = KIND_REFARRAY \<or> k = KIND_VALARRAY then max (d * 2) MIN_PAYLOAD
      else if k = KIND_STRING then max (d + d mod 2) MIN_PAYLOAD
      else d)"

definition psize :: "program \<Rightarrow> (nat \<Rightarrow> byte) \<Rightarrow> nat \<Rightarrow> nat" where
  "psize P h b = size_for P (hkind h b) (hdetail h b)"

abbreviation bend :: "program \<Rightarrow> (nat \<Rightarrow> byte) \<Rightarrow> nat \<Rightarrow> nat" where
  "bend P h b \<equiv> b + HEADER_BYTES + psize P h b"

definition header_ok :: "program \<Rightarrow> (nat \<Rightarrow> byte) \<Rightarrow> nat \<Rightarrow> bool" where
  "header_ok P h b \<longleftrightarrow> (hkind h b = KIND_STRUCT \<longrightarrow> layout_of P (hdetail h b) \<noteq> None)
     \<and> MIN_PAYLOAD \<le> psize P h b"

text \<open>Byte offsets of the payload words that hold references.\<close>

definition ref_offs_for :: "program \<Rightarrow> nat \<Rightarrow> nat \<Rightarrow> nat list" where
  "ref_offs_for P k d =
     (if k = KIND_STRUCT then
        (case layout_of P d of None \<Rightarrow> [] | Some l \<Rightarrow> map (\<lambda>o1. o1 * 2) (ref_offsets l))
      else if k = KIND_REFARRAY then map (\<lambda>i. i * 2) [0..<d]
      else [])"

definition ref_offs :: "program \<Rightarrow> (nat \<Rightarrow> byte) \<Rightarrow> nat \<Rightarrow> nat list" where
  "ref_offs P h b = ref_offs_for P (hkind h b) (hdetail h b)"

definition layouts_ok :: "program \<Rightarrow> bool" where
  "layouts_ok P \<longleftrightarrow> (\<forall>l. Some l \<in> set (structs P) \<longrightarrow>
     distinct (ref_offsets l) \<and> (\<forall>o1 \<in> set (ref_offsets l). o1 < word_size l))"

lemma layout_of_Some: "layout_of P d = Some l \<Longrightarrow> d < length (structs P) \<and> structs P ! d = Some l"
  by (auto simp: layout_of_def split: if_splits)

lemma layout_of_in_set: "layout_of P d = Some l \<Longrightarrow> Some l \<in> set (structs P)"
  by (metis layout_of_Some nth_mem)

lemma ref_offs_distinct: "layouts_ok P \<Longrightarrow> distinct (ref_offs P h b)"
  using layout_of_in_set [of P "hdetail h b"]
  by (auto simp: ref_offs_def ref_offs_for_def layouts_ok_def distinct_map inj_on_def
      split: option.splits)

lemma ref_offs_bound:
  assumes "layouts_ok P" and "o1 \<in> set (ref_offs P h b)"
  shows "o1 + 2 \<le> psize P h b" and "even o1"
proof -
  have "o1 + 2 \<le> psize P h b \<and> even o1"
  proof (cases "hkind h b = KIND_STRUCT")
    case True
    with assms(2) obtain l where l: "layout_of P (hdetail h b) = Some l"
      by (cases "layout_of P (hdetail h b)") (auto simp: ref_offs_def ref_offs_for_def)
    with True assms(2) obtain k where k: "k \<in> set (ref_offsets l)" "o1 = k * 2"
      by (auto simp: ref_offs_def ref_offs_for_def)
    then have "k < word_size l"
      using assms(1) layout_of_in_set [OF l] by (auto simp: layouts_ok_def)
    with True l k show ?thesis by (simp add: psize_def size_for_def le_max_iff_disj)
  next
    case False
    with assms(2) show ?thesis
      by (auto simp: ref_offs_def ref_offs_for_def psize_def size_for_def split: if_splits)
  qed
  then show "o1 + 2 \<le> psize P h b" and "even o1" by simp_all
qed

lemma kind_bits:
  "rword h b mod MARK_BIT = unat (and (word_of (rword h b)) (not (word_of MARK_BIT)))"
proof -
  have "(32768 :: 16 word) = 2 ^ 15" "(32768 :: nat) = 2 ^ 15" "(32768 :: int) = 2 ^ 15"
    by simp_all
  then have mark: "bit (32768 :: 16 word) n \<longleftrightarrow> n = 15" "bit (32768 :: nat) n \<longleftrightarrow> n = 15"
    "bit (32768 :: int) n \<longleftrightarrow> n = 15" for n
    by (simp_all only: bit_exp_iff) auto
  have "and (word_of (rword h b)) (not (word_of MARK_BIT)) = take_bit 15 (word_of (rword h b))"
    by (rule bit_eqI) (auto simp: word_of_def bit_simps mark)
  then have "unat (and (word_of (rword h b)) (not (word_of MARK_BIT)))
      = take_bit 15 (unat (word_of (rword h b)))"
    by (simp only: unsigned_take_bit_eq)
  then show ?thesis by (simp add: unat_word_of take_bit_eq_mod)
qed

text \<open>The code's readers agree with these on a heap that is long enough.\<close>

lemma kind_eq [simp]: "b + 1 < heap_len s \<Longrightarrow> kind s b = Inr (hkind (heap s) b)"
  by (simp add: kind_def hkind_def)

lemma is_marked_eq [simp]: "b + 1 < heap_len s \<Longrightarrow> is_marked s b = Inr (hmarked (heap s) b)"
  by (simp add: is_marked_def hmarked_def)

lemma detail_eq [simp]: "b + 3 < heap_len s \<Longrightarrow> detail s b = Inr (hdetail (heap s) b)"
  by (simp add: detail_def hdetail_def)

lemma payload_size_eq [simp]:
  assumes "b + 3 < heap_len s" and "header_ok P (heap s) b"
  shows "payload_size P s b = Inr (psize P (heap s) b)"
  using assms
  by (auto simp: payload_size_def psize_def size_for_def header_ok_def layout_of_def
      split: option.splits if_splits)

lemma block_end_eq [simp]:
  "b + 3 < heap_len s \<Longrightarrow> header_ok P (heap s) b \<Longrightarrow> block_end P s b = Inr (bend P (heap s) b)"
  by (simp add: block_end_def)

text \<open>Setting or clearing the mark touches one byte, the high one of the flags word.\<close>

lemma hmarked_byte: "hmarked h b \<longleftrightarrow> 128 \<le> unat (h (b + 1))"
proof -
  have "32768 \<le> x * 256 + y \<longleftrightarrow> 128 \<le> x" if "y < 256" for x y :: nat
    using that by linarith
  then show ?thesis by (simp add: hmarked_def rword_def)
qed

lemma mod_two_bytes: "y < 256 \<Longrightarrow> (x * 256 + y) mod 32768 = x mod 128 * 256 + (y :: nat)"
  using mod_mult2_eq [of "x * 256 + y" 256 128] by simp

lemma hkind_byte: "hkind h b = unat (h (b + 1)) mod 128 * 256 + unat (h b)"
  by (simp add: hkind_def rword_def mod_two_bytes)

lemma byte_of_nat_mod: "(of_nat (v mod 256) :: byte) = of_nat v"
  by (simp add: word_unat_eq_iff unat_of_nat)

definition flag_byte :: "bool \<Rightarrow> byte \<Rightarrow> byte" where
  "flag_byte m x = of_nat (unat x mod 128 + (if m then 128 else 0))"

lemma unat_flag_byte [simp]: "unat (flag_byte m x) = unat x mod 128 + (if m then 128 else 0)"
proof -
  have "unat x mod 128 < 128" by simp
  then have "unat x mod 128 + (if m then 128 else 0) < 256" by (cases m) auto
  then show ?thesis by (simp only: flag_byte_def unat_of_nat) simp
qed

definition with_mark :: "nat \<Rightarrow> bool \<Rightarrow> (nat \<Rightarrow> byte) \<Rightarrow> (nat \<Rightarrow> byte)" where
  "with_mark b m h = h(b + 1 := flag_byte m (h (b + 1)))"

lemma wword_two_bytes:
  assumes "unat (h b) = y"
  shows "wword h b (z * 256 + y) = h(b + 1 := of_nat z)"
proof -
  have y: "y < 256" using assms unat_byte_less [of "h b"] by simp
  then have "(of_nat (z * 256 + y) :: byte) = of_nat y"
    using byte_of_nat_mod [of "z * 256 + y"] by simp
  moreover have "of_nat y = h b" using assms by (simp flip: assms)
  ultimately show ?thesis using y by (simp add: wword_def fun_upd_triv)
qed

lemma wword_mark:
  "wword h b (if m then rword h b mod 32768 + 32768 else rword h b mod 32768) = with_mark b m h"
proof -
  have "(if m then rword h b mod 32768 + 32768 else rword h b mod 32768)
      = (unat (h (b + 1)) mod 128 + (if m then 128 else 0)) * 256 + unat (h b)"
    by (simp add: rword_def mod_two_bytes)
  then show ?thesis
    by (simp only: wword_two_bytes with_mark_def flag_byte_def)
qed

lemma set_mark_Inr:
  "set_mark b m s = Inr s' \<longleftrightarrow> b + 1 < heap_len s \<and> s' = s\<lparr>heap := with_mark b m (heap s)\<rparr>"
  by (auto simp: set_mark_def read_word_def write_word_def result_simps wword_mark)

lemma with_mark_same [simp]: "hmarked (with_mark b m h) b = m" "hkind (with_mark b m h) b = hkind h b"
  by (auto simp: hmarked_byte hkind_byte with_mark_def)

lemma with_mark_apart: "x + 1 \<noteq> b + 1 \<Longrightarrow> hmarked (with_mark b m h) x = hmarked h x"
  by (simp add: hmarked_byte with_mark_def)

text \<open>What a block's description depends on: its header, without the mark.\<close>

lemma block_cong:
  assumes "hkind h' b = hkind h b" and "hdetail h' b = hdetail h b"
  shows "psize P h' b = psize P h b" and "header_ok P h' b = header_ok P h b"
    and "ref_offs P h' b = ref_offs P h b"
  using assms by (simp_all add: psize_def header_ok_def ref_offs_def)

section \<open>The heap is tiled by blocks\<close>

fun tiles :: "program \<Rightarrow> (nat \<Rightarrow> byte) \<Rightarrow> nat \<Rightarrow> nat list \<Rightarrow> nat \<Rightarrow> bool" where
  "tiles P h a [] tp \<longleftrightarrow> a = tp"
| "tiles P h a (b # bs) tp \<longleftrightarrow> a = b \<and> header_ok P h b \<and> tiles P h (bend P h b) bs tp"

lemma tiles_le: "tiles P h a bs tp \<Longrightarrow> a \<le> tp"
  by (induction bs arbitrary: a) force+

lemma tiles_range: "tiles P h a bs tp \<Longrightarrow> b \<in> set bs \<Longrightarrow> a \<le> b \<and> bend P h b \<le> tp"
proof (induction bs arbitrary: a)
  case (Cons c bs)
  then show ?case using tiles_le [of P h "bend P h c" bs tp] by force
qed simp

lemma tiles_header_ok: "tiles P h a bs tp \<Longrightarrow> b \<in> set bs \<Longrightarrow> header_ok P h b"
  by (induction bs arbitrary: a) auto

lemma tiles_psize: "tiles P h a bs tp \<Longrightarrow> b \<in> set bs \<Longrightarrow> 2 \<le> psize P h b"
  using tiles_header_ok by (auto simp: header_ok_def)

lemma tiles_sorted: "tiles P h a bs tp \<Longrightarrow> sorted_wrt (<) bs"
proof (induction bs arbitrary: a)
  case (Cons b bs)
  then have "tiles P h (bend P h b) bs tp" by simp
  then have "b < c" if "c \<in> set bs" for c
    using tiles_range [OF _ that] by force
  with Cons show ?case by auto
qed simp

lemma tiles_distinct: "tiles P h a bs tp \<Longrightarrow> distinct bs"
  using tiles_sorted strict_sorted_iff by blast

lemma tiles_disjoint:
  "tiles P h a bs tp \<Longrightarrow> b \<in> set bs \<Longrightarrow> c \<in> set bs \<Longrightarrow> b < c \<Longrightarrow> bend P h b \<le> c"
proof (induction bs arbitrary: a)
  case (Cons d bs)
  then have rest: "tiles P h (bend P h d) bs tp" and "d = a" by simp_all
  show ?case
  proof (cases "b = d")
    case True
    with Cons.prems rest show ?thesis using tiles_range [of P h _ bs tp c] by fastforce
  next
    case False
    with Cons.prems have b: "b \<in> set bs" by simp
    then have "c \<noteq> d" using tiles_range [OF rest b] Cons.prems(4) by linarith
    with Cons b rest show ?thesis by simp
  qed
qed simp

lemma tiles_cong:
  assumes "\<And>b. b \<in> set bs \<Longrightarrow> hkind h' b = hkind h b \<and> hdetail h' b = hdetail h b"
  shows "tiles P h' a bs tp = tiles P h a bs tp"
  using assms by (induction bs arbitrary: a) (auto simp: block_cong [of h' _ h])

lemma tiles_append:
  "tiles P h a (bs @ cs) tp \<longleftrightarrow> (\<exists>m. tiles P h a bs m \<and> tiles P h m cs tp)"
  by (induction bs arbitrary: a) auto

lemma tiles_unique: "tiles P h a bs tp \<Longrightarrow> tiles P h a bs' tp \<Longrightarrow> bs = bs'"
proof (induction bs arbitrary: a bs')
  case Nil
  then show ?case by (cases bs') (auto dest: tiles_le)
next
  case (Cons b bs)
  then show ?case by (cases bs') (auto dest: tiles_le)
qed

lemma blocks_from_tiles:
  assumes "tiles P (heap s) a bs (heap_ptr s)" and "heap_ptr s \<le> heap_len s"
  shows "blocks_from P s a = Inr bs"
  using assms
proof (induction bs arbitrary: a)
  case (Cons b bs)
  then have ok: "header_ok P (heap s) a" "tiles P (heap s) (bend P (heap s) a) bs (heap_ptr s)"
    by simp_all
  then have "bend P (heap s) a \<le> heap_ptr s" "2 \<le> psize P (heap s) a"
    by (auto dest: tiles_le simp: header_ok_def)
  then show ?case
    using Cons ok by (subst blocks_from.simps) simp
qed (subst blocks_from.simps, simp)

text \<open>The block that contains an address, header excluded.\<close>

definition obj_at :: "program \<Rightarrow> (nat \<Rightarrow> byte) \<Rightarrow> nat list \<Rightarrow> nat \<Rightarrow> nat option" where
  "obj_at P h bs v = find (\<lambda>b. b + HEADER_BYTES \<le> v \<and> v < bend P h b) bs"

lemma obj_at_Some:
  "obj_at P h bs v = Some b \<Longrightarrow> b \<in> set bs \<and> b + HEADER_BYTES \<le> v \<and> v < bend P h b"
  by (auto simp: obj_at_def find_Some_iff)

lemma obj_atI:
  assumes "tiles P h a bs tp" and "b \<in> set bs" and "b + HEADER_BYTES \<le> v" and "v < bend P h b"
  shows "obj_at P h bs v = Some b"
proof -
  have "obj_at P h bs v \<noteq> None"
    using assms by (auto simp: obj_at_def find_None_iff)
  then obtain c where c: "obj_at P h bs v = Some c" by blast
  then have "c \<in> set bs" "c + HEADER_BYTES \<le> v" "v < bend P h c"
    using obj_at_Some by blast+
  then have "c = b"
    using assms tiles_disjoint [OF assms(1), of b c] tiles_disjoint [OF assms(1), of c b]
    by (cases b c rule: linorder_cases) auto
  with c show ?thesis by simp
qed

lemma obj_at_cong:
  assumes "\<And>b. b \<in> set bs \<Longrightarrow> hkind h' b = hkind h b \<and> hdetail h' b = hdetail h b"
  shows "obj_at P h' bs v = obj_at P h bs v"
  unfolding obj_at_def using assms
  by (intro find_cong) (auto simp: block_cong [of h' _ h])

lemma obj_at_null: "tiles P h a bs tp \<Longrightarrow> obj_at P h bs 0 = None"
  by (simp add: obj_at_def find_None_iff)

text \<open>The invariant of the allocated region between two operations: tiled and unmarked.\<close>

definition heap_wf :: "program \<Rightarrow> 'w vm \<Rightarrow> bool" where
  "heap_wf P s \<longleftrightarrow> heap_len s = HEAP_SIZE \<and> heap_ptr s \<le> HEAP_SIZE \<and>
     (\<exists>bs. tiles P (heap s) HEAP_START bs (heap_ptr s) \<and> (\<forall>b \<in> set bs. \<not> hmarked (heap s) b))"

lemma heap_wf_blocks:
  assumes "heap_wf P s"
  obtains bs where "tiles P (heap s) HEAP_START bs (heap_ptr s)" and "blocks P s = Inr bs"
    and "\<forall>b \<in> set bs. \<not> hmarked (heap s) b"
  using assms blocks_from_tiles [of P s HEAP_START] by (auto simp: heap_wf_def blocks_def)

text \<open>A freshly built machine has the empty heap, which is well formed.\<close>

lemma heap_wf_new: "heap_wf P (new_vm w)"
  by (auto simp: heap_wf_def new_vm_def intro!: exI [of _ "[]"])

end
