(* ===== verification/Collector.thy ===== *)
theory Collector
  imports Heap
begin

text \<open>
  The sliding mark-compact collector of \<open>runtime/vm.py\<close> (\<open>collect\<close> and the phases it runs):
  marking from the roots, planning the compaction, rewriting every reference and moving the
  survivors down. The definitions follow the phases of the code; the lemmas show, phase by
  phase, that on a well-formed heap none of them can fail and what each leaves behind.
\<close>

section \<open>Roots\<close>

definition object_starts :: "program \<Rightarrow> 'w vm \<Rightarrow> vm_error + nat list" where
  "object_starts P s = bindR (blocks P s) (\<lambda>bs. Inr (map (\<lambda>hdr. hdr + HEADER_BYTES) bs))"

text \<open>The current frame first, then the suspended ones from the outermost in.\<close>

definition frame_roots :: "program \<Rightarrow> nat \<times> nat list \<Rightarrow> nat list" where
  "frame_roots P fr = (case fr of (fn_id, ls) \<Rightarrow>
     if length (fns P) \<le> fn_id then []
     else filter (\<lambda>v. v \<noteq> NULL_ADDR)
            (map (\<lambda>slot. ls ! slot)
              (filter (\<lambda>slot. slot < length ls) (ref_slots (fns P ! fn_id)))))"

definition roots :: "program \<Rightarrow> 'w vm \<Rightarrow> nat list" where
  "roots P s =
     concat (map (frame_roots P)
       ((current_fn s, locals s) # map (\<lambda>f. (fn_index f, frame_locals f)) (rev (call_stack s))))
     @ map fst (filter (\<lambda>(v, is_ref). is_ref \<and> v \<noteq> NULL_ADDR)
         (zip (rev (stack s)) (rev (stack_is_ref s))))
     @ filter (\<lambda>v. v \<noteq> NULL_ADDR) (literals s)
     @ filter (\<lambda>v. v \<noteq> NULL_ADDR) (variants s)"

section \<open>Marking\<close>

definition containing_object :: "program \<Rightarrow> 'w vm \<Rightarrow> nat \<Rightarrow> nat list \<Rightarrow> vm_error + nat option" where
  "containing_object P s ref starts =
     (let n = bisect_right starts ref in
      if n = 0 then Inr None
      else (let start = starts ! (n - 1) in
        bindR (block_end P s (start - HEADER_BYTES)) (\<lambda>e.
          Inr (if ref < e then Some start else None))))"

text \<open>
  The words of a just marked object that may hold references, in payload order. The code
  looks the layout up again, so a bad type id would be an \<open>IndexError\<close> here.
\<close>

definition ref_addrs :: "program \<Rightarrow> 'w vm \<Rightarrow> nat \<Rightarrow> vm_error + nat list" where
  "ref_addrs P s hdr =
     bindR (kind s hdr) (\<lambda>k.
       if k = KIND_STRUCT then
         bindR (detail s hdr) (\<lambda>d.
           if length (structs P) \<le> d then raise_host IndexError
           else case structs P ! d of
             None \<Rightarrow> raise_host AttributeError
           | Some l \<Rightarrow> Inr (map (\<lambda>off. hdr + HEADER_BYTES + off * 2) (ref_offsets l)))
       else if k = KIND_REFARRAY then
         bindR (detail s hdr) (\<lambda>d. Inr (map (\<lambda>i. hdr + HEADER_BYTES + i * 2) [0..<d]))
       else Inr [])"

definition children :: "program \<Rightarrow> 'w vm \<Rightarrow> nat \<Rightarrow> vm_error + nat list" where
  "children P s hdr = bindR (ref_addrs P s hdr) (mapR (read_word s))"

lemma set_mark_monotone:
  assumes "set_mark hdr True s = Inr s'"
  shows "hmarked (heap s') hdr" and "hmarked (heap s) b \<Longrightarrow> hmarked (heap s') b"
  using assms with_mark_apart [of b hdr True "heap s"]
  by (cases "b = hdr"; auto simp: set_mark_Inr)+

text \<open>The worklist is a stack, top first; the children of an object are pushed in order.\<close>

function mark_loop :: "program \<Rightarrow> nat list \<Rightarrow> nat list \<Rightarrow> 'w vm \<Rightarrow> vm_error + 'w vm" where
  "mark_loop P starts pending s =
     (case pending of
        [] \<Rightarrow> Inr s
      | addr # rest \<Rightarrow>
          if addr = NULL_ADDR then mark_loop P starts rest s
          else bindR (containing_object P s addr starts) (\<lambda>found.
            case found of
              None \<Rightarrow> mark_loop P starts rest s
            | Some start \<Rightarrow>
                bindR (is_marked s (start - HEADER_BYTES)) (\<lambda>marked.
                  if marked then mark_loop P starts rest s
                  else bindR (set_mark (start - HEADER_BYTES) True s) (\<lambda>s1.
                    bindR (children P s1 (start - HEADER_BYTES)) (\<lambda>cs.
                      mark_loop P starts (rev cs @ rest) s1)))))"
  by pat_completeness auto

lemma containing_object_mem:
  "containing_object P s ref starts = Inr (Some start) \<Longrightarrow> start \<in> set starts"
  using bisect_right_le [of starts ref]
  by (auto simp: containing_object_def Let_def result_simps split: if_splits)

text \<open>Every turn of the loop marks one more start or shortens the worklist.\<close>

definition unmarked :: "nat list \<Rightarrow> 'w vm \<Rightarrow> nat set" where
  "unmarked starts s = {x \<in> set starts. \<not> hmarked (heap s) (x - HEADER_BYTES)}"

lemma unmarked_decreases:
  assumes "containing_object P s ref starts = Inr (Some start)"
    and "is_marked s (start - HEADER_BYTES) = Inr False"
    and "set_mark (start - HEADER_BYTES) True s = Inr s'"
  shows "card (unmarked starts s') < card (unmarked starts s)"
proof (rule psubset_card_mono)
  have "start \<in> unmarked starts s"
    using assms containing_object_mem [OF assms(1)] by (auto simp: unmarked_def set_mark_Inr)
  moreover have "start \<notin> unmarked starts s'"
    using set_mark_monotone(1) [OF assms(3)] by (simp add: unmarked_def)
  moreover have "unmarked starts s' \<subseteq> unmarked starts s"
    using set_mark_monotone(2) [OF assms(3)] by (auto simp: unmarked_def)
  ultimately show "unmarked starts s' \<subset> unmarked starts s" by blast
qed (simp add: unmarked_def)

termination mark_loop
proof (relation "measures [\<lambda>(P, starts, pending, s). card (unmarked starts s),
    \<lambda>(P, starts, pending, s). length pending]", goal_cases)
  case (5 P starts pending s addr rest found start marked s1 cs)
  then show ?case using unmarked_decreases [of P s addr starts start s1] by simp
qed simp_all

declare mark_loop.simps [simp del]

definition mark_from :: "program \<Rightarrow> nat list \<Rightarrow> nat \<Rightarrow> 'w vm \<Rightarrow> vm_error + 'w vm" where
  "mark_from P starts ref s = mark_loop P starts [ref] s"

section \<open>Planning the compaction\<close>

text \<open>
  The dict from old to new payload addresses. The walk only reads the block it stands on, so
  listing the blocks first changes neither the result nor the error.
\<close>

type_synonym forward = "nat \<Rightarrow> nat option"

definition plan_step :: "program \<Rightarrow> 'w vm \<Rightarrow> nat \<Rightarrow> forward \<times> nat \<Rightarrow> vm_error + forward \<times> nat" where
  "plan_step P s hdr st = (case st of (fw, free) \<Rightarrow>
     bindR (is_marked s hdr) (\<lambda>marked.
       if \<not> marked then Inr (fw, free)
       else bindR (payload_size P s hdr) (\<lambda>n.
         Inr (fw(hdr + HEADER_BYTES \<mapsto> free + HEADER_BYTES), free + HEADER_BYTES + n))))"

definition plan_compaction :: "program \<Rightarrow> 'w vm \<Rightarrow> vm_error + forward" where
  "plan_compaction P s = bindR (blocks P s) (\<lambda>bs.
     bindR (foldR (plan_step P s) bs (Map.empty, HEAP_START)) (\<lambda>(fw, _). Inr fw))"

section \<open>Rewriting the references\<close>

definition moved :: "program \<Rightarrow> 'w vm \<Rightarrow> forward \<Rightarrow> nat list \<Rightarrow> nat \<Rightarrow> vm_error + nat" where
  "moved P s fw starts ref =
     (if ref = NULL_ADDR then Inr ref
      else bindR (containing_object P s ref starts) (\<lambda>found. Inr (case found of
             None \<Rightarrow> ref
           | Some start \<Rightarrow> (case fw start of None \<Rightarrow> ref | Some d \<Rightarrow> d + (ref - start)))))"

definition move_slot :: "(nat \<Rightarrow> vm_error + nat) \<Rightarrow> nat \<Rightarrow> nat list \<Rightarrow> vm_error + nat list" where
  "move_slot mv slot ls =
     (if slot < length ls then bindR (mv (ls ! slot)) (\<lambda>v. Inr (ls[slot := v])) else Inr ls)"

definition move_locals ::
    "program \<Rightarrow> (nat \<Rightarrow> vm_error + nat) \<Rightarrow> nat \<Rightarrow> nat list \<Rightarrow> vm_error + nat list" where
  "move_locals P mv fn_id ls =
     (if length (fns P) \<le> fn_id then Inr ls
      else foldR (move_slot mv) (ref_slots (fns P ! fn_id)) ls)"

definition move_frame :: "program \<Rightarrow> (nat \<Rightarrow> vm_error + nat) \<Rightarrow> frame \<Rightarrow> vm_error + frame" where
  "move_frame P mv f =
     bindR (move_locals P mv (fn_index f) (frame_locals f)) (\<lambda>ls. Inr (f\<lparr>frame_locals := ls\<rparr>))"

text \<open>The stack, from the bottom: a tag beyond the values would be an \<open>IndexError\<close>.\<close>

fun move_tagged :: "(nat \<Rightarrow> vm_error + nat) \<Rightarrow> bool list \<Rightarrow> nat list \<Rightarrow> vm_error + nat list" where
  "move_tagged mv [] vs = Inr vs"
| "move_tagged mv (r # rs) [] = (if r then raise_host IndexError else move_tagged mv rs [])"
| "move_tagged mv (r # rs) (v # vs) =
     bindR (if r then mv v else Inr v) (\<lambda>v'. bindR (move_tagged mv rs vs) (\<lambda>vs'. Inr (v' # vs')))"

definition update_word :: "program \<Rightarrow> forward \<Rightarrow> nat list \<Rightarrow> nat \<Rightarrow> 'w vm \<Rightarrow> vm_error + 'w vm" where
  "update_word P fw starts a s =
     bindR (read_word s a) (\<lambda>v. bindR (moved P s fw starts v) (\<lambda>v'. write_word a v' s))"

definition update_block :: "program \<Rightarrow> forward \<Rightarrow> nat list \<Rightarrow> nat \<Rightarrow> 'w vm \<Rightarrow> vm_error + 'w vm" where
  "update_block P fw starts hdr s =
     bindR (is_marked s hdr) (\<lambda>marked.
       if \<not> marked then Inr s
       else bindR (ref_addrs P s hdr) (\<lambda>as. foldR (update_word P fw starts) as s))"

lemma update_block_heap_ptr:
  assumes "update_block P fw starts hdr s = Inr s'"
  shows "heap_ptr s' = heap_ptr s"
proof -
  have word: "heap_ptr t' = heap_ptr t" if "update_word P fw starts a t = Inr t'" for a and t t' :: "'a vm"
    using that by (auto simp: update_word_def write_word_def result_simps split: if_splits)
  have "heap_ptr s' = heap_ptr s" if "foldR (update_word P fw starts) as s = Inr s'" for as
    by (rule foldR_invariant [OF that]) (auto dest: word)
  with assms show ?thesis
    by (auto simp: update_block_def result_simps split: if_splits)
qed

text \<open>
  Here the walk over the blocks runs in step with the writes: where the next block starts is
  read from the heap as it is by then.
\<close>

function update_blocks :: "program \<Rightarrow> forward \<Rightarrow> nat list \<Rightarrow> nat \<Rightarrow> 'w vm \<Rightarrow> vm_error + 'w vm" where
  "update_blocks P fw starts addr s =
     (if addr < heap_ptr s then
        bindR (update_block P fw starts addr s) (\<lambda>s1.
          bindR (block_end P s1 addr) (\<lambda>e. update_blocks P fw starts e s1))
      else Inr s)"
  by pat_completeness auto
termination
proof (relation "measure (\<lambda>(P, fw, starts, addr, s). heap_ptr s - addr)", goal_cases)
  case (2 P fw starts addr s s1 e)
  then show ?case
    using update_block_heap_ptr [of P fw starts addr s s1] block_end_greater [of P s1 addr e] by auto
qed simp

declare update_blocks.simps [simp del]

definition update_references ::
    "program \<Rightarrow> forward \<Rightarrow> nat list \<Rightarrow> 'w vm \<Rightarrow> vm_error + 'w vm" where
  "update_references P fw starts s =
     (let mv = moved P s fw starts in
      bindR (move_locals P mv (current_fn s) (locals s)) (\<lambda>ls.
      bindR (mapR (move_frame P mv) (rev (call_stack s))) (\<lambda>fs.
      bindR (move_tagged mv (rev (stack_is_ref s)) (rev (stack s))) (\<lambda>vs.
      bindR (mapR mv (literals s)) (\<lambda>lts.
      bindR (mapR mv (variants s)) (\<lambda>vrs.
        update_blocks P fw starts HEAP_START
          (s\<lparr>locals := ls, call_stack := rev fs, stack := rev vs,
             literals := lts, variants := vrs\<rparr>)))))))"

section \<open>Moving the survivors\<close>

definition slide_step ::
    "program \<Rightarrow> forward \<Rightarrow> nat \<Rightarrow> 'w vm \<times> nat \<Rightarrow> vm_error + 'w vm \<times> nat" where
  "slide_step P fw hdr st = (case st of (s, tp) \<Rightarrow>
     bindR (payload_size P s hdr) (\<lambda>n.
       let size = HEADER_BYTES + n in
       bindR (is_marked s hdr) (\<lambda>marked.
         if \<not> marked then
           Inr (s\<lparr>stats := (stats s)\<lparr>objects_freed := objects_freed (stats s) + 1,
                                      bytes_freed := bytes_freed (stats s) + size\<rparr>\<rparr>, tp)
         else (case fw (hdr + HEADER_BYTES) of
             None \<Rightarrow> raise_host KeyError
           | Some d \<Rightarrow>
               let dest = d - HEADER_BYTES;
                   s1 = (if dest \<noteq> hdr then
                           (slice_assign dest (dest + size) (heap_slice s hdr (hdr + size)) s)
                             \<lparr>stats := (stats s)\<lparr>objects_moved := objects_moved (stats s) + 1\<rparr>\<rparr>
                         else s)
               in bindR (set_mark dest False s1) (\<lambda>s2. Inr (s2, dest + size))))))"

definition slide :: "program \<Rightarrow> forward \<Rightarrow> 'w vm \<Rightarrow> vm_error + 'w vm" where
  "slide P fw s = bindR (blocks P s) (\<lambda>bs.
     bindR (foldR (slide_step P fw) bs (s, HEAP_START)) (\<lambda>(s1, tp).
       let s2 = (if tp < heap_ptr s1
                 then slice_assign tp (heap_ptr s1) (replicate (heap_ptr s1 - tp) 0) s1 else s1)
       in Inr (s2\<lparr>heap_ptr := tp\<rparr>)))"

definition collect :: "program \<Rightarrow> 'w vm \<Rightarrow> vm_error + 'w vm" where
  "collect P s =
     (let s0 = s\<lparr>stats := (stats s)\<lparr>collections := collections (stats s) + 1\<rparr>\<rparr> in
      bindR (object_starts P s0) (\<lambda>starts.
      bindR (foldR (mark_from P starts) (roots P s0) s0) (\<lambda>s1.
      bindR (plan_compaction P s1) (\<lambda>fw.
      bindR (update_references P fw starts s1) (slide P fw)))))"

end
