(* ===== verification/Marking.thy ===== *)
theory Marking
  imports Collector
begin

text \<open>
  The marking phase marks exactly the reachable objects. Reachability is an inductive set over
  the heap as it was before the collection; the loop is compared with it through \<open>only_marks\<close>,
  which says that a heap differs from that one in mark bits alone.
\<close>

section \<open>Reachable objects\<close>

definition kids :: "program \<Rightarrow> (nat \<Rightarrow> byte) \<Rightarrow> nat \<Rightarrow> nat list" where
  "kids P h b = map (\<lambda>o1. rword h (b + HEADER_BYTES + o1)) (ref_offs P h b)"

inductive_set live :: "program \<Rightarrow> (nat \<Rightarrow> byte) \<Rightarrow> nat list \<Rightarrow> nat set \<Rightarrow> nat set"
  for P h bs R where
  root: "v \<in> R \<Longrightarrow> obj_at P h bs v = Some b \<Longrightarrow> b \<in> live P h bs R"
| kid: "b \<in> live P h bs R \<Longrightarrow> v \<in> set (kids P h b) \<Longrightarrow> obj_at P h bs v = Some c \<Longrightarrow>
    c \<in> live P h bs R"

lemma live_subset: "live P h bs R \<subseteq> set bs"
proof
  show "b \<in> set bs" if "b \<in> live P h bs R" for b
    using that by (induction rule: live.induct) (auto dest: obj_at_Some)
qed

lemma live_mono: "R \<subseteq> R' \<Longrightarrow> live P h bs R \<subseteq> live P h bs R'"
proof
  show "b \<in> live P h bs R'" if "R \<subseteq> R'" "b \<in> live P h bs R" for b
    using that(2,1) by (induction rule: live.induct) (auto intro: live.intros)
qed

section \<open>Heaps that differ in mark bits\<close>

definition same_shape :: "nat list \<Rightarrow> (nat \<Rightarrow> byte) \<Rightarrow> (nat \<Rightarrow> byte) \<Rightarrow> bool" where
  "same_shape bs h h' \<longleftrightarrow> (\<forall>b \<in> set bs. hkind h' b = hkind h b \<and> hdetail h' b = hdetail h b)"

definition only_marks :: "nat list \<Rightarrow> (nat \<Rightarrow> byte) \<Rightarrow> (nat \<Rightarrow> byte) \<Rightarrow> bool" where
  "only_marks bs h h' \<longleftrightarrow> same_shape bs h h' \<and> (\<forall>x. (\<forall>b \<in> set bs. x \<noteq> b + 1) \<longrightarrow> h' x = h x)"

definition marks :: "nat list \<Rightarrow> (nat \<Rightarrow> byte) \<Rightarrow> nat set" where
  "marks bs h = {b \<in> set bs. hmarked h b}"

lemma same_shape_refl [simp]: "same_shape bs h h"
  by (simp add: same_shape_def)

lemma same_shape_trans: "same_shape bs h h' \<Longrightarrow> same_shape bs h' h'' \<Longrightarrow> same_shape bs h h''"
  by (simp add: same_shape_def)

lemma same_shape_block:
  assumes "same_shape bs h h'" and "b \<in> set bs"
  shows "psize P h' b = psize P h b" and "header_ok P h' b = header_ok P h b"
    and "ref_offs P h' b = ref_offs P h b" and "hkind h' b = hkind h b" and "hdetail h' b = hdetail h b"
  using assms block_cong [of h' b h] by (auto simp: same_shape_def)

lemma same_shape_tiles: "same_shape bs h h' \<Longrightarrow> tiles P h' a bs tp = tiles P h a bs tp"
  by (rule tiles_cong) (simp add: same_shape_def)

lemma same_shape_obj_at: "same_shape bs h h' \<Longrightarrow> obj_at P h' bs v = obj_at P h bs v"
  by (rule obj_at_cong) (simp add: same_shape_def)

lemma only_marks_refl [simp]: "only_marks bs h h"
  by (simp add: only_marks_def)

lemma only_marks_trans: "only_marks bs h h' \<Longrightarrow> only_marks bs h' h'' \<Longrightarrow> only_marks bs h h''"
  by (auto simp: only_marks_def intro: same_shape_trans)

lemma only_marks_shape: "only_marks bs h h' \<Longrightarrow> same_shape bs h h'"
  by (simp add: only_marks_def)

text \<open>Bytes of a payload are out of reach of every header.\<close>

lemma tiles_payload_apart:
  assumes "tiles P h a bs tp" and "b \<in> set bs" and "c \<in> set bs"
    and "b + HEADER_BYTES \<le> x" and "x < bend P h b"
  shows "x < c \<or> c + HEADER_BYTES \<le> x"
  using assms tiles_disjoint [OF assms(1), of b c] by (cases b c rule: linorder_cases) auto

lemma only_marks_payload:
  assumes "only_marks bs h h'" and "tiles P h a bs tp" and "b \<in> set bs"
    and "b + HEADER_BYTES \<le> x" and "x < bend P h b"
  shows "h' x = h x"
proof -
  have "x \<noteq> c + 1" if "c \<in> set bs" for c
    using tiles_payload_apart [OF assms(2,3) that assms(4,5)] by auto
  with assms(1) show ?thesis by (simp add: only_marks_def)
qed

lemma only_marks_word:
  assumes "only_marks bs h h'" and "tiles P h a bs tp" and "b \<in> set bs"
    and "b + HEADER_BYTES \<le> x" and "x + 2 \<le> bend P h b"
  shows "rword h' x = rword h x"
  using assms by (intro rword_cong only_marks_payload [OF assms(1-3)]) auto

lemma tiles_headers_apart:
  "tiles P h a bs tp \<Longrightarrow> b \<in> set bs \<Longrightarrow> c \<in> set bs \<Longrightarrow> b \<noteq> c \<Longrightarrow> b + 6 \<le> c \<or> c + 6 \<le> b"
  using tiles_disjoint [of P h a bs tp b c] tiles_disjoint [of P h a bs tp c b]
    tiles_psize [of P h a bs tp b] tiles_psize [of P h a bs tp c]
  by (cases b c rule: linorder_cases) force+

lemma with_mark_shape:
  assumes "tiles P h a bs tp" and "b \<in> set bs"
  shows "only_marks bs h (with_mark b m h)"
proof -
  have "hkind (with_mark b m h) c = hkind h c \<and> hdetail (with_mark b m h) c = hdetail h c"
    if "c \<in> set bs" for c
    using tiles_headers_apart [OF assms that] 
    by (cases "c = b") (auto simp: hkind_byte hdetail_def rword_def with_mark_def)
  then show ?thesis
    using assms by (auto simp: only_marks_def same_shape_def with_mark_def)
qed

section \<open>The containing block\<close>

lemma containing_object_eq:
  assumes t: "tiles P h a bs tp" and "same_shape bs h (heap s)" and "tp \<le> heap_len s"
  shows "containing_object P s ref (map (\<lambda>b. b + HEADER_BYTES) bs)
    = Inr (map_option (\<lambda>b. b + HEADER_BYTES) (obj_at P h bs ref))"
proof -
  let ?starts = "map (\<lambda>b. b + HEADER_BYTES) bs"
  define n where "n = bisect_right ?starts ref"
  have sorted: "sorted ?starts"
    using tiles_sorted [OF t] by (simp add: sorted_map strict_sorted_iff)
  note spec = bisect_right_spec [OF sorted, where x = ref, folded n_def]
  show ?thesis
  proof (cases "n = 0")
    case True
    have "ref < b + HEADER_BYTES" if "b \<in> set bs" for b
      using that spec(3) True by (auto simp: in_set_conv_nth)
    then have "obj_at P h bs ref = None"
      by (auto simp: obj_at_def find_None_iff dest!: leD)
    with True show ?thesis by (simp add: containing_object_def n_def)
  next
    case False
    then have n: "n - 1 < length bs" using spec(1) by simp
    define b where "b = bs ! (n - 1)"
    have b: "b \<in> set bs" "b + HEADER_BYTES \<le> ref"
      using n spec(2) [of "n - 1"] False by (auto simp: b_def)
    have bend: "block_end P s b = Inr (bend P h b)"
      using tiles_range [OF t b(1)] tiles_header_ok [OF t b(1)] assms(3)
        same_shape_block(1,2) [OF assms(2) b(1), of P] by simp
    have "obj_at P h bs ref = (if ref < bend P h b then Some b else None)"
    proof (cases "ref < bend P h b")
      case True
      then show ?thesis using obj_atI [OF t b] by simp
    next
      case ge: False
      have "\<not> (c + HEADER_BYTES \<le> ref \<and> ref < bend P h c)" if c: "c \<in> set bs" for c
      proof (cases "c \<le> b")
        case True
        with c b ge show ?thesis using tiles_disjoint [OF t c b(1)] by (cases "c = b") auto
      next
        case gt: False
        obtain i where i: "i < length bs" "c = bs ! i" using c by (auto simp: in_set_conv_nth)
        have "\<not> i < n"
        proof
          assume "i < n"
          then have "bs ! i \<le> bs ! (n - 1)"
            using n tiles_sorted [OF t] by (intro sorted_nth_mono) (auto simp: strict_sorted_iff)
          with gt i show False by (simp add: b_def)
        qed
        with spec(3) [of i] i show ?thesis by simp
      qed
      with ge show ?thesis by (auto simp: obj_at_def find_None_iff)
    qed
    with False n bend show ?thesis
      by (simp add: containing_object_def flip: n_def) (simp add: b_def)
  qed
qed

lemma ref_addrs_eq:
  assumes "b + 3 < heap_len s" and "header_ok P (heap s) b"
  shows "ref_addrs P s b = Inr (map (\<lambda>o1. b + HEADER_BYTES + o1) (ref_offs P (heap s) b))"
  using assms
  by (auto simp: ref_addrs_def ref_offs_def ref_offs_for_def header_ok_def layout_of_def
      split: option.splits if_splits)

text \<open>
  An object's kids can be read off any heap that differs from \<open>h\<close> in marks alone.
\<close>

lemma kids_eq:
  assumes "tiles P h a bs tp" and "only_marks bs h h'" and "layouts_ok P" and b: "b \<in> set bs"
  shows "kids P h' b = kids P h b"
proof -
  have "rword h' (b + HEADER_BYTES + o1) = rword h (b + HEADER_BYTES + o1)"
    if "o1 \<in> set (ref_offs P h b)" for o1
    using ref_offs_bound [OF assms(3) that] by (intro only_marks_word [OF assms(2,1) b]) auto
  then show ?thesis
    using same_shape_block(3) [OF only_marks_shape [OF assms(2)] b] by (simp add: kids_def)
qed

lemma children_eq:
  assumes t: "tiles P h a bs tp" and om: "only_marks bs h (heap s)" and "layouts_ok P"
    and b: "b \<in> set bs" and len: "tp \<le> heap_len s"
  shows "children P s b = Inr (kids P h b)"
proof -
  note shape = same_shape_block [OF only_marks_shape [OF om] b]
  have "b + 3 < heap_len s" and fits: "bend P h b \<le> heap_len s"
    using tiles_range [OF t b] len by simp_all
  then have "ref_addrs P s b = Inr (map (\<lambda>o1. b + HEADER_BYTES + o1) (ref_offs P (heap s) b))"
    using tiles_header_ok [OF t b] shape by (intro ref_addrs_eq) auto
  moreover have "read_word s (b + HEADER_BYTES + o1) = Inr (rword (heap s) (b + HEADER_BYTES + o1))"
    if "o1 \<in> set (ref_offs P (heap s) b)" for o1
    using ref_offs_bound(1) [OF assms(3), of o1 h b] that fits shape(3) [of P] by simp
  then have "mapR (read_word s) (map (\<lambda>o1. b + HEADER_BYTES + o1) (ref_offs P (heap s) b))
      = Inr (map (rword (heap s)) (map (\<lambda>o1. b + HEADER_BYTES + o1) (ref_offs P (heap s) b)))"
    by (intro mapR_Inr) auto
  ultimately show ?thesis
    using kids_eq [OF t om assms(3) b] by (simp add: children_def kids_def comp_def)
qed

section \<open>The loop\<close>

definition closed_up :: "program \<Rightarrow> (nat \<Rightarrow> byte) \<Rightarrow> nat list \<Rightarrow> nat set \<Rightarrow> nat list \<Rightarrow> bool" where
  "closed_up P h bs M pend \<longleftrightarrow> (\<forall>b \<in> M. \<forall>v \<in> set (kids P h b). \<forall>c.
     obj_at P h bs v = Some c \<longrightarrow> c \<in> M \<or> v \<in> set pend)"

definition held :: "program \<Rightarrow> (nat \<Rightarrow> byte) \<Rightarrow> nat list \<Rightarrow> nat set \<Rightarrow> nat list \<Rightarrow> bool" where
  "held P h bs M refs \<longleftrightarrow> (\<forall>v \<in> set refs. \<forall>b. obj_at P h bs v = Some b \<longrightarrow> b \<in> M)"

lemma closed_up_drop:
  assumes "closed_up P h bs M (v # pend)"
    and "\<And>c. obj_at P h bs v = Some c \<Longrightarrow> c \<in> M"
  shows "closed_up P h bs M pend"
  using assms by (auto simp: closed_up_def)

lemma held_Cons: "held P h bs M (v # vs) \<longleftrightarrow>
    (\<forall>b. obj_at P h bs v = Some b \<longrightarrow> b \<in> M) \<and> held P h bs M vs"
  by (simp add: held_def)

lemma held_append: "held P h bs M (vs @ ws) \<longleftrightarrow> held P h bs M vs \<and> held P h bs M ws"
  by (auto simp: held_def)

lemma held_mono: "held P h bs M vs \<Longrightarrow> M \<subseteq> M' \<Longrightarrow> held P h bs M' vs"
  by (auto simp: held_def)

lemma marks_with_mark:
  assumes "b \<in> set bs"
  shows "marks bs (with_mark b True h) = insert b (marks bs h)"
proof -
  have "hmarked (with_mark b True h) c \<longleftrightarrow> c = b \<or> hmarked h c" for c
    using with_mark_apart [of c b True h] by (cases "c = b") auto
  with assms show ?thesis by (auto simp: marks_def)
qed

lemma mark_loop_correct:
  assumes "tiles P h HEAP_START bs tp" and "tp \<le> heap_len s" and "layouts_ok P"
    and "starts = map (\<lambda>b. b + HEADER_BYTES) bs"
    and "only_marks bs h (heap s)" and "closed_up P h bs (marks bs (heap s)) pending"
    and "marks bs (heap s) \<subseteq> L" and "held P h bs L pending"
    and "\<And>b v c. b \<in> L \<Longrightarrow> v \<in> set (kids P h b) \<Longrightarrow> obj_at P h bs v = Some c \<Longrightarrow> c \<in> L"
  shows "\<exists>h'. mark_loop P starts pending s = Inr (s\<lparr>heap := h'\<rparr>) \<and> only_marks bs h h'
    \<and> marks bs (heap s) \<subseteq> marks bs h' \<and> closed_up P h bs (marks bs h') []
    \<and> held P h bs (marks bs h') pending \<and> marks bs h' \<subseteq> L"
  using assms
proof (induction P starts pending s rule: mark_loop.induct)
  case (1 P starts pending s)
  note t = "1.prems"(1) and om = "1.prems"(5) and lay = "1.prems"(3) and starts = "1.prems"(4)
  note shape = only_marks_shape [OF om]
  show ?case
  proof (cases pending)
    case Nil
    with "1.prems" show ?thesis
      by (intro exI [of _ "heap s"]) (simp add: mark_loop.simps held_def)
  next
    case (Cons v rest)
    have find: "containing_object P s v starts
        = Inr (map_option (\<lambda>b. b + HEADER_BYTES) (obj_at P h bs v))"
      unfolding starts by (rule containing_object_eq [OF t shape "1.prems"(2)])
    show ?thesis
    proof (cases "obj_at P h bs v")
      case None
      have "closed_up P h bs (marks bs (heap s)) rest"
        by (rule closed_up_drop [OF "1.prems"(6) [unfolded Cons]]) (simp add: None)
      moreover have "mark_loop P starts pending s = mark_loop P starts rest s"
        using Cons None find by (subst mark_loop.simps) simp
      ultimately show ?thesis
        using "1.IH"(1) [OF Cons _ t "1.prems"(2,3,4,5)] "1.IH"(2) [OF Cons _ find]
          "1.prems" Cons None
        by (cases "v = 0") (auto simp: held_Cons)
    next
      case (Some b)
      then have b: "b \<in> set bs" and "v \<noteq> 0" using obj_at_Some [OF Some] by auto
      have len: "b + 3 < heap_len s" using tiles_range [OF t b] "1.prems"(2) by simp
      show ?thesis
      proof (cases "hmarked (heap s) b")
        case True
        then have "closed_up P h bs (marks bs (heap s)) rest"
          using b Some by (intro closed_up_drop [OF "1.prems"(6) [unfolded Cons]]) (auto simp: marks_def)
        moreover have "mark_loop P starts pending s = mark_loop P starts rest s"
          using Cons Some find True len \<open>v \<noteq> 0\<close> by (subst mark_loop.simps) simp
        ultimately show ?thesis
          using "1.IH"(3) [OF Cons \<open>v \<noteq> 0\<close> find, of "b + HEADER_BYTES" True]
            "1.prems" Cons Some True len b
          by (auto simp: held_Cons marks_def)
      next
        case False
        define s1 where "s1 = s\<lparr>heap := with_mark b True (heap s)\<rparr>"
        have mark: "set_mark b True s = Inr s1" using len by (simp add: set_mark_Inr s1_def)
        have om1: "only_marks bs h (heap s1)"
          using only_marks_trans [OF om with_mark_shape [of P "heap s" HEAP_START bs tp b True]] t b
            same_shape_tiles [OF shape] by (simp add: s1_def)
        have cs: "children P s1 b = Inr (kids P h b)"
          using "1.prems"(2) by (intro children_eq [OF t om1 lay b]) (simp add: s1_def)
        have M1: "marks bs (heap s1) = insert b (marks bs (heap s))"
          using marks_with_mark [OF b] by (simp add: s1_def)
        have run: "mark_loop P starts pending s = mark_loop P starts (rev (kids P h b) @ rest) s1"
          using Cons Some find False len \<open>v \<noteq> 0\<close> mark cs by (subst mark_loop.simps) simp
        have bL: "b \<in> L" using "1.prems"(8) Cons Some by (simp add: held_Cons)
        have "closed_up P h bs (marks bs (heap s1)) (rev (kids P h b) @ rest)"
          using "1.prems"(6) Cons Some M1 unfolding closed_up_def
          by simp (metis option.inject)
        moreover have "held P h bs L (rev (kids P h b) @ rest)"
          using "1.prems"(8,9) Cons bL by (auto simp: held_def)
        ultimately obtain h' where h': "mark_loop P starts (rev (kids P h b) @ rest) s1
              = Inr (s1\<lparr>heap := h'\<rparr>)"
            "only_marks bs h h'" "marks bs (heap s1) \<subseteq> marks bs h'" "closed_up P h bs (marks bs h') []"
            "held P h bs (marks bs h') (rev (kids P h b) @ rest)" "marks bs h' \<subseteq> L"
          using "1.IH"(4) [OF Cons \<open>v \<noteq> 0\<close> find, of "b + HEADER_BYTES" False s1 "kids P h b"]
            Some len False mark cs t lay starts om1 M1 bL "1.prems"(2,7,9)
          by (auto simp: s1_def)
        then show ?thesis
          using run Cons Some M1 by (intro exI [of _ h']) (auto simp: s1_def held_Cons held_append)
      qed
    qed
  qed
qed

text \<open>All the roots in turn, on a heap with no mark set: the marks are the reachable objects.\<close>

lemma mark_roots:
  assumes t: "tiles P h HEAP_START bs tp" and len: "tp \<le> heap_len s" and lay: "layouts_ok P"
    and om: "only_marks bs h (heap s)" and closed: "closed_up P h bs (marks bs (heap s)) []"
    and sub: "marks bs (heap s) \<subseteq> live P h bs R" and R: "set refs \<subseteq> R"
  shows "\<exists>h'. foldR (mark_from P (map (\<lambda>b. b + HEADER_BYTES) bs)) refs s = Inr (s\<lparr>heap := h'\<rparr>)
    \<and> only_marks bs h h' \<and> closed_up P h bs (marks bs h') [] \<and> marks bs (heap s) \<subseteq> marks bs h'
    \<and> held P h bs (marks bs h') refs \<and> marks bs h' \<subseteq> live P h bs R"
  using len om closed sub R
proof (induction refs arbitrary: s)
  case Nil
  then show ?case by (intro exI [of _ "heap s"]) (simp add: held_def)
next
  case (Cons v refs)
  have "closed_up P h bs (marks bs (heap s)) [v]"
    using Cons.prems(3) by (auto simp: closed_up_def)
  moreover have "held P h bs (live P h bs R) [v]"
    using Cons.prems(5) by (auto simp: held_def intro: live.root)
  ultimately obtain h1 where h1: "mark_from P (map (\<lambda>b. b + HEADER_BYTES) bs) v s = Inr (s\<lparr>heap := h1\<rparr>)"
      "only_marks bs h h1" "marks bs (heap s) \<subseteq> marks bs h1" "closed_up P h bs (marks bs h1) []"
      "held P h bs (marks bs h1) [v]" "marks bs h1 \<subseteq> live P h bs R"
    using mark_loop_correct [OF t Cons.prems(1) lay refl Cons.prems(2), of "[v]" "live P h bs R"]
      Cons.prems(4) live.kid [of _ P h bs R]
    by (auto simp: mark_from_def)
  then obtain h2 where "foldR (mark_from P (map (\<lambda>b. b + HEADER_BYTES) bs)) refs (s\<lparr>heap := h1\<rparr>)
        = Inr (s\<lparr>heap := h2\<rparr>)"
      "only_marks bs h h2" "closed_up P h bs (marks bs h2) []" "marks bs h1 \<subseteq> marks bs h2"
      "held P h bs (marks bs h2) refs" "marks bs h2 \<subseteq> live P h bs R"
    using Cons.IH [of "s\<lparr>heap := h1\<rparr>"] Cons.prems(1,5) by auto
  with h1 show ?case
    by (intro exI [of _ h2]) (auto simp: held_def)
qed

lemma live_le_marks:
  assumes "closed_up P h bs M []" and "held P h bs M refs"
  shows "live P h bs (set refs) \<subseteq> M"
proof
  show "b \<in> M" if "b \<in> live P h bs (set refs)" for b
    using that assms by (induction rule: live.induct) (auto simp: closed_up_def held_def)
qed

lemma mark_phase:
  assumes "tiles P (heap s) HEAP_START bs (heap_ptr s)" and "heap_ptr s \<le> heap_len s"
    and "layouts_ok P" and "\<forall>b \<in> set bs. \<not> hmarked (heap s) b"
  obtains h' where
    "foldR (mark_from P (map (\<lambda>b. b + HEADER_BYTES) bs)) refs s = Inr (s\<lparr>heap := h'\<rparr>)"
    and "only_marks bs (heap s) h'" and "marks bs h' = live P (heap s) bs (set refs)"
proof -
  have none: "marks bs (heap s) = {}" using assms(4) by (simp add: marks_def)
  obtain h' where "foldR (mark_from P (map (\<lambda>b. b + HEADER_BYTES) bs)) refs s = Inr (s\<lparr>heap := h'\<rparr>)"
    "only_marks bs (heap s) h'" "closed_up P (heap s) bs (marks bs h') []"
    "held P (heap s) bs (marks bs h') refs" "marks bs h' \<subseteq> live P (heap s) bs (set refs)"
    using mark_roots [OF assms(1,2,3), of "set refs" refs] by (auto simp: none closed_up_def)
  with that live_le_marks show thesis by blast
qed

end
