(* ===== verification/Compaction.thy ===== *)
theory Compaction
  imports Marking
begin

text \<open>
  The compaction phases of the collector: where the plan puts each survivor, what rewriting the
  references writes, and what sliding the survivors down leaves in the heap.
\<close>

section \<open>Where the survivors go\<close>

text \<open>
  \<open>place\<close> packs blocks of the given payload sizes one after another from an address;
  \<open>place_end\<close> is the address behind the last.
\<close>

fun place :: "(nat \<Rightarrow> nat) \<Rightarrow> nat list \<Rightarrow> nat \<Rightarrow> (nat \<times> nat) list" where
  "place sz [] p = []"
| "place sz (b # bs) p = (b, p) # place sz bs (p + HEADER_BYTES + sz b)"

fun place_end :: "(nat \<Rightarrow> nat) \<Rightarrow> nat list \<Rightarrow> nat \<Rightarrow> nat" where
  "place_end sz [] p = p"
| "place_end sz (b # bs) p = place_end sz bs (p + HEADER_BYTES + sz b)"

definition forward_of :: "(nat \<times> nat) list \<Rightarrow> forward" where
  "forward_of ps = map_of (map (\<lambda>(b, p). (b + HEADER_BYTES, p + HEADER_BYTES)) ps)"

lemma map_fst_place [simp]: "map fst (place sz bs p) = bs"
  by (induction bs arbitrary: p) auto

lemma place_end_sum: "place_end sz bs p = p + (\<Sum>b \<leftarrow> bs. HEADER_BYTES + sz b)"
  by (induction bs arbitrary: p) auto

lemma place_end_ge: "p \<le> place_end sz bs p"
  by (simp add: place_end_sum)

lemma place_range: "(b, q) \<in> set (place sz bs p) \<Longrightarrow> p \<le> q \<and> q + HEADER_BYTES + sz b \<le> place_end sz bs p"
proof (induction bs arbitrary: p)
  case (Cons c bs)
  then show ?case
    using place_end_ge [of "p + HEADER_BYTES + sz c" sz bs] by force
qed simp

lemma place_cong: "(\<And>b. b \<in> set bs \<Longrightarrow> sz b = sz' b) \<Longrightarrow> place sz bs p = place sz' bs p"
  by (induction bs arbitrary: p) auto

lemma place_end_cong:
  "(\<And>b. b \<in> set bs \<Longrightarrow> sz b = sz' b) \<Longrightarrow> place_end sz bs p = place_end sz' bs p"
  by (induction bs arbitrary: p) auto

lemma place_ex: "b \<in> set bs \<Longrightarrow> \<exists>q. (b, q) \<in> set (place sz bs p)"
proof -
  assume "b \<in> set bs"
  then have "b \<in> fst ` set (place sz bs p)"
    using map_fst_place [of sz bs p] by (metis list.set_map)
  then show ?thesis by force
qed

lemma map_of_place: "distinct bs \<Longrightarrow> (b, q) \<in> set (place sz bs p) \<Longrightarrow> map_of (place sz bs p) b = Some q"
  by (intro map_of_is_SomeI) simp_all

lemma map_of_place_None: "b \<notin> set bs \<Longrightarrow> map_of (place sz bs p) b = None"
  by (metis map_fst_place list.set_map map_of_eq_None_iff)

lemma forward_of_eq: "forward_of ps (b + HEADER_BYTES) = map_option (\<lambda>p. p + HEADER_BYTES) (map_of ps b)"
  by (induction ps) (auto simp: forward_of_def)

text \<open>Packed from at or below the first block, no survivor moves up.\<close>

lemma place_down:
  assumes "tiles P h a bs tp" and "p \<le> a" and "(b, q) \<in> set (place (psize P h) (filter K bs) p)"
  shows "q \<le> b"
  using assms
proof (induction bs arbitrary: a p)
  case (Cons c bs)
  then show ?case
    using Cons.IH [of "bend P h c" "p + HEADER_BYTES + psize P h c"] Cons.IH [of "bend P h c" p]
    by (auto split: if_splits)
qed simp

lemma place_end_down:
  "tiles P h a bs tp \<Longrightarrow> p \<le> a \<Longrightarrow> place_end (psize P h) (filter K bs) p \<le> tp"
proof (induction bs arbitrary: a p)
  case (Cons c bs)
  then show ?case
    using Cons.IH [of "bend P h c" "p + HEADER_BYTES + psize P h c"] Cons.IH [of "bend P h c" p]
    by auto
qed simp

lemma plan_step_eq:
  assumes "b + 3 < heap_len s" and "header_ok P (heap s) b"
  shows "plan_step P s b (fw, free) =
    Inr (if hmarked (heap s) b
         then (fw(b + HEADER_BYTES \<mapsto> free + HEADER_BYTES), free + HEADER_BYTES + psize P (heap s) b)
         else (fw, free))"
  using assms by (simp add: plan_step_def)

lemma plan_fold:
  assumes "distinct bs"
    and "\<And>b. b \<in> set bs \<Longrightarrow> b + 3 < heap_len s \<and> header_ok P (heap s) b"
  shows "foldR (plan_step P s) bs (fw, free) =
    Inr (fw ++ forward_of (place (psize P (heap s)) (filter (hmarked (heap s)) bs) free),
         place_end (psize P (heap s)) (filter (hmarked (heap s)) bs) free)"
  using assms
proof (induction bs arbitrary: fw free)
  case Nil
  then show ?case by (simp add: forward_of_def)
next
  case (Cons b bs)
  let ?sz = "psize P (heap s)" and ?bs = "filter (hmarked (heap s)) bs"
  have "forward_of (place ?sz ?bs free') (b + HEADER_BYTES) = None" for free'
    using Cons.prems(1) by (auto simp: forward_of_eq map_of_place_None)
  then have "fw(b + HEADER_BYTES \<mapsto> free + HEADER_BYTES) ++ forward_of (place ?sz ?bs free')
      = fw ++ forward_of ((b, free) # place ?sz ?bs free')" for free'
    by (auto simp: forward_of_def map_add_def split: option.splits)
  moreover have "b + 3 < heap_len s" "header_ok P (heap s) b"
    using Cons.prems(2) [of b] by simp_all
  ultimately show ?case
    using Cons by (simp add: plan_step_eq)
qed

lemma plan_compaction_eq:
  assumes "tiles P (heap s) HEAP_START bs (heap_ptr s)" and "heap_ptr s \<le> heap_len s"
  shows "plan_compaction P s =
    Inr (forward_of (place (psize P (heap s)) (filter (hmarked (heap s)) bs) HEAP_START))"
proof -
  have "b + 3 < heap_len s \<and> header_ok P (heap s) b" if "b \<in> set bs" for b
    using tiles_range [OF assms(1) that] tiles_header_ok [OF assms(1) that] assms(2) by simp
  then show ?thesis
    using plan_fold [OF tiles_distinct [OF assms(1)], of s P Map.empty HEAP_START]
      blocks_from_tiles [OF assms]
    by (simp add: plan_compaction_def blocks_def)
qed

section \<open>The image of a reference\<close>

definition new_ref :: "program \<Rightarrow> (nat \<Rightarrow> byte) \<Rightarrow> nat list \<Rightarrow> (nat \<times> nat) list \<Rightarrow> nat \<Rightarrow> nat" where
  "new_ref P h bs ps v =
     (case obj_at P h bs v of
        None \<Rightarrow> v
      | Some b \<Rightarrow> (case map_of ps b of None \<Rightarrow> v | Some p \<Rightarrow> p + (v - b)))"

lemma moved_eq:
  assumes "tiles P h HEAP_START bs tp" and "same_shape bs h (heap s)" and "tp \<le> heap_len s"
  shows "moved P s (forward_of ps) (map (\<lambda>b. b + HEADER_BYTES) bs) v = Inr (new_ref P h bs ps v)"
proof (cases "obj_at P h bs v")
  case None
  with containing_object_eq [OF assms, of v] show ?thesis
    by (simp add: moved_def new_ref_def)
next
  case (Some b)
  with containing_object_eq [OF assms, of v] obj_at_Some [OF Some] show ?thesis
    by (auto simp: moved_def new_ref_def forward_of_eq split: option.splits)
qed

lemma new_ref_less:
  assumes t: "tiles P h HEAP_START bs tp" and "tp \<le> 65536" and "v < 65536"
  shows "new_ref P h bs (place (psize P h) (filter K bs) HEAP_START) v < 65536"
proof (cases "obj_at P h bs v")
  case (Some b)
  note b = obj_at_Some [OF Some]
  show ?thesis
  proof (cases "map_of (place (psize P h) (filter K bs) HEAP_START) b")
    case q: (Some q)
    then have "(b, q) \<in> set (place (psize P h) (filter K bs) HEAP_START)"
      by (rule map_of_SomeD)
    then have "q \<le> b" by (rule place_down [OF t order_refl])
    with assms b show ?thesis by (simp add: new_ref_def Some q)
  qed (use assms in \<open>simp add: new_ref_def Some\<close>)
qed (use assms in \<open>simp add: new_ref_def\<close>)

section \<open>Roots after the move\<close>

definition slot_is_ref :: "program \<Rightarrow> nat \<Rightarrow> nat \<Rightarrow> bool" where
  "slot_is_ref P fn_id slot \<longleftrightarrow> fn_id < length (fns P) \<and> slot \<in> set (ref_slots (fns P ! fn_id))"

definition map_refs :: "program \<Rightarrow> (nat \<Rightarrow> nat) \<Rightarrow> nat \<Rightarrow> nat list \<Rightarrow> nat list" where
  "map_refs P f fn_id ls =
     map (\<lambda>i. if slot_is_ref P fn_id i then f (ls ! i) else ls ! i) [0..<length ls]"

definition map_tagged :: "(nat \<Rightarrow> nat) \<Rightarrow> bool list \<Rightarrow> nat list \<Rightarrow> nat list" where
  "map_tagged f rs vs = map2 (\<lambda>r v. if r then f v else v) rs vs"

definition slots_ok :: "program \<Rightarrow> bool" where
  "slots_ok P \<longleftrightarrow> (\<forall>fn \<in> set (fns P). distinct (ref_slots fn))"

lemma length_map_refs [simp]: "length (map_refs P f i ls) = length ls"
  by (simp add: map_refs_def)

lemma foldR_move_slot:
  assumes "distinct slots"
  shows "foldR (move_slot (\<lambda>v. Inr (f v))) slots ls
    = Inr (map (\<lambda>i. if i \<in> set slots then f (ls ! i) else ls ! i) [0..<length ls])"
  using assms
proof (induction slots arbitrary: ls)
  case Nil
  then show ?case by (simp add: map_nth)
next
  case (Cons k slots)
  then show ?case
    by (auto simp: move_slot_def nth_list_update intro!: nth_equalityI)
qed

lemma move_locals_eq:
  assumes "slots_ok P"
  shows "move_locals P (\<lambda>v. Inr (f v)) fn_id ls = Inr (map_refs P f fn_id ls)"
proof (cases "fn_id < length (fns P)")
  case True
  then have "distinct (ref_slots (fns P ! fn_id))" using assms by (simp add: slots_ok_def)
  with True show ?thesis
    by (simp add: move_locals_def foldR_move_slot map_refs_def slot_is_ref_def)
next
  case False
  then show ?thesis by (simp add: move_locals_def map_refs_def slot_is_ref_def map_nth)
qed

lemma move_tagged_eq:
  "length rs = length vs \<Longrightarrow> move_tagged (\<lambda>v. Inr (f v)) rs vs = Inr (map_tagged f rs vs)"
  by (induction rs vs rule: list_induct2) (auto simp: map_tagged_def)

definition move_frame_to :: "program \<Rightarrow> (nat \<Rightarrow> nat) \<Rightarrow> frame \<Rightarrow> frame" where
  "move_frame_to P f fr = fr\<lparr>frame_locals := map_refs P f (fn_index fr) (frame_locals fr)\<rparr>"

lemma mapR_move_frame:
  "slots_ok P \<Longrightarrow> mapR (move_frame P (\<lambda>v. Inr (f v))) fs = Inr (map (move_frame_to P f) fs)"
  by (intro mapR_Inr) (simp add: move_frame_def move_locals_eq move_frame_to_def)

section \<open>Rewriting heap words\<close>

text \<open>The heap with the word at each address of a set replaced by its image.\<close>

definition rewrite :: "(nat \<Rightarrow> nat) \<Rightarrow> nat set \<Rightarrow> (nat \<Rightarrow> byte) \<Rightarrow> (nat \<Rightarrow> byte)" where
  "rewrite f A h = (\<lambda>x. if x \<in> A then of_nat (f (rword h x))
     else if 1 \<le> x \<and> x - 1 \<in> A then of_nat (f (rword h (x - 1)) div 256) else h x)"

definition apart :: "nat set \<Rightarrow> bool" where
  "apart A \<longleftrightarrow> (\<forall>a \<in> A. Suc a \<notin> A)"

lemma rewrite_empty [simp]: "rewrite f {} h = h"
  by (simp add: rewrite_def)

lemma rewrite_other:
  assumes "x \<notin> A" and "\<And>a. a \<in> A \<Longrightarrow> x \<noteq> Suc a"
  shows "rewrite f A h x = h x"
  using assms(1) assms(2) [of "x - 1"] by (auto simp: rewrite_def)

lemma rword_rewrite_other:
  assumes "\<And>a. a \<in> A \<Longrightarrow> a \<noteq> x \<and> a \<noteq> Suc x \<and> Suc a \<noteq> x"
  shows "rword (rewrite f A h) x = rword h x"
  using assms by (intro rword_cong rewrite_other) auto

lemma rword_rewrite:
  assumes "apart A" and "a \<in> A" and "f (rword h a) < 65536"
  shows "rword (rewrite f A h) a = f (rword h a)"
proof -
  have "Suc a \<notin> A" using assms by (simp add: apart_def)
  then have "rword (rewrite f A h) a = rword (wword h a (f (rword h a))) a"
    using assms(2) by (intro rword_cong) (auto simp: rewrite_def wword_def)
  with assms(3) show ?thesis by simp
qed

lemma wword_rewrite:
  assumes "apart (insert a A)" and "a \<notin> A"
  shows "wword (rewrite f A h) a (f (rword (rewrite f A h) a)) = rewrite f (insert a A) h"
proof -
  have "rword (rewrite f A h) a = rword h a"
    using assms by (intro rword_rewrite_other) (auto simp: apart_def)
  moreover have "Suc a \<notin> A" and "\<And>c. c \<in> A \<Longrightarrow> Suc c \<noteq> a"
    using assms by (auto simp: apart_def)
  ultimately show ?thesis
    by (auto simp: wword_def rewrite_def fun_eq_iff)
qed

definition ref_words :: "program \<Rightarrow> (nat \<Rightarrow> byte) \<Rightarrow> nat set \<Rightarrow> nat set" where
  "ref_words P h K = (\<Union>b \<in> K. (\<lambda>o1. b + HEADER_BYTES + o1) ` set (ref_offs P h b))"

lemma ref_words_empty [simp]: "ref_words P h {} = {}"
  by (simp add: ref_words_def)

lemma ref_words_in:
  assumes "layouts_ok P" and "x \<in> ref_words P h K"
  obtains b o1 where "b \<in> K" "x = b + HEADER_BYTES + o1" "o1 \<in> set (ref_offs P h b)"
    "even o1" "b + HEADER_BYTES \<le> x" "x + 2 \<le> bend P h b"
  using assms ref_offs_bound [OF assms(1)] by (fastforce simp: ref_words_def)

lemma apart_ref_words:
  assumes t: "tiles P h a bs tp" and lay: "layouts_ok P" and "K \<subseteq> set bs"
  shows "apart (ref_words P h K)"
  unfolding apart_def
proof (intro ballI notI)
  fix x assume x: "x \<in> ref_words P h K" and sx: "Suc x \<in> ref_words P h K"
  obtain b o1 where b: "b \<in> K" "x = b + HEADER_BYTES + o1" "even o1"
      "b + HEADER_BYTES \<le> x" "x + 2 \<le> bend P h b"
    using ref_words_in [OF lay x] by blast
  obtain c o2 where c: "c \<in> K" "Suc x = c + HEADER_BYTES + o2" "even o2"
      "c + HEADER_BYTES \<le> Suc x" "Suc x + 2 \<le> bend P h c"
    using ref_words_in [OF lay sx] by blast
  show False
  proof (cases b c rule: linorder_cases)
    case equal
    with b c have "o2 = Suc o1" by simp
    with b c show ?thesis by simp
  next
    case less
    with tiles_disjoint [OF t _ _ less] assms(3) b c show ?thesis by auto
  next
    case greater
    with tiles_disjoint [OF t _ _ greater] assms(3) b c show ?thesis by auto
  qed
qed

lemma ref_words_disjoint:
  assumes t: "tiles P h a bs tp" and lay: "layouts_ok P" and "K \<subseteq> set bs" and "b \<in> set bs" and "b \<notin> K"
  shows "ref_words P h K \<inter> ref_words P h {b} = {}"
proof (rule equals0I)
  fix x assume "x \<in> ref_words P h K \<inter> ref_words P h {b}"
  then have x: "x \<in> ref_words P h K" "x \<in> ref_words P h {b}" by simp_all
  obtain c where c: "c \<in> K" "c + HEADER_BYTES \<le> x" "x + 2 \<le> bend P h c"
    using ref_words_in [OF lay x(1)] by blast
  have b: "b + HEADER_BYTES \<le> x" "x + 2 \<le> bend P h b"
    using ref_words_in [OF lay x(2)] by blast+
  show False
    using tiles_disjoint [OF t, of b c] tiles_disjoint [OF t, of c b] b c assms(3-5)
    by (cases b c rule: linorder_cases) auto
qed

text \<open>No header byte belongs to a rewritten word.\<close>

lemma rewrite_header:
  assumes t: "tiles P h a bs tp" and lay: "layouts_ok P" and "K \<subseteq> set bs" and c: "c \<in> set bs"
    and "c \<le> x" and "x < c + HEADER_BYTES" and B: "B \<subseteq> ref_words P h K"
  shows "rewrite f B h' x = h' x"
proof (rule rewrite_other)
  have out: "\<not> (b + HEADER_BYTES \<le> x \<and> x < bend P h b)" if "b \<in> set bs" for b
    using tiles_payload_apart [OF t that c, of x] assms(5,6) by auto
  have far: "\<not> (y \<le> x \<and> x < y + 2)" if y: "y \<in> ref_words P h K" for y
  proof -
    obtain b where "b \<in> K" "b + HEADER_BYTES \<le> y" "y + 2 \<le> bend P h b"
      using ref_words_in [OF lay y] by blast
    then show ?thesis using out [of b] assms(3) by auto
  qed
  show "x \<notin> B" using far [of x] B by auto
  show "x \<noteq> Suc y" if "y \<in> B" for y using far [of y] that B by auto
qed

lemma rewrite_header_subset:
  assumes "tiles P h a bs tp" and "layouts_ok P" and "K \<subseteq> set bs" and "B \<subseteq> ref_words P h K"
  shows "same_shape bs h' (rewrite f B h')"
    and "b \<in> set bs \<Longrightarrow> hmarked (rewrite f B h') b = hmarked h' b"
  using rewrite_header [OF assms(1-3) _ _ _ assms(4)]
  by (auto simp: same_shape_def hkind_byte hmarked_byte hdetail_def rword_def)

lemmas rewrite_shape = rewrite_header_subset [OF _ _ _ order_refl]

text \<open>
  The walk that rewrites the marked blocks, on a heap where those of \<open>K\<close> are done already.
  \<open>hm\<close> is the marked heap the phase starts from.
\<close>

lemma update_words:
  assumes mv: "\<And>(t :: 'w vm) v. same_shape bs hm (heap t) \<Longrightarrow> heap_len t = n \<Longrightarrow> moved P t fw starts v = Inr (f v)"
    and shape: "\<And>B. B \<subseteq> A \<union> set as \<Longrightarrow> same_shape bs hm (rewrite f B hm)"
    and "apart (A \<union> set as)" and "distinct as" and "A \<inter> set as = {}"
    and "\<And>x. x \<in> set as \<Longrightarrow> x + 1 < n"
    and "heap (s :: 'w vm) = rewrite f A hm" and "heap_len s = n"
  shows "foldR (update_word P fw starts) as s = Inr (s\<lparr>heap := rewrite f (A \<union> set as) hm\<rparr>)"
  using shape assms(3-)
proof (induction as arbitrary: A s)
  case (Cons x as)
  have ap: "apart (insert x A)"
    using Cons.prems(2) by (auto simp: apart_def)
  have "same_shape bs hm (heap s)"
    using Cons.prems(1) [of A] Cons.prems(6) by auto
  then have step: "update_word P fw starts x s = Inr (s\<lparr>heap := rewrite f (insert x A) hm\<rparr>)"
    using Cons.prems mv [of s] wword_rewrite [OF ap, of f hm]
    by (simp add: update_word_def)
  have "foldR (update_word P fw starts) as (s\<lparr>heap := rewrite f (insert x A) hm\<rparr>)
      = Inr (s\<lparr>heap := rewrite f (insert x A) hm, heap := rewrite f (insert x A \<union> set as) hm\<rparr>)"
  proof (rule Cons.IH)
    show "\<And>B. B \<subseteq> insert x A \<union> set as \<Longrightarrow> same_shape bs hm (rewrite f B hm)"
      using Cons.prems(1) by auto
    show "apart (insert x A \<union> set as)" using Cons.prems(2) by simp
    show "distinct as" "insert x A \<inter> set as = {}" using Cons.prems(3,4) by auto
    show "\<And>y. y \<in> set as \<Longrightarrow> y + 1 < n" using Cons.prems(5) by simp
  qed (use Cons.prems in simp_all)
  with step show ?case by simp
qed simp

lemma update_blocks_eq:
  assumes t: "tiles P h HEAP_START bs tp" and len: "tp \<le> n" and lay: "layouts_ok P"
    and om: "only_marks bs h hm" and K: "K = marks bs hm"
    and mv: "\<And>(t :: 'w vm) v. same_shape bs h (heap t) \<Longrightarrow> heap_len t = n \<Longrightarrow> moved P t fw starts v = Inr (f v)"
    and bs: "bs = ds @ cs" and "tiles P h a cs tp"
    and "heap (s :: 'w vm) = rewrite f (ref_words P h (K \<inter> set ds)) hm" and "heap_len s = n" and "heap_ptr s = tp"
  shows "update_blocks P fw starts a s = Inr (s\<lparr>heap := rewrite f (ref_words P h K) hm\<rparr>)"
  using assms(7-)
proof (induction cs arbitrary: ds a s)
  case Nil
  then have "K \<inter> set ds = K" using K by (auto simp: marks_def)
  with Nil show ?case by (simp add: update_blocks.simps)
next
  case (Cons b cs)
  have a: "a = b" and rest: "tiles P h (bend P h b) cs tp" using Cons.prems(2) by simp_all
  have b: "b \<in> set bs" and bds: "b \<notin> set ds"
    using Cons.prems(1) tiles_distinct [OF t] by auto
  have bend: "bend P h b \<le> tp" and len_b: "b + 3 < heap_len s" and "a < heap_ptr s"
    using tiles_range [OF t b] len Cons.prems(4,5) a by simp_all
  note shape_hm = only_marks_shape [OF om]
  have shape_rw: "same_shape bs h (rewrite f (ref_words P h J) hm)"
    and marked_rw: "hmarked (rewrite f (ref_words P h J) hm) b = hmarked hm b"
    if "J \<subseteq> set bs" for J
    using rewrite_shape [OF t lay that, where h' = hm and f = f] shape_hm b by (auto intro: same_shape_trans)
  have Kds: "K \<inter> set ds \<subseteq> set bs" using K by (auto simp: marks_def)
  have shape_s: "same_shape bs h (heap s)" using shape_rw [OF Kds] Cons.prems(3) by simp
  define K' where "K' = K \<inter> set (ds @ [b])"
  define s1 where "s1 = s\<lparr>heap := rewrite f (ref_words P h K') hm\<rparr>"
  have step: "update_block P fw starts b s = Inr s1"
  proof (cases "b \<in> K")
    case False
    then have "K' = K \<inter> set ds" by (auto simp: K'_def)
    moreover have "\<not> hmarked (heap s) b"
      using False marked_rw [OF Kds] Cons.prems(3) K b by (simp add: marks_def)
    ultimately show ?thesis
      using len_b Cons.prems(3) by (simp add: update_block_def s1_def)
  next
    case True
    then have K': "K' = insert b (K \<inter> set ds)" by (auto simp: K'_def)
    let ?as = "map (\<lambda>o1. b + HEADER_BYTES + o1) (ref_offs P h b)"
    have marked: "hmarked (heap s) b"
      using True marked_rw [OF Kds] Cons.prems(3) K b by (simp add: marks_def)
    have addrs: "ref_addrs P s b = Inr ?as"
      using ref_addrs_eq [OF len_b, of P] same_shape_block(2,3) [OF shape_s b, of P]
        tiles_header_ok [OF t b] by simp
    have set_as: "set ?as = ref_words P h {b}" by (simp add: ref_words_def)
    have union: "ref_words P h (K \<inter> set ds) \<union> set ?as = ref_words P h K'"
      by (auto simp: K' ref_words_def)
    have "foldR (update_word P fw starts) ?as s
        = Inr (s\<lparr>heap := rewrite f (ref_words P h (K \<inter> set ds) \<union> set ?as) hm\<rparr>)"
    proof (rule update_words [where bs = bs and n = n])
      show "moved P t fw starts v = Inr (f v)" if "same_shape bs hm (heap t)" "heap_len t = n" for t :: "'w vm" and v
        using mv that shape_hm by (blast intro: same_shape_trans)
      have "K' \<subseteq> set bs" using K b by (auto simp: K'_def marks_def)
      then show "apart (ref_words P h (K \<inter> set ds) \<union> set ?as)"
        unfolding union by (rule apart_ref_words [OF t lay])
      show "same_shape bs hm (rewrite f B hm)" if "B \<subseteq> ref_words P h (K \<inter> set ds) \<union> set ?as" for B
        using rewrite_header_subset [OF t lay \<open>K' \<subseteq> set bs\<close>] that unfolding union by blast
      show "distinct ?as"
        using ref_offs_distinct [OF lay] by (simp add: distinct_map inj_on_def)
      show "ref_words P h (K \<inter> set ds) \<inter> set ?as = {}"
        unfolding set_as using ref_words_disjoint [OF t lay Kds b] bds by simp
      show "x + 1 < n" if "x \<in> set ?as" for x
        using that bend len ref_offs_bound(1) [OF lay, of _ h b] by fastforce
    qed (use Cons.prems in simp_all)
    then show ?thesis
      using marked len_b addrs unfolding union by (simp add: update_block_def s1_def)
  qed
  have K'bs: "K' \<subseteq> set bs" using K by (auto simp: K'_def marks_def)
  have "block_end P s1 b = Inr (bend P h b)"
    using shape_rw [OF K'bs] same_shape_block(1,2) [OF shape_rw [OF K'bs] b, of P]
      tiles_header_ok [OF t b] len_b by (simp add: s1_def)
  moreover have "update_blocks P fw starts (bend P h b) s1 = Inr (s1\<lparr>heap := rewrite f (ref_words P h K) hm\<rparr>)"
    using Cons.prems rest by (intro Cons.IH [of "ds @ [b]"]) (simp_all add: s1_def K'_def)
  ultimately show ?case
    using step \<open>a < heap_ptr s\<close> a by (subst update_blocks.simps) (simp add: s1_def)
qed

text \<open>What the whole phase does to the roots.\<close>

definition move_roots :: "program \<Rightarrow> (nat \<Rightarrow> nat) \<Rightarrow> 'w vm \<Rightarrow> 'w vm" where
  "move_roots P f s = s\<lparr>
     locals := map_refs P f (current_fn s) (locals s),
     call_stack := map (move_frame_to P f) (call_stack s),
     stack := map_tagged f (stack_is_ref s) (stack s),
     literals := map f (literals s),
     variants := map f (variants s)\<rparr>"

lemma move_roots_sel [simp]:
  "heap (move_roots P f s) = heap s" "heap_len (move_roots P f s) = heap_len s"
  "heap_ptr (move_roots P f s) = heap_ptr s" "stats (move_roots P f s) = stats s"
  by (simp_all add: move_roots_def)

lemma map_tagged_rev:
  "length rs = length vs \<Longrightarrow> map_tagged f (rev rs) (rev vs) = rev (map_tagged f rs vs)"
  by (simp add: map_tagged_def zip_rev rev_map)

lemma update_references_eq:
  assumes t: "tiles P h HEAP_START bs (heap_ptr s)" and len: "heap_ptr s \<le> heap_len s"
    and lay: "layouts_ok P" and slots: "slots_ok P"
    and tags: "length (stack_is_ref s) = length (stack s)"
    and om: "only_marks bs h (heap s)"
    and f: "f = new_ref P h bs ps"
  shows "update_references P (forward_of ps) (map (\<lambda>b. b + HEADER_BYTES) bs) s =
    Inr ((move_roots P f s)\<lparr>heap := rewrite f (ref_words P h (marks bs (heap s))) (heap s)\<rparr>)"
proof -
  let ?starts = "map (\<lambda>b. b + HEADER_BYTES) bs"
  have mv: "moved P t (forward_of ps) ?starts v = Inr (f v)"
    if "same_shape bs h (heap t)" "heap_len t = heap_len s" for t :: "'a vm" and v
    using moved_eq [OF assms(1) that(1)] that(2) len f by simp
  have mv_s: "moved P s (forward_of ps) ?starts = (\<lambda>v. Inr (f v))"
    using mv [OF only_marks_shape [OF om]] by auto
  have "update_blocks P (forward_of ps) ?starts HEAP_START (move_roots P f s)
      = Inr ((move_roots P f s)\<lparr>heap := rewrite f (ref_words P h (marks bs (heap s))) (heap s)\<rparr>)"
    by (rule update_blocks_eq [OF t len lay om refl, of _ _ f "[]" bs]) (use mv t in simp_all)
  moreover have "mapR (\<lambda>v. Inr (f v) :: vm_error + nat) vs = Inr (map f vs)" for vs
    by (rule mapR_Inr) simp
  ultimately show ?thesis
    using tags slots
    by (simp add: update_references_def Let_def mv_s move_locals_eq mapR_move_frame move_tagged_eq
        map_tagged_rev move_roots_def rev_map)
qed

section \<open>Sliding\<close>

text \<open>
  One step copies a marked block down and clears its mark; everything at or above the end of
  the block is left alone, and so is everything below its destination.
\<close>

definition slid :: "nat \<Rightarrow> nat \<Rightarrow> nat \<Rightarrow> (nat \<Rightarrow> byte) \<Rightarrow> (nat \<Rightarrow> byte)" where
  "slid b q n h = (\<lambda>x. if q \<le> x \<and> x < q + n then with_mark b False h (b + (x - q)) else h x)"

lemma set_mark_ok: "b + 1 < heap_len s \<Longrightarrow> set_mark b m s = Inr (s\<lparr>heap := with_mark b m (heap s)\<rparr>)"
  by (simp add: set_mark_Inr)

lemma slide_step_eq:
  assumes "b + 3 < heap_len s" and "header_ok P (heap s) b" and "bend P (heap s) b \<le> heap_len s"
    and "hmarked (heap s) b \<Longrightarrow> fw (b + HEADER_BYTES) = Some (q + HEADER_BYTES)" and "q \<le> b"
  shows "\<exists>st. slide_step P fw b (s, p) =
    Inr (if hmarked (heap s) b
         then (s\<lparr>heap := slid b q (HEADER_BYTES + psize P (heap s) b) (heap s), stats := st\<rparr>,
               q + HEADER_BYTES + psize P (heap s) b)
         else (s\<lparr>stats := st\<rparr>, p))"
proof (cases "hmarked (heap s) b")
  case False
  with assms show ?thesis
    by (intro exI [of _ "(stats s)\<lparr>objects_freed := objects_freed (stats s) + 1,
        bytes_freed := bytes_freed (stats s) + (HEADER_BYTES + psize P (heap s) b)\<rparr>"])
      (simp add: slide_step_def Let_def)
next
  case True
  let ?size = "HEADER_BYTES + psize P (heap s) b"
  show ?thesis
  proof (cases "q = b")
    case eq: True
    have "with_mark b False (heap s) = slid b b ?size (heap s)"
      by (auto simp: slid_def with_mark_def fun_eq_iff)
    with assms True eq show ?thesis
      by (intro exI [of _ "stats s"]) (simp add: slide_step_def Let_def set_mark_ok)
  next
    case False
    define st where "st = (stats s)\<lparr>objects_moved := objects_moved (stats s) + 1\<rparr>"
    have copy: "slice_assign q (q + ?size) (heap_slice s b (b + ?size)) s
      = s\<lparr>heap := (\<lambda>x. if q \<le> x \<and> x < q + ?size then heap s (b + (x - q)) else heap s x)\<rparr>"
      using assms
      by (subst slice_assign_ok)
        (auto simp: heap_slice_ok intro!: ext arg_cong [where f = "\<lambda>h. s\<lparr>heap := h\<rparr>"])
    have "with_mark q False (\<lambda>x. if q \<le> x \<and> x < q + ?size then heap s (b + (x - q)) else heap s x)
        = slid b q ?size (heap s)"
      by (auto simp: slid_def with_mark_def fun_eq_iff)
    with assms True False copy show ?thesis
      by (intro exI [of _ st]) (simp add: slide_step_def Let_def st_def set_mark_ok)
  qed
qed

lemma slide_fold:
  assumes "tiles P (heap s) a cs tp" and "tp \<le> heap_len s" and "p \<le> a"
    and "\<And>b. b \<in> set cs \<Longrightarrow> hmarked (heap s) b = (b \<in> K)"
    and "\<And>b q. (b, q) \<in> set (place (psize P (heap s)) (filter (\<lambda>b. b \<in> K) cs) p) \<Longrightarrow>
      fw (b + HEADER_BYTES) = Some (q + HEADER_BYTES)"
  shows "\<exists>h' st. foldR (slide_step P fw) cs (s, p) = Inr (s\<lparr>heap := h', stats := st\<rparr>,
        place_end (psize P (heap s)) (filter (\<lambda>b. b \<in> K) cs) p)
    \<and> (\<forall>x. x < p \<or> tp \<le> x \<longrightarrow> h' x = heap s x)
    \<and> (\<forall>(b, q) \<in> set (place (psize P (heap s)) (filter (\<lambda>b. b \<in> K) cs) p).
         \<forall>i < HEADER_BYTES + psize P (heap s) b. h' (q + i) = with_mark b False (heap s) (b + i))"
  using assms
proof (induction cs arbitrary: a p s)
  case Nil
  then show ?case by (intro exI [of _ "heap s"] exI [of _ "stats s"]) simp
next
  case (Cons b cs)
  let ?sz = "psize P (heap s)" and ?cs = "filter (\<lambda>b. b \<in> K) cs"
  have a: "a = b" and ok: "header_ok P (heap s) b" and rest: "tiles P (heap s) (bend P (heap s) b) cs tp"
    using Cons.prems(1) by simp_all
  have bend: "bend P (heap s) b \<le> tp" using tiles_le [OF rest] .
  then have len: "b + 3 < heap_len s" "bend P (heap s) b \<le> heap_len s"
    using Cons.prems(2) by simp_all
  show ?case
  proof (cases "b \<in> K")
    case False
    then have "\<not> hmarked (heap s) b" using Cons.prems(4) [of b] by simp
    then obtain st where step: "slide_step P fw b (s, p) = Inr (s\<lparr>stats := st\<rparr>, p)"
      using slide_step_eq [OF len(1) ok len(2), of fw b p] by auto
    obtain h' st' where "foldR (slide_step P fw) cs (s\<lparr>stats := st\<rparr>, p)
          = Inr (s\<lparr>stats := st\<rparr>\<lparr>heap := h', stats := st'\<rparr>, place_end ?sz ?cs p)"
        "\<forall>x. x < p \<or> tp \<le> x \<longrightarrow> h' x = heap s x"
        "\<forall>(b, q) \<in> set (place ?sz ?cs p).
           \<forall>i < HEADER_BYTES + ?sz b. h' (q + i) = with_mark b False (heap s) (b + i)"
      using Cons.IH [of "s\<lparr>stats := st\<rparr>" "bend P (heap s) b" p] rest Cons.prems a False by auto
    with step False show ?thesis
      by (intro exI [of _ h'] exI [of _ st']) simp
  next
    case True
    then have "hmarked (heap s) b" using Cons.prems(4) [of b] by simp
    moreover have "fw (b + HEADER_BYTES) = Some (p + HEADER_BYTES)"
      using Cons.prems(5) [of b p] True by simp
    ultimately obtain st where
      step: "slide_step P fw b (s, p) = Inr (s\<lparr>heap := slid b p (HEADER_BYTES + ?sz b) (heap s), stats := st\<rparr>,
        p + HEADER_BYTES + ?sz b)"
      using slide_step_eq [OF len(1) ok len(2), of fw p p] Cons.prems(3) a by auto
    define s1 where "s1 = s\<lparr>heap := slid b p (HEADER_BYTES + ?sz b) (heap s), stats := st\<rparr>"
    define p1 where "p1 = p + HEADER_BYTES + ?sz b"
    have above: "heap s1 x = heap s x" if "bend P (heap s) b \<le> x" for x
      using that Cons.prems(3) a by (simp add: s1_def slid_def)
    have c_above: "bend P (heap s) b \<le> c" if "c \<in> set cs" for c
      using tiles_range [OF rest that] by simp
    have same: "hkind (heap s1) c = hkind (heap s) c" "hdetail (heap s1) c = hdetail (heap s) c"
        "hmarked (heap s1) c = hmarked (heap s) c" if "c \<in> set cs" for c
      using c_above [OF that] above by (simp_all add: hkind_byte hmarked_byte hdetail_def rword_def)
    have sz: "psize P (heap s1) c = ?sz c" if "c \<in> set cs" for c
      using block_cong(1) same that by blast
    have place_s1: "place (psize P (heap s1)) ?cs p1 = place ?sz ?cs p1"
      by (rule place_cong) (simp add: sz)
    have place_end_s1: "place_end (psize P (heap s1)) ?cs p1 = place_end ?sz ?cs p1"
      by (rule place_end_cong) (simp add: sz)
    have rest1: "tiles P (heap s1) (bend P (heap s) b) cs tp"
      using rest tiles_cong [of cs "heap s1" "heap s"] same by simp
    have "\<exists>h' st'. foldR (slide_step P fw) cs (s1, p1)
          = Inr (s1\<lparr>heap := h', stats := st'\<rparr>, place_end (psize P (heap s1)) ?cs p1)
      \<and> (\<forall>x. x < p1 \<or> tp \<le> x \<longrightarrow> h' x = heap s1 x)
      \<and> (\<forall>(b, q) \<in> set (place (psize P (heap s1)) ?cs p1).
           \<forall>i < HEADER_BYTES + psize P (heap s1) b. h' (q + i) = with_mark b False (heap s1) (b + i))"
    proof (rule Cons.IH [OF rest1])
      show "tp \<le> heap_len s1" "p1 \<le> bend P (heap s) b"
        using Cons.prems(2,3) a by (simp_all add: s1_def p1_def)
      show "hmarked (heap s1) c = (c \<in> K)" if "c \<in> set cs" for c
        using same(3) [OF that] Cons.prems(4) [of c] that by simp
      show "fw (c + HEADER_BYTES) = Some (q + HEADER_BYTES)"
        if "(c, q) \<in> set (place (psize P (heap s1)) ?cs p1)" for c q
        using Cons.prems(5) [of c q] that True unfolding place_s1 by (simp add: p1_def)
    qed
    then obtain h' st' where h': "foldR (slide_step P fw) cs (s1, p1)
          = Inr (s1\<lparr>heap := h', stats := st'\<rparr>, place_end ?sz ?cs p1)"
        "\<And>x. x < p1 \<or> tp \<le> x \<Longrightarrow> h' x = heap s1 x"
        "\<And>c q i. (c, q) \<in> set (place ?sz ?cs p1) \<Longrightarrow> i < HEADER_BYTES + psize P (heap s1) c \<Longrightarrow>
           h' (q + i) = with_mark c False (heap s1) (c + i)"
      unfolding place_s1 place_end_s1 by blast
    have moved: "h' (q + i) = with_mark c False (heap s) (c + i)"
      if cq: "(c, q) \<in> set (place ?sz ?cs p1)" and i: "i < HEADER_BYTES + ?sz c" for c q i
    proof -
      have "c \<in> fst ` set (place ?sz ?cs p1)" using cq by force
      then have c: "c \<in> set cs" by (metis list.set_map map_fst_place filter_is_subset subsetD)
      then show ?thesis
        using h'(3) [OF cq] i sz [OF c] above c_above [OF c] by (simp add: with_mark_def)
    qed
    have here: "h' (p + i) = with_mark b False (heap s) (b + i)" if "i < HEADER_BYTES + ?sz b" for i
      using h'(2) [of "p + i"] that by (simp add: p1_def s1_def slid_def)
    have "h' x = heap s x" if "x < p \<or> tp \<le> x" for x
      using h'(2) [of x] that bend Cons.prems(3) a by (auto simp: p1_def s1_def slid_def)
    with h'(1) step moved here True show ?thesis
      by (intro exI [of _ h'] exI [of _ st']) (auto simp: s1_def p1_def)
  qed
qed

end
