(* ===== verification/Collection.thy ===== *)
theory Collection
  imports Compaction
begin

text \<open>
  A whole collection. The phases are put together into one description of the state after
  \<open>collect\<close>, from which the collector's properties follow: it cannot fail on a well-formed
  machine, it keeps the heap well formed, what survives is what was reachable, packed at the
  bottom of the heap in its old order, and every reference, in the heap and in the roots,
  is redirected to where its object went.
\<close>

section \<open>Survivors and where they go\<close>

definition gc_ok :: "program \<Rightarrow> 'w vm \<Rightarrow> bool" where
  "gc_ok P s \<longleftrightarrow> heap_wf P s \<and> layouts_ok P \<and> slots_ok P
     \<and> length (stack_is_ref s) = length (stack s)"

definition all_blocks :: "program \<Rightarrow> 'w vm \<Rightarrow> nat list" where
  "all_blocks P s = (case blocks P s of Inl e \<Rightarrow> [] | Inr bs \<Rightarrow> bs)"

definition survivors :: "program \<Rightarrow> 'w vm \<Rightarrow> nat list" where
  "survivors P s =
     filter (\<lambda>b. b \<in> live P (heap s) (all_blocks P s) (set (roots P s))) (all_blocks P s)"

definition placed :: "program \<Rightarrow> 'w vm \<Rightarrow> (nat \<times> nat) list" where
  "placed P s = place (psize P (heap s)) (survivors P s) HEAP_START"

definition gc_top :: "program \<Rightarrow> 'w vm \<Rightarrow> nat" where
  "gc_top P s = place_end (psize P (heap s)) (survivors P s) HEAP_START"

definition gc_image :: "program \<Rightarrow> 'w vm \<Rightarrow> nat \<Rightarrow> nat" where
  "gc_image P s v = new_ref P (heap s) (all_blocks P s) (placed P s) v"

lemma gc_okD:
  assumes "gc_ok P s"
  shows "tiles P (heap s) HEAP_START (all_blocks P s) (heap_ptr s)"
    and "blocks P s = Inr (all_blocks P s)"
    and "\<And>b. b \<in> set (all_blocks P s) \<Longrightarrow> \<not> hmarked (heap s) b"
    and "heap_ptr s \<le> 65536" and "heap_len s = 65536" and "layouts_ok P" and "slots_ok P"
    and "length (stack_is_ref s) = length (stack s)"
proof -
  have wf: "heap_wf P s" using assms by (simp add: gc_ok_def)
  obtain bs where "tiles P (heap s) HEAP_START bs (heap_ptr s)" "blocks P s = Inr bs"
    "\<forall>b \<in> set bs. \<not> hmarked (heap s) b"
    using heap_wf_blocks [OF wf] by blast
  then show "tiles P (heap s) HEAP_START (all_blocks P s) (heap_ptr s)"
    and "blocks P s = Inr (all_blocks P s)"
    and "\<And>b. b \<in> set (all_blocks P s) \<Longrightarrow> \<not> hmarked (heap s) b"
    by (simp_all add: all_blocks_def)
  show "heap_ptr s \<le> 65536" and "heap_len s = 65536" and "layouts_ok P" and "slots_ok P"
    and "length (stack_is_ref s) = length (stack s)"
    using assms wf by (simp_all add: gc_ok_def heap_wf_def)
qed

lemma survivors_subset: "set (survivors P s) \<subseteq> set (all_blocks P s)"
  by (auto simp: survivors_def)

lemma survivors_live:
  "set (survivors P s) = live P (heap s) (all_blocks P s) (set (roots P s))"
  using live_subset [of P "heap s" "all_blocks P s" "set (roots P s)"]
  by (auto simp: survivors_def)

lemma survivors_distinct: "gc_ok P s \<Longrightarrow> distinct (survivors P s)"
  by (simp add: survivors_def distinct_filter tiles_distinct [OF gc_okD(1)])

lemma placed_in: "(b, q) \<in> set (placed P s) \<Longrightarrow> b \<in> set (survivors P s)"
  by (metis image_eqI fst_conv list.set_map map_fst_place placed_def)

lemma placed_down: "gc_ok P s \<Longrightarrow> (b, q) \<in> set (placed P s) \<Longrightarrow> q \<le> b"
  using place_down [OF gc_okD(1) order_refl] by (simp add: placed_def survivors_def)

lemma gc_top_le: "gc_ok P s \<Longrightarrow> gc_top P s \<le> heap_ptr s"
  using place_end_down [OF gc_okD(1) order_refl] by (simp add: gc_top_def survivors_def)

text \<open>A heap whose headers are copies of those of packed blocks is tiled by the packing.\<close>

lemma tiles_place:
  assumes "\<And>b q. (b, q) \<in> set (place (psize P h) bs p) \<Longrightarrow>
      hkind h' q = hkind h b \<and> hdetail h' q = hdetail h b \<and> header_ok P h b"
  shows "tiles P h' p (map snd (place (psize P h) bs p)) (place_end (psize P h) bs p)"
  using assms
proof (induction bs arbitrary: p)
  case (Cons b bs)
  have "hkind h' p = hkind h b" "hdetail h' p = hdetail h b" "header_ok P h b"
    using Cons.prems [of b p] by simp_all
  then have "psize P h' p = psize P h b" "header_ok P h' p"
    by (simp_all add: psize_def header_ok_def)
  moreover have "tiles P h' (p + HEADER_BYTES + psize P h b)
      (map snd (place (psize P h) bs (p + HEADER_BYTES + psize P h b)))
      (place_end (psize P h) bs (p + HEADER_BYTES + psize P h b))"
  proof (rule Cons.IH)
    show "hkind h' q = hkind h c \<and> hdetail h' q = hdetail h c \<and> header_ok P h c"
      if "(c, q) \<in> set (place (psize P h) bs (p + HEADER_BYTES + psize P h b))" for c q
      using Cons.prems [of c q] that by simp
  qed
  ultimately show ?case by simp
qed simp

section \<open>The state after a collection\<close>

text \<open>A rewritten marked heap with a block's mark cleared is the rewritten original there.\<close>

lemma rewrite_only_marks:
  assumes t: "tiles P h a bs tp" and lay: "layouts_ok P" and om: "only_marks bs h hm"
    and K: "K \<subseteq> set bs" and b: "b \<in> set bs" and unm: "\<not> hmarked h b"
    and i: "i < HEADER_BYTES + psize P h b"
  shows "with_mark b False (rewrite f (ref_words P h K) hm) (b + i)
    = rewrite f (ref_words P h K) h (b + i)"
proof (cases "i < HEADER_BYTES")
  case header: True
  have fixed: "rewrite f (ref_words P h K) h' (b + j) = h' (b + j)" if "j < HEADER_BYTES" for h' j
    using rewrite_header [OF t lay K b _ _ order_refl, of "b + j"] that by simp
  show ?thesis
  proof (cases "i = 1")
    case True
    have "b \<noteq> c + 1" if "c \<in> set bs" for c
      using tiles_headers_apart [OF t b that] by (cases "c = b") auto
    then have "hm b = h b" using om by (simp add: only_marks_def)
    moreover have "hkind hm b = hkind h b"
      using same_shape_block(4) [OF only_marks_shape [OF om] b] .
    ultimately have "unat (hm (b + 1)) mod 128 = unat (h (b + 1)) mod 128"
      by (simp add: hkind_byte)
    moreover have "unat (h (b + 1)) < 128" using unm by (simp add: hmarked_byte)
    ultimately have "flag_byte False (hm (b + 1)) = h (b + 1)"
      by (simp add: word_unat_eq_iff)
    with True fixed [of 1] show ?thesis by (simp add: with_mark_def)
  next
    case False
    have "b + i \<noteq> c + 1" if "c \<in> set bs" for c
      using tiles_headers_apart [OF t b that] header False by (cases "c = b") auto
    then have "hm (b + i) = h (b + i)" using om by (simp add: only_marks_def)
    with False header fixed show ?thesis by (simp add: with_mark_def)
  qed
next
  case False
  let ?A = "ref_words P h K"
  have word: "rword hm x = rword h x" if x: "x \<in> ?A" for x
  proof -
    obtain c where "c \<in> K" "c + HEADER_BYTES \<le> x" "x + 2 \<le> bend P h c"
      using ref_words_in [OF lay x] by blast
    with K show ?thesis by (intro only_marks_word [OF om t]) auto
  qed
  have "hm (b + i) = h (b + i)"
    using False i by (intro only_marks_payload [OF om t b]) auto
  then show ?thesis
    using False word by (auto simp: with_mark_def rewrite_def)
qed

lemma collect_eq:
  assumes ok: "gc_ok P s"
  obtains h' st where
    "collect P s = Inr ((move_roots P (gc_image P s) s)\<lparr>heap := h', heap_ptr := gc_top P s, stats := st\<rparr>)"
    and "\<And>b q i. (b, q) \<in> set (placed P s) \<Longrightarrow> i < HEADER_BYTES + psize P (heap s) b \<Longrightarrow>
      h' (q + i) = rewrite (gc_image P s) (ref_words P (heap s) (set (survivors P s))) (heap s) (b + i)"
    and "\<And>x. x < HEAP_START \<or> heap_ptr s \<le> x \<Longrightarrow> h' x = heap s x"
    and "\<And>x. gc_top P s \<le> x \<Longrightarrow> x < heap_ptr s \<Longrightarrow> h' x = 0"
proof -
  define bs where "bs = all_blocks P s"
  define s0 where "s0 = s\<lparr>stats := (stats s)\<lparr>collections := collections (stats s) + 1\<rparr>\<rparr>"
  define f where "f = gc_image P s"
  define K where "K = set (survivors P s)"
  note ok' = gc_okD [OF ok, folded bs_def]
  note t = ok'(1) and lay = ok'(6)
  have len: "heap_ptr s \<le> heap_len s" using ok'(4,5) by simp
  have same0: "heap s0 = heap s" "heap_len s0 = heap_len s" "heap_ptr s0 = heap_ptr s"
      "roots P s0 = roots P s"
    by (simp_all add: s0_def roots_def)
  have t0: "tiles P (heap s0) HEAP_START bs (heap_ptr s0)" using t by (simp add: same0)
  have blocks0: "blocks P s0 = Inr bs"
    using blocks_from_tiles [OF t0] len by (simp add: blocks_def same0)
  obtain hm where mark:
    "foldR (mark_from P (map (\<lambda>b. b + HEADER_BYTES) bs)) (roots P s0) s0 = Inr (s0\<lparr>heap := hm\<rparr>)"
    and om: "only_marks bs (heap s) hm" and marks: "marks bs hm = K"
    using mark_phase [OF t0 _ lay, of "roots P s0"] len ok'(3)
    by (auto simp: same0 K_def survivors_live bs_def)
  note shape = only_marks_shape [OF om]
  have Kbs: "K \<subseteq> set bs" using survivors_subset by (simp add: K_def bs_def)
  have filt: "filter (hmarked hm) bs = survivors P s"
    using marks by (auto simp: marks_def K_def survivors_live bs_def survivors_def intro!: filter_cong)
  have sz: "psize P hm b = psize P (heap s) b" if "b \<in> set bs" for b
    using same_shape_block(1) [OF shape that] .
  have "place (psize P hm) (survivors P s) HEAP_START = placed P s"
    unfolding placed_def using sz survivors_subset bs_def by (intro place_cong) auto
  then have plan: "plan_compaction P (s0\<lparr>heap := hm\<rparr>) = Inr (forward_of (placed P s))"
    using plan_compaction_eq [of P "s0\<lparr>heap := hm\<rparr>" bs] same_shape_tiles [OF shape] t len filt
    by (simp add: same0)
  define h1 where "h1 = rewrite f (ref_words P (heap s) K) hm"
  define s1 where "s1 = (move_roots P f (s0\<lparr>heap := hm\<rparr>))\<lparr>heap := h1\<rparr>"
  have update: "update_references P (forward_of (placed P s)) (map (\<lambda>b. b + HEADER_BYTES) bs) (s0\<lparr>heap := hm\<rparr>)
      = Inr s1"
    unfolding s1_def h1_def
    using update_references_eq [of P "heap s" bs "s0\<lparr>heap := hm\<rparr>" f "placed P s"] t len lay ok'(7,8) om marks
    by (simp add: same0 f_def gc_image_def [abs_def] bs_def s0_def)
  have shape1: "same_shape bs (heap s) h1" and marked1: "\<And>b. b \<in> set bs \<Longrightarrow> hmarked h1 b = hmarked hm b"
    using rewrite_shape [OF t lay Kbs, where h' = hm and f = f] shape
    by (auto simp: h1_def intro: same_shape_trans)
  have t1: "tiles P h1 HEAP_START bs (heap_ptr s)" using same_shape_tiles [OF shape1] t by simp
  have sel1: "heap s1 = h1" "heap_len s1 = heap_len s" "heap_ptr s1 = heap_ptr s"
    by (simp_all add: s1_def same0)
  have blocks1: "blocks P s1 = Inr bs"
    using blocks_from_tiles [of P s1 HEAP_START bs] t1 len by (simp add: blocks_def sel1)
  have filtK: "filter (\<lambda>b. b \<in> K) bs = survivors P s"
    by (auto simp: K_def survivors_live bs_def survivors_def intro!: filter_cong)
  have sz1: "psize P h1 b = psize P (heap s) b" if "b \<in> set bs" for b
    using same_shape_block(1) [OF shape1 that] .
  have place1: "place (psize P h1) (filter (\<lambda>b. b \<in> K) bs) HEAP_START = placed P s"
    unfolding placed_def filtK using sz1 survivors_subset bs_def by (intro place_cong) auto
  have end1: "place_end (psize P h1) (filter (\<lambda>b. b \<in> K) bs) HEAP_START = gc_top P s"
    unfolding gc_top_def filtK using sz1 survivors_subset bs_def by (intro place_end_cong) auto
  have fw: "forward_of (placed P s) (b + HEADER_BYTES) = Some (q + HEADER_BYTES)"
    if "(b, q) \<in> set (placed P s)" for b q
    using that map_of_place [OF survivors_distinct [OF ok]] by (simp add: forward_of_eq placed_def)
  have inK: "hmarked h1 b = (b \<in> K)" if "b \<in> set bs" for b
    using that marked1 marks by (auto simp: marks_def)
  have "\<exists>h2 st. foldR (slide_step P (forward_of (placed P s))) bs (s1, HEAP_START)
        = Inr (s1\<lparr>heap := h2, stats := st\<rparr>, gc_top P s)
      \<and> (\<forall>x. x < HEAP_START \<or> heap_ptr s \<le> x \<longrightarrow> h2 x = h1 x)
      \<and> (\<forall>(b, q) \<in> set (placed P s). \<forall>i < HEADER_BYTES + psize P h1 b.
           h2 (q + i) = with_mark b False h1 (b + i))"
    using slide_fold [of P s1 HEAP_START bs "heap_ptr s" HEAP_START K "forward_of (placed P s)"]
      t1 len inK fw unfolding sel1 place1 end1 by simp
  then obtain h2 st where slide: "foldR (slide_step P (forward_of (placed P s))) bs (s1, HEAP_START)
        = Inr (s1\<lparr>heap := h2, stats := st\<rparr>, gc_top P s)"
    and keep: "\<And>x. x < HEAP_START \<or> heap_ptr s \<le> x \<Longrightarrow> h2 x = h1 x"
    and copied: "\<And>b q i. (b, q) \<in> set (placed P s) \<Longrightarrow> i < HEADER_BYTES + psize P h1 b \<Longrightarrow>
        h2 (q + i) = with_mark b False h1 (b + i)"
    by blast
  define h3 where "h3 = (\<lambda>x. if gc_top P s \<le> x \<and> x < heap_ptr s then 0 else h2 x)"
  have "slide P (forward_of (placed P s)) s1 = Inr (s1\<lparr>heap := h3, heap_ptr := gc_top P s, stats := st\<rparr>)"
  proof (cases "gc_top P s < heap_ptr s")
    case True
    have "slice_assign (gc_top P s) (heap_ptr s) (replicate (heap_ptr s - gc_top P s) 0)
        (s1\<lparr>heap := h2, stats := st\<rparr>) = s1\<lparr>stats := st, heap := h3\<rparr>"
      using True len by (subst slice_assign_ok)
        (auto simp: sel1 h3_def intro!: ext arg_cong [where f = "\<lambda>h. s1\<lparr>stats := st, heap := h\<rparr>"])
    with True slide blocks1 show ?thesis by (simp add: slide_def sel1)
  next
    case False
    then have "h3 x = h2 x" for x using le_less_trans [of "gc_top P s" x] by (auto simp: h3_def)
    then have "h3 = h2" by (rule ext)
    with False slide blocks1 show ?thesis by (simp add: slide_def sel1)
  qed
  then have "collect P s = Inr (s1\<lparr>heap := h3, heap_ptr := gc_top P s, stats := st\<rparr>)"
    using blocks0 mark plan update
    unfolding collect_def Let_def s0_def [symmetric] by (simp add: object_starts_def)
  moreover have "s1\<lparr>heap := h3, heap_ptr := gc_top P s, stats := st\<rparr>
      = (move_roots P (gc_image P s) s)\<lparr>heap := h3, heap_ptr := gc_top P s, stats := st\<rparr>"
    by (simp add: s1_def s0_def f_def move_roots_def)
  moreover have "h3 (q + i) = rewrite (gc_image P s) (ref_words P (heap s) (set (survivors P s))) (heap s) (b + i)"
    if bq: "(b, q) \<in> set (placed P s)" and i: "i < HEADER_BYTES + psize P (heap s) b" for b q i
  proof -
    have b: "b \<in> set bs" using placed_in [OF bq] survivors_subset bs_def by blast
    have "q + HEADER_BYTES + psize P (heap s) b \<le> gc_top P s"
      using place_range bq by (force simp: placed_def gc_top_def)
    then have "h3 (q + i) = with_mark b False h1 (b + i)"
      using copied [OF bq] i sz1 [OF b] by (simp add: h3_def)
    then show ?thesis
      using rewrite_only_marks [OF t lay om Kbs b ok'(3) [OF b] i] by (simp add: h1_def f_def K_def)
  qed
  moreover have "h3 x = heap s x" if "x < HEAP_START \<or> heap_ptr s \<le> x" for x
  proof -
    have out: "\<not> (b + HEADER_BYTES \<le> y \<and> y < bend P (heap s) b)"
      if "b \<in> set bs" "y < HEAP_START \<or> heap_ptr s \<le> y" for b y
      using tiles_range [OF t that(1)] that(2) by auto
    have far: "\<not> (y \<le> x \<and> x < y + 2)" if y: "y \<in> ref_words P (heap s) K" for y
    proof -
      obtain b where "b \<in> K" "b + HEADER_BYTES \<le> y" "y + 2 \<le> bend P (heap s) b"
        using ref_words_in [OF lay y] by blast
      then show ?thesis using out [of b x] Kbs \<open>x < HEAP_START \<or> heap_ptr s \<le> x\<close> by auto
    qed
    have "x \<notin> ref_words P (heap s) K" "\<And>y. y \<in> ref_words P (heap s) K \<Longrightarrow> x \<noteq> Suc y"
      using far by fastforce+
    then have "h1 x = hm x"
      unfolding h1_def by (rule rewrite_other)
    moreover have "hm x = heap s x"
    proof -
      have "x \<noteq> c + 1" if "c \<in> set bs" for c
        using tiles_range [OF t that] \<open>x < HEAP_START \<or> heap_ptr s \<le> x\<close> by auto
      with om show ?thesis by (simp add: only_marks_def)
    qed
    moreover have "gc_top P s \<ge> HEAP_START" using place_end_ge by (simp add: gc_top_def)
    ultimately show ?thesis using keep [OF that] that by (auto simp: h3_def)
  qed
  moreover have "h3 x = 0" if "gc_top P s \<le> x" "x < heap_ptr s" for x
    using that by (simp add: h3_def)
  ultimately show thesis
    using that [of st h3] by simp
qed

text \<open>The packed copy of a survivor, read word by word.\<close>

lemma rewritten_rword_other:
  assumes "\<And>y. y \<in> A \<Longrightarrow> y \<noteq> x \<and> y \<noteq> x + 1 \<and> x \<noteq> y + 1"
  shows "rword (rewrite f A h) x = rword h x"
  using assms by (intro rword_rewrite_other) auto

lemma copied_word:
  assumes "\<And>i. i < n \<Longrightarrow> h' (q + i) = g (b + i)" and "i + 1 < n"
  shows "rword h' (q + i) = rword g (b + i)"
  using assms(1) [of i] assms(1) [of "i + 1"] assms(2) by (simp add: rword_def)

lemma survivor_copy:
  assumes ok: "gc_ok P s" and b: "b \<in> set (survivors P s)"
    and copy: "\<And>i. i < HEADER_BYTES + psize P (heap s) b \<Longrightarrow>
      h' (q + i) = rewrite (gc_image P s) (ref_words P (heap s) (set (survivors P s))) (heap s) (b + i)"
  shows "hkind h' q = hkind (heap s) b" and "hdetail h' q = hdetail (heap s) b"
    and "\<not> hmarked h' q"
    and "kids P h' q = map (gc_image P s) (kids P (heap s) b)"
    and "i < psize P (heap s) b \<Longrightarrow>
      (\<And>o1. o1 \<in> set (ref_offs P (heap s) b) \<Longrightarrow> i \<noteq> o1 \<and> i \<noteq> o1 + 1) \<Longrightarrow>
      h' (q + HEADER_BYTES + i) = heap s (b + HEADER_BYTES + i)"
proof -
  let ?f = "gc_image P s" and ?h = "heap s"
  let ?A = "ref_words P ?h (set (survivors P s))"
  note ok' = gc_okD [OF ok]
  note t = ok'(1) and lay = ok'(6) and sub = survivors_subset [of P s]
  have bb: "b \<in> set (all_blocks P s)" using b sub by blast
  have header: "h' (q + i) = ?h (b + i)" if "i < HEADER_BYTES" for i
    using copy [of i] rewrite_header [OF t lay sub bb _ _ order_refl, of "b + i"] that by simp
  have head: "hkind h' q = hkind ?h b" "hdetail h' q = hdetail ?h b" "hmarked h' q = hmarked ?h b"
    using header [of 0] header [of 1] header [of 2] header [of 3]
    by (simp_all add: hkind_byte hdetail_def rword_def hmarked_byte numeral_3_eq_3)
  then show "hkind h' q = hkind ?h b" "hdetail h' q = hdetail ?h b" "\<not> hmarked h' q"
    using ok'(3) [OF bb] by simp_all
  have "rword h' (q + HEADER_BYTES + o1) = ?f (rword ?h (b + HEADER_BYTES + o1))"
    if o1: "o1 \<in> set (ref_offs P ?h b)" for o1
  proof -
    have bound: "o1 + 2 \<le> psize P ?h b" using ref_offs_bound(1) [OF lay o1] .
    have "b + HEADER_BYTES + o1 \<in> ?A" using b o1 by (auto simp: ref_words_def)
    moreover have "?f v < 65536" if "v < 65536" for v
      using new_ref_less [OF t ok'(4) that] by (simp add: gc_image_def placed_def survivors_def)
    ultimately have "rword (rewrite ?f ?A ?h) (b + HEADER_BYTES + o1) = ?f (rword ?h (b + HEADER_BYTES + o1))"
      by (intro rword_rewrite apart_ref_words [OF t lay sub]) simp_all
    then show ?thesis
      using copied_word [of "HEADER_BYTES + psize P ?h b" h' q "rewrite ?f ?A ?h" b "HEADER_BYTES + o1"]
        copy bound by (simp add: add.assoc)
  qed
  moreover have "ref_offs P h' q = ref_offs P ?h b"
    using head by (simp add: ref_offs_def)
  ultimately show "kids P h' q = map ?f (kids P ?h b)" by (simp add: kids_def)
  assume i: "i < psize P ?h b"
    and plain: "\<And>o1. o1 \<in> set (ref_offs P ?h b) \<Longrightarrow> i \<noteq> o1 \<and> i \<noteq> o1 + 1"
  have far: "\<not> (y \<le> b + HEADER_BYTES + i \<and> b + HEADER_BYTES + i < y + 2)" if y: "y \<in> ?A" for y
  proof -
    obtain c o1 where c: "c \<in> set (survivors P s)" "y = c + HEADER_BYTES + o1"
        "o1 \<in> set (ref_offs P ?h c)" "c + HEADER_BYTES \<le> y" "y + 2 \<le> bend P ?h c"
      using ref_words_in [OF lay y] by blast
    show ?thesis
    proof (cases "c = b")
      case True
      with c plain [of o1] show ?thesis by auto
    next
      case False
      with c sub i tiles_disjoint [OF t _ bb, of c] tiles_disjoint [OF t bb, of c] show ?thesis
        by (cases b c rule: linorder_cases) auto
    qed
  qed
  have "b + HEADER_BYTES + i \<notin> ?A" "\<And>y. y \<in> ?A \<Longrightarrow> b + HEADER_BYTES + i \<noteq> Suc y"
    using far by fastforce+
  then have "rewrite ?f ?A ?h (b + HEADER_BYTES + i) = ?h (b + HEADER_BYTES + i)"
    by (rule rewrite_other)
  then show "h' (q + HEADER_BYTES + i) = ?h (b + HEADER_BYTES + i)"
    using copy [of "HEADER_BYTES + i"] i by (simp add: add.assoc)
qed

text \<open>Everything about the collected heap in one place.\<close>

lemma collected:
  assumes ok: "gc_ok P s" and run: "collect P s = Inr s'"
  shows "tiles P (heap s') HEAP_START (map snd (placed P s)) (heap_ptr s')"
    and "heap_ptr s' = gc_top P s"
    and "s' = (move_roots P (gc_image P s) s)\<lparr>heap := heap s', heap_ptr := gc_top P s, stats := stats s'\<rparr>"
    and "\<And>b q. (b, q) \<in> set (placed P s) \<Longrightarrow> hkind (heap s') q = hkind (heap s) b
      \<and> hdetail (heap s') q = hdetail (heap s) b \<and> \<not> hmarked (heap s') q
      \<and> kids P (heap s') q = map (gc_image P s) (kids P (heap s) b)"
    and "\<And>b q i. (b, q) \<in> set (placed P s) \<Longrightarrow> i < psize P (heap s) b \<Longrightarrow>
      (\<And>o1. o1 \<in> set (ref_offs P (heap s) b) \<Longrightarrow> i \<noteq> o1 \<and> i \<noteq> o1 + 1) \<Longrightarrow>
      heap s' (q + HEADER_BYTES + i) = heap s (b + HEADER_BYTES + i)"
    and "\<And>x. x < HEAP_START \<or> heap_ptr s \<le> x \<Longrightarrow> heap s' x = heap s x"
    and "\<And>x. heap_ptr s' \<le> x \<Longrightarrow> x < heap_ptr s \<Longrightarrow> heap s' x = 0"
proof -
  obtain st h' where
    res: "collect P s = Inr ((move_roots P (gc_image P s) s)\<lparr>heap := h', heap_ptr := gc_top P s, stats := st\<rparr>)"
    and copy: "\<And>b q i. (b, q) \<in> set (placed P s) \<Longrightarrow> i < HEADER_BYTES + psize P (heap s) b \<Longrightarrow>
      h' (q + i) = rewrite (gc_image P s) (ref_words P (heap s) (set (survivors P s))) (heap s) (b + i)"
    and frame: "\<And>x. x < HEAP_START \<or> heap_ptr s \<le> x \<Longrightarrow> h' x = heap s x"
    and wiped: "\<And>x. gc_top P s \<le> x \<Longrightarrow> x < heap_ptr s \<Longrightarrow> h' x = 0"
  proof (rule collect_eq [OF ok], goal_cases)
    case (1 h' st)
    show ?case by (rule 1(1) [OF 1(2-5)])
  qed
  have s': "s' = (move_roots P (gc_image P s) s)\<lparr>heap := h', heap_ptr := gc_top P s, stats := st\<rparr>"
    using res run by simp
  have sel: "heap s' = h'" "heap_ptr s' = gc_top P s" "stats s' = st" by (simp_all add: s')
  then show "heap_ptr s' = gc_top P s"
    and "s' = (move_roots P (gc_image P s) s)\<lparr>heap := heap s', heap_ptr := gc_top P s, stats := stats s'\<rparr>"
    by (simp_all add: s')
  show copied: "hkind (heap s') q = hkind (heap s) b
      \<and> hdetail (heap s') q = hdetail (heap s) b \<and> \<not> hmarked (heap s') q
      \<and> kids P (heap s') q = map (gc_image P s) (kids P (heap s) b)"
    if "(b, q) \<in> set (placed P s)" for b q
    using survivor_copy(1-4) [OF ok placed_in [OF that] copy [OF that]] sel by simp
  show "heap s' (q + HEADER_BYTES + i) = heap s (b + HEADER_BYTES + i)"
    if "(b, q) \<in> set (placed P s)" "i < psize P (heap s) b"
      "\<And>o1. o1 \<in> set (ref_offs P (heap s) b) \<Longrightarrow> i \<noteq> o1 \<and> i \<noteq> o1 + 1" for b q i
    using survivor_copy(5) [OF ok placed_in [OF that(1)] copy [OF that(1)] that(2,3)] sel by simp
  show "\<And>x. x < HEAP_START \<or> heap_ptr s \<le> x \<Longrightarrow> heap s' x = heap s x"
    and "\<And>x. heap_ptr s' \<le> x \<Longrightarrow> x < heap_ptr s \<Longrightarrow> heap s' x = 0"
    using frame wiped unfolding sel by blast+
  have "tiles P (heap s') HEAP_START
      (map snd (place (psize P (heap s)) (survivors P s) HEAP_START))
      (place_end (psize P (heap s)) (survivors P s) HEAP_START)"
  proof (rule tiles_place)
    fix b q
    assume "(b, q) \<in> set (place (psize P (heap s)) (survivors P s) HEAP_START)"
    then have bq: "(b, q) \<in> set (placed P s)" by (simp add: placed_def)
    have "b \<in> set (all_blocks P s)" using placed_in [OF bq] survivors_subset [of P s] by auto
    then show "hkind (heap s') q = hkind (heap s) b \<and> hdetail (heap s') q = hdetail (heap s) b
        \<and> header_ok P (heap s) b"
      using copied [OF bq] tiles_header_ok [OF gc_okD(1) [OF ok]] by simp
  qed
  then show "tiles P (heap s') HEAP_START (map snd (placed P s)) (heap_ptr s')"
    by (simp add: placed_def gc_top_def sel)
qed

section \<open>Following references before and after\<close>

lemma gc_image_obj:
  assumes "gc_ok P s" and "obj_at P (heap s) (all_blocks P s) v = Some b" and "(b, q) \<in> set (placed P s)"
  shows "gc_image P s v = q + (v - b)"
  using assms map_of_place [OF survivors_distinct [OF assms(1)]]
  by (simp add: gc_image_def new_ref_def placed_def)

lemma obj_at_image:
  assumes ok: "gc_ok P s" and run: "collect P s = Inr s'"
    and v: "obj_at P (heap s) (all_blocks P s) v = Some b" and bq: "(b, q) \<in> set (placed P s)"
  shows "obj_at P (heap s') (map snd (placed P s)) (gc_image P s v) = Some q"
proof (rule obj_atI [OF collected(1) [OF ok run]])
  have "psize P (heap s') q = psize P (heap s) b"
    using collected(4) [OF ok run bq] by (simp add: psize_def)
  then show "q \<in> set (map snd (placed P s))"
    and "q + HEADER_BYTES \<le> gc_image P s v" and "gc_image P s v < bend P (heap s') q"
    using gc_image_obj [OF ok v bq] obj_at_Some [OF v] bq by force+
qed

lemma placed_ex:
  assumes "b \<in> set (survivors P s)"
  obtains q where "(b, q) \<in> set (placed P s)"
  using place_ex [OF assms] by (auto simp: placed_def)

lemma frame_roots_image:
  assumes "v \<in> set (frame_roots P (i, ls))" and "f v \<noteq> 0"
  shows "f v \<in> set (frame_roots P (i, map_refs P f i ls))"
proof -
  obtain slot where "i < length (fns P)" "slot \<in> set (ref_slots (fns P ! i))" "slot < length ls" "v = ls ! slot"
    using assms(1) by (auto simp: frame_roots_def split: if_splits)
  with assms(2) show ?thesis
    by (auto simp: frame_roots_def map_refs_def slot_is_ref_def intro!: image_eqI [of _ _ slot])
qed

lemma tagged_image:
  assumes "(v, True) \<in> set (zip (rev vs) (rev rs))" and "length rs = length vs"
  shows "(f v, True) \<in> set (zip (rev (map_tagged f rs vs)) (rev rs))"
proof -
  have "(v, True) \<in> set (zip vs rs)"
    using assms by (simp add: zip_rev)
  then obtain k where "k < length vs" "vs ! k = v" "rs ! k"
    using assms(2) by (auto simp: set_zip)
  then have "(f v, True) \<in> set (zip (map_tagged f rs vs) rs)"
    using assms(2) by (auto simp: set_zip map_tagged_def intro!: exI [of _ k])
  moreover have "length (map_tagged f rs vs) = length rs"
    using assms(2) by (simp add: map_tagged_def)
  ultimately show ?thesis by (simp add: zip_rev)
qed

lemma roots_image:
  assumes v: "v \<in> set (roots P s)" and nz: "f v \<noteq> 0" and len: "length (stack_is_ref s) = length (stack s)"
  shows "f v \<in> set (roots P (move_roots P f s))"
proof -
  consider (frame) i ls where "v \<in> set (frame_roots P (i, ls))"
        "(i, ls) \<in> set ((current_fn s, locals s) # map (\<lambda>f. (fn_index f, frame_locals f)) (rev (call_stack s)))"
    | (stack) "(v, True) \<in> set (zip (rev (stack s)) (rev (stack_is_ref s)))"
    | (lit) "v \<in> set (literals s)" | (var) "v \<in> set (variants s)"
    using v by (auto simp: roots_def)
  then show ?thesis
  proof cases
    case frame
    then have "(i, map_refs P f i ls) \<in> set ((current_fn s, map_refs P f (current_fn s) (locals s))
        # map (\<lambda>f. (fn_index f, frame_locals f)) (rev (map (move_frame_to P f) (call_stack s))))"
      by (auto simp: move_frame_to_def image_iff)
    then show ?thesis
      using frame_roots_image [of v P i ls f, OF frame(1) nz] unfolding roots_def move_roots_def by fastforce
  next
    case stack
    from tagged_image [of v "stack s" "stack_is_ref s" f, OF stack len] nz show ?thesis
      by (force simp: roots_def move_roots_def)
  qed (use nz in \<open>auto simp: roots_def move_roots_def\<close>)
qed

text \<open>What was reachable is reachable at its new place, so a second collection frees nothing.\<close>

lemma live_image:
  assumes ok: "gc_ok P s" and run: "collect P s = Inr s'"
    and b: "b \<in> live P (heap s) (all_blocks P s) (set (roots P s))" and bq: "(b, q) \<in> set (placed P s)"
  shows "q \<in> live P (heap s') (map snd (placed P s)) (set (roots P s'))"
  using b bq
proof (induction arbitrary: q rule: live.induct)
  case (root v b)
  note at = obj_at_image [OF ok run root(2,3)]
  have "gc_image P s v \<noteq> 0" using obj_at_Some [OF at] by auto
  then have "gc_image P s v \<in> set (roots P (move_roots P (gc_image P s) s))"
    using root(1) gc_okD(8) [OF ok] by (intro roots_image) auto
  moreover have "roots P s' = roots P (move_roots P (gc_image P s) s)"
    by (subst collected(3) [OF ok run]) (simp add: roots_def)
  ultimately show ?case using at by (auto intro: live.root)
next
  case (kid b v c)
  then have "b \<in> set (survivors P s)" by (simp add: survivors_live)
  then obtain p where bp: "(b, p) \<in> set (placed P s)" by (rule placed_ex)
  have "gc_image P s v \<in> set (kids P (heap s') p)"
    using collected(4) [OF ok run bp] kid(2) by simp
  then show ?case
    using kid.IH [OF bp] obj_at_image [OF ok run kid(3,5)] by (auto intro: live.kid)
qed

lemma gc_ok_collect:
  assumes ok: "gc_ok P s" and run: "collect P s = Inr s'"
  shows "gc_ok P s'" and "all_blocks P s' = map snd (placed P s)"
proof -
  note c = collected [OF ok run]
  have fields: "heap_len s' = heap_len s" "length (stack_is_ref s') = length (stack s')"
    using gc_okD(8) [OF ok] by (subst c(3), simp add: move_roots_def map_tagged_def)+
  have top: "heap_ptr s' \<le> 65536" using gc_top_le [OF ok] gc_okD(4) [OF ok] c(2) by simp
  have "\<not> hmarked (heap s') q" if "q \<in> set (map snd (placed P s))" for q
    using that c(4) by force
  with c(1) top fields gc_okD(5) [OF ok] have "heap_wf P s'"
    unfolding heap_wf_def by auto
  with fields gc_okD(6,7) [OF ok] show "gc_ok P s'" by (simp add: gc_ok_def)
  have "blocks P s' = Inr (map snd (placed P s))"
    using blocks_from_tiles [OF c(1)] top fields gc_okD(5) [OF ok] by (simp add: blocks_def)
  then show "all_blocks P s' = map snd (placed P s)" by (simp add: all_blocks_def)
qed

lemma survivors_collect:
  assumes ok: "gc_ok P s" and run: "collect P s = Inr s'"
  shows "survivors P s' = all_blocks P s'"
proof -
  have "q \<in> live P (heap s') (all_blocks P s') (set (roots P s'))" if "q \<in> set (all_blocks P s')" for q
  proof -
    obtain b where bq: "(b, q) \<in> set (placed P s)"
      using \<open>q \<in> set (all_blocks P s')\<close> gc_ok_collect(2) [OF ok run] by auto
    then have "b \<in> live P (heap s) (all_blocks P s) (set (roots P s))"
      using placed_in survivors_live by metis
    then show ?thesis using live_image [OF ok run _ bq] gc_ok_collect(2) [OF ok run] by simp
  qed
  then show ?thesis by (simp add: survivors_def)
qed

text \<open>Packing a heap without holes moves nothing.\<close>

lemma place_id: "tiles P h a bs tp \<Longrightarrow> place (psize P h) bs a = map (\<lambda>b. (b, b)) bs"
  by (induction bs arbitrary: a) auto

lemma tiles_cover:
  "tiles P h a bs tp \<Longrightarrow> a \<le> x \<Longrightarrow> x < tp \<Longrightarrow> \<exists>b \<in> set bs. b \<le> x \<and> x < bend P h b"
proof (induction bs arbitrary: a)
  case (Cons c bs)
  then show ?case by (cases "x < bend P h c") force+
qed simp

lemma rewrite_id: "rewrite (\<lambda>v. v) A h = h"
proof
  fix x
  have low: "of_nat (rword h x) = h x"
    using byte_of_nat_mod [of "rword h x"] by (simp add: rword_def)
  have high: "of_nat (rword h y div 256) = h (y + 1)" for y
    by (simp add: rword_def)
  show "rewrite (\<lambda>v. v) A h x = h x"
    using low high [of "x - 1"] by (simp add: rewrite_def)
qed

lemma collect_again:
  assumes ok: "gc_ok P s" and run: "collect P s = Inr s1"
  shows "\<exists>st. collect P s1 = Inr (s1\<lparr>stats := st\<rparr>)"
proof -
  note ok1 = gc_ok_collect(1) [OF ok run]
  note t = gc_okD(1) [OF ok1]
  have surv: "survivors P s1 = all_blocks P s1" by (rule survivors_collect [OF ok run])
  have placed1: "placed P s1 = map (\<lambda>b. (b, b)) (all_blocks P s1)"
    using place_id [OF t] by (simp add: placed_def surv)
  have top1: "gc_top P s1 = heap_ptr s1"
  proof -
    have "tiles P h a bs tp \<Longrightarrow> place_end (psize P h) bs a = tp" for h a bs tp
      by (induction bs arbitrary: a) auto
    then show ?thesis using t by (simp add: gc_top_def surv)
  qed
  have image: "gc_image P s1 v = v" for v
    using obj_at_Some [of P "heap s1" "all_blocks P s1" v]
    by (auto simp: gc_image_def new_ref_def placed1 comp_def map_of_map_keys
        dest!: map_of_SomeD split: option.splits)
  then have image_id: "gc_image P s1 = (\<lambda>v. v)" by (rule ext)
  obtain h' st where res: "collect P s1
        = Inr ((move_roots P (gc_image P s1) s1)\<lparr>heap := h', heap_ptr := gc_top P s1, stats := st\<rparr>)"
    and copy: "\<And>b q i. (b, q) \<in> set (placed P s1) \<Longrightarrow> i < HEADER_BYTES + psize P (heap s1) b \<Longrightarrow>
      h' (q + i) = rewrite (gc_image P s1) (ref_words P (heap s1) (set (survivors P s1))) (heap s1) (b + i)"
    and frame: "\<And>x. x < HEAP_START \<or> heap_ptr s1 \<le> x \<Longrightarrow> h' x = heap s1 x"
  proof (rule collect_eq [OF ok1], goal_cases)
    case (1 h' st)
    show ?case by (rule 1(1) [OF 1(2-4)])
  qed
  have "h' x = heap s1 x" for x
  proof (cases "x < HEAP_START \<or> heap_ptr s1 \<le> x")
    case False
    then obtain b where b: "b \<in> set (all_blocks P s1)" "b \<le> x" "x < bend P (heap s1) b"
      using tiles_cover [OF t, of x] by auto
    then have "(b, b) \<in> set (placed P s1)" by (simp add: placed1)
    with copy [of b b "x - b"] b show ?thesis by (simp add: image_id rewrite_id)
  qed (rule frame)
  then have "h' = heap s1" by (rule ext)
  moreover have "move_roots P (\<lambda>v. v) s1 = s1"
  proof -
    have "map_refs P (\<lambda>v. v) i ls = ls" for i ls
      by (simp add: map_refs_def map_nth)
    moreover have "map_tagged (\<lambda>v. v) (stack_is_ref s1) (stack s1) = stack s1"
      using gc_okD(8) [OF ok1] by (intro nth_equalityI) (auto simp: map_tagged_def)
    moreover have "map (move_frame_to P (\<lambda>v. v)) fs = fs" for fs
      using \<open>\<And>i ls. map_refs P (\<lambda>v. v) i ls = ls\<close> by (intro map_idI) (simp add: move_frame_to_def)
    ultimately show ?thesis by (simp add: move_roots_def)
  qed
  ultimately show ?thesis
    using res by (auto simp: image_id top1)
qed

section \<open>A small heap\<close>

text \<open>
  Two objects of a two-field struct whose second field is a reference; the first is garbage,
  the second refers to itself and is held by a local.
\<close>

definition demo_program :: program where
  "demo_program = \<lparr>code = [],
     fns = [\<lparr>fn_name = lit ''main'', entry_pc = 0, num_locals = 1, num_params = 0, ref_slots = [0],
             param_words = [], fn_locals = [], source_file = []\<rparr>],
     strings = [],
     structs = [Some \<lparr>sl_name = lit ''P'', word_size = 2, ref_offsets = [1], sl_fields = [], is_variant = False\<rparr>],
     srcmap = \<lparr>pcs = [], positions = []\<rparr>, prog_args = []\<rparr>"

definition demo_vm :: "unit vm" where
  "demo_vm = (new_vm ())\<lparr>heap := (\<lambda>_. 0)(14 := 7, 16 := 14), heap_ptr := 18, locals := [14]\<rparr>"

lemma demo_tiles: "tiles demo_program (heap demo_vm) HEAP_START [2, 10] (heap_ptr demo_vm)"
  by (simp add: demo_vm_def demo_program_def new_vm_def header_ok_def psize_def size_for_def hkind_def
      hdetail_def rword_def layout_of_def)

lemma demo_ok: "gc_ok demo_program demo_vm"
proof -
  have "\<not> hmarked (heap demo_vm) 2 \<and> \<not> hmarked (heap demo_vm) 10"
    by (simp add: demo_vm_def hmarked_def rword_def)
  then have "heap_wf demo_program demo_vm"
    using demo_tiles unfolding heap_wf_def
    by (intro conjI exI [of _ "[2, 10]"]) (simp_all add: demo_vm_def new_vm_def)
  then show ?thesis
    by (simp add: gc_ok_def layouts_ok_def slots_ok_def demo_program_def)
      (simp add: demo_vm_def new_vm_def)
qed

section \<open>The collector is correct\<close>

text \<open>
  Claim C4. A collection never fails on a well-formed machine, whatever its roots point at, and
  leaves a well-formed machine: tiled, unmarked, within the heap, layouts and tags intact.
\<close>

theorem collect_safe:
  assumes "gc_ok P s"
  shows "\<exists>s'. collect P s = Inr s' \<and> gc_ok P s'"
proof -
  obtain s' where run: "collect P s = Inr s'"
    using collect_eq [OF assms] by metis
  with gc_ok_collect(1) [OF assms run] show ?thesis by blast
qed

theorem collect_safe_witness: "\<exists>s'. collect demo_program demo_vm = Inr s' \<and> gc_ok demo_program s'"
  by (rule collect_safe [OF demo_ok])

text \<open>
  Marking sets the mark bit of exactly the objects reachable from the roots and touches
  no other bit of the heap or of the machine.
\<close>

theorem marking_exact:
  assumes "gc_ok P s" and "object_starts P s = Inr starts"
  shows "\<exists>h'. foldR (mark_from P starts) (roots P s) s = Inr (s\<lparr>heap := h'\<rparr>)
    \<and> only_marks (all_blocks P s) (heap s) h'
    \<and> marks (all_blocks P s) h' = live P (heap s) (all_blocks P s) (set (roots P s))"
proof -
  note ok = gc_okD [OF assms(1)]
  have "starts = map (\<lambda>b. b + HEADER_BYTES) (all_blocks P s)"
    using assms(2) ok(2) by (simp add: object_starts_def)
  moreover obtain h' where "foldR (mark_from P (map (\<lambda>b. b + HEADER_BYTES) (all_blocks P s))) (roots P s) s
        = Inr (s\<lparr>heap := h'\<rparr>)"
      "only_marks (all_blocks P s) (heap s) h'"
      "marks (all_blocks P s) h' = live P (heap s) (all_blocks P s) (set (roots P s))"
    using ok(3-5) by (metis mark_phase [OF ok(1) _ ok(6)])
  ultimately show ?thesis by blast
qed

theorem marking_exact_witness:
  "\<exists>h'. foldR (mark_from demo_program [6, 14]) (roots demo_program demo_vm) demo_vm
      = Inr (demo_vm\<lparr>heap := h'\<rparr>)
    \<and> only_marks (all_blocks demo_program demo_vm) (heap demo_vm) h'
    \<and> marks (all_blocks demo_program demo_vm) h'
      = live demo_program (heap demo_vm) (all_blocks demo_program demo_vm) (set (roots demo_program demo_vm))"
proof (rule marking_exact [OF demo_ok])
  have "blocks demo_program demo_vm = Inr [2, 10]"
    unfolding blocks_def
    by (rule blocks_from_tiles [OF demo_tiles]) (simp add: demo_vm_def new_vm_def)
  then show "object_starts demo_program demo_vm = Inr [6, 14]" by (simp add: object_starts_def)
qed

text \<open>
  Claim C5. After a collection the heap holds exactly the objects that were reachable before it,
  in their old order, packed from the bottom of the heap without a gap, and \<open>heap_in_use\<close> is
  the live data, headers included.
\<close>

theorem collect_keeps_live:
  assumes "gc_ok P s" and "collect P s = Inr s'"
  shows "blocks P s' = Inr (map snd (placed P s))
    \<and> map fst (placed P s) = survivors P s
    \<and> set (survivors P s) = live P (heap s) (all_blocks P s) (set (roots P s))
    \<and> heap_in_use s' = (\<Sum>b \<leftarrow> survivors P s. int (HEADER_BYTES + psize P (heap s) b))"
proof -
  have "int (place_end sz bs p) = int p + (\<Sum>b \<leftarrow> bs. int (HEADER_BYTES + sz b))" for sz bs p
    by (induction bs arbitrary: p) simp_all
  then have "int (heap_ptr s') - int HEAP_START = (\<Sum>b \<leftarrow> survivors P s. int (HEADER_BYTES + psize P (heap s) b))"
    using collected(2) [OF assms] by (simp add: gc_top_def)
  moreover have "blocks P s' = Inr (map snd (placed P s))"
    using gc_ok_collect [OF assms] gc_okD(2) by metis
  ultimately show ?thesis
    by (simp add: heap_in_use_def survivors_live) (simp add: placed_def)
qed

theorem collect_keeps_live_witness:
  "\<exists>s'. collect demo_program demo_vm = Inr s'
    \<and> blocks demo_program s' = Inr (map snd (placed demo_program demo_vm))"
proof -
  obtain s' where "collect demo_program demo_vm = Inr s'"
    using collect_eq [OF demo_ok] by metis
  with collect_keeps_live [OF demo_ok] show ?thesis by blast
qed

text \<open>
  Claim C6. Each survivor is an exact copy of the object it was: same kind and detail word, each
  of its references redirected to the image of what it referred to, every other payload byte
  unchanged; and the space the collection freed is zeroed.
\<close>

theorem collect_contents:
  assumes "gc_ok P s" and "collect P s = Inr s'"
  shows "(\<forall>(b, q) \<in> set (placed P s).
      hkind (heap s') q = hkind (heap s) b \<and> hdetail (heap s') q = hdetail (heap s) b
    \<and> kids P (heap s') q = map (gc_image P s) (kids P (heap s) b)
    \<and> (\<forall>i < psize P (heap s) b. (\<forall>o1 \<in> set (ref_offs P (heap s) b). i \<noteq> o1 \<and> i \<noteq> o1 + 1) \<longrightarrow>
         heap s' (q + HEADER_BYTES + i) = heap s (b + HEADER_BYTES + i)))
    \<and> (\<forall>x. heap_ptr s' \<le> x \<and> x < heap_ptr s \<longrightarrow> heap s' x = 0)"
  using collected(4,5,7) [OF assms] by auto

theorem collect_contents_witness:
  "\<exists>s'. collect demo_program demo_vm = Inr s' \<and> (\<forall>x. heap_ptr s' \<le> x \<and> x < 18 \<longrightarrow> heap s' x = 0)"
proof -
  obtain s' where run: "collect demo_program demo_vm = Inr s'"
    using collect_eq [OF demo_ok] by metis
  have "heap_ptr demo_vm = 18" by (simp add: demo_vm_def)
  with run collect_contents [OF demo_ok run] show ?thesis by auto
qed

text \<open>
  Claim C7. The roots follow their objects: every reference slot of every frame, every tagged
  stack entry, the literals and the interned variants are mapped by the same image as the heap;
  nothing else of the machine changes but the heap, its top and the statistics.
\<close>

theorem collect_roots:
  assumes "gc_ok P s" and "collect P s = Inr s'"
  shows "s' = s\<lparr>
      locals := map_refs P (gc_image P s) (current_fn s) (locals s),
      call_stack := map (\<lambda>f. f\<lparr>frame_locals := map_refs P (gc_image P s) (fn_index f) (frame_locals f)\<rparr>)
        (call_stack s),
      stack := map2 (\<lambda>is_ref v. if is_ref then gc_image P s v else v) (stack_is_ref s) (stack s),
      literals := map (gc_image P s) (literals s),
      variants := map (gc_image P s) (variants s),
      heap := heap s', heap_ptr := heap_ptr s', stats := stats s'\<rparr>"
  using collected(2,3) [OF assms]
  by (simp add: move_roots_def map_tagged_def move_frame_to_def [abs_def])

theorem collect_roots_witness:
  "\<exists>s'. collect demo_program demo_vm = Inr s'
    \<and> locals s' = map_refs demo_program (gc_image demo_program demo_vm) 0 [14]"
proof -
  obtain s' where run: "collect demo_program demo_vm = Inr s'"
    using collect_eq [OF demo_ok] by metis
  have "locals s' = map_refs demo_program (gc_image demo_program demo_vm) 0 [14]"
    by (subst collect_roots [OF demo_ok run]) (simp add: demo_vm_def new_vm_def)
  with run show ?thesis by blast
qed

text \<open>
  Collecting twice is collecting once: everything that survived is still reachable at
  its new place, so a second collection changes nothing but the statistics.
\<close>

theorem collect_idempotent:
  assumes "gc_ok P s" and "collect P s = Inr s'"
  shows "\<exists>st. collect P s' = Inr (s'\<lparr>stats := st\<rparr>)"
  by (rule collect_again [OF assms])

theorem collect_idempotent_witness:
  "\<exists>s' st. collect demo_program demo_vm = Inr s' \<and> collect demo_program s' = Inr (s'\<lparr>stats := st\<rparr>)"
proof -
  obtain s' where "collect demo_program demo_vm = Inr s'"
    using collect_eq [OF demo_ok] by metis
  with collect_idempotent [OF demo_ok] show ?thesis by blast
qed

end
