(* ===== verification/ProgramIO.thy ===== *)
theory ProgramIO
  imports Machine
begin

text \<open>
  The program's input and output, \<open>runtime/program_io.py\<close>. \<open>io_ops\<close> is the protocol
  \<open>ProgramIO\<close>: the machine runs over any implementation of it. \<open>CaptureIO\<close>, the in-memory
  implementation of the repository, is modelled in full and shown to satisfy the laws the
  protocol's documentation promises, stated as the locale \<open>byte_files\<close>.
\<close>

section \<open>The protocol\<close>

text \<open>
  An \<open>OSError\<close> is its message and the name of its class; what a file holds may come back as
  bytes, as text, or as a value of another type, whose name is all that is reported.
\<close>

record os_error =
  os_text :: ustr
  os_class :: ustr

datatype io_value = IoBytes bytes | IoText ustr | IoOther ustr

record 'w io_ops =
  io_write :: "ustr \<Rightarrow> 'w \<Rightarrow> 'w"
  io_read_line :: "'w \<Rightarrow> ustr \<times> 'w"
  io_read_file :: "ustr \<Rightarrow> 'w \<Rightarrow> (os_error + io_value) \<times> 'w"
  io_write_file :: "ustr \<Rightarrow> bytes \<Rightarrow> bool \<Rightarrow> 'w \<Rightarrow> (os_error + unit) \<times> 'w"
  io_file_exists :: "ustr \<Rightarrow> 'w \<Rightarrow> (os_error + bool) \<times> 'w"
  io_delete_file :: "ustr \<Rightarrow> 'w \<Rightarrow> (os_error + unit) \<times> 'w"

section \<open>CaptureIO\<close>

record capture =
  chunks :: "ustr list"
  files :: "ustr \<Rightarrow> bytes option"
  pending :: "ustr list"

text \<open>\<open>str.splitlines(keepends=True)\<close>, with the line boundaries Python documents.\<close>

definition line_break :: "nat \<Rightarrow> bool" where
  "line_break c \<longleftrightarrow> c \<in> {10, 11, 12, 13, 28, 29, 30, 133, 8232, 8233}"

fun split_keep :: "ustr \<Rightarrow> ustr \<Rightarrow> ustr list" where
  "split_keep acc [] = (if acc = [] then [] else [rev acc])"
| "split_keep acc (c # cs) =
     (if c = 13 \<and> cs \<noteq> [] \<and> hd cs = 10 then
        (case cs of [] \<Rightarrow> [] | d # ds \<Rightarrow> rev (d # c # acc) # split_keep [] ds)
      else if line_break c then rev (c # acc) # split_keep [] cs
      else split_keep (c # acc) cs)"

definition capture_init :: "ustr \<Rightarrow> (ustr \<Rightarrow> bytes option) \<Rightarrow> capture" where
  "capture_init stdin fs = \<lparr>chunks = [], files = fs, pending = split_keep [] stdin\<rparr>"

definition capture_write :: "ustr \<Rightarrow> capture \<Rightarrow> capture" where
  "capture_write text w = w\<lparr>chunks := chunks w @ [text]\<rparr>"

definition capture_read_line :: "capture \<Rightarrow> ustr \<times> capture" where
  "capture_read_line w = (case pending w of [] \<Rightarrow> ([], w) | l # ls \<Rightarrow> (l, w\<lparr>pending := ls\<rparr>))"

definition not_found :: "ustr \<Rightarrow> os_error" where
  "not_found path = \<lparr>os_text = lit ''No such file: '' @ path, os_class = lit ''FileNotFoundError''\<rparr>"

definition capture_read_file :: "ustr \<Rightarrow> capture \<Rightarrow> (os_error + io_value) \<times> capture" where
  "capture_read_file path w =
     (case files w path of None \<Rightarrow> Inl (not_found path) | Some d \<Rightarrow> Inr (IoBytes d), w)"

definition capture_write_file :: "ustr \<Rightarrow> bytes \<Rightarrow> bool \<Rightarrow> capture \<Rightarrow> (os_error + unit) \<times> capture" where
  "capture_write_file path d append_to w =
     (Inr (), w\<lparr>files := (files w)(path \<mapsto>
        (if append_to then (case files w path of None \<Rightarrow> [] | Some old \<Rightarrow> old) @ d else d))\<rparr>)"

definition capture_file_exists :: "ustr \<Rightarrow> capture \<Rightarrow> (os_error + bool) \<times> capture" where
  "capture_file_exists path w = (Inr (files w path \<noteq> None), w)"

definition capture_delete_file :: "ustr \<Rightarrow> capture \<Rightarrow> (os_error + unit) \<times> capture" where
  "capture_delete_file path w =
     (case files w path of None \<Rightarrow> (Inl (not_found path), w)
      | Some _ \<Rightarrow> (Inr (), w\<lparr>files := (files w)(path := None)\<rparr>))"

definition capture_text :: "capture \<Rightarrow> ustr" where
  "capture_text w = concat (chunks w)"

definition capture_ops :: "capture io_ops" where
  "capture_ops = \<lparr>io_write = capture_write, io_read_line = capture_read_line,
     io_read_file = capture_read_file, io_write_file = capture_write_file,
     io_file_exists = capture_file_exists, io_delete_file = capture_delete_file\<rparr>"

section \<open>Reading lines\<close>

lemma split_keep_concat: "concat (split_keep acc cs) = rev acc @ cs"
proof (induction acc cs rule: split_keep.induct)
  case (2 acc c cs)
  then show ?case by (cases cs) auto
qed simp

lemma split_keep_nonempty: "l \<in> set (split_keep acc cs) \<Longrightarrow> l \<noteq> []"
proof (induction acc cs rule: split_keep.induct)
  case (2 acc c cs)
  then show ?case by (cases cs) (auto split: if_splits)
qed (auto split: if_splits)

text \<open>Reading \<open>n\<close> lines, one call after the other.\<close>

fun capture_read_lines :: "nat \<Rightarrow> capture \<Rightarrow> ustr list \<times> capture" where
  "capture_read_lines 0 w = ([], w)"
| "capture_read_lines (Suc n) w =
     (let (l, w1) = capture_read_line w; (ls, w2) = capture_read_lines n w1 in (l # ls, w2))"

lemma capture_read_lines_pending:
  "n \<le> length (pending w) \<Longrightarrow>
    capture_read_lines n w = (take n (pending w), w\<lparr>pending := drop n (pending w)\<rparr>)"
proof (induction n arbitrary: w)
  case (Suc n)
  then obtain l ls where "pending w = l # ls" by (cases "pending w") auto
  with Suc show ?case by (simp add: capture_read_line_def Let_def)
qed simp

text \<open>
  Reading a captured standard input line by line gives back its text, terminators
  included; no line is empty, so the empty string is read exactly at end of input.
\<close>

theorem capture_lines:
  "let w = capture_init stdin fs; (ls, w') = capture_read_lines (length (pending w)) w in
    concat ls = stdin \<and> [] \<notin> set ls \<and> fst (capture_read_line w') = []"
  using split_keep_concat [of "[]" stdin] split_keep_nonempty [of "[]" "[]" stdin]
  by (auto simp: capture_read_lines_pending capture_read_line_def capture_init_def)

section \<open>The laws of the protocol\<close>

text \<open>What every implementation owes its caller about files; refusing is always allowed.\<close>

locale byte_files =
  fixes ops :: "'w io_ops"
  assumes write_read: "io_write_file ops path d False w = (Inr (), w') \<Longrightarrow>
      fst (io_read_file ops path w') = Inr (IoBytes d)"
    and append_read: "io_write_file ops path d True w = (Inr (), w') \<Longrightarrow>
      fst (io_read_file ops path w) = Inr (IoBytes old) \<Longrightarrow>
      fst (io_read_file ops path w') = Inr (IoBytes (old @ d))"
    and write_other: "io_write_file ops path d ap w = (r, w') \<Longrightarrow> path' \<noteq> path \<Longrightarrow>
      fst (io_read_file ops path' w') = fst (io_read_file ops path' w)"
    and read_pure: "snd (io_read_file ops path w) = w"
    and exists_never_fails: "\<exists>b. fst (io_file_exists ops path w) = Inr b"
    and delete_gone: "io_delete_file ops path w = (Inr (), w') \<Longrightarrow>
      fst (io_file_exists ops path w') = Inr False"
begin

lemma write_append_read:
  assumes "io_write_file ops path d False w = (Inr (), w1)" and "io_write_file ops path e True w1 = (Inr (), w2)"
  shows "io_read_file ops path w2 = (Inr (IoBytes (d @ e)), w2)"
  using append_read [OF assms(2) write_read [OF assms(1)]] read_pure [of path w2]
  by (metis prod.collapse)

lemma write_read_full:
  "io_write_file ops path d False w = (Inr (), w') \<Longrightarrow> io_read_file ops path w' = (Inr (IoBytes d), w')"
  using write_read read_pure by (metis prod.collapse)

end

interpretation capture: byte_files capture_ops
  by unfold_locales
    (auto simp: capture_ops_def capture_write_file_def capture_read_file_def capture_file_exists_def
      capture_delete_file_def split: option.splits)

end
