(* ===== verification/Objects.thy ===== *)
theory Objects
  imports Collection ProgramIO
begin

text \<open>
  Allocation and the object operations of \<open>runtime/vm.py\<close>: structs, arrays, raw blocks and
  strings, the literals and interned variants a run starts with, and the helpers the file
  builtins use. Allocation collects once when the heap is full; the contract it relies on is the
  locale \<open>gc_contract\<close>, interpreted on the collector.
\<close>

section \<open>Allocation\<close>

definition bump :: "nat \<Rightarrow> nat \<Rightarrow> nat \<Rightarrow> 'w vm \<Rightarrow> vm_error + nat option \<times> 'w vm" where
  "bump payload k d s =
     (let hdr = heap_ptr s; e = hdr + HEADER_BYTES + payload in
      if heap_len s < e then Inr (None, s)
      else bindR (write_header hdr k d (s\<lparr>heap_ptr := e\<rparr>)) (\<lambda>s1.
        Inr (Some (hdr + HEADER_BYTES),
             s1\<lparr>stats := (stats s1)\<lparr>objects_allocated := objects_allocated (stats s1) + 1\<rparr>\<rparr>)))"

definition reserve :: "program \<Rightarrow> nat \<Rightarrow> nat \<Rightarrow> nat \<Rightarrow> 'w vm \<Rightarrow> vm_error + nat \<times> 'w vm" where
  "reserve P payload k d s =
     (let p0 = max payload MIN_PAYLOAD; p = (if odd p0 then p0 + 1 else p0) in
      bindR (bump p k d s) (\<lambda>(got, s1). case got of
        Some addr \<Rightarrow> Inr (addr, s1)
      | None \<Rightarrow> bindR (collect P s1) (\<lambda>s2. bindR (bump p k d s2) (\<lambda>(again, s3). case again of
          Some addr \<Rightarrow> Inr (addr, s3)
        | None \<Rightarrow> fault OutOfMemory))))"

text \<open>Zeroing \<open>for off in range(0, n, 2)\<close>.\<close>

definition zero_words :: "nat \<Rightarrow> nat \<Rightarrow> 'w vm \<Rightarrow> vm_error + 'w vm" where
  "zero_words addr n s = foldR (\<lambda>i. write_word (addr + 2 * i) 0) [0..<(n + 1) div 2] s"

definition alloc_struct :: "program \<Rightarrow> int \<Rightarrow> 'w vm \<Rightarrow> vm_error + nat \<times> 'w vm" where
  "alloc_struct P type_id s =
     (if type_id < 0 \<or> int (length (structs P)) \<le> type_id then fault (UnknownStruct type_id)
      else case structs P ! nat type_id of
        None \<Rightarrow> raise_host AttributeError
      | Some l \<Rightarrow>
          bindR (reserve P (word_size l * 2) KIND_STRUCT (nat type_id) s) (\<lambda>(addr, s1).
          bindR (zero_words addr (max (word_size l * 2) MIN_PAYLOAD) s1) (\<lambda>s2. Inr (addr, s2))))"

definition alloc_array :: "program \<Rightarrow> int \<Rightarrow> bool \<Rightarrow> 'w vm \<Rightarrow> vm_error + nat \<times> 'w vm" where
  "alloc_array P count holds_refs s =
     (if count < 0 then fault (ArrayNegative count)
      else if count > 32767 then fault (ArrayTooLong count)
      else let n = nat count in
        bindR (reserve P (n * 2) (if holds_refs then KIND_REFARRAY else KIND_VALARRAY) n s)
          (\<lambda>(addr, s1). bindR (zero_words addr (max (n * 2) MIN_PAYLOAD) s1) (\<lambda>s2. Inr (addr, s2))))"

definition alloc_raw :: "program \<Rightarrow> int \<Rightarrow> 'w vm \<Rightarrow> vm_error + nat \<times> 'w vm" where
  "alloc_raw P n s =
     (if n < 0 then fault (NegativeSize n)
      else let rounded = (if odd n then nat n + 1 else nat n); payload = max rounded MIN_PAYLOAD in
        bindR (reserve P payload KIND_RAW payload s) (\<lambda>(addr, s1).
        bindR (zero_words addr payload s1) (\<lambda>s2. Inr (addr, s2))))"

section \<open>Strings\<close>

definition write_byte :: "nat \<Rightarrow> byte \<Rightarrow> 'w vm \<Rightarrow> vm_error + 'w vm" where
  "write_byte a x s =
     (if a < heap_len s then Inr (s\<lparr>heap := (heap s)(a := x)\<rparr>) else raise_host IndexError)"

definition alloc_string :: "program \<Rightarrow> bytes \<Rightarrow> 'w vm \<Rightarrow> vm_error + nat \<times> 'w vm" where
  "alloc_string P data s =
     (let n = length data in
      if n > 32767 then fault (StringTooLong n)
      else bindR (reserve P n KIND_STRING n s) (\<lambda>(addr, s1).
        let s2 = slice_assign addr (addr + n) data s1 in
        bindR (if odd n then write_byte (addr + n) 0 s2 else Inr s2) (\<lambda>s3. Inr (addr, s3))))"

text \<open>\<open>str.encode("latin-1")\<close>.\<close>

definition latin1 :: "ustr \<Rightarrow> host_error + bytes" where
  "latin1 text = (if \<forall>c \<in> set text. c < 256 then Inr (map of_nat text) else Inl UnicodeEncodeError)"

definition of_latin1 :: "bytes \<Rightarrow> ustr" where
  "of_latin1 data = map unat data"

definition check_narrow :: "ustr \<Rightarrow> ustr \<Rightarrow> vm_error + unit" where
  "check_narrow what text = (case find (\<lambda>c. c > 255) text of
     None \<Rightarrow> Inr () | Some c \<Rightarrow> fault (WideCharacter what c))"

definition string_from_text :: "program \<Rightarrow> ustr \<Rightarrow> ustr \<Rightarrow> 'w vm \<Rightarrow> vm_error + nat \<times> 'w vm" where
  "string_from_text P text what s =
     bindR (check_narrow what text) (\<lambda>_.
     bindR (lift_host (latin1 text)) (\<lambda>data. alloc_string P data s))"

definition string_bytes :: "nat \<Rightarrow> 'w vm \<Rightarrow> vm_error + bytes" where
  "string_bytes addr s =
     (if addr = NULL_ADDR then fault NullString
      else let hdr = addr - HEADER_BYTES in
        if hdr < HEAP_START then fault (NotAString addr)
        else bindR (kind s hdr) (\<lambda>k.
          if k \<noteq> KIND_STRING then fault (NotAString addr)
          else bindR (detail s hdr) (\<lambda>n. Inr (heap_slice s addr (addr + n)))))"

definition string_text :: "nat \<Rightarrow> 'w vm \<Rightarrow> vm_error + ustr" where
  "string_text addr s = bindR (string_bytes addr s) (\<lambda>b. Inr (of_latin1 b))"

section \<open>Arrays and fields\<close>

definition array_at :: "nat \<Rightarrow> ustr \<Rightarrow> 'w vm \<Rightarrow> vm_error + nat \<times> nat \<times> bool" where
  "array_at ref op_name s =
     (if ref = NULL_ADDR then fault (NullReferenceIn op_name)
      else let hdr = ref - HEADER_BYTES in
        if hdr < HEAP_START then fault (NotAnArray ref)
        else bindR (kind s hdr) (\<lambda>k.
          if k \<noteq> KIND_REFARRAY \<and> k \<noteq> KIND_VALARRAY then fault (NotAnArray ref)
          else bindR (detail s hdr) (\<lambda>n. Inr (ref, n, k = KIND_REFARRAY))))"

definition element_addr :: "nat \<Rightarrow> int \<Rightarrow> ustr \<Rightarrow> 'w vm \<Rightarrow> vm_error + nat \<times> bool" where
  "element_addr ref index op_name s =
     bindR (array_at ref op_name s) (\<lambda>(start, count, holds_refs).
       if index < 0 \<or> int count \<le> index then fault (ArrayBounds index (int count))
       else Inr (start + nat index * 2, holds_refs))"

definition array_bytes :: "nat \<Rightarrow> ustr \<Rightarrow> 'w vm \<Rightarrow> vm_error + bytes" where
  "array_bytes ref op_name s =
     bindR (array_at ref op_name s) (\<lambda>(start, count, holds_refs).
       if holds_refs then fault NeedsValueArray
       else mapR (\<lambda>i. bindR (read_word s (start + i * 2)) (\<lambda>w.
         if w > 255 then fault (ElementNotByte i (to_signed w)) else Inr (of_nat w))) [0..<count])"

definition field_is_ref :: "program \<Rightarrow> nat \<Rightarrow> int \<Rightarrow> 'w vm \<Rightarrow> vm_error + bool" where
  "field_is_ref P ref offset s =
     (let hdr = ref - HEADER_BYTES in
      if hdr < HEAP_START then Inr False
      else bindR (kind s hdr) (\<lambda>k.
        if k \<noteq> KIND_STRUCT then Inr False
        else bindR (detail s hdr) (\<lambda>type_id.
          if length (structs P) \<le> type_id then Inr False
          else case structs P ! type_id of
            None \<Rightarrow> raise_host AttributeError
          | Some l \<Rightarrow> Inr (offset \<in> int ` set (ref_offsets l)))))"

section \<open>Literals and variants\<close>

definition set_literal :: "program \<Rightarrow> nat \<times> ustr \<Rightarrow> 'w vm \<Rightarrow> vm_error + 'w vm" where
  "set_literal P entry s = (case entry of (sid, text) \<Rightarrow>
     bindR (lift_host (latin1 text)) (\<lambda>data.
     bindR (alloc_string P data s) (\<lambda>(addr, s1).
       Inr (s1\<lparr>literals := (literals s1)[sid := addr]\<rparr>))))"

definition materialise_literals :: "program \<Rightarrow> 'w vm \<Rightarrow> vm_error + 'w vm" where
  "materialise_literals P s =
     (let count = (if strings P = [] then 0 else Max (fst ` set (strings P)) + 1) in
      foldR (set_literal P) (strings P) (s\<lparr>literals := replicate count NULL_ADDR\<rparr>))"

definition set_variant :: "program \<Rightarrow> nat \<Rightarrow> 'w vm \<Rightarrow> vm_error + 'w vm" where
  "set_variant P type_id s = (case structs P ! type_id of
     Some l \<Rightarrow>
       if is_variant l \<and> word_size l = 0 then
         bindR (alloc_struct P (int type_id) s) (\<lambda>(addr, s1).
           Inr (s1\<lparr>variants := (variants s1)[type_id := addr]\<rparr>))
       else Inr s
   | None \<Rightarrow> Inr s)"

definition materialise_variants :: "program \<Rightarrow> 'w vm \<Rightarrow> vm_error + 'w vm" where
  "materialise_variants P s =
     foldR (set_variant P) [0..<length (structs P)]
       (s\<lparr>variants := replicate (length (structs P)) NULL_ADDR\<rparr>)"

definition literal :: "'w vm \<Rightarrow> int \<Rightarrow> vm_error + nat" where
  "literal s sid =
     (if sid < 0 \<or> int (length (literals s)) \<le> sid then fault (UnknownLiteral sid)
      else Inr (literals s ! nat sid))"

section \<open>File operations\<close>

text \<open>
  An \<open>OSError\<close> is turned into a report: the reason is cleared before the attempt, and kept for
  \<open>FILE_ERROR\<close> when the attempt fails. The result is \<open>None\<close> when it did.
\<close>

definition file_op ::
    "('w \<Rightarrow> (os_error + 'a) \<times> 'w) \<Rightarrow> 'w vm \<Rightarrow> 'a option \<times> 'w vm" where
  "file_op action s =
     (case action (io s) of
        (Inr x, w) \<Rightarrow> (Some x, s\<lparr>file_error := [], io := w\<rparr>)
      | (Inl e, w) \<Rightarrow> (None, s\<lparr>file_error := (if os_text e \<noteq> [] then os_text e else os_class e), io := w\<rparr>))"

definition bytes_from_io :: "io_value \<Rightarrow> ustr \<Rightarrow> vm_error + bytes" where
  "bytes_from_io v what = (case v of
     IoBytes d \<Rightarrow> Inr d
   | IoText t \<Rightarrow> bindR (check_narrow what t) (\<lambda>_. lift_host (latin1 t))
   | IoOther type_name \<Rightarrow> fault (NotBytes what type_name))"

end
