(* ===== verification/Allocation.thy ===== *)
theory Allocation
  imports Objects
begin

text \<open>
  Allocation is correct: a new object is carved off the top of a well-formed heap, collected
  first when there was no room, its header says what was asked for and its payload is zero or
  the given bytes; running out of memory is reported only when the live data leaves no room.
\<close>

section \<open>The contract of the collector\<close>

locale gc_contract =
  fixes gc :: "'s \<Rightarrow> 'e + 's" and ok :: "'s \<Rightarrow> bool" and used :: "'s \<Rightarrow> nat"
  assumes gc_total: "ok s \<Longrightarrow> \<exists>s'. gc s = Inr s' \<and> ok s'"
    and gc_shrinks: "ok s \<Longrightarrow> gc s = Inr s' \<Longrightarrow> used s' \<le> used s"
    and gc_complete: "ok s \<Longrightarrow> gc s = Inr s' \<Longrightarrow> gc s' = Inr s'' \<Longrightarrow> used s'' = used s'"
begin

lemma gc_ok_after: "ok s \<Longrightarrow> gc s = Inr s' \<Longrightarrow> ok s'"
  using gc_total by fastforce

text \<open>When one collection does not make room, no number of further collections does.\<close>

lemma once_is_enough:
  assumes "ok s" and "gc s = Inr s'" and "((\<lambda>r. bindR r gc) ^^ n) (Inr s') = Inr s''"
  shows "used s'' = used s' \<and> ok s''"
  using assms(3)
proof (induction n arbitrary: s'')
  case 0
  then show ?case using gc_ok_after [OF assms(1,2)] by simp
next
  case (Suc n)
  then obtain t where t: "((\<lambda>r. bindR r gc) ^^ n) (Inr s') = Inr t" "gc t = Inr s''"
    by (auto simp: result_simps)
  have "used t = used s'" "ok t" using Suc.IH [OF t(1)] by simp_all
  show ?case
  proof (cases n)
    case 0
    with t show ?thesis using gc_complete [OF assms(1,2)] gc_ok_after \<open>ok t\<close> by simp
  next
    case (Suc m)
    then obtain u where "((\<lambda>r. bindR r gc) ^^ m) (Inr s') = Inr u" "gc u = Inr t"
      using t(1) by (auto simp: result_simps)
    moreover have "ok u"
    proof -
      have "ok v" if "((\<lambda>r. bindR r gc) ^^ j) (Inr s') = Inr v" for j v
        using that
      proof (induction j arbitrary: v)
        case 0
        then show ?case using gc_ok_after [OF assms(1,2)] by simp
      next
        case (Suc j)
        then show ?case using gc_ok_after by (auto simp: result_simps)
      qed
      with calculation show ?thesis by blast
    qed
    ultimately have "used s'' = used t" using gc_complete t(2) by blast
    with \<open>used t = used s'\<close> show ?thesis using gc_ok_after [OF \<open>ok t\<close> t(2)] by simp
  qed
qed

end

interpretation collector: gc_contract "collect P" "gc_ok P" heap_ptr for P :: program
proof
  show "\<exists>s'. collect P s = Inr s' \<and> gc_ok P s'" if "gc_ok P s" for s :: "'w vm"
    using collect_eq [OF that] gc_ok_collect(1) [OF that] by metis
  show "heap_ptr s' \<le> heap_ptr s" if "gc_ok P s" "collect P s = Inr s'" for s s' :: "'w vm"
    using collected(2) [OF that] gc_top_le [OF that(1)] by simp
  show "heap_ptr s'' = heap_ptr s'" if "gc_ok P s" "collect P s = Inr s'" "collect P s' = Inr s''"
    for s s' s'' :: "'w vm"
    using collect_again [OF that(1,2)] that(3) by auto
qed

section \<open>Carving a block\<close>

definition carve :: "nat \<Rightarrow> nat \<Rightarrow> nat \<Rightarrow> 'w vm \<Rightarrow> 'w vm" where
  "carve k d n s = s\<lparr>heap := wword (wword (heap s) (heap_ptr s) k) (heap_ptr s + 2) d,
     heap_ptr := heap_ptr s + HEADER_BYTES + n,
     stats := (stats s)\<lparr>objects_allocated := objects_allocated (stats s) + 1\<rparr>\<rparr>"

text \<open>The machine an allocation of \<open>n\<close> payload bytes is carved from.\<close>

definition alloc_base :: "program \<Rightarrow> nat \<Rightarrow> 'w vm \<Rightarrow> 'w vm" where
  "alloc_base P n s =
     (if heap_ptr s + HEADER_BYTES + n \<le> heap_len s then s
      else (case collect P s of Inl e \<Rightarrow> s | Inr s' \<Rightarrow> s'))"

lemma alloc_base_ok: "gc_ok P s \<Longrightarrow> gc_ok P (alloc_base P n s)"
  using collector.gc_total by (fastforce simp: alloc_base_def)

lemma bump_eq:
  "bump n k d s = (if heap_len s < heap_ptr s + HEADER_BYTES + n then Inr (None, s)
     else Inr (Some (heap_ptr s + HEADER_BYTES), carve k d n s))"
  by (simp add: bump_def Let_def write_header_def carve_def)

definition rounded :: "nat \<Rightarrow> nat" where
  "rounded n = max (n + n mod 2) MIN_PAYLOAD"

lemma reserve_eq:
  assumes "gc_ok P s"
  shows "reserve P payload k d s =
    (let s0 = alloc_base P (rounded payload) s in
     if heap_ptr s0 + HEADER_BYTES + rounded payload \<le> 65536
     then Inr (heap_ptr s0 + HEADER_BYTES, carve k d (rounded payload) s0)
     else fault OutOfMemory)"
proof -
  have n: "(let p0 = max payload MIN_PAYLOAD in if odd p0 then p0 + 1 else p0) = rounded payload"
  proof -
    consider "payload = 0" | "payload = 1" | "2 \<le> payload" by linarith
    then show ?thesis
      by cases (simp_all add: rounded_def Let_def mod2_eq_if)
  qed
  obtain s' where s': "collect P s = Inr s'" "gc_ok P s'"
    using collector.gc_total [OF assms] by blast
  show ?thesis
    using gc_okD(5) [OF assms] gc_okD(5) [OF s'(2)] s'(1) n
    by (auto simp: reserve_def Let_def bump_eq alloc_base_def)
qed

lemma gc_ok_carve:
  assumes ok: "gc_ok P s" and room: "heap_ptr s + HEADER_BYTES + n \<le> 65536"
    and k: "k < 32768" and d: "d < 65536" and n: "size_for P k d = n" "2 \<le> n"
    and layout: "k = KIND_STRUCT \<Longrightarrow> layout_of P d \<noteq> None"
  shows "gc_ok P (carve k d n s)" and "all_blocks P (carve k d n s) = all_blocks P s @ [heap_ptr s]"
    and "hkind (heap (carve k d n s)) (heap_ptr s) = k"
    and "hdetail (heap (carve k d n s)) (heap_ptr s) = d"
proof -
  let ?h = "heap (carve k d n s)" and ?p = "heap_ptr s"
  note ok' = gc_okD [OF ok]
  have w: "rword ?h ?p = k" "rword ?h (?p + 2) = d"
    using k d by (simp_all add: carve_def)
  then show head: "hkind ?h ?p = k" "hdetail ?h ?p = d"
    using k by (simp_all add: hkind_def hdetail_def)
  have fresh: "\<not> hmarked ?h ?p" using w k by (simp add: hmarked_def)
  have below: "?h x = heap s x" if "x < ?p" for x
    using that by (simp add: carve_def wword_def)
  have old: "hkind ?h b = hkind (heap s) b \<and> hdetail ?h b = hdetail (heap s) b"
      "hmarked ?h b = hmarked (heap s) b" if "b \<in> set (all_blocks P s)" for b
    using tiles_range [OF ok'(1) that] below by (simp_all add: hkind_def hdetail_def hmarked_def rword_def)
  have "layout_of P (hdetail ?h ?p) \<noteq> None" if "hkind ?h ?p = KIND_STRUCT"
    unfolding head(2) using that unfolding head(1) by (rule layout)
  moreover have size: "psize P ?h ?p = n" unfolding psize_def head by (rule n(1))
  ultimately have "header_ok P ?h ?p" using n(2) by (simp add: header_ok_def)
  note this size
  moreover have "tiles P ?h HEAP_START (all_blocks P s) ?p"
    using ok'(1) tiles_cong [of "all_blocks P s" ?h "heap s"] old(1) by simp
  ultimately have t: "tiles P ?h HEAP_START (all_blocks P s @ [?p]) (heap_ptr (carve k d n s))"
    by (simp add: tiles_append carve_def)
  have "blocks P (carve k d n s) = Inr (all_blocks P s @ [?p])"
    using blocks_from_tiles [OF t] room ok'(5) by (simp add: blocks_def carve_def)
  then show "all_blocks P (carve k d n s) = all_blocks P s @ [?p]" by (simp add: all_blocks_def)
  have "heap_wf P (carve k d n s)"
    using t room ok'(5) fresh old(2) ok'(3) unfolding heap_wf_def
    by (intro conjI exI [of _ "all_blocks P s @ [?p]"]) (auto simp: carve_def)
  then show "gc_ok P (carve k d n s)"
    using ok'(6-8) by (simp add: gc_ok_def carve_def)
qed

text \<open>Writes that stay inside payloads keep the invariant.\<close>

lemma gc_ok_payload:
  assumes ok: "gc_ok P s" and same: "\<And>b i. b \<in> set (all_blocks P s) \<Longrightarrow> i < HEADER_BYTES \<Longrightarrow>
      h' (b + i) = heap s (b + i)"
  shows "gc_ok P (s\<lparr>heap := h'\<rparr>)" and "all_blocks P (s\<lparr>heap := h'\<rparr>) = all_blocks P s"
proof -
  note ok' = gc_okD [OF ok]
  have head: "hkind h' b = hkind (heap s) b \<and> hdetail h' b = hdetail (heap s) b"
      "hmarked h' b = hmarked (heap s) b" if "b \<in> set (all_blocks P s)" for b
    using same [OF that, of 0] same [OF that, of 1] same [OF that, of 2] same [OF that, of 3]
    by (simp_all add: hkind_byte hdetail_def hmarked_byte rword_def numeral_3_eq_3)
  have t: "tiles P h' HEAP_START (all_blocks P s) (heap_ptr s)"
    using ok'(1) tiles_cong [of "all_blocks P s" h' "heap s"] head(1) by blast
  have "blocks P (s\<lparr>heap := h'\<rparr>) = Inr (all_blocks P s)"
    using blocks_from_tiles [of P "s\<lparr>heap := h'\<rparr>" HEAP_START] t ok'(4,5) by (simp add: blocks_def)
  then show "all_blocks P (s\<lparr>heap := h'\<rparr>) = all_blocks P s" by (simp add: all_blocks_def)
  have "heap_wf P (s\<lparr>heap := h'\<rparr>)"
    using t ok'(3-5) head(2) unfolding heap_wf_def by (intro conjI exI [of _ "all_blocks P s"]) auto
  then show "gc_ok P (s\<lparr>heap := h'\<rparr>)" using ok'(6-8) by (simp add: gc_ok_def)
qed

text \<open>In particular writes above everything but the last block's header.\<close>

lemma gc_ok_last_payload:
  assumes ok: "gc_ok P s" and last: "all_blocks P s = bs @ [hdr]"
    and same: "\<And>x. x < hdr + HEADER_BYTES \<Longrightarrow> h' x = heap s x"
  shows "gc_ok P (s\<lparr>heap := h'\<rparr>)" and "all_blocks P (s\<lparr>heap := h'\<rparr>) = bs @ [hdr]"
proof -
  have "b \<le> hdr" if "b \<in> set (all_blocks P s)" for b
    using tiles_sorted [OF gc_okD(1) [OF ok]] that last by (auto simp: sorted_wrt_append)
  then have "h' (b + i) = heap s (b + i)" if "b \<in> set (all_blocks P s)" "i < HEADER_BYTES" for b i
    using that by (intro same) fastforce
  from gc_ok_payload [OF ok this] last
  show "gc_ok P (s\<lparr>heap := h'\<rparr>)" and "all_blocks P (s\<lparr>heap := h'\<rparr>) = bs @ [hdr]" by simp_all
qed

section \<open>Fresh objects\<close>

lemma zero_words_eq:
  assumes "addr + n \<le> heap_len s" and "even n"
  shows "zero_words addr n s = Inr (s\<lparr>heap := (\<lambda>x. if addr \<le> x \<and> x < addr + n then 0 else heap s x)\<rparr>)"
proof -
  have "foldR (\<lambda>i. write_word (addr + 2 * i) 0) [0..<m] s
      = Inr (s\<lparr>heap := (\<lambda>x. if addr \<le> x \<and> x < addr + 2 * m then 0 else heap s x)\<rparr>)"
    if "addr + 2 * m \<le> heap_len s" for m
    using that
  proof (induction m)
    case 0
    have "(\<lambda>x. if addr \<le> x \<and> x < addr + 2 * 0 then 0 else heap s x) = heap s" by (rule ext) auto
    then show ?case by simp
  next
    case (Suc m)
    have "wword (\<lambda>x. if addr \<le> x \<and> x < addr + 2 * m then 0 else heap s x) (addr + 2 * m) 0
        = (\<lambda>x. if addr \<le> x \<and> x < addr + 2 * Suc m then 0 else heap s x)"
      by (auto simp: wword_def fun_eq_iff)
    with Suc show ?case by (simp add: foldR_append)
  qed
  moreover have "2 * ((n + 1) div 2) = n" using assms(2) by (auto elim: evenE)
  ultimately show ?thesis using assms(1) unfolding zero_words_def by simp
qed

text \<open>
  What an allocation leaves: the new block is the last one, its payload bytes are given by a
  function, and below it the heap is that of the machine it was carved from.
\<close>

definition fresh_object ::
    "program \<Rightarrow> 'w vm \<Rightarrow> nat \<Rightarrow> nat \<Rightarrow> (nat \<Rightarrow> byte) \<Rightarrow> nat \<times> 'w vm \<Rightarrow> bool" where
  "fresh_object P s0 k d content r = (case r of (addr, s') \<Rightarrow>
     addr = heap_ptr s0 + HEADER_BYTES \<and> gc_ok P s' \<and>
     all_blocks P s' = all_blocks P s0 @ [heap_ptr s0] \<and>
     hkind (heap s') (heap_ptr s0) = k \<and> hdetail (heap s') (heap_ptr s0) = d \<and>
     (\<forall>i < size_for P k d. heap s' (addr + i) = content i) \<and>
     (\<forall>x < heap_ptr s0. heap s' x = heap s0 x) \<and>
     heap_ptr s' = addr + size_for P k d \<and>
     s' = s0\<lparr>heap := heap s', heap_ptr := heap_ptr s', stats := stats s'\<rparr>)"

lemma fresh_objectI:
  assumes "gc_ok P s0" and "heap_ptr s0 + HEADER_BYTES + n \<le> 65536"
    and "k < 32768" and "d < 65536" and "size_for P k d = n" and "2 \<le> n"
    and "k = KIND_STRUCT \<Longrightarrow> layout_of P d \<noteq> None"
    and s': "s' = (carve k d n s0)\<lparr>heap := h'\<rparr>"
    and h': "\<And>x. x < heap_ptr s0 + HEADER_BYTES \<Longrightarrow> h' x = heap (carve k d n s0) x"
    and content: "\<And>i. i < n \<Longrightarrow> h' (heap_ptr s0 + HEADER_BYTES + i) = content i"
  shows "fresh_object P s0 k d content (heap_ptr s0 + HEADER_BYTES, s')"
proof -
  note c = gc_ok_carve [OF assms(1-7)]
  note l = gc_ok_last_payload [OF c(1,2) h']
  have "hkind h' (heap_ptr s0) = k" "hdetail h' (heap_ptr s0) = d"
    using c(3,4) h' [of "heap_ptr s0"] h' [of "heap_ptr s0 + 1"] h' [of "heap_ptr s0 + 2"]
      h' [of "heap_ptr s0 + 3"]
    by (simp_all add: hkind_def hdetail_def rword_def numeral_3_eq_3)
  moreover have "h' x = heap s0 x" if "x < heap_ptr s0" for x
    using h' [of x] that by (simp add: carve_def wword_def)
  ultimately show ?thesis
    using l content assms(5) unfolding fresh_object_def s' by (simp add: carve_def)
qed

lemma alloc_zeroed:
  assumes ok: "gc_ok P s" and "k < 32768" and "d < 65536" and size: "size_for P k d = rounded payload"
    and "k = KIND_STRUCT \<Longrightarrow> layout_of P d \<noteq> None" and n: "n = rounded payload"
  defines "s0 \<equiv> alloc_base P n s"
  defines "r \<equiv> bindR (reserve P payload k d s) (\<lambda>(addr, s1). bindR (zero_words addr n s1) (\<lambda>s2. Inr (addr, s2)))"
  shows "heap_ptr s0 + HEADER_BYTES + n \<le> 65536 \<Longrightarrow> \<exists>x. r = Inr x \<and> fresh_object P s0 k d (\<lambda>_. 0) x"
    and "65536 < heap_ptr s0 + HEADER_BYTES + n \<Longrightarrow> r = fault OutOfMemory"
proof -
  have ok0: "gc_ok P s0" by (simp add: s0_def alloc_base_ok [OF ok])
  have even: "even n" "2 \<le> n" by (auto simp: n rounded_def max_def mod2_eq_if)
  show "65536 < heap_ptr s0 + HEADER_BYTES + n \<Longrightarrow> r = fault OutOfMemory"
    by (simp add: r_def reserve_eq [OF ok] n s0_def Let_def)
  assume room: "heap_ptr s0 + HEADER_BYTES + n \<le> 65536"
  let ?a = "heap_ptr s0 + HEADER_BYTES"
  let ?s1 = "carve k d n s0"
  have "r = bindR (zero_words ?a n ?s1) (\<lambda>s2. Inr (?a, s2))"
    using room by (simp add: r_def reserve_eq [OF ok] n s0_def Let_def)
  also have "zero_words ?a n ?s1
      = Inr (?s1\<lparr>heap := (\<lambda>x. if ?a \<le> x \<and> x < ?a + n then 0 else heap ?s1 x)\<rparr>)"
    using room gc_okD(5) [OF ok0] even by (intro zero_words_eq) (simp_all add: carve_def)
  finally have r: "r = Inr (?a, ?s1\<lparr>heap := (\<lambda>x. if ?a \<le> x \<and> x < ?a + n then 0 else heap ?s1 x)\<rparr>)"
    by simp
  have "fresh_object P s0 k d (\<lambda>_. 0)
      (?a, ?s1\<lparr>heap := (\<lambda>x. if ?a \<le> x \<and> x < ?a + n then 0 else heap ?s1 x)\<rparr>)"
    by (rule fresh_objectI [OF ok0 room assms(2,3) _ even(2) assms(5) refl]) (simp_all add: size n)
  with r show "\<exists>x. r = Inr x \<and> fresh_object P s0 k d (\<lambda>_. 0) x" by blast
qed

lemma alloc_zeroed_cases:
  assumes "gc_ok P s" and "k < 32768" and "d < 65536" and "size_for P k d = rounded payload"
    and "k = KIND_STRUCT \<Longrightarrow> layout_of P d \<noteq> None"
    and r: "r = bindR (reserve P payload k d s)
      (\<lambda>(addr, s1). bindR (zero_words addr (rounded payload) s1) (\<lambda>s2. Inr (addr, s2)))"
  shows "if heap_ptr (alloc_base P (rounded payload) s) + HEADER_BYTES + rounded payload \<le> 65536
    then \<exists>x. r = Inr x \<and> fresh_object P (alloc_base P (rounded payload) s) k d (\<lambda>_. 0) x
    else r = fault OutOfMemory"
  using alloc_zeroed [OF assms(1-5) refl] unfolding r by (simp split: if_split)

section \<open>The allocation operations\<close>

text \<open>
  Claim C10. \<open>ALLOC_TYPED\<close> either gives a fresh object of the type, every field zero and so every
  reference field null, at the top of the (possibly just collected) heap, or reports that memory
  ran out; and the latter only when the collected heap has no room for it.
\<close>

theorem alloc_struct_correct:
  assumes "gc_ok P s" and "layout_of P tid = Some l" and "tid < 65536"
  shows "let n = max (word_size l * 2) MIN_PAYLOAD; s0 = alloc_base P n s in
    if heap_ptr s0 + HEADER_BYTES + n \<le> HEAP_SIZE
    then \<exists>x. alloc_struct P (int tid) s = Inr x \<and> fresh_object P s0 KIND_STRUCT tid (\<lambda>_. 0) x
    else alloc_struct P (int tid) s = fault OutOfMemory"
proof -
  have n: "rounded (word_size l * 2) = max (word_size l * 2) MIN_PAYLOAD"
    by (simp add: rounded_def)
  have "alloc_struct P (int tid) s = bindR (reserve P (word_size l * 2) KIND_STRUCT tid s)
      (\<lambda>(addr, s1). bindR (zero_words addr (rounded (word_size l * 2)) s1) (\<lambda>s2. Inr (addr, s2)))"
    using layout_of_Some [OF assms(2)] by (simp add: alloc_struct_def n)
  moreover have "size_for P KIND_STRUCT tid = rounded (word_size l * 2)"
    using assms(2) by (simp add: size_for_def n)
  ultimately have "if heap_ptr (alloc_base P (rounded (word_size l * 2)) s) + HEADER_BYTES
        + rounded (word_size l * 2) \<le> 65536
      then \<exists>x. alloc_struct P (int tid) s = Inr x
        \<and> fresh_object P (alloc_base P (rounded (word_size l * 2)) s) KIND_STRUCT tid (\<lambda>_. 0) x
      else alloc_struct P (int tid) s = fault OutOfMemory"
    using assms(2,3) by (intro alloc_zeroed_cases [OF assms(1)]) simp_all
  then show ?thesis unfolding n Let_def .
qed

text \<open>
  \<open>NEW_ARRAY\<close> of a legal length gives an array of that many zero elements, typed as a
  reference or a value array as asked, under the same condition on memory.
\<close>

theorem alloc_array_correct:
  assumes "gc_ok P s" and "n \<le> 32767"
  shows "let k = (if refs then KIND_REFARRAY else KIND_VALARRAY); sz = max (n * 2) MIN_PAYLOAD;
      s0 = alloc_base P sz s in
    if heap_ptr s0 + HEADER_BYTES + sz \<le> HEAP_SIZE
    then \<exists>x. alloc_array P (int n) refs s = Inr x \<and> fresh_object P s0 k n (\<lambda>_. 0) x
    else alloc_array P (int n) refs s = fault OutOfMemory"
proof -
  define k where "k = (if refs then KIND_REFARRAY else KIND_VALARRAY)"
  have sz: "rounded (n * 2) = max (n * 2) MIN_PAYLOAD" by (simp add: rounded_def)
  have "alloc_array P (int n) refs s = bindR (reserve P (n * 2) k n s)
      (\<lambda>(addr, s1). bindR (zero_words addr (rounded (n * 2)) s1) (\<lambda>s2. Inr (addr, s2)))"
    using assms(2) by (simp add: alloc_array_def sz k_def Let_def)
  moreover have "size_for P k n = rounded (n * 2)" "k < 32768" "k \<noteq> KIND_STRUCT" "n < 65536"
    using assms(2) by (simp_all add: size_for_def sz k_def)
  ultimately have "if heap_ptr (alloc_base P (rounded (n * 2)) s) + HEADER_BYTES + rounded (n * 2) \<le> 65536
      then \<exists>x. alloc_array P (int n) refs s = Inr x
        \<and> fresh_object P (alloc_base P (rounded (n * 2)) s) k n (\<lambda>_. 0) x
      else alloc_array P (int n) refs s = fault OutOfMemory"
    by (intro alloc_zeroed_cases [OF assms(1)]) simp_all
  then show ?thesis unfolding sz k_def Let_def .
qed

lemma alloc_string_eq:
  assumes ok: "gc_ok P s" and len: "length data \<le> 32767"
  defines "n \<equiv> length data" and "sz \<equiv> rounded (length data)"
  defines "s0 \<equiv> alloc_base P (rounded (length data)) s"
  shows "if heap_ptr s0 + HEADER_BYTES + sz \<le> 65536
    then \<exists>x. alloc_string P data s = Inr x \<and> fresh_object P s0 KIND_STRING n
      (\<lambda>i. if i < n then data ! i else if odd n then 0 else heap s0 (heap_ptr s0 + HEADER_BYTES + i)) x
    else alloc_string P data s = fault OutOfMemory"
proof (cases "heap_ptr s0 + HEADER_BYTES + sz \<le> 65536")
  case False
  with len show ?thesis
    by (simp add: alloc_string_def reserve_eq [OF ok] s0_def [symmetric] sz_def n_def Let_def)
next
  case True
  have ok0: "gc_ok P s0" by (simp add: s0_def alloc_base_ok [OF ok])
  let ?a = "heap_ptr s0 + HEADER_BYTES"
  define s1 where "s1 = carve KIND_STRING n sz s0"
  have sel: "heap_len s1 = 65536" "heap s1 x = heap s0 x" if "?a \<le> x" for x
    using gc_okD(5) [OF ok0] that by (simp_all add: s1_def carve_def wword_def)
  have len1: "heap_len s1 = 65536" using sel by blast
  have n_sz: "n \<le> sz" "odd n \<Longrightarrow> n + 1 \<le> sz" "2 \<le> sz"
    by (auto simp: n_def sz_def rounded_def mod2_eq_if)
  define h2 where "h2 = (\<lambda>x. if ?a \<le> x \<and> x < ?a + n then data ! (x - ?a) else heap s1 x)"
  define h3 where "h3 = (if odd n then h2(?a + n := 0) else h2)"
  have slice: "slice_assign ?a (?a + n) data s1 = s1\<lparr>heap := h2\<rparr>"
    using True n_sz(1) unfolding h2_def by (intro slice_assign_ok) (simp_all add: n_def len1)
  have res: "reserve P n KIND_STRING n s = Inr (?a, s1)"
    using True unfolding reserve_eq [OF ok] Let_def s1_def s0_def sz_def n_def by simp
  have "bindR (if odd n then write_byte (?a + n) 0 (s1\<lparr>heap := h2\<rparr>) else Inr (s1\<lparr>heap := h2\<rparr>))
      (\<lambda>s3. Inr (?a, s3)) = Inr (?a, s1\<lparr>heap := h3\<rparr>)"
    using True n_sz(2) by (cases "odd n") (simp_all add: write_byte_def h3_def len1)
  then have "alloc_string P data s = Inr (?a, s1\<lparr>heap := h3\<rparr>)"
    using len res slice unfolding alloc_string_def n_def [symmetric] Let_def by (simp split: if_splits)
  moreover have "fresh_object P s0 KIND_STRING n
      (\<lambda>i. if i < n then data ! i else if odd n then 0 else heap s0 (?a + i)) (?a, s1\<lparr>heap := h3\<rparr>)"
  proof (rule fresh_objectI [OF ok0 True])
    show "size_for P KIND_STRING n = sz" by (simp add: size_for_def sz_def rounded_def n_def)
    show "n < 65536" using len by (simp add: n_def)
    show "s1\<lparr>heap := h3\<rparr> = (carve KIND_STRING n sz s0)\<lparr>heap := h3\<rparr>" by (simp add: s1_def)
    show "h3 x = heap (carve KIND_STRING n sz s0) x" if "x < ?a" for x
      using that by (simp add: h3_def h2_def s1_def)
    show "h3 (?a + i) = (if i < n then data ! i else if odd n then 0 else heap s0 (?a + i))"
      if "i < sz" for i
    proof -
      have "i = n" if "\<not> i < n" "odd n"
      proof -
        have "1 \<le> n" using that(2) by (cases n) simp_all
        then have "sz = n + 1" using that(2) by (simp add: sz_def n_def rounded_def mod2_eq_if)
        with that(1) \<open>i < sz\<close> show ?thesis by simp
      qed
      then show ?thesis by (auto simp: h3_def h2_def sel)
    qed
  qed (use n_sz in simp_all)
  ultimately show ?thesis using True by auto
qed

lemma fresh_string_bytes:
  assumes "fresh_object P s0 KIND_STRING (length data) content (addr, s')"
    and "gc_ok P s0" and "\<And>i. i < length data \<Longrightarrow> content i = data ! i"
  shows "string_bytes addr s' = Inr data"
proof -
  note f = assms(1) [unfolded fresh_object_def split]
  have le: "length data \<le> size_for P KIND_STRING (length data)" by (simp add: size_for_def)
  have ok': "gc_ok P s'" using f by simp
  have len: "heap_len s' = 65536" "addr + length data \<le> 65536"
    using gc_okD(4,5) [OF ok'] f le by linarith+
  have start: "HEAP_START \<le> heap_ptr s0" using tiles_le [OF gc_okD(1) [OF assms(2)]] .
  have "hkind (heap s') (addr - HEADER_BYTES) = KIND_STRING"
    "hdetail (heap s') (addr - HEADER_BYTES) = length data" "addr = heap_ptr s0 + HEADER_BYTES"
    using f by simp_all
  then have "string_bytes addr s' = Inr (heap_slice s' addr (addr + length data))"
    using len start by (simp add: string_bytes_def Let_def)
  also have "heap_slice s' addr (addr + length data) = data"
    using len f le assms(3) by (intro nth_equalityI) (auto simp: heap_slice_ok)
  finally show ?thesis .
qed

lemma alloc_string_reads:
  assumes "gc_ok P s" and "alloc_string P data s = Inr (addr, s')"
  shows "string_bytes addr s' = Inr data \<and> gc_ok P s'
    \<and> (\<exists>s0. s0 = alloc_base P (max (length data + length data mod 2) MIN_PAYLOAD) s
        \<and> all_blocks P s' = all_blocks P s0 @ [addr - HEADER_BYTES]
        \<and> (\<forall>x < addr - HEADER_BYTES. heap s' x = heap s0 x))"
proof -
  have len: "length data \<le> 32767"
    using assms(2) by (auto simp: alloc_string_def Let_def split: if_splits)
  let ?s0 = "alloc_base P (rounded (length data)) s"
  have ok0: "gc_ok P ?s0" by (rule alloc_base_ok [OF assms(1)])
  obtain content where f: "fresh_object P ?s0 KIND_STRING (length data) content (addr, s')"
    and content: "\<And>i. i < length data \<Longrightarrow> content i = data ! i"
    using alloc_string_eq [OF assms(1) len] assms(2) by (auto split: if_splits)
  have "string_bytes addr s' = Inr data" by (rule fresh_string_bytes [OF f ok0 content])
  with f show ?thesis by (auto simp: fresh_object_def rounded_def)
qed

text \<open>
  Claim C11. A string put on the heap reads back as the same bytes, in a machine that is still well
  formed; every older object keeps the bytes it had when the new one was carved.
\<close>

theorem alloc_string_roundtrip:
  assumes "gc_ok P s" and "alloc_string P data s = Inr (addr, s')"
  shows "string_bytes addr s' = Inr data \<and> gc_ok P s'
    \<and> (\<exists>s0. s0 = alloc_base P (max (length data + length data mod 2) MIN_PAYLOAD) s
        \<and> all_blocks P s' = all_blocks P s0 @ [addr - HEADER_BYTES]
        \<and> (\<forall>x < addr - HEADER_BYTES. heap s' x = heap s0 x))"
  by (rule alloc_string_reads [OF assms])

text \<open>
  Claim C12. When an allocation reports that memory ran out, it collected first, and no number of
  further collections would make room: the reachable objects alone leave too little.
\<close>

theorem out_of_memory_final:
  assumes "gc_ok P s" and "reserve P payload k d s = fault OutOfMemory"
    and "((\<lambda>r. bindR r (collect P)) ^^ n) (collect P s) = Inr s'"
  shows "HEAP_SIZE < heap_ptr s' + HEADER_BYTES + rounded payload"
proof -
  let ?s0 = "alloc_base P (rounded payload) s"
  have full: "65536 < heap_ptr ?s0 + HEADER_BYTES + rounded payload"
    using assms(2) by (auto simp: reserve_eq [OF assms(1)] Let_def split: if_splits)
  obtain s1 where s1: "collect P s = Inr s1" using collector.gc_total [OF assms(1)] by blast
  then have "?s0 = s1"
    using full gc_okD(5) [OF assms(1)] by (auto simp: alloc_base_def split: if_splits)
  moreover have "heap_ptr s' = heap_ptr s1"
    using collector.once_is_enough [OF assms(1) s1] assms(3) by (simp add: s1)
  ultimately show ?thesis using full by simp
qed

section \<open>On the small heap\<close>

lemma demo_base: "n \<le> 1000 \<Longrightarrow> alloc_base demo_program n demo_vm = demo_vm"
  by (simp add: alloc_base_def demo_vm_def new_vm_def)

lemma demo_layout: "layout_of demo_program 0 = Some \<lparr>sl_name = lit ''P'', word_size = 2,
    ref_offsets = [1], sl_fields = [], is_variant = False\<rparr>"
  by (simp add: layout_of_def demo_program_def)

lemma demo_ptr: "heap_ptr demo_vm = 18" "heap_len demo_vm = 65536"
  by (simp_all add: demo_vm_def new_vm_def)

theorem alloc_struct_correct_witness:
  "\<exists>x. alloc_struct demo_program 0 demo_vm = Inr x \<and> fresh_object demo_program demo_vm KIND_STRUCT 0 (\<lambda>_. 0) x"
  using alloc_struct_correct [OF demo_ok demo_layout] by (simp add: Let_def demo_base demo_ptr)

theorem alloc_array_correct_witness:
  "\<exists>x. alloc_array demo_program 3 True demo_vm = Inr x \<and> fresh_object demo_program demo_vm KIND_REFARRAY 3 (\<lambda>_. 0) x"
  using alloc_array_correct [OF demo_ok, of 3 True] by (simp add: Let_def demo_base demo_ptr)

theorem alloc_string_roundtrip_witness:
  "\<exists>addr s'. alloc_string demo_program [104, 105] demo_vm = Inr (addr, s') \<and> string_bytes addr s' = Inr [104, 105]"
proof -
  obtain addr s' where "alloc_string demo_program [104, 105] demo_vm = Inr (addr, s')"
    using alloc_string_eq [OF demo_ok, of "[104, 105]"]
    by (auto simp: Let_def demo_base demo_ptr rounded_def)
  with alloc_string_roundtrip [OF demo_ok this] show ?thesis by blast
qed

theorem out_of_memory_final_witness:
  "\<exists>s'. collect demo_program demo_vm = Inr s' \<and> HEAP_SIZE < heap_ptr s' + HEADER_BYTES + rounded 70000"
proof -
  have "reserve demo_program 70000 KIND_RAW 1 demo_vm = fault OutOfMemory"
    by (simp add: reserve_eq [OF demo_ok] Let_def rounded_def)
  moreover obtain s' where "collect demo_program demo_vm = Inr s'"
    using collector.gc_total [OF demo_ok] by blast
  ultimately show ?thesis
    using out_of_memory_final [OF demo_ok, of 70000 KIND_RAW 1 0 s'] by simp
qed

end
