(* ===== verification/Interp.thy ===== *)
theory Interp
  imports Allocation
begin

text \<open>
  The interpreter loop of \<open>runtime/vm.py\<close>: one definition per family of instructions, in the
  order of the \<open>elif\<close> chain, each giving \<open>None\<close> for the opcodes of another family; then the
  fetch, the step and the run. A fault is an error value; the state it leaves behind is never
  looked at again except for the pc, which is that of the step's start.
\<close>

section \<open>Operands and stack helpers\<close>

text \<open>\<open>int(arg)\<close>, a \<open>TypeError\<close> when the instruction has no operand.\<close>

definition operand :: "instruction \<Rightarrow> vm_error + int" where
  "operand i = (case arg i of None \<Rightarrow> raise_host TypeError | Some n \<Rightarrow> Inr n)"

definition pop2 :: "'w vm \<Rightarrow> vm_error + nat \<times> nat \<times> 'w vm" where
  "pop2 s = bindR (pop s) (\<lambda>(b, s1). bindR (pop s1) (\<lambda>(a, s2). Inr (a, b, s2)))"

definition pop2_tagged :: "'w vm \<Rightarrow> vm_error + (nat \<times> bool) \<times> (nat \<times> bool) \<times> 'w vm" where
  "pop2_tagged s = bindR (pop_tagged s) (\<lambda>(b, s1). bindR (pop_tagged s1) (\<lambda>(a, s2). Inr (a, b, s2)))"

definition pop2_float :: "'w vm \<Rightarrow> vm_error + pyfloat \<times> pyfloat \<times> 'w vm" where
  "pop2_float s = bindR (pop_float s) (\<lambda>(b, s1). bindR (pop_float s1) (\<lambda>(a, s2). Inr (a, b, s2)))"

definition pop_string :: "'w vm \<Rightarrow> vm_error + bytes \<times> 'w vm" where
  "pop_string s = bindR (pop s) (\<lambda>(a, s1). bindR (string_bytes a s1) (\<lambda>d. Inr (d, s1)))"

definition pop_text :: "'w vm \<Rightarrow> vm_error + ustr \<times> 'w vm" where
  "pop_text s = bindR (pop_string s) (\<lambda>(d, s1). Inr (of_latin1 d, s1))"

text \<open>Push the address an allocation returned, as a reference.\<close>

definition push_new :: "vm_error + nat \<times> 'w vm \<Rightarrow> vm_error + 'w vm" where
  "push_new r = bindR r (\<lambda>(addr, s). Inr (push (int addr) True s))"

definition current_ref_slots :: "program \<Rightarrow> 'w vm \<Rightarrow> nat list" where
  "current_ref_slots P s =
     (if length (fns P) \<le> current_fn s then [] else ref_slots (fns P ! current_fn s))"

definition of_bool_int :: "bool \<Rightarrow> int" where
  "of_bool_int b = (if b then 1 else 0)"

section \<open>Integers\<close>

definition exec_int :: "program \<Rightarrow> instruction \<Rightarrow> 'w vm \<Rightarrow> (vm_error + 'w vm) option" where
  "exec_int P i s =
    (if op i = PUSH_INT then Some (bindR (operand i) (\<lambda>n. Inr (push n False s)))
     else if op i = LOAD_LOCAL then Some (
       bindR (operand i) (\<lambda>n. bindR (get_local s n) (\<lambda>v.
         Inr (push (int v) (n \<in> int ` set (current_ref_slots P s)) s))))
     else if op i = STORE_LOCAL then Some (
       bindR (operand i) (\<lambda>n. bindR (pop s) (\<lambda>(v, s1). set_local n (int v) s1)))
     else if op i = ADD then Some (
       bindR (pop2_tagged s) (\<lambda>((a, a_ref), (b, b_ref), s1).
         Inr (push (int a + int b) (a_ref \<or> b_ref) s1)))
     else if op i = SUB then Some (
       bindR (pop2_tagged s) (\<lambda>((a, a_ref), (b, b_ref), s1).
         Inr (push (int a - int b) (a_ref \<or> b_ref) s1)))
     else if op i = MUL then Some (
       bindR (pop2 s) (\<lambda>(a, b, s1). Inr (push (int a * int b) False s1)))
     else if op i = DIV then Some (
       bindR (pop2 s) (\<lambda>(a, b, s1).
         if to_signed b = 0 then fault DivisionByZero
         else Inr (push (trunc_div (to_signed a) (to_signed b)) False s1)))
     else if op i = MOD then Some (
       bindR (pop2 s) (\<lambda>(a, b, s1).
         if to_signed b = 0 then fault ModuloByZero
         else Inr (push (to_signed a - trunc_div (to_signed a) (to_signed b) * to_signed b) False s1)))
     else if op i = XOR then Some (
       bindR (pop2 s) (\<lambda>(a, b, s1). Inr (push (int (semiring_bit_operations_class.xor a b)) False s1)))
     else if op i = AND then Some (
       bindR (pop2 s) (\<lambda>(a, b, s1). Inr (push (int (semiring_bit_operations_class.and a b)) False s1)))
     else if op i = OR then Some (
       bindR (pop2 s) (\<lambda>(a, b, s1). Inr (push (int (semiring_bit_operations_class.or a b)) False s1)))
     else if op i = SHL then Some (
       bindR (pop2 s) (\<lambda>(value, c, s1).
         let count = to_signed c in
         if count < 0 \<or> count > 15 then fault (ShiftRange SHL count)
         else Inr (push (push_bit (nat count) (int value)) False s1)))
     else if op i = SHR then Some (
       bindR (pop2 s) (\<lambda>(value, c, s1).
         let count = to_signed c in
         if count < 0 \<or> count > 15 then fault (ShiftRange SHR count)
         else Inr (push (drop_bit (nat count) (to_signed value)) False s1)))
     else if op i = NEG then Some (bindR (pop s) (\<lambda>(v, s1). Inr (push (- int v) False s1)))
     else if op i = NOT then Some (
       bindR (pop s) (\<lambda>(v, s1). Inr (push (if v \<noteq> 0 then 0 else 1) False s1)))
     else if op i = BITNOT then Some (
       bindR (pop s) (\<lambda>(v, s1). Inr (push (not (int v)) False s1)))
     else None)"

definition compare :: "opcode \<Rightarrow> int \<Rightarrow> int \<Rightarrow> bool" where
  "compare c a b =
    (if c = CMP_EQ then a = b else if c = CMP_NE then a \<noteq> b else if c = CMP_LT then a < b
     else if c = CMP_LE then a \<le> b else if c = CMP_GT then a > b else a \<ge> b)"

definition exec_compare :: "instruction \<Rightarrow> 'w vm \<Rightarrow> (vm_error + 'w vm) option" where
  "exec_compare i s =
    (if op i \<in> set [CMP_EQ, CMP_NE, CMP_LT, CMP_LE, CMP_GT, CMP_GE] then Some (
       bindR (pop2 s) (\<lambda>(a, b, s1).
         Inr (push (of_bool_int (compare (op i) (to_signed a) (to_signed b))) False s1)))
     else None)"

section \<open>Floats\<close>

definition exec_float :: "instruction \<Rightarrow> 'w vm \<Rightarrow> (vm_error + 'w vm) option" where
  "exec_float i s =
    (if op i = PUSH_FLOAT then Some (
       bindR (operand i) (\<lambda>n. Inr (push_raw (nat (n mod 4294967296)) False s)))
     else if op i = LOAD_LOCAL_F then Some (
       bindR (operand i) (\<lambda>n. bindR (get_local_float s n) (\<lambda>x. push_float x s)))
     else if op i = STORE_LOCAL_F then Some (
       bindR (operand i) (\<lambda>n. bindR (pop_float s) (\<lambda>(x, s1). set_local_float n x s1)))
     else if op i = FADD then Some (bindR (pop2_float s) (\<lambda>(a, b, s1). push_float (fadd a b) s1))
     else if op i = FSUB then Some (bindR (pop2_float s) (\<lambda>(a, b, s1). push_float (fsub a b) s1))
     else if op i = FMUL then Some (bindR (pop2_float s) (\<lambda>(a, b, s1). push_float (fmul a b) s1))
     else if op i = FDIV then Some (
       bindR (pop2_float s) (\<lambda>(a, b, s1). case fdiv a b of
         None \<Rightarrow> fault FloatDivisionByZero
       | Some q \<Rightarrow> push_float q s1))
     else if op i = FNEG then Some (bindR (pop_float s) (\<lambda>(x, s1). push_float (fneg x) s1))
     else if op i = FCMP then Some (
       bindR (pop2_float s) (\<lambda>(a, b, s1).
         Inr (push (of_bool_int (flt b a) - of_bool_int (flt a b)) False s1)))
     else if op i = F_FROM_INT then Some (
       bindR (pop s) (\<lambda>(v, s1). push_float (float_of_int (to_signed v)) s1))
     else if op i = F_TO_INT then Some (
       bindR (pop_float s) (\<lambda>(x, s1). bindR (lift_host (int_of_float x)) (\<lambda>n.
         if n < -32768 \<or> n > 32767 then fault (FloatToIntRange x)
         else Inr (push n False s1))))
     else None)"

section \<open>Strings\<close>

definition bytes_less :: "bytes \<Rightarrow> bytes \<Rightarrow> bool" where
  "bytes_less a b \<longleftrightarrow> (a, b) \<in> lexord {(x, y). x < y}"

definition exec_string :: "program \<Rightarrow> instruction \<Rightarrow> 'w vm \<Rightarrow> (vm_error + 'w vm) option" where
  "exec_string P i s =
    (if op i = LOAD_STR then Some (
       bindR (operand i) (\<lambda>n. bindR (literal s n) (\<lambda>a. Inr (push (int a) True s))))
     else if op i = STR_CMP then Some (
       bindR (pop_string s) (\<lambda>(b, s1). bindR (pop_string s1) (\<lambda>(a, s2).
         Inr (push (if a = b then 0 else if bytes_less b a then 1 else -1) False s2))))
     else if op i = STR_LEN then Some (
       bindR (pop_string s) (\<lambda>(d, s1). Inr (push (int (length d)) False s1)))
     else if op i = STR_CHAR_AT then Some (
       bindR (pop s) (\<lambda>(k, s1). bindR (pop_string s1) (\<lambda>(d, s2).
         let index = to_signed k in
         if index < 0 \<or> int (length d) \<le> index then fault (CharAtRange index (length d))
         else Inr (push (int (unat (d ! nat index))) False s2))))
     else if op i = STR_CONCAT then Some (
       bindR (pop_string s) (\<lambda>(right, s1). bindR (pop_string s1) (\<lambda>(left, s2).
         push_new (alloc_string P (left @ right) s2))))
     else if op i = STR_SLICE then Some (
       bindR (pop2 s) (\<lambda>(st, en, s1). bindR (pop_string s1) (\<lambda>(d, s2).
         let start = to_signed st; stop = to_signed en in
         if start < 0 \<or> int (length d) < stop \<or> stop < start
         then fault (SliceRange start stop (length d))
         else push_new (alloc_string P (drop (nat start) (take (nat stop) d)) s2))))
     else if op i = STR_FROM_FLOAT then Some (
       bindR (pop_float s) (\<lambda>(x, s1). bindR (lift_host (format_float x)) (\<lambda>t.
         bindR (lift_host (latin1 t)) (\<lambda>d. push_new (alloc_string P d s1)))))
     else if op i = STR_FROM_INT then Some (
       bindR (pop s) (\<lambda>(v, s1). bindR (lift_host (latin1 (dec_int (to_signed v)))) (\<lambda>d.
         push_new (alloc_string P d s1))))
     else if op i = STR_FROM_CHAR then Some (
       bindR (pop s) (\<lambda>(v, s1).
         let c = to_signed v in
         if c < 0 \<or> c > 255 then fault (CharCode c)
         else push_new (alloc_string P [of_int c] s1)))
     else None)"

section \<open>Locals\<close>

definition memcpy_order :: "int \<Rightarrow> int \<Rightarrow> nat \<Rightarrow> nat list" where
  "memcpy_order dst src count = (if dst > src then rev [0..<count] else [0..<count])"

definition memcpy_locals :: "int \<Rightarrow> int \<Rightarrow> nat \<Rightarrow> 'w vm \<Rightarrow> vm_error + 'w vm" where
  "memcpy_locals dst src count s =
     foldR (\<lambda>k t. bindR (get_local t (src + int k)) (\<lambda>v. set_local (dst + int k) (int v) t))
       (memcpy_order dst src count) s"

definition memset_locals :: "int \<Rightarrow> nat \<Rightarrow> nat \<Rightarrow> 'w vm \<Rightarrow> vm_error + 'w vm" where
  "memset_locals dst value count s =
     foldR (\<lambda>k. set_local (dst + int k) (int value)) [0..<count] s"

definition exec_locals :: "instruction \<Rightarrow> 'w vm \<Rightarrow> (vm_error + 'w vm) option" where
  "exec_locals i s =
    (if op i = BOUNDS_CHECK then Some (
       if length (stack s) \<le> frame_base s then fault (StackUnderflowOn BOUNDS_CHECK)
       else bindR (operand i) (\<lambda>n. let idx = to_signed (hd (stack s)) in
         if idx < 0 \<or> n \<le> idx then fault (ArrayBounds idx n) else Inr s))
     else if op i = LOAD_LOCAL_IDX then Some (
       bindR (pop s) (\<lambda>(k, s1). bindR (operand i) (\<lambda>n.
         bindR (get_local s1 (n + to_signed k)) (\<lambda>v. Inr (push (int v) False s1)))))
     else if op i = STORE_LOCAL_IDX then Some (
       bindR (pop s) (\<lambda>(k, s1). bindR (pop s1) (\<lambda>(v, s2). bindR (operand i) (\<lambda>n.
         set_local (n + to_signed k) (int v) s2))))
     else if op i = LOAD_INDIRECT then Some (
       bindR (pop s) (\<lambda>(p, s1). bindR (get_local s1 (to_signed p)) (\<lambda>v. Inr (push (int v) False s1))))
     else if op i = STORE_INDIRECT then Some (
       bindR (pop s) (\<lambda>(v, s1). bindR (pop s1) (\<lambda>(p, s2). set_local (to_signed p) (int v) s2)))
     else if op i = MEMCPY_LOCALS then Some (
       bindR (pop s) (\<lambda>(c, s1). bindR (pop s1) (\<lambda>(a, s2). bindR (pop s2) (\<lambda>(d, s3).
         if to_signed c < 0 then fault (NegativeCount MEMCPY_LOCALS (to_signed c))
         else memcpy_locals (to_signed d) (to_signed a) (nat (to_signed c)) s3))))
     else if op i = MEMSET_LOCALS then Some (
       bindR (pop s) (\<lambda>(c, s1). bindR (pop s1) (\<lambda>(v, s2). bindR (pop s2) (\<lambda>(d, s3).
         if to_signed c < 0 then fault (NegativeCount MEMSET_LOCALS (to_signed c))
         else memset_locals (to_signed d) v (nat (to_signed c)) s3))))
     else None)"

section \<open>Stack, input and output\<close>

definition io_print :: "'w io_ops \<Rightarrow> ustr \<Rightarrow> 'w vm \<Rightarrow> 'w vm" where
  "io_print ops text s = s\<lparr>io := io_write ops text (io s)\<rparr>"

definition exec_stack :: "instruction \<Rightarrow> 'w vm \<Rightarrow> (vm_error + 'w vm) option" where
  "exec_stack i s =
    (if op i = POP then Some (bindR (pop s) (\<lambda>(_, s1). Inr s1))
     else if op i = DUP then Some (
       if length (stack s) \<le> frame_base s then fault (StackUnderflowOn DUP)
       else case stack_is_ref s of
         [] \<Rightarrow> raise_host IndexError
       | r # _ \<Rightarrow> Inr (push_raw (hd (stack s)) r s))
     else if op i = SWAP then Some (
       bindR (pop2_tagged s) (\<lambda>((a, a_ref), (b, b_ref), s1).
         Inr (push_raw a a_ref (push_raw b b_ref s1))))
     else None)"

definition exec_print :: "'w io_ops \<Rightarrow> instruction \<Rightarrow> 'w vm \<Rightarrow> (vm_error + 'w vm) option" where
  "exec_print ops i s =
    (if op i = PRINT_FLOAT \<or> op i = PRINTLN_FLOAT then Some (
       bindR (pop_float s) (\<lambda>(x, s1). bindR (lift_host (format_float x)) (\<lambda>t.
         Inr (io_print ops (t @ (if op i = PRINTLN_FLOAT then [10] else [])) s1))))
     else if op i = PRINT_INT \<or> op i = PRINTLN_INT then Some (
       bindR (pop s) (\<lambda>(v, s1).
         Inr (io_print ops (dec_int (to_signed v) @ (if op i = PRINTLN_INT then [10] else [])) s1)))
     else if op i = PRINT_STR \<or> op i = PRINTLN_STR then Some (
       bindR (pop_text s) (\<lambda>(t, s1).
         Inr (io_print ops (t @ (if op i = PRINTLN_STR then [10] else [])) s1)))
     else None)"

definition exec_input :: "'w io_ops \<Rightarrow> program \<Rightarrow> instruction \<Rightarrow> 'w vm \<Rightarrow> (vm_error + 'w vm) option" where
  "exec_input ops P i s =
    (if op i = READ_LINE then Some (
       let (line, w) = io_read_line ops (io s) in
       push_new (string_from_text P line (lit ''input'') (s\<lparr>io := w\<rparr>)))
     else if op i = ARGC then Some (Inr (push (int (length (prog_args P))) False s))
     else if op i = ARGV then Some (
       bindR (pop s) (\<lambda>(k, s1).
         let index = to_signed k in
         if index < 0 \<or> int (length (prog_args P)) \<le> index
         then fault (ArgvRange index (length (prog_args P)))
         else push_new (string_from_text P (prog_args P ! nat index) (lit ''an argument'') s1)))
     else None)"

section \<open>Files\<close>

definition quoted :: "ustr \<Rightarrow> ustr" where
  "quoted path = 39 # path @ [39]"

text \<open>What reading a file gives: its bytes, or nothing when the read failed.\<close>

definition file_content :: "'w io_ops \<Rightarrow> ustr \<Rightarrow> 'w vm \<Rightarrow> vm_error + bytes \<times> 'w vm" where
  "file_content ops path s =
     (case file_op (io_read_file ops path) s of
        (None, s1) \<Rightarrow> Inr ([], s1)
      | (Some v, s1) \<Rightarrow> bindR (bytes_from_io v (quoted path)) (\<lambda>d. Inr (d, s1)))"

text \<open>Push whether a file operation worked.\<close>

definition push_ok :: "('a option \<Rightarrow> bool) \<Rightarrow> 'a option \<times> 'w vm \<Rightarrow> 'w vm" where
  "push_ok worked r = push (of_bool_int (worked (fst r))) False (snd r)"

definition write_bytes :: "nat \<Rightarrow> bytes \<Rightarrow> 'w vm \<Rightarrow> vm_error + 'w vm" where
  "write_bytes ref d s = foldR (\<lambda>(k, b). write_word (ref + 2 * k) (unat b)) (enumerate 0 d) s"

definition exec_file :: "'w io_ops \<Rightarrow> program \<Rightarrow> instruction \<Rightarrow> 'w vm \<Rightarrow> (vm_error + 'w vm) option" where
  "exec_file ops P i s =
    (if op i = FILE_READ then Some (
       bindR (pop_text s) (\<lambda>(path, s1). bindR (file_content ops path s1) (\<lambda>(d, s2).
         push_new (alloc_string P d s2))))
     else if op i = FILE_WRITE \<or> op i = FILE_APPEND then Some (
       bindR (pop_string s) (\<lambda>(d, s1). bindR (pop_text s1) (\<lambda>(path, s2).
         Inr (push_ok (\<lambda>ok. ok \<noteq> None) (file_op (io_write_file ops path d (op i = FILE_APPEND)) s2)))))
     else if op i = FILE_EXISTS then Some (
       bindR (pop_text s) (\<lambda>(path, s1).
         Inr (push_ok (\<lambda>ok. ok = Some True) (file_op (io_file_exists ops path) s1))))
     else if op i = FILE_DELETE then Some (
       bindR (pop_text s) (\<lambda>(path, s1).
         Inr (push_ok (\<lambda>ok. ok \<noteq> None) (file_op (io_delete_file ops path) s1))))
     else if op i = FILE_ERROR then Some (
       push_new (string_from_text P (file_error s) (lit ''a file error'') s))
     else if op i = FILE_READ_BYTES then Some (
       bindR (pop_text s) (\<lambda>(path, s1). bindR (file_content ops path s1) (\<lambda>(d, s2).
         bindR (alloc_array P (int (length d)) False s2) (\<lambda>(ref, s3).
         bindR (write_bytes ref d s3) (\<lambda>s4.
           Inr (push (int ref) True s4))))))
     else if op i = FILE_WRITE_BYTES then Some (
       bindR (pop s) (\<lambda>(a, s1). bindR (array_bytes a (lit ''file_write_bytes'') s1) (\<lambda>d.
         bindR (pop_text s1) (\<lambda>(path, s2).
           Inr (push_ok (\<lambda>ok. ok \<noteq> None) (file_op (io_write_file ops path d False) s2))))))
     else None)"

section \<open>Heap\<close>

definition exec_variant :: "program \<Rightarrow> instruction \<Rightarrow> 'w vm \<Rightarrow> (vm_error + 'w vm) option" where
  "exec_variant P i s =
    (if op i = ALLOC then Some (bindR (pop s) (\<lambda>(n, s1). push_new (alloc_raw P (to_signed n) s1)))
     else if op i = TAG_OF then Some (
       bindR (pop s) (\<lambda>(ref, s1).
         if ref = NULL_ADDR then fault NullInMatch
         else if ref - HEADER_BYTES < HEAP_START then fault (NotAVariant ref)
         else bindR (kind s1 (ref - HEADER_BYTES)) (\<lambda>k.
           if k \<noteq> KIND_STRUCT then fault (NotAVariant ref)
           else bindR (detail s1 (ref - HEADER_BYTES)) (\<lambda>d. Inr (push (int d) False s1)))))
     else if op i = LOAD_VARIANT then Some (
       bindR (operand i) (\<lambda>n.
         if n < 0 \<or> int (length (variants s)) \<le> n then fault (UnknownVariant n)
         else Inr (push (int (variants s ! nat n)) True s)))
     else None)"

definition exec_object :: "program \<Rightarrow> instruction \<Rightarrow> 'w vm \<Rightarrow> (vm_error + 'w vm) option" where
  "exec_object P i s =
    (if op i = GC then Some (collect P s)
     else if op i = PANIC then Some (bindR (pop_text s) (\<lambda>(t, _). fault (Panic t)))
     else if op i = NEW_ARRAY then Some (
       bindR (pop s) (\<lambda>(n, s1). push_new (alloc_array P (to_signed n) (arg i = Some 1) s1)))
     else if op i = ARRAY_LEN then Some (
       bindR (pop s) (\<lambda>(ref, s1). bindR (array_at ref (lit ''ARRAY_LEN'') s1) (\<lambda>(_, n, _).
         Inr (push (int n) False s1))))
     else if op i = ARRAY_GET then Some (
       bindR (pop s) (\<lambda>(k, s1). bindR (pop s1) (\<lambda>(ref, s2).
         bindR (element_addr ref (to_signed k) (lit ''ARRAY_GET'') s2) (\<lambda>(a, holds_refs).
         bindR (read_word s2 a) (\<lambda>v. Inr (push (int v) holds_refs s2))))))
     else if op i = ARRAY_SET then Some (
       bindR (pop s) (\<lambda>(v, s1). bindR (pop s1) (\<lambda>(k, s2). bindR (pop s2) (\<lambda>(ref, s3).
         bindR (element_addr ref (to_signed k) (lit ''ARRAY_SET'') s3) (\<lambda>(a, _).
           write_word a v s3)))))
     else if op i = ALLOC_TYPED then Some (bindR (operand i) (\<lambda>n. push_new (alloc_struct P n s)))
     else None)"

text \<open>The checked address of the field an instruction names, in an object it popped.\<close>

definition field_addr :: "nat \<Rightarrow> ustr \<Rightarrow> instruction \<Rightarrow> 'w vm \<Rightarrow> vm_error + nat" where
  "field_addr ref what i s =
     (if ref = NULL_ADDR then fault (NullDereference (op i))
      else bindR (operand i) (\<lambda>n.
        bindR (check_heap_word (int ref + n * 2) what s) (\<lambda>_. Inr (nat (int ref + n * 2)))))"

definition exec_heap :: "program \<Rightarrow> instruction \<Rightarrow> 'w vm \<Rightarrow> (vm_error + 'w vm) option" where
  "exec_heap P i s =
    (if op i = HEAP_LOAD then Some (
       bindR (pop s) (\<lambda>(a, s1).
         if a = NULL_ADDR then fault (NullDereference HEAP_LOAD)
         else bindR (check_heap_word (int a) (lit ''HEAP_LOAD'') s1) (\<lambda>_.
           bindR (read_word s1 a) (\<lambda>v. Inr (push (int v) False s1)))))
     else if op i = HEAP_STORE then Some (
       bindR (pop s) (\<lambda>(v, s1). bindR (pop s1) (\<lambda>(a, s2).
         if a = NULL_ADDR then fault (NullDereference HEAP_STORE)
         else bindR (check_heap_word (int a) (lit ''HEAP_STORE'') s2) (\<lambda>_. write_word a v s2))))
     else if op i = HEAP_LOAD_FIELD then Some (
       bindR (pop s) (\<lambda>(ref, s1).
         bindR (field_addr ref (lit ''HEAP_LOAD_FIELD'') i s1) (\<lambda>a.
         bindR (operand i) (\<lambda>n.
         bindR (read_word s1 a) (\<lambda>v. bindR (field_is_ref P ref n s1) (\<lambda>is_ref.
           Inr (push (int v) is_ref s1)))))))
     else if op i = HEAP_STORE_FIELD then Some (
       bindR (pop s) (\<lambda>(v, s1). bindR (pop s1) (\<lambda>(ref, s2).
         bindR (field_addr ref (lit ''HEAP_STORE_FIELD'') i s2) (\<lambda>a. write_word a v s2))))
     else if op i = HEAP_LOAD_FIELD_F then Some (
       bindR (pop s) (\<lambda>(ref, s1).
         bindR (field_addr ref (lit ''HEAP_LOAD_FIELD_F'') i s1) (\<lambda>a.
         bindR (check_heap_word (int a + 2) (lit ''HEAP_LOAD_FIELD_F'') s1) (\<lambda>_.
         bindR (read_word s1 a) (\<lambda>low. bindR (read_word s1 (a + 2)) (\<lambda>high.
           push_float (bits_to_float
             (semiring_bit_operations_class.or low (push_bit 16 high))) s1))))))
     else if op i = HEAP_STORE_FIELD_F then Some (
       bindR (pop_float s) (\<lambda>(x, s1). bindR (lift_float (float_to_bits x)) (\<lambda>bits.
         bindR (pop s1) (\<lambda>(ref, s2).
         bindR (field_addr ref (lit ''HEAP_STORE_FIELD_F'') i s2) (\<lambda>a.
         bindR (check_heap_word (int a + 2) (lit ''HEAP_STORE_FIELD_F'') s2) (\<lambda>_.
         bindR (write_word a (bits mod WORD_MOD) s2)
           (write_word (a + 2) (bits div WORD_MOD mod WORD_MOD))))))))
     else None)"

section \<open>Control\<close>

datatype 'w outcome = Running "'w vm" | Finished int "'w vm"

fun pop_n :: "nat \<Rightarrow> 'w vm \<Rightarrow> vm_error + nat list \<times> 'w vm" where
  "pop_n 0 s = Inr ([], s)"
| "pop_n (Suc n) s = bindR (pop s) (\<lambda>(v, s1). bindR (pop_n n s1) (\<lambda>(vs, s2). Inr (v # vs, s2)))"

text \<open>Arguments into the leading slots; a float argument is one entry and fills two slots.\<close>

fun place_args :: "nat list \<Rightarrow> nat list \<Rightarrow> nat \<Rightarrow> nat list \<Rightarrow> nat list" where
  "place_args ws [] slot ls = ls"
| "place_args ws (v # vs) slot ls =
     (let width = (case ws of [] \<Rightarrow> 1 | w # _ \<Rightarrow> w);
          ls' = (if width = 2 then
                   (if slot + 1 < length ls
                    then ls[slot := v mod WORD_MOD, slot + 1 := v div WORD_MOD mod WORD_MOD] else ls)
                 else if slot < length ls then ls[slot := v mod WORD_MOD] else ls)
      in place_args (tl ws) vs (slot + width) ls')"

definition enter_function :: "program \<Rightarrow> int \<Rightarrow> ustr \<Rightarrow> 'w vm \<Rightarrow> vm_error + 'w vm" where
  "enter_function P fn_id op_name s =
     (if fn_id < 0 \<or> int (length (fns P)) \<le> fn_id then fault (InvalidFunction op_name fn_id)
      else let fn = fns P ! nat fn_id in
        bindR (pop_n (num_params fn) s) (\<lambda>(vs, s1).
          Inr (s1\<lparr>call_stack := \<lparr>return_pc = pc s1, frame_locals = locals s1,
                                 stack_base = frame_base s1, fn_index = current_fn s1\<rparr> # call_stack s1,
                   current_fn := nat fn_id,
                   locals := place_args (param_words fn) (rev vs) 0 (replicate (num_locals fn) 0),
                   frame_base := length (stack s1),
                   pc := int (entry_pc fn)\<rparr>)))"

definition exec_ret :: "'w vm \<Rightarrow> vm_error + 'w outcome" where
  "exec_ret s =
     (if length (stack s) \<noteq> frame_base s + 1
      then fault (UnbalancedRet (frame_base s + 1) (length (stack s)))
      else case stack_is_ref s of
        [] \<Rightarrow> raise_host IndexError
      | ret_is_ref # tags \<Rightarrow>
          let ret_val = hd (stack s); s1 = s\<lparr>stack := tl (stack s), stack_is_ref := tags\<rparr> in
          (case call_stack s1 of
             [] \<Rightarrow> Inr (Finished (to_signed ret_val) s1)
           | f # fs \<Rightarrow> Inr (Running (push_raw ret_val ret_is_ref
               (s1\<lparr>call_stack := fs, locals := frame_locals f, frame_base := stack_base f,
                   current_fn := fn_index f, pc := return_pc f\<rparr>)))))"

definition running :: "vm_error + 'w vm \<Rightarrow> vm_error + 'w outcome" where
  "running r = bindR r (\<lambda>s. Inr (Running s))"

definition exec_control :: "program \<Rightarrow> instruction \<Rightarrow> 'w vm \<Rightarrow> (vm_error + 'w outcome) option" where
  "exec_control P i s =
    (if op i = JMP then Some (running (bindR (operand i) (\<lambda>n. Inr (s\<lparr>pc := n\<rparr>))))
     else if op i = JZ then Some (running (bindR (pop s) (\<lambda>(v, s1).
       if v = 0 then bindR (operand i) (\<lambda>n. Inr (s1\<lparr>pc := n\<rparr>)) else Inr s1)))
     else if op i = JNZ then Some (running (bindR (pop s) (\<lambda>(v, s1).
       if v \<noteq> 0 then bindR (operand i) (\<lambda>n. Inr (s1\<lparr>pc := n\<rparr>)) else Inr s1)))
     else if op i = CALL then Some (running (
       bindR (operand i) (\<lambda>n. enter_function P n (lit ''CALL'') s)))
     else if op i = CALL_INDIRECT then Some (running (
       bindR (pop s) (\<lambda>(v, s1). enter_function P (int v) (lit ''CALL_INDIRECT'') s1)))
     else if op i = RET then Some (exec_ret s)
     else None)"

section \<open>The loop\<close>

text \<open>
  The families in turn. Every opcode belongs to one of them, so the \<open>Unknown opcode\<close> branch of
  the chain is dead code for an \<open>OpCode\<close>.
\<close>

definition or_else :: "'a option \<Rightarrow> 'a option \<Rightarrow> 'a option" where
  "or_else x y = (case x of Some a \<Rightarrow> Some a | None \<Rightarrow> y)"

lemma or_else_simps [simp]: "or_else (Some a) y = Some a" "or_else None y = y"
  by (simp_all add: or_else_def)

definition exec_plain ::
    "'w io_ops \<Rightarrow> program \<Rightarrow> instruction \<Rightarrow> 'w vm \<Rightarrow> (vm_error + 'w vm) option" where
  "exec_plain ops P i s =
     or_else (exec_int P i s) (or_else (exec_float i s) (or_else (exec_compare i s)
     (or_else (exec_string P i s) (or_else (exec_locals i s) (or_else (exec_stack i s)
     (or_else (exec_print ops i s) (or_else (exec_variant P i s) (or_else (exec_input ops P i s)
     (or_else (exec_file ops P i s) (or_else (exec_object P i s) (exec_heap P i s)))))))))))"

definition exec :: "'w io_ops \<Rightarrow> program \<Rightarrow> instruction \<Rightarrow> 'w vm \<Rightarrow> vm_error + 'w outcome" where
  "exec ops P i s =
     (case exec_control P i s of
        Some r \<Rightarrow> r
      | None \<Rightarrow> (case exec_plain ops P i s of
          Some r \<Rightarrow> running r
        | None \<Rightarrow> raise_host TypeError))"

definition step :: "'w io_ops \<Rightarrow> program \<Rightarrow> 'w vm \<Rightarrow> vm_error + 'w outcome" where
  "step ops P s =
     (if int (length (code P)) \<le> pc s then Inr (Finished 0 s)
      else case py_index (code P) (pc s) of
        None \<Rightarrow> raise_host IndexError
      | Some i \<Rightarrow> exec ops P i (s\<lparr>pc := pc s + 1\<rparr>))"

text \<open>
  The run, with fuel: \<open>OutOfFuel\<close> is a run that is still going. A fault carries the machine as it
  was before the faulting instruction.
\<close>

datatype 'w run_result = Exit int "'w vm" | Fault vm_error "'w vm" | OutOfFuel "'w vm"

fun run :: "'w io_ops \<Rightarrow> program \<Rightarrow> nat \<Rightarrow> 'w vm \<Rightarrow> 'w run_result" where
  "run ops P 0 s = OutOfFuel s"
| "run ops P (Suc n) s = (case step ops P s of
     Inl e \<Rightarrow> Fault e s
   | Inr (Finished v s') \<Rightarrow> Exit v s'
   | Inr (Running s') \<Rightarrow> run ops P n s')"

text \<open>\<open>func_index\<close> is built from the function list, a later function of a name replacing an earlier.\<close>

definition func_index :: "program \<Rightarrow> ustr \<Rightarrow> nat option" where
  "func_index P name = map_of (rev (zip (map fn_name (fns P)) [0..<length (fns P)])) name"

definition boot :: "program \<Rightarrow> 'w vm \<Rightarrow> vm_error + 'w vm" where
  "boot P s =
     (case func_index P (lit ''main'') of
        None \<Rightarrow> fault NoMain
      | Some idx \<Rightarrow>
          bindR (materialise_literals P s) (\<lambda>s1.
          bindR (materialise_variants P s1) (\<lambda>s2.
            Inr (s2\<lparr>locals := replicate (num_locals (fns P ! idx)) 0, current_fn := idx,
                    pc := int (entry_pc (fns P ! idx)), frame_base := 0\<rparr>))))"

definition run_main :: "'w io_ops \<Rightarrow> program \<Rightarrow> nat \<Rightarrow> 'w vm \<Rightarrow> 'w run_result" where
  "run_main ops P fuel s = (case boot P s of Inl e \<Rightarrow> Fault e s | Inr s1 \<Rightarrow> run ops P fuel s1)"

end
