(* ===== verification/Frames.thy ===== *)
theory Frames
  imports Interp
begin

text \<open>
  The calling convention: plain instructions never touch the control state and never reach below
  the current frame's part of the operand stack, the reference tags move in step with the values,
  and a call and its return leave the caller as it was with one more value on its stack.
\<close>

section \<open>The frame invariant\<close>

text \<open>What a plain instruction must leave alone; a collection may rewrite slots, not resize them.\<close>

definition control ::
    "'w vm \<Rightarrow> (int \<times> nat \<times> nat \<times> nat) list \<times> nat \<times> nat \<times> nat" where
  "control s = (map (\<lambda>f. (return_pc f, stack_base f, fn_index f, length (frame_locals f))) (call_stack s),
     frame_base s, current_fn s, length (locals s))"

definition tags_ok :: "'w vm \<Rightarrow> bool" where
  "tags_ok s \<longleftrightarrow> length (stack_is_ref s) = length (stack s) \<and> frame_base s \<le> length (stack s)"

definition frames_ok :: "'w vm \<Rightarrow> bool" where
  "frames_ok s \<longleftrightarrow> tags_ok s \<and> sorted_wrt (\<ge>) (frame_base s # map stack_base (call_stack s))"

definition plain :: "'w vm \<Rightarrow> 'w vm \<Rightarrow> bool" where
  "plain s s' \<longleftrightarrow> control s' = control s \<and> (tags_ok s \<longrightarrow> tags_ok s')"

named_theorems plain_intros \<open>operations that keep the control state\<close>

lemma plain_refl [plain_intros, simp]: "plain s s"
  by (simp add: plain_def)

lemma plain_trans: "plain s s' \<Longrightarrow> plain s' s'' \<Longrightarrow> plain s s''"
  by (simp add: plain_def)

lemma plain_frames_ok:
  assumes p: "plain s s'" and f: "frames_ok s"
  shows "frames_ok s'"
proof -
  let ?F = "\<lambda>f. (return_pc f, stack_base f, fn_index f, length (frame_locals f))"
  have c: "map ?F (call_stack s') = map ?F (call_stack s)" and base: "frame_base s' = frame_base s"
    using p by (simp_all add: plain_def control_def)
  have m: "map stack_base fs = map (\<lambda>t. fst (snd t)) (map ?F fs)" for fs
    by simp
  have "map stack_base (call_stack s') = map stack_base (call_stack s)"
    by (simp only: m c)
  moreover have "tags_ok s'" using p f by (simp add: plain_def frames_ok_def)
  ultimately show ?thesis using f base by (simp only: frames_ok_def)
qed

text \<open>A state that differs in fields the control state does not mention.\<close>

lemma plain_fields:
  assumes "stack s' = stack s" and "stack_is_ref s' = stack_is_ref s" and "control s' = control s"
  shows "plain s s'"
  using assms by (simp add: plain_def tags_ok_def control_def)

lemma plain_pop_tagged: "pop_tagged s = Inr (v, s') \<Longrightarrow> plain s s'"
  by (auto simp: pop_tagged_def plain_def control_def tags_ok_def split: if_splits list.splits)

lemma plain_pop: "pop s = Inr (v, s') \<Longrightarrow> plain s s'"
  by (auto simp: pop_def result_simps dest: plain_pop_tagged)

lemma plain_pop_float: "pop_float s = Inr (v, s') \<Longrightarrow> plain s s'"
  by (auto simp: pop_float_def result_simps dest: plain_pop)

lemma plain_push_rawI: "plain s t \<Longrightarrow> plain s (push_raw v r t)"
  by (auto simp: push_raw_def plain_def control_def tags_ok_def)

lemma plain_pushI: "plain s t \<Longrightarrow> plain s (push v r t)"
  by (simp add: push_def plain_push_rawI)

lemma plain_push_float: "push_float x s = Inr s' \<Longrightarrow> plain s s'"
  by (auto simp: push_float_def result_simps intro: plain_push_rawI)

lemma plain_set_local: "set_local i v s = Inr s' \<Longrightarrow> plain s s'"
  by (auto simp: set_local_def plain_def control_def tags_ok_def split: if_splits)

lemma plain_set_local_float: "set_local_float i v s = Inr s' \<Longrightarrow> plain s s'"
  by (auto simp: set_local_float_def result_simps dest!: plain_set_local intro: plain_trans)

lemma plain_write_word: "write_word a v s = Inr s' \<Longrightarrow> plain s s'"
  by (auto simp: write_word_def plain_def control_def tags_ok_def split: if_splits)

lemma slice_assign_sel [simp]:
  "stack (slice_assign lo hi d s) = stack s" "stack_is_ref (slice_assign lo hi d s) = stack_is_ref s"
  "call_stack (slice_assign lo hi d s) = call_stack s" "frame_base (slice_assign lo hi d s) = frame_base s"
  "current_fn (slice_assign lo hi d s) = current_fn s" "locals (slice_assign lo hi d s) = locals s"
  by (simp_all add: slice_assign_def Let_def)

lemma plain_slice_assign: "plain s (slice_assign lo hi d s)"
  by (simp add: plain_def control_def tags_ok_def)

lemma plain_foldR:
  assumes "foldR f xs s = Inr s'" and "\<And>x t t'. x \<in> set xs \<Longrightarrow> f x t = Inr t' \<Longrightarrow> plain t t'"
  shows "plain s s'"
  using assms
proof (induction xs arbitrary: s)
  case (Cons x xs)
  then obtain t where t: "f x s = Inr t" "foldR f xs t = Inr s'" by (auto simp: result_simps)
  have "plain s t" by (rule Cons.prems(2) [OF _ t(1)]) simp
  moreover have "plain t s'"
  proof (rule Cons.IH [OF t(2)])
    show "plain u u'" if "y \<in> set xs" "f y u = Inr u'" for y u u'
      by (rule Cons.prems(2) [OF _ that(2)]) (use that(1) in simp)
  qed
  ultimately show ?case by (rule plain_trans)
qed simp

section \<open>The collector keeps the control state\<close>

lemma plain_set_mark: "set_mark b m s = Inr s' \<Longrightarrow> plain s s'"
  by (auto simp: set_mark_Inr plain_def control_def tags_ok_def)

lemma plain_mark_loop: "mark_loop P starts pend s = Inr s' \<Longrightarrow> plain s s'"
proof (induction P starts pend s rule: mark_loop.induct)
  case (1 P starts pend s)
  show ?case
  proof (cases pend)
    case Nil
    with "1.prems" show ?thesis by (simp add: mark_loop.simps)
  next
    case (Cons v rest)
    note run = "1.prems" [unfolded Cons, unfolded mark_loop.simps [of P starts "v # rest" s] list.case]
    show ?thesis
    proof (cases "v = 0")
      case True
      with run "1.IH"(1) [OF Cons True] show ?thesis by simp
    next
      case False
      with run obtain found where found: "containing_object P s v starts = Inr found"
        by (auto simp: result_simps)
      show ?thesis
      proof (cases found)
        case None
        with run found False "1.IH"(2) [OF Cons False found None] show ?thesis by simp
      next
        case (Some start)
        with run found False obtain m where m: "is_marked s (start - HEADER_BYTES) = Inr m"
          by (auto simp: result_simps)
        show ?thesis
        proof (cases m)
          case True
          with run found False Some m "1.IH"(3) [OF Cons False found Some m] show ?thesis by simp
        next
          case nm: False
          with run found False Some m obtain s1 cs where
              s1: "set_mark (start - HEADER_BYTES) True s = Inr s1"
            and cs: "children P s1 (start - HEADER_BYTES) = Inr cs"
            and rest: "mark_loop P starts (rev cs @ rest) s1 = Inr s'"
            by (auto simp: result_simps)
          from "1.IH"(4) [OF Cons False found Some m nm s1 cs rest] plain_set_mark [OF s1]
          show ?thesis by (blast intro: plain_trans)
        qed
      qed
    qed
  qed
qed

lemma length_move_locals: "move_locals P mv i ls = Inr ls' \<Longrightarrow> length ls' = length ls"
proof -
  have "length ls' = length ls" if "foldR (move_slot mv) slots ls = Inr ls'" for slots
    by (rule foldR_invariant [OF that]) (auto simp: move_slot_def result_simps split: if_splits)
  then show "move_locals P mv i ls = Inr ls' \<Longrightarrow> length ls' = length ls"
    by (auto simp: move_locals_def split: if_splits)
qed

lemma mapR_move_frame_shape:
  "mapR (move_frame P mv) fs = Inr fs' \<Longrightarrow>
    map (\<lambda>f. (return_pc f, stack_base f, fn_index f, length (frame_locals f))) fs'
    = map (\<lambda>f. (return_pc f, stack_base f, fn_index f, length (frame_locals f))) fs"
proof (induction fs arbitrary: fs')
  case (Cons f fs)
  then show ?case
    by (auto simp: result_simps move_frame_def length_move_locals)
qed simp

lemma length_move_tagged: "move_tagged mv rs vs = Inr vs' \<Longrightarrow> length vs' = length vs"
  by (induction mv rs vs arbitrary: vs' rule: move_tagged.induct)
    (auto simp: result_simps split: if_splits)

lemma plain_update_block: "update_block P fw starts b s = Inr s' \<Longrightarrow> plain s s'"
proof -
  have "plain t t'" if "update_word P fw starts a t = Inr t'" for a and t t' :: "'a vm"
    using that by (auto simp: update_word_def result_simps dest: plain_write_word)
  then show "update_block P fw starts b s = Inr s' \<Longrightarrow> plain s s'"
    by (auto simp: update_block_def result_simps split: if_splits intro: plain_foldR)
qed

lemma plain_update_blocks: "update_blocks P fw starts a s = Inr s' \<Longrightarrow> plain s s'"
proof (induction P fw starts a s rule: update_blocks.induct)
  case (1 P fw starts a s)
  show ?case
  proof (cases "a < heap_ptr s")
    case True
    with "1.prems" obtain s1 e where s1: "update_block P fw starts a s = Inr s1"
      and e: "block_end P s1 a = Inr e" and rest: "update_blocks P fw starts e s1 = Inr s'"
      by (subst (asm) update_blocks.simps) (auto simp: result_simps)
    from "1.IH" [OF True s1 e rest] plain_update_block [OF s1] show ?thesis
      by (blast intro: plain_trans)
  next
    case False
    with "1.prems" show ?thesis by (subst (asm) update_blocks.simps) simp
  qed
qed

lemma plain_update_references:
  assumes "update_references P fw starts s = Inr s'"
  shows "plain s s'"
proof -
  obtain ls fs vs lts vrs where *: "move_locals P (moved P s fw starts) (current_fn s) (locals s) = Inr ls"
      "mapR (move_frame P (moved P s fw starts)) (rev (call_stack s)) = Inr fs"
      "move_tagged (moved P s fw starts) (rev (stack_is_ref s)) (rev (stack s)) = Inr vs"
    and u: "update_blocks P fw starts HEAP_START (s\<lparr>locals := ls, call_stack := rev fs, stack := rev vs,
        literals := lts, variants := vrs\<rparr>) = Inr s'"
    using assms by (auto simp: update_references_def Let_def result_simps)
  have "plain s (s\<lparr>locals := ls, call_stack := rev fs, stack := rev vs, literals := lts, variants := vrs\<rparr>)"
  proof -
    let ?F = "\<lambda>f. (return_pc f, stack_base f, fn_index f, length (frame_locals f))"
    have "map ?F (rev fs) = rev (map ?F fs)" by (simp only: rev_map)
    also have "\<dots> = rev (map ?F (rev (call_stack s)))" by (simp only: mapR_move_frame_shape [OF *(2)])
    also have "\<dots> = map ?F (call_stack s)" by (simp only: rev_map rev_rev_ident)
    finally have "map ?F (rev fs) = map ?F (call_stack s)" .
    moreover have "length (rev vs) = length (stack s)" using length_move_tagged [OF *(3)] by simp
    ultimately show ?thesis
      using length_move_locals [OF *(1)] by (simp add: plain_def control_def tags_ok_def)
  qed
  with plain_update_blocks [OF u] show ?thesis by (blast intro: plain_trans)
qed

lemma plain_slide_step:
  assumes "slide_step P fw b (s, p) = Inr (s', p')"
  shows "plain s s'"
proof -
  obtain n m where n: "payload_size P s b = Inr n" and m: "is_marked s b = Inr m"
    using assms unfolding slide_step_def Let_def split by (simp only: bindR_eq_Inr) blast
  note run = assms [unfolded slide_step_def Let_def split n m bindR_simps]
  show ?thesis
  proof (cases m)
    case False
    with run show ?thesis by (auto simp: plain_def control_def tags_ok_def)
  next
    case True
    with run obtain d where d: "fw (b + HEADER_BYTES) = Some d"
      by (cases "fw (b + HEADER_BYTES)") simp_all
    define s1 where "s1 = (if d - HEADER_BYTES \<noteq> b
      then (slice_assign (d - HEADER_BYTES) (d - HEADER_BYTES + (HEADER_BYTES + n))
             (heap_slice s b (b + (HEADER_BYTES + n))) s)
             \<lparr>stats := (stats s)\<lparr>objects_moved := objects_moved (stats s) + 1\<rparr>\<rparr>
      else s)"
    have "set_mark (d - HEADER_BYTES) False s1 = Inr s'"
      using run True unfolding d option.case s1_def [symmetric]
      by (auto simp only: bindR_eq_Inr if_False not_True_eq_False Inr_inject Pair_inject)
    then have "plain s1 s'" by (rule plain_set_mark)
    moreover have "plain s s1"
      by (simp add: s1_def plain_def control_def tags_ok_def)
    ultimately show ?thesis by (blast intro: plain_trans)
  qed
qed

lemma plain_slide: 
  assumes "slide P fw s = Inr s'"
  shows "plain s s'"
proof -
  obtain bs s1 tp where fold: "foldR (slide_step P fw) bs (s, HEAP_START) = Inr (s1, tp)"
    and s': "s' = (if tp < heap_ptr s1 then slice_assign tp (heap_ptr s1)
        (replicate (heap_ptr s1 - tp) 0) s1 else s1)\<lparr>heap_ptr := tp\<rparr>"
    using assms by (auto simp: slide_def result_simps Let_def)
  have "plain s (fst (s1, tp))"
  proof (rule foldR_invariant [OF fold, where I = "\<lambda>st. plain s (fst st)"])
    show "plain s (fst r')" if "plain s (fst r)" "slide_step P fw b r = Inr r'" for b r r'
      using that plain_slide_step [of P fw b "fst r" "snd r" "fst r'" "snd r'"]
      by (auto intro: plain_trans)
  qed simp
  moreover have "plain s1 s'"
    by (simp add: s' plain_def control_def tags_ok_def)
  ultimately show ?thesis by (auto intro: plain_trans)
qed

lemma plain_collect:
  assumes "collect P s = Inr s'"
  shows "plain s s'"
proof -
  define s0 where "s0 = s\<lparr>stats := (stats s)\<lparr>collections := collections (stats s) + 1\<rparr>\<rparr>"
  obtain starts s1 fw s2 where m: "foldR (mark_from P starts) (roots P s0) s0 = Inr s1"
    and u: "update_references P fw starts s1 = Inr s2" and sl: "slide P fw s2 = Inr s'"
    using assms unfolding collect_def Let_def s0_def [symmetric] by (auto simp: result_simps)
  have "plain s s0" by (simp add: s0_def plain_def control_def tags_ok_def)
  moreover have "plain s0 s1"
    using m by (rule plain_foldR) (auto simp: mark_from_def dest: plain_mark_loop)
  moreover note plain_update_references [OF u] plain_slide [OF sl]
  ultimately show ?thesis by (blast intro: plain_trans)
qed

section \<open>Allocation and the instruction families\<close>

lemma plain_bump: "bump n k d s = Inr (r, s') \<Longrightarrow> plain s s'"
  by (auto simp: bump_eq carve_def plain_def control_def tags_ok_def split: if_splits)

lemma plain_reserve:
  assumes "reserve P n k d s = Inr (a, s')"
  shows "plain s s'"
proof -
  define m where "m = (let p0 = max n MIN_PAYLOAD in if odd p0 then p0 + 1 else p0)"
  obtain got s1 where b: "bump m k d s = Inr (got, s1)"
    and rest: "(case got of Some addr \<Rightarrow> Inr (addr, s1)
      | None \<Rightarrow> bindR (collect P s1) (\<lambda>s2. bindR (bump m k d s2) (\<lambda>(again, s3). case again of
          Some addr \<Rightarrow> Inr (addr, s3) | None \<Rightarrow> fault OutOfMemory))) = Inr (a, s')"
    using assms unfolding reserve_def m_def Let_def by (auto simp only: bindR_eq_Inr split: prod.splits)
  show ?thesis
  proof (cases got)
    case None
    with rest obtain s2 again where "collect P s1 = Inr s2" "bump m k d s2 = Inr (again, s')"
      by (auto simp: result_simps split: option.splits)
    with plain_bump [OF b] show ?thesis
      by (blast intro: plain_trans dest: plain_collect plain_bump)
  next
    case (Some addr)
    with rest plain_bump [OF b] show ?thesis by simp
  qed
qed

lemma plain_zero_words: "zero_words a n s = Inr s' \<Longrightarrow> plain s s'"
  unfolding zero_words_def by (erule plain_foldR) (rule plain_write_word)

lemma plain_alloc_struct: "alloc_struct P t s = Inr (a, s') \<Longrightarrow> plain s s'"
  unfolding alloc_struct_def
  by (auto simp: result_simps split: if_splits option.splits
      dest!: plain_reserve plain_zero_words intro: plain_trans)

lemma plain_alloc_array: "alloc_array P n r s = Inr (a, s') \<Longrightarrow> plain s s'"
  unfolding alloc_array_def Let_def
  by (simp only: split: if_splits)
    (auto simp: result_simps dest!: plain_reserve plain_zero_words intro: plain_trans)

lemma plain_alloc_raw: "alloc_raw P n s = Inr (a, s') \<Longrightarrow> plain s s'"
  unfolding alloc_raw_def Let_def
  by (simp only: split: if_splits)
    (auto simp: result_simps dest!: plain_reserve plain_zero_words intro: plain_trans)

lemma plain_write_byte: "write_byte a x s = Inr s' \<Longrightarrow> plain s s'"
  by (auto simp: write_byte_def plain_def control_def tags_ok_def split: if_splits)

lemma plain_alloc_string:
  assumes "alloc_string P d s = Inr (a, s')"
  shows "plain s s'"
proof -
  have "bindR (reserve P (length d) KIND_STRING (length d) s) (\<lambda>(addr, s1).
      bindR (if odd (length d) then write_byte (addr + length d) 0 (slice_assign addr (addr + length d) d s1)
             else Inr (slice_assign addr (addr + length d) d s1)) (\<lambda>s3. Inr (addr, s3))) = Inr (a, s')"
    using assms unfolding alloc_string_def Let_def by (simp split: if_split_asm)
  then obtain addr s1 where r: "reserve P (length d) KIND_STRING (length d) s = Inr (addr, s1)"
    and w: "(if odd (length d) then write_byte (addr + length d) 0 (slice_assign addr (addr + length d) d s1)
      else Inr (slice_assign addr (addr + length d) d s1)) = Inr s'"
    by (auto simp: bindR_eq_Inr split del: if_split)
  have "plain (slice_assign addr (addr + length d) d s1) s'"
    using w plain_write_byte by (cases "odd (length d)") auto
  with plain_reserve [OF r] plain_slice_assign [of s1] show ?thesis by (blast intro: plain_trans)
qed

lemma plain_string_from_text: "string_from_text P t w s = Inr (a, s') \<Longrightarrow> plain s s'"
  by (auto simp: string_from_text_def result_simps dest: plain_alloc_string)

lemma plain_push_new:
  assumes "push_new r = Inr s'" and "\<And>a t. r = Inr (a, t) \<Longrightarrow> plain s t"
  shows "plain s s'"
  using assms by (auto simp: push_new_def result_simps intro: plain_pushI)

lemma plain_pop2: "pop2 s = Inr (a, b, s') \<Longrightarrow> plain s s'"
  by (auto simp: pop2_def result_simps dest!: plain_pop intro: plain_trans)

lemma plain_pop2_tagged: "pop2_tagged s = Inr (a, b, s') \<Longrightarrow> plain s s'"
  by (auto simp: pop2_tagged_def result_simps dest!: plain_pop_tagged intro: plain_trans)

lemma plain_pop2_float: "pop2_float s = Inr (a, b, s') \<Longrightarrow> plain s s'"
  by (auto simp: pop2_float_def result_simps dest!: plain_pop_float intro: plain_trans)

lemma plain_pop_string: "pop_string s = Inr (d, s') \<Longrightarrow> plain s s'"
  by (auto simp: pop_string_def result_simps dest: plain_pop)

lemma plain_pop_text: "pop_text s = Inr (d, s') \<Longrightarrow> plain s s'"
  by (auto simp: pop_text_def result_simps dest: plain_pop_string)

lemma plain_file_op: "file_op act s = (r, s') \<Longrightarrow> plain s s'"
  by (auto simp: file_op_def plain_def control_def tags_ok_def split: prod.splits sum.splits)

lemma plain_file_content: "file_content ops p s = Inr (d, s') \<Longrightarrow> plain s s'"
  by (auto simp: file_content_def result_simps dest: plain_file_op split: prod.splits option.splits)

lemma plain_io: "plain s (s\<lparr>io := w\<rparr>)"
  by (simp add: plain_def control_def tags_ok_def)

lemma plain_io_print: "plain s t \<Longrightarrow> plain s (io_print ops x t)"
  using plain_io [of t] by (auto simp: io_print_def intro: plain_trans)

lemma plain_memcpy: "memcpy_locals d a n s = Inr s' \<Longrightarrow> plain s s'"
  unfolding memcpy_locals_def
  by (erule plain_foldR) (auto simp: result_simps dest: plain_set_local)

lemma plain_memset: "memset_locals d v n s = Inr s' \<Longrightarrow> plain s s'"
  unfolding memset_locals_def by (erule plain_foldR) (rule plain_set_local)

lemmas plain_dests = plain_pop plain_pop_tagged plain_pop_float plain_pop2 plain_pop2_tagged
  plain_pop2_float plain_pop_string plain_pop_text plain_push_float plain_set_local
  plain_set_local_float plain_write_word plain_collect plain_file_op plain_file_content
  plain_memcpy plain_memset

text \<open>Each family, by splitting its chain and following its sequence of steps.\<close>

lemma plain_exec_int: "exec_int P i s = Some (Inr s') \<Longrightarrow> plain s s'"
  unfolding exec_int_def
  by (auto simp: result_simps Let_def split: if_splits dest!: plain_dests intro!: plain_pushI
      intro: plain_trans)

lemma plain_exec_float: "exec_float i s = Some (Inr s') \<Longrightarrow> plain s s'"
  unfolding exec_float_def
  by (auto simp: result_simps split: if_splits option.splits dest!: plain_dests
      intro!: plain_pushI plain_push_rawI intro: plain_trans)

lemma plain_exec_compare: "exec_compare i s = Some (Inr s') \<Longrightarrow> plain s s'"
  unfolding exec_compare_def
  by (auto simp: result_simps split: if_splits dest!: plain_dests intro!: plain_pushI
      intro: plain_trans)

lemma plain_push_alloc_string:
  "push_new (alloc_string P d t) = Inr s' \<Longrightarrow> plain t s'"
  by (erule plain_push_new) (rule plain_alloc_string)

lemma plain_push_from_text:
  "push_new (string_from_text P x w t) = Inr s' \<Longrightarrow> plain t s'"
  by (erule plain_push_new) (rule plain_string_from_text)

lemma plain_push_alloc:
  "push_new (alloc_raw P n t) = Inr s' \<Longrightarrow> plain t s'"
  "push_new (alloc_array P n r t) = Inr s' \<Longrightarrow> plain t s'"
  "push_new (alloc_struct P n t) = Inr s' \<Longrightarrow> plain t s'"
  using plain_alloc_raw plain_alloc_array plain_alloc_struct by (blast intro: plain_push_new)+

lemmas plain_alloc_dests = plain_push_alloc_string plain_push_from_text plain_push_alloc

lemma plain_exec_string: "exec_string P i s = Some (Inr s') \<Longrightarrow> plain s s'"
  unfolding exec_string_def
  by (auto simp: result_simps Let_def split: if_splits dest!: plain_dests plain_alloc_dests
      intro!: plain_pushI intro: plain_trans)

lemma plain_exec_locals: "exec_locals i s = Some (Inr s') \<Longrightarrow> plain s s'"
  unfolding exec_locals_def
  by (auto simp: result_simps Let_def split: if_splits dest!: plain_dests intro!: plain_pushI
      intro: plain_trans)

lemma plain_exec_stack: "exec_stack i s = Some (Inr s') \<Longrightarrow> plain s s'"
  unfolding exec_stack_def
  by (auto simp: result_simps split: if_splits list.splits dest!: plain_dests
      intro!: plain_pushI plain_push_rawI intro: plain_trans)

lemma plain_exec_print: "exec_print ops i s = Some (Inr s') \<Longrightarrow> plain s s'"
  unfolding exec_print_def
  by (auto simp: result_simps split: if_splits dest!: plain_dests intro!: plain_io_print)

lemma plain_exec_object: "exec_object P i s = Some (Inr s') \<Longrightarrow> plain s s'"
  unfolding exec_object_def
  by (auto simp: result_simps split: if_splits dest!: plain_dests plain_alloc_dests
      intro!: plain_pushI intro: plain_trans)

lemma plain_exec_variant: "exec_variant P i s = Some (Inr s') \<Longrightarrow> plain s s'"
  unfolding exec_variant_def
  by (auto simp: result_simps split: if_splits dest!: plain_dests plain_alloc_dests
      intro!: plain_pushI intro: plain_trans)

lemma plain_exec_input: "exec_input ops P i s = Some (Inr s') \<Longrightarrow> plain s s'"
  unfolding exec_input_def
  by (auto simp: result_simps Let_def split: if_splits prod.splits dest!: plain_dests plain_alloc_dests
      intro!: plain_pushI intro: plain_trans plain_io)

lemma plain_push_ok: "plain s t \<Longrightarrow> plain s (push_ok f (file_op act t))"
  using plain_file_op [of act t] unfolding push_ok_def
  by (intro plain_pushI) (metis plain_trans prod.collapse)

lemma plain_write_bytes: "write_bytes a d s = Inr s' \<Longrightarrow> plain s s'"
  unfolding write_bytes_def by (erule plain_foldR) (auto dest: plain_write_word)

lemma plain_exec_file: "exec_file ops P i s = Some (Inr s') \<Longrightarrow> plain s s'"
  unfolding exec_file_def
  by (auto simp: result_simps split: if_splits dest!: plain_dests plain_alloc_dests
      plain_alloc_array plain_write_bytes intro!: plain_pushI plain_push_ok intro: plain_trans)

lemma plain_exec_heap: "exec_heap P i s = Some (Inr s') \<Longrightarrow> plain s s'"
  unfolding exec_heap_def
  by (auto simp: result_simps split: if_splits dest!: plain_dests intro!: plain_pushI
      intro: plain_trans)

lemma plain_exec_plain:
  assumes "exec_plain ops P i s = Some (Inr s')"
  shows "plain s s'"
proof -
  have orD: "or_else x y = Some r \<Longrightarrow> x = Some r \<or> y = Some r" for x y :: "(vm_error + 'a vm) option" and r
    by (cases x) simp_all
  from assms have "exec_int P i s = Some (Inr s') \<or> exec_float i s = Some (Inr s')
      \<or> exec_compare i s = Some (Inr s') \<or> exec_string P i s = Some (Inr s')
      \<or> exec_locals i s = Some (Inr s') \<or> exec_stack i s = Some (Inr s')
      \<or> exec_print ops i s = Some (Inr s') \<or> exec_variant P i s = Some (Inr s') \<or> exec_object P i s = Some (Inr s')
      \<or> exec_input ops P i s = Some (Inr s') \<or> exec_file ops P i s = Some (Inr s')
      \<or> exec_heap P i s = Some (Inr s')"
    unfolding exec_plain_def by (auto dest!: orD)
  then show ?thesis
    by (elim disjE) (erule plain_exec_int plain_exec_float plain_exec_compare plain_exec_string
      plain_exec_locals plain_exec_stack plain_exec_print plain_exec_variant plain_exec_object plain_exec_input
      plain_exec_file plain_exec_heap)+
qed

section \<open>Calls and returns\<close>

lemma pop_n_stack:
  "pop_n n s = Inr (vs, s') \<Longrightarrow> plain s s' \<and> stack s = vs @ stack s' \<and> length vs = n
    \<and> pc s' = pc s \<and> locals s' = locals s \<and> call_stack s' = call_stack s"
proof (induction n arbitrary: s vs)
  case (Suc n)
  then obtain v s1 ws where v: "pop s = Inr (v, s1)" and ws: "pop_n n s1 = Inr (ws, s')" "vs = v # ws"
    by (auto simp: result_simps)
  have "stack s = v # stack s1 \<and> pc s1 = pc s \<and> locals s1 = locals s \<and> call_stack s1 = call_stack s"
    using v by (auto simp: pop_def pop_tagged_def result_simps split: if_splits list.splits)
  with Suc.IH [OF ws(1)] plain_pop [OF v] ws(2) show ?case by (auto intro: plain_trans)
qed simp

lemma enter_functionE:
  assumes "enter_function P f nm s = Inr s'"
  obtains vs s1 where "0 \<le> f" "nat f < length (fns P)" "pop_n (num_params (fns P ! nat f)) s = Inr (vs, s1)"
    and "s' = s1\<lparr>call_stack := \<lparr>return_pc = pc s1, frame_locals = locals s1, stack_base = frame_base s1,
          fn_index = current_fn s1\<rparr> # call_stack s1,
        current_fn := nat f,
        locals := place_args (param_words (fns P ! nat f)) (rev vs) 0 (replicate (num_locals (fns P ! nat f)) 0),
        frame_base := length (stack s1), pc := int (entry_pc (fns P ! nat f))\<rparr>"
  using assms by (auto simp: enter_function_def Let_def result_simps split: if_splits)

lemma frames_ok_enter:
  assumes "enter_function P f nm s = Inr s'" and "frames_ok s"
  shows "frames_ok s'"
proof (rule enter_functionE [OF assms(1)])
  fix vs s1
  assume p: "pop_n (num_params (fns P ! nat f)) s = Inr (vs, s1)"
    and s': "s' = s1\<lparr>call_stack := \<lparr>return_pc = pc s1, frame_locals = locals s1, stack_base = frame_base s1,
          fn_index = current_fn s1\<rparr> # call_stack s1,
        current_fn := nat f,
        locals := place_args (param_words (fns P ! nat f)) (rev vs) 0 (replicate (num_locals (fns P ! nat f)) 0),
        frame_base := length (stack s1), pc := int (entry_pc (fns P ! nat f))\<rparr>"
  have "frames_ok s1" using plain_frames_ok assms(2) pop_n_stack [OF p] by blast
  then show ?thesis unfolding s' by (auto simp: frames_ok_def tags_ok_def)
qed

lemma frames_ok_ret:
  assumes "exec_ret s = Inr (Running s')" and "frames_ok s"
  shows "frames_ok s'"
  using assms
  by (auto simp: exec_ret_def Let_def push_raw_def frames_ok_def tags_ok_def
      split: if_splits list.splits)

text \<open>One step of the machine, and the states a run goes through.\<close>

inductive vm_step :: "'w io_ops \<Rightarrow> program \<Rightarrow> 'w vm \<Rightarrow> 'w vm \<Rightarrow> bool" for ops P where
  stepI: "step ops P s = Inr (Running s') \<Longrightarrow> vm_step ops P s s'"

inductive reaches :: "'w io_ops \<Rightarrow> program \<Rightarrow> 'w vm \<Rightarrow> 'w vm \<Rightarrow> bool" for ops P where
  reach_here: "reaches ops P s s"
| reach_more: "reaches ops P s t \<Longrightarrow> vm_step ops P t u \<Longrightarrow> reaches ops P s u"

inductive_cases vm_stepE [elim]: "vm_step ops P s s'"
inductive_simps vm_step_iff: "vm_step ops P s s'"

lemma exec_cases:
  assumes "exec ops P i s = Inr (Running s')"
  shows "plain s s' \<or> (\<exists>f nm t. plain s t \<and> enter_function P f nm t = Inr s') \<or> exec_ret s = Inr (Running s')"
proof (cases "exec_control P i s")
  case None
  with assms obtain r where "exec_plain ops P i s = Some r" "running r = Inr (Running s')"
    by (auto simp: exec_def split: option.splits)
  then show ?thesis by (auto simp: running_def result_simps dest!: plain_exec_plain)
next
  case (Some r)
  with assms have r: "r = Inr (Running s')" by (simp add: exec_def)
  have "plain t (t\<lparr>pc := n\<rparr>)" for t :: "'a vm" and n
    by (simp add: plain_def control_def tags_ok_def)
  then have jump: "plain s t \<Longrightarrow> plain s (t\<lparr>pc := n\<rparr>)" for t n
    by (blast intro: plain_trans)
  from Some r show ?thesis
    by (auto simp: exec_control_def running_def result_simps jump split: if_splits dest!: plain_pop
        intro: plain_refl)
qed

lemma frames_ok_step:
  assumes "step ops P s = Inr (Running s')" and "frames_ok s"
  shows "frames_ok s'"
proof -
  obtain i where "exec ops P i (s\<lparr>pc := pc s + 1\<rparr>) = Inr (Running s')"
    using assms(1) by (auto simp: step_def split: if_splits option.splits)
  moreover have "frames_ok (s\<lparr>pc := pc s + 1\<rparr>)" using assms(2) by (simp add: frames_ok_def tags_ok_def)
  ultimately show ?thesis
    using exec_cases plain_frames_ok frames_ok_enter frames_ok_ret by metis
qed

lemma frames_ok_reaches: "reaches ops P s t \<Longrightarrow> frames_ok s \<Longrightarrow> frames_ok t"
  by (induction rule: reaches.induct) (auto dest: frames_ok_step)

lemma frames_ok_boot:
  assumes "boot P (new_vm w) = Inr s"
  shows "frames_ok s"
proof -
  obtain idx s1 s2 where s1: "materialise_literals P (new_vm w) = Inr s1"
    and s2: "materialise_variants P s1 = Inr s2"
    and s: "s = s2\<lparr>locals := replicate (num_locals (fns P ! idx)) 0, current_fn := idx,
                    pc := int (entry_pc (fns P ! idx)), frame_base := 0\<rparr>"
    using assms by (auto simp: boot_def result_simps split: option.splits)
  have "plain t t'" if "set_literal P e t = Inr t'" for e and t t' :: "'a vm"
    using that by (auto simp: set_literal_def result_simps plain_def control_def tags_ok_def
        split: prod.splits dest!: plain_alloc_string)
  then have "plain ((new_vm w)\<lparr>literals := replicate
      (if strings P = [] then 0 else Max (fst ` set (strings P)) + 1) NULL_ADDR\<rparr>) s1"
    using s1 unfolding materialise_literals_def Let_def by (auto intro: plain_foldR)
  then have p1: "plain (new_vm w) s1" by (auto simp: plain_def control_def tags_ok_def)
  have "plain t t'" if "set_variant P e t = Inr t'" for e and t t' :: "'a vm"
    using that by (auto simp: set_variant_def result_simps plain_def control_def tags_ok_def
        split: option.splits if_splits dest!: plain_alloc_struct)
  then have "plain (s1\<lparr>variants := replicate (length (structs P)) NULL_ADDR\<rparr>) s2"
    using s2 unfolding materialise_variants_def by (auto intro: plain_foldR)
  then have "plain s1 s2" by (auto simp: plain_def control_def tags_ok_def)
  with p1 have "plain (new_vm w) s2" by (rule plain_trans)
  then have "length (stack_is_ref s2) = length (stack s2)" "call_stack s2 = []"
    by (auto simp: plain_def control_def tags_ok_def new_vm_def)
  then show ?thesis by (simp add: s frames_ok_def tags_ok_def)
qed

text \<open>
  Claim C8. In every state a program reaches from a fresh machine, the operand stack and its
  reference tags have the same height, no frame's part of the stack starts above the stack's top,
  and the bases of the suspended frames descend: no function can reach its caller's operands.
\<close>

theorem stack_discipline:
  assumes "boot P (new_vm w) = Inr s" and "reaches ops P s t"
  shows "length (stack_is_ref t) = length (stack t) \<and> frame_base t \<le> length (stack t)
    \<and> sorted_wrt (\<ge>) (frame_base t # map stack_base (call_stack t))"
  using frames_ok_reaches [OF assms(2) frames_ok_boot [OF assms(1)]]
  by (simp add: frames_ok_def tags_ok_def)

definition tiny_program :: program where
  "tiny_program = \<lparr>code = [\<lparr>op = PUSH_INT, arg = Some 7\<rparr>, \<lparr>op = RET, arg = None\<rparr>],
     fns = [\<lparr>fn_name = lit ''main'', entry_pc = 0, num_locals = 0, num_params = 0, ref_slots = [],
             param_words = [], fn_locals = [], source_file = []\<rparr>],
     strings = [], structs = [], srcmap = \<lparr>pcs = [], positions = []\<rparr>, prog_args = []\<rparr>"

lemma tiny_boot: "boot tiny_program (new_vm w) = Inr (new_vm w)"
  by (simp add: boot_def tiny_program_def func_index_def materialise_literals_def
      materialise_variants_def new_vm_def)

definition no_io :: capture where
  "no_io = capture_init [] (\<lambda>_. None)"

theorem stack_discipline_witness:
  "reaches capture_ops tiny_program (new_vm no_io) (push 7 False ((new_vm no_io)\<lparr>pc := 1\<rparr>))
    \<and> length (stack_is_ref (push 7 False ((new_vm no_io)\<lparr>pc := 1\<rparr>)))
      = length (stack (push 7 False ((new_vm no_io)\<lparr>pc := 1\<rparr>)))"
proof -
  have "step capture_ops tiny_program (new_vm no_io) = Inr (Running (push 7 False ((new_vm no_io)\<lparr>pc := 1\<rparr>)))"
    by (simp add: step_def tiny_program_def new_vm_def py_index_def exec_def exec_control_def
        exec_plain_def exec_int_def operand_def running_def)
  then have "reaches capture_ops tiny_program (new_vm no_io) (push 7 False ((new_vm no_io)\<lparr>pc := 1\<rparr>))"
    by (blast intro: reaches.intros vm_step.intros)
  with stack_discipline [OF tiny_boot this] show ?thesis by blast
qed

text \<open>
  Claim C9. Calling a function and returning from it: the callee starts on an empty part of the
  stack with its arguments consumed and in its leading locals, and the return, which insists on
  exactly one value, resumes the caller behind the call with its own locals, stack and function
  and the value on top.
\<close>

theorem call_return:
  assumes "enter_function P f nm s = Inr s1"
    and "call_stack s2 = call_stack s1" and "frame_base s2 = frame_base s1"
    and "stack s2 = v # drop (num_params (fns P ! nat f)) (stack s)"
    and "stack_is_ref s2 = r # rs"
  shows "frame_base s1 = length (stack s1)
    \<and> locals s1 = place_args (param_words (fns P ! nat f))
         (rev (take (num_params (fns P ! nat f)) (stack s))) 0 (replicate (num_locals (fns P ! nat f)) 0)
    \<and> (\<exists>s3. exec_ret s2 = Inr (Running s3) \<and> pc s3 = pc s \<and> locals s3 = locals s
         \<and> frame_base s3 = frame_base s \<and> current_fn s3 = current_fn s \<and> call_stack s3 = call_stack s
         \<and> stack s3 = v # drop (num_params (fns P ! nat f)) (stack s) \<and> heap s3 = heap s2)"
proof (rule enter_functionE [OF assms(1)])
  fix vs t
  let ?fn = "fns P ! nat f"
  assume p: "pop_n (num_params ?fn) s = Inr (vs, t)"
    and s1: "s1 = t\<lparr>call_stack := \<lparr>return_pc = pc t, frame_locals = locals t, stack_base = frame_base t,
          fn_index = current_fn t\<rparr> # call_stack t,
        current_fn := nat f,
        locals := place_args (param_words ?fn) (rev vs) 0 (replicate (num_locals ?fn) 0),
        frame_base := length (stack t), pc := int (entry_pc ?fn)\<rparr>"
  have t: "stack s = vs @ stack t" "length vs = num_params ?fn" "pc t = pc s" "locals t = locals s"
      "call_stack t = call_stack s" "frame_base t = frame_base s" "current_fn t = current_fn s"
    using pop_n_stack [OF p] by (auto simp: plain_def control_def)
  have "take (num_params ?fn) (stack s) = vs" "drop (num_params ?fn) (stack s) = stack t"
    using t(1,2) by simp_all
  with assms t show ?thesis
    unfolding s1 by (simp add: exec_ret_def push_raw_def)
qed

theorem call_return_witness:
  "\<exists>s1 s3. enter_function tiny_program 0 (lit ''CALL'') (new_vm no_io) = Inr s1
    \<and> exec_ret (push 7 False s1) = Inr (Running s3) \<and> stack s3 = [7]"
proof -
  obtain s1 where s1: "enter_function tiny_program 0 (lit ''CALL'') (new_vm no_io) = Inr s1"
      "stack s1 = []" "stack_is_ref s1 = []"
    by (simp add: enter_function_def tiny_program_def new_vm_def)
  then show ?thesis
    using call_return [OF s1(1), of "push 7 False s1" 7 False "[]"]
    by (auto simp: push_def push_raw_def tiny_program_def new_vm_def mask16_small)
qed

end
