(* ===== verification/Instructions.thy ===== *)
theory Instructions
  imports Frames
begin

text \<open>
  What the instructions compute: the integer instructions refine operations of \<open>16 word\<close>, block
  copies of locals behave like a simultaneous assignment, array and string instructions read back
  what was stored, and files give back what was written.
\<close>

section \<open>Integer instructions are word operations\<close>

definition with_stack :: "nat list \<Rightarrow> bool list \<Rightarrow> 'w vm \<Rightarrow> 'w vm" where
  "with_stack vs rs s = s\<lparr>stack := vs, stack_is_ref := rs\<rparr>"

text \<open>
  The reference: two's complement words, signed division truncating toward zero, shifts with a
  legal count, \<open>None\<close> where the instruction must fault.
\<close>

definition word_binop :: "opcode \<Rightarrow> 16 word \<Rightarrow> 16 word \<Rightarrow> 16 word option" where
  "word_binop c a b =
    (if c = ADD then Some (a + b) else if c = SUB then Some (a - b)
     else if c = MUL then Some (a * b)
     else if c = DIV then (if b = 0 then None else Some (of_int (sint a sdiv sint b)))
     else if c = MOD then (if b = 0 then None else Some (of_int (sint a smod sint b)))
     else if c = XOR then Some (semiring_bit_operations_class.xor a b)
     else if c = AND then Some (semiring_bit_operations_class.and a b)
     else if c = OR then Some (semiring_bit_operations_class.or a b)
     else if c = SHL then
       (if 0 \<le> sint b \<and> sint b \<le> 15 then Some (push_bit (nat (sint b)) a) else None)
     else if c = SHR then
       (if 0 \<le> sint b \<and> sint b \<le> 15 then Some (signed_drop_bit (nat (sint b)) a) else None)
     else None)"

definition binops :: "opcode list" where
  "binops = [ADD, SUB, MUL, DIV, MOD, XOR, AND, OR, SHL, SHR]"

lemma pop_with_stack [simp]:
  "frame_base s \<le> length vs \<Longrightarrow> pop (with_stack (v # vs) (r # rs) s) = Inr (v, with_stack vs rs s)"
  "frame_base s \<le> length vs \<Longrightarrow> pop_tagged (with_stack (v # vs) (r # rs) s) = Inr ((v, r), with_stack vs rs s)"
  by (simp_all add: pop_def pop_tagged_def with_stack_def)

lemma with_stack_sel [simp]:
  "heap (with_stack vs rs s) = heap s" "heap_len (with_stack vs rs s) = heap_len s"
  "frame_base (with_stack vs rs s) = frame_base s" "literals (with_stack vs rs s) = literals s"
  "with_stack us ts (with_stack vs rs s) = with_stack us ts s"
  "read_word (with_stack vs rs s) a = read_word s a"
  by (simp_all add: with_stack_def read_word_def)

lemma push_with_stack [simp]: "push v r (with_stack vs rs s) = with_stack (mask16 v # vs) (r # rs) s"
  by (simp add: push_def push_raw_def with_stack_def)

lemma pop2_with_stack [simp]:
  "frame_base s \<le> length vs \<Longrightarrow>
    pop2 (with_stack (b # a # vs) (rb # ra # rs) s) = Inr (a, b, with_stack vs rs s)"
  "frame_base s \<le> length vs \<Longrightarrow>
    pop2_tagged (with_stack (b # a # vs) (rb # ra # rs) s) = Inr ((a, ra), (b, rb), with_stack vs rs s)"
  by (simp_all add: pop2_def pop2_tagged_def)

lemma word_of_zero: "v < 65536 \<Longrightarrow> word_of v = 0 \<longleftrightarrow> v = 0"
  using word_of_inj [of v 0] by (simp add: word_of_def)

lemma word_of_bits:
  "word_of (semiring_bit_operations_class.and a b) = semiring_bit_operations_class.and (word_of a) (word_of b)"
  "word_of (semiring_bit_operations_class.or a b) = semiring_bit_operations_class.or (word_of a) (word_of b)"
  "word_of (semiring_bit_operations_class.xor a b) = semiring_bit_operations_class.xor (word_of a) (word_of b)"
  unfolding word_of_def by (simp_all only: of_nat_and_eq of_nat_or_eq of_nat_xor_eq)

lemma word_of_push_bit: "word_of (mask16 (push_bit n (int a))) = push_bit n (word_of a)"
  unfolding word_of_mask16 by (simp add: word_of_def push_bit_of_nat of_int_of_nat_eq)

lemma word_of_drop_bit: "word_of (mask16 (drop_bit n (to_signed a))) = signed_drop_bit n (word_of a)"
proof -
  have "sint (signed_drop_bit n (word_of a)) = drop_bit n (to_signed a)"
    by (simp only: sint_signed_drop_bit_eq sint_word_of)
  then have "of_int (sint (signed_drop_bit n (word_of a))) = (of_int (drop_bit n (to_signed a)) :: 16 word)"
    by (simp only:)
  then show ?thesis unfolding word_of_mask16 by (simp add: scast_id)
qed

text \<open>An instruction and the word operation it computes, on a stack with the two operands on top.\<close>

definition refines_word :: "program \<Rightarrow> instruction \<Rightarrow> 'w vm \<Rightarrow> nat list \<Rightarrow> bool list \<Rightarrow> nat \<times> bool \<Rightarrow> nat \<times> bool \<Rightarrow> bool" where
  "refines_word P i s vs rs x y \<longleftrightarrow>
     (case word_binop (op i) (word_of (fst x)) (word_of (fst y)) of
        Some w \<Rightarrow> \<exists>v ref. exec_int P i (with_stack (fst y # fst x # vs) (snd y # snd x # rs) s)
            = Some (Inr (with_stack (v # vs) (ref # rs) s)) \<and> v < 65536 \<and> word_of v = w
            \<and> ref = (op i \<in> {ADD, SUB} \<and> (snd x \<or> snd y))
      | None \<Rightarrow> \<exists>f. exec_int P i (with_stack (fst y # fst x # vs) (snd y # snd x # rs) s) = Some (fault f))"

lemma refines_wordI:
  assumes "exec_int P i (with_stack (b # a # vs) (rb # ra # rs) s) = Some (Inr (push v ref (with_stack vs rs s)))"
    and "word_binop (op i) (word_of a) (word_of b) = Some (of_int v)"
    and "ref = (op i \<in> {ADD, SUB} \<and> (ra \<or> rb))"
  shows "refines_word P i s vs rs (a, ra) (b, rb)"
  unfolding refines_word_def fst_conv snd_conv assms(1,2) option.case
  by (rule exI [of _ "mask16 v"], rule exI [of _ ref]) (simp add: assms(3))

lemma refines_linear:
  assumes "op i \<in> {ADD, SUB, MUL}" and "frame_base s \<le> length vs"
  shows "refines_word P i s vs rs (a, ra) (b, rb)"
proof -
  have arith: "word_of a + word_of b = of_int (int a + int b)"
      "word_of a - word_of b = of_int (int a - int b)" "word_of a * word_of b = of_int (int a * int b)"
    by (simp_all add: word_of_def)
  from assms(1) consider "op i = ADD" | "op i = SUB" | "op i = MUL" by auto
  then show ?thesis
  proof cases
    case 1
    with assms(2) show ?thesis
      by (intro refines_wordI [where v = "int a + int b" and ref = "ra \<or> rb"])
        (simp_all add: exec_int_def word_binop_def arith)
  next
    case 2
    with assms(2) show ?thesis
      by (intro refines_wordI [where v = "int a - int b" and ref = "ra \<or> rb"])
        (simp_all add: exec_int_def word_binop_def arith)
  next
    case 3
    with assms(2) show ?thesis
      by (intro refines_wordI [where v = "int a * int b" and ref = False])
        (simp_all add: exec_int_def word_binop_def arith)
  qed
qed

lemma refines_bits:
  assumes "op i \<in> {XOR, AND, OR}" and "frame_base s \<le> length vs"
  shows "refines_word P i s vs rs (a, ra) (b, rb)"
proof -
  have val: "of_int (int v) = word_of v" for v by (simp add: word_of_def)
  from assms(1) consider "op i = XOR" | "op i = AND" | "op i = OR" by auto
  then show ?thesis
  proof cases
    case 1
    with assms(2) show ?thesis
      by (intro refines_wordI [where v = "int (semiring_bit_operations_class.xor a b)" and ref = False])
        (simp_all add: exec_int_def word_binop_def val word_of_bits del: of_int_of_nat_eq)
  next
    case 2
    with assms(2) show ?thesis
      by (intro refines_wordI [where v = "int (semiring_bit_operations_class.and a b)" and ref = False])
        (simp_all add: exec_int_def word_binop_def val word_of_bits del: of_int_of_nat_eq)
  next
    case 3
    with assms(2) show ?thesis
      by (intro refines_wordI [where v = "int (semiring_bit_operations_class.or a b)" and ref = False])
        (simp_all add: exec_int_def word_binop_def val word_of_bits del: of_int_of_nat_eq)
  qed
qed

lemma refines_division:
  assumes "op i \<in> {DIV, MOD}" and "frame_base s \<le> length vs" and "b < 65536"
  shows "refines_word P i s vs rs (a, ra) (b, rb)"
proof -
  have zero: "word_of b = 0 \<longleftrightarrow> to_signed b = 0"
    using assms(3) by (simp add: word_of_zero to_signed_zero_iff)
  show ?thesis
  proof (cases "to_signed b = 0")
    case True
    with assms show ?thesis by (auto simp: refines_word_def exec_int_def word_binop_def zero)
  next
    case False
    with assms show ?thesis
      by (elim insertE emptyE; intro refines_wordI [where ref = False])
        (simp_all add: exec_int_def word_binop_def zero sint_word_of trunc_div_eq_sdiv minus_sdiv_mult_eq_smod)
  qed
qed

lemma refines_shift:
  assumes "op i \<in> {SHL, SHR}" and "frame_base s \<le> length vs"
  shows "refines_word P i s vs rs (a, ra) (b, rb)"
proof (cases "0 \<le> to_signed b \<and> to_signed b \<le> 15")
  case False
  with assms show ?thesis
    by (elim insertE emptyE) (auto simp add: refines_word_def exec_int_def word_binop_def sint_word_of Let_def)
next
  case True
  with assms show ?thesis
    by (elim insertE emptyE; intro refines_wordI [where ref = False])
      (simp_all add: exec_int_def word_binop_def sint_word_of Let_def
        word_of_push_bit [unfolded word_of_mask16, symmetric] word_of_drop_bit [unfolded word_of_mask16, symmetric])
qed

lemma refines_binops:
  assumes "op i \<in> set binops" and "frame_base s \<le> length vs" and "b < 65536"
  shows "refines_word P i s vs rs (a, ra) (b, rb)"
proof -
  from assms(1) have "op i \<in> {ADD, SUB, MUL} \<or> op i \<in> {XOR, AND, OR} \<or> op i \<in> {DIV, MOD} \<or> op i \<in> {SHL, SHR}"
    by (auto simp: binops_def)
  then show ?thesis using refines_linear refines_bits refines_division refines_shift assms(2,3) by metis
qed



section \<open>Block copies of locals\<close>

definition locals_ok :: "'w vm \<Rightarrow> bool" where
  "locals_ok s \<longleftrightarrow> (\<forall>v \<in> set (locals s). v < 65536)"

text \<open>One step of the copy, in range.\<close>

lemma copy_step:
  assumes "locals_ok s" and "src + k < length (locals s)" and "dst + k < length (locals s)"
  shows "bindR (get_local s (int src + int k)) (\<lambda>v. set_local (int dst + int k) (int v) s)
    = Inr (s\<lparr>locals := (locals s)[dst + k := locals s ! (src + k)]\<rparr>)"
proof -
  have "locals s ! (src + k) < 65536" using assms by (auto simp: locals_ok_def)
  then show ?thesis
    using assms(2,3) by (simp add: get_local_def set_local_def nat_add_distrib flip: of_nat_add)
qed

text \<open>The copied block as a whole, every slot read from the old locals.\<close>

definition block_copied :: "nat \<Rightarrow> nat \<Rightarrow> (nat \<Rightarrow> bool) \<Rightarrow> nat list \<Rightarrow> nat list" where
  "block_copied dst src K ls =
     map (\<lambda>i. if dst \<le> i \<and> K (i - dst) then ls ! (src + (i - dst)) else ls ! i) [0..<length ls]"

lemma length_block_copied [simp]: "length (block_copied dst src K ls) = length ls"
  by (simp add: block_copied_def)

lemma nth_block_copied: "i < length ls \<Longrightarrow> block_copied dst src K ls ! i =
    (if dst \<le> i \<and> K (i - dst) then ls ! (src + (i - dst)) else ls ! i)"
  by (simp add: block_copied_def)

lemma locals_ok_block:
  assumes "locals_ok s" and "\<And>k. K k \<Longrightarrow> src + k < length (locals s)"
  shows "locals_ok (s\<lparr>locals := block_copied dst src K (locals s)\<rparr>)"
proof -
  have "ls' ! i < 65536" if "i < length (locals s)" "ls' = block_copied dst src K (locals s)" for i ls'
  proof -
    have "src + (i - dst) < length (locals s)" if "K (i - dst)" using assms(2) that by blast
    with that assms(1) show ?thesis by (auto simp: nth_block_copied locals_ok_def)
  qed
  then show ?thesis by (auto simp: locals_ok_def in_set_conv_nth)
qed

text \<open>
  A pass over the slots in an order in which no slot is read after it was overwritten gives the
  simultaneous copy.
\<close>

lemma copy_pass:
  assumes "locals_ok s" and "src + n \<le> length (locals s)" and "dst + n \<le> length (locals s)"
    and "set ks \<subseteq> {..<n}" and "distinct ks"
    and safe: "sorted_wrt (\<lambda>j k. dst + j \<noteq> src + k) ks"
  shows "foldR (\<lambda>k t. bindR (get_local t (int src + int k)) (\<lambda>v. set_local (int dst + int k) (int v) t)) ks s
    = Inr (s\<lparr>locals := block_copied dst src (\<lambda>k. k \<in> set ks) (locals s)\<rparr>)"
  using assms
proof (induction ks rule: rev_induct)
  case Nil
  then show ?case by (simp add: block_copied_def map_nth)
next
  case (snoc k ks)
  let ?t = "s\<lparr>locals := block_copied dst src (\<lambda>k. k \<in> set ks) (locals s)\<rparr>"
  have k: "k < n" and apart: "\<And>j. j \<in> set ks \<Longrightarrow> dst + j \<noteq> src + k"
    using snoc.prems(4,6) by (auto simp: sorted_wrt_append)
  have old: "locals ?t ! (src + k) = locals s ! (src + k)"
  proof -
    have "\<not> (dst \<le> src + k \<and> src + k - dst \<in> set ks)" using apart [of "src + k - dst"] by auto
    then show ?thesis using k snoc.prems(2) by (auto simp: nth_block_copied)
  qed
  have "locals_ok ?t"
    using snoc.prems(1,2,4) by (intro locals_ok_block) auto
  then have "bindR (get_local ?t (int src + int k)) (\<lambda>v. set_local (int dst + int k) (int v) ?t)
      = Inr (?t\<lparr>locals := (locals ?t)[dst + k := locals ?t ! (src + k)]\<rparr>)"
    using k snoc.prems(2,3) by (intro copy_step) auto
  also have "(locals ?t)[dst + k := locals ?t ! (src + k)]
      = block_copied dst src (\<lambda>j. j \<in> set (ks @ [k])) (locals s)"
    unfolding old using k snoc.prems(3)
    by (intro nth_equalityI) (auto simp: nth_block_copied nth_list_update)
  finally show ?case
    using snoc by (simp add: foldR_append sorted_wrt_append)
qed

text \<open>
  Claim C14. \<open>MEMCPY_LOCALS\<close> within the frame is a simultaneous assignment: even when the two
  ranges overlap, every destination slot gets the value its source slot had before the copy, and
  no other slot changes.
\<close>

theorem memcpy_simultaneous:
  assumes "locals_ok s" and "src + n \<le> length (locals s)" and "dst + n \<le> length (locals s)"
  shows "memcpy_locals (int dst) (int src) n s = Inr (s\<lparr>locals :=
    map (\<lambda>i. if dst \<le> i \<and> i < dst + n then locals s ! (src + (i - dst)) else locals s ! i)
      [0..<length (locals s)]\<rparr>)"
proof -
  let ?ks = "memcpy_order (int dst) (int src) n"
  have set: "set ?ks = {..<n}" and dist: "distinct ?ks"
    by (auto simp: memcpy_order_def)
  have "sorted_wrt (\<lambda>j k. dst + j \<noteq> src + k) ?ks"
  proof (cases "src < dst")
    case True
    then have "sorted_wrt (\<lambda>j k. dst + j \<noteq> src + k) (rev [0..<n])"
      unfolding sorted_wrt_rev by (intro sorted_wrt_mono_rel [OF _ sorted_wrt_upt]) auto
    with True show ?thesis by (simp add: memcpy_order_def)
  next
    case False
    then have "sorted_wrt (\<lambda>j k. dst + j \<noteq> src + k) [0..<n]"
      by (intro sorted_wrt_mono_rel [OF _ sorted_wrt_upt]) auto
    with False show ?thesis by (simp add: memcpy_order_def)
  qed
  with set dist have "memcpy_locals (int dst) (int src) n s
      = Inr (s\<lparr>locals := block_copied dst src (\<lambda>k. k \<in> {..<n}) (locals s)\<rparr>)"
    unfolding memcpy_locals_def using copy_pass [OF assms, of ?ks] by simp
  also have "block_copied dst src (\<lambda>k. k \<in> {..<n}) (locals s)
      = map (\<lambda>i. if dst \<le> i \<and> i < dst + n then locals s ! (src + (i - dst)) else locals s ! i)
        [0..<length (locals s)]"
    unfolding block_copied_def by (rule map_cong) auto
  finally show ?thesis .
qed

theorem memcpy_simultaneous_witness:
  "memcpy_locals 1 0 3 ((new_vm no_io)\<lparr>locals := [10, 20, 30, 40]\<rparr>)
    = Inr ((new_vm no_io)\<lparr>locals := [10, 10, 20, 30]\<rparr>)"
  using memcpy_simultaneous [of "(new_vm no_io)\<lparr>locals := [10, 20, 30, 40]\<rparr>" 0 3 1]
  by (simp add: locals_ok_def upt_rec)

section \<open>Arrays\<close>

lemma array_at_Inr:
  assumes "array_at ref nm s = Inr (a, n, refs)"
  shows "a = ref" and "6 \<le> ref" and "ref - HEADER_BYTES + 3 < heap_len s"
    and "hkind (heap s) (ref - HEADER_BYTES) = (if refs then KIND_REFARRAY else KIND_VALARRAY)"
    and "hdetail (heap s) (ref - HEADER_BYTES) = n"
  using assms
  by (auto simp: array_at_def kind_def detail_def read_word_def hkind_def hdetail_def result_simps
      Let_def split: if_splits)

lemma array_at_eq:
  assumes "6 \<le> ref" and "ref - HEADER_BYTES + 3 < heap_len s"
    and "hkind (heap s) (ref - HEADER_BYTES) = (if refs then KIND_REFARRAY else KIND_VALARRAY)"
    and "hdetail (heap s) (ref - HEADER_BYTES) = n"
  shows "array_at ref nm s = Inr (ref, n, refs)"
  using assms by (auto simp: array_at_def Let_def)

lemma to_signed_index: "k < 32768 \<Longrightarrow> to_signed k = int k"
  by (simp add: to_signed_def)

text \<open>
  Storing into an array element and reading elements back: the store succeeds exactly
  on an index inside the array, the element then reads as the stored word and every other element
  as before, tagged as the array's header says.
\<close>

theorem array_set_get:
  assumes arr: "array_at a nm s = Inr (a, n, refs)" and room: "a + 2 * n \<le> heap_len s"
    and k: "k < n" "n \<le> 32767" and j: "j < n" and v: "v < 65536" and base: "frame_base s \<le> length vs"
  shows "\<exists>s'. exec_object P (instr ARRAY_SET None) (with_stack (v # k # a # vs) (r1 # r2 # r3 # rs) s) = Some (Inr s')
    \<and> exec_object P (instr ARRAY_GET None) (with_stack (j # a # vs) (r2 # r3 # rs) s')
      = Some (Inr (with_stack ((if j = k then v else rword (heap s) (a + 2 * j)) # vs) (refs # rs) s'))"
proof -
  note arr' = array_at_Inr [OF arr]
  define h where "h = wword (heap s) (a + 2 * k) v"
  define s' where "s' = (with_stack vs rs s)\<lparr>heap := h\<rparr>"
  have sk: "to_signed k = int k" "to_signed j = int j"
    using k j by (auto intro: to_signed_index)
  have head: "h x = heap s x" if "x < a" for x
    using that by (simp add: h_def wword_def)
  have "hkind h (a - HEADER_BYTES) = hkind (heap s) (a - HEADER_BYTES)"
    "hdetail h (a - HEADER_BYTES) = hdetail (heap s) (a - HEADER_BYTES)"
    using arr'(2) by (simp_all add: hkind_def hdetail_def rword_def head)
  then have arr_s': "array_at a nm' (with_stack us ts s') = Inr (a, n, refs)" for nm' us ts
    using arr'(2-5) by (intro array_at_eq) (auto simp: s'_def with_stack_def)
  have arr_s: "array_at a nm' (with_stack us ts s) = Inr (a, n, refs)" for nm' us ts
    using arr'(2-5) by (intro array_at_eq) (auto simp: with_stack_def)
  have "exec_object P (instr ARRAY_SET None) (with_stack (v # k # a # vs) (r1 # r2 # r3 # rs) s) = Some (Inr s')"
    using base k room
    by (simp add: exec_object_def element_addr_def arr_s sk s'_def h_def)
      (simp add: with_stack_def mult.commute)
  moreover have "rword h (a + 2 * j) = (if j = k then v else rword (heap s) (a + 2 * j))"
  proof (cases "j = k")
    case False
    then have "a + 2 * j + 1 < a + 2 * k \<or> a + 2 * k + 1 < a + 2 * j" by linarith
    with False show ?thesis by (simp only: h_def rword_wword_other if_False)
  qed (use v in \<open>simp add: h_def\<close>)
  moreover have "rword h (a + 2 * j) < 65536" by (rule rword_less)
  moreover have "frame_base s' \<le> length vs" "read_word s' (a + 2 * j) = Inr (rword h (a + 2 * j))"
    using base j room by (simp_all add: s'_def with_stack_def read_word_def)
  then have "exec_object P (instr ARRAY_GET None) (with_stack (j # a # vs) (r2 # r3 # rs) s')
      = Some (Inr (push (int (rword h (a + 2 * j))) refs (with_stack vs rs s')))"
    using j by (simp add: exec_object_def element_addr_def arr_s' sk mult.commute)
  ultimately show ?thesis by (intro exI [of _ s']) simp
qed

text \<open>Claim C15. An index outside the array, negative ones included, faults on a load and on a store alike.\<close>

theorem array_bounds_fault:
  assumes "array_at a nm s = Inr (a, n, refs)" and "to_signed k < 0 \<or> int n \<le> to_signed k"
    and "frame_base s \<le> length vs"
  shows "exec_object P (instr ARRAY_GET None) (with_stack (k # a # vs) (r2 # r3 # rs) s)
      = Some (fault (ArrayBounds (to_signed k) (int n)))
    \<and> exec_object P (instr ARRAY_SET None) (with_stack (v # k # a # vs) (r1 # r2 # r3 # rs) s)
      = Some (fault (ArrayBounds (to_signed k) (int n)))"
proof -
  note arr' = array_at_Inr [OF assms(1)]
  have "array_at a nm' (with_stack us ts s) = Inr (a, n, refs)" for nm' us ts
    using arr'(2-5) by (intro array_at_eq) (auto simp: with_stack_def)
  with assms(2,3) show ?thesis by (simp add: exec_object_def element_addr_def)
qed

definition array_vm :: "capture vm" where
  "array_vm = (new_vm no_io)\<lparr>heap := (\<lambda>_. 0)(2 := 4, 4 := 2), heap_ptr := 10\<rparr>"

lemma array_vm_at: "array_at 6 nm array_vm = Inr (6, 2, False)"
  by (intro array_at_eq) (simp_all add: array_vm_def new_vm_def hkind_def hdetail_def rword_def)

theorem array_set_get_witness:
  "\<exists>s'. exec_object tiny_program (instr ARRAY_SET None)
        (with_stack [500, 1, 6] [False, False, True] array_vm) = Some (Inr s')
    \<and> exec_object tiny_program (instr ARRAY_GET None) (with_stack [1, 6] [False, True] s')
      = Some (Inr (with_stack [500] [False] s'))"
  using array_set_get [OF array_vm_at, of 1 1 500 "[]" tiny_program False False True "[]"]
  by (simp add: array_vm_def new_vm_def)

theorem array_bounds_fault_witness:
  "exec_object tiny_program (instr ARRAY_GET None) (with_stack [2, 6] [False, True] array_vm)
    = Some (fault (ArrayBounds 2 2))"
  using array_bounds_fault [OF array_vm_at, of 2 "[]" tiny_program False True "[]" 0 False]
  by (simp add: array_vm_def new_vm_def to_signed_index)

section \<open>Strings\<close>

lemma gc_ok_with_stack:
  assumes "gc_ok P s" and "length rs = length vs"
  shows "gc_ok P (with_stack vs rs s)"
  using assms by (auto simp: gc_ok_def heap_wf_def with_stack_def)

lemma string_bytes_with_stack [simp]: "string_bytes a (with_stack vs rs s) = string_bytes a s"
  by (simp add: string_bytes_def kind_def detail_def read_word_def heap_slice_def Let_def with_stack_def)

lemma string_bytes_push [simp]: "string_bytes a (push v r s) = string_bytes a s"
  by (simp add: string_bytes_def kind_def detail_def read_word_def heap_slice_def Let_def
      push_def push_raw_def)

lemma alloc_string_addr:
  assumes "gc_ok P s" and "alloc_string P d s = Inr (a, s')"
  shows "a < 65536"
proof -
  have ok: "gc_ok P s'" "all_blocks P s' = all_blocks P (alloc_base P (max (length d + length d mod 2) 2) s) @ [a - 4]"
    using alloc_string_reads [OF assms] by auto
  then have "bend P (heap s') (a - 4) \<le> 65536"
    using tiles_range [OF gc_okD(1) [OF ok(1)], of "a - 4"] gc_okD(4) [OF ok(1)] by simp
  moreover have "2 \<le> psize P (heap s') (a - 4)"
    using tiles_psize [OF gc_okD(1) [OF ok(1)], of "a - 4"] ok(2) by simp
  ultimately show ?thesis by linarith
qed

text \<open>Pushing a freshly allocated string.\<close>

lemma push_new_string:
  assumes "gc_ok P s" and "push_new (alloc_string P d s) = Inr s'"
  shows "\<exists>a vs rs. stack s' = a # vs \<and> stack_is_ref s' = True # rs \<and> string_bytes a s' = Inr d"
proof -
  obtain a t where t: "alloc_string P d s = Inr (a, t)" "s' = push (int a) True t"
    using assms(2) by (auto simp: push_new_def result_simps)
  have "string_bytes a (push (int a) True t) = Inr d"
    using alloc_string_reads [OF assms(1) t(1)]
    by simp
  with t alloc_string_addr [OF assms(1) t(1)] show ?thesis
    by (simp add: push_def push_raw_def)
qed

text \<open>
  Claim C16. On a well-formed heap, concatenating two strings either reports that memory ran out or
  that the result is too long, or leaves on the stack a reference to a string with exactly the
  bytes of the left operand followed by those of the right, whatever the collector did meanwhile.
\<close>

theorem concat_bytes:
  assumes "gc_ok P (with_stack (b # a # vs) (True # True # rs) s)" and "frame_base s \<le> length vs"
    and "string_bytes a s = Inr da" and "string_bytes b s = Inr db"
  shows "(\<exists>s' c us ts. exec_string P (instr STR_CONCAT None) (with_stack (b # a # vs) (True # True # rs) s) = Some (Inr s')
        \<and> stack s' = c # us \<and> stack_is_ref s' = True # ts \<and> string_bytes c s' = Inr (da @ db))
    \<or> exec_string P (instr STR_CONCAT None) (with_stack (b # a # vs) (True # True # rs) s) = Some (fault OutOfMemory)
    \<or> (length (da @ db) > 32767 \<and> exec_string P (instr STR_CONCAT None)
          (with_stack (b # a # vs) (True # True # rs) s) = Some (fault (StringTooLong (length (da @ db)))))"
proof -
  let ?s = "with_stack vs rs s"
  have ok: "gc_ok P ?s"
    using gc_ok_with_stack [OF assms(1), of rs vs] gc_okD(8) [OF assms(1)] by (simp add: with_stack_def)
  have run: "exec_string P (instr STR_CONCAT None) (with_stack (b # a # vs) (True # True # rs) s)
      = Some (push_new (alloc_string P (da @ db) ?s))"
    using assms(2-4) by (simp add: exec_string_def pop_string_def)
  show ?thesis
  proof (cases "length (da @ db) \<le> 32767")
    case False
    then show ?thesis unfolding run by (simp add: alloc_string_def push_new_def Let_def)
  next
    case True
    from alloc_string_eq [OF ok this] consider c t where "alloc_string P (da @ db) ?s = Inr (c, t)"
      | "alloc_string P (da @ db) ?s = fault OutOfMemory"
      by (metis prod.collapse)
    then show ?thesis
    proof cases
      case 1
      then have "push_new (alloc_string P (da @ db) ?s) = Inr (push (int c) True t)"
        by (simp add: push_new_def)
      with push_new_string [OF ok this] show ?thesis unfolding run by auto
    next
      case 2
      then show ?thesis unfolding run by (simp add: push_new_def)
    qed
  qed
qed

theorem concat_bytes_witness:
  "\<exists>(s :: unit vm) a. string_bytes a s = Inr [104, 105] \<and>
     (let s0 = with_stack [a, a] [True, True] s in
      (\<exists>s' c us ts. exec_string demo_program (instr STR_CONCAT None) s0 = Some (Inr s')
        \<and> stack s' = c # us \<and> stack_is_ref s' = True # ts \<and> string_bytes c s' = Inr [104, 105, 104, 105])
    \<or> exec_string demo_program (instr STR_CONCAT None) s0 = Some (fault OutOfMemory))"
proof -
  obtain a s where al: "alloc_string demo_program [104, 105] demo_vm = Inr (a, s)"
    using alloc_string_eq [OF demo_ok, of "[104, 105]"]
    by (auto simp: Let_def demo_base demo_ptr rounded_def)
  have r: "string_bytes a s = Inr [104, 105]" and ok: "gc_ok demo_program s"
    using alloc_string_reads [OF demo_ok al] by simp_all
  have fb: "frame_base s = 0"
    using plain_alloc_string [OF al] by (simp add: plain_def control_def demo_vm_def new_vm_def)
  have "frame_base s \<le> length ([] :: nat list)" using fb by simp
  note D = concat_bytes [OF gc_ok_with_stack [OF ok, of "[True, True]" "[a, a]"] this r r,
      unfolded append.simps]
  show ?thesis unfolding Let_def
    by (rule exI [of _ s], rule exI [of _ a], rule conjI [OF r]) (use D in simp)
qed

end
