(* ===== verification/Utf8.thy ===== *)
theory Utf8
  imports Machine
begin

text \<open>
  The host's strict UTF-8 codec, which the bytecode file uses for every string: surrogates cannot
  be encoded, and a decoder refuses overlong forms, surrogates and values past the last code point.
\<close>

section \<open>One character\<close>

definition surrogate :: "nat \<Rightarrow> bool" where
  "surrogate c \<longleftrightarrow> 55296 \<le> c \<and> c < 57344"

definition utf8_char :: "nat \<Rightarrow> nat list option" where
  "utf8_char c =
     (if c < 128 then Some [c]
      else if c < 2048 then Some [192 + c div 64, 128 + c mod 64]
      else if surrogate c then None
      else if c < 65536 then Some [224 + c div 4096, 128 + c div 64 mod 64, 128 + c mod 64]
      else if c < 1114112 then
        Some [240 + c div 262144, 128 + c div 4096 mod 64, 128 + c div 64 mod 64, 128 + c mod 64]
      else None)"

definition continuation :: "nat \<Rightarrow> bool" where
  "continuation b \<longleftrightarrow> 128 \<le> b \<and> b < 192"

text \<open>The code point at the front of a byte sequence and what follows it.\<close>

fun utf8_next :: "nat list \<Rightarrow> (nat \<times> nat list) option" where
  "utf8_next [] = None"
| "utf8_next (a # bs) =
     (if a < 128 then Some (a, bs)
      else if 194 \<le> a \<and> a < 224 then
        (case bs of b # r \<Rightarrow>
           if continuation b then Some ((a - 192) * 64 + (b - 128), r) else None
         | _ \<Rightarrow> None)
      else if 224 \<le> a \<and> a < 240 then
        (case bs of b # c # r \<Rightarrow>
           let n = ((a - 224) * 64 + (b - 128)) * 64 + (c - 128) in
           if continuation b \<and> continuation c \<and> 2048 \<le> n \<and> \<not> surrogate n then Some (n, r) else None
         | _ \<Rightarrow> None)
      else if 240 \<le> a \<and> a < 245 then
        (case bs of b # c # d # r \<Rightarrow>
           let n = (((a - 240) * 64 + (b - 128)) * 64 + (c - 128)) * 64 + (d - 128) in
           if continuation b \<and> continuation c \<and> continuation d \<and> 65536 \<le> n \<and> n < 1114112
           then Some (n, r) else None
         | _ \<Rightarrow> None)
      else None)"

lemma utf8_next_shorter: "utf8_next bs = Some (c, r) \<Longrightarrow> length r < length bs"
  by (cases bs) (auto split: if_splits list.splits simp: Let_def)

lemma base64_digits:
  "c div 64 * 64 + c mod 64 = (c :: nat)"
  "c div 4096 * 64 + c div 64 mod 64 = c div (64 :: nat)"
  "c div 262144 * 64 + c div 4096 mod 64 = c div (4096 :: nat)"
  using div_mult_mod_eq [of "c div 64" 64] div_mult_mod_eq [of "c div 4096" 64]
  by (simp_all flip: div_mult2_eq)

lemma utf8_next_char: "utf8_char c = Some e \<Longrightarrow> utf8_next (e @ bs) = Some (c, bs)"
proof -
  assume e: "utf8_char c = Some e"
  consider "c < 128" | "128 \<le> c" "c < 2048" | "2048 \<le> c" "c < 65536" | "65536 \<le> c" "c < 1114112"
    using e by (force simp: utf8_char_def split: if_splits)
  then show ?thesis
  proof cases
    case 1
    with e show ?thesis by (auto simp: utf8_char_def)
  next
    case 2
    then have "c div 64 < 32" "2 \<le> c div 64" by auto
    with e 2 show ?thesis by (auto simp: utf8_char_def continuation_def)
  next
    case 3
    then have "c div 4096 < 16" by auto
    with e 3 show ?thesis
      by (auto simp: base64_digits utf8_char_def continuation_def Let_def split: if_splits)
  next
    case 4
    then have "c div 262144 < 5" by auto
    moreover have "4096 * (c div 4096) + c div 64 mod 64 * 64 + c mod 64 = c"
      using base64_digits(1,2) [of c] by linarith
    ultimately show ?thesis
      using e 4 by (auto simp: base64_digits utf8_char_def continuation_def Let_def surrogate_def split: if_splits)
  qed
qed

lemma utf8_char_bytes: "utf8_char c = Some e \<Longrightarrow> b \<in> set e \<Longrightarrow> b < 256"
  by (auto simp: utf8_char_def split: if_splits)

section \<open>Strings\<close>

fun utf8_encode :: "ustr \<Rightarrow> host_error + bytes" where
  "utf8_encode [] = Inr []"
| "utf8_encode (c # cs) = (case utf8_char c of
     None \<Rightarrow> Inl UnicodeEncodeError
   | Some e \<Rightarrow> bindR (utf8_encode cs) (\<lambda>bs. Inr (map of_nat e @ bs)))"

function utf8_decode_nats :: "nat list \<Rightarrow> ustr option" where
  "utf8_decode_nats bs =
     (if bs = [] then Some []
      else case utf8_next bs of
        None \<Rightarrow> None
      | Some (c, r) \<Rightarrow> map_option ((#) c) (utf8_decode_nats r))"
  by pat_completeness auto
termination
  by (relation "measure length") (auto dest: utf8_next_shorter)

declare utf8_decode_nats.simps [simp del]

definition utf8_decode :: "bytes \<Rightarrow> ustr option" where
  "utf8_decode bs = utf8_decode_nats (map unat bs)"

lemma unat_of_nat_bytes: "(\<And>b. b \<in> set e \<Longrightarrow> b < 256) \<Longrightarrow> map (unat \<circ> (of_nat :: nat \<Rightarrow> byte)) e = e"
  by (induction e) (simp_all add: unat_of_nat take_bit_eq_mod)

lemma utf8_decode_encode: "utf8_encode s = Inr bs \<Longrightarrow> utf8_decode bs = Some s"
proof (induction s arbitrary: bs)
  case Nil
  then show ?case by (simp add: utf8_decode_def utf8_decode_nats.simps)
next
  case (Cons c cs)
  then obtain e r where e: "utf8_char c = Some e" and r: "utf8_encode cs = Inr r"
    and bs: "bs = map of_nat e @ r"
    by (auto simp: result_simps split: option.splits)
  have m: "map unat bs = e @ map unat r"
    using unat_of_nat_bytes [of e] utf8_char_bytes [OF e] by (simp add: bs)
  have "e \<noteq> []" using e by (auto simp: utf8_char_def split: if_splits)
  with Cons.IH [OF r] utf8_next_char [OF e] show ?case
    by (simp add: utf8_decode_def m utf8_decode_nats.simps [of "e @ map unat r"])
qed

end
