(* ===== verification/Serialize.thy ===== *)
theory Serialize
  imports Utf8
begin

text \<open>
  The \<open>.qlc\<close> file format of \<open>compiler/serialize.py\<close>. A writer is a function from a value to the
  bytes it appends to the buffer, so writing one thing after the other is concatenation, the first
  failure winning; a reader carries the data and its position in it, as \<open>_Reader\<close> does.
\<close>

section \<open>Errors and primitives\<close>

datatype bytecode_error =
    Truncated | NotUtf8 | NotBytecode | WrongVersion nat | UnknownOpcode nat nat
  | TrailingBytes nat | OpcodeTooLarge opcode | OperandRange opcode nat int | CannotRead ustr

datatype ser_error = BytecodeError bytecode_error | SerHost host_error

abbreviation (input) MAGIC :: bytes where "MAGIC \<equiv> [81, 76, 67, 26]"
abbreviation (input) FORMAT_VERSION :: nat where "FORMAT_VERSION \<equiv> 1"
abbreviation (input) HAS_DEBUG_INFO :: nat where "HAS_DEBUG_INFO \<equiv> 1"
abbreviation (input) HAS_OPERAND :: nat where "HAS_OPERAND \<equiv> 32768"
abbreviation (input) MAX_OPCODE :: nat where "MAX_OPCODE \<equiv> 32767"
abbreviation (input) MAX_OPERAND :: int where "MAX_OPERAND \<equiv> 4294967295"

type_synonym written = "ser_error + bytes"

definition lift_ser :: "host_error + 'a \<Rightarrow> ser_error + 'a" where
  "lift_ser r = (case r of Inl e \<Rightarrow> Inl (SerHost e) | Inr x \<Rightarrow> Inr x)"

text \<open>Chunks written one after the other.\<close>

fun catR :: "written list \<Rightarrow> written" where
  "catR [] = Inr []"
| "catR (m # ms) = bindR m (\<lambda>b. bindR (catR ms) (\<lambda>bs. Inr (b @ bs)))"

text \<open>\<open>struct.pack\<close> refuses a value its field cannot hold.\<close>

fun le_bytes :: "nat \<Rightarrow> nat \<Rightarrow> bytes" where
  "le_bytes 0 v = []"
| "le_bytes (Suc k) v = of_nat (v mod 256) # le_bytes k (v div 256)"

definition pack :: "nat \<Rightarrow> nat \<Rightarrow> written" where
  "pack k v = (if v < 256 ^ k then Inr (le_bytes k v) else Inl (SerHost StructError))"

definition put_u8 :: "nat \<Rightarrow> written" where "put_u8 = pack 1"
definition put_u16 :: "nat \<Rightarrow> written" where "put_u16 = pack 2"
definition put_u32 :: "nat \<Rightarrow> written" where "put_u32 = pack 4"

text \<open>\<open>struct.pack\<close> of a Python integer, which may be negative.\<close>

definition put_u32_int :: "int \<Rightarrow> written" where
  "put_u32_int v = (if v < 0 then Inl (SerHost StructError) else put_u32 (nat v))"

definition put_text :: "ustr \<Rightarrow> written" where
  "put_text s = bindR (lift_ser (utf8_encode s)) (\<lambda>e. catR [put_u32 (length e), Inr e])"

definition put_u32_list :: "nat list \<Rightarrow> written" where
  "put_u32_list vs = catR (put_u32 (length vs) # map put_u32 vs)"

section \<open>Writing\<close>

definition put_string :: "nat \<times> ustr \<Rightarrow> written" where
  "put_string p = catR [put_u32 (fst p), put_text (snd p)]"

definition write_strings :: "(nat \<times> ustr) list \<Rightarrow> written" where
  "write_strings ss = catR (put_u32 (length ss) # map put_string (sort_key fst ss))"

definition put_field :: "field_layout \<Rightarrow> written" where
  "put_field f = catR [put_text (fl_name f), put_text (fl_type_name f), put_u32 (fl_offset f)]"

definition put_struct :: "struct_layout option \<Rightarrow> written" where
  "put_struct l = (case l of
     None \<Rightarrow> Inl (SerHost AttributeError)
   | Some l \<Rightarrow> catR ([put_text (sl_name l), put_u32 (word_size l), put_u8 (if is_variant l then 1 else 0),
       put_u32_list (ref_offsets l), put_u32 (length (sl_fields l))] @ map put_field (sl_fields l)))"

definition write_structs :: "struct_layout option list \<Rightarrow> written" where
  "write_structs ls = catR (put_u32 (length ls) # map put_struct ls)"

definition put_local :: "local_info \<Rightarrow> written" where
  "put_local l = catR [put_text (li_name l), put_u32 (li_slot l), put_text (li_type_name l),
     put_u32 (li_words l), put_u8 (if is_param l then 1 else 0)]"

definition put_function :: "bool \<Rightarrow> function_info \<Rightarrow> written" where
  "put_function debug f = catR ([put_text (fn_name f), put_u32 (entry_pc f), put_u32 (num_locals f),
     put_u32 (num_params f), put_u32_list (ref_slots f), put_u32_list (param_words f)]
     @ (if debug then [put_text (source_file f), put_u32 (length (fn_locals f))] @ map put_local (fn_locals f)
        else []))"

definition write_functions :: "function_info list \<Rightarrow> bool \<Rightarrow> written" where
  "write_functions fs debug = catR (put_u32 (length fs) # map (put_function debug) fs)"

definition put_instruction :: "nat \<Rightarrow> instruction \<Rightarrow> written" where
  "put_instruction k i =
     (let number = opcode_number (op i) in
      if number > MAX_OPCODE then Inl (BytecodeError (OpcodeTooLarge (op i)))
      else case arg i of
        None \<Rightarrow> put_u16 number
      | Some a \<Rightarrow>
          if \<not> (0 \<le> a \<and> a \<le> MAX_OPERAND) then Inl (BytecodeError (OperandRange (op i) k a))
          else catR [put_u16 (semiring_bit_operations_class.or number HAS_OPERAND), put_u32 (nat a)])"

definition write_code :: "bytecode \<Rightarrow> written" where
  "write_code c = catR (put_u32 (length c) # map (\<lambda>(k, i). put_instruction k i) (enumerate 0 c))"

definition put_marker :: "nat \<times> position \<Rightarrow> written" where
  "put_marker m = catR [put_u32 (fst m), put_u32_int (fst (snd m)), put_u32_int (snd (snd m))]"

definition write_source_map :: "source_map \<Rightarrow> written" where
  "write_source_map m = catR (put_u32 (length (pcs m)) # map put_marker (zip (pcs m) (positions m)))"

definition dumps :: "program \<Rightarrow> bool \<Rightarrow> written" where
  "dumps P debug = catR ([Inr MAGIC, put_u16 FORMAT_VERSION, put_u16 (if debug then HAS_DEBUG_INFO else 0),
     write_strings (strings P), write_structs (structs P), write_functions (fns P) debug,
     write_code (code P)] @ (if debug then [write_source_map (srcmap P)] else []))"

section \<open>Reading\<close>

record reader =
  rdata :: bytes
  rpos :: nat

type_synonym 'a read = "reader \<Rightarrow> ser_error + 'a \<times> reader"

definition take_bytes :: "nat \<Rightarrow> bytes read" where
  "take_bytes n r =
     (let e = rpos r + n in
      if e > length (rdata r) then Inl (BytecodeError Truncated)
      else Inr (take n (drop (rpos r) (rdata r)), r\<lparr>rpos := e\<rparr>))"

definition le_value :: "bytes \<Rightarrow> nat" where
  "le_value bs = foldr (\<lambda>b acc. unat b + 256 * acc) bs 0"

definition unpack :: "nat \<Rightarrow> nat read" where
  "unpack k r = bindR (take_bytes k r) (\<lambda>(bs, r1). Inr (le_value bs, r1))"

definition get_u8 :: "nat read" where "get_u8 = unpack 1"
definition get_u16 :: "nat read" where "get_u16 = unpack 2"
definition get_u32 :: "nat read" where "get_u32 = unpack 4"

definition then_read :: "'a read \<Rightarrow> ('a \<Rightarrow> 'b read) \<Rightarrow> 'b read" where
  "then_read d f r = bindR (d r) (\<lambda>(x, r1). f x r1)"

definition done_read :: "'a \<Rightarrow> 'a read" where
  "done_read x r = Inr (x, r)"

definition fail_read :: "bytecode_error \<Rightarrow> 'a read" where
  "fail_read e r = Inl (BytecodeError e)"

definition get_text :: "ustr read" where
  "get_text = then_read get_u32 (\<lambda>n. then_read (take_bytes n) (\<lambda>bs.
     case utf8_decode bs of None \<Rightarrow> fail_read NotUtf8 | Some s \<Rightarrow> done_read s))"

text \<open>\<open>for i in range(n)\<close> over one record each.\<close>

fun get_many :: "(nat \<Rightarrow> 'a read) \<Rightarrow> nat \<Rightarrow> nat \<Rightarrow> 'a list read" where
  "get_many d i 0 = done_read []"
| "get_many d i (Suc n) = then_read (d i) (\<lambda>x. then_read (get_many d (Suc i) n) (\<lambda>xs. done_read (x # xs)))"

definition get_list :: "(nat \<Rightarrow> 'a read) \<Rightarrow> 'a list read" where
  "get_list d = then_read get_u32 (get_many d 0)"

definition get_u32_list :: "nat list read" where
  "get_u32_list = get_list (\<lambda>_. get_u32)"

definition get_string :: "(nat \<times> ustr) read" where
  "get_string = then_read get_u32 (\<lambda>n. then_read get_text (\<lambda>s. done_read (n, s)))"

definition read_strings :: "(nat \<times> ustr) list read" where
  "read_strings = then_read (get_list (\<lambda>_. get_string)) (\<lambda>ps.
     done_read (fold (\<lambda>(k, v). dict_set k v) ps []))"

definition get_field :: "field_layout read" where
  "get_field = then_read get_text (\<lambda>n. then_read get_text (\<lambda>t. then_read get_u32 (\<lambda>off.
     done_read \<lparr>fl_name = n, fl_type_name = t, fl_offset = off\<rparr>)))"

definition get_struct :: "struct_layout option read" where
  "get_struct = then_read get_text (\<lambda>n. then_read get_u32 (\<lambda>size. then_read get_u8 (\<lambda>variant.
     then_read get_u32_list (\<lambda>refs. then_read (get_list (\<lambda>_. get_field)) (\<lambda>fs.
     done_read (Some \<lparr>sl_name = n, word_size = size, ref_offsets = refs, sl_fields = fs,
       is_variant = (variant \<noteq> 0)\<rparr>))))))"

definition read_structs :: "struct_layout option list read" where
  "read_structs = get_list (\<lambda>_. get_struct)"

definition get_local_info :: "local_info read" where
  "get_local_info = then_read get_text (\<lambda>n. then_read get_u32 (\<lambda>slot. then_read get_text (\<lambda>t.
     then_read get_u32 (\<lambda>words. then_read get_u8 (\<lambda>param.
     done_read \<lparr>li_name = n, li_slot = slot, li_type_name = t, li_words = words,
       is_param = (param \<noteq> 0)\<rparr>)))))"

definition read_locals :: "local_info list read" where
  "read_locals = get_list (\<lambda>_. get_local_info)"

definition get_function :: "bool \<Rightarrow> function_info read" where
  "get_function debug = then_read get_text (\<lambda>n. then_read get_u32 (\<lambda>entry. then_read get_u32 (\<lambda>nl.
     then_read get_u32 (\<lambda>np. then_read get_u32_list (\<lambda>refs. then_read get_u32_list (\<lambda>words.
     let f = \<lparr>fn_name = n, entry_pc = entry, num_locals = nl, num_params = np, ref_slots = refs,
                param_words = words, fn_locals = [], source_file = []\<rparr> in
     if debug then then_read get_text (\<lambda>file. then_read read_locals (\<lambda>ls.
       done_read (f\<lparr>source_file := file, fn_locals := ls\<rparr>)))
     else done_read f))))))"

definition read_functions :: "bool \<Rightarrow> function_info list read" where
  "read_functions debug = get_list (\<lambda>_. get_function debug)"

definition get_instruction :: "nat \<Rightarrow> instruction read" where
  "get_instruction k = then_read get_u16 (\<lambda>field.
     let number = semiring_bit_operations_class.and field MAX_OPCODE in
     case opcode_of_number number of
       None \<Rightarrow> fail_read (UnknownOpcode number k)
     | Some o' \<Rightarrow>
         if semiring_bit_operations_class.and field HAS_OPERAND \<noteq> 0
         then then_read get_u32 (\<lambda>a. done_read \<lparr>op = o', arg = Some (int a)\<rparr>)
         else done_read \<lparr>op = o', arg = None\<rparr>)"

definition read_code :: "bytecode read" where
  "read_code = get_list get_instruction"

definition get_marker :: "(nat \<times> position) read" where
  "get_marker = then_read get_u32 (\<lambda>p. then_read get_u32 (\<lambda>l. then_read get_u32 (\<lambda>c. done_read (p, int l, int c))))"

definition read_source_map :: "source_map read" where
  "read_source_map = then_read (get_list (\<lambda>_. get_marker)) (\<lambda>ms.
     done_read \<lparr>pcs = map fst ms, positions = map snd ms\<rparr>)"

definition read_header :: "bool read" where
  "read_header = then_read (take_bytes 4) (\<lambda>m.
     if m \<noteq> MAGIC then fail_read NotBytecode
     else then_read get_u16 (\<lambda>version.
       if version \<noteq> FORMAT_VERSION then fail_read (WrongVersion version)
       else then_read get_u16 (\<lambda>flags.
         done_read (semiring_bit_operations_class.and flags HAS_DEBUG_INFO \<noteq> 0))))"

definition read_body :: "bool \<Rightarrow> program read" where
  "read_body debug = then_read read_strings (\<lambda>ss. then_read read_structs (\<lambda>ls.
     then_read (read_functions debug) (\<lambda>fs. then_read read_code (\<lambda>c.
     then_read (if debug then read_source_map else done_read empty_source_map) (\<lambda>m.
     done_read \<lparr>code = c, fns = fs, strings = ss, structs = ls, srcmap = m, prog_args = []\<rparr>)))))"

definition loads :: "bytes \<Rightarrow> ser_error + program" where
  "loads data = bindR (then_read read_header read_body \<lparr>rdata = data, rpos = 0\<rparr>) (\<lambda>(P, r).
     if rpos r \<noteq> length data then Inl (BytecodeError (TrailingBytes (length data - rpos r)))
     else Inr P)"

section \<open>Files\<close>

text \<open>The file system is a parameter: the content of a path, or the message of an \<open>OSError\<close>.\<close>

definition read_program :: "(ustr \<Rightarrow> ustr + bytes) \<Rightarrow> ustr \<Rightarrow> ser_error + program" where
  "read_program fs path = (case fs path of Inl m \<Rightarrow> Inl (BytecodeError (CannotRead m)) | Inr data \<Rightarrow> loads data)"

definition write_program :: "(ustr \<Rightarrow> bytes option) \<Rightarrow> program \<Rightarrow> ustr \<Rightarrow> bool \<Rightarrow> ser_error + (ustr \<Rightarrow> bytes option)" where
  "write_program fs P path debug = bindR (dumps P debug) (\<lambda>data. Inr (fs(path := Some data)))"

definition is_bytecode :: "(ustr \<Rightarrow> ustr + bytes) \<Rightarrow> ustr \<Rightarrow> bool" where
  "is_bytecode fs path = (case fs path of Inl _ \<Rightarrow> False | Inr data \<Rightarrow> take 4 data = MAGIC)"

end
