(* ===== verification/Codec.thy ===== *)
theory Codec
  imports Serialize
begin

text \<open>
  Every record of the file format obeys one law, stated as a locale: the reader gets back what was
  written wherever it stands in a file, and reports a truncated file when the record is cut short.
  The law is closed under sequencing and repetition, so it reaches the whole file.
\<close>

section \<open>Reading what was written\<close>

definition reads :: "'a read \<Rightarrow> 'a \<Rightarrow> bytes \<Rightarrow> bool" where
  "reads d x bs \<longleftrightarrow>
     (\<forall>pre post. d \<lparr>rdata = pre @ bs @ post, rpos = length pre\<rparr>
        = Inr (x, \<lparr>rdata = pre @ bs @ post, rpos = length pre + length bs\<rparr>)) \<and>
     (\<forall>pre n. n < length bs \<longrightarrow>
        d \<lparr>rdata = pre @ take n bs, rpos = length pre\<rparr> = Inl (BytecodeError Truncated))"

lemma readsI:
  assumes "\<And>pre post. d \<lparr>rdata = pre @ bs @ post, rpos = length pre\<rparr>
      = Inr (x, \<lparr>rdata = pre @ bs @ post, rpos = length pre + length bs\<rparr>)"
    and "\<And>pre n. n < length bs \<Longrightarrow>
      d \<lparr>rdata = pre @ take n bs, rpos = length pre\<rparr> = Inl (BytecodeError Truncated)"
  shows "reads d x bs"
  using assms by (simp add: reads_def)

lemma reads_exact: "reads d x bs \<Longrightarrow> d \<lparr>rdata = pre @ bs @ post, rpos = length pre\<rparr>
    = Inr (x, \<lparr>rdata = pre @ bs @ post, rpos = length pre + length bs\<rparr>)"
  by (simp add: reads_def)

lemma reads_cut: "reads d x bs \<Longrightarrow> n < length bs \<Longrightarrow>
    d \<lparr>rdata = pre @ take n bs, rpos = length pre\<rparr> = Inl (BytecodeError Truncated)"
  by (simp add: reads_def)

lemma reads_doneI: "x = y \<Longrightarrow> reads (done_read x) y []"
  by (simp add: reads_def done_read_def)

lemma reads_then:
  assumes d: "reads d x b" and f: "reads (f x) y c"
  shows "reads (then_read d f) y (b @ c)"
proof (rule readsI)
  fix pre post
  show "then_read d f \<lparr>rdata = pre @ (b @ c) @ post, rpos = length pre\<rparr>
      = Inr (y, \<lparr>rdata = pre @ (b @ c) @ post, rpos = length pre + length (b @ c)\<rparr>)"
    using reads_exact [OF d, of pre "c @ post"] reads_exact [OF f, of "pre @ b" post]
    by (simp add: then_read_def add.assoc)
next
  fix pre n assume n: "n < length (b @ c)"
  show "then_read d f \<lparr>rdata = pre @ take n (b @ c), rpos = length pre\<rparr> = Inl (BytecodeError Truncated)"
  proof (cases "n < length b")
    case True
    then show ?thesis using reads_cut [OF d True, of pre] by (simp add: then_read_def)
  next
    case False
    then show ?thesis
      using n reads_exact [OF d, of pre "take (n - length b) c"]
        reads_cut [OF f, of "n - length b" "pre @ b"]
      by (simp add: then_read_def)
  qed
qed

lemma reads_take: "reads (take_bytes (length bs)) bs bs"
  by (rule readsI) (simp_all add: take_bytes_def Let_def)

lemma reads_map: "reads d x b \<Longrightarrow> f x = y \<Longrightarrow> reads (then_read d (\<lambda>x. done_read (f x))) y b"
  using reads_then [of d x b "\<lambda>x. done_read (f x)" y "[]"] by (simp add: reads_doneI)

lemma catR_Cons: "catR (m # ms) = Inr bs \<longleftrightarrow> (\<exists>b c. m = Inr b \<and> catR ms = Inr c \<and> bs = b @ c)"
  by (auto simp: result_simps)

lemma catR_Nil: "catR [] = Inr bs \<longleftrightarrow> bs = []"
  by auto

lemma catR_append: "catR (ms @ ns) = bindR (catR ms) (\<lambda>b. bindR (catR ns) (\<lambda>c. Inr (b @ c)))"
proof (induction ms)
  case Nil
  show ?case by (cases "catR ns") simp_all
next
  case (Cons m ms)
  then show ?case by (cases m; cases "catR ms"; cases "catR ns") simp_all
qed

lemmas catR_eq = catR_Cons catR_Nil catR_append

declare catR.simps [simp del]

section \<open>The law of a record\<close>

text \<open>
  \<open>keep\<close> is what the format keeps of a value. A record of a table may depend on its index, which
  is where the reader's error messages get it from.
\<close>

locale record_codec =
  fixes enc :: "nat \<Rightarrow> 'a \<Rightarrow> written" and dec :: "nat \<Rightarrow> 'a read" and keep :: "'a \<Rightarrow> 'a"
  assumes law: "enc i x = Inr bs \<Longrightarrow> reads (dec i) (keep x) bs"
begin

lemma many: "catR (map (\<lambda>(k, x). enc k x) (enumerate i xs)) = Inr bs \<Longrightarrow>
    reads (get_many dec i (length xs)) (map keep xs) bs"
proof (induction xs arbitrary: i bs)
  case Nil
  then show ?case by (simp add: catR_Nil reads_doneI)
next
  case (Cons x xs)
  then obtain b c where b: "enc i x = Inr b"
    and c: "catR (map (\<lambda>(k, x). enc k x) (enumerate (Suc i) xs)) = Inr c" and bs: "bs = b @ c"
    by (auto simp: catR_Cons)
  from Cons.IH [OF c] have "reads (then_read (get_many dec (Suc i) (length xs)) (\<lambda>xs. done_read (keep x # xs)))
      (map keep (x # xs)) c"
    by (rule reads_map) simp
  then show ?case
    unfolding bs list.size add_Suc_right add_0_right get_many.simps
    by (rule reads_then [OF law [OF b], where f = "\<lambda>x. then_read (get_many dec (Suc i) (length xs)) (\<lambda>xs. done_read (x # xs))"])
qed

text \<open>Two encodings of which one is a prefix of the other are the same record.\<close>

lemma prefix_free:
  assumes "enc i x = Inr b" and "enc i y = Inr (b @ c)"
  shows "keep y = keep x \<and> c = []"
proof -
  have 1: "dec i \<lparr>rdata = b @ c, rpos = 0\<rparr> = Inr (keep x, \<lparr>rdata = b @ c, rpos = length b\<rparr>)"
    using reads_exact [OF law [OF assms(1)], of "[]" c] by simp
  have "dec i \<lparr>rdata = b @ c, rpos = 0\<rparr> = Inr (keep y, \<lparr>rdata = b @ c, rpos = length (b @ c)\<rparr>)"
    using reads_exact [OF law [OF assms(2)], of "[]" "[]"] by simp
  with 1 show ?thesis by simp
qed

end

locale codec =
  fixes enc :: "'a \<Rightarrow> written" and dec :: "'a read" and keep :: "'a \<Rightarrow> 'a"
  assumes law: "enc x = Inr bs \<Longrightarrow> reads dec (keep x) bs"

sublocale codec \<subseteq> table: record_codec "\<lambda>_. enc" "\<lambda>_. dec" keep
  by unfold_locales (rule law)

section \<open>Numbers and strings\<close>

lemma length_le_bytes [simp]: "length (le_bytes k v) = k"
  by (induction k arbitrary: v) simp_all

lemma le_value_le_bytes: "v < 256 ^ k \<Longrightarrow> le_value (le_bytes k v) = v"
proof (induction k arbitrary: v)
  case (Suc k)
  then have "v div 256 < 256 ^ k" by (simp add: less_mult_imp_div_less)
  with Suc.IH have "le_value (le_bytes k (v div 256)) = v div 256" by blast
  then show ?case by (simp add: le_value_def unat_of_nat take_bit_eq_mod)
qed (simp add: le_value_def)

lemma reads_unpack: "pack k v = Inr bs \<Longrightarrow> reads (unpack k) v bs"
proof -
  assume "pack k v = Inr bs"
  then have v: "v < 256 ^ k" and bs: "bs = le_bytes k v" by (auto simp: pack_def split: if_splits)
  have "unpack k = then_read (take_bytes (length bs)) (\<lambda>bs. done_read (le_value bs))"
    by (rule ext) (simp add: bs unpack_def then_read_def done_read_def case_prod_unfold)
  moreover have "reads \<dots> v bs"
    by (rule reads_map [OF reads_take]) (simp add: bs le_value_le_bytes [OF v])
  ultimately show ?thesis by simp
qed

interpretation u8: codec put_u8 get_u8 "\<lambda>x. x"
  by unfold_locales (simp add: put_u8_def get_u8_def reads_unpack)

interpretation u16: codec put_u16 get_u16 "\<lambda>x. x"
  by unfold_locales (simp add: put_u16_def get_u16_def reads_unpack)

interpretation u32: codec put_u32 get_u32 "\<lambda>x. x"
  by unfold_locales (simp add: put_u32_def get_u32_def reads_unpack)

interpretation text_codec: codec put_text get_text "\<lambda>x. x"
proof unfold_locales
  fix s bs assume "put_text s = Inr bs"
  then obtain e b where e: "utf8_encode s = Inr e" and b: "put_u32 (length e) = Inr b" and bs: "bs = b @ e"
    by (auto simp: put_text_def catR_eq lift_ser_def result_simps split: sum.splits)
  have "reads (then_read (take_bytes (length e)) (\<lambda>bs. case utf8_decode bs of None \<Rightarrow> fail_read NotUtf8
      | Some s \<Rightarrow> done_read s)) s (e @ [])"
    by (rule reads_then [OF reads_take]) (simp add: utf8_decode_encode [OF e] reads_doneI)
  then show "reads get_text s bs"
    unfolding get_text_def bs append_Nil2 by (rule reads_then [OF u32.law [OF b]])
qed

lemmas number_reads = u8.law u16.law u32.law text_codec.law

section \<open>Tables\<close>

context record_codec
begin

lemma listed:
  assumes "catR (put_u32 (length xs) # map (\<lambda>(k, x). enc k x) (enumerate 0 xs)) = Inr bs"
  shows "reads (get_list dec) (map keep xs) bs"
  using assms by (auto simp: catR_Cons get_list_def intro!: reads_then u32.law many)

end

lemma map_enumerate_const: "map (\<lambda>(k, x). f x) (enumerate i xs) = map f xs"
  by (induction xs arbitrary: i) simp_all

context codec
begin

lemma listed: "catR (put_u32 (length xs) # map enc xs) = Inr bs \<Longrightarrow> reads (get_list (\<lambda>_. dec)) (map keep xs) bs"
  using table.listed [of xs bs] by (simp add: map_enumerate_const)

lemma counted:
  "put_u32 (length xs) = Inr b \<Longrightarrow> catR (map enc xs) = Inr c \<Longrightarrow>
    reads (get_list (\<lambda>_. dec)) (map keep xs) (b @ c)"
  by (rule listed) (auto simp: catR_Cons)

end

lemma u32_list_reads: "put_u32_list vs = Inr bs \<Longrightarrow> reads get_u32_list vs bs"
  using u32.listed [of vs bs] by (simp add: put_u32_list_def get_u32_list_def)

end
