(* ===== verification/FileFormat.thy ===== *)
theory FileFormat
  imports Codec
begin

text \<open>
  The records of the bytecode file as instances of the codec law, and what it gives for whole
  files: loading what was saved, refusing truncated files and trailing bytes.
\<close>

section \<open>The records\<close>

lemmas reads_intros = reads_then reads_map number_reads u32_list_reads reads_doneI

interpretation string_rec: codec put_string get_string "\<lambda>x. x"
  by unfold_locales (auto simp: put_string_def get_string_def catR_eq intro!: reads_intros)

interpretation field_rec: codec put_field get_field "\<lambda>x. x"
  by unfold_locales (auto simp: put_field_def get_field_def catR_eq intro!: reads_intros)

interpretation local_rec: codec put_local get_local_info "\<lambda>x. x"
  by unfold_locales (auto simp: put_local_def get_local_info_def catR_eq intro!: reads_intros)

interpretation marker_rec: codec put_marker get_marker "\<lambda>x. x"
  by unfold_locales (auto simp: put_marker_def get_marker_def put_u32_int_def catR_eq split: if_splits intro!: reads_intros)

interpretation struct_rec: codec put_struct get_struct "\<lambda>x. x"
proof unfold_locales
  fix l bs assume e: "put_struct l = Inr bs"
  then obtain m where "l = Some m" by (cases l) (auto simp: put_struct_def)
  with e show "reads get_struct l bs"
    using field_rec.counted
    by (auto simp: put_struct_def get_struct_def catR_eq intro!: reads_intros)
qed

definition strip_function :: "function_info \<Rightarrow> function_info" where
  "strip_function f = f\<lparr>fn_locals := [], source_file := []\<rparr>"

interpretation function_rec: codec "put_function debug" "get_function debug"
    "if debug then \<lambda>f. f else strip_function" for debug
proof unfold_locales
  fix f bs assume "put_function debug f = Inr bs"
  then show "reads (get_function debug) ((if debug then \<lambda>f. f else strip_function) f) bs"
    by (cases f) (auto simp: put_function_def get_function_def read_locals_def strip_function_def catR_eq
      Let_def intro!: reads_intros local_rec.counted)
qed

lemma opcode_field:
  "semiring_bit_operations_class.and (opcode_number o') MAX_OPCODE = opcode_number o'"
  "semiring_bit_operations_class.and (opcode_number o') HAS_OPERAND = 0"
  "semiring_bit_operations_class.and (semiring_bit_operations_class.or (opcode_number o') HAS_OPERAND) MAX_OPCODE
     = opcode_number o'"
  "semiring_bit_operations_class.and (semiring_bit_operations_class.or (opcode_number o') HAS_OPERAND) HAS_OPERAND
     = HAS_OPERAND"
  by (cases o'; simp)+

interpretation instruction_rec: record_codec put_instruction get_instruction "\<lambda>i. i"
proof unfold_locales
  fix k i bs assume e: "put_instruction k i = Inr bs"
  show "reads (get_instruction k) i bs"
  proof (cases "arg i")
    case None
    with e have "put_u16 (opcode_number (op i)) = Inr bs"
      by (simp add: put_instruction_def Let_def split: if_splits)
    then have "reads (get_instruction k) i (bs @ [])"
      unfolding get_instruction_def
      by (rule reads_then [OF u16.law]) (use None in \<open>auto simp: opcode_field intro!: reads_doneI\<close>)
    then show ?thesis by simp
  next
    case (Some a)
    with e obtain b c where w: "bs = b @ c" "0 \<le> a" "put_u32 (nat a) = Inr c"
        "put_u16 (semiring_bit_operations_class.or (opcode_number (op i)) HAS_OPERAND) = Inr b"
      by (auto simp: put_instruction_def Let_def catR_eq split: if_splits)
    show ?thesis
      unfolding get_instruction_def w(1)
      by (rule reads_then [OF u16.law [OF w(4)]])
        (use Some w in \<open>auto simp: opcode_field Let_def intro!: reads_map u32.law\<close>)
  qed
qed

section \<open>Whole files\<close>

text \<open>What a saved program loads as: its literals sorted by id, its debug tables only if asked for.\<close>

definition saved :: "bool \<Rightarrow> program \<Rightarrow> program" where
  "saved debug P = P\<lparr>strings := sort_key fst (strings P), prog_args := [],
     fns := (if debug then fns P else map strip_function (fns P)),
     srcmap := (if debug then srcmap P else empty_source_map)\<rparr>"

definition file_ok :: "program \<Rightarrow> bool" where
  "file_ok P \<longleftrightarrow> distinct (map fst (strings P)) \<and> length (positions (srcmap P)) = length (pcs (srcmap P))"

lemma dict_of_distinct:
  "distinct (map fst (qs @ ps)) \<Longrightarrow> fold (\<lambda>(k, v). dict_set k v) ps qs = qs @ ps"
proof (induction ps arbitrary: qs)
  case (Cons p ps)
  obtain k v where p: "p = (k, v)" by (cases p)
  have "k \<notin> fst ` set qs" using Cons.prems by (auto simp: p)
  then show ?case using Cons.IH [of "qs @ [p]"] Cons.prems by (auto simp: p dict_set_new)
qed simp

lemma strings_read:
  assumes "distinct (map fst ss)" and "write_strings ss = Inr bs"
  shows "reads read_strings (sort_key fst ss) bs"
proof -
  have "distinct (map fst (sort_key fst ss))"
    using assms(1) by (simp add: distinct_map)
  moreover have "reads (get_list (\<lambda>_. get_string)) (sort_key fst ss) bs"
    using string_rec.listed [of "sort_key fst ss" bs] assms(2) by (simp add: write_strings_def)
  ultimately show ?thesis
    unfolding read_strings_def using dict_of_distinct [of "[]"] by (auto intro!: reads_map)
qed

lemma source_map_read:
  assumes "length (positions m) = length (pcs m)" and "write_source_map m = Inr bs"
  shows "reads read_source_map m bs"
  unfolding read_source_map_def
proof (rule reads_map)
  show "reads (get_list (\<lambda>_. get_marker)) (zip (pcs m) (positions m)) bs"
    using marker_rec.listed [of "zip (pcs m) (positions m)" bs] assms by (simp add: write_source_map_def)
qed (use assms(1) in simp)

lemma body_reads:
  assumes "file_ok P" and "catR ([write_strings (strings P), write_structs (structs P),
      write_functions (fns P) debug, write_code (code P)]
      @ (if debug then [write_source_map (srcmap P)] else [])) = Inr bs"
  shows "reads (read_body debug) (saved debug P) bs"
proof -
  let ?kept = "if debug then fns P else map strip_function (fns P)"
  from assms(2) obtain s l f c m where
      w: "write_strings (strings P) = Inr s" "write_structs (structs P) = Inr l"
        "write_functions (fns P) debug = Inr f" "write_code (code P) = Inr c" "bs = s @ l @ f @ c @ m"
      and m: "if debug then write_source_map (srcmap P) = Inr m else m = []"
    by (auto simp: catR_eq split: if_splits)
  have l: "reads read_structs (structs P) l"
    using struct_rec.listed [of "structs P" l] w(2) by (simp add: write_structs_def read_structs_def)
  have f: "reads (read_functions debug) ?kept f"
    using function_rec.listed [of "fns P" debug f] w(3)
    by (auto simp: write_functions_def read_functions_def split: if_splits)
  have c: "reads read_code (code P) c"
    using instruction_rec.listed [of "code P" c] w(4) by (simp add: write_code_def read_code_def)
  have "reads (if debug then read_source_map else done_read empty_source_map)
      (if debug then srcmap P else empty_source_map) m"
    using m source_map_read assms(1) by (auto simp: file_ok_def reads_doneI)
  then show ?thesis
    unfolding read_body_def w(5)
    by (intro reads_then [OF strings_read [OF _ w(1)]] reads_then [OF l] reads_then [OF f]
        reads_then [OF c] reads_map) (use assms(1) in \<open>auto simp: file_ok_def saved_def\<close>)
qed

lemma file_reads:
  assumes "file_ok P" and "dumps P debug = Inr bs"
  shows "reads (then_read read_header read_body) (saved debug P) bs"
proof -
  from assms(2) obtain v g b where v: "put_u16 FORMAT_VERSION = Inr v"
      and g: "put_u16 (if debug then HAS_DEBUG_INFO else 0) = Inr g"
      and b: "catR ([write_strings (strings P), write_structs (structs P),
        write_functions (fns P) debug, write_code (code P)]
        @ (if debug then [write_source_map (srcmap P)] else [])) = Inr b"
      and bs: "bs = (MAGIC @ v @ g) @ b"
    by (auto simp: dumps_def catR_Cons)
  have flags: "reads (then_read get_u16 (\<lambda>flags.
      done_read (semiring_bit_operations_class.and flags HAS_DEBUG_INFO \<noteq> 0))) debug g"
    by (rule reads_map [OF u16.law [OF g]]) (cases debug; simp)
  have "reads (then_read get_u16 (\<lambda>version. if version \<noteq> FORMAT_VERSION then fail_read (WrongVersion version)
      else then_read get_u16 (\<lambda>flags.
        done_read (semiring_bit_operations_class.and flags HAS_DEBUG_INFO \<noteq> 0)))) debug (v @ g)"
    by (rule reads_then [OF u16.law [OF v]]) (use flags in simp)
  then have "reads read_header debug (MAGIC @ v @ g)"
    unfolding read_header_def
    by (intro reads_then [where x = MAGIC]) (use reads_take [of MAGIC] in \<open>simp_all add: eval_nat_numeral\<close>)
  then show ?thesis
    unfolding bs by (rule reads_then) (rule body_reads [OF assms(1) b])
qed

lemma loads_of_reads:
  assumes "reads (then_read read_header read_body) P bs"
  shows "loads bs = Inr P"
    and "n < length bs \<Longrightarrow> loads (take n bs) = Inl (BytecodeError Truncated)"
    and "0 < length cs \<Longrightarrow> loads (bs @ cs) = Inl (BytecodeError (TrailingBytes (length cs)))"
  using reads_exact [OF assms, of "[]" "[]"] reads_cut [OF assms, of n "[]"]
    reads_exact [OF assms, of "[]" cs]
  by (auto simp: loads_def)

text \<open>
  Claim C17. Loading a saved program gives the program back, its literals in the order of their ids;
  a program saved without debug information comes back without its source map, its local names and
  its file names, and with everything else.
\<close>

theorem save_load:
  assumes "file_ok P" and "dumps P debug = Inr bs"
  shows "loads bs = Inr (saved debug P)"
  by (rule loads_of_reads(1) [OF file_reads [OF assms]])

text \<open>
  Claim C18. A bytecode file cut short anywhere, even inside its header, is refused as truncated, and
  one with bytes after its end is refused with their number: neither is ever taken for a program.
\<close>

theorem damaged_file:
  assumes "file_ok P" and "dumps P debug = Inr bs" and "n < length bs" and "0 < length cs"
  shows "loads (take n bs) = Inl (BytecodeError Truncated)
    \<and> loads (bs @ cs) = Inl (BytecodeError (TrailingBytes (length cs)))"
  using loads_of_reads(2,3) [OF file_reads [OF assms(1,2)]] assms(3,4) by blast

section \<open>Errors\<close>

text \<open>Reading raises nothing but the format's own error.\<close>

definition own_errors :: "'a read \<Rightarrow> bool" where
  "own_errors d \<longleftrightarrow> (\<forall>r e. d r \<noteq> Inl (SerHost e))"

lemma own_errors_then: "own_errors d \<Longrightarrow> (\<And>x. own_errors (f x)) \<Longrightarrow> own_errors (then_read d f)"
  by (auto simp: own_errors_def then_read_def result_simps)

lemma own_errors_basic:
  "own_errors (done_read x)" "own_errors (fail_read e)" "own_errors (take_bytes n)" "own_errors (unpack k)"
  by (auto simp: own_errors_def done_read_def fail_read_def take_bytes_def unpack_def Let_def
      result_simps split: if_splits)

lemma own_errors_u:
  "own_errors get_u8" "own_errors get_u16" "own_errors get_u32"
  by (simp_all add: get_u8_def get_u16_def get_u32_def own_errors_basic)

lemma own_errors_text: "own_errors get_text"
  unfolding get_text_def by (intro own_errors_then own_errors_u own_errors_basic)
    (auto split: option.splits simp: own_errors_basic)

lemma own_errors_list:
  assumes "\<And>i. own_errors (d i)"
  shows "own_errors (get_list d)"
proof -
  have "own_errors (get_many d i n)" for i n
    by (induction n arbitrary: i) (auto intro!: own_errors_then own_errors_basic assms)
  then show ?thesis by (auto simp: get_list_def intro!: own_errors_then own_errors_u)
qed

lemma own_errors_if: "own_errors x \<Longrightarrow> own_errors y \<Longrightarrow> own_errors (if c then x else y)"
  by simp

lemmas own_errors_intros = own_errors_then own_errors_u own_errors_text own_errors_list own_errors_if
  own_errors_basic

lemma own_errors_program: "own_errors (then_read read_header read_body)"
proof -
  have i: "own_errors (get_instruction k)" for k
    unfolding get_instruction_def Let_def
    by (intro own_errors_intros) (auto split: option.splits intro!: own_errors_intros)
  have f: "own_errors (get_function d)" for d
    unfolding get_function_def read_locals_def get_local_info_def get_u32_list_def Let_def
    by (intro own_errors_intros)
  show ?thesis
    unfolding read_header_def read_body_def read_strings_def get_string_def read_structs_def
      get_struct_def get_field_def get_u32_list_def read_functions_def read_code_def
      read_source_map_def get_marker_def
    by (intro own_errors_intros i f)
qed


section \<open>A small file\<close>

definition sample_file :: program where
  "sample_file = \<lparr>code = [instr PUSH_INT (Some 70000), instr LOAD_STR (Some 0), instr RET None],
     fns = [\<lparr>fn_name = lit ''main'', entry_pc = 0, num_locals = 1, num_params = 0, ref_slots = [0],
             param_words = [], fn_locals = [\<lparr>li_name = lit ''p'', li_slot = 0, li_type_name = lit ''P'',
               li_words = 1, is_param = False\<rparr>], source_file = lit ''a.ql''\<rparr>],
     strings = [(1, [233, 8364]), (0, lit ''hi'')],
     structs = [Some \<lparr>sl_name = lit ''P'', word_size = 2, ref_offsets = [1],
       sl_fields = [\<lparr>fl_name = lit ''x'', fl_type_name = lit ''int'', fl_offset = 0\<rparr>], is_variant = False\<rparr>],
     srcmap = \<lparr>pcs = [0, 2], positions = [(1, 5), (2, 1)]\<rparr>, prog_args = []\<rparr>"

lemma sample_ok: "file_ok sample_file"
  by (simp add: file_ok_def sample_file_def)

lemma sample_dumps: "\<exists>bs. dumps sample_file debug = Inr bs \<and> 20 < length bs"
  by (cases debug) (simp_all add: sample_file_def dumps_def write_strings_def put_string_def write_structs_def
    put_struct_def put_field_def write_functions_def put_function_def put_local_def write_code_def
    put_instruction_def write_source_map_def put_marker_def put_u32_int_def put_text_def put_u32_list_def lift_ser_def
    utf8_char_def surrogate_def put_u8_def put_u16_def put_u32_def pack_def lit_def catR.simps sort_key_conv_fold)

theorem save_load_witness:
  "\<exists>bs. dumps sample_file False = Inr bs \<and> loads bs = Inr (saved False sample_file)"
  using sample_dumps [of False] save_load [OF sample_ok, of False] by blast

theorem damaged_file_witness:
  "\<exists>bs. dumps sample_file True = Inr bs \<and> loads (take 20 bs) = Inl (BytecodeError Truncated)
     \<and> loads (bs @ [0]) = Inl (BytecodeError (TrailingBytes 1))"
  using sample_dumps [of True] damaged_file [OF sample_ok, of True _ 20 "[0]"] by auto

end
