(* ===== verification/Lexer.thy ===== *)
theory Lexer
  imports Machine
begin

text \<open>
  \<open>compiler/tokens.py\<close> and \<open>compiler/lexer.py\<close>: token types, keywords and the scanner, one
  definition per method. The host's character database (\<open>str.isdigit\<close> and its kin) is a parameter.
\<close>

section \<open>Tokens\<close>

datatype (plugins only: size) token_type =
    LEFT_PAREN | RIGHT_PAREN | LEFT_BRACE | RIGHT_BRACE | LEFT_BRACKET | RIGHT_BRACKET
  | COMMA | DOT | MINUS | PLUS | SEMICOLON | SLASH | STAR | COLON | EQUAL | AMP | AT
  | BANG | TILDE | BANG_EQUAL | EQUAL_EQUAL | GREATER | GREATER_EQUAL | LESS | LESS_EQUAL
  | AND_AND | OR_OR | PERCENT | CARET | PIPE | SHL_T | SHR_T | FAT_ARROW | COLON_COLON
  | IDENTIFIER | STRING | NUMBER | FLOAT_NUMBER
  | FN | LET | RETURN | IF | ELSE | WHILE | FOR | BREAK | CONTINUE | TRUE | FALSE | NULL
  | INT_T | STR_T | FLOAT | VOID | PTR | HEAPPTR | PRINT | PRINTLN | VM_ASM | INCLUDE | STRUCT
  | ENUM | MATCH
  | EOF

datatype token_value = NoValue | IntValue nat | FloatValue pyfloat | TextValue ustr

record token =
  tok_type :: token_type
  lexeme :: ustr
  tok_line :: int
  tok_col :: int
  tok_literal :: token_value

definition KEYWORDS :: "(ustr \<times> token_type) list" where
  "KEYWORDS =
    [(lit ''fn'', FN), (lit ''let'', LET), (lit ''return'', RETURN), (lit ''if'', IF), (lit ''else'', ELSE),
     (lit ''while'', WHILE), (lit ''for'', FOR), (lit ''break'', BREAK), (lit ''continue'', CONTINUE),
     (lit ''true'', TRUE), (lit ''false'', FALSE), (lit ''null'', NULL), (lit ''int'', INT_T), (lit ''str'', STR_T),
     (lit ''float'', FLOAT), (lit ''void'', VOID), (lit ''print'', PRINT), (lit ''println'', PRINTLN),
     (lit ''ptr'', PTR), (lit ''heapptr'', HEAPPTR), (lit ''vm_asm'', VM_ASM), (lit ''include'', INCLUDE),
     (lit ''struct'', STRUCT), (lit ''enum'', ENUM), (lit ''match'', MATCH)]"

section \<open>The scanner\<close>

text \<open>
  The host's predicates on one character; \<open>decimal\<close> is the value \<open>int()\<close> gives a digit, which some
  characters that \<open>isdigit\<close> accepts do not have.
\<close>

record unicode =
  is_digit :: "nat \<Rightarrow> bool"
  is_alpha :: "nat \<Rightarrow> bool"
  is_alnum :: "nat \<Rightarrow> bool"
  lower :: "nat \<Rightarrow> ustr"
  decimal :: "nat \<Rightarrow> nat option"

datatype lex_fault =
    UnexpectedCharacter nat | UnknownEscape nat | TooWide nat | UnterminatedString
  | AfterNumber nat ustr | IntegerTooLarge ustr | NoHexDigits | NoFractionDigits | FloatTooLarge ustr

datatype lex_error = LexError lex_fault int int | LexHost host_error

record lexer =
  source :: ustr
  tokens :: "token list"
  lex_start :: nat
  current :: nat
  line :: int
  col :: int

definition new_lexer :: "ustr \<Rightarrow> lexer" where
  "new_lexer src = \<lparr>source = src, tokens = [], lex_start = 0, current = 0, line = 1, col = 1\<rparr>"

abbreviation (input) chr :: "char \<Rightarrow> nat" where "chr c \<equiv> of_char c"
abbreviation (input) NEWLINE :: nat where "NEWLINE \<equiv> 10"
abbreviation (input) QUOTE :: nat where "QUOTE \<equiv> 34"
abbreviation (input) BACKSLASH :: nat where "BACKSLASH \<equiv> 92"

definition is_at_end :: "lexer \<Rightarrow> bool" where
  "is_at_end l \<longleftrightarrow> length (source l) \<le> current l"

definition advance :: "lexer \<Rightarrow> lex_error + nat \<times> lexer" where
  "advance l =
     (if current l < length (source l)
      then Inr (source l ! current l, l\<lparr>current := current l + 1, col := col l + 1\<rparr>)
      else Inl (LexHost IndexError))"

definition peek :: "lexer \<Rightarrow> nat" where
  "peek l = (if is_at_end l then 0 else source l ! current l)"

definition peek_next :: "lexer \<Rightarrow> nat" where
  "peek_next l = (if length (source l) \<le> current l + 1 then 0 else source l ! (current l + 1))"

definition match_char :: "nat \<Rightarrow> lexer \<Rightarrow> bool \<times> lexer" where
  "match_char c l =
     (if is_at_end l then (False, l)
      else if source l ! current l \<noteq> c then (False, l)
      else (True, l\<lparr>current := current l + 1, col := col l + 1\<rparr>))"

text \<open>\<open>source[start:current]\<close>.\<close>

definition span :: "lexer \<Rightarrow> ustr" where
  "span l = drop (lex_start l) (take (current l) (source l))"

definition span_col :: "lexer \<Rightarrow> int" where
  "span_col l = col l - (int (current l) - int (lex_start l))"

definition add_token :: "token_type \<Rightarrow> token_value \<Rightarrow> lexer \<Rightarrow> lexer" where
  "add_token ty v l = l\<lparr>tokens := tokens l @
     [\<lparr>tok_type = ty, lexeme = span l, tok_line = line l, tok_col = span_col l, tok_literal = v\<rparr>]\<rparr>"

definition new_line :: "nat \<Rightarrow> lexer \<Rightarrow> lexer" where
  "new_line c l = (if c = NEWLINE then l\<lparr>line := line l + 1, col := 1\<rparr> else l)"

lemma advance_Inr:
  "advance l = Inr (c, l') \<longleftrightarrow> current l < length (source l) \<and> c = source l ! current l
     \<and> l' = l\<lparr>current := current l + 1, col := col l + 1\<rparr>"
  by (auto simp: advance_def)

lemma new_line_sel [simp]:
  "current (new_line c l) = current l" "source (new_line c l) = source l"
  "tokens (new_line c l) = tokens l" "lex_start (new_line c l) = lex_start l"
  by (simp_all add: new_line_def)

text \<open>\<open>while p(self._peek()): self._advance()\<close>.\<close>

function advance_while :: "(nat \<Rightarrow> bool) \<Rightarrow> lexer \<Rightarrow> lex_error + lexer" where
  "advance_while p l =
     (if p (peek l) then bindR (advance l) (\<lambda>(_, l1). advance_while p l1) else Inr l)"
  by pat_completeness auto
termination
  by (relation "measure (\<lambda>(p, l). length (source l) - current l)") (auto simp: advance_Inr)

declare advance_while.simps [simp del]

text \<open>The body of a line comment: up to the newline or the end.\<close>

function skip_comment :: "lexer \<Rightarrow> lex_error + lexer" where
  "skip_comment l =
     (if peek l \<noteq> NEWLINE \<and> \<not> is_at_end l
      then bindR (advance l) (\<lambda>(_, l1). skip_comment l1) else Inr l)"
  by pat_completeness auto
termination
  by (relation "measure (\<lambda>l. length (source l) - current l)") (auto simp: advance_Inr)

declare skip_comment.simps [simp del]

section \<open>Strings\<close>

definition ESCAPES :: "(nat \<times> nat) list" where
  "ESCAPES = [(chr CHR ''n'', 10), (chr CHR ''t'', 9), (chr CHR ''r'', 13), (chr CHR ''0'', 0),
     (BACKSLASH, BACKSLASH), (QUOTE, QUOTE)]"

text \<open>
  The loop over the characters of a literal, with the characters so far. An escape at the end of the
  file breaks out, as does the end of the file; the caller reports the missing quote.
\<close>

function string_chars :: "ustr \<Rightarrow> lexer \<Rightarrow> lex_error + ustr \<times> lexer" where
  "string_chars acc l =
     (if peek l = QUOTE \<or> is_at_end l then Inr (acc, l)
      else bindR (advance l) (\<lambda>(c, l1).
        let l2 = new_line c l1 in
        if c = BACKSLASH then
          (if is_at_end l2 then Inr (acc, l2)
           else bindR (advance l2) (\<lambda>(esc, l3).
             let l4 = new_line esc l3 in
             case map_of ESCAPES esc of
               None \<Rightarrow> Inl (LexError (UnknownEscape esc) (line l4) (col l4 - 2))
             | Some v \<Rightarrow> string_chars (acc @ [v]) l4))
        else if c > 255 then Inl (LexError (TooWide c) (line l2) (col l2 - 1))
        else string_chars (acc @ [c]) l2))"
  by pat_completeness auto
termination
  by (relation "measure (\<lambda>(acc, l). length (source l) - current l)") (auto simp: advance_Inr)

declare string_chars.simps [simp del]

definition lex_string :: "lexer \<Rightarrow> lex_error + lexer" where
  "lex_string l =
     (let open_line = line l; open_col = col l - 1 in
      bindR (string_chars [] l) (\<lambda>(value, l1).
        if is_at_end l1 then Inl (LexError UnterminatedString open_line open_col)
        else bindR (advance l1) (\<lambda>(_, l2). Inr (add_token STRING (TextValue value) l2))))"

section \<open>Numbers\<close>

text \<open>\<open>a <= b\<close> on strings.\<close>

fun text_le :: "ustr \<Rightarrow> ustr \<Rightarrow> bool" where
  "text_le [] _ = True"
| "text_le (_ # _) [] = False"
| "text_le (a # as) (b # bs) = (a < b \<or> a = b \<and> text_le as bs)"

definition hex_letter :: "unicode \<Rightarrow> nat \<Rightarrow> bool" where
  "hex_letter U c \<longleftrightarrow> text_le (lit ''a'') (lower U c) \<and> text_le (lower U c) (lit ''f'')"

definition hex_value :: "unicode \<Rightarrow> nat \<Rightarrow> nat option" where
  "hex_value U c =
     (if 97 \<le> c \<and> c \<le> 102 then Some (c - 87)
      else if 65 \<le> c \<and> c \<le> 70 then Some (c - 55)
      else decimal U c)"

definition digit_values :: "(nat \<Rightarrow> nat option) \<Rightarrow> ustr \<Rightarrow> lex_error + nat list" where
  "digit_values f = mapR (\<lambda>c. case f c of None \<Rightarrow> Inl (LexHost ValueError) | Some d \<Rightarrow> Inr d)"

text \<open>\<open>int(text)\<close>, which also refuses more digits than the interpreter's limit, and \<open>int(text, 16)\<close>.\<close>

definition int_of_text :: "unicode \<Rightarrow> ustr \<Rightarrow> lex_error + nat" where
  "int_of_text U s =
     bindR (digit_values (decimal U) s) (\<lambda>ds.
       if length ds > 4300 then Inl (LexHost ValueError) else Inr (read_digits 10 ds))"

definition hex_of_text :: "unicode \<Rightarrow> ustr \<Rightarrow> lex_error + nat" where
  "hex_of_text U s = bindR (digit_values (hex_value U) s) (\<lambda>ds. Inr (read_digits 16 ds))"

text \<open>\<open>float(text)\<close> of digits, a dot and \<open>k\<close> more digits.\<close>

definition float_of_text :: "unicode \<Rightarrow> ustr \<Rightarrow> lex_error + pyfloat" where
  "float_of_text U s =
     (let whole = takeWhile (\<lambda>c. c \<noteq> chr CHR ''.'') s; frac = drop (length whole + 1) s in
      bindR (digit_values (decimal U) (whole @ frac)) (\<lambda>ds.
        Inr (if read_digits 10 ds = 0 then Zero False
             else double_of (of_nat (read_digits 10 ds) / 10 ^ length frac))))"

definition FLOAT32_MAX :: pyfloat where
  "FLOAT32_MAX = Fin (of_nat ((2 ^ 24 - 1) * 2 ^ 104))"

definition check_trailing :: "unicode \<Rightarrow> lexer \<Rightarrow> lex_error + unit" where
  "check_trailing U l =
     (if is_alnum U (peek l) \<or> peek l = chr CHR ''_''
      then Inl (LexError (AfterNumber (peek l) (span l)) (line l) (col l)) else Inr ())"

definition check_range :: "nat \<Rightarrow> ustr \<Rightarrow> lexer \<Rightarrow> lex_error + unit" where
  "check_range v s l =
     (if v > 65535 then Inl (LexError (IntegerTooLarge s) (line l) (span_col l)) else Inr ())"

definition check_float_range :: "pyfloat \<Rightarrow> ustr \<Rightarrow> lexer \<Rightarrow> lex_error + unit" where
  "check_float_range v s l =
     (if \<not> is_finite v \<or> flt FLOAT32_MAX v \<or> flt v (fneg FLOAT32_MAX)
      then Inl (LexError (FloatTooLarge s) (line l) (span_col l)) else Inr ())"

definition lex_hex :: "unicode \<Rightarrow> lexer \<Rightarrow> lex_error + lexer" where
  "lex_hex U l =
     bindR (advance l) (\<lambda>(_, l1).
     let digit_start = current l1 in
     bindR (advance_while (\<lambda>c. is_digit U c \<or> hex_letter U c) l1) (\<lambda>l2.
     if current l2 = digit_start then Inl (LexError NoHexDigits (line l2) (span_col l2))
     else bindR (check_trailing U l2) (\<lambda>_.
          bindR (hex_of_text U (drop 2 (span l2))) (\<lambda>value.
          bindR (check_range value (span l2) l2) (\<lambda>_.
            Inr (add_token NUMBER (IntValue value) l2))))))"

definition lex_fraction :: "unicode \<Rightarrow> lexer \<Rightarrow> lex_error + lexer" where
  "lex_fraction U l =
     (if \<not> is_digit U (peek_next l) then Inl (LexError NoFractionDigits (line l) (col l))
      else bindR (advance l) (\<lambda>(_, l1).
           bindR (advance_while (is_digit U) l1) (\<lambda>l2.
           bindR (check_trailing U l2) (\<lambda>_.
           bindR (float_of_text U (span l2)) (\<lambda>value.
           bindR (check_float_range value (span l2) l2) (\<lambda>_.
             Inr (add_token FLOAT_NUMBER (FloatValue value) l2)))))))"

definition lex_number :: "unicode \<Rightarrow> lexer \<Rightarrow> lex_error + lexer" where
  "lex_number U l =
     (if source l ! lex_start l = chr CHR ''0'' \<and> (peek l = chr CHR ''x'' \<or> peek l = chr CHR ''X'')
      then lex_hex U l
      else bindR (advance_while (is_digit U) l) (\<lambda>l1.
        if peek l1 = chr CHR ''.'' then lex_fraction U l1
        else bindR (check_trailing U l1) (\<lambda>_.
             bindR (int_of_text U (span l1)) (\<lambda>value.
             bindR (check_range value (span l1) l1) (\<lambda>_.
               Inr (add_token NUMBER (IntValue value) l1))))))"

definition lex_identifier :: "unicode \<Rightarrow> lexer \<Rightarrow> lex_error + lexer" where
  "lex_identifier U l =
     bindR (advance_while (\<lambda>c. is_alnum U c \<or> c = chr CHR ''_'') l) (\<lambda>l1.
       Inr (add_token (case map_of KEYWORDS (span l1) of None \<Rightarrow> IDENTIFIER | Some ty \<Rightarrow> ty) NoValue l1))"

section \<open>The dispatch\<close>

definition SINGLES :: "(nat \<times> token_type) list" where
  "SINGLES =
    [(chr CHR ''('', LEFT_PAREN), (chr CHR '')'', RIGHT_PAREN), (chr CHR ''{'', LEFT_BRACE),
     (chr CHR ''}'', RIGHT_BRACE), (chr CHR ''['', LEFT_BRACKET), (chr CHR '']'', RIGHT_BRACKET),
     (chr CHR '','', COMMA), (chr CHR ''.'', DOT), (chr CHR ''-'', MINUS), (chr CHR ''+'', PLUS),
     (chr CHR '';'', SEMICOLON), (chr CHR ''*'', STAR), (chr CHR ''%'', PERCENT), (chr CHR ''^'', CARET),
     (chr CHR ''~'', TILDE), (chr CHR ''@'', AT)]"

text \<open>A token of one character, or of two when the next one follows.\<close>

definition one_or_two :: "nat \<Rightarrow> token_type \<Rightarrow> token_type \<Rightarrow> lexer \<Rightarrow> lexer" where
  "one_or_two c two one l = (case match_char c l of (m, l1) \<Rightarrow> add_token (if m then two else one) NoValue l1)"

definition scan_token :: "unicode \<Rightarrow> lexer \<Rightarrow> lex_error + lexer" where
  "scan_token U l0 =
     bindR (advance l0) (\<lambda>(c, l).
       if c = chr CHR '' '' \<or> c = 13 \<or> c = 9 then Inr l
       else if c = NEWLINE then Inr (l\<lparr>line := line l + 1, col := 1\<rparr>)
       else case map_of SINGLES c of Some ty \<Rightarrow> Inr (add_token ty NoValue l) | None \<Rightarrow>
       if c = chr CHR ''|'' then Inr (one_or_two (chr CHR ''|'') OR_OR PIPE l)
       else if c = chr CHR '':'' then Inr (one_or_two (chr CHR '':'') COLON_COLON COLON l)
       else if c = chr CHR ''&'' then Inr (one_or_two (chr CHR ''&'') AND_AND AMP l)
       else if c = chr CHR ''/'' then
         (case match_char (chr CHR ''/'') l of
            (True, l1) \<Rightarrow> skip_comment l1
          | (False, l1) \<Rightarrow> Inr (add_token SLASH NoValue l1))
       else if c = chr CHR ''!'' then Inr (one_or_two (chr CHR ''='') BANG_EQUAL BANG l)
       else if c = chr CHR ''='' then
         (case match_char (chr CHR ''='') l of
            (True, l1) \<Rightarrow> Inr (add_token EQUAL_EQUAL NoValue l1)
          | (False, l1) \<Rightarrow> Inr (one_or_two (chr CHR ''>'') FAT_ARROW EQUAL l1))
       else if c = chr CHR ''<'' then
         (case match_char (chr CHR ''<'') l of
            (True, l1) \<Rightarrow> Inr (add_token SHL_T NoValue l1)
          | (False, l1) \<Rightarrow> Inr (one_or_two (chr CHR ''='') LESS_EQUAL LESS l1))
       else if c = chr CHR ''>'' then
         (case match_char (chr CHR ''>'') l of
            (True, l1) \<Rightarrow> Inr (add_token SHR_T NoValue l1)
          | (False, l1) \<Rightarrow> Inr (one_or_two (chr CHR ''='') GREATER_EQUAL GREATER l1))
       else if c = QUOTE then lex_string l
       else if is_digit U c then lex_number U l
       else if is_alpha U c \<or> c = chr CHR ''_'' then lex_identifier U l
       else Inl (LexError (UnexpectedCharacter c) (line l) (col l - 1)))"

end
