(* ===== verification/Scanning.thy ===== *)
theory Scanning
  imports Lexer
begin

text \<open>
  The scanner proved: it always returns, it raises nothing but its own errors, the lexemes of its
  tokens are the source less white space and comments, and the positions it reports are right.
\<close>

section \<open>Moving over characters\<close>

text \<open>The line and column right after a prefix of the source.\<close>

definition pos_of :: "ustr \<Rightarrow> int \<times> int" where
  "pos_of p = (1 + int (length (filter (\<lambda>c. c = NEWLINE) p)),
     1 + int (length (takeWhile (\<lambda>c. c \<noteq> NEWLINE) (rev p))))"

lemma pos_of_Nil [simp]: "pos_of [] = (1, 1)"
  by (simp add: pos_of_def)

lemma pos_of_snoc [simp]:
  "pos_of (p @ [c]) = (if c = NEWLINE then (fst (pos_of p) + 1, 1) else (fst (pos_of p), snd (pos_of p) + 1))"
  by (simp add: pos_of_def)

lemma pos_of_append: "NEWLINE \<notin> set q \<Longrightarrow> pos_of (p @ q) = (fst (pos_of p), snd (pos_of p) + int (length q))"
proof (induction q rule: rev_induct)
  case (snoc c q)
  then show ?case using pos_of_snoc [of "p @ q" c] by simp
qed simp

definition pos_ok :: "lexer \<Rightarrow> bool" where
  "pos_ok l \<longleftrightarrow> (line l, col l) = pos_of (take (current l) (source l))"

text \<open>\<open>l'\<close> is \<open>l\<close> moved over characters that all satisfy \<open>p\<close>, lines and columns kept right.\<close>

definition over :: "(nat \<Rightarrow> bool) \<Rightarrow> lexer \<Rightarrow> lexer \<Rightarrow> bool" where
  "over p l l' \<longleftrightarrow> source l' = source l \<and> tokens l' = tokens l \<and> lex_start l' = lex_start l
     \<and> current l \<le> current l'
     \<and> (\<forall>i. current l \<le> i \<and> i < current l' \<longrightarrow> i < length (source l) \<and> p (source l ! i))
     \<and> (pos_ok l \<longrightarrow> pos_ok l')"

abbreviation any :: "nat \<Rightarrow> bool" where "any \<equiv> \<lambda>_. True"

lemma over_refl [simp, intro]: "over p l l"
  by (auto simp: over_def)

lemma over_trans [trans]: "over p a b \<Longrightarrow> over p b c \<Longrightarrow> over p a c"
  unfolding over_def by (metis leI le_trans)

lemma over_mono: "over p a b \<Longrightarrow> (\<And>c. p c \<Longrightarrow> q c) \<Longrightarrow> over q a b"
  unfolding over_def by blast

lemma over_any: "over p a b \<Longrightarrow> over any a b"
  by (erule over_mono) simp

lemma over_current: "over p a b \<Longrightarrow> current a \<le> current b"
  by (simp add: over_def)

lemma over_limit: "over p a b \<Longrightarrow> current a \<le> length (source a) \<Longrightarrow> current b \<le> length (source b)"
proof (rule ccontr)
  assume o: "over p a b" and "current a \<le> length (source a)" and "\<not> current b \<le> length (source b)"
  then have "current a \<le> length (source a) \<and> length (source a) < current b" by (simp add: over_def)
  with o show False by (auto simp: over_def)
qed

lemma pos_ok_step:
  assumes "current l < length (source l)"
  shows "pos_ok l \<Longrightarrow> pos_ok (new_line (source l ! current l) (l\<lparr>current := current l + 1, col := col l + 1\<rparr>))"
    and "pos_ok l \<Longrightarrow> source l ! current l \<noteq> NEWLINE \<Longrightarrow> pos_ok (l\<lparr>current := current l + 1, col := col l + 1\<rparr>)"
  using assms by (simp_all add: pos_ok_def take_Suc_conv_app_nth new_line_def prod_eq_iff)

lemma over_advance:
  assumes "advance l = Inr (c, l')"
  shows "over any l (new_line c l')" and "c \<noteq> NEWLINE \<Longrightarrow> over ((=) c) l l'"
  using assms pos_ok_step [of l] unfolding advance_Inr over_def
  by (auto simp: less_Suc_eq le_less)

lemma over_match_char: "match_char c l = (m, l') \<Longrightarrow> c \<noteq> NEWLINE \<Longrightarrow> over ((=) c) l l'"
  using over_advance(2) [of l c]
  by (auto simp: match_char_def is_at_end_def advance_Inr not_le split: if_splits)

lemma over_advance_while:
  assumes "advance_while p l = Inr l'" and "\<not> p NEWLINE"
  shows "over p l l'"
  using assms
proof (induction p l rule: advance_while.induct)
  case (1 p l)
  show ?case
  proof (cases "p (peek l)")
    case True
    with "1.prems"(1) obtain c l1 where a: "advance l = Inr (c, l1)" and r: "advance_while p l1 = Inr l'"
      by (subst (asm) advance_while.simps) (auto simp: result_simps)
    have "p c" using True a by (auto simp: advance_Inr peek_def is_at_end_def)
    have "over p l l1"
      by (rule over_mono [OF over_advance(2) [OF a]]) (use \<open>p c\<close> "1.prems"(2) in auto)
    also have "over p l1 l'" using "1.IH" [OF True a refl r] "1.prems"(2) by blast
    finally show ?thesis .
  next
    case False
    with "1.prems"(1) show ?thesis by (subst (asm) advance_while.simps) auto
  qed
qed

lemma over_skip_comment: "skip_comment l = Inr l' \<Longrightarrow> over (\<lambda>c. c \<noteq> NEWLINE) l l'"
proof (induction l rule: skip_comment.induct)
  case (1 l)
  show ?case
  proof (cases "peek l \<noteq> NEWLINE \<and> \<not> is_at_end l")
    case True
    with "1.prems" obtain c l1 where a: "advance l = Inr (c, l1)" and r: "skip_comment l1 = Inr l'"
      by (subst (asm) skip_comment.simps) (auto simp: result_simps)
    have "c \<noteq> NEWLINE" using True a by (auto simp: advance_Inr peek_def is_at_end_def)
    then have "over (\<lambda>c. c \<noteq> NEWLINE) l l1" by (intro over_mono [OF over_advance(2) [OF a]]) auto
    also have "over (\<lambda>c. c \<noteq> NEWLINE) l1 l'" using "1.IH" [OF True a refl r] .
    finally show ?thesis .
  next
    case False
    with "1.prems" show ?thesis by (subst (asm) skip_comment.simps) auto
  qed
qed

lemma string_chars_over: "string_chars acc l = Inr (v, l') \<Longrightarrow>
    over any l l' \<and> (peek l' = QUOTE \<or> is_at_end l')"
proof (induction acc l rule: string_chars.induct)
  case (1 acc l)
  show ?case
  proof (cases "peek l = QUOTE \<or> is_at_end l")
    case True
    with "1.prems" show ?thesis by (subst (asm) string_chars.simps) auto
  next
    case False
    with "1.prems" obtain c l1 where a: "advance l = Inr (c, l1)"
      by (subst (asm) string_chars.simps) (auto simp: result_simps)
    note o1 = over_advance(1) [OF a]
    let ?l2 = "new_line c l1"
    note run = "1.prems" [unfolded string_chars.simps [of acc l] a]
    show ?thesis
    proof (cases "c = BACKSLASH")
      case bs: True
      show ?thesis
      proof (cases "is_at_end ?l2")
        case True
        with run False bs o1 show ?thesis by (auto simp: Let_def)
      next
        case ne: False
        with run False bs obtain e l3 w where e: "advance ?l2 = Inr (e, l3)" and m: "map_of ESCAPES e = Some w"
          and r: "string_chars (acc @ [w]) (new_line e l3) = Inr (v, l')"
          by (auto simp: Let_def result_simps split: option.splits)
        have "over any l (new_line e l3)" using o1 over_advance(1) [OF e] by (rule over_trans)
        with "1.IH"(1) [OF False a refl refl bs ne e refl refl m r] show ?thesis
          by (blast intro: over_trans)
      qed
    next
      case nb: False
      with run False have w: "\<not> c > 255" and r: "string_chars (acc @ [c]) ?l2 = Inr (v, l')"
        by (auto simp: Let_def split: if_splits)
      with o1 "1.IH"(2) [OF False a refl refl nb w r] show ?thesis
        by (blast intro: over_trans)
    qed
  qed
qed

lemmas over_string_chars = string_chars_over [THEN conjunct1]

section \<open>Progress\<close>

definition later :: "lexer \<Rightarrow> lexer \<Rightarrow> bool" where
  "later l l' \<longleftrightarrow> source l' = source l \<and> current l \<le> current l'"

lemma later_trans [trans]: "later a b \<Longrightarrow> later b c \<Longrightarrow> later a c"
  by (auto simp: later_def)

lemma later_refl [simp]: "later l l" "later l (l\<lparr>line := n, col := m\<rparr>)"
  by (simp_all add: later_def)

lemma over_later: "over p a b \<Longrightarrow> later a b"
  by (simp add: over_def later_def)

lemma later_add_token [simp]: "later a (add_token ty v b) = later a b"
  by (simp add: later_def add_token_def)

lemma later_advance: "advance l = Inr (c, l') \<Longrightarrow> later l l'"
  by (auto simp: advance_Inr later_def)

lemma later_advance_while: "advance_while p l = Inr l' \<Longrightarrow> later l l'"
proof (induction p l rule: advance_while.induct)
  case (1 p l)
  show ?case
  proof (cases "p (peek l)")
    case True
    with "1.prems" obtain c l1 where a: "advance l = Inr (c, l1)" and r: "advance_while p l1 = Inr l'"
      by (subst (asm) advance_while.simps) (auto simp: result_simps)
    from later_advance [OF a] "1.IH" [OF True a refl r] show ?thesis by (rule later_trans)
  next
    case False
    with "1.prems" show ?thesis by (subst (asm) advance_while.simps) (auto simp: later_def)
  qed
qed

lemma later_string: "lex_string l = Inr l' \<Longrightarrow> later l l'"
  by (auto simp: lex_string_def Let_def result_simps split: if_splits
      intro: later_trans [OF over_later [OF over_string_chars] later_advance])

lemma later_number: "lex_number U l = Inr l' \<Longrightarrow> later l l'"
  by (auto simp: lex_number_def lex_hex_def lex_fraction_def Let_def result_simps split: if_splits
      dest!: later_advance later_advance_while intro: later_trans)

lemma later_identifier: "lex_identifier U l = Inr l' \<Longrightarrow> later l l'"
  by (auto simp: lex_identifier_def result_simps dest!: later_advance_while)

lemma later_match_char: "match_char c l = (m, l') \<Longrightarrow> later l l'"
  by (auto simp: match_char_def later_def split: if_splits)

lemma later_one_or_two: "later l l1 \<Longrightarrow> later l (one_or_two c a b l1)"
  by (auto simp: one_or_two_def split: prod.splits dest!: later_match_char intro: later_trans)

lemma scan_token_rest:
  assumes "scan_token U l0 = Inr l'"
  obtains c l where "advance l0 = Inr (c, l)" and "later l l'"
proof -
  from assms obtain c l where a: "advance l0 = Inr (c, l)"
    by (auto simp: scan_token_def result_simps)
  have "later l l'"
    using assms unfolding scan_token_def a bindR_simps prod.case
    by (auto simp: later_one_or_two
      dest!: later_match_char dest: later_string later_number later_identifier over_later [OF over_skip_comment]
      split: if_split_asm option.splits prod.splits bool.splits intro: later_trans later_one_or_two)
  with a that show thesis by blast
qed

lemma scan_token_progress:
  "scan_token U l = Inr l' \<Longrightarrow> source l' = source l \<and> current l < current l' \<and> current l < length (source l)"
  by (erule scan_token_rest) (auto simp: later_def advance_Inr)

section \<open>The main loop\<close>

function lex_loop :: "unicode \<Rightarrow> lexer \<Rightarrow> lex_error + lexer" where
  "lex_loop U l =
     (if is_at_end l then Inr l
      else bindR (scan_token U (l\<lparr>lex_start := current l\<rparr>)) (lex_loop U))"
  by pat_completeness auto
termination
  by (relation "measure (\<lambda>(U, l). length (source l) - current l)") (auto dest!: scan_token_progress)

declare lex_loop.simps [simp del]

definition tokenize :: "unicode \<Rightarrow> ustr \<Rightarrow> lex_error + token list" where
  "tokenize U src = bindR (lex_loop U (new_lexer src)) (\<lambda>l. Inr (tokens l @
     [\<lparr>tok_type = EOF, lexeme = [], tok_line = line l, tok_col = col l, tok_literal = NoValue\<rparr>]))"

section \<open>What one scan does\<close>

text \<open>
  The documented behaviour of the host's character predicates: what they say of ASCII, and that a
  letter or a digit is alphanumeric.
\<close>

definition unicode_ok :: "unicode \<Rightarrow> bool" where
  "unicode_ok U \<longleftrightarrow>
     (\<forall>c<128. (is_digit U c \<longleftrightarrow> 48 \<le> c \<and> c \<le> 57)
       \<and> (is_alpha U c \<longleftrightarrow> 65 \<le> c \<and> c \<le> 90 \<or> 97 \<le> c \<and> c \<le> 122)
       \<and> decimal U c = (if 48 \<le> c \<and> c \<le> 57 then Some (c - 48) else None)
       \<and> lower U c = [if 65 \<le> c \<and> c \<le> 90 then c + 32 else c]
       \<and> (is_alnum U c \<longleftrightarrow> is_alpha U c \<or> is_digit U c))
     \<and> (\<forall>c. is_alpha U c \<or> is_digit U c \<longrightarrow> is_alnum U c)"

definition ascii_only :: unicode where
  "ascii_only = \<lparr>is_digit = (\<lambda>c. 48 \<le> c \<and> c \<le> 57),
     is_alpha = (\<lambda>c. 65 \<le> c \<and> c \<le> 90 \<or> 97 \<le> c \<and> c \<le> 122),
     is_alnum = (\<lambda>c. 48 \<le> c \<and> c \<le> 57 \<or> 65 \<le> c \<and> c \<le> 90 \<or> 97 \<le> c \<and> c \<le> 122),
     lower = (\<lambda>c. [if 65 \<le> c \<and> c \<le> 90 then c + 32 else c]),
     decimal = (\<lambda>c. if 48 \<le> c \<and> c \<le> 57 then Some (c - 48) else None)\<rparr>"

lemma ascii_only_ok: "unicode_ok ascii_only"
  by (auto simp: unicode_ok_def ascii_only_def)

lemma unicode_newline:
  assumes "unicode_ok U"
  shows "\<not> is_digit U NEWLINE" and "\<not> (is_alnum U NEWLINE \<or> NEWLINE = chr CHR ''_'')"
    and "\<not> (is_digit U NEWLINE \<or> hex_letter U NEWLINE)"
proof -
  have "(10 :: nat) < 128" by simp
  with assms have u: "\<not> is_digit U NEWLINE" "\<not> is_alnum U NEWLINE" "lower U NEWLINE = [10]"
    unfolding unicode_ok_def by fastforce+
  then show "\<not> is_digit U NEWLINE" "\<not> (is_alnum U NEWLINE \<or> NEWLINE = chr CHR ''_'')"
    "\<not> (is_digit U NEWLINE \<or> hex_letter U NEWLINE)"
    by (simp_all add: hex_letter_def lit_def)
qed

definition trivia :: "ustr \<Rightarrow> bool" where
  "trivia g \<longleftrightarrow> g \<in> {[32], [13], [9], [10]} \<or> (\<exists>r. g = [47, 47] @ r \<and> NEWLINE \<notin> set r)"

definition between :: "lexer \<Rightarrow> lexer \<Rightarrow> ustr" where
  "between l l' = drop (current l) (take (current l') (source l))"

text \<open>A scan ends in a state that moved over what it read, plus perhaps one token of that text.\<close>

definition tokened :: "lexer \<Rightarrow> lexer \<Rightarrow> bool" where
  "tokened l l' \<longleftrightarrow> (\<exists>l1 ty v. over any l l1 \<and> l' = add_token ty v l1)"

lemma tokened_add [intro]: "over p l l1 \<Longrightarrow> tokened l (add_token ty v l1)"
  unfolding tokened_def by (intro exI, rule conjI, erule over_any, rule refl)

lemma tokened_trans:
  assumes "over p l l1" and "tokened l1 l2"
  shows "tokened l l2"
proof -
  obtain l3 ty v where o3: "over any l1 l3" and l2: "l2 = add_token ty v l3"
    using assms(2) by (auto simp: tokened_def)
  from over_any [OF assms(1)] o3 have "over any l l3" by (rule over_trans)
  then show ?thesis unfolding l2 by (rule tokened_add)
qed

lemma tokened_add_refl [simp]: "tokened l (add_token ty v l)"
  by (rule tokened_add [OF over_refl])

lemma over_closing_quote:
  assumes "string_chars acc l = Inr (v, l1)" and "\<not> is_at_end l1" and "advance l1 = Inr (c, l2)"
  shows "over any l l2"
proof -
  have "c = QUOTE"
    using string_chars_over [OF assms(1)] assms(2,3) by (auto simp: peek_def advance_Inr)
  with over_advance(2) [OF assms(3)] have "over any l1 l2" by (auto intro: over_any)
  with over_string_chars [OF assms(1)] show ?thesis by (rule over_trans)
qed

lemma tokened_string: "lex_string l = Inr l' \<Longrightarrow> tokened l l'"
  by (auto simp: lex_string_def Let_def result_simps split: if_splits dest: over_closing_quote)

lemma tokened_identifier:
  assumes "unicode_ok U" and "lex_identifier U l = Inr l'"
  shows "tokened l l'"
proof -
  obtain l1 ty where "advance_while (\<lambda>c. is_alnum U c \<or> c = chr CHR ''_'') l = Inr l1"
    and l': "l' = add_token ty NoValue l1"
    using assms(2) by (auto simp: lex_identifier_def result_simps)
  from over_advance_while [OF this(1) unicode_newline(2) [OF assms(1)]]
  show ?thesis unfolding l' by (rule tokened_add)
qed

lemma tokened_hex:
  assumes "unicode_ok U" and "lex_hex U l = Inr l'" and "peek l \<noteq> NEWLINE"
  shows "tokened l l'"
proof -
  obtain c l1 l2 v where a: "advance l = Inr (c, l1)"
    and w: "advance_while (\<lambda>c. is_digit U c \<or> hex_letter U c) l1 = Inr l2"
    and l': "l' = add_token NUMBER v l2"
    using assms(2) by (auto simp: lex_hex_def Let_def result_simps split: if_splits)
  have "c \<noteq> NEWLINE" using a assms(3) by (auto simp: advance_Inr peek_def is_at_end_def)
  from over_any [OF over_advance(2) [OF a this]]
    over_any [OF over_advance_while [OF w unicode_newline(3) [OF assms(1)]]]
  have "over any l l2" by (rule over_trans)
  then show ?thesis unfolding l' by (rule tokened_add)
qed

lemma tokened_fraction:
  assumes "unicode_ok U" and "lex_fraction U l = Inr l'" and "peek l \<noteq> NEWLINE"
  shows "tokened l l'"
proof -
  obtain c l1 l2 v where a: "advance l = Inr (c, l1)" and w: "advance_while (is_digit U) l1 = Inr l2"
    and l': "l' = add_token FLOAT_NUMBER v l2"
    using assms(2) by (auto simp: lex_fraction_def Let_def result_simps split: if_splits)
  have "c \<noteq> NEWLINE" using a assms(3) by (auto simp: advance_Inr peek_def is_at_end_def)
  from over_any [OF over_advance(2) [OF a this]]
    over_any [OF over_advance_while [OF w unicode_newline(1) [OF assms(1)]]]
  have "over any l l2" by (rule over_trans)
  then show ?thesis unfolding l' by (rule tokened_add)
qed

lemma tokened_number:
  assumes U: "unicode_ok U" and "lex_number U l = Inr l'"
  shows "tokened l l'"
proof (cases "source l ! lex_start l = chr CHR ''0'' \<and> (peek l = chr CHR ''x'' \<or> peek l = chr CHR ''X'')")
  case True
  with assms(2) have "lex_hex U l = Inr l'" by (simp add: lex_number_def)
  then show ?thesis by (rule tokened_hex [OF U]) (use True in auto)
next
  case False
  with assms(2) obtain l1 where w: "advance_while (is_digit U) l = Inr l1"
    and r: "peek l1 = chr CHR ''.'' \<and> lex_fraction U l1 = Inr l' \<or> (\<exists>v. l' = add_token NUMBER v l1)"
    by (auto simp: lex_number_def result_simps split: if_splits)
  note o = over_advance_while [OF w unicode_newline(1) [OF U]]
  from r show ?thesis
  proof
    assume "peek l1 = chr CHR ''.'' \<and> lex_fraction U l1 = Inr l'"
    then have "tokened l1 l'" by (intro tokened_fraction [OF U]) auto
    with o show ?thesis by (rule tokened_trans)
  qed (use o in auto)
qed

lemma tokened_one_or_two: "c \<noteq> NEWLINE \<Longrightarrow> tokened l (one_or_two c a b l)"
  by (auto simp: one_or_two_def split: prod.splits dest!: over_match_char)

text \<open>A successful scan either appends the token of the text it read or read white space or a comment.\<close>

lemma tokened_second:
  assumes "match_char d l = (m, l1)" and "d \<noteq> NEWLINE"
  shows "tokened l (add_token ty v l1)" and "e \<noteq> NEWLINE \<Longrightarrow> tokened l (one_or_two e a b l1)"
  using over_match_char [OF assms] tokened_one_or_two by (blast intro: tokened_trans)+

lemma over_comment:
  assumes "over ((=) 47) l0 l" and "match_char 47 l = (True, l1)" and "skip_comment l1 = Inr l'"
    and "current l = Suc (current l0)"
  shows "over any l0 l' \<and> trivia (between l0 l')"
proof -
  have o1: "over ((=) 47) l l1" by (rule over_match_char [OF assms(2)]) simp
  have o2: "over (\<lambda>c. c \<noteq> NEWLINE) l1 l'" by (rule over_skip_comment [OF assms(3)])
  have c1: "current l1 = Suc (current l)" using assms(2) by (auto simp: match_char_def split: if_splits)
  have o: "over any l0 l'"
    by (rule over_trans [OF over_any [OF assms(1)] over_trans [OF over_any [OF o1] over_any [OF o2]]])
  have src: "source l = source l0" "source l1 = source l0" using assms(1) o1 by (simp_all add: over_def)
  have "source l0 ! current l0 = 47" "source l0 ! current l = 47" "current l1 \<le> current l'"
    using assms(1,4) o1 o2 c1 src by (auto simp: over_def)
  moreover have lim: "current l1 \<le> length (source l0)"
    using o1 c1 src unfolding over_def by (metis Suc_leI le_refl lessI)
  moreover define n where "n = current l0"
  moreover have "Suc (Suc n) \<le> length (take (current l') (source l0))"
    using calculation c1 assms(4) by simp
  note len = this
  ultimately have "between l0 l' = [47, 47] @ drop (Suc (Suc n)) (take (current l') (source l0))"
    using assms(4) c1 by (simp add: between_def Cons_nth_drop_Suc [symmetric])
  moreover have "NEWLINE \<notin> set (drop (Suc (Suc n)) (take (current l') (source l0)))"
  proof
    assume "NEWLINE \<in> set (drop (Suc (Suc n)) (take (current l') (source l0)))"
    then obtain i where "Suc (Suc n) + i < current l'" "source l0 ! (Suc (Suc n) + i) = NEWLINE"
      using len by (auto simp: in_set_conv_nth less_diff_conv add.commute)
    with o2 c1 assms(4) src show False by (auto simp: over_def n_def)
  qed
  ultimately show ?thesis using o by (auto simp: trivia_def)
qed

lemma scan_token_cases:
  assumes U: "unicode_ok U" and s: "scan_token U l0 = Inr l'"
  shows "tokened l0 l' \<or> over any l0 l' \<and> trivia (between l0 l')"
proof -
  from s obtain c l where a: "advance l0 = Inr (c, l)" by (auto simp: scan_token_def result_simps)
  have cur: "current l = Suc (current l0)" "current l0 < length (source l0)" "c = source l0 ! current l0"
    using a by (auto simp: advance_Inr)
  then have one: "between l0 l1 = [c]" if "current l1 = current l" for l1
    using that by (simp add: between_def take_Suc_conv_app_nth)
  show ?thesis
  proof (cases "c = NEWLINE")
    case True
    have "over any l0 (new_line c l)" by (rule over_advance(1) [OF a])
    with True s one show ?thesis by (auto simp: scan_token_def a new_line_def trivia_def)
  next
    case False
    note o = over_advance(2) [OF a False]
    show ?thesis
    proof (cases "c = chr CHR '' '' \<or> c = 13 \<or> c = 9")
      case True
      with s o one show ?thesis by (auto simp: scan_token_def a trivia_def intro: over_any)
    next
      case ns: False
      show ?thesis
      proof (cases "c = chr CHR ''/'' \<and> fst (match_char (chr CHR ''/'') l)")
        case True
        then obtain l1 where "match_char 47 l = (True, l1)" by (cases "match_char 47 l") auto
        with s True ns have "over any l0 l' \<and> trivia (between l0 l')"
          using over_comment [of l0 l l1 l'] o cur
          by (auto simp: scan_token_def a SINGLES_def)
        then show ?thesis ..
      next
        case nc: False
        have "tokened l l'"
          using s ns nc False unfolding scan_token_def a bindR_simps prod.case
          by (auto split: if_split_asm option.splits prod.splits bool.splits simp: tokened_one_or_two
            intro: tokened_second tokened_string tokened_number [OF U] tokened_identifier [OF U])
        with o show ?thesis by (blast intro: tokened_trans)
      qed
    qed
  qed
qed

section \<open>The whole source\<close>

text \<open>\<open>covers s ls\<close>: the text \<open>s\<close> is the lexemes \<open>ls\<close> in order, with only trivia between them.\<close>

inductive covers :: "ustr \<Rightarrow> ustr list \<Rightarrow> bool" where
  covers_nil: "covers [] []"
| covers_gap: "covers s ls \<Longrightarrow> trivia g \<Longrightarrow> covers (s @ g) ls"
| covers_token: "covers s ls \<Longrightarrow> t \<noteq> [] \<Longrightarrow> covers (s @ t) (ls @ [t])"

text \<open>A token stands where its lexeme is, and says so when the lexeme is on one line.\<close>

definition placed_token :: "ustr \<Rightarrow> token \<Rightarrow> bool" where
  "placed_token src t \<longleftrightarrow> (\<exists>p q. src = p @ lexeme t @ q
     \<and> (NEWLINE \<notin> set (lexeme t) \<longrightarrow> (tok_line t, tok_col t) = pos_of p))"

definition lexed :: "ustr \<Rightarrow> lexer \<Rightarrow> bool" where
  "lexed src l \<longleftrightarrow> source l = src \<and> current l \<le> length src \<and> pos_ok l
     \<and> covers (take (current l) src) (map lexeme (tokens l)) \<and> (\<forall>t \<in> set (tokens l). placed_token src t)"

lemma take_between:
  assumes "current l \<le> current l'"
  shows "take (current l') (source l) = take (current l) (source l) @ between l l'"
proof -
  have "take (current l) (take (current l') (source l)) = take (current l) (source l)"
    using assms by (simp add: min_def)
  then show ?thesis unfolding between_def by (metis append_take_drop_id)
qed

lemma lexed_step:
  assumes U: "unicode_ok U" and l: "lexed src l" and s: "scan_token U (l\<lparr>lex_start := current l\<rparr>) = Inr l'"
  shows "lexed src l'"
proof -
  let ?l = "l\<lparr>lex_start := current l\<rparr>"
  have more: "current l < current l'" "source l' = src" "current l \<le> length src"
    using scan_token_progress [OF s] l by (simp_all add: lexed_def)
  have pos: "pos_ok ?l" using l by (simp add: lexed_def pos_ok_def)
  from scan_token_cases [OF U s] show ?thesis
  proof
    assume "tokened ?l l'"
    then obtain l1 ty v where o: "over any ?l l1" and l': "l' = add_token ty v l1"
      by (auto simp: tokened_def)
    have cur: "current l' = current l1" "source l1 = src" "lex_start l1 = current l" "tokens l1 = tokens l"
      using o l more by (simp_all add: l' add_token_def over_def)
    have lim: "current l1 \<le> length src" using over_limit [OF o] cur l by (simp add: lexed_def)
    have pos1: "pos_ok l1" using o pos by (simp add: over_def)
    let ?t = "\<lparr>tok_type = ty, lexeme = span l1, tok_line = line l1, tok_col = span_col l1, tok_literal = v\<rparr>"
    have split: "take (current l1) src = take (current l) src @ span l1"
      using take_between [of l l1] more cur l by (simp add: between_def span_def lexed_def)
    have ne: "span l1 \<noteq> []" using more cur lim by (simp add: span_def)
    have "src = take (current l) src @ span l1 @ drop (current l1) src"
      using split by (metis append.assoc append_take_drop_id)
    moreover have "(line l1, span_col l1) = pos_of (take (current l) src)" if "NEWLINE \<notin> set (span l1)"
    proof -
      have "length (span l1) = current l1 - current l" using lim cur by (simp add: span_def)
      with pos1 pos_of_append [OF that, of "take (current l) src"] cur more show ?thesis
        by (simp add: pos_ok_def split span_col_def prod_eq_iff)
    qed
    ultimately have "placed_token src ?t" unfolding placed_token_def by fastforce
    moreover have "covers (take (current l1) src) (map lexeme (tokens l) @ [span l1])"
      unfolding split using l ne by (intro covers_token) (simp_all add: lexed_def)
    ultimately show ?thesis
      using l lim pos1 cur by (simp add: lexed_def l' add_token_def pos_ok_def)
  next
    assume "over any ?l l' \<and> trivia (between ?l l')"
    then have o: "over any ?l l'" and g: "trivia (between l l')" by (simp_all add: between_def)
    have "tokens l' = tokens l" "pos_ok l'" using o pos by (simp_all add: over_def)
    moreover have "current l' \<le> length src" using over_limit [OF o] more l by (simp add: lexed_def)
    moreover have "covers (take (current l') src) (map lexeme (tokens l))"
      using take_between [of l l'] more l g by (auto simp: lexed_def intro: covers_gap)
    ultimately show ?thesis using more l by (simp add: lexed_def)
  qed
qed

lemma lexed_loop: "unicode_ok U \<Longrightarrow> lexed src l \<Longrightarrow> lex_loop U l = Inr l' \<Longrightarrow> lexed src l' \<and> is_at_end l'"
proof (induction U l rule: lex_loop.induct)
  case (1 U l)
  show ?case
  proof (cases "is_at_end l")
    case True
    with 1(4) have "l' = l" by (subst (asm) lex_loop.simps) simp
    with True 1(3) show ?thesis by simp
  next
    case False
    with 1(4) obtain l1 where s: "scan_token U (l\<lparr>lex_start := current l\<rparr>) = Inr l1"
      and r: "lex_loop U l1 = Inr l'"
      by (subst (asm) lex_loop.simps) (auto simp: result_simps)
    from 1(1) [OF False s 1(2) lexed_step [OF 1(2,3) s] r] show ?thesis .
  qed
qed


section \<open>Errors\<close>

text \<open>Every character the host calls a digit has a decimal value, and no literal is absurdly long.\<close>

definition plain_digits :: "unicode \<Rightarrow> ustr \<Rightarrow> bool" where
  "plain_digits U src \<longleftrightarrow> (\<forall>c \<in> set src. is_digit U c \<longrightarrow> decimal U c \<noteq> None)
     \<and> (\<forall>c \<in> set src. 128 \<le> c \<longrightarrow> \<not> hex_letter U c) \<and> length src \<le> 4300"

definition own_fault :: "lex_error + 'a \<Rightarrow> bool" where
  "own_fault r \<longleftrightarrow> (\<forall>h. r \<noteq> Inl (LexHost h))"

lemma own_fault_simps [simp]:
  "own_fault (Inr x)" "own_fault (Inl (LexError e i j))" "\<not> own_fault (Inl (LexHost h))"
  by (simp_all add: own_fault_def)

lemma own_fault_bind: "own_fault m \<Longrightarrow> (\<And>x. m = Inr x \<Longrightarrow> own_fault (f x)) \<Longrightarrow> own_fault (bindR m f)"
  by (cases m) (auto simp: own_fault_def)

lemma own_advance: "\<not> is_at_end l \<Longrightarrow> own_fault (advance l)"
  by (simp add: advance_def is_at_end_def)

lemma own_advance_while: "\<not> p 0 \<Longrightarrow> own_fault (advance_while p l)"
proof (induction p l rule: advance_while.induct)
  case (1 p l)
  have "\<not> is_at_end l" if "p (peek l)" using that 1(2) by (auto simp: peek_def)
  with 1 show ?case
    by (subst advance_while.simps) (auto intro!: own_fault_bind own_advance)
qed

lemma own_skip_comment: "own_fault (skip_comment l)"
proof (induction l rule: skip_comment.induct)
  case (1 l)
  then show ?case
    by (subst skip_comment.simps) (auto intro!: own_fault_bind own_advance)
qed

lemma own_string_chars: "own_fault (string_chars acc l)"
proof (induction acc l rule: string_chars.induct)
  case (1 acc l)
  show ?case
    by (subst string_chars.simps)
      (auto simp: Let_def intro!: own_fault_bind own_advance 1(2) [OF _ _ refl refl]
        1(1) [OF _ _ refl refl _ _ _ refl refl] split: option.splits)
qed

lemma own_string: "own_fault (lex_string l)"
  by (auto simp: lex_string_def Let_def intro!: own_fault_bind own_string_chars own_advance)

lemma own_digit_values: "(\<And>c. c \<in> set s \<Longrightarrow> f c \<noteq> None) \<Longrightarrow> own_fault (digit_values f s)"
  unfolding digit_values_def
  by (induction s) (auto intro!: own_fault_bind split: option.splits)

lemma length_digit_values: "digit_values f s = Inr ds \<Longrightarrow> length ds = length s"
  unfolding digit_values_def by (induction s arbitrary: ds) (auto simp: result_simps)

text \<open>The characters of the token read so far, and how a loop adds to them.\<close>

lemma in_set_slice: "c \<in> set (drop n (take m xs)) \<longleftrightarrow> (\<exists>j. n \<le> j \<and> j < m \<and> j < length xs \<and> c = xs ! j)"
proof
  assume "c \<in> set (drop n (take m xs))"
  then obtain i where "i < length (drop n (take m xs))" "c = drop n (take m xs) ! i"
    by (auto simp: in_set_conv_nth)
  then show "\<exists>j. n \<le> j \<and> j < m \<and> j < length xs \<and> c = xs ! j"
    by (intro exI [of _ "n + i"]) (simp add: less_diff_conv add.commute)
next
  assume "\<exists>j. n \<le> j \<and> j < m \<and> j < length xs \<and> c = xs ! j"
  then obtain j where "n \<le> j" "j < m" "j < length xs" "c = xs ! j" by blast
  then show "c \<in> set (drop n (take m xs))"
    by (auto simp: in_set_conv_nth intro!: exI [of _ "j - n"])
qed

lemma set_span: "c \<in> set (span l) \<longleftrightarrow>
    (\<exists>j. lex_start l \<le> j \<and> j < current l \<and> j < length (source l) \<and> c = source l ! j)"
  by (simp add: span_def in_set_slice)

lemma span_over:
  assumes "over p l l'" and "\<And>c. c \<in> set (span l) \<Longrightarrow> q c" and "\<And>c. c \<in> set (source l) \<Longrightarrow> p c \<Longrightarrow> q c"
  shows "c \<in> set (span l') \<Longrightarrow> q c"
proof -
  assume "c \<in> set (span l')"
  then obtain j where j: "lex_start l \<le> j" "j < current l'" "j < length (source l)" "c = source l ! j"
    using assms(1) by (auto simp: set_span over_def)
  show "q c"
  proof (cases "j < current l")
    case True
    with j assms(2) show ?thesis by (auto simp: set_span)
  next
    case False
    with j assms(1,3) show ?thesis by (auto simp: over_def)
  qed
qed

lemma length_span: "length (span l) \<le> length (source l)"
  by (simp add: span_def)

lemma own_int_of_text:
  assumes "\<And>c. c \<in> set s \<Longrightarrow> decimal U c \<noteq> None" and "length s \<le> 4300"
  shows "own_fault (int_of_text U s)"
  unfolding int_of_text_def
  by (rule own_fault_bind [OF own_digit_values]) (use assms length_digit_values in fastforce)+

lemma own_check [simp]:
  "own_fault (check_trailing U l)" "own_fault (check_range n s l)" "own_fault (check_float_range v s l)"
  by (simp_all add: check_trailing_def check_range_def check_float_range_def)

lemma unicode_zero:
  assumes "unicode_ok U"
  shows "\<not> is_digit U 0" and "\<not> (is_alnum U 0 \<or> 0 = chr CHR ''_'')" and "\<not> (is_digit U 0 \<or> hex_letter U 0)"
proof -
  have "(0 :: nat) < 128" by simp
  with assms have u: "\<not> is_digit U 0" "\<not> is_alnum U 0" "lower U 0 = [0]"
    unfolding unicode_ok_def by fastforce+
  then show "\<not> is_digit U 0" "\<not> (is_alnum U 0 \<or> 0 = chr CHR ''_'')" "\<not> (is_digit U 0 \<or> hex_letter U 0)"
    by (simp_all add: hex_letter_def lit_def)
qed

lemma hex_letter_ascii: "unicode_ok U \<Longrightarrow> c < 128 \<Longrightarrow> hex_letter U c \<Longrightarrow> hex_value U c \<noteq> None"
  by (auto simp: unicode_ok_def hex_letter_def hex_value_def lit_def split: if_splits)

lemma own_hex:
  assumes U: "unicode_ok U" and d: "plain_digits U (source l)" and p: "peek l \<noteq> 0"
    and s: "lex_start l + 1 = current l"
  shows "own_fault (lex_hex U l)"
  unfolding lex_hex_def
proof (rule own_fault_bind [OF own_advance], goal_cases)
  case 1
  show ?case using p by (auto simp: peek_def)
next
  case (2 x)
  obtain c l1 where x: "x = (c, l1)" by (cases x)
  have a: "advance l = Inr (c, l1)" using 2 x by simp
  have l1: "source l1 = source l" "lex_start l1 + 2 = current l1" using a s by (auto simp: advance_Inr)
  show ?case
    unfolding x prod.case Let_def
  proof (rule own_fault_bind [OF own_advance_while [where p = "\<lambda>c. is_digit U c \<or> hex_letter U c", OF unicode_zero(3) [OF U]]])
    fix l2 assume w: "advance_while (\<lambda>c. is_digit U c \<or> hex_letter U c) l1 = Inr l2"
    note o = over_advance_while [OF w unicode_newline(3) [OF U]]
    have "hex_value U c \<noteq> None" if "c \<in> set (drop 2 (span l2))" for c
    proof -
      have "drop 2 (span l2) = drop (current l1) (take (current l2) (source l2))"
        using o l1 by (simp add: span_def over_def add.commute)
      with that obtain j where j: "current l1 \<le> j" "j < current l2" "c = source l1 ! j" "j < length (source l1)"
        using o by (auto simp: in_set_slice over_def)
      then have "is_digit U c \<or> hex_letter U c" "c \<in> set (source l)" using o l1 by (auto simp: over_def)
      then show ?thesis
        using d hex_letter_ascii [OF U, of c] by (auto simp: plain_digits_def hex_value_def not_less)
    qed
    then have "own_fault (hex_of_text U (drop 2 (span l2)))"
      unfolding hex_of_text_def by (intro own_fault_bind own_digit_values) auto
    then show "own_fault (if current l2 = current l1 then Inl (LexError NoHexDigits (line l2) (span_col l2))
        else bindR (check_trailing U l2) (\<lambda>_. bindR (hex_of_text U (drop 2 (span l2))) (\<lambda>value.
          bindR (check_range value (span l2) l2) (\<lambda>_. Inr (add_token NUMBER (IntValue value) l2)))))"
      by (auto intro!: own_fault_bind)
  qed
qed

lemma span_split:
  assumes "over p l l'" and "lex_start l \<le> current l" and "current l \<le> length (source l)"
  shows "span l' = span l @ between l l'"
proof -
  have "span l' = drop (lex_start l) (take (current l) (source l) @ between l l')"
    using assms(1) take_between [of l l'] by (simp add: span_def over_def)
  with assms(2,3) show ?thesis by (simp add: span_def)
qed

lemma own_fraction:
  assumes U: "unicode_ok U" and d: "plain_digits U (source l)" and p: "peek l = chr CHR ''.''"
    and s: "lex_start l \<le> current l" and ds: "\<And>c. c \<in> set (span l) \<Longrightarrow> is_digit U c"
  shows "own_fault (lex_fraction U l)"
proof -
  have dot: "\<not> is_digit U 46" using U by (simp add: unicode_ok_def)
  have ne: "\<not> is_at_end l" using p by (auto simp: peek_def)
  have "own_fault (bindR (advance l) (\<lambda>(_, l1). bindR (advance_while (is_digit U) l1) (\<lambda>l2.
      bindR (check_trailing U l2) (\<lambda>_. bindR (float_of_text U (span l2)) (\<lambda>value.
      bindR (check_float_range value (span l2) l2) (\<lambda>_. Inr (add_token FLOAT_NUMBER (FloatValue value) l2)))))))"
  proof (rule own_fault_bind [OF own_advance [OF ne]])
    fix x assume x: "advance l = Inr x"
    obtain c l1 where xc: "x = (c, l1)" by (cases x)
    have a: "advance l = Inr (c, l1)" using x xc by simp
    have c: "c = 46" using a p by (auto simp: advance_Inr peek_def is_at_end_def)
    then have s1: "span l1 = span l @ [46]" "lex_start l1 \<le> current l1" "current l1 \<le> length (source l1)"
        "source l1 = source l"
      using a s by (auto simp: advance_Inr span_def take_Suc_conv_app_nth)
    show "own_fault (case x of (_, l1) \<Rightarrow> bindR (advance_while (is_digit U) l1) (\<lambda>l2.
        bindR (check_trailing U l2) (\<lambda>_. bindR (float_of_text U (span l2)) (\<lambda>value.
        bindR (check_float_range value (span l2) l2) (\<lambda>_. Inr (add_token FLOAT_NUMBER (FloatValue value) l2))))))"
      unfolding xc prod.case
    proof (rule own_fault_bind [OF own_advance_while [where p = "is_digit U", OF unicode_zero(1) [OF U]]])
      fix l2 assume w: "advance_while (is_digit U) l1 = Inr l2"
      note o = over_advance_while [OF w unicode_newline(1) [OF U]]
      have fr: "is_digit U c" if "c \<in> set (between l1 l2)" for c
        using that o by (auto simp: between_def in_set_slice over_def)
      have sp: "span l2 = span l @ 46 # between l1 l2" using span_split [OF o s1(2,3)] s1(1) by simp
      have tw: "takeWhile (\<lambda>c. c \<noteq> 46) (span l2) = span l"
        unfolding sp using ds dot by (subst takeWhile_append2) auto
      have "own_fault (digit_values (decimal U) (span l @ between l1 l2))"
      proof (rule own_digit_values)
        fix c assume c: "c \<in> set (span l @ between l1 l2)"
        then have "is_digit U c" using ds fr by auto
        moreover have "c \<in> set (source l)"
          using c s1(4) by (auto simp: span_def between_def dest!: in_set_dropD in_set_takeD)
        ultimately show "decimal U c \<noteq> None" using d by (simp add: plain_digits_def)
      qed
      then have "own_fault (float_of_text U (span l2))"
        unfolding float_of_text_def by (simp add: tw Let_def) (simp add: sp own_fault_bind)
      then show "own_fault (bindR (check_trailing U l2) (\<lambda>_. bindR (float_of_text U (span l2)) (\<lambda>value.
          bindR (check_float_range value (span l2) l2) (\<lambda>_. Inr (add_token FLOAT_NUMBER (FloatValue value) l2)))))"
        by (auto intro!: own_fault_bind)
    qed
  qed
  then show ?thesis by (simp add: lex_fraction_def)
qed

lemma own_number:
  assumes U: "unicode_ok U" and d: "plain_digits U (source l)" and s: "lex_start l + 1 = current l"
    and lim: "current l \<le> length (source l)" and f: "is_digit U (source l ! lex_start l)"
  shows "own_fault (lex_number U l)"
proof (cases "source l ! lex_start l = chr CHR ''0'' \<and> (peek l = chr CHR ''x'' \<or> peek l = chr CHR ''X'')")
  case True
  then show ?thesis by (auto simp: lex_number_def intro!: own_hex [OF U d _ s])
next
  case False
  have "own_fault (bindR (advance_while (is_digit U) l) (\<lambda>l1.
        if peek l1 = chr CHR ''.'' then lex_fraction U l1
        else bindR (check_trailing U l1) (\<lambda>_.
             bindR (int_of_text U (span l1)) (\<lambda>value.
             bindR (check_range value (span l1) l1) (\<lambda>_. Inr (add_token NUMBER (IntValue value) l1))))))"
  proof (rule own_fault_bind [OF own_advance_while [where p = "is_digit U", OF unicode_zero(1) [OF U]]])
    fix l1 assume w: "advance_while (is_digit U) l = Inr l1"
    note o = over_advance_while [OF w unicode_newline(1) [OF U]]
    have src: "source l1 = source l" "lex_start l1 \<le> current l1" using o s by (auto simp: over_def)
    have dig: "is_digit U c" if "c \<in> set (span l1)" for c
    proof (rule span_over [OF o _ _ that])
      show "is_digit U c" if "c \<in> set (span l)" for c
        using that f s by (auto simp: set_span less_Suc_eq simp flip: s)
    qed
    have "decimal U c \<noteq> None" if "c \<in> set (span l1)" for c
      using dig [OF that] that d src by (auto simp: plain_digits_def set_span)
    then have i: "own_fault (int_of_text U (span l1))"
      using length_span [of l1] src d by (intro own_int_of_text) (auto simp: plain_digits_def)
    show "own_fault (if peek l1 = chr CHR ''.'' then lex_fraction U l1
        else bindR (check_trailing U l1) (\<lambda>_. bindR (int_of_text U (span l1)) (\<lambda>value.
          bindR (check_range value (span l1) l1) (\<lambda>_. Inr (add_token NUMBER (IntValue value) l1)))))"
      using own_fraction [OF U _ _ src(2) dig] d src i by (auto intro!: own_fault_bind)
  qed
  with False show ?thesis by (simp only: lex_number_def if_False)
qed

lemma own_if: "(b \<Longrightarrow> own_fault x) \<Longrightarrow> (\<not> b \<Longrightarrow> own_fault y) \<Longrightarrow> own_fault (if b then x else y)"
  by simp

lemma own_option:
  "own_fault n \<Longrightarrow> (\<And>x. own_fault (f x)) \<Longrightarrow> own_fault (case m of None \<Rightarrow> n | Some x \<Rightarrow> f x)"
  by (cases m) simp_all

lemma own_match:
  "(\<And>l1. own_fault (f l1)) \<Longrightarrow> (\<And>l1. own_fault (g l1)) \<Longrightarrow>
    own_fault (case match_char c l of (True, l1) \<Rightarrow> f l1 | (False, l1) \<Rightarrow> g l1)"
  by (cases "match_char c l") (simp split: bool.splits)

lemma own_scan_token:
  assumes U: "unicode_ok U" and d: "plain_digits U (source l0)" and e: "\<not> is_at_end l0"
    and s: "lex_start l0 = current l0"
  shows "own_fault (scan_token U l0)"
proof -
  obtain c l where a: "advance l0 = Inr (c, l)" using e by (auto simp: advance_def is_at_end_def)
  have l: "source l = source l0" "lex_start l + 1 = current l" "current l \<le> length (source l)"
      "source l ! lex_start l = c"
    using a s by (auto simp: advance_Inr)
  have n: "is_digit U c \<Longrightarrow> own_fault (lex_number U l)" using own_number [OF U, of l] d l by simp
  have i: "own_fault (lex_identifier U l)"
    unfolding lex_identifier_def
    by (rule own_fault_bind [OF own_advance_while [where p = "\<lambda>c. is_alnum U c \<or> c = chr CHR ''_''",
        OF unicode_zero(2) [OF U]]]) simp
  show ?thesis
    unfolding scan_token_def a bindR_simps prod.case
    by (intro own_if own_option own_match own_fault_simps own_skip_comment own_string n i) assumption
qed


section \<open>Reading printed tokens back\<close>

datatype piece = Word ustr | Num nat

fun piece_text :: "piece \<Rightarrow> ustr" where
  "piece_text (Word w) = w"
| "piece_text (Num n) = dec_nat n"

definition print_pieces :: "piece list \<Rightarrow> ustr" where
  "print_pieces ps = concat (map (\<lambda>p. piece_text p @ [32]) ps)"

definition word_char :: "nat \<Rightarrow> bool" where
  "word_char c \<longleftrightarrow> 48 \<le> c \<and> c \<le> 57 \<or> 65 \<le> c \<and> c \<le> 90 \<or> 97 \<le> c \<and> c \<le> 122 \<or> c = 95"

fun piece_ok :: "piece \<Rightarrow> bool" where
  "piece_ok (Word w) = (w \<noteq> [] \<and> (\<forall>c \<in> set w. word_char c) \<and> \<not> (48 \<le> hd w \<and> hd w \<le> 57))"
| "piece_ok (Num n) = (n \<le> 65535)"

fun piece_token :: "piece \<Rightarrow> token_type \<times> ustr \<times> token_value" where
  "piece_token (Word w) = (case map_of KEYWORDS w of None \<Rightarrow> IDENTIFIER | Some ty \<Rightarrow> ty, w, NoValue)"
| "piece_token (Num n) = (NUMBER, dec_nat n, IntValue n)"

definition token_view :: "token \<Rightarrow> token_type \<times> ustr \<times> token_value" where
  "token_view t = (tok_type t, lexeme t, tok_literal t)"

lemma advance_while_word:
  assumes "source l = pre @ w @ c # post" and "current l = length pre"
    and "\<And>x. x \<in> set w \<Longrightarrow> p x" and "\<not> p c"
  shows "advance_while p l = Inr (l\<lparr>current := length pre + length w, col := col l + int (length w)\<rparr>)"
  using assms
proof (induction w arbitrary: l pre)
  case Nil
  then show ?case by (subst advance_while.simps) (simp add: peek_def is_at_end_def)
next
  case (Cons x w)
  let ?l = "l\<lparr>current := current l + 1, col := col l + 1\<rparr>"
  have "advance_while p ?l = Inr (?l\<lparr>current := length (pre @ [x]) + length w, col := col ?l + int (length w)\<rparr>)"
    by (rule Cons.IH) (use Cons.prems in auto)
  with Cons.prems show ?case
    by (subst advance_while.simps) (simp add: peek_def is_at_end_def advance_def add.commute)
qed

text \<open>A scan of one piece that a space follows.\<close>

lemma scan_word:
  assumes U: "unicode_ok U" and src: "source l = pre @ w @ 32 # post" and cur: "current l = length pre"
    and st: "lex_start l = current l" and w: "piece_ok (Word w)"
  shows "\<exists>l'. scan_token U l = Inr l' \<and> source l' = source l \<and> current l' = length pre + length w
    \<and> map token_view (tokens l') = map token_view (tokens l) @ [piece_token (Word w)]"
proof -
  obtain c r where wc: "w = c # r" using w by (cases w) auto
  have c: "65 \<le> c \<and> c \<le> 90 \<or> 97 \<le> c \<and> c \<le> 122 \<or> c = 95" using w by (auto simp: wc word_char_def)
  let ?l = "l\<lparr>current := Suc (length pre), col := col l + 1\<rparr>"
  have a: "advance l = Inr (c, ?l)" using src cur by (simp add: advance_def wc nth_append)
  have al: "is_alpha U c \<or> c = 95" "\<not> is_digit U c" using c U by (auto simp: unicode_ok_def)
  have it: "is_alnum U x \<or> x = 95" if "x \<in> set r" for x
    using that w U by (auto simp: wc word_char_def unicode_ok_def)
  have sp: "\<not> (is_alnum U 32 \<or> 32 = (95 :: nat))" using U by (simp add: unicode_ok_def)
  let ?l' = "?l\<lparr>current := Suc (length pre) + length r, col := col l + 1 + int (length r)\<rparr>"
  have "advance_while (\<lambda>c. is_alnum U c \<or> c = 95) ?l = Inr ?l'"
    using advance_while_word [of ?l "pre @ [c]" r 32 post "\<lambda>c. is_alnum U c \<or> c = 95"] src it sp wc by simp
  moreover have "span ?l' = w" using src st cur by (simp add: span_def wc)
  ultimately have "lex_identifier U ?l
      = Inr (add_token (case map_of KEYWORDS w of None \<Rightarrow> IDENTIFIER | Some ty \<Rightarrow> ty) NoValue ?l')"
    by (simp add: lex_identifier_def)
  moreover have "scan_token U l = lex_identifier U ?l"
    using c al by (auto simp: scan_token_def a SINGLES_def)
  ultimately show ?thesis
    using \<open>span ?l' = w\<close> wc by (simp add: add_token_def token_view_def)
qed

lemma digit_values_dec:
  assumes "unicode_ok U"
  shows "digit_values (decimal U) (dec_nat n) = Inr (map (\<lambda>d. d - 48) (dec_nat n))"
  unfolding digit_values_def
proof (rule mapR_Inr)
  fix d assume "d \<in> set (dec_nat n)"
  then show "(case decimal U d of None \<Rightarrow> Inl (LexHost ValueError) | Some d \<Rightarrow> Inr d) = Inr (d - 48)"
    using dec_nat_digits [of d n] assms by (auto simp: unicode_ok_def)
qed

lemma length_dec_nat: "n \<le> 65535 \<Longrightarrow> length (dec_nat n) \<le> 5"
proof -
  have "n < 10 ^ Suc k \<Longrightarrow> length (dec_nat n) \<le> Suc k" for k n
  proof (induction k arbitrary: n)
    case (Suc k)
    then have "n div 10 < 10 ^ Suc k" by auto
    from Suc.IH [OF this] show ?case by (subst dec_nat.simps) simp
  qed (subst dec_nat.simps, simp)
  from this [of n 4] show "n \<le> 65535 \<Longrightarrow> length (dec_nat n) \<le> 5" by simp
qed

lemma scan_number:
  assumes U: "unicode_ok U" and src: "source l = pre @ dec_nat n @ 32 # post" and cur: "current l = length pre"
    and st: "lex_start l = current l" and n: "n \<le> 65535"
  shows "\<exists>l'. scan_token U l = Inr l' \<and> source l' = source l \<and> current l' = length pre + length (dec_nat n)
    \<and> map token_view (tokens l') = map token_view (tokens l) @ [piece_token (Num n)]"
proof -
  obtain c r where wc: "dec_nat n = c # r" by (cases "dec_nat n") auto
  have dig: "48 \<le> x \<and> x \<le> 57" if "x \<in> set (c # r)" for x using that dec_nat_digits wc by metis
  have du: "is_digit U x" if "x \<in> set (c # r)" for x using dig [OF that] U by (simp add: unicode_ok_def)
  let ?l = "l\<lparr>current := Suc (length pre), col := col l + 1\<rparr>"
  have a: "advance l = Inr (c, ?l)" using src cur by (simp add: advance_def wc nth_append)
  have sp: "\<not> is_digit U 32" "\<not> is_alnum U 32" using U by (simp_all add: unicode_ok_def)
  let ?l' = "?l\<lparr>current := Suc (length pre) + length r, col := col l + 1 + int (length r)\<rparr>"
  have w: "advance_while (is_digit U) ?l = Inr ?l'"
    using advance_while_word [of ?l "pre @ [c]" r 32 post "is_digit U"] src du sp wc by simp
  have pk: "peek ?l' = 32" using src by (simp add: peek_def is_at_end_def wc nth_append)
  have pk1: "peek ?l \<noteq> 120" "peek ?l \<noteq> 88"
    using src dig [of "hd r"] by (cases r; auto simp: peek_def is_at_end_def wc nth_append)+
  have s: "span ?l' = dec_nat n" using src st cur by (simp add: span_def wc)
  have "int_of_text U (dec_nat n) = Inr n"
    using length_dec_nat [OF n] by (simp add: int_of_text_def digit_values_dec [OF U] read_dec_nat)
  then have "lex_number U ?l = Inr (add_token NUMBER (IntValue n) ?l')"
    using pk1 pk n s w sp by (simp add: lex_number_def check_trailing_def check_range_def)
  moreover have "scan_token U l = lex_number U ?l"
    using dig [of c] du [of c] by (auto simp: scan_token_def a SINGLES_def)
  ultimately show ?thesis
    using s wc by (simp add: add_token_def token_view_def)
qed

lemma scan_space:
  assumes "source l = pre @ 32 # post" and "current l = length pre"
  shows "scan_token U l = Inr (l\<lparr>current := Suc (length pre), col := col l + 1\<rparr>)"
  using assms by (simp add: scan_token_def advance_def)

lemma lex_pieces:
  assumes U: "unicode_ok U" and "list_all piece_ok ps" and "source l = pre @ print_pieces ps"
    and "current l = length pre"
  shows "\<exists>l'. lex_loop U l = Inr l' \<and> map token_view (tokens l') = map token_view (tokens l) @ map piece_token ps"
  using assms(2-)
proof (induction ps arbitrary: l pre)
  case Nil
  then show ?case by (subst lex_loop.simps) (simp add: is_at_end_def print_pieces_def)
next
  case (Cons p ps)
  have src: "source l = pre @ piece_text p @ 32 # print_pieces ps"
    using Cons.prems(2) by (simp add: print_pieces_def)
  let ?l = "l\<lparr>lex_start := current l\<rparr>"
  obtain l1 where l1: "scan_token U ?l = Inr l1" "source l1 = source l"
      "current l1 = length pre + length (piece_text p)"
      "map token_view (tokens l1) = map token_view (tokens l) @ [piece_token p]"
  proof (cases p)
    case (Word w)
    with scan_word [OF U, of ?l pre w "print_pieces ps"] src Cons.prems that show thesis by auto
  next
    case (Num n)
    with scan_number [OF U, of ?l pre n "print_pieces ps"] src Cons.prems that show thesis by auto
  qed
  have src1: "source (l1\<lparr>lex_start := current l1\<rparr>) = (pre @ piece_text p) @ 32 # print_pieces ps"
    using l1(2) src by simp
  let ?l2 = "l1\<lparr>lex_start := current l1, current := Suc (length (pre @ piece_text p)), col := col l1 + 1\<rparr>"
  have s2: "scan_token U (l1\<lparr>lex_start := current l1\<rparr>) = Inr ?l2"
    using scan_space [OF src1, of U] l1(3) by simp
  have "\<exists>l'. lex_loop U ?l2 = Inr l' \<and> map token_view (tokens l') = map token_view (tokens ?l2) @ map piece_token ps"
    by (rule Cons.IH [of ?l2 "pre @ piece_text p @ [32]"]) (use Cons.prems src1 in simp_all)
  moreover have "lex_loop U l = lex_loop U ?l2"
    using src l1 s2 Cons.prems(3)
    by (subst lex_loop.simps, simp add: is_at_end_def, subst lex_loop.simps, simp add: is_at_end_def)
  ultimately show ?case using l1(4) by simp
qed

text \<open>
  Printing identifiers, keywords and numbers that fit a word, each followed by a space,
  and lexing the text gives them back: the keywords as keyword tokens, the numbers with their values.
\<close>

theorem print_lex:
  assumes "unicode_ok U" and "list_all piece_ok ps"
  shows "\<exists>ts e. tokenize U (print_pieces ps) = Inr (ts @ [e]) \<and> map token_view ts = map piece_token ps
    \<and> tok_type e = EOF"
proof -
  from lex_pieces [OF assms, of "new_lexer (print_pieces ps)" "[]"]
  obtain l where "lex_loop U (new_lexer (print_pieces ps)) = Inr l" "map token_view (tokens l) = map piece_token ps"
    by (auto simp: new_lexer_def)
  then show ?thesis by (simp add: tokenize_def)
qed

section \<open>Examples\<close>

theorem print_lex_witness:
  "\<exists>ts e. tokenize ascii_only (print_pieces [Word (lit ''let''), Word (lit ''x1''), Num 65535]) = Inr (ts @ [e])
     \<and> map token_view ts = [(LET, lit ''let'', NoValue), (IDENTIFIER, lit ''x1'', NoValue), (NUMBER, dec_nat 65535, IntValue 65535)]"
  using print_lex [OF ascii_only_ok, of "[Word (lit ''let''), Word (lit ''x1''), Num 65535]"]
  by (auto simp: word_char_def lit_def KEYWORDS_def)

lemmas lex_eval = tokenize_def lex_loop.simps scan_token_def new_lexer_def advance_def is_at_end_def SINGLES_def
  lex_identifier_def lex_number_def advance_while.simps peek_def ascii_only_def add_token_def
  span_def span_col_def KEYWORDS_def check_trailing_def check_range_def int_of_text_def digit_values_def
  read_digits_def lex_string_def string_chars.simps new_line_def lit_def match_char_def skip_comment.simps

lemma sample_tokens: "\<exists>ts. tokenize ascii_only (lit ''x=1 // c'') = Inr ts \<and> 0 < length ts"
  by (simp add: lex_eval one_or_two_def)



text \<open>
  A superscript two is a digit for \<open>isdigit\<close> and has no decimal value, so lexing it ends in the
  host's \<open>ValueError\<close>.
\<close>

lemma superscript_escapes:
  "tokenize (ascii_only\<lparr>is_digit := (\<lambda>c. c = 178 \<or> is_digit ascii_only c)\<rparr>) [178] = Inl (LexHost ValueError)"
  by (simp add: lex_eval)

text \<open>A string literal over a line end reports the line of its end and a column before the margin.\<close>

lemma multiline_string_position:
  "map_sum id (map (\<lambda>t. (tok_line t, tok_col t))) (tokenize ascii_only [34, 97, 98, 99, 10, 34])
    = Inr [(2, - 4), (2, 2)]"
  by (simp add: lex_eval)

end
