(* ===== verification/Types.thy ===== *)
theory Types
  imports Machine
begin

text \<open>
  The type system of \<open>compiler/compiler_types.py\<close>: types and the declarations that introduce them,
  the predicates the checker asks of them, and the functions that take a type's spelling apart and
  put it together again.
\<close>

section \<open>Types\<close>

text \<open>
  One constructor per class; a dataclass compares the class and every field, as equality does here.
  \<open>Plain\<close> is the base class itself.
\<close>

datatype qtype =
    Plain ustr nat
  | StructType ustr nat
  | EnumType ustr nat
  | FuncType ustr nat "qtype list" qtype
  | ArrayObjType ustr nat qtype

fun type_name :: "qtype \<Rightarrow> ustr" where
  "type_name (Plain n _) = n"
| "type_name (StructType n _) = n"
| "type_name (EnumType n _) = n"
| "type_name (FuncType n _ _ _) = n"
| "type_name (ArrayObjType n _ _) = n"

definition TInt :: qtype where "TInt = Plain (lit ''int'') 2"
definition TStr :: qtype where "TStr = Plain (lit ''str'') 2"
definition TVoid :: qtype where "TVoid = Plain (lit ''void'') 0"
definition TBool :: qtype where "TBool = Plain (lit ''bool'') 1"
definition TFloat :: qtype where "TFloat = Plain (lit ''float'') 4"
definition TPtr :: qtype where "TPtr = Plain (lit ''ptr'') 2"
definition THeapPtr :: qtype where "THeapPtr = Plain (lit ''heapptr'') 2"
definition TNull :: qtype where "TNull = Plain (lit ''null'') 2"

definition BUILTIN_TYPES :: "(ustr \<times> qtype) list" where
  "BUILTIN_TYPES = [(lit ''int'', TInt), (lit ''str'', TStr), (lit ''void'', TVoid), (lit ''bool'', TBool),
     (lit ''float'', TFloat), (lit ''ptr'', TPtr), (lit ''heapptr'', THeapPtr)]"

definition word_count :: "qtype \<Rightarrow> nat" where
  "word_count t = (if t = TFloat then 2 else 1)"

section \<open>Declarations\<close>

record struct_field =
  sf_name :: ustr
  sf_type :: qtype
  sf_offset :: nat

record struct_info =
  si_name :: ustr
  type_id :: nat
  si_fields :: "struct_field list"

definition si_word_size :: "'a struct_info_scheme \<Rightarrow> nat" where
  "si_word_size s = sum_list (map (word_count \<circ> sf_type) (si_fields s))"

definition field_named :: "'a struct_info_scheme \<Rightarrow> ustr \<Rightarrow> struct_field option" where
  "field_named s n = find (\<lambda>f. sf_name f = n) (si_fields s)"

definition struct_type :: "'a struct_info_scheme \<Rightarrow> qtype" where
  "struct_type s = StructType (si_name s) 2"

record variant_info = struct_info +
  enum_name :: ustr
  short_name :: ustr
  variant_index :: nat

record enum_info =
  ei_name :: ustr
  ei_variants :: "variant_info list"

definition variant_named :: "enum_info \<Rightarrow> ustr \<Rightarrow> variant_info option" where
  "variant_named e q = find (\<lambda>v. si_name v = q) (ei_variants e)"

definition enum_type :: "enum_info \<Rightarrow> qtype" where
  "enum_type e = EnumType (ei_name e) 2"

section \<open>Predicates\<close>

definition is_func_type :: "qtype \<Rightarrow> bool" where
  "is_func_type t = (case t of FuncType _ _ _ _ \<Rightarrow> True | _ \<Rightarrow> False)"

definition is_array_obj_type :: "qtype \<Rightarrow> bool" where
  "is_array_obj_type t = (case t of ArrayObjType _ _ _ \<Rightarrow> True | _ \<Rightarrow> False)"

definition is_frame_relative :: "qtype \<Rightarrow> bool" where
  "is_frame_relative t = (t = TPtr)"

definition is_struct_type :: "qtype \<Rightarrow> bool" where
  "is_struct_type t = (case t of StructType _ _ \<Rightarrow> True | _ \<Rightarrow> False)"

definition is_enum_type :: "qtype \<Rightarrow> bool" where
  "is_enum_type t = (case t of EnumType _ _ \<Rightarrow> True | _ \<Rightarrow> False)"

definition is_reference_type :: "qtype \<Rightarrow> bool" where
  "is_reference_type t =
     (is_struct_type t \<or> is_enum_type t \<or> is_array_obj_type t \<or> t = THeapPtr \<or> t = TStr)"

definition is_nullable :: "qtype \<Rightarrow> bool" where
  "is_nullable t = (is_struct_type t \<or> is_enum_type t \<or> is_array_obj_type t \<or> t = THeapPtr)"

definition assignable :: "qtype \<Rightarrow> qtype \<Rightarrow> bool" where
  "assignable target v = (if target = v then True else v = TNull \<and> is_nullable target)"

definition comparable :: "qtype \<Rightarrow> qtype \<Rightarrow> bool" where
  "comparable l r =
     (if l = r then True else (l = TNull \<and> is_nullable r) \<or> (r = TNull \<and> is_nullable l))"

section \<open>Spellings\<close>

text \<open>
  What the code asks the host of a text: whether it is an identifier, which characters \<open>strip\<close>
  removes, and the value \<open>int()\<close> gives it.
\<close>

record host_text =
  is_identifier :: "ustr \<Rightarrow> bool"
  is_space :: "nat \<Rightarrow> bool"
  int_value :: "ustr \<Rightarrow> int option"

datatype type_error =
    InvalidArrayLength ustr ustr | NonPositiveLength int ustr | UnbalancedParens ustr
  | MalformedFunction ustr | EmptyParameter ustr | EmptyArgument ustr | ArrayArity nat ustr
  | VoidParameter ustr | ArrayParameter ustr | PtrParameter ustr | ArrayReturn ustr | PtrReturn ustr
  | VoidElement ustr | FloatElement ustr | FrameArrayElement ustr | UnknownType ustr

definition starts_with :: "ustr \<Rightarrow> ustr \<Rightarrow> bool" where
  "starts_with p s \<longleftrightarrow> take (length p) s = p"

definition ends_with :: "ustr \<Rightarrow> ustr \<Rightarrow> bool" where
  "ends_with p s \<longleftrightarrow> length p \<le> length s \<and> drop (length s - length p) s = p"

abbreviation ARRAY_PREFIX :: ustr where "ARRAY_PREFIX \<equiv> lit ''int[''"
abbreviation FUNC_PREFIX :: ustr where "FUNC_PREFIX \<equiv> lit ''fn(''"

fun join :: "ustr \<Rightarrow> ustr list \<Rightarrow> ustr" where
  "join s [] = []"
| "join s [x] = x"
| "join s (x # y # ys) = x @ s @ join s (y # ys)"

definition strip :: "host_text \<Rightarrow> ustr \<Rightarrow> ustr" where
  "strip H s = rev (dropWhile (is_space H) (rev (dropWhile (is_space H) s)))"

definition func_type :: "qtype list \<Rightarrow> qtype \<Rightarrow> qtype" where
  "func_type ps r = FuncType
     (lit ''fn('' @ join (lit '','') (map type_name ps) @ lit ''):'' @ type_name r) 2 ps r"

definition array_obj_type :: "qtype \<Rightarrow> qtype" where
  "array_obj_type e = ArrayObjType (lit ''Array<'' @ type_name e @ lit ''>'') 2 e"

definition array_length_from_name :: "host_text \<Rightarrow> ustr \<Rightarrow> type_error + nat option" where
  "array_length_from_name H name =
     (if \<not> starts_with ARRAY_PREFIX name \<or> \<not> ends_with (lit '']'') name then Inr None
      else let inner = take (length name - 1 - 4) (drop 4 name) in
        case int_value H inner of
          None \<Rightarrow> Inl (InvalidArrayLength inner name)
        | Some n \<Rightarrow> if n \<le> 0 then Inl (NonPositiveLength n name) else Inr (Some (nat n)))"

text \<open>The loop over the characters; \<open>part\<close> is the text since the last split.\<close>

fun split_scan :: "int \<Rightarrow> ustr \<Rightarrow> ustr \<Rightarrow> ustr list" where
  "split_scan depth part [] = [part]"
| "split_scan depth part (c # cs) =
     (if c = of_char CHR ''('' \<or> c = of_char CHR ''<'' then split_scan (depth + 1) (part @ [c]) cs
      else if c = of_char CHR '')'' \<or> c = of_char CHR ''>'' then split_scan (depth - 1) (part @ [c]) cs
      else if c = of_char CHR '','' \<and> depth = 0 then part # split_scan depth [] cs
      else split_scan depth (part @ [c]) cs)"

definition split_top_level :: "host_text \<Rightarrow> ustr \<Rightarrow> ustr list" where
  "split_top_level H text = map (strip H) (split_scan 0 [] text)"

text \<open>The index of the parenthesis that closes the first one, in a text scanned from \<open>i\<close> on.\<close>

fun close_paren :: "int \<Rightarrow> nat \<Rightarrow> ustr \<Rightarrow> nat option" where
  "close_paren depth i [] = None"
| "close_paren depth i (c # cs) =
     (if c = of_char CHR ''('' then close_paren (depth + 1) (i + 1) cs
      else if c = of_char CHR '')'' then
        (if depth - 1 = 0 then Some i else close_paren (depth - 1) (i + 1) cs)
      else close_paren depth (i + 1) cs)"

definition func_signature_from_name :: "host_text \<Rightarrow> ustr \<Rightarrow> type_error + (ustr list \<times> ustr) option" where
  "func_signature_from_name H name =
     (if \<not> starts_with FUNC_PREFIX name then Inr None
      else case close_paren 0 2 (drop 2 name) of
        None \<Rightarrow> Inl (UnbalancedParens name)
      | Some close \<Rightarrow>
          let inner = take (close - 3) (drop 3 name); rest = drop (close + 1) name in
          bindR (if rest = [] then Inr (lit ''void'')
                 else if starts_with (lit '':'') rest \<and> length rest > 1 then Inr (drop 1 rest)
                 else Inl (MalformedFunction name)) (\<lambda>ret_name.
            let params = (if strip H inner = [] then [] else split_top_level H inner) in
            if [] \<in> set params then Inl (EmptyParameter name) else Inr (Some (params, ret_name))))"

definition generic_application :: "host_text \<Rightarrow> ustr \<Rightarrow> type_error + (ustr \<times> ustr list) option" where
  "generic_application H name =
     (if \<not> ends_with (lit ''>'') name then Inr None
      else let base = takeWhile (\<lambda>c. c \<noteq> of_char CHR ''<'') name in
        if base = name \<or> base = [] \<or> \<not> is_identifier H base then Inr None
        else let args = split_top_level H (butlast (drop (length base + 1) name)) in
          if [] \<in> set args then Inl (EmptyArgument name) else Inr (Some (base, args)))"

definition element_type_from_name :: "host_text \<Rightarrow> ustr \<Rightarrow> type_error + ustr option" where
  "element_type_from_name H name =
     bindR (generic_application H name) (\<lambda>app. case app of
       None \<Rightarrow> Inr None
     | Some (base, args) \<Rightarrow>
         if base \<noteq> lit ''Array'' then Inr None
         else if length args \<noteq> 1 then Inl (ArrayArity (length args) name)
         else Inr (Some (args ! 0)))"

section \<open>Parts are shorter\<close>

lemma split_scan_length: "p \<in> set (split_scan d part cs) \<Longrightarrow> length p \<le> length part + length cs"
proof (induction cs arbitrary: d part)
  case (Cons c cs)
  from Cons.prems consider d' where "p \<in> set (split_scan d' (part @ [c]) cs)"
    | "p = part" | "p \<in> set (split_scan d [] cs)"
    by (simp split: if_split_asm) blast+
  then show ?case by cases (fastforce dest: Cons.IH)+
qed simp

lemma strip_length: "length (strip H s) \<le> length s"
proof -
  have "length (strip H s) \<le> length (dropWhile (is_space H) s)"
    unfolding strip_def using length_dropWhile_le [of "is_space H" "rev (dropWhile (is_space H) s)"] by simp
  with length_dropWhile_le [of "is_space H" s] show ?thesis by linarith
qed

lemma split_top_level_length: "p \<in> set (split_top_level H s) \<Longrightarrow> length p \<le> length s"
  unfolding split_top_level_def using strip_length split_scan_length [of _ 0 "[]" s]
  by (fastforce intro: le_trans)

lemma generic_application_parts:
  assumes "generic_application H name = Inr (Some (base, args))"
  shows "ends_with (lit ''>'') name" and "base \<noteq> name" and "base = takeWhile (\<lambda>c. c \<noteq> of_char CHR ''<'') name"
    and "args = split_top_level H (butlast (drop (length base + 1) name))"
  using assms unfolding generic_application_def Let_def by (auto split: if_splits)

lemma takeWhile_shorter: "takeWhile p xs \<noteq> xs \<Longrightarrow> length (takeWhile p xs) < length xs"
  by (induction xs) auto

lemma generic_application_shorter:
  assumes "generic_application H name = Inr (Some (base, args))" and "a \<in> set args"
  shows "length a < length name"
proof -
  note p = generic_application_parts [OF assms(1)]
  have "length base < length name" using takeWhile_shorter p(2,3) by blast
  with split_top_level_length [OF assms(2) [unfolded p(4)]] show ?thesis by simp
qed

definition spelling_size :: "ustr \<Rightarrow> nat" where
  "spelling_size s = (if s = lit ''void'' then 0 else length s)"

lemma spelling_size_app:
  assumes "generic_application H name = Inr (Some (base, args))" and "a \<in> set args"
  shows "spelling_size a < spelling_size name"
proof -
  have "name \<noteq> lit ''void''"
    using generic_application_parts(1) [OF assms(1)] by (auto simp: ends_with_def lit_def)
  with generic_application_shorter [OF assms] show ?thesis by (auto simp: spelling_size_def)
qed

lemma spelling_size_fn:
  assumes "func_signature_from_name H name = Inr (Some (params, ret))"
  shows "p \<in> set params \<Longrightarrow> spelling_size p < spelling_size name" and "spelling_size ret < spelling_size name"
proof -
  have fn: "starts_with FUNC_PREFIX name"
    using assms by (auto simp: func_signature_from_name_def split: if_splits)
  then have nv: "name \<noteq> lit ''void''" by (auto simp: starts_with_def lit_def)
  have len: "3 \<le> length name"
  proof (rule ccontr)
    assume "\<not> 3 \<le> length name"
    then have "length (take 3 name) \<noteq> 3" by simp
    with fn show False by (auto simp: starts_with_def lit_def)
  qed
  from assms fn obtain k where
      r: "ret = lit ''void'' \<or> ret = drop 1 (drop (k + 1) name)"
    and ps: "params = [] \<or> params = split_top_level H (take (k - 3) (drop 3 name))"
    by (auto simp: func_signature_from_name_def Let_def result_simps split: option.splits if_splits)
  show "spelling_size p < spelling_size name" if "p \<in> set params"
    using ps that split_top_level_length [of p H "take (k - 3) (drop 3 name)"] len nv
    by (auto simp: spelling_size_def)
  show "spelling_size ret < spelling_size name"
    using r len nv by (auto simp: spelling_size_def)
qed

section \<open>Substitution and unification\<close>

lemma mapR_cong [fundef_cong]:
  "xs = ys \<Longrightarrow> (\<And>x. x \<in> set ys \<Longrightarrow> f x = g x) \<Longrightarrow> mapR f xs = mapR g ys"
proof (induction ys arbitrary: xs)
  case (Cons y ys)
  then have "mapR f ys = mapR g ys" by simp
  with Cons show ?case by simp
qed simp

function substitute_type_name :: "host_text \<Rightarrow> ustr \<Rightarrow> (ustr \<Rightarrow> ustr option) \<Rightarrow> type_error + ustr" where
  "substitute_type_name H name subs =
     (case subs name of
        Some t \<Rightarrow> Inr t
      | None \<Rightarrow> bindR (generic_application H name) (\<lambda>app. case app of
          Some (base, args) \<Rightarrow>
            bindR (mapR (\<lambda>a. substitute_type_name H a subs) args) (\<lambda>inner.
              Inr (base @ lit ''<'' @ join (lit '','') inner @ lit ''>''))
        | None \<Rightarrow> bindR (func_signature_from_name H name) (\<lambda>sig. case sig of
            Some (params, ret) \<Rightarrow>
              bindR (mapR (\<lambda>p. substitute_type_name H p subs) params) (\<lambda>inner.
              bindR (substitute_type_name H ret subs) (\<lambda>r.
                Inr (lit ''fn('' @ join (lit '','') inner @ lit ''):'' @ r)))
          | None \<Rightarrow> Inr name)))"
  by pat_completeness auto
termination
  by (relation "measure (\<lambda>(H, name, subs). spelling_size name)")
    (auto intro: spelling_size_app spelling_size_fn)

declare substitute_type_name.simps [simp del]

text \<open>\<open>all(...)\<close> over calls that update a shared dictionary: it stops at the first false one.\<close>

fun allR :: "('a \<Rightarrow> 's \<Rightarrow> 'e + bool \<times> 's) \<Rightarrow> 'a list \<Rightarrow> 's \<Rightarrow> 'e + bool \<times> 's" where
  "allR f [] s = Inr (True, s)"
| "allR f (x # xs) s = bindR (f x s) (\<lambda>(b, s1). if b then allR f xs s1 else Inr (False, s1))"

lemma allR_cong [fundef_cong]:
  "xs = ys \<Longrightarrow> s = t \<Longrightarrow> (\<And>x u. x \<in> set ys \<Longrightarrow> f x u = g x u) \<Longrightarrow> allR f xs s = allR g ys t"
proof (induction ys arbitrary: xs s t)
  case (Cons y ys)
  have "allR f ys = allR g ys" by (rule ext, rule Cons.IH) (simp_all add: Cons.prems(3))
  moreover have "f y = g y" by (rule ext) (simp add: Cons.prems(3))
  ultimately show ?case by (simp only: Cons.prems(1,2) allR.simps cong: if_cong)
qed simp

function unify_type_name :: "host_text \<Rightarrow> ustr \<Rightarrow> ustr \<Rightarrow> ustr list \<Rightarrow> (ustr \<Rightarrow> ustr option)
    \<Rightarrow> type_error + bool \<times> (ustr \<Rightarrow> ustr option)" where
  "unify_type_name H pattern actual params subs =
     (if pattern \<in> set params then
        (case subs pattern of
           None \<Rightarrow> Inr (True, subs(pattern \<mapsto> actual))
         | Some bound \<Rightarrow> Inr (bound = actual, subs))
      else bindR (generic_application H pattern) (\<lambda>pattern_app.
        bindR (generic_application H actual) (\<lambda>actual_app.
        case (pattern_app, actual_app) of
          (Some (b, ps), Some (c, qs)) \<Rightarrow>
            if b \<noteq> c \<or> length ps \<noteq> length qs then Inr (False, subs)
            else allR (\<lambda>(p, a) u. unify_type_name H p a params u) (zip ps qs) subs
        | (Some _, None) \<Rightarrow> Inr (False, subs)
        | (None, Some _) \<Rightarrow> Inr (False, subs)
        | (None, None) \<Rightarrow>
            bindR (func_signature_from_name H pattern) (\<lambda>pattern_sig.
            bindR (func_signature_from_name H actual) (\<lambda>actual_sig.
            case (pattern_sig, actual_sig) of
              (Some (ps, r), Some (qs, q)) \<Rightarrow>
                if length ps \<noteq> length qs then Inr (False, subs)
                else bindR (allR (\<lambda>(p, a) u. unify_type_name H p a params u) (zip ps qs) subs) (\<lambda>(ok, subs1).
                  if ok then unify_type_name H r q params subs1 else Inr (False, subs1))
            | (Some _, None) \<Rightarrow> Inr (False, subs)
            | (None, Some _) \<Rightarrow> Inr (False, subs)
            | (None, None) \<Rightarrow> Inr (pattern = actual, subs))))))"
  by pat_completeness auto
termination
  by (relation "measure (\<lambda>(H, pattern, actual, params, subs). spelling_size pattern)")
    (auto intro: spelling_size_app spelling_size_fn dest!: set_zip_leftD)

declare unify_type_name.simps [simp del]

section \<open>From a spelling to a type\<close>

definition is_array_type :: "qtype \<Rightarrow> bool" where
  "is_array_type t = starts_with ARRAY_PREFIX (type_name t)"

definition array_length :: "host_text \<Rightarrow> qtype \<Rightarrow> type_error + nat option" where
  "array_length H t = array_length_from_name H (type_name t)"

definition check_param :: "ustr \<Rightarrow> qtype \<Rightarrow> type_error + qtype" where
  "check_param name t =
     (if t = TVoid then Inl (VoidParameter name)
      else if is_array_type t then Inl (ArrayParameter name)
      else if is_frame_relative t then Inl (PtrParameter name)
      else Inr t)"

definition check_return :: "ustr \<Rightarrow> qtype \<Rightarrow> type_error + qtype" where
  "check_return name t =
     (if is_array_type t then Inl (ArrayReturn name)
      else if is_frame_relative t then Inl (PtrReturn name)
      else Inr t)"

definition check_element :: "ustr \<Rightarrow> qtype \<Rightarrow> type_error + qtype" where
  "check_element name t =
     (if t = TVoid then Inl (VoidElement name)
      else if t = TFloat then Inl (FloatElement name)
      else if is_array_type t then Inl (FrameArrayElement name)
      else Inr t)"

lemma element_shorter:
  assumes "element_type_from_name H name = Inr (Some e)"
  shows "spelling_size e < spelling_size name"
proof -
  obtain app where app: "generic_application H name = Inr app"
    using assms by (auto simp: element_type_from_name_def result_simps)
  then obtain base args where "app = Some (base, args)" "e \<in> set args"
    using assms by (cases app) (auto simp: element_type_from_name_def split: if_splits)
  with app spelling_size_app show ?thesis by blast
qed

function type_from_name :: "host_text \<Rightarrow> (ustr \<Rightarrow> struct_info option) \<Rightarrow> (ustr \<Rightarrow> enum_info option) \<Rightarrow> ustr
    \<Rightarrow> type_error + qtype" where
  "type_from_name H sts ens name =
     bindR (array_length_from_name H name) (\<lambda>n. case n of
       Some n \<Rightarrow> Inr (Plain name (2 * n))
     | None \<Rightarrow> bindR (func_signature_from_name H name) (\<lambda>sig. case sig of
         Some (param_names, ret_name) \<Rightarrow>
           bindR (mapR (\<lambda>p. bindR (type_from_name H sts ens p) (check_param name)) param_names) (\<lambda>params.
           bindR (type_from_name H sts ens ret_name) (\<lambda>r.
           bindR (check_return name r) (\<lambda>ret. Inr (func_type params ret))))
       | None \<Rightarrow> bindR (element_type_from_name H name) (\<lambda>e. case e of
           Some element_name \<Rightarrow>
             bindR (type_from_name H sts ens element_name) (\<lambda>t.
             bindR (check_element name t) (\<lambda>element. Inr (array_obj_type element)))
         | None \<Rightarrow>
             (case map_of BUILTIN_TYPES name of
                Some t \<Rightarrow> Inr t
              | None \<Rightarrow> (case sts name of
                  Some s \<Rightarrow> Inr (struct_type s)
                | None \<Rightarrow> (case ens name of
                    Some e \<Rightarrow> Inr (enum_type e)
                  | None \<Rightarrow> Inl (UnknownType name)))))))"
  by pat_completeness auto
termination
  by (relation "measure (\<lambda>(H, sts, ens, name). spelling_size name)")
    (auto intro: element_shorter spelling_size_fn)

declare type_from_name.simps [simp del]

end
