(* ===== verification/Spelling.thy ===== *)
theory Spelling
  imports Types
begin

text \<open>
  Type spellings as trees. The code takes spellings apart by scanning their text; here each scan is
  shown to find exactly the parts a tree was printed from, so that naming a type, substituting type
  parameters and matching one spelling against another become structural.
\<close>

section \<open>Trees and their text\<close>

datatype spelling = SName ustr | SArr nat | SApp ustr "spelling list" | SFn "spelling list" spelling

fun spell :: "spelling \<Rightarrow> ustr" where
  "spell (SName n) = n"
| "spell (SArr n) = ARRAY_PREFIX @ dec_nat n @ lit '']''"
| "spell (SApp b as) = b @ lit ''<'' @ join (lit '','') (map spell as) @ lit ''>''"
| "spell (SFn ps r) = FUNC_PREFIX @ join (lit '','') (map spell ps) @ lit ''):'' @ spell r"

definition punctuation :: "nat \<Rightarrow> bool" where
  "punctuation c \<longleftrightarrow> c \<in> {40, 41, 44, 58, 60, 62, 91, 93}"

text \<open>
  What is relied on of the host: an identifier is not empty and has no white space or punctuation,
  white space is neither punctuation nor a letter or digit of ASCII, and \<open>int()\<close> reads decimal digits.
\<close>

definition host_ok :: "host_text \<Rightarrow> bool" where
  "host_ok H \<longleftrightarrow>
     (\<forall>n. is_identifier H n \<longrightarrow> n \<noteq> [] \<and> (\<forall>c \<in> set n. \<not> punctuation c \<and> \<not> is_space H c))
     \<and> (\<forall>c. punctuation c \<or> 48 \<le> c \<and> c \<le> 57 \<or> 97 \<le> c \<and> c \<le> 122 \<longrightarrow> \<not> is_space H c)
     \<and> (\<forall>n. length (dec_nat n) \<le> 4300 \<longrightarrow> int_value H (dec_nat n) = Some (int n))"

fun wf_spelling :: "host_text \<Rightarrow> spelling \<Rightarrow> bool" where
  "wf_spelling H (SName n) = is_identifier H n"
| "wf_spelling H (SArr n) = (0 < n \<and> length (dec_nat n) \<le> 4300)"
| "wf_spelling H (SApp b as) = (is_identifier H b \<and> as \<noteq> [] \<and> list_all (wf_spelling H) as)"
| "wf_spelling H (SFn ps r) = (list_all (wf_spelling H) ps \<and> wf_spelling H r)"

lemma host_okD:
  assumes "host_ok H"
  shows "is_identifier H n \<Longrightarrow> n \<noteq> []"
    and "is_identifier H n \<Longrightarrow> c \<in> set n \<Longrightarrow> \<not> punctuation c"
    and "is_identifier H n \<Longrightarrow> c \<in> set n \<Longrightarrow> \<not> is_space H c"
    and "punctuation c \<Longrightarrow> \<not> is_space H c" and "48 \<le> c \<Longrightarrow> c \<le> 57 \<Longrightarrow> \<not> is_space H c"
    and "97 \<le> c \<Longrightarrow> c \<le> 122 \<Longrightarrow> \<not> is_space H c"
    and "length (dec_nat m) \<le> 4300 \<Longrightarrow> int_value H (dec_nat m) = Some (int m)"
  using assms unfolding host_ok_def by blast+

lemma dec_nat_plain: "c \<in> set (dec_nat n) \<Longrightarrow> \<not> punctuation c"
  using dec_nat_digits [of c n] by (auto simp: punctuation_def)

lemma set_join: "c \<in> set (join s xs) \<Longrightarrow> c \<in> set s \<or> (\<exists>x \<in> set xs. c \<in> set x)"
  by (induction s xs rule: join.induct) auto

lemma spell_no_space: "host_ok H \<Longrightarrow> wf_spelling H e \<Longrightarrow> c \<in> set (spell e) \<Longrightarrow> \<not> is_space H c"
proof (induction e)
  case (SName n)
  then show ?case using host_okD(3) by simp
next
  case (SArr n)
  then have "c \<in> {105, 110, 116, 91, 93} \<or> c \<in> set (dec_nat n)" by (auto simp: lit_def)
  with host_okD(4-6) [OF SArr(1)] dec_nat_digits [of c n] show ?case by (auto simp: punctuation_def)
next
  case (SApp b as)
  then have "c \<in> {60, 62, 44} \<or> c \<in> set b \<or> (\<exists>a \<in> set as. c \<in> set (spell a))"
    by (auto simp: lit_def dest!: set_join)
  with SApp host_okD(3,4) [OF SApp(2)] show ?case by (auto simp: punctuation_def list_all_iff)
next
  case (SFn ps r)
  then have "c \<in> {102, 110, 40, 41, 58, 44} \<or> c \<in> set (spell r) \<or> (\<exists>a \<in> set ps. c \<in> set (spell a))"
    by (auto simp: lit_def dest!: set_join)
  with SFn host_okD(4,6) [OF SFn(3)] show ?case by (auto simp: punctuation_def list_all_iff)
qed

lemma strip_id: "(\<And>c. c \<in> set s \<Longrightarrow> \<not> is_space H c) \<Longrightarrow> strip H s = s"
proof -
  assume c: "\<And>c. c \<in> set s \<Longrightarrow> \<not> is_space H c"
  have "dropWhile (is_space H) s = s" using c by (cases s) simp_all
  moreover have "dropWhile (is_space H) (rev s) = rev s"
    using c by (cases s rule: rev_cases) simp_all
  ultimately show ?thesis by (simp add: strip_def)
qed

lemma strip_spell: "host_ok H \<Longrightarrow> wf_spelling H e \<Longrightarrow> strip H (spell e) = spell e"
  by (rule strip_id) (rule spell_no_space)

lemma spell_nonempty: "host_ok H \<Longrightarrow> wf_spelling H e \<Longrightarrow> spell e \<noteq> []"
  by (cases e) (auto simp: lit_def dest: host_okD(1))

section \<open>Scanning a printed tree\<close>

text \<open>
  Two scans walk over a spelling keeping a nesting depth: one splits at commas, one looks for a
  closing parenthesis. What they share: at a depth of \<open>low\<close> or more they only move on, angle brackets
  count \<open>angle\<close> levels, and \<open>adv\<close> is how the rest of their state follows the text.
\<close>

locale depth_scan =
  fixes run :: "int \<Rightarrow> 'p \<Rightarrow> ustr \<Rightarrow> 'r" and adv :: "'p \<Rightarrow> ustr \<Rightarrow> 'p" and low angle :: int
  assumes adv_append: "adv (adv p u) v = adv p (u @ v)" and adv_nil: "adv p [] = p"
    and angle: "0 \<le> angle"
    and open_paren: "low \<le> d \<Longrightarrow> run d p (40 # cs) = run (d + 1) (adv p [40]) cs"
    and shut_paren: "low \<le> d \<Longrightarrow> run (d + 1) p (41 # cs) = run d (adv p [41]) cs"
    and open_angle: "low \<le> d \<Longrightarrow> run d p (60 # cs) = run (d + angle) (adv p [60]) cs"
    and shut_angle: "low \<le> d \<Longrightarrow> run (d + angle) p (62 # cs) = run d (adv p [62]) cs"
    and comma: "low \<le> d \<Longrightarrow> run (d + 1) p (44 # cs) = run (d + 1) (adv p [44]) cs"
      "low \<le> d \<Longrightarrow> run (d + angle) p (44 # cs) = run (d + angle) (adv p [44]) cs"
    and other: "low \<le> d \<Longrightarrow> c \<notin> {40, 41, 44, 60, 62} \<Longrightarrow> run d p (c # cs) = run d (adv p [c]) cs"
begin

lemma plain:
  "low \<le> d \<Longrightarrow> (\<And>c. c \<in> set n \<Longrightarrow> \<not> punctuation c) \<Longrightarrow> run d p (n @ rest) = run d (adv p n) rest"
proof (induction n arbitrary: p)
  case (Cons c n)
  from Cons.prems(2) [of c] have "c \<notin> {40, 41, 44, 60, 62}" by (auto simp: punctuation_def)
  with Cons show ?case by (simp add: other adv_append)
qed (simp add: adv_nil)

lemma joined:
  assumes "\<And>a p q. a \<in> set as \<Longrightarrow> run d p (spell a @ q) = run d (adv p (spell a)) q"
    and "\<And>p cs. run d p (44 # cs) = run d (adv p [44]) cs"
  shows "run d p (join (lit '','') (map spell as) @ q) = run d (adv p (join (lit '','') (map spell as))) q"
  using assms(1)
proof (induction as arbitrary: p)
  case (Cons a as)
  show ?case
  proof (cases as)
    case Nil
    then show ?thesis using Cons.prems by simp
  next
    case more: (Cons b bs)
    have "run d p (spell a @ 44 # join (lit '','') (map spell as) @ q)
        = run d (adv p (spell a)) (44 # join (lit '','') (map spell as) @ q)"
      by (rule Cons.prems) simp
    also have "\<dots> = run d (adv p (spell a @ [44])) (join (lit '','') (map spell as) @ q)"
      by (simp add: assms(2) adv_append)
    also have "\<dots> = run d (adv (adv p (spell a @ [44])) (join (lit '','') (map spell as))) q"
      by (rule Cons.IH) (simp add: Cons.prems)
    finally show ?thesis by (simp add: more adv_append lit_def)
  qed
qed (simp add: adv_nil)

lemma over_spell:
  assumes "host_ok H"
  shows "wf_spelling H e \<Longrightarrow> low \<le> d \<Longrightarrow> run d p (spell e @ rest) = run d (adv p (spell e)) rest"
proof (induction e arbitrary: d p rest)
  case (SName n)
  then show ?case by (simp add: plain host_okD(2) [OF assms])
next
  case (SArr n)
  have "run d q (dec_nat n @ 93 # rest) = run d (adv q (dec_nat n)) (93 # rest)" for q
    using SArr by (intro plain) (auto dest: dec_nat_plain)
  with SArr show ?case by (simp add: lit_def other adv_append)
next
  case (SApp b as)
  have "run (d + angle) q (join (lit '','') (map spell as) @ r)
      = run (d + angle) (adv q (join (lit '','') (map spell as))) r" for q r
    using SApp angle by (intro joined comma) (auto simp: list_all_iff)
  moreover have "run d p (b @ q) = run d (adv p b) q" for q
    using SApp by (intro plain) (auto dest: host_okD(2) [OF assms])
  ultimately show ?case
    using SApp.prems(2) by (simp add: lit_def open_angle shut_angle adv_append)
next
  case (SFn ps r)
  have "run (d + 1) q (join (lit '','') (map spell ps) @ s)
      = run (d + 1) (adv q (join (lit '','') (map spell ps))) s" for q s
    using SFn by (intro joined comma) (auto simp: list_all_iff)
  with SFn show ?case
    by (simp add: lit_def open_paren shut_paren other adv_append)
qed

end

interpretation splitting: depth_scan split_scan "(@)" 0 1
  by unfold_locales simp_all

interpretation closing: depth_scan close_paren "\<lambda>i w. i + length w" 1 0
  by unfold_locales simp_all

section \<open>Taking a spelling apart\<close>

lemma join_Cons2: "as \<noteq> [] \<Longrightarrow> join s (a # as) = a @ s @ join s as"
  by (cases as) simp_all

lemma split_joined:
  assumes H: "host_ok H" and "list_all (wf_spelling H) as" and "as \<noteq> []"
  shows "split_scan 0 part (join (lit '','') (map spell as)) = (part @ spell (hd as)) # map spell (tl as)"
  using assms(2,3)
proof (induction as arbitrary: part)
  case (Cons a as)
  show ?case
  proof (cases "as = []")
    case True
    then show ?thesis
      using splitting.over_spell [OF H, of a 0 part "[]"] Cons.prems by simp
  next
    case False
    then have "split_scan 0 part (spell a @ 44 # join (lit '','') (map spell as))
        = (part @ spell a) # split_scan 0 [] (join (lit '','') (map spell as))"
      using splitting.over_spell [OF H, of a 0 part] Cons.prems by simp
    also have "split_scan 0 [] (join (lit '','') (map spell as)) = map spell as"
      using Cons False by (cases as) simp_all
    finally show ?thesis using False by (simp add: join_Cons2 lit_def)
  qed
qed simp

lemma split_top_level_joined:
  assumes H: "host_ok H" and wf: "list_all (wf_spelling H) as" and ne: "as \<noteq> []"
  shows "split_top_level H (join (lit '','') (map spell as)) = map spell as"
proof -
  have "split_top_level H (join (lit '','') (map spell as)) = map (strip H) (map spell as)"
    using split_joined [OF H wf ne, of "[]"] ne by (cases as) (simp_all add: split_top_level_def)
  also have "\<dots> = map spell as"
    using wf strip_spell [OF H] by (induction as) (simp_all add: list_all_iff)
  finally show ?thesis .
qed

lemma no_empty_spelling: "host_ok H \<Longrightarrow> list_all (wf_spelling H) as \<Longrightarrow> [] \<notin> set (map spell as)"
  by (auto simp: list_all_iff dest: spell_nonempty)

lemma ends_with_snoc [simp]: "ends_with [c] (s @ [d]) \<longleftrightarrow> c = d"
  by (auto simp: ends_with_def)

lemma ends_with_last: "ends_with [c] s \<Longrightarrow> c \<in> set s"
  by (cases s rule: rev_cases) (auto simp: ends_with_def)

lemma ident_not_special:
  assumes "host_ok H" and "is_identifier H n"
  shows "40 \<notin> set n" and "60 \<notin> set n" and "62 \<notin> set n" and "93 \<notin> set n" and "91 \<notin> set n"
  using host_okD(2) [OF assms] by (auto simp: punctuation_def)

lemma not_fn:
  assumes H: "host_ok H" and wf: "wf_spelling H e" and "\<And>ps r. e \<noteq> SFn ps r"
  shows "\<not> starts_with FUNC_PREFIX (spell e)"
proof (cases e)
  case (SName n)
  show ?thesis
  proof
    assume "starts_with FUNC_PREFIX (spell e)"
    then have "40 \<in> set (take 3 n)" by (simp add: SName starts_with_def lit_def numeral_3_eq_3)
    with ident_not_special(1) [OF H, of n] wf show False by (auto simp: SName dest: in_set_takeD)
  qed
next
  case (SArr n)
  then show ?thesis by (simp add: starts_with_def lit_def)
next
  case (SApp b as)
  have b: "is_identifier H b" using wf by (simp add: SApp)
  show ?thesis
  proof
    assume a: "starts_with FUNC_PREFIX (spell e)"
    show False
    proof (cases "length b < 3")
      case True
      then have "b = [] \<or> (\<exists>x. b = [x]) \<or> (\<exists>x y. b = [x, y])"
        by (cases b; cases "tl b"; cases "tl (tl b)") auto
      with a show False by (auto simp: SApp starts_with_def lit_def)
    next
      case False
      with a have "40 \<in> set (take 3 b)" by (simp add: SApp starts_with_def lit_def numeral_3_eq_3)
      with ident_not_special(1) [OF H b] show False by (auto dest: in_set_takeD)
    qed
  qed
qed (use assms(3) in blast)

lemma signature_other:
  "host_ok H \<Longrightarrow> wf_spelling H e \<Longrightarrow> (\<And>ps r. e \<noteq> SFn ps r) \<Longrightarrow> func_signature_from_name H (spell e) = Inr None"
  using not_fn by (simp add: func_signature_from_name_def)

lemma signature_fn:
  assumes H: "host_ok H" and wf: "wf_spelling H (SFn ps r)"
  shows "func_signature_from_name H (spell (SFn ps r)) = Inr (Some (map spell ps, spell r))"
proof -
  let ?J = "join (lit '','') (map spell ps)"
  have J: "close_paren 1 3 (?J @ q) = close_paren 1 (3 + length ?J) q" for q
    by (rule closing.joined) (use wf closing.over_spell [OF H] in \<open>auto simp: list_all_iff\<close>)
  have s: "strip H ?J = ?J"
  proof (rule strip_id)
    fix c assume "c \<in> set ?J"
    then have "c = 44 \<or> (\<exists>a \<in> set ps. c \<in> set (spell a))" by (auto simp: lit_def dest!: set_join)
    then show "\<not> is_space H c"
      using wf spell_no_space [OF H] host_okD(4) [OF H, of 44] by (auto simp: list_all_iff punctuation_def)
  qed
  have J0: "?J = [] \<longleftrightarrow> ps = []"
    using wf spell_nonempty [OF H] by (cases ps; cases "tl ps") (auto simp: lit_def)
  let ?n = "spell (SFn ps r)"
  have n: "?n = ([102, 110, 40] @ ?J @ [41]) @ 58 # spell r" by (simp add: lit_def)
  have fn: "starts_with FUNC_PREFIX ?n" by (simp add: starts_with_def lit_def)
  have close: "close_paren 0 2 (drop 2 ?n) = Some (3 + length ?J)"
    using J [of "41 # 58 # spell r"] by (simp add: lit_def)
  have rest: "drop (3 + length ?J + 1) ?n = 58 # spell r"
  proof -
    have "drop (length us) (us @ vs) = vs" for us vs :: ustr by simp
    moreover have "3 + length ?J + 1 = length ([102, 110, 40] @ ?J @ [41])" by simp
    ultimately show ?thesis unfolding n by metis
  qed
  have inner: "take (3 + length ?J - 3) (drop 3 ?n) = ?J" unfolding n by simp
  have colon: "starts_with (lit '':'') (58 # spell r) \<and> 1 < length (58 # spell r)"
    using spell_nonempty [OF H, of r] wf by (simp add: starts_with_def lit_def)
  have params: "(if strip H ?J = [] then [] else split_top_level H ?J) = map spell ps"
    using s J0 wf split_top_level_joined [OF H, of ps] by auto
  have "[] \<notin> set (map spell ps)" using no_empty_spelling [OF H, of ps] wf by simp
  then show ?thesis
    unfolding func_signature_from_name_def Let_def
    by (simp only: fn close rest inner colon params not_True_eq_False if_False if_True option.case
        list.distinct bindR_simps simp_thms) simp
qed

lemma application_app:
  assumes H: "host_ok H" and wf: "wf_spelling H (SApp b as)"
  shows "generic_application H (spell (SApp b as)) = Inr (Some (b, map spell as))"
proof -
  have b: "is_identifier H b" "b \<noteq> []" using wf host_okD(1) [OF H] by auto
  have tw: "takeWhile (\<lambda>c. c \<noteq> 60) (b @ 60 # q) = b" for q
    using ident_not_special(2) [OF H b(1)] by (subst takeWhile_append2) auto
  have "ends_with [62] ((b @ 60 # join [44] (map spell as)) @ [62])" by (rule ends_with_snoc [THEN iffD2]) (rule refl)
  then show ?thesis
    using b tw wf split_top_level_joined [OF H, of as] no_empty_spelling [OF H, of as]
    by (simp add: generic_application_def lit_def butlast_append)
qed

lemma application_other:
  assumes H: "host_ok H" and wf: "wf_spelling H e" and o: "\<And>b as. e \<noteq> SApp b as"
  shows "generic_application H (spell e) = Inr None"
proof (cases e)
  case (SName n)
  then show ?thesis
    using ident_not_special(3) [OF H, of n] wf ends_with_last [of 62 n]
    by (auto simp: generic_application_def lit_def)
next
  case (SArr n)
  have "\<not> ends_with [62] ((ARRAY_PREFIX @ dec_nat n) @ [93])" by (simp add: ends_with_snoc del: append_assoc)
  then show ?thesis by (simp add: SArr generic_application_def lit_def)
next
  case (SFn ps r)
  let ?b = "takeWhile (\<lambda>c. c \<noteq> 60) (spell e)"
  have "40 \<in> set ?b" by (simp add: SFn lit_def)
  then have "\<not> is_identifier H ?b" using ident_not_special(1) [OF H] by blast
  then show ?thesis by (simp add: generic_application_def Let_def)
qed (use o in blast)

end
