(* ===== verification/TypeNames.thy ===== *)
theory TypeNames
  imports Spelling
begin

text \<open>
  What the string surgery on type spellings computes: substitution and resolution agree with their
  definitions on trees, a resolved type names itself, and matching finds exactly the bindings that
  make a declared spelling into the actual one.
\<close>

section \<open>Substitution\<close>

fun tree_subst :: "(ustr \<Rightarrow> spelling option) \<Rightarrow> spelling \<Rightarrow> spelling" where
  "tree_subst \<sigma> (SName n) = (case \<sigma> n of None \<Rightarrow> SName n | Some t \<Rightarrow> t)"
| "tree_subst \<sigma> (SArr n) = SArr n"
| "tree_subst \<sigma> (SApp b as) = SApp b (map (tree_subst \<sigma>) as)"
| "tree_subst \<sigma> (SFn ps r) = SFn (map (tree_subst \<sigma>) ps) (tree_subst \<sigma> r)"

definition texts :: "(ustr \<Rightarrow> spelling option) \<Rightarrow> ustr \<Rightarrow> ustr option" where
  "texts \<sigma> n = map_option spell (\<sigma> n)"

definition on_names :: "host_text \<Rightarrow> (ustr \<Rightarrow> 'a option) \<Rightarrow> bool" where
  "on_names H \<sigma> \<longleftrightarrow> (\<forall>n \<in> dom \<sigma>. is_identifier H n)"

lemma spell_not_name:
  assumes "host_ok H" and "wf_spelling H e" and "\<And>n. e \<noteq> SName n"
  shows "\<not> is_identifier H (spell e)"
proof -
  have "\<exists>c \<in> set (spell e). punctuation c"
    using assms(3) by (cases e) (auto simp: lit_def punctuation_def)
  with host_okD(2) [OF assms(1)] show ?thesis by blast
qed

lemma texts_other: "host_ok H \<Longrightarrow> on_names H s \<Longrightarrow> wf_spelling H e \<Longrightarrow> (\<And>n. e \<noteq> SName n) \<Longrightarrow> s (spell e) = None"
  using spell_not_name by (fastforce simp: on_names_def)

lemma mapR_eq: "(\<And>x. x \<in> set xs \<Longrightarrow> f (g x) = Inr (h x)) \<Longrightarrow> mapR f (map g xs) = Inr (map h xs)"
  by (induction xs) simp_all

lemma substitute_spell:
  assumes H: "host_ok H" and s: "on_names H \<sigma>"
  shows "wf_spelling H e \<Longrightarrow> substitute_type_name H (spell e) (texts \<sigma>) = Inr (spell (tree_subst \<sigma> e))"
proof (induction e)
  case (SName n)
  then show ?case
    using application_other [OF H SName] signature_other [OF H SName]
    by (subst substitute_type_name.simps) (simp add: texts_def split: option.splits)
next
  have t: "on_names H (texts \<sigma>)" using s by (auto simp: on_names_def texts_def dom_def)
  note none = texts_other [OF H t]
  {
    case (SArr n)
    then show ?case
      using application_other [OF H SArr] signature_other [OF H SArr] none [OF SArr]
      by (subst substitute_type_name.simps) simp
  next
    case (SApp b as)
    have "mapR (\<lambda>a. substitute_type_name H a (texts \<sigma>)) (map spell as) = Inr (map (spell \<circ> tree_subst \<sigma>) as)"
      using SApp by (intro mapR_eq) (auto simp: list_all_iff)
    with SApp.prems show ?case
      using application_app [OF H SApp.prems] none [OF SApp.prems]
      by (subst substitute_type_name.simps) simp
  next
    case (SFn ps r)
    have "mapR (\<lambda>a. substitute_type_name H a (texts \<sigma>)) (map spell ps) = Inr (map (spell \<circ> tree_subst \<sigma>) ps)"
      using SFn by (intro mapR_eq) (auto simp: list_all_iff)
    with SFn show ?case
      using application_other [OF H SFn.prems] signature_fn [OF H SFn.prems] none [OF SFn.prems]
      by (subst substitute_type_name.simps) simp
  }
qed

text \<open>
  Substituting type parameters in a spelling is structural: the result is the spelling of
  the tree with its parameters replaced, so a name that only contains a parameter's letters is left
  alone and a parameter is found inside applications and function types alike.
\<close>

theorem substitution_structural:
  assumes "host_ok H" and "on_names H \<sigma>" and "wf_spelling H e"
  shows "substitute_type_name H (spell e) (texts \<sigma>) = Inr (spell (tree_subst \<sigma> e))"
  by (rule substitute_spell [OF assms])

section \<open>Resolution\<close>

fun tree_type :: "(ustr \<Rightarrow> struct_info option) \<Rightarrow> (ustr \<Rightarrow> enum_info option) \<Rightarrow> spelling \<Rightarrow> type_error + qtype" where
  "tree_type sts ens (SArr n) = Inr (Plain (spell (SArr n)) (2 * n))"
| "tree_type sts ens (SFn ps r) =
     bindR (mapR (\<lambda>p. bindR (tree_type sts ens p) (check_param (spell (SFn ps r)))) ps) (\<lambda>params.
     bindR (tree_type sts ens r) (\<lambda>t.
     bindR (check_return (spell (SFn ps r)) t) (\<lambda>ret. Inr (func_type params ret))))"
| "tree_type sts ens (SApp b as) =
     (if b = lit ''Array'' then
        (case as of
           [a] \<Rightarrow> bindR (tree_type sts ens a) (\<lambda>t.
                  bindR (check_element (spell (SApp b as)) t) (\<lambda>e. Inr (array_obj_type e)))
         | _ \<Rightarrow> Inl (ArrayArity (length as) (spell (SApp b as))))
      else (case sts (spell (SApp b as)) of
          Some s \<Rightarrow> Inr (struct_type s)
        | None \<Rightarrow> (case ens (spell (SApp b as)) of
            Some e \<Rightarrow> Inr (enum_type e)
          | None \<Rightarrow> Inl (UnknownType (spell (SApp b as))))))"
| "tree_type sts ens (SName n) =
     (case map_of BUILTIN_TYPES n of
        Some t \<Rightarrow> Inr t
      | None \<Rightarrow> (case sts n of
          Some s \<Rightarrow> Inr (struct_type s)
        | None \<Rightarrow> (case ens n of Some e \<Rightarrow> Inr (enum_type e) | None \<Rightarrow> Inl (UnknownType n))))"

lemma array_length_arr:
  assumes H: "host_ok H" and wf: "wf_spelling H (SArr n)"
  shows "array_length_from_name H (spell (SArr n)) = Inr (Some n)"
proof -
  have e: "ends_with (lit '']'') (spell (SArr n))"
    using ends_with_snoc [of 93 "ARRAY_PREFIX @ dec_nat n" 93] by (simp add: lit_def)
  have "take (length (spell (SArr n)) - 1 - 4) (drop 4 (spell (SArr n))) = dec_nat n"
    by (simp add: lit_def)
  with e show ?thesis
    using wf host_okD(7) [OF H, of n]
    by (simp add: array_length_from_name_def starts_with_def lit_def Let_def)
qed

lemma array_length_other:
  assumes H: "host_ok H" and wf: "wf_spelling H e" and "\<And>n. e \<noteq> SArr n"
  shows "array_length_from_name H (spell e) = Inr None"
proof -
  have "\<not> ends_with [93] (spell e) \<or> \<not> starts_with ARRAY_PREFIX (spell e)"
  proof (cases e)
    case (SName n)
    then show ?thesis
      using ident_not_special(4) [OF H, of n] wf ends_with_last [of 93 n] by auto
  next
    case (SApp b as)
    have "\<not> ends_with [93] ((b @ [60] @ join [44] (map spell as)) @ [62])"
      using ends_with_snoc [of 93 "b @ [60] @ join [44] (map spell as)" 62] by simp
    then show ?thesis by (simp add: SApp lit_def)
  next
    case (SFn ps r)
    then show ?thesis by (simp add: starts_with_def lit_def)
  qed (use assms(3) in blast)
  then show ?thesis by (auto simp: array_length_from_name_def lit_def)
qed

lemma builtin_not_app: "60 \<in> set n \<Longrightarrow> map_of BUILTIN_TYPES n = None"
  unfolding map_of_eq_None_iff BUILTIN_TYPES_def by (auto simp: lit_def)

lemma mapR_map: "mapR f (map g xs) = mapR (f \<circ> g) xs"
  by (induction xs) simp_all

lemma type_from_spell:
  assumes H: "host_ok H"
  shows "wf_spelling H e \<Longrightarrow> type_from_name H sts ens (spell e) = tree_type sts ens e"
proof (induction e)
  case (SName n)
  then show ?case
    using application_other [OF H SName] signature_other [OF H SName] array_length_other [OF H SName]
    unfolding spell.simps by (subst type_from_name.simps) (simp add: element_type_from_name_def)
next
  case (SArr n)
  then show ?case
    using array_length_arr [OF H SArr] by (subst type_from_name.simps) simp
next
  case (SApp b as)
  note facts = application_app [OF H SApp.prems] signature_other [OF H SApp.prems]
    array_length_other [OF H SApp.prems]
  have b: "map_of BUILTIN_TYPES (spell (SApp b as)) = None" by (rule builtin_not_app) (simp add: lit_def)
  show ?case
  proof (cases "b = lit ''Array''")
    case False
    with facts b show ?thesis
      by (subst type_from_name.simps) (simp add: element_type_from_name_def del: spell.simps)
  next
    case True
    show ?thesis
    proof (cases "length as = 1")
      case one: True
      then obtain a where "as = [a]" by (cases as) auto
      with facts True SApp show ?thesis
        by (subst type_from_name.simps) (simp add: element_type_from_name_def del: spell.simps)
    next
      case False
      with facts True show ?thesis
        by (subst type_from_name.simps)
          (auto simp: element_type_from_name_def simp del: spell.simps split: list.splits)
    qed
  qed
next
  case (SFn ps r)
  have "mapR (\<lambda>p. bindR (type_from_name H sts ens p) (check_param nm)) (map spell ps)
      = mapR (\<lambda>p. bindR (tree_type sts ens p) (check_param nm)) ps" for nm
    unfolding mapR_map using SFn by (intro mapR_cong) (auto simp: list_all_iff)
  with SFn.IH(2) SFn.prems show ?case
    using signature_fn [OF H SFn.prems] array_length_other [OF H SFn.prems]
    by (subst type_from_name.simps) (simp del: spell.simps)
qed

text \<open>The tables name their entries, as the checker's do.\<close>

definition tables_ok :: "(ustr \<Rightarrow> struct_info option) \<Rightarrow> (ustr \<Rightarrow> enum_info option) \<Rightarrow> bool" where
  "tables_ok sts ens \<longleftrightarrow> (\<forall>n s. sts n = Some s \<longrightarrow> si_name s = n) \<and> (\<forall>n e. ens n = Some e \<longrightarrow> ei_name e = n)"

lemma builtin_name: "map_of BUILTIN_TYPES n = Some t \<Longrightarrow> type_name t = n"
  by (drule map_of_SomeD)
    (auto simp: BUILTIN_TYPES_def TInt_def TStr_def TVoid_def TBool_def TFloat_def TPtr_def THeapPtr_def)

lemma mapR_names:
  assumes "mapR (\<lambda>p. bindR (f p) (check_param nm)) ps = Inr ts"
    and "\<And>p t. p \<in> set ps \<Longrightarrow> f p = Inr t \<Longrightarrow> type_name t = g p"
  shows "map type_name ts = map g ps"
  using assms
  by (induction ps arbitrary: ts) (auto simp: result_simps check_param_def split: if_splits)

lemma tree_type_name: "tables_ok sts ens \<Longrightarrow> tree_type sts ens e = Inr t \<Longrightarrow> type_name t = spell e"
proof (induction e arbitrary: t)
  case (SName n)
  then show ?case
    by (auto simp: tables_ok_def struct_type_def enum_type_def builtin_name split: option.splits)
next
  case (SApp b as)
  show ?case
  proof (cases "b = lit ''Array''")
    case True
    with SApp.prems obtain a u where "as = [a]" "tree_type sts ens a = Inr u" "t = array_obj_type u"
      by (auto simp: result_simps check_element_def split: list.splits if_splits)
    with SApp.IH [of a u] SApp.prems(1) True show ?thesis by (simp add: array_obj_type_def lit_def)
  next
    case False
    with SApp.prems show ?thesis
      by (auto simp: tables_ok_def struct_type_def enum_type_def simp del: spell.simps split: option.splits)
  qed
next
  case (SFn ps r)
  from SFn.prems(2) obtain params u where
      m: "mapR (\<lambda>p. bindR (tree_type sts ens p) (check_param (spell (SFn ps r)))) ps = Inr params"
    and u: "tree_type sts ens r = Inr u" "t = func_type params u"
    by (auto simp: result_simps check_return_def simp del: spell.simps split: if_splits)
  have "map type_name params = map spell ps"
    by (rule mapR_names [OF m]) (use SFn in auto)
  with SFn.IH(2) [OF SFn.prems(1) u(1)] u(2) show ?case by (simp add: func_type_def)
qed auto

text \<open>
  Claim C22. Resolving a spelling is structural, errors included, and a resolved type carries its own
  spelling as its name, so resolving the name of a type gives the type back.
\<close>

theorem resolution_structural:
  assumes "host_ok H" and "tables_ok sts ens" and "wf_spelling H e"
  shows "type_from_name H sts ens (spell e) = tree_type sts ens e
    \<and> (\<forall>t. type_from_name H sts ens (spell e) = Inr t \<longrightarrow>
          type_name t = spell e \<and> type_from_name H sts ens (type_name t) = Inr t)"
  using type_from_spell [OF assms(1,3)] tree_type_name [OF assms(2)] by auto

section \<open>Matching\<close>

lemma app_inv:
  assumes "host_ok H" and "wf_spelling H a" and "generic_application H (spell a) = Inr (Some (b, qs))"
  obtains as where "a = SApp b as" and "qs = map spell as"
  using assms application_app [of H] application_other [of H a] by (cases a) auto

lemma fn_inv:
  assumes "host_ok H" and "wf_spelling H a" and "func_signature_from_name H (spell a) = Inr (Some (qs, q))"
  obtains ps r where "a = SFn ps r" and "qs = map spell ps" and "q = spell r"
  using assms signature_fn [of H] signature_other [of H a] by (cases a) auto

text \<open>What matching \<open>p\<close> against \<open>a\<close> must leave in the dictionary.\<close>

definition matched :: "host_text \<Rightarrow> ustr list \<Rightarrow> spelling list \<Rightarrow> spelling list
    \<Rightarrow> (ustr \<Rightarrow> ustr option) \<Rightarrow> (ustr \<Rightarrow> ustr option) \<Rightarrow> bool" where
  "matched H params ps as subs subs' \<longleftrightarrow> subs \<subseteq>\<^sub>m subs' \<and> dom subs' \<subseteq> set params
     \<and> (\<forall>s. subs' \<subseteq>\<^sub>m s \<and> dom s \<subseteq> set params \<longrightarrow>
          mapR (\<lambda>p. substitute_type_name H p s) (map spell ps) = Inr (map spell as))"

lemma matched_Nil: "dom subs \<subseteq> set params \<Longrightarrow> matched H params [] [] subs subs"
  by (simp add: matched_def)

lemma matched_Cons:
  "matched H params [p] [a] subs s1 \<Longrightarrow> matched H params ps as s1 s2 \<Longrightarrow> matched H params (p # ps) (a # as) subs s2"
  unfolding matched_def by (auto simp: result_simps intro: map_le_trans dest: map_le_trans)

lemma matched_all:
  assumes "\<And>p a s s'. p \<in> set ps \<Longrightarrow> a \<in> set as \<Longrightarrow> dom s \<subseteq> set params \<Longrightarrow>
      unify_type_name H (spell p) (spell a) params s = Inr (True, s') \<Longrightarrow> matched H params [p] [a] s s'"
    and "length ps = length as" and "dom subs \<subseteq> set params"
    and "allR (\<lambda>(p, a) u. unify_type_name H p a params u) (zip (map spell ps) (map spell as)) subs = Inr (True, subs')"
  shows "matched H params ps as subs subs'"
  using assms(2,1,3,4)
proof (induction ps as arbitrary: subs rule: list_induct2)
  case Nil
  then show ?case by (simp add: matched_Nil)
next
  case (Cons p ps a as)
  then obtain s1 where s1: "unify_type_name H (spell p) (spell a) params subs = Inr (True, s1)"
    and r: "allR (\<lambda>(p, a) u. unify_type_name H p a params u) (zip (map spell ps) (map spell as)) s1 = Inr (True, subs')"
    by (auto simp: result_simps split: if_splits)
  have m: "matched H params [p] [a] subs s1" by (rule Cons.prems(1) [OF _ _ Cons.prems(2) s1]) simp_all
  then have "dom s1 \<subseteq> set params" by (simp add: matched_def)
  with Cons.IH r Cons.prems(1) have "matched H params ps as s1 subs'" by simp
  with m show ?case by (rule matched_Cons)
qed

lemma substitute_app:
  assumes "host_ok H" and "wf_spelling H (SApp b ps)" and "s (spell (SApp b ps)) = None"
    and "mapR (\<lambda>p. substitute_type_name H p s) (map spell ps) = Inr (map spell as)"
  shows "substitute_type_name H (spell (SApp b ps)) s = Inr (spell (SApp b as))"
  using assms(3,4) application_app [OF assms(1,2)]
  by (subst substitute_type_name.simps) simp

lemma substitute_fn:
  assumes "host_ok H" and "wf_spelling H (SFn ps r)" and "s (spell (SFn ps r)) = None"
    and "mapR (\<lambda>p. substitute_type_name H p s) (map spell ps) = Inr (map spell as)"
    and "substitute_type_name H (spell r) s = Inr (spell q)"
  shows "substitute_type_name H (spell (SFn ps r)) s = Inr (spell (SFn as q))"
  using assms(3-5) signature_fn [OF assms(1,2)] application_other [OF assms(1,2)]
  by (subst substitute_type_name.simps) simp

lemma substitute_leaf:
  assumes "host_ok H" and "wf_spelling H e" and "s (spell e) = None"
    and "\<And>b ps. e \<noteq> SApp b ps" and "\<And>ps r. e \<noteq> SFn ps r"
  shows "substitute_type_name H (spell e) s = Inr (spell e)"
  using assms application_other [of H e] signature_other [of H e]
  by (subst substitute_type_name.simps) simp

definition params_ok :: "host_text \<Rightarrow> ustr list \<Rightarrow> bool" where
  "params_ok H params \<longleftrightarrow> (\<forall>n \<in> set params. is_identifier H n)"

lemma param_none:
  assumes "host_ok H" and "params_ok H params" and "wf_spelling H e" and "\<And>n. e \<noteq> SName n"
  shows "spell e \<notin> set params" and "dom s \<subseteq> set params \<Longrightarrow> s (spell e) = None"
  using spell_not_name [OF assms(1,3,4)] assms(2) by (auto simp: params_ok_def)

lemma unify_matched:
  assumes H: "host_ok H" and P: "params_ok H params"
  shows "wf_spelling H p \<Longrightarrow> wf_spelling H a \<Longrightarrow> dom subs \<subseteq> set params \<Longrightarrow>
    unify_type_name H (spell p) (spell a) params subs = Inr (True, subs') \<Longrightarrow> matched H params [p] [a] subs subs'"
proof (induction p arbitrary: a subs subs')
  case (SName n)
  show ?case
  proof (cases "n \<in> set params")
    case True
    with SName.prems(4) have "subs' = subs(n \<mapsto> spell a) \<and> subs n = None \<or> subs' = subs \<and> subs n = Some (spell a)"
      by (subst (asm) unify_type_name.simps) (auto split: option.splits)
    then have "dom subs' \<subseteq> set params" "subs \<subseteq>\<^sub>m subs'" "subs' n = Some (spell a)"
      using True SName.prems(3) by (elim disjE conjE; simp add: map_le_def dom_def; force)+
    moreover have "substitute_type_name H n s = Inr (spell a)" if "subs' \<subseteq>\<^sub>m s" for s
    proof -
      have "s n = Some (spell a)" using that calculation(3) by (auto simp: map_le_def dom_def)
      then show ?thesis by (subst substitute_type_name.simps) simp
    qed
    ultimately show ?thesis unfolding matched_def by simp
  next
    case False
    have "n = spell a \<and> subs' = subs"
      using SName.prems(4) False application_other [OF H SName.prems(1)] signature_other [OF H SName.prems(1)]
      by (subst (asm) unify_type_name.simps) (auto simp: result_simps split: option.splits)
    moreover have "substitute_type_name H n s = Inr n" if "dom s \<subseteq> set params" for s
      using substitute_leaf [OF H SName.prems(1), of s] False that by (auto simp: dom_def)
    ultimately show ?thesis using SName.prems(3) unfolding matched_def by simp
  qed
next
  case (SArr n)
  have "spell (SArr n) = spell a \<and> subs' = subs"
    using SArr.prems(4) param_none(1) [OF H P SArr.prems(1)] application_other [OF H SArr.prems(1)]
      signature_other [OF H SArr.prems(1)]
    by (subst (asm) unify_type_name.simps) (auto simp: result_simps simp del: spell.simps split: option.splits)
  moreover have "substitute_type_name H (spell (SArr n)) s = Inr (spell (SArr n))" if "dom s \<subseteq> set params" for s
    using substitute_leaf [OF H SArr.prems(1)] param_none(2) [OF H P SArr.prems(1) _ that] by blast
  ultimately show ?case using SArr.prems(3) unfolding matched_def by simp
next
  case (SApp b ps)
  have notin: "spell (SApp b ps) \<notin> set params" using param_none(1) [OF H P SApp.prems(1)] by simp
  from SApp.prems(4) obtain qs where ga: "generic_application H (spell a) = Inr (Some (b, qs))"
    and len: "length ps = length qs"
    and all: "allR (\<lambda>(p, a) u. unify_type_name H p a params u) (zip (map spell ps) qs) subs = Inr (True, subs')"
    using notin application_app [OF H SApp.prems(1)]
    by (subst (asm) unify_type_name.simps)
      (auto simp: result_simps simp del: spell.simps split: option.splits if_splits)
  obtain as where a: "a = SApp b as" "qs = map spell as" using app_inv [OF H SApp.prems(2) ga] by blast
  have m: "matched H params ps as subs subs'"
    by (rule matched_all [OF _ _ SApp.prems(3)]) (use SApp all a len in \<open>auto simp: list_all_iff\<close>)
  have "substitute_type_name H (spell (SApp b ps)) s = Inr (spell a)"
    if "subs' \<subseteq>\<^sub>m s" "dom s \<subseteq> set params" for s
    unfolding a(1) using m that param_none(2) [OF H P SApp.prems(1) _ that(2)]
    by (intro substitute_app [OF H SApp.prems(1)]) (auto simp: matched_def)
  with m show ?case unfolding matched_def by (simp del: spell.simps)
next
  case (SFn ps r)
  have notin: "spell (SFn ps r) \<notin> set params" using param_none(1) [OF H P SFn.prems(1)] by simp
  note run = SFn.prems(4) [unfolded unify_type_name.simps [of H "spell (SFn ps r)" "spell a" params subs],
      unfolded signature_fn [OF H SFn.prems(1)] bindR_simps]
  have "\<exists>p. func_signature_from_name H (spell a) = Inr (Some p)"
    using run notin application_other [OF H SFn.prems(1)]
    by (auto simp: result_simps simp del: spell.simps split: option.splits)
  then obtain qs q where sg: "func_signature_from_name H (spell a) = Inr (Some (qs, q))" by auto
  have ga: "generic_application H (spell a) = Inr None"
    using run notin application_other [OF H SFn.prems(1)]
    by (auto simp: result_simps simp del: spell.simps split: option.splits) (metis not_None_eq surj_pair)
  obtain s1 where len: "length ps = length qs"
    and all: "allR (\<lambda>(p, a) u. unify_type_name H p a params u) (zip (map spell ps) qs) subs = Inr (True, s1)"
    and ret: "unify_type_name H (spell r) q params s1 = Inr (True, subs')"
    using run notin application_other [OF H SFn.prems(1)] sg ga
    by (auto simp: result_simps simp del: spell.simps split: if_splits)
  obtain as t where a: "a = SFn as t" "qs = map spell as" "q = spell t"
    using fn_inv [OF H SFn.prems(2) sg] by blast
  have m: "matched H params ps as subs s1"
    by (rule matched_all [OF _ _ SFn.prems(3)]) (use SFn all a len in \<open>auto simp: list_all_iff\<close>)
  have m2: "matched H params [r] [t] s1 subs'"
    by (rule SFn.IH(2)) (use SFn.prems m ret a in \<open>auto simp: matched_def\<close>)
  have le: "s1 \<subseteq>\<^sub>m subs'" using m2 by (simp add: matched_def)
  have "substitute_type_name H (spell (SFn ps r)) s = Inr (spell a)"
    if s: "subs' \<subseteq>\<^sub>m s" "dom s \<subseteq> set params" for s
    unfolding a(1)
  proof (rule substitute_fn [OF H SFn.prems(1)])
    show "s (spell (SFn ps r)) = None" using param_none(2) [OF H P SFn.prems(1) _ s(2)] by simp
    show "mapR (\<lambda>p. substitute_type_name H p s) (map spell ps) = Inr (map spell as)"
      using m s map_le_trans [OF le s(1)] by (simp add: matched_def)
    show "substitute_type_name H (spell r) s = Inr (spell t)"
      using m2 s by (auto simp: matched_def result_simps)
  qed
  with m m2 show ?case unfolding matched_def by (auto simp del: spell.simps intro: map_le_trans)
qed

text \<open>
  Claim C23. When matching a declared spelling against an actual one succeeds, it has only added
  bindings for type parameters, and substituting them in the declared spelling gives the actual one.
\<close>

theorem unify_sound:
  assumes "host_ok H" and "params_ok H params" and "wf_spelling H p" and "wf_spelling H a"
    and "dom subs \<subseteq> set params" and "unify_type_name H (spell p) (spell a) params subs = Inr (True, subs')"
  shows "subs \<subseteq>\<^sub>m subs' \<and> dom subs' \<subseteq> set params \<and> substitute_type_name H (spell p) subs' = Inr (spell a)"
  using unify_matched [OF assms] by (auto simp: matched_def result_simps)

lemma tree_subst_wf:
  assumes "\<And>n t. \<sigma> n = Some t \<Longrightarrow> wf_spelling H t"
  shows "wf_spelling H e \<Longrightarrow> wf_spelling H (tree_subst \<sigma> e)"
  using assms by (induction e) (auto simp: list_all_iff split: option.splits)

fun names_in :: "spelling \<Rightarrow> ustr set" where
  "names_in (SName n) = {n}"
| "names_in (SArr n) = {}"
| "names_in (SApp b as) = (\<Union>a \<in> set as. names_in a)"
| "names_in (SFn ps r) = (\<Union>p \<in> set ps. names_in p) \<union> names_in r"

text \<open>Bindings of which matching only ever uses a part.\<close>

definition binds :: "host_text \<Rightarrow> ustr list \<Rightarrow> (ustr \<Rightarrow> spelling option) \<Rightarrow> bool" where
  "binds H params \<sigma> \<longleftrightarrow> dom \<sigma> \<subseteq> set params \<and> (\<forall>n t. \<sigma> n = Some t \<longrightarrow> wf_spelling H t)"

definition found :: "host_text \<Rightarrow> ustr list \<Rightarrow> (ustr \<Rightarrow> spelling option) \<Rightarrow> spelling \<Rightarrow> bool" where
  "found H params \<sigma> p \<longleftrightarrow> (\<forall>subs. subs \<subseteq>\<^sub>m texts \<sigma> \<longrightarrow>
     (\<exists>subs'. unify_type_name H (spell p) (spell (tree_subst \<sigma> p)) params subs = Inr (True, subs')
        \<and> subs' \<subseteq>\<^sub>m texts \<sigma>))"

lemma found_all:
  assumes "\<And>p. p \<in> set ps \<Longrightarrow> found H params \<sigma> p" and "subs \<subseteq>\<^sub>m texts \<sigma>"
  shows "\<exists>subs'. allR (\<lambda>(p, a) u. unify_type_name H p a params u)
      (zip (map spell ps) (map (spell \<circ> tree_subst \<sigma>) ps)) subs = Inr (True, subs') \<and> subs' \<subseteq>\<^sub>m texts \<sigma>"
  using assms
proof (induction ps arbitrary: subs)
  case (Cons p ps)
  then obtain s1 where "unify_type_name H (spell p) (spell (tree_subst \<sigma> p)) params subs = Inr (True, s1)"
    and "s1 \<subseteq>\<^sub>m texts \<sigma>"
    unfolding found_def by (meson list.set_intros(1))
  with Cons.IH [of s1] Cons.prems show ?case by simp
qed simp

lemma unify_found:
  assumes H: "host_ok H" and P: "params_ok H params" and s: "binds H params \<sigma>"
  shows "wf_spelling H p \<Longrightarrow> names_in p \<inter> set params \<subseteq> dom \<sigma> \<Longrightarrow> found H params \<sigma> p"
proof (induction p)
  case (SName n)
  show ?case
  proof (cases "n \<in> set params")
    case True
    then obtain t where t: "\<sigma> n = Some t" using SName.prems(2) by auto
    then have x: "texts \<sigma> n = Some (spell t)" by (simp add: texts_def)
    have "\<exists>subs'. unify_type_name H n (spell t) params subs = Inr (True, subs') \<and> subs' \<subseteq>\<^sub>m texts \<sigma>"
      if "subs \<subseteq>\<^sub>m texts \<sigma>" for subs
    proof (cases "subs n")
      case None
      with True that x show ?thesis
        by (subst unify_type_name.simps) (auto simp: map_le_def)
    next
      case (Some b)
      then have "b = spell t" using that x by (force simp: map_le_def dom_def)
      with Some True that show ?thesis by (subst unify_type_name.simps) simp
    qed
    with t show ?thesis by (simp add: found_def)
  next
    case False
    then have "\<sigma> n = None" using s by (auto simp: binds_def)
    with False show ?thesis
      using application_other [OF H SName.prems(1)] signature_other [OF H SName.prems(1)]
      unfolding found_def by (subst unify_type_name.simps) simp
  qed
next
  case (SArr n)
  then show ?case
    using application_other [OF H SArr(1)] signature_other [OF H SArr(1)] param_none(1) [OF H P SArr(1)]
    unfolding found_def by (subst unify_type_name.simps) (simp del: spell.simps)
next
  case (SApp b ps)
  have "wf_spelling H (tree_subst \<sigma> (SApp b ps))"
    using s SApp.prems(1) by (intro tree_subst_wf) (auto simp: binds_def)
  then have ga: "generic_application H (spell (tree_subst \<sigma> (SApp b ps))) = Inr (Some (b, map (spell \<circ> tree_subst \<sigma>) ps))"
    using application_app [OF H, of b "map (tree_subst \<sigma>) ps"] by (simp del: spell.simps)
  have f: "found H params \<sigma> p" if "p \<in> set ps" for p
    using SApp that by (auto simp: list_all_iff)
  show ?case
    unfolding found_def
  proof (intro allI impI)
    fix subs assume "subs \<subseteq>\<^sub>m texts \<sigma>"
    from found_all [OF f this] show "\<exists>subs'. unify_type_name H (spell (SApp b ps))
        (spell (tree_subst \<sigma> (SApp b ps))) params subs = Inr (True, subs') \<and> subs' \<subseteq>\<^sub>m texts \<sigma>"
      using ga application_app [OF H SApp.prems(1)] param_none(1) [OF H P SApp.prems(1)]
      by (subst unify_type_name.simps) (simp del: spell.simps tree_subst.simps)
  qed
next
  case (SFn ps r)
  have w: "wf_spelling H (tree_subst \<sigma> (SFn ps r))"
    using s SFn.prems(1) by (intro tree_subst_wf) (auto simp: binds_def)
  then have sg: "func_signature_from_name H (spell (tree_subst \<sigma> (SFn ps r)))
      = Inr (Some (map (spell \<circ> tree_subst \<sigma>) ps, spell (tree_subst \<sigma> r)))"
    using signature_fn [OF H, of "map (tree_subst \<sigma>) ps"] by (simp del: spell.simps)
  have ao: "generic_application H (spell (tree_subst \<sigma> (SFn ps r))) = Inr None"
    by (rule application_other [OF H w]) simp
  have f: "found H params \<sigma> p" if "p \<in> set ps" for p
    using SFn that by (auto simp: list_all_iff)
  have fr: "found H params \<sigma> r" by (rule SFn.IH(2)) (use SFn.prems in auto)
  show ?case
    unfolding found_def
  proof (intro allI impI)
    fix subs assume "subs \<subseteq>\<^sub>m texts \<sigma>"
    from found_all [OF f this] obtain s1 where s1: "allR (\<lambda>(p, a) u. unify_type_name H p a params u)
        (zip (map spell ps) (map (spell \<circ> tree_subst \<sigma>) ps)) subs = Inr (True, s1)" "s1 \<subseteq>\<^sub>m texts \<sigma>"
      by blast
    from fr s1(2) show "\<exists>subs'. unify_type_name H (spell (SFn ps r))
        (spell (tree_subst \<sigma> (SFn ps r))) params subs = Inr (True, subs') \<and> subs' \<subseteq>\<^sub>m texts \<sigma>"
      using sg ao s1(1) application_other [OF H SFn.prems(1)] signature_fn [OF H SFn.prems(1)]
        param_none(1) [OF H P SFn.prems(1)]
      unfolding found_def
      by (subst unify_type_name.simps) (simp del: spell.simps tree_subst.simps)
  qed
qed

text \<open>
  Matching finds bindings whenever there are any: a declared spelling matches each of its
  instances, and the bindings it leaves are among those that made the instance.
\<close>

theorem unify_complete:
  assumes "host_ok H" and "params_ok H params" and "binds H params \<sigma>" and "wf_spelling H p"
    and "names_in p \<inter> set params \<subseteq> dom \<sigma>"
  shows "\<exists>subs'. unify_type_name H (spell p) (spell (tree_subst \<sigma> p)) params Map.empty = Inr (True, subs')
    \<and> subs' \<subseteq>\<^sub>m texts \<sigma>"
  using unify_found [OF assms] by (simp add: found_def)

section \<open>Examples\<close>

definition ascii_host :: host_text where
  "ascii_host = \<lparr>is_identifier = (\<lambda>n. n \<noteq> [] \<and> (\<forall>c \<in> set n. 97 \<le> c \<and> c \<le> 122 \<or> 65 \<le> c \<and> c \<le> 90)),
     is_space = (\<lambda>c. c = 32),
     int_value = (\<lambda>s. if s \<noteq> [] \<and> (\<forall>c \<in> set s. 48 \<le> c \<and> c \<le> 57)
       then Some (int (read_digits 10 (map (\<lambda>d. d - 48) s))) else None)\<rparr>"

lemma ascii_host_ok: "host_ok ascii_host"
  unfolding host_ok_def ascii_host_def
  using dec_nat_digits by (force simp: punctuation_def read_dec_nat)

abbreviation vec_of :: "spelling \<Rightarrow> spelling" where "vec_of t \<equiv> SApp (lit ''Vec'') [t]"

lemma ascii_names [simp]:
  "is_identifier ascii_host (lit ''T'')" "is_identifier ascii_host (lit ''int'')"
  "is_identifier ascii_host (lit ''Vec'')" "is_identifier ascii_host (lit ''Array'')"
  by (simp_all add: ascii_host_def lit_def)

abbreviation t_is_int :: "ustr \<Rightarrow> spelling option" where
  "t_is_int \<equiv> [lit ''T'' \<mapsto> SName (lit ''int'')]"

theorem substitution_structural_witness:
  "substitute_type_name ascii_host (spell (SFn [vec_of (SName (lit ''T''))] (SName (lit ''Total'')))) (texts t_is_int)
    = Inr (lit ''fn(Vec<int>):Total'')"
proof -
  let ?e = "SFn [vec_of (SName (lit ''T''))] (SName (lit ''Total''))"
  have "spell (tree_subst t_is_int ?e) = lit ''fn(Vec<int>):Total''" by (simp add: lit_def)
  moreover have "wf_spelling ascii_host ?e" by (simp add: ascii_host_def lit_def)
  ultimately show ?thesis
    using substitution_structural [OF ascii_host_ok, of t_is_int ?e] by (simp add: on_names_def del: spell.simps)
qed

theorem resolution_structural_witness:
  "type_from_name ascii_host Map.empty Map.empty (spell (SApp (lit ''Array'') [SFn [SName (lit ''int'')] (SName (lit ''int''))]))
    = Inr (array_obj_type (func_type [TInt] TInt))"
proof -
  let ?e = "SApp (lit ''Array'') [SFn [SName (lit ''int'')] (SName (lit ''int''))]"
  have "tree_type Map.empty Map.empty ?e = Inr (array_obj_type (func_type [TInt] TInt))"
    by (simp add: BUILTIN_TYPES_def check_param_def check_return_def check_element_def TInt_def TVoid_def
      TFloat_def TPtr_def is_array_type_def is_frame_relative_def starts_with_def func_type_def lit_def)
  moreover have "wf_spelling ascii_host ?e" by simp
  ultimately show ?thesis
    using resolution_structural [OF ascii_host_ok, of Map.empty Map.empty ?e]
    by (simp add: tables_ok_def del: spell.simps)
qed

theorem unify_complete_witness:
  "\<exists>subs'. unify_type_name ascii_host (spell (vec_of (SName (lit ''T'')))) (spell (vec_of (SName (lit ''int''))))
      [lit ''T''] Map.empty = Inr (True, subs') \<and> subs' \<subseteq>\<^sub>m texts t_is_int"
  using unify_complete [OF ascii_host_ok, of "[lit ''T'']" t_is_int "vec_of (SName (lit ''T''))"]
  by (auto simp: params_ok_def binds_def)

theorem unify_sound_witness:
  "\<exists>subs'. unify_type_name ascii_host (spell (vec_of (SName (lit ''T'')))) (spell (vec_of (SName (lit ''int''))))
      [lit ''T''] Map.empty = Inr (True, subs')
    \<and> substitute_type_name ascii_host (spell (vec_of (SName (lit ''T'')))) subs' = Inr (lit ''Vec<int>'')"
proof -
  have "found ascii_host [lit ''T''] t_is_int (vec_of (SName (lit ''T'')))"
    by (rule unify_found [OF ascii_host_ok]) (auto simp: params_ok_def binds_def)
  then obtain subs' where u: "unify_type_name ascii_host (spell (vec_of (SName (lit ''T''))))
      (spell (vec_of (SName (lit ''int'')))) [lit ''T''] Map.empty = Inr (True, subs')"
    unfolding found_def by (auto dest!: spec [of _ Map.empty])
  have "substitute_type_name ascii_host (spell (vec_of (SName (lit ''T'')))) subs' = Inr (spell (vec_of (SName (lit ''int''))))"
    using unify_sound [OF ascii_host_ok _ _ _ _ u] by (simp add: params_ok_def)
  with u show ?thesis by (auto simp: lit_def)
qed

end
