(* ===== verification/Syntax.thy ===== *)
theory Syntax
  imports Machine
begin

text \<open>
  The syntax tree of \<open>compiler/ast.py\<close>: one constructor per node class, each carrying the line and
  column every node has, and the rewriting of type names that instantiates a template.
\<close>

section \<open>Nodes\<close>

type_synonym pos = "int \<times> int"

datatype literal_value = LInt nat | LFloat pyfloat | LStr ustr | LBool bool | LNone

datatype expr =
    Literal pos literal_value
  | Identifier pos ustr
  | Unary pos ustr expr
  | Binary pos expr ustr expr
  | Call pos ustr "expr list" "expr option" "ustr list"
  | Index pos expr expr
  | AddressOf pos expr
  | FieldAccess pos expr ustr
  | StructLit pos ustr "field_init list"
and field_init = FieldInit pos ustr expr

datatype stmt =
    ExprStmt pos expr
  | VarDecl pos ustr "ustr option" "expr option"
  | Assign pos expr expr
  | Print pos expr
  | PrintLn pos expr
  | Return pos "expr option"
  | VmAsm pos ustr
  | If pos expr "stmt list" "stmt list option"
  | While pos expr "stmt list"
  | For pos "stmt option" "expr option" "stmt option" "stmt list"
  | Match pos expr "match_arm list"
  | Break pos
  | Continue pos
  | Block pos "stmt list"
and match_arm = MatchArm pos "ustr option" "ustr list" "stmt list"

datatype param = Param pos ustr ustr
datatype field_def = FieldDef pos ustr ustr
datatype variant_def = VariantDef pos ustr "ustr list"
datatype struct_def = StructDef pos ustr "field_def list" "ustr list"
datatype enum_def = EnumDef pos ustr "variant_def list" "ustr list"
datatype incl = Include pos ustr

datatype function_def = Function pos ustr "param list" "ustr option" "stmt list" "ustr list" (decl_file: ustr)

record program_ast =
  includes_of :: "incl list"
  functions_of :: "function_def list"
  structs_of :: "struct_def list"
  enums_of :: "enum_def list"

primrec expr_pos :: "expr \<Rightarrow> pos" where
  "expr_pos (Literal p _) = p"
| "expr_pos (Identifier p _) = p"
| "expr_pos (Unary p _ _) = p"
| "expr_pos (Binary p _ _ _) = p"
| "expr_pos (Call p _ _ _ _) = p"
| "expr_pos (Index p _ _) = p"
| "expr_pos (AddressOf p _) = p"
| "expr_pos (FieldAccess p _ _) = p"
| "expr_pos (StructLit p _ _) = p"

section \<open>Rewriting type names\<close>

text \<open>
  \<open>substitute_types\<close> with a total rewriting function: only the fields that hold type names change.
\<close>

primrec subst_expr :: "(ustr \<Rightarrow> ustr) \<Rightarrow> expr \<Rightarrow> expr"
    and subst_init :: "(ustr \<Rightarrow> ustr) \<Rightarrow> field_init \<Rightarrow> field_init" where
  "subst_expr r (Literal p v) = Literal p v"
| "subst_expr r (Identifier p n) = Identifier p n"
| "subst_expr r (Unary p o' e) = Unary p o' (subst_expr r e)"
| "subst_expr r (Binary p a o' b) = Binary p (subst_expr r a) o' (subst_expr r b)"
| "subst_expr r (Call p f as rc ts) =
     Call p f (map (subst_expr r) as) (map_option (subst_expr r) rc) (map r ts)"
| "subst_expr r (Index p a i) = Index p (subst_expr r a) (subst_expr r i)"
| "subst_expr r (AddressOf p e) = AddressOf p (subst_expr r e)"
| "subst_expr r (FieldAccess p e f) = FieldAccess p (subst_expr r e) f"
| "subst_expr r (StructLit p n fs) = StructLit p (r n) (map (subst_init r) fs)"
| "subst_init r (FieldInit p n e) = FieldInit p n (subst_expr r e)"

primrec subst_stmt :: "(ustr \<Rightarrow> ustr) \<Rightarrow> stmt \<Rightarrow> stmt"
    and subst_arm :: "(ustr \<Rightarrow> ustr) \<Rightarrow> match_arm \<Rightarrow> match_arm" where
  "subst_stmt r (ExprStmt p e) = ExprStmt p (subst_expr r e)"
| "subst_stmt r (VarDecl p n t i) = VarDecl p n (map_option r t) (map_option (subst_expr r) i)"
| "subst_stmt r (Assign p a b) = Assign p (subst_expr r a) (subst_expr r b)"
| "subst_stmt r (Print p e) = Print p (subst_expr r e)"
| "subst_stmt r (PrintLn p e) = PrintLn p (subst_expr r e)"
| "subst_stmt r (Return p e) = Return p (map_option (subst_expr r) e)"
| "subst_stmt r (VmAsm p c) = VmAsm p c"
| "subst_stmt r (If p c t e) =
     If p (subst_expr r c) (map (subst_stmt r) t) (map_option (map (subst_stmt r)) e)"
| "subst_stmt r (While p c b) = While p (subst_expr r c) (map (subst_stmt r) b)"
| "subst_stmt r (For p i c s b) = For p (map_option (subst_stmt r) i) (map_option (subst_expr r) c)
     (map_option (subst_stmt r) s) (map (subst_stmt r) b)"
| "subst_stmt r (Match p e as) = Match p (subst_expr r e) (map (subst_arm r) as)"
| "subst_stmt r (Break p) = Break p"
| "subst_stmt r (Continue p) = Continue p"
| "subst_stmt r (Block p ss) = Block p (map (subst_stmt r) ss)"
| "subst_arm r (MatchArm p v bs b) = MatchArm p v bs (map (subst_stmt r) b)"

primrec subst_param :: "(ustr \<Rightarrow> ustr) \<Rightarrow> param \<Rightarrow> param" where
  "subst_param r (Param p n t) = Param p n (r t)"

primrec subst_field :: "(ustr \<Rightarrow> ustr) \<Rightarrow> field_def \<Rightarrow> field_def" where
  "subst_field r (FieldDef p n t) = FieldDef p n (r t)"

primrec subst_variant :: "(ustr \<Rightarrow> ustr) \<Rightarrow> variant_def \<Rightarrow> variant_def" where
  "subst_variant r (VariantDef p n ts) = VariantDef p n (map r ts)"

primrec subst_function :: "(ustr \<Rightarrow> ustr) \<Rightarrow> function_def \<Rightarrow> function_def" where
  "subst_function r (Function p n ps t b tps f) =
     Function p n (map (subst_param r) ps) (map_option r t) (map (subst_stmt r) b) tps f"

primrec subst_struct :: "(ustr \<Rightarrow> ustr) \<Rightarrow> struct_def \<Rightarrow> struct_def" where
  "subst_struct r (StructDef p n fs tps) = StructDef p n (map (subst_field r) fs) tps"

primrec subst_enum :: "(ustr \<Rightarrow> ustr) \<Rightarrow> enum_def \<Rightarrow> enum_def" where
  "subst_enum r (EnumDef p n vs tps) = EnumDef p n (map (subst_variant r) vs) tps"

lemma subst_expr_comp:
  "subst_expr r (subst_expr s e) = subst_expr (r \<circ> s) e"
  "subst_init r (subst_init s i) = subst_init (r \<circ> s) i"
  by (induction e and i) (auto simp: option.map_comp intro!: option.map_cong0)

lemma subst_stmt_comp:
  "subst_stmt r (subst_stmt s x) = subst_stmt (r \<circ> s) x"
  "subst_arm r (subst_arm s a) = subst_arm (r \<circ> s) a"
proof (induction x and a)
  case (If p c t e)
  then show ?case
    by (auto simp: subst_expr_comp option.map_comp comp_def intro!: option.map_cong0)
next
  case (For p i c s' b)
  then show ?case
    by (auto simp: subst_expr_comp option.map_comp comp_def intro!: option.map_cong0)
qed (auto simp: subst_expr_comp option.map_comp comp_def)

text \<open>
  Instantiating a template in two steps is instantiating it once with the composed
  rewriting, for every node of a function, its signature included.
\<close>

theorem substitute_types_comp:
  "subst_function r (subst_function s f) = subst_function (r \<circ> s) f"
proof (cases f)
  case (Function p n ps t b tps src)
  have "subst_param r (subst_param s q) = subst_param (r \<circ> s) q" for q by (cases q) simp
  then show ?thesis by (simp add: Function subst_stmt_comp option.map_comp comp_def)
qed

end
