(* ===== verification/Parser.thy ===== *)
theory Parser
  imports Lexer Syntax
begin

text \<open>
  The recursive-descent parser of \<open>compiler/parser.py\<close>, one definition per method. The methods that
  recurse (expressions, unary operands, blocks, types) are reached through a record of entry points,
  and \<open>entries\<close> ties that knot with fuel; each loop takes the same fuel.
\<close>

section \<open>The parser's state\<close>

datatype parse_fault =
    Expected ustr ustr
  | EmptyPayload ustr | DuplicateTypeParameter ustr | OnlyIntArrays ustr | NoArms
  | NotAPath ustr ustr | CannotBind | UnfinishedInstruction ustr | ExpectedExpression

datatype parse_error = ParseError parse_fault int int | ParseHost host_error | ParseFuel

record pstate =
  toks :: "token list"
  cur :: nat

type_synonym 'a parser = "pstate \<Rightarrow> parse_error + 'a \<times> pstate"

definition bindP :: "'a parser \<Rightarrow> ('a \<Rightarrow> 'b parser) \<Rightarrow> 'b parser" where
  "bindP p f s = bindR (p s) (\<lambda>(x, s1). f x s1)"

definition giveP :: "'a \<Rightarrow> 'a parser" where
  "giveP x s = Inr (x, s)"

definition failP :: "parse_fault \<Rightarrow> token \<Rightarrow> 'a parser" where
  "failP e t s = Inl (ParseError e (tok_line t) (tok_col t))"

definition tpos :: "token \<Rightarrow> pos" where
  "tpos t = (tok_line t, tok_col t)"

section \<open>Helpers\<close>

definition peekP :: "token parser" where
  "peekP s = (if cur s < length (toks s) then Inr (toks s ! cur s, s) else Inl (ParseHost IndexError))"

text \<open>\<open>tokens[current - 1]\<close>, which at \<open>current = 0\<close> is the last token.\<close>

definition previousP :: "token parser" where
  "previousP s = (case py_index (toks s) (int (cur s) - 1) of
     None \<Rightarrow> Inl (ParseHost IndexError) | Some t \<Rightarrow> Inr (t, s))"

definition at_endP :: "bool parser" where
  "at_endP = bindP peekP (\<lambda>t. giveP (tok_type t = EOF))"

definition checkP :: "token_type \<Rightarrow> bool parser" where
  "checkP ty = bindP at_endP (\<lambda>e. if e then giveP False else bindP peekP (\<lambda>t. giveP (tok_type t = ty)))"

definition check_nextP :: "token_type \<Rightarrow> bool parser" where
  "check_nextP ty s = Inr (cur s + 1 < length (toks s) \<and> tok_type (toks s ! (cur s + 1)) = ty, s)"

definition advanceP :: "token parser" where
  "advanceP = bindP at_endP (\<lambda>e s. previousP (if e then s else s\<lparr>cur := cur s + 1\<rparr>))"

fun matchP :: "token_type list \<Rightarrow> bool parser" where
  "matchP [] = giveP False"
| "matchP (ty # tys) = bindP (checkP ty) (\<lambda>c.
     if c then bindP advanceP (\<lambda>_. giveP True) else matchP tys)"

definition consumeP :: "token_type \<Rightarrow> ustr \<Rightarrow> token parser" where
  "consumeP ty msg = bindP (checkP ty) (\<lambda>c. if c then advanceP
     else bindP peekP (\<lambda>t. failP (Expected msg (lexeme t)) t))"

text \<open>
  The loops: \<open>while True: item; if not match(COMMA): break\<close>, the same guarded by the closing token, and
  \<open>while not check(close): item\<close>.
\<close>

fun comma_list :: "nat \<Rightarrow> 'a parser \<Rightarrow> 'a list parser" where
  "comma_list 0 item s = Inl ParseFuel"
| "comma_list (Suc n) item s = bindP item (\<lambda>x. bindP (matchP [COMMA]) (\<lambda>m.
     if m then bindP (comma_list n item) (\<lambda>xs. giveP (x # xs)) else giveP [x])) s"

fun comma_items :: "nat \<Rightarrow> token_type \<Rightarrow> 'a parser \<Rightarrow> 'a list parser" where
  "comma_items 0 close item s = Inl ParseFuel"
| "comma_items (Suc n) close item s = bindP (checkP close) (\<lambda>c. if c then giveP [] else
     bindP item (\<lambda>x. bindP (matchP [COMMA]) (\<lambda>m.
       if m then bindP (comma_items n close item) (\<lambda>xs. giveP (x # xs)) else giveP [x]))) s"

fun until :: "nat \<Rightarrow> token_type \<Rightarrow> 'a parser \<Rightarrow> 'a list parser" where
  "until 0 close item s = Inl ParseFuel"
| "until (Suc n) close item s = bindP (checkP close) (\<lambda>c. if c then giveP [] else
     bindP item (\<lambda>x. bindP (until n close item) (\<lambda>xs. giveP (x # xs)))) s"

text \<open>The entry points a method may recurse through, the fuel of its loops, and the host's white space.\<close>

record entry =
  e_space :: "nat \<Rightarrow> bool"
  e_fuel :: nat
  e_expr :: "expr parser"
  e_unary :: "expr parser"
  e_block :: "stmt list parser"
  e_type :: "ustr parser"

section \<open>Types\<close>

definition close_type_arguments :: "unit parser" where
  "close_type_arguments = bindP peekP (\<lambda>t.
     if tok_type t = SHR_T then (\<lambda>s. Inr ((), s\<lparr>toks := (toks s)[cur s :=
         \<lparr>tok_type = GREATER, lexeme = lit ''>'', tok_line = tok_line t, tok_col = tok_col t + 1, tok_literal = NoValue\<rparr>]\<rparr>))
     else if tok_type t = GREATER_EQUAL then (\<lambda>s. Inr ((), s\<lparr>toks := (toks s)[cur s :=
         \<lparr>tok_type = EQUAL, lexeme = lit ''='', tok_line = tok_line t, tok_col = tok_col t + 1, tok_literal = NoValue\<rparr>]\<rparr>))
     else bindP (consumeP GREATER (lit ''Expected '' @ [39, 62, 39] @ lit '' after type arguments'')) (\<lambda>_. giveP ()))"

fun join_text :: "ustr \<Rightarrow> ustr list \<Rightarrow> ustr" where
  "join_text s [] = []"
| "join_text s [x] = x"
| "join_text s (x # y # ys) = x @ s @ join_text s (y # ys)"

definition function_type_name :: "entry \<Rightarrow> ustr parser" where
  "function_type_name R =
     bindP (consumeP LEFT_PAREN (lit ''( after fn in a type'')) (\<lambda>_.
     bindP (checkP RIGHT_PAREN) (\<lambda>c.
     bindP (if c then giveP [] else comma_list (e_fuel R) (e_type R)) (\<lambda>params.
     bindP (consumeP RIGHT_PAREN (lit '') after function type parameters'')) (\<lambda>_.
     bindP (matchP [COLON]) (\<lambda>m.
     bindP (if m then e_type R else giveP (lit ''void'')) (\<lambda>ret.
       giveP (lit ''fn('' @ join_text (lit '','') params @ lit ''):'' @ ret)))))))"

definition type_arguments :: "entry \<Rightarrow> ustr \<Rightarrow> ustr parser" where
  "type_arguments R base =
     bindP (comma_list (e_fuel R) (e_type R)) (\<lambda>args.
     bindP close_type_arguments (\<lambda>_.
       giveP (base @ lit ''<'' @ join_text (lit '','') args @ lit ''>'')))"

definition array_suffix :: "ustr \<Rightarrow> ustr parser" where
  "array_suffix base =
     bindP (if base = lit ''int'' then matchP [LEFT_BRACKET] else giveP False) (\<lambda>m.
     if m then
       bindP (consumeP NUMBER (lit ''array size after ['')) (\<lambda>t.
       bindP (consumeP RIGHT_BRACKET (lit ''] after array size'')) (\<lambda>_.
         (case tok_literal t of
            IntValue n \<Rightarrow> giveP (lit ''int['' @ dec_nat n @ lit '']'')
          | _ \<Rightarrow> (\<lambda>s. Inl (ParseHost TypeError)))))
     else bindP (checkP LEFT_BRACKET) (\<lambda>c.
       if c then bindP peekP (\<lambda>t. failP (OnlyIntArrays base) t) else giveP base))"

definition type_name_of :: "entry \<Rightarrow> ustr parser" where
  "type_name_of R =
     bindP (matchP [FN]) (\<lambda>m. if m then function_type_name R else
     bindP (matchP [INT_T]) (\<lambda>m. if m then array_suffix (lit ''int'') else
     bindP (matchP [STR_T]) (\<lambda>m. if m then array_suffix (lit ''str'') else
     bindP (matchP [FLOAT]) (\<lambda>m. if m then array_suffix (lit ''float'') else
     bindP (matchP [VOID]) (\<lambda>m. if m then array_suffix (lit ''void'') else
     bindP (matchP [PTR]) (\<lambda>m. if m then array_suffix (lit ''ptr'') else
     bindP (matchP [HEAPPTR]) (\<lambda>m. if m then array_suffix (lit ''heapptr'') else
     bindP (consumeP IDENTIFIER (lit ''type name'')) (\<lambda>t.
     bindP (matchP [LESS]) (\<lambda>m.
       if m then type_arguments R (lexeme t) else array_suffix (lexeme t))))))))))"

text \<open>A type parameter list; a name already read is refused where it stands.\<close>

fun type_parameter_names :: "nat \<Rightarrow> ustr list \<Rightarrow> ustr list parser" where
  "type_parameter_names 0 names s = Inl ParseFuel"
| "type_parameter_names (Suc n) names s =
     bindP (consumeP IDENTIFIER (lit ''a type parameter name'')) (\<lambda>t.
       if lexeme t \<in> set names then failP (DuplicateTypeParameter (lexeme t)) t
       else bindP (matchP [COMMA]) (\<lambda>m.
         if m then type_parameter_names n (names @ [lexeme t]) else giveP (names @ [lexeme t]))) s"

definition type_parameters :: "nat \<Rightarrow> ustr list parser" where
  "type_parameters n =
     bindP (matchP [LESS]) (\<lambda>m. if \<not> m then giveP [] else
     bindP (type_parameter_names n []) (\<lambda>names.
     bindP close_type_arguments (\<lambda>_. giveP names)))"

section \<open>Expressions\<close>

definition call_arguments :: "entry \<Rightarrow> expr list parser" where
  "call_arguments R =
     bindP (checkP RIGHT_PAREN) (\<lambda>c.
     bindP (if c then giveP [] else comma_list (e_fuel R) (e_expr R)) (\<lambda>args.
     bindP (consumeP RIGHT_PAREN (lit '') after arguments'')) (\<lambda>_. giveP args)))"

definition field_initializer :: "entry \<Rightarrow> field_init parser" where
  "field_initializer R =
     bindP (consumeP IDENTIFIER (lit ''field name in struct literal'')) (\<lambda>t.
     bindP (consumeP COLON (lit '': after field name'')) (\<lambda>_.
     bindP (e_expr R) (\<lambda>v. giveP (FieldInit (tpos t) (lexeme t) v))))"

definition struct_literal :: "entry \<Rightarrow> ustr \<Rightarrow> pos \<Rightarrow> expr parser" where
  "struct_literal R name p =
     bindP (consumeP LEFT_BRACE (lit ''{ to start struct literal'')) (\<lambda>_.
     bindP (comma_items (e_fuel R) RIGHT_BRACE (field_initializer R)) (\<lambda>inits.
     bindP (consumeP RIGHT_BRACE (lit ''} after struct literal fields'')) (\<lambda>_.
       giveP (StructLit p name inits))))"

definition qualified_name :: "token \<Rightarrow> ustr parser" where
  "qualified_name first =
     bindP (consumeP COLON_COLON (lit ''::'')) (\<lambda>_.
     bindP (consumeP IDENTIFIER (lit ''a variant name after ::'')) (\<lambda>second.
     bindP (checkP COLON_COLON) (\<lambda>c.
       if c then bindP peekP (\<lambda>t. failP (NotAPath (lexeme first) (lexeme second)) t)
       else giveP (lexeme first @ lit ''::'' @ lexeme second))))"

fun literal_of :: "token_value \<Rightarrow> literal_value" where
  "literal_of (IntValue n) = LInt n"
| "literal_of (FloatValue x) = LFloat x"
| "literal_of (TextValue s) = LStr s"
| "literal_of NoValue = LNone"

definition primary :: "entry \<Rightarrow> expr parser" where
  "primary R =
     bindP (matchP [FALSE]) (\<lambda>m. if m then bindP previousP (\<lambda>t. giveP (Literal (tpos t) (LBool False))) else
     bindP (matchP [TRUE]) (\<lambda>m. if m then bindP previousP (\<lambda>t. giveP (Literal (tpos t) (LBool True))) else
     bindP (matchP [NULL]) (\<lambda>m. if m then bindP previousP (\<lambda>t. giveP (Literal (tpos t) LNone)) else
     bindP (matchP [NUMBER]) (\<lambda>m. if m then bindP previousP (\<lambda>t. giveP (Literal (tpos t) (literal_of (tok_literal t)))) else
     bindP (matchP [FLOAT_NUMBER]) (\<lambda>m. if m then bindP previousP (\<lambda>t. giveP (Literal (tpos t) (literal_of (tok_literal t)))) else
     bindP (matchP [STRING]) (\<lambda>m. if m then bindP previousP (\<lambda>t. giveP (Literal (tpos t) (literal_of (tok_literal t)))) else
     bindP (matchP [IDENTIFIER]) (\<lambda>m. if m then bindP previousP (\<lambda>t.
         bindP (checkP COLON_COLON) (\<lambda>cc. bindP (check_nextP LESS) (\<lambda>turbo.
         if cc \<and> \<not> turbo then bindP (qualified_name t) (\<lambda>q. giveP (Identifier (tpos t) q))
         else bindP (checkP LEFT_BRACE) (\<lambda>b.
           if b then struct_literal R (lexeme t) (tpos t) else giveP (Identifier (tpos t) (lexeme t)))))) else
     bindP (matchP [LEFT_PAREN]) (\<lambda>m. if m then
         bindP (e_expr R) (\<lambda>e. bindP (consumeP RIGHT_PAREN (lit '') after expression'')) (\<lambda>_. giveP e)) else
     bindP peekP (\<lambda>t. failP ExpectedExpression t)))))))))"

text \<open>The turbofish after an identifier, its \<open>::\<close> seen and not yet taken.\<close>

definition turbofish :: "entry \<Rightarrow> ustr \<Rightarrow> pos \<Rightarrow> expr parser" where
  "turbofish R name p =
     bindP advanceP (\<lambda>_.
     bindP (consumeP LESS (lit ''< after ::'')) (\<lambda>_.
     bindP (comma_list (e_fuel R) (e_type R)) (\<lambda>args.
     bindP close_type_arguments (\<lambda>_.
     bindP (checkP LEFT_BRACE) (\<lambda>b.
       if b then struct_literal R (name @ lit ''<'' @ join_text (lit '','') args @ lit ''>'') p
       else bindP (consumeP LEFT_PAREN (lit ''( or { after type arguments'')) (\<lambda>t.
            bindP (call_arguments R) (\<lambda>as. giveP (Call (tpos t) name as None args))))))))"

text \<open>One round of the postfix loop: the extended expression, or nothing when no suffix follows.\<close>

definition postfix :: "entry \<Rightarrow> expr \<Rightarrow> expr option parser" where
  "postfix R e =
     bindP (case e of Identifier _ _ \<Rightarrow> checkP COLON_COLON | _ \<Rightarrow> giveP False) (\<lambda>tf.
     if tf then (case e of
         Identifier p name \<Rightarrow> bindP (turbofish R name p) (\<lambda>x. giveP (Some x))
       | _ \<Rightarrow> giveP None)
     else
     bindP (case e of Identifier _ _ \<Rightarrow> matchP [LEFT_PAREN] | _ \<Rightarrow> giveP False) (\<lambda>call.
     if call then (case e of
         Identifier _ name \<Rightarrow> bindP previousP (\<lambda>t. bindP (call_arguments R) (\<lambda>as.
           giveP (Some (Call (tpos t) name as None []))))
       | _ \<Rightarrow> giveP None)
     else
     bindP (case e of FieldAccess _ _ _ \<Rightarrow> matchP [LEFT_PAREN] | _ \<Rightarrow> giveP False) (\<lambda>mcall.
     if mcall then (case e of
         FieldAccess _ _ f \<Rightarrow> bindP previousP (\<lambda>t. bindP (call_arguments R) (\<lambda>as.
           giveP (Some (Call (tpos t) f as (Some e) []))))
       | _ \<Rightarrow> giveP None)
     else
     bindP (matchP [LEFT_BRACKET]) (\<lambda>idx.
     if idx then bindP previousP (\<lambda>t. bindP (e_expr R) (\<lambda>i.
         bindP (consumeP RIGHT_BRACKET (lit ''] after index expression'')) (\<lambda>_.
           giveP (Some (Index (tpos t) e i)))))
     else
     bindP (matchP [DOT]) (\<lambda>dot.
     if dot then bindP (consumeP IDENTIFIER (lit ''field name after .'')) (\<lambda>t.
         giveP (Some (FieldAccess (tpos t) e (lexeme t))))
     else giveP None)))))"

fun postfix_loop :: "nat \<Rightarrow> entry \<Rightarrow> expr \<Rightarrow> expr parser" where
  "postfix_loop 0 R e s = Inl ParseFuel"
| "postfix_loop (Suc n) R e s = bindP (postfix R e) (\<lambda>r. case r of
     None \<Rightarrow> giveP e | Some e' \<Rightarrow> postfix_loop n R e') s"

definition call_expr :: "entry \<Rightarrow> expr parser" where
  "call_expr R = bindP (primary R) (postfix_loop (e_fuel R) R)"

definition unary_expr :: "entry \<Rightarrow> expr parser" where
  "unary_expr R =
     bindP (matchP [AT]) (\<lambda>m. if m then
       bindP previousP (\<lambda>t. bindP (e_unary R) (\<lambda>e. giveP (AddressOf (tpos t) e)))
     else bindP (matchP [BANG, MINUS, TILDE]) (\<lambda>m. if m then
       bindP previousP (\<lambda>t. bindP (e_unary R) (\<lambda>e. giveP (Unary (tpos t) (lexeme t) e)))
     else call_expr R))"

text \<open>The loop every binary level runs: operators of the level, folded to the left.\<close>

fun binary_loop :: "nat \<Rightarrow> token_type list \<Rightarrow> expr parser \<Rightarrow> expr \<Rightarrow> expr parser" where
  "binary_loop 0 ops operand e s = Inl ParseFuel"
| "binary_loop (Suc n) ops operand e s = bindP (matchP ops) (\<lambda>m.
     if m then bindP previousP (\<lambda>t. bindP operand (\<lambda>r.
       binary_loop n ops operand (Binary (tpos t) e (lexeme t) r)))
     else giveP e) s"

definition binary_level :: "nat \<Rightarrow> token_type list \<Rightarrow> expr parser \<Rightarrow> expr parser" where
  "binary_level n ops operand = bindP operand (binary_loop n ops operand)"

definition factor_expr :: "entry \<Rightarrow> expr parser" where
  "factor_expr R = binary_level (e_fuel R) [STAR, SLASH, PERCENT] (unary_expr R)"

definition term_expr :: "entry \<Rightarrow> expr parser" where
  "term_expr R = binary_level (e_fuel R) [PLUS, MINUS] (factor_expr R)"

definition shift_expr :: "entry \<Rightarrow> expr parser" where
  "shift_expr R = binary_level (e_fuel R) [SHL_T, SHR_T] (term_expr R)"

definition comparison_expr :: "entry \<Rightarrow> expr parser" where
  "comparison_expr R = binary_level (e_fuel R) [GREATER, GREATER_EQUAL, LESS, LESS_EQUAL] (shift_expr R)"

definition equality_expr :: "entry \<Rightarrow> expr parser" where
  "equality_expr R = binary_level (e_fuel R) [EQUAL_EQUAL, BANG_EQUAL] (comparison_expr R)"

definition bitand_expr :: "entry \<Rightarrow> expr parser" where
  "bitand_expr R = binary_level (e_fuel R) [AMP] (equality_expr R)"

definition bitxor_expr :: "entry \<Rightarrow> expr parser" where
  "bitxor_expr R = binary_level (e_fuel R) [CARET] (bitand_expr R)"

definition bitor_expr :: "entry \<Rightarrow> expr parser" where
  "bitor_expr R = binary_level (e_fuel R) [PIPE] (bitxor_expr R)"

definition and_expr :: "entry \<Rightarrow> expr parser" where
  "and_expr R = binary_level (e_fuel R) [AND_AND] (bitor_expr R)"

definition or_expr :: "entry \<Rightarrow> expr parser" where
  "or_expr R = binary_level (e_fuel R) [OR_OR] (and_expr R)"

definition expression :: "entry \<Rightarrow> expr parser" where
  "expression R = or_expr R"

section \<open>Statements\<close>

definition var_decl :: "entry \<Rightarrow> stmt parser" where
  "var_decl R =
     bindP (consumeP IDENTIFIER (lit ''variable name'')) (\<lambda>t.
     bindP (matchP [COLON]) (\<lambda>c.
     bindP (if c then bindP (e_type R) (\<lambda>ty. giveP (Some ty)) else giveP None) (\<lambda>ty.
     bindP (matchP [EQUAL]) (\<lambda>m.
     bindP (if m then bindP (e_expr R) (\<lambda>e. giveP (Some e)) else giveP None) (\<lambda>init.
     bindP (consumeP SEMICOLON (lit ''; after variable declaration'')) (\<lambda>_.
       giveP (VarDecl (tpos t) (lexeme t) ty init)))))))"

definition assign_or_expr :: "entry \<Rightarrow> stmt parser" where
  "assign_or_expr R =
     bindP (e_expr R) (\<lambda>e. bindP (matchP [EQUAL]) (\<lambda>m.
     if m then bindP previousP (\<lambda>t. bindP (e_expr R) (\<lambda>v. giveP (Assign (tpos t) e v)))
     else giveP (ExprStmt (expr_pos e) e)))"

definition for_init :: "entry \<Rightarrow> stmt option parser" where
  "for_init R =
     bindP (matchP [SEMICOLON]) (\<lambda>m. if m then giveP None else
     bindP (matchP [LET]) (\<lambda>m. if m then bindP (var_decl R) (\<lambda>d. giveP (Some d)) else
     bindP (assign_or_expr R) (\<lambda>st.
     bindP (consumeP SEMICOLON (lit ''; after for-loop initializer'')) (\<lambda>_. giveP (Some st)))))"

definition for_step :: "entry \<Rightarrow> stmt option parser" where
  "for_step R = bindP (checkP RIGHT_PAREN) (\<lambda>c.
     if c then giveP None else bindP (assign_or_expr R) (\<lambda>st. giveP (Some st)))"

definition match_arm_of :: "entry \<Rightarrow> match_arm parser" where
  "match_arm_of R =
     bindP (consumeP IDENTIFIER (lit ''a variant name or _'')) (\<lambda>t.
     bindP (if lexeme t = lit ''_'' then giveP None else bindP (qualified_name t) (\<lambda>q. giveP (Some q))) (\<lambda>variant.
     bindP (matchP [LEFT_PAREN]) (\<lambda>m.
     bindP (if m then
         (if variant = None then failP CannotBind t
          else bindP (comma_list (e_fuel R) (consumeP IDENTIFIER (lit ''a name to bind''))) (\<lambda>bs.
               bindP (consumeP RIGHT_PAREN (lit '') after arm bindings'')) (\<lambda>_. giveP (map lexeme bs))))
       else giveP []) (\<lambda>bindings.
     bindP (consumeP FAT_ARROW (lit ''=> after the arm pattern'')) (\<lambda>_.
     bindP (e_block R) (\<lambda>b. giveP (MatchArm (tpos t) variant bindings b)))))))"

definition match_stmt :: "entry \<Rightarrow> token \<Rightarrow> stmt parser" where
  "match_stmt R kw =
     bindP (consumeP LEFT_PAREN (lit ''( after match'')) (\<lambda>_.
     bindP (e_expr R) (\<lambda>subject.
     bindP (consumeP RIGHT_PAREN (lit '') after match subject'')) (\<lambda>_.
     bindP (consumeP LEFT_BRACE (lit ''{ before match arms'')) (\<lambda>_.
     bindP (until (e_fuel R) RIGHT_BRACE (match_arm_of R)) (\<lambda>arms.
     bindP (consumeP RIGHT_BRACE (lit ''} after match arms'')) (\<lambda>_.
       if arms = [] then failP NoArms kw else giveP (Match (tpos kw) subject arms)))))))"

definition strip_text :: "(nat \<Rightarrow> bool) \<Rightarrow> ustr \<Rightarrow> ustr" where
  "strip_text sp s = rev (dropWhile sp (rev (dropWhile sp s)))"

text \<open>The instruction lines read so far and the pieces of the one being read.\<close>

fun asm_loop :: "nat \<Rightarrow> (nat \<Rightarrow> bool) \<Rightarrow> ustr list \<Rightarrow> ustr list \<Rightarrow> (ustr list \<times> ustr list) parser" where
  "asm_loop 0 sp ls parts s = Inl ParseFuel"
| "asm_loop (Suc n) sp ls parts s =
     bindP (checkP RIGHT_BRACE) (\<lambda>c. bindP at_endP (\<lambda>e.
     if c \<or> e then giveP (ls, parts)
     else bindP advanceP (\<lambda>t.
       if tok_type t = SEMICOLON then
         (let l = strip_text sp (join_text (lit '' '') (parts @ [lexeme t])) in
          asm_loop n sp (if l = [] then ls else ls @ [l]) [])
       else asm_loop n sp ls (parts @ [lexeme t])))) s"

definition vm_asm_block :: "entry \<Rightarrow> token \<Rightarrow> stmt parser" where
  "vm_asm_block R kw =
     bindP (consumeP LEFT_BRACE (lit ''{ after vm_asm'')) (\<lambda>_.
     bindP (asm_loop (e_fuel R) (e_space R) [] []) (\<lambda>(ls, parts).
       if parts \<noteq> [] then failP (UnfinishedInstruction (strip_text (e_space R) (join_text (lit '' '') parts))) kw
       else bindP (consumeP RIGHT_BRACE (lit ''} after vm_asm block'')) (\<lambda>_.
         giveP (VmAsm (tpos kw) (join_text [10] ls)))))"

definition print_stmt :: "entry \<Rightarrow> (pos \<Rightarrow> expr \<Rightarrow> stmt) \<Rightarrow> stmt parser" where
  "print_stmt R node =
     bindP previousP (\<lambda>t.
     bindP (consumeP LEFT_PAREN (lit ''( after print'')) (\<lambda>_.
     bindP (e_expr R) (\<lambda>e.
     bindP (consumeP RIGHT_PAREN (lit '') after print expression'')) (\<lambda>_.
     bindP (consumeP SEMICOLON (lit ''; after print statement'')) (\<lambda>_. giveP (node (tpos t) e))))))"

definition return_stmt :: "entry \<Rightarrow> stmt parser" where
  "return_stmt R =
     bindP previousP (\<lambda>t.
     bindP (checkP SEMICOLON) (\<lambda>c.
     bindP (if c then giveP None else bindP (e_expr R) (\<lambda>e. giveP (Some e))) (\<lambda>v.
     bindP (consumeP SEMICOLON (lit ''; after return value'')) (\<lambda>_. giveP (Return (tpos t) v)))))"

text \<open>\<open>(condition)\<close>, then a block.\<close>

definition condition :: "entry \<Rightarrow> ustr \<Rightarrow> expr parser" where
  "condition R kw =
     bindP (consumeP LEFT_PAREN (lit ''( after '' @ kw)) (\<lambda>_.
     bindP (e_expr R) (\<lambda>c.
     bindP (consumeP RIGHT_PAREN (lit '') after condition'')) (\<lambda>_. giveP c)))"

definition if_stmt :: "entry \<Rightarrow> stmt parser" where
  "if_stmt R =
     bindP previousP (\<lambda>t.
     bindP (condition R (lit ''if'')) (\<lambda>c.
     bindP (e_block R) (\<lambda>b.
     bindP (matchP [ELSE]) (\<lambda>m.
     bindP (if m then bindP (e_block R) (\<lambda>e. giveP (Some e)) else giveP None) (\<lambda>e.
       giveP (If (tpos t) c b e))))))"

definition while_stmt :: "entry \<Rightarrow> stmt parser" where
  "while_stmt R =
     bindP previousP (\<lambda>t.
     bindP (condition R (lit ''while'')) (\<lambda>c.
     bindP (e_block R) (\<lambda>b. giveP (While (tpos t) c b))))"

definition for_stmt :: "entry \<Rightarrow> stmt parser" where
  "for_stmt R =
     bindP previousP (\<lambda>t.
     bindP (consumeP LEFT_PAREN (lit ''( after for'')) (\<lambda>_.
     bindP (for_init R) (\<lambda>init.
     bindP (checkP SEMICOLON) (\<lambda>c.
     bindP (if c then giveP None else bindP (e_expr R) (\<lambda>e. giveP (Some e))) (\<lambda>test.
     bindP (consumeP SEMICOLON (lit ''; after for-loop condition'')) (\<lambda>_.
     bindP (for_step R) (\<lambda>stp.
     bindP (consumeP RIGHT_PAREN (lit '') after for-loop clauses'')) (\<lambda>_.
     bindP (e_block R) (\<lambda>b. giveP (For (tpos t) init test stp b))))))))))"

definition jump_stmt :: "ustr \<Rightarrow> (pos \<Rightarrow> stmt) \<Rightarrow> stmt parser" where
  "jump_stmt msg node =
     bindP previousP (\<lambda>t.
     bindP (consumeP SEMICOLON msg) (\<lambda>_. giveP (node (tpos t))))"

definition expression_stmt :: "entry \<Rightarrow> stmt parser" where
  "expression_stmt R =
     bindP (e_expr R) (\<lambda>e. bindP (matchP [EQUAL]) (\<lambda>m.
     if m then bindP previousP (\<lambda>t. bindP (e_expr R) (\<lambda>v.
       bindP (consumeP SEMICOLON (lit ''; after assignment'')) (\<lambda>_. giveP (Assign (tpos t) e v))))
     else bindP (consumeP SEMICOLON (lit ''; after expression'')) (\<lambda>_. giveP (ExprStmt (expr_pos e) e))))"

definition statement :: "entry \<Rightarrow> stmt parser" where
  "statement R =
     bindP (matchP [PRINT]) (\<lambda>m. if m then print_stmt R Print else
     bindP (matchP [PRINTLN]) (\<lambda>m. if m then print_stmt R PrintLn else
     bindP (matchP [VM_ASM]) (\<lambda>m. if m then bindP previousP (vm_asm_block R) else
     bindP (matchP [RETURN]) (\<lambda>m. if m then return_stmt R else
     bindP (matchP [MATCH]) (\<lambda>m. if m then bindP previousP (match_stmt R) else
     bindP (matchP [IF]) (\<lambda>m. if m then if_stmt R else
     bindP (matchP [WHILE]) (\<lambda>m. if m then while_stmt R else
     bindP (matchP [FOR]) (\<lambda>m. if m then for_stmt R else
     bindP (matchP [BREAK]) (\<lambda>m. if m then jump_stmt (lit ''; after break'') Break else
     bindP (matchP [CONTINUE]) (\<lambda>m. if m then jump_stmt (lit ''; after continue'') Continue else
     bindP (checkP LEFT_BRACE) (\<lambda>c.
       if c then bindP peekP (\<lambda>t. bindP (e_block R) (\<lambda>b. giveP (Block (tpos t) b)))
       else expression_stmt R)))))))))))"

definition declaration_stmt :: "entry \<Rightarrow> stmt parser" where
  "declaration_stmt R = bindP (matchP [LET]) (\<lambda>m. if m then var_decl R else statement R)"

definition block_of :: "entry \<Rightarrow> stmt list parser" where
  "block_of R =
     bindP (consumeP LEFT_BRACE (lit ''{ to start block'')) (\<lambda>_.
     bindP (until (e_fuel R) RIGHT_BRACE (declaration_stmt R)) (\<lambda>ss.
     bindP (consumeP RIGHT_BRACE (lit ''} after block'')) (\<lambda>_. giveP ss)))"

text \<open>The knot: an entry point with fuel \<open>n + 1\<close> recurses through the entry points with fuel \<open>n\<close>.\<close>

primrec entries :: "(nat \<Rightarrow> bool) \<Rightarrow> nat \<Rightarrow> entry" where
  "entries sp 0 = \<lparr>e_space = sp, e_fuel = 0, e_expr = (\<lambda>s. Inl ParseFuel), e_unary = (\<lambda>s. Inl ParseFuel),
     e_block = (\<lambda>s. Inl ParseFuel), e_type = (\<lambda>s. Inl ParseFuel)\<rparr>"
| "entries sp (Suc n) = \<lparr>e_space = sp, e_fuel = Suc n, e_expr = expression (entries sp n),
     e_unary = unary_expr (entries sp n), e_block = block_of (entries sp n), e_type = type_name_of (entries sp n)\<rparr>"

section \<open>Declarations\<close>

definition typed_name :: "entry \<Rightarrow> ustr \<Rightarrow> ustr \<Rightarrow> (pos \<Rightarrow> ustr \<Rightarrow> ustr \<Rightarrow> 'a) \<Rightarrow> 'a parser" where
  "typed_name R msg1 msg2 node =
     bindP (consumeP IDENTIFIER msg1) (\<lambda>t.
     bindP (consumeP COLON msg2) (\<lambda>_.
     bindP (e_type R) (\<lambda>ty. giveP (node (tpos t) (lexeme t) ty))))"

definition struct_def_of :: "entry \<Rightarrow> struct_def parser" where
  "struct_def_of R =
     bindP (consumeP STRUCT (lit ''struct'')) (\<lambda>_.
     bindP (consumeP IDENTIFIER (lit ''struct name'')) (\<lambda>t.
     bindP (type_parameters (e_fuel R)) (\<lambda>tps.
     bindP (consumeP LEFT_BRACE (lit ''{ after struct name'')) (\<lambda>_.
     bindP (comma_items (e_fuel R) RIGHT_BRACE (typed_name R (lit ''field name'') (lit '': after field name'') FieldDef)) (\<lambda>fs.
     bindP (consumeP RIGHT_BRACE (lit ''} after struct fields'')) (\<lambda>_.
       giveP (StructDef (tpos t) (lexeme t) fs tps)))))))"

definition variant_def_of :: "entry \<Rightarrow> variant_def parser" where
  "variant_def_of R =
     bindP (consumeP IDENTIFIER (lit ''variant name'')) (\<lambda>t.
     bindP (matchP [LEFT_PAREN]) (\<lambda>m.
     if \<not> m then giveP (VariantDef (tpos t) (lexeme t) []) else
     bindP (checkP RIGHT_PAREN) (\<lambda>c.
     if c then bindP peekP (failP (EmptyPayload (lexeme t)))
     else bindP (comma_list (e_fuel R) (e_type R)) (\<lambda>payload.
          bindP (consumeP RIGHT_PAREN (lit '') after variant payload'')) (\<lambda>_.
            giveP (VariantDef (tpos t) (lexeme t) payload))))))"

definition enum_def_of :: "entry \<Rightarrow> enum_def parser" where
  "enum_def_of R =
     bindP (consumeP ENUM (lit ''enum'')) (\<lambda>_.
     bindP (consumeP IDENTIFIER (lit ''enum name'')) (\<lambda>t.
     bindP (type_parameters (e_fuel R)) (\<lambda>tps.
     bindP (consumeP LEFT_BRACE (lit ''{ after enum name'')) (\<lambda>_.
     bindP (comma_items (e_fuel R) RIGHT_BRACE (variant_def_of R)) (\<lambda>vs.
     bindP (consumeP RIGHT_BRACE (lit ''} after enum variants'')) (\<lambda>_.
       giveP (EnumDef (tpos t) (lexeme t) vs tps)))))))"

definition include_of :: "incl parser" where
  "include_of =
     bindP (consumeP STRING (lit ''path string after include'')) (\<lambda>t.
     bindP (consumeP SEMICOLON (lit ''; after include path'')) (\<lambda>_.
       (case tok_literal t of
          TextValue path \<Rightarrow> giveP (Include (tpos t) path)
        | _ \<Rightarrow> (\<lambda>s. Inl (ParseHost TypeError)))))"

definition function_of :: "entry \<Rightarrow> function_def parser" where
  "function_of R =
     bindP (consumeP FN (lit ''fn at function start'')) (\<lambda>_.
     bindP (consumeP IDENTIFIER (lit ''function name'')) (\<lambda>t.
     bindP (type_parameters (e_fuel R)) (\<lambda>tps.
     bindP (consumeP LEFT_PAREN (lit ''( after function name'')) (\<lambda>_.
     bindP (checkP RIGHT_PAREN) (\<lambda>c.
     bindP (if c then giveP [] else comma_list (e_fuel R)
        (typed_name R (lit ''parameter name'') (lit '': after parameter name'') Param)) (\<lambda>params.
     bindP (consumeP RIGHT_PAREN (lit '') after parameters'')) (\<lambda>_.
     bindP (matchP [COLON]) (\<lambda>m.
     bindP (if m then bindP (e_type R) (\<lambda>ty. giveP (Some ty)) else giveP None) (\<lambda>ret.
     bindP (block_of R) (\<lambda>body.
       giveP (Function (tpos t) (lexeme t) params ret body tps [])))))))))))"

fun include_loop :: "nat \<Rightarrow> incl list parser" where
  "include_loop 0 s = Inl ParseFuel"
| "include_loop (Suc n) s = bindP (matchP [INCLUDE]) (\<lambda>m.
     if m then bindP include_of (\<lambda>i. bindP (include_loop n) (\<lambda>is. giveP (i # is))) else giveP []) s"

fun decl_loop :: "nat \<Rightarrow> entry \<Rightarrow> program_ast \<Rightarrow> program_ast parser" where
  "decl_loop 0 R prog s = Inl ParseFuel"
| "decl_loop (Suc n) R prog s = bindP at_endP (\<lambda>e. if e then giveP prog else
     bindP (checkP STRUCT) (\<lambda>c. if c then bindP (struct_def_of R) (\<lambda>d.
       decl_loop n R (prog\<lparr>structs_of := structs_of prog @ [d]\<rparr>)) else
     bindP (checkP ENUM) (\<lambda>c. if c then bindP (enum_def_of R) (\<lambda>d.
       decl_loop n R (prog\<lparr>enums_of := enums_of prog @ [d]\<rparr>)) else
     bindP (function_of R) (\<lambda>d.
       decl_loop n R (prog\<lparr>functions_of := functions_of prog @ [d]\<rparr>))))) s"

definition parse_program :: "entry \<Rightarrow> program_ast parser" where
  "parse_program R = bindP (include_loop (e_fuel R)) (\<lambda>is.
     decl_loop (e_fuel R) R \<lparr>includes_of = is, functions_of = [], structs_of = [], enums_of = []\<rparr>)"

definition parse :: "(nat \<Rightarrow> bool) \<Rightarrow> nat \<Rightarrow> token list \<Rightarrow> parse_error + program_ast" where
  "parse sp fuel ts = bindR (parse_program (entries sp fuel) \<lparr>toks = ts, cur = 0\<rparr>) (\<lambda>(p, _). Inr p)"

end
