(* ===== verification/Parsing.thy ===== *)
theory Parsing
  imports Scanning Parser
begin

text \<open>
  The parser returns. Every method consumes what it recognises, measured by the weight of the tokens
  left, so fuel above that weight is enough; and more fuel never changes an answer.
\<close>

section \<open>What is left to read\<close>

text \<open>\<open>>>\<close> and \<open>>=\<close> weigh two: a closing angle bracket takes one character off them.\<close>

definition weight :: "token \<Rightarrow> nat" where
  "weight t = (if tok_type t = EOF then 0 else if tok_type t = SHR_T \<or> tok_type t = GREATER_EQUAL then 2 else 1)"

definition left :: "pstate \<Rightarrow> nat" where
  "left s = sum_list (map weight (drop (cur s) (toks s)))"

definition token_ok :: "token \<Rightarrow> bool" where
  "token_ok t \<longleftrightarrow> (tok_type t = NUMBER \<longrightarrow> (\<exists>n. tok_literal t = IntValue n)) \<and>
     (tok_type t = STRING \<longrightarrow> (\<exists>u. tok_literal t = TextValue u))"

definition pstate_ok :: "pstate \<Rightarrow> bool" where
  "pstate_ok s \<longleftrightarrow> cur s < length (toks s) \<and> tok_type (last (toks s)) = EOF \<and> list_all token_ok (toks s)"

text \<open>
  With less than \<open>n\<close> left, \<open>p\<close> ends in a syntax error or in a value \<open>x\<close>, having consumed at least \<open>k x\<close>.
\<close>

definition safe :: "nat \<Rightarrow> ('a \<Rightarrow> nat) \<Rightarrow> 'a parser \<Rightarrow> bool" where
  "safe n k p \<longleftrightarrow> (\<forall>s. pstate_ok s \<longrightarrow> left s < n \<longrightarrow>
     (case p s of Inl e \<Rightarrow> \<exists>f l c. e = ParseError f l c
      | Inr (x, s') \<Rightarrow> pstate_ok s' \<and> left s' + k x \<le> left s))"

lemma safeI:
  assumes "\<And>s e. pstate_ok s \<Longrightarrow> left s < n \<Longrightarrow> p s = Inl e \<Longrightarrow> \<exists>f l c. e = ParseError f l c"
    and "\<And>s x s'. pstate_ok s \<Longrightarrow> left s < n \<Longrightarrow> p s = Inr (x, s') \<Longrightarrow> pstate_ok s' \<and> left s' + k x \<le> left s"
  shows "safe n k p"
  using assms unfolding safe_def by (auto split: sum.splits)

lemma safe_tail: "safe n k p \<Longrightarrow> m \<le> n \<Longrightarrow> (\<And>x. l x \<le> k x) \<Longrightarrow> safe m l p"
  unfolding safe_def
proof (intro allI impI)
  fix s assume *: "\<forall>s. pstate_ok s \<longrightarrow> left s < n \<longrightarrow> (case p s of Inl e \<Rightarrow> \<exists>f l c. e = ParseError f l c
      | Inr (x, s') \<Rightarrow> pstate_ok s' \<and> left s' + k x \<le> left s)"
    and le: "m \<le> n" "\<And>x. l x \<le> k x" and s: "pstate_ok s" "left s < m"
  have "left s < n" using le(1) s(2) by simp
  with * s(1) have "case p s of Inl e \<Rightarrow> \<exists>f l c. e = ParseError f l c
      | Inr (x, s') \<Rightarrow> pstate_ok s' \<and> left s' + k x \<le> left s" by blast
  then show "case p s of Inl e \<Rightarrow> \<exists>f l c. e = ParseError f l c
      | Inr (x, s') \<Rightarrow> pstate_ok s' \<and> left s' + l x \<le> left s"
    using le(2) by (auto split: sum.splits intro: order_trans [OF add_left_mono])
qed

lemma safe_bind:
  assumes "safe n k p" and "\<And>x. safe (n - k x) (\<lambda>y. l y - k x) (f x)"
  shows "safe n l (bindP p f)"
  unfolding safe_def
proof (intro allI impI)
  fix s assume s: "pstate_ok s" "left s < n"
  show "case bindP p f s of Inl e \<Rightarrow> \<exists>f l c. e = ParseError f l c
    | Inr (x, s') \<Rightarrow> pstate_ok s' \<and> left s' + l x \<le> left s"
  proof (cases "p s")
    case (Inl e)
    then show ?thesis using assms(1) s by (fastforce simp: safe_def bindP_def)
  next
    case (Inr r)
    obtain x s1 where r: "r = (x, s1)" by (cases r)
    have 1: "pstate_ok s1" "left s1 + k x \<le> left s"
      using assms(1) s by (auto simp: safe_def Inr r dest!: spec [of _ s])
    have "left s1 < n - k x" using 1 s by linarith
    with 1(1) assms(2) [of x] have "case f x s1 of Inl e \<Rightarrow> \<exists>f l c. e = ParseError f l c
      | Inr (y, s') \<Rightarrow> pstate_ok s' \<and> left s' + (l y - k x) \<le> left s1"
      unfolding safe_def by blast
    then show ?thesis using 1 by (auto simp: bindP_def Inr r split: sum.splits)
  qed
qed

lemma safe_give: "l x = 0 \<Longrightarrow> safe n l (giveP x)"
  by (auto simp: safe_def giveP_def)

lemma safe_give0: "safe n (\<lambda>_. 0) (giveP x)"
  by (rule safe_give) simp

lemma give_bind: "bindP (giveP x) f = f x"
  by (rule ext) (simp add: bindP_def giveP_def)

lemma safe_fail: "safe n l (failP e t)"
  by (auto simp: safe_def failP_def)

lemma safe_if: "(b \<Longrightarrow> safe n l p) \<Longrightarrow> (\<not> b \<Longrightarrow> safe n l q) \<Longrightarrow> safe n l (if b then p else q)"
  by simp

lemma safe_bind_if: "safe n (\<lambda>_. 0) (if b then p else q) \<Longrightarrow> (\<And>x. safe n l (f x)) \<Longrightarrow>
    safe n l (bindP (if b then p else q) f)"
  by (rule safe_bind) auto

section \<open>The helpers\<close>

lemma at_end: "pstate_ok s \<Longrightarrow> at_endP s = Inr (tok_type (toks s ! cur s) = EOF, s)"
  by (simp add: at_endP_def bindP_def peekP_def giveP_def pstate_ok_def)

lemma peek_ok: "pstate_ok s \<Longrightarrow> peekP s = Inr (toks s ! cur s, s)"
  by (simp add: peekP_def pstate_ok_def)

lemma previous_ok: "pstate_ok s \<Longrightarrow> \<exists>t. previousP s = Inr (t, s)"
  by (auto simp: previousP_def py_index_def pstate_ok_def split: option.splits)

lemma check_ok: "pstate_ok s \<Longrightarrow> checkP ty s = Inr (ty \<noteq> EOF \<and> tok_type (toks s ! cur s) = ty, s)"
  by (auto simp: checkP_def bindP_def at_end peek_ok giveP_def)

lemma left_Suc: "cur s < length (toks s) \<Longrightarrow> left s = weight (toks s ! cur s) + left (s\<lparr>cur := cur s + 1\<rparr>)"
  by (simp add: left_def Cons_nth_drop_Suc [symmetric])

lemma not_last: "pstate_ok s \<Longrightarrow> tok_type (toks s ! cur s) \<noteq> EOF \<Longrightarrow> Suc (cur s) < length (toks s)"
  by (metis Suc_lessI diff_Suc_1 last_conv_nth length_0_conv not_less_zero pstate_ok_def)

lemma advance_ok:
  assumes "pstate_ok s" "tok_type (toks s ! cur s) \<noteq> EOF"
  shows "advanceP s = Inr (toks s ! cur s, s\<lparr>cur := cur s + 1\<rparr>)"
    and "pstate_ok (s\<lparr>cur := cur s + 1\<rparr>)" and "left (s\<lparr>cur := cur s + 1\<rparr>) + 1 \<le> left s"
    and "token_ok (toks s ! cur s)"
proof -
  have *: "Suc (cur s) < length (toks s)" "cur s < length (toks s)"
    using not_last [OF assms] assms(1) by (auto simp: pstate_ok_def)
  show "advanceP s = Inr (toks s ! cur s, s\<lparr>cur := cur s + 1\<rparr>)"
    using * by (simp add: advanceP_def bindP_def at_end assms previousP_def py_index_nat)
  show "pstate_ok (s\<lparr>cur := cur s + 1\<rparr>)" using assms(1) * by (simp add: pstate_ok_def)
  show "left (s\<lparr>cur := cur s + 1\<rparr>) + 1 \<le> left s"
    using left_Suc [OF *(2)] assms(2) by (simp add: weight_def split: if_splits)
  show "token_ok (toks s ! cur s)" using assms(1) by (simp add: pstate_ok_def list_all_length)
qed

lemma safe_peek: "safe n (\<lambda>_. 0) peekP"
  by (auto simp: safe_def peek_ok)

lemma safe_previous: "safe n (\<lambda>_. 0) previousP"
  unfolding safe_def using previous_ok by fastforce

lemma safe_check: "safe n (\<lambda>_. 0) (checkP ty)"
  by (auto simp: safe_def check_ok)

lemma safe_at_end: "safe n (\<lambda>_. 0) at_endP"
  by (auto simp: safe_def at_end)

lemma safe_check_next: "safe n (\<lambda>_. 0) (check_nextP ty)"
  by (auto simp: safe_def check_nextP_def)

lemma safe_advance: "safe n (\<lambda>_. 0) advanceP"
  unfolding safe_def
proof (intro allI impI)
  fix s assume s: "pstate_ok s" "left s < n"
  show "case advanceP s of Inl e \<Rightarrow> \<exists>f l c. e = ParseError f l c
    | Inr (x, s') \<Rightarrow> pstate_ok s' \<and> left s' + 0 \<le> left s"
  proof (cases "tok_type (toks s ! cur s) = EOF")
    case True
    then show ?thesis using previous_ok [OF s(1)] s by (auto simp: advanceP_def bindP_def at_end)
  next
    case False
    from advance_ok [OF s(1) False] show ?thesis by auto
  qed
qed

lemma safe_match: "safe n (\<lambda>b. if b then 1 else 0) (matchP tys)"
proof (induction tys)
  case (Cons ty tys)
  show ?case unfolding safe_def
  proof (intro allI impI)
    fix s assume s: "pstate_ok s" "left s < n"
    show "case matchP (ty # tys) s of Inl e \<Rightarrow> \<exists>f l c. e = ParseError f l c
      | Inr (x, s') \<Rightarrow> pstate_ok s' \<and> left s' + (if x then 1 else 0) \<le> left s"
    proof (cases "ty \<noteq> EOF \<and> tok_type (toks s ! cur s) = ty")
      case True
      then show ?thesis using advance_ok [OF s(1)] by (auto simp: bindP_def check_ok s giveP_def)
    next
      case False
      then show ?thesis using Cons s by (auto simp: bindP_def check_ok safe_def)
    qed
  qed
qed (simp add: safe_give)

lemma safe_consume_bind:
  assumes "\<And>t. token_ok t \<Longrightarrow> tok_type t = ty \<Longrightarrow> safe (n - 1) (\<lambda>y. l y - 1) (f t)"
  shows "safe n l (bindP (consumeP ty msg) f)"
  unfolding safe_def
proof (intro allI impI)
  fix s assume s: "pstate_ok s" "left s < n"
  show "case bindP (consumeP ty msg) f s of Inl e \<Rightarrow> \<exists>f l c. e = ParseError f l c
    | Inr (x, s') \<Rightarrow> pstate_ok s' \<and> left s' + l x \<le> left s"
  proof (cases "ty \<noteq> EOF \<and> tok_type (toks s ! cur s) = ty")
    case True
    let ?t = "toks s ! cur s" and ?s = "s\<lparr>cur := cur s + 1\<rparr>"
    have a: "advanceP s = Inr (?t, ?s)" "pstate_ok ?s" "left ?s + 1 \<le> left s" "token_ok ?t"
      using advance_ok [OF s(1)] True by auto
    have "safe (n - 1) (\<lambda>y. l y - 1) (f ?t)" using assms a(4) True by blast
    with a s have "case f ?t ?s of Inl e \<Rightarrow> \<exists>f l c. e = ParseError f l c
      | Inr (x, s') \<Rightarrow> pstate_ok s' \<and> left s' + (l x - 1) \<le> left ?s"
      unfolding safe_def by (meson less_diff_conv le_less_trans)
    then show ?thesis using a(3) True
      by (auto simp: consumeP_def bindP_def check_ok s(1) a(1) split: sum.splits)
  next
    case False
    then show ?thesis by (auto simp: consumeP_def bindP_def check_ok peek_ok s(1) failP_def)
  qed
qed

lemma safe_consume: "safe n (\<lambda>_. 1) (consumeP ty msg)"
proof -
  have "safe n (\<lambda>_. 1) (bindP (consumeP ty msg) giveP)"
    by (rule safe_consume_bind) (simp add: safe_give)
  moreover have "bindP p giveP = p" for p :: "'a parser"
    by (rule ext) (auto simp: bindP_def giveP_def bindR_def split: sum.splits)
  ultimately show ?thesis by metis
qed

lemma safe_close: "safe n (\<lambda>_. 1) close_type_arguments"
  unfolding safe_def
proof (intro allI impI)
  fix s assume s: "pstate_ok s" "left s < n"
  let ?t = "toks s ! cur s"
  have in_range: "cur s < length (toks s)" using s(1) by (simp add: pstate_ok_def)
  have put: "pstate_ok (s\<lparr>toks := (toks s)[cur s := u]\<rparr>) \<and> left (s\<lparr>toks := (toks s)[cur s := u]\<rparr>) + 1 \<le> left s"
    if "weight ?t = 2" "weight u = 1" "token_ok u" for u
  proof
    have "Suc (cur s) < length (toks s)" using not_last [OF s(1)] that(1)
      by (cases "tok_type ?t = EOF") (auto simp: weight_def)
    moreover then have "toks s \<noteq> []" by auto
    ultimately show "pstate_ok (s\<lparr>toks := (toks s)[cur s := u]\<rparr>)"
      using s(1) that(3) by (auto simp: pstate_ok_def list_all_length nth_list_update last_list_update)
    show "left (s\<lparr>toks := (toks s)[cur s := u]\<rparr>) + 1 \<le> left s"
      using left_Suc [OF in_range] that in_range
      by (simp add: left_def Cons_nth_drop_Suc [symmetric] drop_update_cancel)
  qed
  show "case close_type_arguments s of Inl e \<Rightarrow> \<exists>f l c. e = ParseError f l c
    | Inr (x, s') \<Rightarrow> pstate_ok s' \<and> left s' + 1 \<le> left s"
  proof (cases "tok_type ?t = SHR_T \<or> tok_type ?t = GREATER_EQUAL")
    case True
    then show ?thesis
      using put [of "\<lparr>tok_type = GREATER, lexeme = lit ''>'', tok_line = tok_line ?t, tok_col = tok_col ?t + 1, tok_literal = NoValue\<rparr>"]
        put [of "\<lparr>tok_type = EQUAL, lexeme = lit ''='', tok_line = tok_line ?t, tok_col = tok_col ?t + 1, tok_literal = NoValue\<rparr>"]
      by (auto simp: close_type_arguments_def bindP_def peek_ok s(1) weight_def token_ok_def)
  next
    case False
    have "safe n (\<lambda>_. 1) (bindP (consumeP GREATER (lit ''Expected '' @ [39, 62, 39] @ lit '' after type arguments'')) (\<lambda>_. giveP ()))"
      by (rule safe_consume_bind) (simp add: safe_give)
    then have "case bindP (consumeP GREATER (lit ''Expected '' @ [39, 62, 39] @ lit '' after type arguments'')) (\<lambda>_. giveP ()) s
        of Inl e \<Rightarrow> \<exists>f l c. e = ParseError f l c | Inr (x, s') \<Rightarrow> pstate_ok s' \<and> left s' + 1 \<le> left s"
      using s unfolding safe_def by blast
    then show ?thesis using False
      by (simp add: close_type_arguments_def bindP_def [of peekP] peek_ok s(1))
  qed
qed

section \<open>Loops\<close>

lemma comma_list_Suc: "comma_list (Suc N) item = bindP item (\<lambda>x. bindP (matchP [COMMA]) (\<lambda>m.
    if m then bindP (comma_list N item) (\<lambda>xs. giveP (x # xs)) else giveP [x]))"
  by (rule ext) (rule comma_list.simps)

lemma comma_items_Suc: "comma_items (Suc N) close item = bindP (checkP close) (\<lambda>c. if c then giveP [] else
    bindP item (\<lambda>x. bindP (matchP [COMMA]) (\<lambda>m.
      if m then bindP (comma_items N close item) (\<lambda>xs. giveP (x # xs)) else giveP [x])))"
  by (rule ext) (rule comma_items.simps)

lemma until_Suc: "until (Suc N) close item = bindP (checkP close) (\<lambda>c. if c then giveP [] else
    bindP item (\<lambda>x. bindP (until N close item) (\<lambda>xs. giveP (x # xs))))"
  by (rule ext) (rule until.simps)

lemma safe_comma_list: "safe n (\<lambda>_. 0) item \<Longrightarrow> n \<le> N \<Longrightarrow> safe n (\<lambda>_. 0) (comma_list N item)"
proof (induction N arbitrary: n)
  case (Suc N)
  show ?case unfolding comma_list_Suc using Suc.prems
    by (intro safe_bind [OF Suc.prems(1)] safe_bind [OF safe_match] safe_if safe_give
        safe_bind [OF Suc.IH] safe_tail [OF Suc.prems(1)]) auto
qed (simp add: safe_def)

lemma safe_comma_items:
  "safe n (\<lambda>_. 0) item \<Longrightarrow> n \<le> N \<Longrightarrow> safe n (\<lambda>_. 0) (comma_items N close item)"
proof (induction N arbitrary: n)
  case (Suc N)
  show ?case unfolding comma_items_Suc using Suc.prems
    by (intro safe_bind [OF safe_check] safe_bind [OF safe_tail [OF Suc.prems(1)]] safe_bind [OF safe_match]
        safe_if safe_give safe_bind [OF Suc.IH] safe_tail [OF Suc.prems(1)]) auto
qed (simp add: safe_def)

lemma safe_until:
  "safe n (\<lambda>_. 1) item \<Longrightarrow> n \<le> N \<Longrightarrow> safe n (\<lambda>_. 0) (until N close item)"
proof (induction N arbitrary: n)
  case (Suc N)
  have item: "safe m (\<lambda>_. 1) item" if "m \<le> n" for m using Suc.prems(1) that by (rule safe_tail) simp
  show ?case unfolding until_Suc using Suc.prems
    by (intro safe_bind [OF safe_check] safe_bind [OF item] safe_if safe_give safe_bind [OF Suc.IH] item) auto
qed (simp add: safe_def)

section \<open>Methods\<close>

definition good :: "nat \<Rightarrow> entry \<Rightarrow> bool" where
  "good N R \<longleftrightarrow> N \<le> e_fuel R \<and> safe N (\<lambda>_. 1) (e_expr R) \<and> safe N (\<lambda>_. 1) (e_unary R) \<and>
     safe N (\<lambda>_. 1) (e_block R) \<and> safe N (\<lambda>_. 1) (e_type R)"

lemma good_le: "good n R \<Longrightarrow> m \<le> n \<Longrightarrow> good m R"
  by (auto simp: good_def elim: safe_tail)

lemma good_entry:
  assumes "good n R"
  shows "safe n (\<lambda>_. 1) (e_expr R)" "safe n (\<lambda>_. 1) (e_unary R)"
    "safe n (\<lambda>_. 1) (e_block R)" "safe n (\<lambda>_. 1) (e_type R)"
  using assms by (auto simp: good_def)

lemma good_loop:
  assumes "good n R"
  shows "safe n (\<lambda>_. 0) item \<Longrightarrow> safe n (\<lambda>_. 0) (comma_list (e_fuel R) item)"
    "safe n (\<lambda>_. 0) item \<Longrightarrow> safe n (\<lambda>_. 0) (comma_items (e_fuel R) close item)"
    "safe n (\<lambda>_. 1) item \<Longrightarrow> safe n (\<lambda>_. 0) (until (e_fuel R) close item)"
  using assms by (auto simp: good_def intro: safe_comma_list safe_comma_items safe_until)

lemma safe_split: "(\<And>a b. safe n l (f a b)) \<Longrightarrow> safe n l (case x of (a, b) \<Rightarrow> f a b)"
  by (cases x) simp

lemma safe_weaken: "safe n k p \<Longrightarrow> (\<And>x. l x \<le> k x) \<Longrightarrow> safe n l p"
  by (rule safe_tail) auto

text \<open>
  The rules that take a method apart: one for each statement of the parser monad, and for each method
  its bind and its tail form.
\<close>

named_theorems steps

lemmas [steps] = safe_consume_bind safe_bind_if safe_if safe_give safe_fail safe_split

lemmas helpers = safe_peek safe_previous safe_check safe_at_end safe_check_next safe_advance safe_match
  safe_close good_entry good_loop

lemmas [steps] = helpers [THEN safe_bind] helpers [THEN safe_weaken] safe_consume [THEN safe_weaken]

subsection \<open>Types\<close>

lemma safe_type_helpers:
  "good n R \<Longrightarrow> safe n (\<lambda>_. 1) (function_type_name R)"
  "good n R \<Longrightarrow> safe n (\<lambda>_. 1) (type_arguments R base)"
  unfolding function_type_name_def type_arguments_def by (intro steps; (erule good_le)?; simp)+

lemma safe_array_suffix: "safe n (\<lambda>_. 0) (array_suffix base)"
  unfolding array_suffix_def
  by (intro steps) (auto simp: token_ok_def intro!: steps)

lemma type_parameter_names_Suc: "type_parameter_names (Suc n) names =
    bindP (consumeP IDENTIFIER (lit ''a type parameter name'')) (\<lambda>t.
      if lexeme t \<in> set names then failP (DuplicateTypeParameter (lexeme t)) t
      else bindP (matchP [COMMA]) (\<lambda>m.
        if m then type_parameter_names n (names @ [lexeme t]) else giveP (names @ [lexeme t])))"
  by (rule ext) (rule type_parameter_names.simps)

lemma safe_type_parameter_names: "n \<le> N \<Longrightarrow> safe n (\<lambda>_. 0) (type_parameter_names N names)"
proof (induction N arbitrary: n names)
  case (Suc N)
  then show ?case unfolding type_parameter_names_Suc
    by (intro steps; simp add: Suc.IH)
qed (simp add: safe_def)

lemma safe_type_parameters: "good n R \<Longrightarrow> safe n (\<lambda>_. 0) (type_parameters (e_fuel R))"
  unfolding type_parameters_def
  by (intro steps safe_type_parameter_names [THEN safe_bind]; auto simp: good_def)

lemmas [steps] = safe_type_helpers [THEN safe_weaken] safe_array_suffix [THEN safe_weaken] safe_type_parameters [THEN safe_bind]

lemma safe_type_name: "good (n - 1) R \<Longrightarrow> safe n (\<lambda>_. 1) (type_name_of R)"
  unfolding type_name_of_def by (intro steps; (erule good_le)?; simp)

subsection \<open>Expressions\<close>

lemma safe_field_initializer: "good n R \<Longrightarrow> safe n (\<lambda>_. 0) (field_initializer R)"
  unfolding field_initializer_def by (intro steps; (erule good_le)?; simp)

lemmas [steps] = safe_field_initializer

lemma safe_expr_helpers:
  "good n R \<Longrightarrow> safe n (\<lambda>_. 1) (call_arguments R)"
  "good n R \<Longrightarrow> safe n (\<lambda>_. 1) (struct_literal R name p)"
  "safe n (\<lambda>_. 1) (qualified_name t)"
  unfolding call_arguments_def struct_literal_def qualified_name_def
  by (intro steps; (erule good_le)?; simp)+

lemmas [steps] = safe_expr_helpers [THEN safe_bind] safe_expr_helpers [THEN safe_weaken]

lemma safe_primary: "good (n - 1) R \<Longrightarrow> safe n (\<lambda>_. 1) (primary R)"
  unfolding primary_def by (intro steps; (erule good_le)?; simp)

lemma safe_turbofish: "good n R \<Longrightarrow> safe n (\<lambda>_. 1) (turbofish R name p)"
  unfolding turbofish_def by (intro steps; (erule good_le)?; simp)

lemmas [steps] = safe_turbofish [THEN safe_bind]

lemma safe_postfix: "good n R \<Longrightarrow> safe n (\<lambda>r. if r = None then 0 else 1) (postfix R e)"
  unfolding postfix_def
  by (cases e; simp only: expr.case give_bind if_False; intro steps; (erule good_le)?; simp)

lemma postfix_loop_Suc: "postfix_loop (Suc n) R e =
    bindP (postfix R e) (\<lambda>r. case r of None \<Rightarrow> giveP e | Some e' \<Rightarrow> postfix_loop n R e')"
  by (rule ext) (rule postfix_loop.simps)

lemma safe_postfix_loop: "good n R \<Longrightarrow> n \<le> N \<Longrightarrow> safe n (\<lambda>_. 0) (postfix_loop N R e)"
proof (induction N arbitrary: n e)
  case (Suc N)
  have "safe (n - (if r = None then 0 else 1)) (\<lambda>_. 0)
      (case r of None \<Rightarrow> giveP e | Some e' \<Rightarrow> postfix_loop N R e')" for r
    using Suc.prems by (cases r) (auto intro!: safe_give0 Suc.IH elim: good_le)
  then show ?case unfolding postfix_loop_Suc
    by (intro safe_bind [OF safe_postfix [OF Suc.prems(1)]]) simp
qed (simp add: safe_def)

lemma safe_call: "good (n - 1) R \<Longrightarrow> safe n (\<lambda>_. 1) (call_expr R)"
  unfolding call_expr_def
  by (rule safe_bind [OF safe_primary], assumption)
    (auto intro: safe_postfix_loop safe_weaken simp: good_def)

lemmas [steps] = safe_call [THEN safe_weaken]

lemma safe_unary: "good (n - 1) R \<Longrightarrow> safe n (\<lambda>_. 1) (unary_expr R)"
  unfolding unary_expr_def by (intro steps; (erule good_le)?; simp)

lemma binary_loop_Suc: "binary_loop (Suc n) ops operand e = bindP (matchP ops) (\<lambda>m.
    if m then bindP previousP (\<lambda>t. bindP operand (\<lambda>r.
      binary_loop n ops operand (Binary (tpos t) e (lexeme t) r)))
    else giveP e)"
  by (rule ext) (rule binary_loop.simps)

lemma safe_binary_loop:
  "(\<And>m. m \<le> n \<Longrightarrow> safe m (\<lambda>_. 1) operand) \<Longrightarrow> n \<le> N \<Longrightarrow> safe n (\<lambda>_. 0) (binary_loop N ops operand e)"
proof (induction N arbitrary: n e)
  case (Suc N)
  show ?case unfolding binary_loop_Suc using Suc.prems
    by (intro steps Suc.prems(1) [THEN safe_bind] Suc.IH [THEN safe_weaken]; simp)
qed (simp add: safe_def)

lemma safe_level:
  assumes "\<And>m. m \<le> n \<Longrightarrow> safe m (\<lambda>_. 1) operand" "good (n - 1) R"
  shows "safe n (\<lambda>_. 1) (binary_level (e_fuel R) ops operand)"
  unfolding binary_level_def
  using assms(2) by (intro safe_bind [OF assms(1)]) (auto intro!: safe_binary_loop assms(1) simp: good_def)

lemma safe_expression: "good (n - 1) R \<Longrightarrow> safe n (\<lambda>_. 1) (expression R)"
  unfolding expression_def or_expr_def and_expr_def bitor_expr_def bitxor_expr_def bitand_expr_def
    equality_expr_def comparison_expr_def shift_expr_def term_expr_def factor_expr_def
  by (intro safe_level safe_unary; erule good_le; simp)

subsection \<open>Statements\<close>

lemma safe_small_statements:
  "good n R \<Longrightarrow> safe n (\<lambda>_. 1) (var_decl R)"
  "good n R \<Longrightarrow> safe n (\<lambda>_. 1) (assign_or_expr R)"
  "good n R \<Longrightarrow> safe n (\<lambda>_. 1) (condition R kw)"
  "good n R \<Longrightarrow> safe n (\<lambda>_. 1) (print_stmt R node)"
  "good n R \<Longrightarrow> safe n (\<lambda>_. 1) (return_stmt R)"
  "safe n (\<lambda>_. 1) (jump_stmt msg node')"
  "good n R \<Longrightarrow> safe n (\<lambda>_. 1) (expression_stmt R)"
  unfolding var_decl_def assign_or_expr_def condition_def print_stmt_def return_stmt_def jump_stmt_def expression_stmt_def
  by (intro steps; (erule good_le)?; simp)+

lemmas [steps] = safe_small_statements [THEN safe_bind] safe_small_statements [THEN safe_weaken]

lemma safe_match_arm: "good n R \<Longrightarrow> safe n (\<lambda>_. 1) (match_arm_of R)"
  unfolding match_arm_of_def
  by (intro steps; (erule good_le)?; simp)

lemmas [steps] = safe_match_arm [THEN safe_weaken]

lemma safe_clauses:
  "good n R \<Longrightarrow> safe n (\<lambda>_. 0) (for_init R)"
  "good n R \<Longrightarrow> safe n (\<lambda>_. 0) (for_step R)"
  unfolding for_init_def for_step_def
  by (intro steps; (erule good_le)?; simp)+

lemmas [steps] = safe_clauses [THEN safe_bind]

lemma asm_loop_Suc: "asm_loop (Suc n) sp ls parts =
    bindP (checkP RIGHT_BRACE) (\<lambda>c. bindP at_endP (\<lambda>e.
    if c \<or> e then giveP (ls, parts)
    else bindP advanceP (\<lambda>t.
      if tok_type t = SEMICOLON then
        (let l = strip_text sp (join_text (lit '' '') (parts @ [lexeme t])) in
         asm_loop n sp (if l = [] then ls else ls @ [l]) [])
      else asm_loop n sp ls (parts @ [lexeme t]))))"
  by (rule ext) (rule asm_loop.simps)

lemma safe_taken: "(\<And>t. safe (n - 1) l (f t)) \<Longrightarrow> (\<And>x. l x = 0) \<Longrightarrow>
    safe n l (bindP at_endP (\<lambda>e. if c \<or> e then giveP x else bindP advanceP f))"
  unfolding safe_def
proof (intro allI impI)
  fix s assume s: "pstate_ok s" "left s < n" and l: "\<And>x. l x = 0"
    and f: "\<And>t. \<forall>s. pstate_ok s \<longrightarrow> left s < n - 1 \<longrightarrow> (case f t s of Inl e \<Rightarrow> \<exists>f l c. e = ParseError f l c
      | Inr (x, s') \<Rightarrow> pstate_ok s' \<and> left s' + l x \<le> left s)"
  let ?t = "toks s ! cur s" and ?s = "s\<lparr>cur := cur s + 1\<rparr>"
  show "case bindP at_endP (\<lambda>e. if c \<or> e then giveP x else bindP advanceP f) s of
      Inl e \<Rightarrow> \<exists>f l c. e = ParseError f l c | Inr (x, s') \<Rightarrow> pstate_ok s' \<and> left s' + l x \<le> left s"
  proof (cases "c \<or> tok_type ?t = EOF")
    case True
    then show ?thesis by (simp add: bindP_def at_end s giveP_def l)
  next
    case False
    then have a: "advanceP s = Inr (?t, ?s)" "pstate_ok ?s" "left ?s + 1 \<le> left s" using advance_ok [OF s(1)] by auto
    have "left ?s < n - 1" using a(3) s(2) by linarith
    with f a(2) have "case f ?t ?s of Inl e \<Rightarrow> \<exists>f l c. e = ParseError f l c
      | Inr (x, s') \<Rightarrow> pstate_ok s' \<and> left s' + l x \<le> left ?s" by blast
    then show ?thesis using a(3) False by (auto simp: bindP_def at_end s(1) a(1) split: sum.splits)
  qed
qed

lemma safe_asm_loop: "n \<le> N \<Longrightarrow> safe n (\<lambda>_. 0) (asm_loop N sp ls parts)"
proof (induction N arbitrary: n ls parts)
  case (Suc N)
  then show ?case unfolding asm_loop_Suc
    by (intro safe_bind [OF safe_check] safe_taken safe_if) (auto simp: Let_def intro: Suc.IH)
qed (simp add: safe_def)

lemma safe_vm_asm: "good n R \<Longrightarrow> safe n (\<lambda>_. 1) (vm_asm_block R kw)"
  unfolding vm_asm_block_def
  by (intro steps safe_asm_loop [THEN safe_bind]; (erule good_le)?; auto simp: good_def)

lemma safe_statements:
  "good n R \<Longrightarrow> safe n (\<lambda>_. 1) (match_stmt R kw)"
  "good n R \<Longrightarrow> safe n (\<lambda>_. 1) (if_stmt R)"
  "good n R \<Longrightarrow> safe n (\<lambda>_. 1) (while_stmt R)"
  "good n R \<Longrightarrow> safe n (\<lambda>_. 1) (for_stmt R)"
  unfolding match_stmt_def if_stmt_def while_stmt_def for_stmt_def
  by (intro steps; (erule good_le)?; simp)+

lemmas [steps] = safe_vm_asm [THEN safe_weaken] safe_statements [THEN safe_weaken]

lemma safe_statement: "good n R \<Longrightarrow> safe n (\<lambda>_. 1) (statement R)"
  unfolding statement_def by (intro steps; (erule good_le)?; simp)

lemmas [steps] = safe_statement [THEN safe_weaken]

lemma safe_declaration: "good n R \<Longrightarrow> safe n (\<lambda>_. 1) (declaration_stmt R)"
  unfolding declaration_stmt_def by (intro steps; (erule good_le)?; simp)

lemmas [steps] = safe_declaration [THEN safe_weaken]

lemma safe_block: "good (n - 1) R \<Longrightarrow> safe n (\<lambda>_. 1) (block_of R)"
  unfolding block_of_def by (intro steps; (erule good_le)?; simp)

lemma good_entries: "good n (entries sp n)"
proof (induction n)
  case (Suc n)
  then have g: "good (Suc n - 1) (entries sp n)" by simp
  show ?case unfolding good_def
    using safe_expression [OF g] safe_unary [OF g] safe_block [OF g] safe_type_name [OF g] by simp
qed (simp add: good_def safe_def)

subsection \<open>Declarations\<close>

lemma safe_typed_name: "good n R \<Longrightarrow> safe n (\<lambda>_. 0) (typed_name R m1 m2 node)"
  unfolding typed_name_def by (intro steps; (erule good_le)?; simp)

lemma safe_variant: "good n R \<Longrightarrow> safe n (\<lambda>_. 0) (variant_def_of R)"
  unfolding variant_def_of_def by (intro steps; (erule good_le)?; simp)

lemma safe_include: "safe n (\<lambda>_. 1) include_of"
  unfolding include_of_def by (intro steps) (auto simp: token_ok_def intro!: steps)

lemmas [steps] = safe_typed_name safe_variant safe_block [THEN safe_bind]

lemma safe_definitions:
  "good n R \<Longrightarrow> safe n (\<lambda>_. 1) (struct_def_of R)"
  "good n R \<Longrightarrow> safe n (\<lambda>_. 1) (enum_def_of R)"
  "good n R \<Longrightarrow> safe n (\<lambda>_. 1) (function_of R)"
  unfolding struct_def_of_def enum_def_of_def function_of_def
  by (intro steps; (erule good_le)?; simp)+

lemma include_loop_Suc: "include_loop (Suc n) = bindP (matchP [INCLUDE]) (\<lambda>m.
    if m then bindP include_of (\<lambda>i. bindP (include_loop n) (\<lambda>is. giveP (i # is))) else giveP [])"
  by (rule ext) (rule include_loop.simps)

lemma safe_include_loop: "n \<le> N \<Longrightarrow> safe n (\<lambda>_. 0) (include_loop N)"
proof (induction N arbitrary: n)
  case (Suc N)
  then show ?case unfolding include_loop_Suc
    by (intro steps safe_include [THEN safe_bind] Suc.IH [THEN safe_bind]; simp)
qed (simp add: safe_def)

lemma decl_loop_Suc: "decl_loop (Suc n) R prog = bindP at_endP (\<lambda>e. if e then giveP prog else
     bindP (checkP STRUCT) (\<lambda>c. if c then bindP (struct_def_of R) (\<lambda>d.
       decl_loop n R (prog\<lparr>structs_of := structs_of prog @ [d]\<rparr>)) else
     bindP (checkP ENUM) (\<lambda>c. if c then bindP (enum_def_of R) (\<lambda>d.
       decl_loop n R (prog\<lparr>enums_of := enums_of prog @ [d]\<rparr>)) else
     bindP (function_of R) (\<lambda>d.
       decl_loop n R (prog\<lparr>functions_of := functions_of prog @ [d]\<rparr>)))))"
  by (rule ext) (rule decl_loop.simps)

lemma safe_decl_loop: "good n R \<Longrightarrow> n \<le> N \<Longrightarrow> safe n (\<lambda>_. 0) (decl_loop N R prog)"
proof (induction N arbitrary: n prog)
  case (Suc N)
  have g: "good m R" if "m \<le> n" for m using Suc.prems(1) that by (rule good_le)
  show ?case unfolding decl_loop_Suc using Suc.prems
    by (intro steps safe_definitions [THEN safe_bind] Suc.IH [THEN safe_weaken] g; simp)
qed (simp add: safe_def)

lemma safe_program: "good n R \<Longrightarrow> safe n (\<lambda>_. 0) (parse_program R)"
  unfolding parse_program_def
  by (intro safe_include_loop [THEN safe_bind] safe_decl_loop [THEN safe_weaken]; (erule good_le)?; simp add: good_def)

lemma parse_total:
  assumes "ts \<noteq> []" "tok_type (last ts) = EOF" "list_all token_ok ts" "sum_list (map weight ts) < fuel"
  shows "case parse sp fuel ts of Inl e \<Rightarrow> \<exists>f l c. e = ParseError f l c | Inr _ \<Rightarrow> True"
proof -
  have "pstate_ok \<lparr>toks = ts, cur = 0\<rparr>" "left \<lparr>toks = ts, cur = 0\<rparr> < fuel"
    using assms by (simp_all add: pstate_ok_def left_def)
  with safe_program [OF good_entries, of fuel sp] show ?thesis
    by (auto simp: parse_def safe_def bindR_eq_Inl split: sum.splits)
qed

section \<open>From the lexer to the parser\<close>

text \<open>What the lexer appends is well formed for the parser, and only the last token is \<open>EOF\<close>.\<close>

definition valued :: "token_type \<Rightarrow> token_value \<Rightarrow> bool" where
  "valued ty v \<longleftrightarrow> ty \<noteq> EOF \<and> (ty = NUMBER \<longrightarrow> (\<exists>n. v = IntValue n)) \<and> (ty = STRING \<longrightarrow> (\<exists>u. v = TextValue u))"

definition well_typed :: "lexer \<Rightarrow> bool" where
  "well_typed l \<longleftrightarrow> (\<forall>t \<in> set (tokens l). valued (tok_type t) (tok_literal t))"

lemma well_typed_add [simp]: "valued ty v \<Longrightarrow> well_typed (add_token ty v l) = well_typed l"
  by (auto simp: well_typed_def add_token_def)

lemma well_typed_upd [simp]:
  "well_typed (l\<lparr>current := n\<rparr>) = well_typed l" "well_typed (l\<lparr>line := k\<rparr>) = well_typed l" "well_typed (l\<lparr>col := k\<rparr>) = well_typed l"
  "well_typed (l\<lparr>lex_start := n\<rparr>) = well_typed l"
  by (simp_all add: well_typed_def)

lemma well_typed_over: "over p l l' \<Longrightarrow> well_typed l' = well_typed l"
  by (simp add: over_def well_typed_def)

lemma well_typed_advance: "advance l = Inr (c, l') \<Longrightarrow> well_typed l' = well_typed l"
  by (auto simp: advance_Inr)

lemma well_typed_match: "match_char c l = (m, l') \<Longrightarrow> well_typed l' = well_typed l"
  by (auto simp: match_char_def split: if_splits)

lemma keyword_valued: "map_of KEYWORDS s = Some ty \<Longrightarrow> valued ty NoValue"
  by (drule map_of_SomeD) (auto simp: KEYWORDS_def valued_def)

lemma single_valued: "map_of SINGLES c = Some ty \<Longrightarrow> valued ty NoValue"
  by (drule map_of_SomeD) (auto simp: SINGLES_def valued_def)

lemma valued_simps [simp]: "valued NUMBER (IntValue n)" "valued FLOAT_NUMBER v" "valued STRING (TextValue u)" "valued IDENTIFIER v"
  by (simp_all add: valued_def)

lemma well_typed_one_or_two:
  "valued a NoValue \<Longrightarrow> valued b NoValue \<Longrightarrow> well_typed (one_or_two c a b l) = well_typed l"
  by (auto simp: one_or_two_def match_char_def)

lemma well_typed_string: "lex_string l = Inr l' \<Longrightarrow> well_typed l' = well_typed l"
  by (auto simp: lex_string_def Let_def result_simps split: if_splits
      dest!: over_string_chars well_typed_over well_typed_advance)

lemma well_typed_while: "advance_while p l = Inr l' \<Longrightarrow> well_typed l' = well_typed l"
proof (induction p l arbitrary: l' rule: advance_while.induct)
  case (1 p l)
  from 1(2) [unfolded advance_while.simps [of p l]] show ?case
    by (auto simp: result_simps split: if_splits dest: well_typed_advance 1(1))
qed

lemma well_typed_number: "lex_number U l = Inr l' \<Longrightarrow> well_typed l' = well_typed l"
  by (auto simp: lex_number_def lex_hex_def lex_fraction_def Let_def result_simps split: if_splits
      dest!: well_typed_while well_typed_advance)

lemma well_typed_identifier: "lex_identifier U l = Inr l' \<Longrightarrow> well_typed l' = well_typed l"
  by (auto simp: lex_identifier_def result_simps keyword_valued split: option.splits dest!: well_typed_while)

lemma well_typed_scan: "scan_token U l = Inr l' \<Longrightarrow> well_typed l' = well_typed l"
  unfolding scan_token_def
  by (auto simp: result_simps well_typed_one_or_two valued_def split: if_splits option.splits prod.splits bool.splits
      dest!: well_typed_advance well_typed_match single_valued well_typed_string well_typed_number well_typed_identifier
        over_skip_comment well_typed_over)

lemma well_typed_loop: "lex_loop U l = Inr l' \<Longrightarrow> well_typed l' = well_typed l"
proof (induction U l arbitrary: l' rule: lex_loop.induct)
  case (1 U l)
  show ?case
  proof (cases "is_at_end l")
    case False
    with 1(2) [unfolded lex_loop.simps [of U l]] obtain l1
      where s: "scan_token U (l\<lparr>lex_start := current l\<rparr>) = Inr l1" "lex_loop U l1 = Inr l'"
      by (auto simp: result_simps)
    from 1(1) [OF False s] well_typed_scan [OF s(1)] show ?thesis by simp
  qed (use 1(2) [unfolded lex_loop.simps [of U l]] in simp)
qed

text \<open>The number of tokens is bounded by the source, \<open>EOF\<close> included.\<close>

lemma tokenize_ok:
  assumes "tokenize U src = Inr ts"
  shows "ts \<noteq> []" "tok_type (last ts) = EOF" "list_all token_ok ts"
proof -
  obtain l where l: "lex_loop U (new_lexer src) = Inr l"
    and ts: "ts = tokens l @ [\<lparr>tok_type = EOF, lexeme = [], tok_line = line l, tok_col = col l, tok_literal = NoValue\<rparr>]"
    using assms by (auto simp: tokenize_def result_simps)
  show "ts \<noteq> []" "tok_type (last ts) = EOF" by (simp_all add: ts)
  have "well_typed l" using well_typed_loop [OF l] by (simp add: well_typed_def new_lexer_def)
  then show "list_all token_ok ts"
    by (auto simp: ts well_typed_def list_all_iff token_ok_def valued_def)
qed

lemma weight_le: "sum_list (map weight ts) \<le> 2 * length ts"
  by (induction ts) (auto simp: weight_def)

section \<open>Fuel only delays\<close>

text \<open>\<open>p\<close> answers as \<open>q\<close> does, or gives up for want of fuel.\<close>

definition below :: "'a parser \<Rightarrow> 'a parser \<Rightarrow> bool" where
  "below p q \<longleftrightarrow> (\<forall>s. p s = Inl ParseFuel \<or> p s = q s)"

lemma below_refl [simp]: "below p p"
  by (simp add: below_def)

lemma below_bind: "below p q \<Longrightarrow> (\<And>x. below (f x) (g x)) \<Longrightarrow> below (bindP p f) (bindP q g)"
  unfolding below_def bindP_def
  by (auto simp: bindR_def split: sum.splits prod.splits) (metis sum.inject(1) sum.distinct(1) sum.inject(2) Pair_inject)+

lemma below_if: "(b \<Longrightarrow> below p q) \<Longrightarrow> (\<not> b \<Longrightarrow> below p' q') \<Longrightarrow> below (if b then p else p') (if b then q else q')"
  by simp

lemma below_split: "(\<And>a b. below (f a b) (g a b)) \<Longrightarrow> below (case x of (a, b) \<Rightarrow> f a b) (case x of (a, b) \<Rightarrow> g a b)"
  by (cases x) simp

definition entry_le :: "entry \<Rightarrow> entry \<Rightarrow> bool" where
  "entry_le R S \<longleftrightarrow> e_space R = e_space S \<and> e_fuel R \<le> e_fuel S \<and> below (e_expr R) (e_expr S) \<and>
     below (e_unary R) (e_unary S) \<and> below (e_block R) (e_block S) \<and> below (e_type R) (e_type S)"

lemma below_comma_list: "n \<le> m \<Longrightarrow> below p q \<Longrightarrow> below (comma_list n p) (comma_list m q)"
proof (induction n arbitrary: m)
  case (Suc n)
  then obtain k where "m = Suc k" "n \<le> k" by (cases m) auto
  then show ?case using Suc by (auto simp: comma_list_Suc intro!: below_bind below_if below_refl)
qed (simp add: below_def)

lemma below_comma_items: "n \<le> m \<Longrightarrow> below p q \<Longrightarrow> below (comma_items n c p) (comma_items m c q)"
proof (induction n arbitrary: m)
  case (Suc n)
  then obtain k where "m = Suc k" "n \<le> k" by (cases m) auto
  then show ?case using Suc by (auto simp: comma_items_Suc intro!: below_bind below_if below_refl)
qed (simp add: below_def)

lemma below_until: "n \<le> m \<Longrightarrow> below p q \<Longrightarrow> below (until n c p) (until m c q)"
proof (induction n arbitrary: m)
  case (Suc n)
  then obtain k where "m = Suc k" "n \<le> k" by (cases m) auto
  then show ?case using Suc by (auto simp: until_Suc intro!: below_bind below_if below_refl)
qed (simp add: below_def)

lemma below_type_parameter_names: "n \<le> m \<Longrightarrow> below (type_parameter_names n ns) (type_parameter_names m ns)"
proof (induction n arbitrary: m ns)
  case (Suc n)
  then obtain k where "m = Suc k" "n \<le> k" by (cases m) auto
  then show ?case using Suc by (auto simp: type_parameter_names_Suc intro!: below_bind below_if below_refl)
qed (simp add: below_def)

lemma below_binary_loop: "n \<le> m \<Longrightarrow> below p q \<Longrightarrow> below (binary_loop n ops p e) (binary_loop m ops q e)"
proof (induction n arbitrary: m e)
  case (Suc n)
  then obtain k where "m = Suc k" "n \<le> k" by (cases m) auto
  then show ?case using Suc by (auto simp: binary_loop_Suc intro!: below_bind below_if below_refl)
qed (simp add: below_def)

lemma below_asm_loop: "n \<le> m \<Longrightarrow> below (asm_loop n sp ls ps) (asm_loop m sp ls ps)"
proof (induction n arbitrary: m ls ps)
  case (Suc n)
  then obtain k where "m = Suc k" "n \<le> k" by (cases m) auto
  then show ?case using Suc by (auto simp: asm_loop_Suc Let_def intro!: below_bind below_if below_refl)
qed (simp add: below_def)

lemma below_include_loop: "n \<le> m \<Longrightarrow> below (include_loop n) (include_loop m)"
proof (induction n arbitrary: m)
  case (Suc n)
  then obtain k where "m = Suc k" "n \<le> k" by (cases m) auto
  then show ?case using Suc by (auto simp: include_loop_Suc intro!: below_bind below_if below_refl)
qed (simp add: below_def)

lemma entry_leD:
  assumes "entry_le R S"
  shows "e_fuel R \<le> e_fuel S" "e_space R = e_space S" "below (e_expr R) (e_expr S)"
    "below (e_unary R) (e_unary S)" "below (e_block R) (e_block S)" "below (e_type R) (e_type S)"
  using assms by (simp_all add: entry_le_def)

named_theorems rises

lemmas [rises] = below_bind below_if below_split below_comma_list below_comma_items below_until
  below_type_parameter_names below_binary_loop below_asm_loop below_include_loop

lemma below_types:
  "entry_le R S \<Longrightarrow> below (function_type_name R) (function_type_name S)"
  "entry_le R S \<Longrightarrow> below (type_arguments R b) (type_arguments S b)"
  "n \<le> m \<Longrightarrow> below (type_parameters n) (type_parameters m)"
  unfolding function_type_name_def type_arguments_def type_parameters_def
  by (intro rises entry_leD below_refl; assumption)+

lemmas [rises] = below_types entry_leD

lemma below_type_name: "entry_le R S \<Longrightarrow> below (type_name_of R) (type_name_of S)"
  unfolding type_name_of_def by (intro rises below_refl; assumption)

lemma below_exprs:
  "entry_le R S \<Longrightarrow> below (call_arguments R) (call_arguments S)"
  "entry_le R S \<Longrightarrow> below (field_initializer R) (field_initializer S)"
  unfolding call_arguments_def field_initializer_def by (intro rises below_refl; assumption)+

lemmas [rises] = below_exprs

lemma below_struct_literal: "entry_le R S \<Longrightarrow> below (struct_literal R name p) (struct_literal S name p)"
  unfolding struct_literal_def by (intro rises below_refl; assumption)

lemmas [rises] = below_struct_literal

lemma below_operands:
  "entry_le R S \<Longrightarrow> below (primary R) (primary S)"
  "entry_le R S \<Longrightarrow> below (turbofish R name p) (turbofish S name p)"
  unfolding primary_def turbofish_def by (intro rises below_refl; assumption)+

lemmas [rises] = below_operands

lemma below_postfix: "entry_le R S \<Longrightarrow> below (postfix R e) (postfix S e)"
  unfolding postfix_def
  by (cases e; simp only: expr.case give_bind if_False; intro rises below_refl; assumption)

lemma below_postfix_loop: "n \<le> m \<Longrightarrow> entry_le R S \<Longrightarrow> below (postfix_loop n R e) (postfix_loop m S e)"
proof (induction n arbitrary: m e)
  case (Suc n)
  then obtain k where "m = Suc k" "n \<le> k" by (cases m) auto
  then show ?case using Suc
    by (auto simp: postfix_loop_Suc intro!: below_bind below_postfix below_refl split: option.split)
qed (simp add: below_def)

lemmas [rises] = below_postfix_loop

lemma below_unary: "entry_le R S \<Longrightarrow> below (unary_expr R) (unary_expr S)"
  unfolding unary_expr_def call_expr_def by (intro rises below_refl; assumption)

lemmas [rises] = below_unary

lemma below_expression: "entry_le R S \<Longrightarrow> below (expression R) (expression S)"
  unfolding expression_def or_expr_def and_expr_def bitor_expr_def bitxor_expr_def bitand_expr_def
    equality_expr_def comparison_expr_def shift_expr_def term_expr_def factor_expr_def binary_level_def
  by (intro rises below_refl; assumption)

lemma below_small_statements:
  "entry_le R S \<Longrightarrow> below (var_decl R) (var_decl S)"
  "entry_le R S \<Longrightarrow> below (assign_or_expr R) (assign_or_expr S)"
  "entry_le R S \<Longrightarrow> below (condition R kw) (condition S kw)"
  unfolding var_decl_def assign_or_expr_def condition_def by (intro rises below_refl; assumption)+

lemmas [rises] = below_small_statements

lemma below_match_arm: "entry_le R S \<Longrightarrow> below (match_arm_of R) (match_arm_of S)"
  unfolding match_arm_of_def by (intro rises below_refl; assumption)

lemmas [rises] = below_match_arm

lemma below_vm_asm: "entry_le R S \<Longrightarrow> below (vm_asm_block R kw) (vm_asm_block S kw)"
  unfolding vm_asm_block_def using entry_leD(1,2) [of R S]
  by (simp; intro rises below_refl; simp)

lemma below_statements:
  "entry_le R S \<Longrightarrow> below (print_stmt R node) (print_stmt S node)"
  "entry_le R S \<Longrightarrow> below (return_stmt R) (return_stmt S)"
  "entry_le R S \<Longrightarrow> below (expression_stmt R) (expression_stmt S)"
  "entry_le R S \<Longrightarrow> below (match_stmt R kw) (match_stmt S kw)"
  "entry_le R S \<Longrightarrow> below (if_stmt R) (if_stmt S)"
  "entry_le R S \<Longrightarrow> below (while_stmt R) (while_stmt S)"
  "entry_le R S \<Longrightarrow> below (for_stmt R) (for_stmt S)"
  unfolding print_stmt_def return_stmt_def expression_stmt_def match_stmt_def if_stmt_def while_stmt_def for_stmt_def
    for_init_def for_step_def
  by (intro rises below_refl; assumption)+

lemmas [rises] = below_vm_asm below_statements

lemma below_block: "entry_le R S \<Longrightarrow> below (block_of R) (block_of S)"
  unfolding block_of_def declaration_stmt_def statement_def by (intro rises below_refl; assumption)

lemma entries_mono: "n \<le> m \<Longrightarrow> entry_le (entries sp n) (entries sp m)"
proof (induction n arbitrary: m)
  case (Suc n)
  then obtain k where k: "m = Suc k" "n \<le> k" by (cases m) auto
  note le = Suc.IH [OF k(2)]
  show ?case unfolding k entry_le_def using k(2) below_expression [OF le] below_unary [OF le]
      below_block [OF le] below_type_name [OF le] by simp
next
  case 0
  show ?case by (cases m) (simp_all add: entry_le_def below_def)
qed

lemma below_definitions:
  "entry_le R S \<Longrightarrow> below (typed_name R m1 m2 node) (typed_name S m1 m2 node)"
  "entry_le R S \<Longrightarrow> below (variant_def_of R) (variant_def_of S)"
  unfolding typed_name_def variant_def_of_def by (intro rises below_refl; assumption)+

lemmas [rises] = below_definitions below_block

lemma below_declarations:
  "entry_le R S \<Longrightarrow> below (struct_def_of R) (struct_def_of S)"
  "entry_le R S \<Longrightarrow> below (enum_def_of R) (enum_def_of S)"
  "entry_le R S \<Longrightarrow> below (function_of R) (function_of S)"
  unfolding struct_def_of_def enum_def_of_def function_of_def by (intro rises below_refl; assumption)+

lemma below_decl_loop: "n \<le> m \<Longrightarrow> entry_le R S \<Longrightarrow> below (decl_loop n R prog) (decl_loop m S prog)"
proof (induction n arbitrary: m prog)
  case (Suc n)
  then obtain k where "m = Suc k" "n \<le> k" by (cases m) auto
  then show ?case using Suc
    by (auto simp: decl_loop_Suc intro!: below_bind below_if below_declarations below_refl)
qed (simp add: below_def)

lemmas [rises] = below_decl_loop

lemma below_program: "entry_le R S \<Longrightarrow> below (parse_program R) (parse_program S)"
  unfolding parse_program_def by (intro rises below_refl; assumption)

lemma parse_mono:
  assumes "n \<le> m" "parse sp n ts \<noteq> Inl ParseFuel"
  shows "parse sp m ts = parse sp n ts"
  using below_program [OF entries_mono [OF assms(1)], of sp] assms(2)
  by (auto simp: parse_def below_def dest!: spec [of _ "\<lparr>toks = ts, cur = 0\<rparr>"])

text \<open>
  Claim C24. For every source the lexer accepts, the parser returns: with twice as much fuel as there are
  tokens it gives a syntax tree or a syntax error with a position, never running out and never letting
  an exception of the host escape, and more fuel gives the same answer.
\<close>

theorem parser_returns:
  assumes "tokenize U src = Inr ts" and "2 * length ts < fuel"
  shows "parse sp fuel ts = parse sp (2 * length ts + 1) ts \<and>
    ((\<exists>prog. parse sp fuel ts = Inr prog) \<or> (\<exists>f l c. parse sp fuel ts = Inl (ParseError f l c)))"
proof
  note ok = parse_total [OF tokenize_ok [OF assms(1)] le_less_trans [OF weight_le], of _ sp]
  from ok [of "2 * length ts + 1"] have "parse sp (2 * length ts + 1) ts \<noteq> Inl ParseFuel" by auto
  from parse_mono [OF _ this, of fuel] assms(2)
  show "parse sp fuel ts = parse sp (2 * length ts + 1) ts" by simp
  from ok [OF assms(2)]
  show "(\<exists>prog. parse sp fuel ts = Inr prog) \<or> (\<exists>f l c. parse sp fuel ts = Inl (ParseError f l c))"
    by (cases "parse sp fuel ts") auto
qed

lemma sample_source: "\<exists>ts. tokenize ascii_only (lit ''fn f(){}'') = Inr ts \<and> length ts < 20"
  by (simp add: lex_eval one_or_two_def)

theorem parser_returns_witness:
  "\<exists>ts. tokenize ascii_only (lit ''fn f(){}'') = Inr ts \<and>
     parse (\<lambda>c. c = 32) 100 ts = parse (\<lambda>c. c = 32) (2 * length ts + 1) ts"
  using sample_source parser_returns [OF _, of ascii_only "lit ''fn f(){}''" _ 100] by fastforce

end
