(* ===== verification/Builtins.thy ===== *)
theory Builtins
  imports Types
begin

text \<open>
  \<open>compiler/builtins.py\<close>: the signatures of the builtin functions, spelled as type names, and the
  builtins that may be named as values.
\<close>

definition VALUE_BUILTINS :: "ustr list" where
  "VALUE_BUILTINS = map lit
    [''int_to_str'', ''char_to_str'', ''float_to_str'', ''int_to_float'', ''float_to_int'', ''str_len'',
     ''str_char_at'', ''str_slice'', ''file_read'', ''file_write'', ''file_append'', ''file_exists'',
     ''file_delete'', ''file_error'', ''file_read_bytes'', ''file_write_bytes'', ''read_line'',
     ''argc'', ''argv'', ''ct_eq'', ''ct_select'', ''load16'', ''store16'', ''memcpy'', ''memset'',
     ''alloc'', ''heap_load'', ''heap_store'', ''gc'', ''panic'']"

type_synonym builtin_sig = "ustr list \<times> ustr"

definition get_builtins :: "(ustr \<times> builtin_sig) list" where
  "get_builtins = map (\<lambda>(n, ps, r). (lit n, map lit ps, lit r))
    [(''load16'', [''ptr''], ''int''), (''store16'', [''ptr'', ''int''], ''void''),
     (''memcpy'', [''ptr'', ''ptr'', ''int''], ''void''),
     (''memset'', [''ptr'', ''int'', ''int''], ''void''),
     (''array_push'', [''int'', ''int'', ''int''], ''int''),
     (''array_pop'', [''int'', ''int''], ''int''), (''array_new'', [''int''], ''int''),
     (''array_len'', [''int''], ''int''), (''ct_eq'', [''int'', ''int''], ''bool''),
     (''ct_select'', [''int'', ''int'', ''int''], ''int''), (''alloc'', [''int''], ''heapptr''),
     (''heap_load'', [''heapptr''], ''int''), (''heap_store'', [''heapptr'', ''int''], ''void''),
     (''gc'', [], ''void''), (''panic'', [''str''], ''void''), (''str_len'', [''str''], ''int''),
     (''str_char_at'', [''str'', ''int''], ''int''),
     (''str_slice'', [''str'', ''int'', ''int''], ''str''), (''int_to_str'', [''int''], ''str''),
     (''char_to_str'', [''int''], ''str''), (''int_to_float'', [''int''], ''float''),
     (''float_to_int'', [''float''], ''int''), (''float_to_str'', [''float''], ''str''),
     (''read_line'', [], ''str''), (''file_read'', [''str''], ''str''),
     (''file_write'', [''str'', ''str''], ''bool''), (''file_append'', [''str'', ''str''], ''bool''),
     (''file_exists'', [''str''], ''bool''), (''file_delete'', [''str''], ''bool''),
     (''file_error'', [], ''str''), (''file_read_bytes'', [''str''], ''Array<int>''),
     (''file_write_bytes'', [''str'', ''Array<int>''], ''bool''), (''argc'', [], ''int''),
     (''argv'', [''int''], ''str'')]"

text \<open>Every signature names types that exist without any declaration.\<close>

lemma builtin_names_distinct: "distinct (map fst get_builtins)"
  by (simp add: get_builtins_def lit_def)

lemma value_builtins_listed: "set VALUE_BUILTINS \<subseteq> fst ` set get_builtins"
  by (simp add: get_builtins_def VALUE_BUILTINS_def lit_def)

end
