(* ===== verification/Typed.thy ===== *)
theory Typed
  imports Syntax Types
begin

text \<open>
  What semantic analysis hands to the code generator. The code keeps it in side tables keyed by the
  identity of a syntax node (\<open>node_type\<close>, \<open>binding\<close>, \<open>func_ref\<close>, \<open>variant_ctor\<close>,
  \<open>indirect_calls\<close>, \<open>call_target\<close>, \<open>arm_variant\<close>, \<open>arm_bindings\<close>, \<open>asm_scope\<close>, \<open>scope_refs\<close>); every node
  is analyzed once, so here each entry is a field of the node, and a node that the tables tell apart
  from others of its class is a constructor of its own.
\<close>

text \<open>Symbols are compared by identity: \<open>sym_id\<close> is the place in the frame the symbol was declared in.\<close>

record symbol =
  sym_name :: ustr
  sym_type :: qtype
  sym_id :: nat

datatype texpr =
    TLit pos qtype literal_value
  | TFuncRef pos qtype ustr
  | TUnit pos qtype variant_info
  | TLocal pos qtype symbol
  | TAddrLocal pos pos qtype symbol
  | TAddrIndex pos qtype texpr texpr
  | TUnary pos qtype ustr texpr
  | TBinary pos qtype texpr ustr texpr
  | TIndex pos qtype texpr texpr
  | TField pos qtype texpr ustr
  | TStruct pos qtype "(pos \<times> ustr \<times> texpr) list"
  | TVariant pos qtype variant_info "texpr list"
  | TReceiver pos qtype texpr "texpr list"
  | TIndirect pos qtype symbol "texpr list"
  | TCall pos qtype ustr "ustr option" "texpr list"

primrec texpr_pos :: "texpr \<Rightarrow> pos" where
  "texpr_pos (TLit p _ _) = p"
| "texpr_pos (TFuncRef p _ _) = p"
| "texpr_pos (TUnit p _ _) = p"
| "texpr_pos (TLocal p _ _) = p"
| "texpr_pos (TAddrLocal p _ _ _) = p"
| "texpr_pos (TAddrIndex p _ _ _) = p"
| "texpr_pos (TUnary p _ _ _) = p"
| "texpr_pos (TBinary p _ _ _ _) = p"
| "texpr_pos (TIndex p _ _ _) = p"
| "texpr_pos (TField p _ _ _) = p"
| "texpr_pos (TStruct p _ _) = p"
| "texpr_pos (TVariant p _ _ _) = p"
| "texpr_pos (TReceiver p _ _ _) = p"
| "texpr_pos (TIndirect p _ _ _) = p"
| "texpr_pos (TCall p _ _ _ _) = p"

text \<open>\<open>ctx.get_type\<close>.\<close>

primrec get_type :: "texpr \<Rightarrow> qtype" where
  "get_type (TLit _ t _) = t"
| "get_type (TFuncRef _ t _) = t"
| "get_type (TUnit _ t _) = t"
| "get_type (TLocal _ t _) = t"
| "get_type (TAddrLocal _ _ t _) = t"
| "get_type (TAddrIndex _ t _ _) = t"
| "get_type (TUnary _ t _ _) = t"
| "get_type (TBinary _ t _ _ _) = t"
| "get_type (TIndex _ t _ _) = t"
| "get_type (TField _ t _ _) = t"
| "get_type (TStruct _ t _) = t"
| "get_type (TVariant _ t _ _) = t"
| "get_type (TReceiver _ t _ _) = t"
| "get_type (TIndirect _ t _ _) = t"
| "get_type (TCall _ t _ _ _) = t"

text \<open>
  A block comes with the references its scope declares. An assignment keeps the position of its target,
  and a declaration keeps its symbol.
\<close>

datatype tstmt =
    SExpr pos texpr
  | SVarDecl pos symbol "texpr option"
  | SAssignVar pos pos symbol texpr
  | SAssignIndex pos pos texpr texpr texpr
  | SAssignField pos pos texpr ustr texpr
  | SPrint pos texpr
  | SPrintLn pos texpr
  | SReturn pos "texpr option"
  | SVmAsm pos ustr "(ustr \<times> symbol) list"
  | SIf pos texpr "tstmt list" "symbol list" "(tstmt list \<times> symbol list) option"
  | SWhile pos texpr "tstmt list" "symbol list"
  | SFor pos "tstmt option" "texpr option" "tstmt option" "tstmt list" "symbol list" "symbol list"
  | SMatch pos texpr "tarm list"
  | SBreak pos
  | SContinue pos
  | SBlock pos "tstmt list" "symbol list"
and tarm = TArm pos "variant_info option" "symbol list" "tstmt list" "symbol list"

text \<open>A function to emit, with its frame (\<open>ctx.frame_symbols\<close>).\<close>

record tfunction =
  tf_pos :: pos
  tf_name :: ustr
  tf_file :: ustr
  tf_params :: nat
  tf_frame :: "symbol list"
  tf_body :: "tstmt list"

end
