(* ===== verification/Sema.thy ===== *)
theory Sema
  imports Builtins Typed
begin

text \<open>
  \<open>compiler/sema.py\<close>, first part: diagnostics, scopes, the tables of the front end, and the
  instantiation of templates. A method is a state-passing function over the tables. Instantiating a
  type may instantiate further types without bound, so it takes fuel.
\<close>

section \<open>Constants\<close>

definition EXIT_CODE_MAX :: int where "EXIT_CODE_MAX = 255"
definition MAX_INSTANTIATION_DEPTH :: nat where "MAX_INSTANTIATION_DEPTH = 32"
definition MAX_CHAIN_LINES :: nat where "MAX_CHAIN_LINES = 6"
definition MAX_NAME_IN_MESSAGE :: nat where "MAX_NAME_IN_MESSAGE = 60"

definition abbreviate :: "ustr \<Rightarrow> ustr" where
  "abbreviate name = (if length name \<le> MAX_NAME_IN_MESSAGE then name
     else take MAX_NAME_IN_MESSAGE name @ lit ''...'')"

text \<open>\<open>value & 0xFFFF\<close>, and minus \<open>0x10000\<close> when bit 15 is set.\<close>

definition wrap16 :: "int \<Rightarrow> int" where
  "wrap16 v = (let w = v mod 65536 in if 0x8000 \<le> w then w - 0x10000 else w)"

fun const_int :: "expr \<Rightarrow> int option" where
  "const_int (Literal p (LInt n)) = Some (wrap16 (int n))"
| "const_int (Unary p o' r) =
     (case const_int r of
        None \<Rightarrow> None
      | Some v \<Rightarrow>
          if o' = lit ''-'' then Some (wrap16 (- v))
          else if o' = lit ''~'' then Some (wrap16 (- v - 1))
          else None)"
| "const_int (Binary p l o' r) =
     (case (const_int l, const_int r) of
        (Some a, Some b) \<Rightarrow>
          if o' = lit ''+'' then Some (wrap16 (a + b))
          else if o' = lit ''-'' then Some (wrap16 (a - b))
          else if o' = lit ''*'' then Some (wrap16 (a * b))
          else None
      | _ \<Rightarrow> None)"
| "const_int e = None"

section \<open>Diagnostics\<close>

text \<open>
  A message is its fixed text and the values formatted into it. A \<open>SemanticError\<close> carries a position
  and the chain of instantiations that led to it, innermost first, two notes each.
\<close>

datatype chain_note = InTemplate ustr | InstantiatedAt ustr pos

datatype sema_error =
    SemanticError string "ustr list" pos "chain_note list"
  | Uncaught type_error | SemaKeyError ustr | SemaFuel

record diagnostic =
  d_message :: string
  d_args :: "ustr list"
  d_pos :: pos

text \<open>What \<open>str\<close> shows of the chain: at most six lines and a count.\<close>

definition shown_notes :: "chain_note list \<Rightarrow> chain_note list \<times> nat option" where
  "shown_notes notes = (if length notes > MAX_CHAIN_LINES
     then (take MAX_CHAIN_LINES notes, Some ((length notes - MAX_CHAIN_LINES) div 2))
     else (notes, None))"

section \<open>Scopes\<close>

text \<open>A scope and its parents, innermost first; a dictionary each.\<close>

type_synonym scope = "(ustr \<times> symbol) list list"

fun scope_resolve :: "scope \<Rightarrow> ustr \<Rightarrow> symbol option" where
  "scope_resolve [] name = None"
| "scope_resolve (vars # parents) name =
     (case map_of vars name of Some sy \<Rightarrow> Some sy | None \<Rightarrow> scope_resolve parents name)"

text \<open>The outermost scope first, each inner one updating the names.\<close>

definition visible :: "scope \<Rightarrow> (ustr \<times> symbol) list" where
  "visible sc = fold (\<lambda>vars names. fold (\<lambda>(k, v). dict_set k v) vars names) (rev sc) []"

section \<open>The tables\<close>

record function_sig =
  sig_name :: ustr
  sig_params :: "qtype list"
  sig_ret :: qtype
  sig_builtin :: bool

record sema =
  c_functions :: "(ustr \<times> function_sig) list"
  c_structs :: "(ustr \<times> struct_info) list"
  c_enums :: "(ustr \<times> enum_info) list"
  c_variants :: "(ustr \<times> variant_info) list"
  c_generic_functions :: "(ustr \<times> function_def) list"
  c_generic_structs :: "(ustr \<times> struct_def) list"
  c_generic_enums :: "(ustr \<times> enum_def) list"
  c_emit :: "tfunction list"
  c_warnings :: "diagnostic list"
  c_frame :: "symbol list"
  c_loop_depth :: nat
  c_function :: ustr
  c_file :: ustr
  c_pending :: "(function_def \<times> chain_note list) list"
  c_chain :: "chain_note list"
  c_wrapped :: "ustr list"

definition new_sema :: sema where
  "new_sema = \<lparr>c_functions = [], c_structs = [], c_enums = [], c_variants = [], c_generic_functions = [],
     c_generic_structs = [], c_generic_enums = [], c_emit = [], c_warnings = [], c_frame = [],
     c_loop_depth = 0, c_function = [], c_file = [], c_pending = [], c_chain = [], c_wrapped = []\<rparr>"

type_synonym 'a analysis = "(sema, sema_error, 'a) stateR"

definition semantic_error :: "string \<Rightarrow> ustr list \<Rightarrow> pos \<Rightarrow> 'a analysis" where
  "semantic_error m args p = raiseS (SemanticError m args p [])"

text \<open>The same with the chain in force.\<close>

definition chained_error :: "string \<Rightarrow> ustr list \<Rightarrow> pos \<Rightarrow> 'a analysis" where
  "chained_error m args p = bindS (askS c_chain) (\<lambda>ch. raiseS (SemanticError m args p ch))"

definition uncaught :: "type_error + 'a \<Rightarrow> 'a analysis" where
  "uncaught r = (case r of Inl e \<Rightarrow> raiseS (Uncaught e) | Inr x \<Rightarrow> giveS x)"

text \<open>\<open>except UnknownTypeError as e: raise SemanticError(str(e), line, col, self._chain)\<close>.\<close>

definition type_error_text :: "type_error \<Rightarrow> ustr list" where
  "type_error_text e = (case e of
     InvalidArrayLength a b \<Rightarrow> [a, b] | NonPositiveLength n b \<Rightarrow> [dec_int n, b] | UnbalancedParens a \<Rightarrow> [a]
   | MalformedFunction a \<Rightarrow> [a] | EmptyParameter a \<Rightarrow> [a] | EmptyArgument a \<Rightarrow> [a] | ArrayArity n a \<Rightarrow> [dec_nat n, a]
   | VoidParameter a \<Rightarrow> [a] | ArrayParameter a \<Rightarrow> [a] | PtrParameter a \<Rightarrow> [a] | ArrayReturn a \<Rightarrow> [a]
   | PtrReturn a \<Rightarrow> [a] | VoidElement a \<Rightarrow> [a] | FloatElement a \<Rightarrow> [a] | FrameArrayElement a \<Rightarrow> [a]
   | UnknownType a \<Rightarrow> [a])"

definition resolving :: "pos \<Rightarrow> type_error + 'a \<Rightarrow> 'a analysis" where
  "resolving p r = (case r of
     Inl e \<Rightarrow> chained_error ''type error'' (type_error_text e) p
   | Inr x \<Rightarrow> giveS x)"

text \<open>\<open>scope.define\<close>: only the innermost dictionary is consulted.\<close>

definition scope_define :: "scope \<Rightarrow> symbol \<Rightarrow> pos \<Rightarrow> scope analysis" where
  "scope_define sc sy p =
     (case sc of
        [] \<Rightarrow> giveS [[(sym_name sy, sy)]]
      | vars # parents \<Rightarrow>
          if map_of vars (sym_name sy) \<noteq> None
          then semantic_error ''Redeclaration of variable'' [sym_name sy] p
          else giveS ((vars @ [(sym_name sy, sy)]) # parents))"

text \<open>A new symbol of the frame: \<open>scope.define\<close> and \<open>self._frame.append\<close>.\<close>

definition declare_symbol :: "scope \<Rightarrow> ustr \<Rightarrow> qtype \<Rightarrow> pos \<Rightarrow> (symbol \<times> scope) analysis" where
  "declare_symbol sc name t p =
     bindS (askS (\<lambda>s. \<lparr>sym_name = name, sym_type = t, sym_id = length (c_frame s)\<rparr>)) (\<lambda>sy.
     bindS (scope_define sc sy p) (\<lambda>sc'.
     bindS (updS (\<lambda>s. s\<lparr>c_frame := c_frame s @ [sy]\<rparr>)) (\<lambda>_. giveS (sy, sc'))))"

text \<open>The references a scope declares, for the code generator to release.\<close>

definition scope_refs :: "scope \<Rightarrow> symbol list" where
  "scope_refs sc = (case sc of [] \<Rightarrow> [] | vars # _ \<Rightarrow> filter (\<lambda>sy. is_reference_type (sym_type sy)) (map snd vars))"

section \<open>Instantiation of types\<close>

text \<open>The names a declaration spells, in the order \<open>substitute_types\<close> rewrites them.\<close>

definition option_names :: "ustr option \<Rightarrow> ustr list" where
  "option_names t = (case t of None \<Rightarrow> [] | Some n \<Rightarrow> [n])"

primrec expr_names :: "expr \<Rightarrow> ustr list" and init_names :: "field_init \<Rightarrow> ustr list" where
  "expr_names (Literal p v) = []"
| "expr_names (Identifier p n) = []"
| "expr_names (Unary p o' e) = expr_names e"
| "expr_names (Binary p a o' b) = expr_names a @ expr_names b"
| "expr_names (Call p f as rc ts) = ts @ concat (map expr_names as)
     @ (case map_option expr_names rc of None \<Rightarrow> [] | Some ns \<Rightarrow> ns)"
| "expr_names (Index p a i) = expr_names a @ expr_names i"
| "expr_names (AddressOf p e) = expr_names e"
| "expr_names (FieldAccess p e f) = expr_names e"
| "expr_names (StructLit p n fs) = n # concat (map init_names fs)"
| "init_names (FieldInit p n e) = expr_names e"

definition flat :: "ustr list option \<Rightarrow> ustr list" where
  "flat ns = (case ns of None \<Rightarrow> [] | Some l \<Rightarrow> l)"

primrec stmt_names :: "stmt \<Rightarrow> ustr list" and arm_names :: "match_arm \<Rightarrow> ustr list" where
  "stmt_names (ExprStmt p e) = expr_names e"
| "stmt_names (VarDecl p n t i) = option_names t @ flat (map_option expr_names i)"
| "stmt_names (Assign p a b) = expr_names a @ expr_names b"
| "stmt_names (Print p e) = expr_names e"
| "stmt_names (PrintLn p e) = expr_names e"
| "stmt_names (Return p e) = flat (map_option expr_names e)"
| "stmt_names (VmAsm p c) = []"
| "stmt_names (If p c t e) = expr_names c @ concat (map stmt_names t)
     @ flat (map_option concat (map_option (map stmt_names) e))"
| "stmt_names (While p c b) = expr_names c @ concat (map stmt_names b)"
| "stmt_names (For p i c s b) = flat (map_option stmt_names i) @ flat (map_option expr_names c)
     @ flat (map_option stmt_names s) @ concat (map stmt_names b)"
| "stmt_names (Match p e as) = expr_names e @ concat (map arm_names as)"
| "stmt_names (Break p) = []"
| "stmt_names (Continue p) = []"
| "stmt_names (Block p ss) = concat (map stmt_names ss)"
| "arm_names (MatchArm p v bs b) = concat (map stmt_names b)"

fun function_names :: "function_def \<Rightarrow> ustr list" where
  "function_names (Function p n ps t b tps f) =
     option_names t @ map (\<lambda>q. case q of Param _ _ ty \<Rightarrow> ty) ps @ concat (map stmt_names b)"

fun struct_names :: "struct_def \<Rightarrow> ustr list" where
  "struct_names (StructDef p n fs tps) = map (\<lambda>f. case f of FieldDef _ _ ty \<Rightarrow> ty) fs"

fun enum_names :: "enum_def \<Rightarrow> ustr list" where
  "enum_names (EnumDef p n vs tps) = concat (map (\<lambda>v. case v of VariantDef _ _ ts \<Rightarrow> ts) vs)"

text \<open>
  \<open>_substituted\<close>: a copy under a mangled name, without type parameters, every type name rewritten; a
  name that cannot be taken apart raises.
\<close>

definition rewriting :: "host_text \<Rightarrow> (ustr \<rightharpoonup> ustr) \<Rightarrow> ustr \<Rightarrow> ustr" where
  "rewriting H subs n = (case substitute_type_name H n subs of Inr t \<Rightarrow> t | Inl _ \<Rightarrow> n)"

definition rewrite_all :: "host_text \<Rightarrow> (ustr \<rightharpoonup> ustr) \<Rightarrow> ustr list \<Rightarrow> unit analysis" where
  "rewrite_all H subs ns = bindS (uncaught (mapR (\<lambda>n. substitute_type_name H n subs) ns)) (\<lambda>_. giveS ())"

fun renamed_function :: "ustr \<Rightarrow> function_def \<Rightarrow> function_def" where
  "renamed_function m (Function p n ps t b tps f) = Function p m ps t b [] f"

fun renamed_struct :: "ustr \<Rightarrow> struct_def \<Rightarrow> struct_def" where
  "renamed_struct m (StructDef p n fs tps) = StructDef p m fs []"

fun renamed_enum :: "ustr \<Rightarrow> enum_def \<Rightarrow> enum_def" where
  "renamed_enum m (EnumDef p n vs tps) = EnumDef p m vs []"

definition substituted_function :: "host_text \<Rightarrow> (ustr \<rightharpoonup> ustr) \<Rightarrow> ustr \<Rightarrow> function_def \<Rightarrow> function_def analysis" where
  "substituted_function H subs m f = bindS (rewrite_all H subs (function_names f)) (\<lambda>_.
     giveS (renamed_function m (subst_function (rewriting H subs) f)))"

definition substituted_struct :: "host_text \<Rightarrow> (ustr \<rightharpoonup> ustr) \<Rightarrow> ustr \<Rightarrow> struct_def \<Rightarrow> struct_def analysis" where
  "substituted_struct H subs m d = bindS (rewrite_all H subs (struct_names d)) (\<lambda>_.
     giveS (renamed_struct m (subst_struct (rewriting H subs) d)))"

definition substituted_enum :: "host_text \<Rightarrow> (ustr \<rightharpoonup> ustr) \<Rightarrow> ustr \<Rightarrow> enum_def \<Rightarrow> enum_def analysis" where
  "substituted_enum H subs m d = bindS (rewrite_all H subs (enum_names d)) (\<lambda>_.
     giveS (renamed_enum m (subst_enum (rewriting H subs) d)))"

text \<open>\<open>len(self._chain) // 2\<close>: each instantiated body adds two lines.\<close>

definition check_depth :: "ustr \<Rightarrow> pos \<Rightarrow> unit analysis" where
  "check_depth mangled p = bindS (askS c_chain) (\<lambda>ch.
     if length ch div 2 < MAX_INSTANTIATION_DEPTH then giveS ()
     else chained_error ''Instantiation is too deep'' [abbreviate mangled] p)"

definition template_arity :: "ustr list \<Rightarrow> ustr \<Rightarrow> ustr list \<Rightarrow> pos \<Rightarrow> unit analysis" where
  "template_arity type_params base args p =
     (if length args = length type_params then giveS ()
      else chained_error ''takes type argument(s), got''
        [base, dec_nat (length type_params), dec_nat (length args)] p)"

definition next_type_id :: "nat analysis" where
  "next_type_id = askS (\<lambda>s. length (c_structs s) + length (c_variants s))"

text \<open>\<open>_resolve_type\<close>, given the way to instantiate what a spelling names.\<close>

definition resolve_type_by :: "(ustr \<Rightarrow> pos \<Rightarrow> unit analysis) \<Rightarrow> host_text \<Rightarrow> ustr \<Rightarrow> pos \<Rightarrow> qtype analysis" where
  "resolve_type_by ens H name p =
     bindS (ens name p) (\<lambda>_.
     bindS (askS (\<lambda>s. type_from_name H (map_of (c_structs s)) (map_of (c_enums s)) name)) (\<lambda>r.
       resolving p r))"

text \<open>The declared fields of a struct; \<open>offset\<close> is in words, and a float takes two.\<close>

fun struct_fields_from :: "(ustr \<Rightarrow> pos \<Rightarrow> qtype analysis) \<Rightarrow> ustr \<Rightarrow> ustr list \<Rightarrow> nat \<Rightarrow> field_def list
    \<Rightarrow> struct_field list analysis" where
  "struct_fields_from rt owner seen offset [] = giveS []"
| "struct_fields_from rt owner seen offset (FieldDef p name ty # fs) =
     (if name \<in> set seen then chained_error ''Duplicate field in struct'' [name, owner] p
      else bindS (rt ty p) (\<lambda>ft.
        if is_array_type ft then chained_error ''Field cannot be an array'' [name] p
        else if ft = TVoid then chained_error ''Field cannot have type void'' [name] p
        else bindS (struct_fields_from rt owner (seen @ [name]) (offset + word_count ft) fs) (\<lambda>rest.
          giveS (\<lparr>sf_name = name, sf_type = ft, sf_offset = offset\<rparr> # rest))))"

fun struct_fields :: "(ustr \<Rightarrow> pos \<Rightarrow> qtype analysis) \<Rightarrow> struct_def \<Rightarrow> ustr \<Rightarrow> struct_field list analysis" where
  "struct_fields rt (StructDef p n fs tps) owner = struct_fields_from rt owner [] 0 fs"

text \<open>A variant's payload: positional fields.\<close>

fun payload_fields :: "(ustr \<Rightarrow> pos \<Rightarrow> qtype analysis) \<Rightarrow> ustr \<Rightarrow> pos \<Rightarrow> nat \<Rightarrow> nat \<Rightarrow> ustr list
    \<Rightarrow> struct_field list analysis" where
  "payload_fields rt vname p position offset [] = giveS []"
| "payload_fields rt vname p position offset (ty # tys) =
     bindS (rt ty p) (\<lambda>ft.
       if is_array_type ft then chained_error ''Variant cannot carry an array'' [vname] p
       else if ft = TVoid then chained_error ''Variant cannot carry a void value'' [vname] p
       else bindS (payload_fields rt vname p (position + 1) (offset + word_count ft) tys) (\<lambda>rest.
         giveS (\<lparr>sf_name = lit ''_'' @ dec_nat position, sf_type = ft, sf_offset = offset\<rparr> # rest)))"

fun variant_fields :: "(ustr \<Rightarrow> pos \<Rightarrow> qtype analysis) \<Rightarrow> variant_def \<Rightarrow> struct_field list analysis" where
  "variant_fields rt (VariantDef p name payload) = payload_fields rt name p 0 0 payload"

text \<open>
  \<open>info.fields = \<dots>\<close> on an object the tables share: a struct is known by its name; a variant by its enum
  and index, and it stands in its enum's list and, unless another took its name, in the variant table.
\<close>

definition set_struct_fields :: "ustr \<Rightarrow> struct_field list \<Rightarrow> unit analysis" where
  "set_struct_fields name fs = updS (\<lambda>s. s\<lparr>c_structs :=
     map (\<lambda>(k, i). (k, if k = name then i\<lparr>si_fields := fs\<rparr> else i)) (c_structs s)\<rparr>)"

definition same_variant :: "ustr \<Rightarrow> nat \<Rightarrow> variant_info \<Rightarrow> bool" where
  "same_variant e i v \<longleftrightarrow> enum_name v = e \<and> variant_index v = i"

definition set_variant_fields :: "ustr \<Rightarrow> nat \<Rightarrow> struct_field list \<Rightarrow> unit analysis" where
  "set_variant_fields e i fs = updS (\<lambda>s.
     let put = (\<lambda>v. if same_variant e i v then v\<lparr>si_fields := fs\<rparr> else v) in
     s\<lparr>c_variants := map (\<lambda>(k, v). (k, put v)) (c_variants s),
       c_enums := map (\<lambda>(k, en). (k, en\<lparr>ei_variants := map put (ei_variants en)\<rparr>)) (c_enums s)\<rparr>)"

definition qualify :: "ustr \<Rightarrow> ustr \<Rightarrow> ustr" where
  "qualify e v = e @ lit ''::'' @ v"

text \<open>Registering one variant of an enum under its qualified name, with the next type id.\<close>

definition add_variant :: "ustr \<Rightarrow> nat \<Rightarrow> variant_def \<Rightarrow> unit analysis" where
  "add_variant e i vd = (case vd of VariantDef p vname payload \<Rightarrow>
     bindS next_type_id (\<lambda>tid.
       let v = \<lparr>si_name = qualify e vname, type_id = tid, si_fields = [], enum_name = e, short_name = vname, variant_index = i\<rparr>
       in updS (\<lambda>s. s\<lparr>c_variants := dict_set (qualify e vname) v (c_variants s),
            c_enums := map (\<lambda>(k, en). (k, if k = e then en\<lparr>ei_variants := ei_variants en @ [v]\<rparr> else en)) (c_enums s)\<rparr>)))"

fun add_variants :: "ustr \<Rightarrow> nat \<Rightarrow> variant_def list \<Rightarrow> unit analysis" where
  "add_variants e i [] = giveS ()"
| "add_variants e i (vd # vds) = bindS (add_variant e i vd) (\<lambda>_. add_variants e (i + 1) vds)"

fun fill_variants :: "(ustr \<Rightarrow> pos \<Rightarrow> qtype analysis) \<Rightarrow> ustr \<Rightarrow> nat \<Rightarrow> variant_def list \<Rightarrow> unit analysis" where
  "fill_variants rt e i [] = giveS ()"
| "fill_variants rt e i (vd # vds) = bindS (variant_fields rt vd) (\<lambda>fs.
     bindS (set_variant_fields e i fs) (\<lambda>_. fill_variants rt e (i + 1) vds))"

fun struct_params :: "struct_def \<Rightarrow> ustr list" where
  "struct_params (StructDef p n fs tps) = tps"

fun enum_params :: "enum_def \<Rightarrow> ustr list" where
  "enum_params (EnumDef p n vs tps) = tps"

fun enum_variants :: "enum_def \<Rightarrow> variant_def list" where
  "enum_variants (EnumDef p n vs tps) = vs"

definition instantiate_struct :: "(ustr \<Rightarrow> pos \<Rightarrow> unit analysis) \<Rightarrow> host_text \<Rightarrow> struct_def \<Rightarrow> ustr \<Rightarrow> ustr list
    \<Rightarrow> ustr \<Rightarrow> pos \<Rightarrow> unit analysis" where
  "instantiate_struct ens H template base args mangled p =
     bindS (template_arity (struct_params template) base args p) (\<lambda>_.
     bindS (substituted_struct H (map_of (rev (zip (struct_params template) args))) mangled template) (\<lambda>clone.
     bindS next_type_id (\<lambda>tid.
     bindS (updS (\<lambda>s. s\<lparr>c_structs := dict_set mangled \<lparr>si_name = mangled, type_id = tid, si_fields = []\<rparr> (c_structs s)\<rparr>)) (\<lambda>_.
     bindS (struct_fields (resolve_type_by ens H) clone mangled) (\<lambda>fs.
       set_struct_fields mangled fs)))))"

definition instantiate_enum :: "(ustr \<Rightarrow> pos \<Rightarrow> unit analysis) \<Rightarrow> host_text \<Rightarrow> enum_def \<Rightarrow> ustr \<Rightarrow> ustr list
    \<Rightarrow> ustr \<Rightarrow> pos \<Rightarrow> unit analysis" where
  "instantiate_enum ens H template base args mangled p =
     bindS (template_arity (enum_params template) base args p) (\<lambda>_.
     bindS (substituted_enum H (map_of (rev (zip (enum_params template) args))) mangled template) (\<lambda>clone.
     bindS (updS (\<lambda>s. s\<lparr>c_enums := dict_set mangled \<lparr>ei_name = mangled, ei_variants = []\<rparr> (c_enums s)\<rparr>)) (\<lambda>_.
     bindS (add_variants mangled 0 (enum_variants clone)) (\<lambda>_.
       fill_variants (resolve_type_by ens H) mangled 0 (enum_variants clone)))))"

definition instantiate_type :: "(ustr \<Rightarrow> pos \<Rightarrow> unit analysis) \<Rightarrow> host_text \<Rightarrow> ustr \<Rightarrow> ustr list \<Rightarrow> ustr \<Rightarrow> pos
    \<Rightarrow> unit analysis" where
  "instantiate_type ens H base args mangled p =
     bindS (askS (\<lambda>s. mangled \<in> fst ` set (c_structs s) \<or> mangled \<in> fst ` set (c_enums s))) (\<lambda>known.
     if known then giveS () else
     bindS (check_depth mangled p) (\<lambda>_.
     bindS (askS (\<lambda>s. map_of (c_generic_structs s) base)) (\<lambda>st. case st of
       Some template \<Rightarrow> instantiate_struct ens H template base args mangled p
     | None \<Rightarrow> bindS (askS (\<lambda>s. map_of (c_generic_enums s) base)) (\<lambda>et. case et of
         Some template \<Rightarrow> instantiate_enum ens H template base args mangled p
       | None \<Rightarrow> raiseS (SemaKeyError base)))))"

text \<open>\<open>_ensure_instantiated\<close>: every template a spelling names, innermost first.\<close>

definition ensure_step :: "(ustr \<Rightarrow> pos \<Rightarrow> unit analysis) \<Rightarrow> host_text \<Rightarrow> ustr \<Rightarrow> pos \<Rightarrow> unit analysis" where
  "ensure_step ens H name p =
     bindS (resolving p (generic_application H name)) (\<lambda>app. case app of
       Some (base, args) \<Rightarrow>
         bindS (forS args (\<lambda>a. ens a p)) (\<lambda>_.
         bindS (askS (\<lambda>s. base \<in> fst ` set (c_generic_structs s) \<or> base \<in> fst ` set (c_generic_enums s))) (\<lambda>g.
           if g then instantiate_type ens H base args name p else giveS ()))
     | None \<Rightarrow> bindS (uncaught (func_signature_from_name H name)) (\<lambda>sig. case sig of
         None \<Rightarrow> giveS ()
       | Some (params, ret) \<Rightarrow> bindS (forS params (\<lambda>q. ens q p)) (\<lambda>_. ens ret p)))"

fun ensure_instantiated :: "nat \<Rightarrow> host_text \<Rightarrow> ustr \<Rightarrow> pos \<Rightarrow> unit analysis" where
  "ensure_instantiated 0 H name p = raiseS SemaFuel"
| "ensure_instantiated (Suc n) H name p = ensure_step (ensure_instantiated n H) H name p"

text \<open>What every later method needs: the host's text functions and the fuel.\<close>

record senv =
  s_host :: host_text
  s_fuel :: nat

definition ensured :: "senv \<Rightarrow> ustr \<Rightarrow> pos \<Rightarrow> unit analysis" where
  "ensured E = ensure_instantiated (s_fuel E) (s_host E)"

definition resolve_type :: "senv \<Rightarrow> ustr \<Rightarrow> pos \<Rightarrow> qtype analysis" where
  "resolve_type E = resolve_type_by (ensured E) (s_host E)"

end
