(* ===== verification/SemaExpr.thy ===== *)
theory SemaExpr
  imports Sema
begin

text \<open>
  \<open>compiler/sema.py\<close>, second part: the analysis of expressions. A method that analyzes arguments gets
  them as methods to run, so that the order of analysis and checks is the code's. The type of a node
  is \<open>get_type\<close> of the typed expression that comes back.
\<close>

definition is_op :: "ustr \<Rightarrow> string list \<Rightarrow> bool" where
  "is_op o' names \<longleftrightarrow> o' \<in> lit ` set names"

section \<open>Operators\<close>

fun literal_type :: "literal_value \<Rightarrow> qtype" where
  "literal_type LNone = TNull"
| "literal_type (LBool b) = TBool"
| "literal_type (LInt n) = TInt"
| "literal_type (LFloat x) = TFloat"
| "literal_type (LStr s) = TStr"

definition unary_type :: "pos \<Rightarrow> ustr \<Rightarrow> qtype \<Rightarrow> qtype analysis" where
  "unary_type p o' t =
     (if o' = lit ''-'' \<and> t = TInt then giveS TInt
      else if o' = lit ''-'' \<and> t = TFloat then giveS TFloat
      else if o' = lit ''!'' \<and> t = TBool then giveS TBool
      else if o' = lit ''~'' \<and> t = TInt then giveS TInt
      else semantic_error ''Invalid unary op for type'' [o', type_name t] p)"

definition arithmetic_type :: "pos \<Rightarrow> ustr \<Rightarrow> qtype \<Rightarrow> qtype \<Rightarrow> qtype analysis" where
  "arithmetic_type p o' lt rt =
     (if o' = lit ''+'' \<and> lt = TStr \<and> rt = TStr then giveS TStr
      else if o' = lit ''+'' \<and> (lt = THeapPtr \<and> rt = TInt \<or> lt = TInt \<and> rt = THeapPtr) then giveS THeapPtr
      else if o' = lit ''-'' \<and> lt = THeapPtr \<and> rt = TInt then giveS THeapPtr
      else if o' = lit ''-'' \<and> lt = THeapPtr \<and> rt = THeapPtr
        then semantic_error ''Cannot subtract two heapptr values'' [] p
      else if lt = TInt \<and> rt = TInt then giveS TInt
      else if lt = TFloat \<and> rt = TFloat then giveS TFloat
      else if {lt, rt} = {TInt, TFloat} then semantic_error ''Cannot mix int and float'' [] p
      else semantic_error ''Arithmetic operators require int or float operands'' [] p)"

text \<open>\<open>%\<close>, the bitwise operators and the shifts; the message for other operands names the operator.\<close>

definition integer_type :: "string \<Rightarrow> pos \<Rightarrow> ustr \<Rightarrow> qtype \<Rightarrow> qtype \<Rightarrow> qtype analysis" where
  "integer_type m p o' lt rt =
     (if lt = TInt \<and> rt = TInt then giveS TInt
      else if lt = TFloat \<or> rt = TFloat then semantic_error ''does not apply to float'' [o'] p
      else semantic_error m [] p)"

definition equality_type :: "pos \<Rightarrow> qtype \<Rightarrow> qtype \<Rightarrow> qtype analysis" where
  "equality_type p lt rt =
     (if comparable lt rt then giveS TBool
      else semantic_error ''Comparison requires operands of same type'' [] p)"

definition relational_type :: "pos \<Rightarrow> qtype \<Rightarrow> qtype \<Rightarrow> qtype analysis" where
  "relational_type p lt rt =
     (if is_struct_type lt \<or> is_struct_type rt \<or> lt = TNull \<or> rt = TNull
        then semantic_error ''Relational operators do not apply to struct references or null'' [] p
      else if lt = rt then giveS TBool
      else semantic_error ''Comparison requires operands of same type'' [] p)"

definition binary_type :: "pos \<Rightarrow> ustr \<Rightarrow> qtype \<Rightarrow> qtype \<Rightarrow> qtype analysis" where
  "binary_type p o' lt rt =
     (if is_op o' [''+'', ''-'', ''*'', ''/''] then arithmetic_type p o' lt rt
      else if o' = lit ''%'' then integer_type ''Modulo operator requires int operands'' p o' lt rt
      else if o' = lit ''^'' then integer_type ''Bitwise XOR operator requires int operands'' p o' lt rt
      else if o' = lit ''&'' then integer_type ''Bitwise AND operator requires int operands'' p o' lt rt
      else if o' = lit ''|'' then integer_type ''Bitwise OR operator requires int operands'' p o' lt rt
      else if o' = lit ''<<'' then integer_type ''Left shift operator requires int operands'' p o' lt rt
      else if o' = lit ''>>'' then integer_type ''Right shift operator requires int operands'' p o' lt rt
      else if is_op o' [''=='', ''!=''] then equality_type p lt rt
      else if is_op o' [''<'', ''<='', ''>'', ''>=''] then relational_type p lt rt
      else if is_op o' [''&&'', ''||''] then
        (if lt = TBool \<and> rt = TBool then giveS TBool
         else semantic_error ''Logical && and || require bool operands'' [] p)
      else semantic_error ''Unknown operator'' [o'] p)"

section \<open>Names of variants\<close>

text \<open>\<open>name.split("::", 1)\<close>, when the name has a \<open>::\<close>.\<close>

fun split_colons :: "ustr \<Rightarrow> ustr \<Rightarrow> (ustr \<times> ustr) option" where
  "split_colons acc [] = None"
| "split_colons acc [c] = None"
| "split_colons acc (c # d # cs) =
     (if c = of_char CHR '':'' \<and> d = of_char CHR '':'' then Some (acc, cs) else split_colons (acc @ [c]) (d # cs))"

abbreviation split_qualified :: "ustr \<Rightarrow> (ustr \<times> ustr) option" where
  "split_qualified \<equiv> split_colons []"

fun variant_def_name :: "variant_def \<Rightarrow> ustr" where
  "variant_def_name (VariantDef p n ts) = n"

fun variant_def_payload :: "variant_def \<Rightarrow> ustr list" where
  "variant_def_payload (VariantDef p n ts) = ts"

fun enum_def_name :: "enum_def \<Rightarrow> ustr" where
  "enum_def_name (EnumDef p n vs tps) = n"

definition variant_template :: "ustr \<Rightarrow> (enum_def \<times> variant_def) option analysis" where
  "variant_template name = askS (\<lambda>s. case split_qualified name of
     None \<Rightarrow> None
   | Some (base, short) \<Rightarrow> (case map_of (c_generic_enums s) base of
       None \<Rightarrow> None
     | Some ed \<Rightarrow> (case find (\<lambda>v. variant_def_name v = short) (enum_variants ed) of
         None \<Rightarrow> None | Some vd \<Rightarrow> Some (ed, vd))))"

definition variant_by_short_name :: "host_text \<Rightarrow> enum_info \<Rightarrow> ustr \<Rightarrow> variant_info option analysis" where
  "variant_by_short_name H info written =
     (case split_qualified written of
        None \<Rightarrow> giveS None
      | Some (base, short) \<Rightarrow> bindS (uncaught (generic_application H (ei_name info))) (\<lambda>app. case app of
          None \<Rightarrow> giveS None
        | Some (b, _) \<Rightarrow>
            if b \<noteq> base then giveS None
            else giveS (find (\<lambda>v. short_name v = short) (ei_variants info))))"

text \<open>Raises when the name looks like a variant's, and otherwise lets the caller go on.\<close>

definition reject_variant_name :: "pos \<Rightarrow> ustr \<Rightarrow> unit analysis" where
  "reject_variant_name p name =
     (case split_qualified name of
        Some (en, rest) \<Rightarrow>
          bindS (askS (\<lambda>s. en \<in> fst ` set (c_enums s) \<or> en \<in> fst ` set (c_generic_enums s))) (\<lambda>known.
            if \<not> known then semantic_error ''No enum named'' [en] p
            else semantic_error ''Enum has no variant'' [en, rest] p)
      | None \<Rightarrow>
          bindS (askS (\<lambda>s. filter (\<lambda>v. short_name v = name) (map snd (c_variants s)))) (\<lambda>owners.
            if owners \<noteq> [] then semantic_error ''is a variant name; write'' (name # map si_name owners) p
            else giveS ()))"

section \<open>Arguments\<close>

text \<open>Arguments analyzed and checked one by one; there are as many as parameters.\<close>

fun check_args :: "(ustr \<Rightarrow> ustr \<Rightarrow> texpr \<Rightarrow> unit analysis) \<Rightarrow> texpr analysis list \<Rightarrow> qtype list \<Rightarrow> texpr list analysis" where
  "check_args report (m # ms) (pt # pts) =
     bindS m (\<lambda>a.
     bindS (checkS (assignable pt (get_type a)) (report (type_name pt) (type_name (get_type a)) a)) (\<lambda>_.
     bindS (check_args report ms pts) (\<lambda>as. giveS (a # as))))"
| "check_args report _ _ = giveS []"

fun check_payload :: "ustr \<Rightarrow> nat \<Rightarrow> texpr list \<Rightarrow> struct_field list \<Rightarrow> unit analysis" where
  "check_payload name position (a # as) (f # fs) =
     (if assignable (sf_type f) (get_type a) then check_payload name (position + 1) as fs
      else semantic_error ''Variant expects another type'' [name, type_name (sf_type f), dec_nat position, type_name (get_type a)]
        (texpr_pos a))"
| "check_payload name position _ _ = giveS ()"

definition variant_construction :: "bool \<Rightarrow> pos \<Rightarrow> ustr \<Rightarrow> nat \<Rightarrow> texpr list analysis \<Rightarrow> texpr analysis" where
  "variant_construction is_call p name n args =
     bindS (askS (\<lambda>s. map_of (c_variants s) name)) (\<lambda>v. case v of
       None \<Rightarrow> raiseS (SemaKeyError name)
     | Some v \<Rightarrow>
         if is_call \<and> si_fields v = [] then semantic_error ''Variant carries no payload'' [name] p
         else if n \<noteq> length (si_fields v)
           then semantic_error ''Variant carries another number of values'' [name, dec_nat (length (si_fields v)), dec_nat n] p
         else bindS args (\<lambda>as.
           bindS (check_payload name 0 as (si_fields v)) (\<lambda>_.
           bindS (askS (\<lambda>s. map_of (c_enums s) (enum_name v))) (\<lambda>en. case en of
             None \<Rightarrow> raiseS (SemaKeyError (enum_name v))
           | Some en \<Rightarrow> giveS (if is_call then TVariant p (enum_type en) v as else TUnit p (enum_type en) v)))))"

section \<open>Generic calls and variants\<close>

fun unify_all :: "host_text \<Rightarrow> ustr list \<Rightarrow> (ustr \<times> ustr) list \<Rightarrow> (ustr \<rightharpoonup> ustr) \<Rightarrow> type_error + (ustr \<rightharpoonup> ustr)" where
  "unify_all H params [] subs = Inr subs"
| "unify_all H params ((pattern, actual) # ps) subs =
     bindR (unify_type_name H pattern actual params subs) (\<lambda>(ok, subs1). unify_all H params ps subs1)"

fun param_type :: "param \<Rightarrow> ustr" where "param_type (Param p n t) = t"
fun param_name :: "param \<Rightarrow> ustr" where "param_name (Param p n t) = n"
fun param_pos :: "param \<Rightarrow> pos" where "param_pos (Param p n t) = p"

fun fndef_name :: "function_def \<Rightarrow> ustr" where "fndef_name (Function p n ps t b tps f) = n"
fun fn_pos :: "function_def \<Rightarrow> pos" where "fn_pos (Function p n ps t b tps f) = p"
fun fn_params :: "function_def \<Rightarrow> param list" where "fn_params (Function p n ps t b tps f) = ps"
fun fn_return :: "function_def \<Rightarrow> ustr option" where "fn_return (Function p n ps t b tps f) = t"
fun fn_body :: "function_def \<Rightarrow> stmt list" where "fn_body (Function p n ps t b tps f) = b"
fun fn_type_params :: "function_def \<Rightarrow> ustr list" where "fn_type_params (Function p n ps t b tps f) = tps"

definition or_input :: "ustr \<Rightarrow> ustr" where
  "or_input f = (if f = [] then lit ''<input>'' else f)"

definition instantiate_function :: "senv \<Rightarrow> function_def \<Rightarrow> (ustr \<rightharpoonup> ustr) \<Rightarrow> ustr \<Rightarrow> pos \<Rightarrow> function_sig analysis" where
  "instantiate_function E template subs mangled site =
     bindS (askS (\<lambda>s. map_of (c_functions s) mangled)) (\<lambda>existing. case existing of
       Some sig \<Rightarrow> giveS sig
     | None \<Rightarrow>
         bindS (check_depth mangled site) (\<lambda>_.
         bindS (substituted_function (s_host E) subs mangled template) (\<lambda>clone.
         bindS (askS c_chain) (\<lambda>outer.
         bindS (askS (\<lambda>s. [InTemplate (abbreviate mangled), InstantiatedAt (or_input (c_file s)) site] @ outer)) (\<lambda>chain.
         bindS (updS (\<lambda>s. s\<lparr>c_chain := chain\<rparr>)) (\<lambda>_.
         bindS (mapS (\<lambda>q. resolve_type E (param_type q) (param_pos q)) (fn_params clone)) (\<lambda>params.
         bindS (case fn_return clone of None \<Rightarrow> giveS TVoid | Some t \<Rightarrow> resolve_type E t (fn_pos clone)) (\<lambda>ret.
         bindS (updS (\<lambda>s. s\<lparr>c_chain := outer\<rparr>)) (\<lambda>_.
         bindS (giveS \<lparr>sig_name = mangled, sig_params = params, sig_ret = ret, sig_builtin = False\<rparr>) (\<lambda>sig.
         bindS (updS (\<lambda>s. s\<lparr>c_functions := dict_set mangled sig (c_functions s),
             c_pending := c_pending s @ [(clone, chain)]\<rparr>)) (\<lambda>_. giveS sig)))))))))))"

definition missing_params :: "ustr list \<Rightarrow> (ustr \<rightharpoonup> ustr) \<Rightarrow> ustr list" where
  "missing_params params subs = filter (\<lambda>q. subs q = None) params"

definition mangle :: "ustr \<Rightarrow> ustr list \<Rightarrow> (ustr \<rightharpoonup> ustr) \<Rightarrow> ustr" where
  "mangle base params subs = base @ lit ''<'' @ join (lit '','') (map (\<lambda>q. the (subs q)) params) @ lit ''>''"

text \<open>The bindings of a generic call: written out, or from the arguments and then from the expected type.\<close>

definition call_bindings :: "senv \<Rightarrow> pos \<Rightarrow> ustr \<Rightarrow> function_def \<Rightarrow> ustr list \<Rightarrow> texpr list \<Rightarrow> qtype option
    \<Rightarrow> (ustr \<rightharpoonup> ustr) analysis" where
  "call_bindings E p callee template type_args as expected =
     (let params = fn_type_params template in
      if type_args \<noteq> [] then
        bindS (template_arity params callee type_args p) (\<lambda>_.
        bindS (mapS (\<lambda>w. resolve_type E w p) type_args) (\<lambda>ts.
          giveS (map_of (rev (zip params (map type_name ts))))))
      else
        bindS (uncaught (unify_all (s_host E) params
          (zip (map param_type (fn_params template)) (map (type_name \<circ> get_type) as)) Map.empty)) (\<lambda>subs.
        case expected of
          Some t \<Rightarrow>
            if missing_params params subs \<noteq> []
            then uncaught (unify_all (s_host E) params
              [(case fn_return template of None \<Rightarrow> lit ''void'' | Some r \<Rightarrow> r, type_name t)] subs)
            else giveS subs
        | None \<Rightarrow> giveS subs))"

fun check_instance_args :: "ustr \<Rightarrow> texpr list \<Rightarrow> qtype list \<Rightarrow> unit analysis" where
  "check_instance_args mangled (a # as) (pt # pts) =
     (if assignable pt (get_type a) then check_instance_args mangled as pts
      else chained_error ''Argument type mismatch'' [mangled, type_name pt, type_name (get_type a)] (texpr_pos a))"
| "check_instance_args mangled _ _ = giveS ()"

definition generic_call :: "senv \<Rightarrow> pos \<Rightarrow> ustr \<Rightarrow> function_def \<Rightarrow> texpr analysis list \<Rightarrow> ustr list \<Rightarrow> qtype option
    \<Rightarrow> texpr analysis" where
  "generic_call E p callee template args type_args expected =
     (if length args \<noteq> length (fn_params template)
      then chained_error ''Function expects args, got'' [callee, dec_nat (length (fn_params template)), dec_nat (length args)] p
      else
        bindS (mapS (\<lambda>m. m) args) (\<lambda>as.
        bindS (call_bindings E p callee template type_args as expected) (\<lambda>subs.
        let params = fn_type_params template in
        if missing_params params subs \<noteq> []
        then chained_error ''Cannot tell what type parameters are in this call'' (callee # missing_params params subs) p
        else let mangled = mangle callee params subs in
          bindS (instantiate_function E template subs mangled p) (\<lambda>sig.
          bindS (check_instance_args mangled as (sig_params sig)) (\<lambda>_.
            giveS (TCall p (sig_ret sig) callee (Some mangled) as))))))"

fun bind_missing :: "(ustr \<times> ustr) list \<Rightarrow> (ustr \<rightharpoonup> ustr) \<Rightarrow> (ustr \<rightharpoonup> ustr)" where
  "bind_missing [] subs = subs"
| "bind_missing ((n, w) # ps) subs = bind_missing ps (if subs n = None then subs(n \<mapsto> w) else subs)"

definition generic_variant :: "senv \<Rightarrow> bool \<Rightarrow> pos \<Rightarrow> enum_def \<times> variant_def \<Rightarrow> texpr analysis list \<Rightarrow> qtype option
    \<Rightarrow> texpr analysis" where
  "generic_variant E is_call p t args expected =
     (let (ed, vd) = t; params = enum_params ed; payload = variant_def_payload vd in
      bindS (mapS (\<lambda>m. m) args) (\<lambda>as.
      bindS (if length args = length payload
        then uncaught (unify_all (s_host E) params (zip payload (map (type_name \<circ> get_type) as)) Map.empty)
        else giveS Map.empty) (\<lambda>subs0.
      bindS (case expected of
          None \<Rightarrow> giveS subs0
        | Some t \<Rightarrow> bindS (uncaught (generic_application (s_host E) (type_name t))) (\<lambda>app. giveS (case app of
            None \<Rightarrow> subs0
          | Some (base, written) \<Rightarrow>
              if base = enum_def_name ed \<and> length written = length params
              then bind_missing (zip params written) subs0 else subs0))) (\<lambda>subs.
      if missing_params params subs \<noteq> []
      then chained_error ''Cannot tell what type parameters are in this variant''
        ([enum_def_name ed, variant_def_name vd] @ missing_params params subs) p
      else let mangled = mangle (enum_def_name ed) params subs in
        bindS (ensured E mangled p) (\<lambda>_.
          variant_construction is_call p (qualify mangled (variant_def_name vd)) (length args) (giveS as))))))"

section \<open>Function values\<close>

fun number_params :: "pos \<Rightarrow> nat \<Rightarrow> qtype list \<Rightarrow> param list" where
  "number_params p i [] = []"
| "number_params p i (t # ts) = Param p (lit ''a'' @ dec_nat i) (type_name t) # number_params p (i + 1) ts"

definition builtin_wrapper :: "ustr \<Rightarrow> function_sig \<Rightarrow> pos \<Rightarrow> ustr \<Rightarrow> function_def" where
  "builtin_wrapper name sig p src =
     (let params = number_params p 0 (sig_params sig);
          call = Call p name (map (\<lambda>q. Identifier p (param_name q)) params) None [] in
      Function p name params (if sig_ret sig = TVoid then None else Some (type_name (sig_ret sig)))
        [if sig_ret sig \<noteq> TVoid then Return p (Some call) else ExprStmt p call] [] src)"

definition builtin_value :: "ustr \<Rightarrow> function_sig \<Rightarrow> pos \<Rightarrow> texpr analysis" where
  "builtin_value name sig p =
     (if (\<exists>t \<in> set (sig_params sig). is_frame_relative t) \<or> is_frame_relative (sig_ret sig)
      then chained_error ''cannot be a function value: its signature mentions ptr'' [name] p
      else if name \<notin> set VALUE_BUILTINS
      then chained_error ''cannot be a function value: no fixed signature'' [name] p
      else
        bindS (updS (\<lambda>s. if name \<in> set (c_wrapped s) then s
          else s\<lparr>c_wrapped := c_wrapped s @ [name],
            c_pending := c_pending s @ [(builtin_wrapper name sig p (c_file s), c_chain s)]\<rparr>)) (\<lambda>_.
        giveS (TFuncRef p (func_type (sig_params sig) (sig_ret sig)) name)))"

text \<open>A call against a function type rather than a declaration; gives the result type and the arguments.\<close>

definition check_call_through :: "pos \<Rightarrow> qtype \<Rightarrow> ustr \<Rightarrow> texpr analysis list \<Rightarrow> (qtype \<times> texpr list) analysis" where
  "check_call_through p ft described args =
     (case ft of
        FuncType _ _ params ret \<Rightarrow>
          if length args \<noteq> length params
          then chained_error ''expects args, got'' [described, dec_nat (length params), dec_nat (length args)] p
          else bindS (check_args (\<lambda>wanted got _. chained_error ''Argument type mismatch'' [wanted, got] p) args params) (\<lambda>as.
            giveS (ret, as))
      | _ \<Rightarrow> chained_error ''has a type that is not a function'' [described, type_name ft] p)"

definition indirect_call :: "pos \<Rightarrow> ustr \<Rightarrow> symbol \<Rightarrow> texpr analysis list \<Rightarrow> texpr analysis" where
  "indirect_call p callee local args =
     bindS (check_call_through p (sym_type local) callee args) (\<lambda>(ret, as). giveS (TIndirect p ret local as))"

definition receiver_call :: "pos \<Rightarrow> ustr \<Rightarrow> texpr analysis \<Rightarrow> texpr analysis list \<Rightarrow> texpr analysis" where
  "receiver_call p callee receiver args =
     bindS receiver (\<lambda>r.
     bindS (check_call_through p (get_type r) (lit ''Field '' @ callee) args) (\<lambda>(ret, as).
       giveS (TReceiver p ret r as)))"

section \<open>Indexing\<close>

definition literal_int :: "expr \<Rightarrow> nat option" where
  "literal_int e = (case e of Literal _ (LInt n) \<Rightarrow> Some n | _ \<Rightarrow> None)"

definition check_const_length :: "senv \<Rightarrow> qtype \<Rightarrow> expr \<Rightarrow> string \<Rightarrow> int \<Rightarrow> pos \<Rightarrow> unit analysis" where
  "check_const_length E arr_t len what offset p =
     bindS (uncaught (array_length (s_host E) arr_t)) (\<lambda>n. case (literal_int len, n) of
       (Some v, Some n) \<Rightarrow>
         let idx = int v + offset in
         if idx < 0 \<or> int n \<le> idx
         then semantic_error ''accesses an index out of bounds'' [lit what, dec_nat v, dec_int idx, dec_nat n] p
         else giveS ()
     | _ \<Rightarrow> giveS ())"

definition check_element_index :: "texpr analysis \<Rightarrow> pos \<Rightarrow> texpr analysis" where
  "check_element_index idx p = bindS idx (\<lambda>i.
     if get_type i \<noteq> TInt then semantic_error ''Array index must be int'' [] p else giveS i)"

definition validate_index :: "senv \<Rightarrow> qtype \<Rightarrow> expr \<Rightarrow> texpr analysis \<Rightarrow> string \<Rightarrow> pos \<Rightarrow> texpr analysis" where
  "validate_index E arr_t idx_expr idx not_array p =
     (if is_array_obj_type arr_t then semantic_error ''is a heap object, not a frame array'' [type_name arr_t] p
      else if \<not> is_array_type arr_t then semantic_error not_array [] p
      else bindS idx (\<lambda>i.
        if get_type i \<noteq> TInt then semantic_error ''Array index must be int'' [] p
        else case literal_int idx_expr of
          None \<Rightarrow> giveS i
        | Some v \<Rightarrow> bindS (uncaught (array_length (s_host E) arr_t)) (\<lambda>n. case n of
            Some n \<Rightarrow> if n \<le> v then semantic_error ''Array index out of bounds'' [dec_nat v, dec_nat n] p else giveS i
          | None \<Rightarrow> giveS i)))"

fun element_of :: "qtype \<Rightarrow> qtype" where
  "element_of (ArrayObjType _ _ e) = e"
| "element_of t = t"

section \<open>Struct literals\<close>

definition struct_lit_name :: "senv \<Rightarrow> pos \<Rightarrow> ustr \<Rightarrow> qtype option \<Rightarrow> ustr analysis" where
  "struct_lit_name E p name expected =
     bindS (askS (\<lambda>s. map_of (c_generic_structs s) name)) (\<lambda>g. case g of
       None \<Rightarrow> giveS name
     | Some template \<Rightarrow>
         bindS (case expected of None \<Rightarrow> giveS None
           | Some t \<Rightarrow> uncaught (generic_application (s_host E) (type_name t))) (\<lambda>app.
         if map_option fst app = Some name then giveS (case expected of Some t \<Rightarrow> type_name t | None \<Rightarrow> name)
         else chained_error ''Cannot tell what type parameters are in this literal'' (name # struct_params template) p))"

text \<open>The written fields in order, each a position, a name and the way to analyze its value.\<close>

fun literal_fields :: "struct_info \<Rightarrow> ustr list \<Rightarrow> (pos \<times> ustr \<times> (qtype option \<Rightarrow> texpr analysis)) list
    \<Rightarrow> (pos \<times> ustr \<times> texpr) list analysis" where
  "literal_fields info seen [] = giveS []"
| "literal_fields info seen ((q, n, m) # fs) =
     (if n \<in> set seen then semantic_error ''Field given twice in literal'' [n, si_name info] q
      else case field_named info n of
        None \<Rightarrow> semantic_error ''Struct has no field'' [si_name info, n] q
      | Some fld \<Rightarrow> bindS (m (Some (sf_type fld))) (\<lambda>v.
          if \<not> assignable (sf_type fld) (get_type v)
          then semantic_error ''Field expects another type'' [n, type_name (sf_type fld), type_name (get_type v)] q
          else bindS (literal_fields info (seen @ [n]) fs) (\<lambda>rest. giveS ((q, n, v) # rest))))"

definition struct_literal_type :: "senv \<Rightarrow> pos \<Rightarrow> ustr \<Rightarrow> (pos \<times> ustr \<times> (qtype option \<Rightarrow> texpr analysis)) list
    \<Rightarrow> qtype option \<Rightarrow> texpr analysis" where
  "struct_literal_type E p written fs expected =
     bindS (struct_lit_name E p written expected) (\<lambda>name.
     bindS (ensured E name p) (\<lambda>_.
     bindS (askS (\<lambda>s. map_of (c_structs s) name)) (\<lambda>info. case info of
       None \<Rightarrow> chained_error ''Unknown struct'' [name] p
     | Some info \<Rightarrow>
         bindS (literal_fields info [] fs) (\<lambda>vs.
         let missing = filter (\<lambda>n. n \<notin> set (map (fst \<circ> snd) fs)) (map sf_name (si_fields info)) in
         if missing \<noteq> [] then semantic_error ''Struct literal is missing field(s)'' (si_name info # missing) p
         else giveS (TStruct p (struct_type info) vs)))))"

section \<open>Identifiers, calls, addresses\<close>

definition identifier_expr :: "senv \<Rightarrow> scope \<Rightarrow> qtype option \<Rightarrow> pos \<Rightarrow> ustr \<Rightarrow> texpr analysis" where
  "identifier_expr E sc expected p name =
     (case scope_resolve sc name of
        Some sy \<Rightarrow> giveS (TLocal p (sym_type sy) sy)
      | None \<Rightarrow> bindS (askS (\<lambda>s. map_of (c_variants s) name)) (\<lambda>v. case v of
          Some v \<Rightarrow>
            if si_fields v \<noteq> [] then semantic_error ''Variant carries a payload'' [name] p
            else variant_construction False p name 0 (giveS [])
        | None \<Rightarrow> bindS (variant_template name) (\<lambda>template. case template of
            Some t \<Rightarrow>
              if variant_def_payload (snd t) \<noteq> [] then chained_error ''Variant carries a payload'' [name] p
              else generic_variant E False p t [] expected
          | None \<Rightarrow> bindS (askS (\<lambda>s. map_of (c_functions s) name)) (\<lambda>sig. case sig of
              Some sig \<Rightarrow>
                if sig_builtin sig then builtin_value name sig p
                else giveS (TFuncRef p (func_type (sig_params sig) (sig_ret sig)) name)
            | None \<Rightarrow> bindS (reject_variant_name p name) (\<lambda>_.
                semantic_error ''Undeclared variable'' [name] p)))))"

text \<open>The four array builtins, whose shapes their signatures do not give.\<close>

definition array_push_call :: "senv \<Rightarrow> pos \<Rightarrow> expr list \<Rightarrow> texpr analysis list \<Rightarrow> texpr analysis" where
  "array_push_call E p as ms =
     (case (as, ms) of
        ([_, len, _], [m0, m1, m2]) \<Rightarrow>
          bindS m0 (\<lambda>a. if \<not> is_array_type (get_type a)
              then semantic_error ''array_push first argument must be int[N] array'' [] p else
          bindS m1 (\<lambda>l. if get_type l \<noteq> TInt then semantic_error ''array_push length must be int'' [] p else
          bindS m2 (\<lambda>v. if get_type v \<noteq> TInt then semantic_error ''array_push value must be int'' [] p else
          bindS (check_const_length E (get_type a) len ''array_push'' 0 p) (\<lambda>_.
            giveS (TCall p TInt (lit ''array_push'') None [a, l, v])))))
      | _ \<Rightarrow> semantic_error ''array_push expects 3 arguments'' [] p)"

definition array_pop_call :: "senv \<Rightarrow> pos \<Rightarrow> expr list \<Rightarrow> texpr analysis list \<Rightarrow> texpr analysis" where
  "array_pop_call E p as ms =
     (case (as, ms) of
        ([_, len], [m0, m1]) \<Rightarrow>
          bindS m0 (\<lambda>a. if \<not> is_array_type (get_type a)
              then semantic_error ''array_pop first argument must be int[N] array'' [] p else
          bindS m1 (\<lambda>l. if get_type l \<noteq> TInt then semantic_error ''array_pop length must be int'' [] p else
          bindS (check_const_length E (get_type a) len ''array_pop'' (- 1) p) (\<lambda>_.
            giveS (TCall p TInt (lit ''array_pop'') None [a, l]))))
      | _ \<Rightarrow> semantic_error ''array_pop expects 2 arguments'' [] p)"

definition array_new_call :: "pos \<Rightarrow> texpr analysis list \<Rightarrow> qtype option \<Rightarrow> texpr analysis" where
  "array_new_call p ms expected =
     (case ms of
        [m] \<Rightarrow> bindS m (\<lambda>l.
          if get_type l \<noteq> TInt then semantic_error ''array_new length must be int'' [] p
          else case expected of
            Some t \<Rightarrow> if is_array_obj_type t then giveS (TCall p t (lit ''array_new'') None [l])
              else semantic_error ''Cannot tell what array_new builds here'' [] p
          | None \<Rightarrow> semantic_error ''Cannot tell what array_new builds here'' [] p)
      | _ \<Rightarrow> semantic_error ''array_new expects 1 argument'' [] p)"

definition array_len_call :: "pos \<Rightarrow> texpr analysis list \<Rightarrow> texpr analysis" where
  "array_len_call p ms =
     (case ms of
        [m] \<Rightarrow> bindS m (\<lambda>a.
          if \<not> is_array_obj_type (get_type a)
          then semantic_error ''array_len expects an Array<T>'' [type_name (get_type a)] p
          else giveS (TCall p TInt (lit ''array_len'') None [a]))
      | _ \<Rightarrow> semantic_error ''array_len expects 1 argument'' [] p)"

definition function_call :: "pos \<Rightarrow> ustr \<Rightarrow> texpr analysis list \<Rightarrow> texpr analysis" where
  "function_call p callee ms =
     bindS (askS (\<lambda>s. map_of (c_functions s) callee)) (\<lambda>sig. case sig of
       None \<Rightarrow> bindS (reject_variant_name p callee) (\<lambda>_. semantic_error ''Call to undeclared function'' [callee] p)
     | Some sig \<Rightarrow>
         if length ms \<noteq> length (sig_params sig)
         then semantic_error ''Function expects args, got'' [callee, dec_nat (length (sig_params sig)), dec_nat (length ms)] p
         else bindS (check_args (\<lambda>wanted got _. semantic_error ''Argument type mismatch'' [wanted, got] p) ms (sig_params sig)) (\<lambda>as.
           giveS (TCall p (sig_ret sig) callee None as)))"

definition call :: "senv \<Rightarrow> scope \<Rightarrow> qtype option \<Rightarrow> pos \<Rightarrow> ustr \<Rightarrow> expr list \<Rightarrow> texpr analysis list
    \<Rightarrow> texpr analysis option \<Rightarrow> ustr list \<Rightarrow> texpr analysis" where
  "call E sc expected p callee as ms receiver type_args =
     (case receiver of
        Some r \<Rightarrow> receiver_call p callee r ms
      | None \<Rightarrow>
          if callee = lit ''array_push'' then array_push_call E p as ms
          else if callee = lit ''array_new'' then array_new_call p ms expected
          else if callee = lit ''array_len'' then array_len_call p ms
          else if callee = lit ''array_pop'' then array_pop_call E p as ms
          else case scope_resolve sc callee of
            Some local \<Rightarrow> indirect_call p callee local ms
          | None \<Rightarrow> bindS (askS (\<lambda>s. map_of (c_generic_functions s) callee)) (\<lambda>g. case g of
              Some template \<Rightarrow> generic_call E p callee template ms type_args expected
            | None \<Rightarrow> bindS (variant_template callee) (\<lambda>template. case template of
                Some t \<Rightarrow> generic_variant E True p t ms expected
              | None \<Rightarrow>
                  if type_args \<noteq> [] then chained_error ''takes no type arguments'' [callee] p
                  else bindS (askS (\<lambda>s. callee \<in> fst ` set (c_variants s))) (\<lambda>is_variant.
                    if is_variant then variant_construction True p callee (length ms) (mapS (\<lambda>m. m) ms)
                    else function_call p callee ms))))"

definition address_of_local :: "scope \<Rightarrow> pos \<Rightarrow> pos \<Rightarrow> ustr \<Rightarrow> texpr analysis" where
  "address_of_local sc p q name =
     (case scope_resolve sc name of
        None \<Rightarrow> semantic_error ''Undeclared variable'' [name] q
      | Some sy \<Rightarrow>
          if is_reference_type (sym_type sy)
          then semantic_error ''Cannot take the address: it holds a reference'' [name, type_name (sym_type sy)] q
          else if sym_type sy = TFloat then semantic_error ''Cannot take the address: a float is two slots wide'' [name] q
          else giveS (TAddrLocal p q TPtr sy))"

definition field_access :: "pos \<Rightarrow> ustr \<Rightarrow> texpr \<Rightarrow> texpr analysis" where
  "field_access p name obj =
     (if \<not> is_struct_type (get_type obj)
      then semantic_error ''Field access requires a struct value'' [type_name (get_type obj)] p
      else bindS (askS (\<lambda>s. map_of (c_structs s) (type_name (get_type obj)))) (\<lambda>info. case info of
        None \<Rightarrow> raiseS (SemaKeyError (type_name (get_type obj)))
      | Some info \<Rightarrow> (case field_named info name of
          None \<Rightarrow> semantic_error ''Struct has no field'' [si_name info, name] p
        | Some fld \<Rightarrow> giveS (TField p (sf_type fld) obj name))))"

section \<open>Expressions\<close>

fun analyze_expr :: "senv \<Rightarrow> scope \<Rightarrow> qtype option \<Rightarrow> expr \<Rightarrow> texpr analysis" where
  "analyze_expr E sc expected (Literal p v) = giveS (TLit p (literal_type v) v)"
| "analyze_expr E sc expected (Identifier p name) = identifier_expr E sc expected p name"
| "analyze_expr E sc expected (Unary p o' r) =
     bindS (analyze_expr E sc None r) (\<lambda>a.
     bindS (unary_type p o' (get_type a)) (\<lambda>t. giveS (TUnary p t o' a)))"
| "analyze_expr E sc expected (Binary p l o' r) =
     bindS (analyze_expr E sc None l) (\<lambda>a.
     bindS (analyze_expr E sc None r) (\<lambda>b.
     bindS (binary_type p o' (get_type a) (get_type b)) (\<lambda>t. giveS (TBinary p t a o' b))))"
| "analyze_expr E sc expected (Index p arr idx) =
     bindS (analyze_expr E sc None arr) (\<lambda>a.
       if is_array_obj_type (get_type a) then
         bindS (check_element_index (analyze_expr E sc None idx) p) (\<lambda>i.
           giveS (TIndex p (element_of (get_type a)) a i))
       else
         bindS (validate_index E (get_type a) idx (analyze_expr E sc None idx) ''Indexing requires int[N] array'' p) (\<lambda>i.
           giveS (TIndex p TInt a i)))"
| "analyze_expr E sc expected (AddressOf p target) =
     (case target of
        Identifier q name \<Rightarrow> address_of_local sc p q name
      | Index q arr idx \<Rightarrow>
          bindS (analyze_expr E sc None arr) (\<lambda>a.
          bindS (validate_index E (get_type a) idx (analyze_expr E sc None idx)
              ''Can only take address of int[N] array elements'' q) (\<lambda>i.
            giveS (TAddrIndex p TPtr a i)))
      | _ \<Rightarrow> semantic_error ''Can only take address of variables or array elements'' [] p)"
| "analyze_expr E sc expected (FieldAccess p obj name) =
     bindS (analyze_expr E sc None obj) (field_access p name)"
| "analyze_expr E sc expected (StructLit p name fs) =
     struct_literal_type E p name
       (map (\<lambda>f. case f of FieldInit q n v \<Rightarrow> (q, n, \<lambda>ex. analyze_expr E sc ex v)) fs) expected"
| "analyze_expr E sc expected (Call p callee as receiver type_args) =
     call E sc expected p callee as (map (analyze_expr E sc None) as)
       (map_option (analyze_expr E sc None) receiver) type_args"

end
