(* ===== verification/SemaStmt.thy ===== *)
theory SemaStmt
  imports SemaExpr
begin

text \<open>
  \<open>compiler/sema.py\<close>, third part: statements, functions, declarations and the whole program. A
  statement is analyzed in a scope and gives the scope back, since a declaration extends it.
\<close>

type_synonym 'a scoped = "scope \<Rightarrow> ('a \<times> scope) analysis"

section \<open>Simple statements\<close>

text \<open>The type and the initializer of a declaration.\<close>

definition declared_type :: "senv \<Rightarrow> pos \<Rightarrow> ustr \<Rightarrow> ustr option \<Rightarrow> (qtype option \<Rightarrow> texpr analysis) option
    \<Rightarrow> (qtype \<times> texpr option) analysis" where
  "declared_type E p name written init =
     bindS (case written of None \<Rightarrow> giveS None | Some w \<Rightarrow> bindS (resolve_type E w p) (\<lambda>t. giveS (Some t))) (\<lambda>var_type.
     case init of
       None \<Rightarrow> (case var_type of
         None \<Rightarrow> semantic_error ''Cannot infer type without initializer'' [name] p
       | Some t \<Rightarrow> giveS (t, None))
     | Some m \<Rightarrow> bindS (m var_type) (\<lambda>v.
         bindS (case var_type of
             None \<Rightarrow> if get_type v = TNull then semantic_error ''Cannot infer type from null'' [name] p
               else giveS (get_type v)
           | Some t \<Rightarrow> if assignable t (get_type v) then giveS t
               else semantic_error ''Type mismatch in initializer'' [name, type_name t, type_name (get_type v)] p) (\<lambda>t.
         if is_array_type t then semantic_error ''Array variable cannot have an initializer'' [name] p
         else giveS (t, Some v))))"

definition analyze_var_decl :: "senv \<Rightarrow> pos \<Rightarrow> ustr \<Rightarrow> ustr option \<Rightarrow> (qtype option \<Rightarrow> texpr analysis) option \<Rightarrow> tstmt scoped" where
  "analyze_var_decl E p name written init sc =
     bindS (declared_type E p name written init) (\<lambda>(t, v).
     bindS (declare_symbol sc name t p) (\<lambda>(sy, sc'). giveS (SVarDecl p sy v, sc')))"

definition assign_local :: "scope \<Rightarrow> pos \<Rightarrow> pos \<Rightarrow> ustr \<Rightarrow> (qtype option \<Rightarrow> texpr analysis) \<Rightarrow> tstmt analysis" where
  "assign_local sc p q name val =
     (case scope_resolve sc name of
        None \<Rightarrow> semantic_error ''Undeclared variable'' [name] q
      | Some sy \<Rightarrow>
          if is_array_type (sym_type sy) then semantic_error ''Cannot assign to array variable as a whole'' [name] q
          else bindS (val (Some (sym_type sy))) (\<lambda>v.
            if \<not> assignable (sym_type sy) (get_type v)
            then semantic_error ''Cannot assign to variable'' [type_name (get_type v), type_name (sym_type sy), name] q
            else giveS (SAssignVar p q sy v)))"

definition assign_index :: "senv \<Rightarrow> pos \<Rightarrow> pos \<Rightarrow> texpr analysis \<Rightarrow> expr \<Rightarrow> texpr analysis
    \<Rightarrow> (qtype option \<Rightarrow> texpr analysis) \<Rightarrow> tstmt analysis" where
  "assign_index E p q arr idx_expr idx val =
     bindS arr (\<lambda>a.
       if is_array_obj_type (get_type a) then
         bindS (check_element_index idx q) (\<lambda>i.
         bindS (val (Some (element_of (get_type a)))) (\<lambda>v.
           if \<not> assignable (element_of (get_type a)) (get_type v)
           then semantic_error ''Cannot assign to an element'' [type_name (get_type v), type_name (get_type a)] p
           else giveS (SAssignIndex p q a i v)))
       else
         bindS (validate_index E (get_type a) idx_expr idx ''Index target must be an int[N] array'' q) (\<lambda>i.
         bindS (val None) (\<lambda>v.
           if get_type v \<noteq> TInt then semantic_error ''Array elements must be int'' [] p
           else giveS (SAssignIndex p q a i v))))"

definition assign_field :: "pos \<Rightarrow> pos \<Rightarrow> texpr analysis \<Rightarrow> ustr \<Rightarrow> (qtype option \<Rightarrow> texpr analysis) \<Rightarrow> tstmt analysis" where
  "assign_field p q obj name val =
     bindS obj (\<lambda>ob.
     bindS (field_access q name ob) (\<lambda>target.
     bindS (val (Some (get_type target))) (\<lambda>v.
       if \<not> assignable (get_type target) (get_type v)
       then semantic_error ''Cannot assign to field'' [type_name (get_type v), name, type_name (get_type target)] q
       else giveS (SAssignField p q ob name v))))"

definition analyze_assign :: "senv \<Rightarrow> pos \<Rightarrow> expr \<Rightarrow> expr \<Rightarrow> scope \<Rightarrow> tstmt analysis" where
  "analyze_assign E p target v sc =
     (let val = (\<lambda>ex. analyze_expr E sc ex v) in
      case target of
        Identifier q name \<Rightarrow> assign_local sc p q name val
      | Index q arr idx \<Rightarrow> assign_index E p q (analyze_expr E sc None arr) idx (analyze_expr E sc None idx) val
      | FieldAccess q obj name \<Rightarrow> assign_field p q (analyze_expr E sc None obj) name val
      | _ \<Rightarrow> semantic_error ''Invalid assignment target'' [] p)"

definition analyze_print :: "(pos \<Rightarrow> texpr \<Rightarrow> tstmt) \<Rightarrow> pos \<Rightarrow> texpr analysis \<Rightarrow> tstmt analysis" where
  "analyze_print node p val = bindS val (\<lambda>v.
     if get_type v \<notin> {TInt, TStr, TBool, TFloat}
     then semantic_error ''print/println expect int, float, str, or bool'' [type_name (get_type v)] p
     else giveS (node p v))"

definition warn :: "string \<Rightarrow> ustr list \<Rightarrow> pos \<Rightarrow> unit analysis" where
  "warn m args p = updS (\<lambda>s. s\<lparr>c_warnings := c_warnings s @ [\<lparr>d_message = m, d_args = args, d_pos = p\<rparr>]\<rparr>)"

text \<open>A constant that main returns and an exit code cannot carry.\<close>

definition check_exit_code :: "expr \<Rightarrow> unit analysis" where
  "check_exit_code v =
     (case const_int v of
        None \<Rightarrow> giveS ()
      | Some r \<Rightarrow>
          if 0 \<le> r \<and> r \<le> EXIT_CODE_MAX then giveS ()
          else warn ''main returns a value an exit code does not carry'' [dec_int r, dec_int (r mod 256)] (expr_pos v))"

definition analyze_return :: "qtype \<Rightarrow> pos \<Rightarrow> expr option \<Rightarrow> (qtype option \<Rightarrow> texpr analysis) option \<Rightarrow> tstmt analysis" where
  "analyze_return ret p v m =
     (if ret = TVoid \<and> m \<noteq> None then semantic_error ''Void function cannot return a value'' [] p
      else case (v, m) of
        (Some e, Some m) \<Rightarrow> bindS (m (Some ret)) (\<lambda>x.
          if \<not> assignable ret (get_type x)
          then semantic_error ''Return type mismatch'' [type_name ret, type_name (get_type x)] p
          else bindS (askS c_function) (\<lambda>f.
            bindS (if f = lit ''main'' \<and> ret = TInt then check_exit_code e else giveS ()) (\<lambda>_.
              giveS (SReturn p (Some x)))))
      | _ \<Rightarrow> if ret \<noteq> TVoid then semantic_error ''Expected return value'' [type_name ret] p
             else giveS (SReturn p None))"

definition condition_of :: "string \<Rightarrow> pos \<Rightarrow> texpr analysis \<Rightarrow> texpr analysis" where
  "condition_of m p cond = bindS cond (\<lambda>c.
     if get_type c \<noteq> TBool then semantic_error m [] p else giveS c)"

section \<open>Blocks\<close>

fun run_stmts :: "tstmt scoped list \<Rightarrow> scope \<Rightarrow> (tstmt list \<times> scope) analysis" where
  "run_stmts [] sc = giveS ([], sc)"
| "run_stmts (m # ms) sc = bindS (m sc) (\<lambda>(st, sc1). bindS (run_stmts ms sc1) (\<lambda>(sts, sc2). giveS (st # sts, sc2)))"

text \<open>A block in a scope of its own, with the references that scope declares.\<close>

definition run_block :: "tstmt scoped list \<Rightarrow> scope \<Rightarrow> (tstmt list \<times> symbol list) analysis" where
  "run_block ms sc = bindS (run_stmts ms ([] # sc)) (\<lambda>(sts, sc'). giveS (sts, scope_refs sc'))"

text \<open>The body of a loop.\<close>

definition run_loop :: "tstmt scoped list \<Rightarrow> scope \<Rightarrow> (tstmt list \<times> symbol list) analysis" where
  "run_loop ms sc =
     bindS (updS (\<lambda>s. s\<lparr>c_loop_depth := c_loop_depth s + 1\<rparr>)) (\<lambda>_.
     bindS (run_block ms sc) (\<lambda>r.
     bindS (updS (\<lambda>s. s\<lparr>c_loop_depth := c_loop_depth s - 1\<rparr>)) (\<lambda>_. giveS r)))"

definition analyze_for :: "senv \<Rightarrow> pos \<Rightarrow> tstmt scoped option \<Rightarrow> expr option \<Rightarrow> tstmt scoped option \<Rightarrow> tstmt scoped list
    \<Rightarrow> scope \<Rightarrow> tstmt analysis" where
  "analyze_for E p init cond st body sc =
     bindS (case init of None \<Rightarrow> giveS (None, [] # sc)
       | Some m \<Rightarrow> bindS (m ([] # sc)) (\<lambda>(i, sc1). giveS (Some i, sc1))) (\<lambda>(init', sc1).
     bindS (case cond of None \<Rightarrow> giveS None
       | Some c \<Rightarrow> bindS (condition_of ''For condition must be bool'' p (analyze_expr E sc1 None c)) (\<lambda>c'. giveS (Some c'))) (\<lambda>cond'.
     bindS (case st of None \<Rightarrow> giveS (None, sc1)
       | Some m \<Rightarrow> bindS (m sc1) (\<lambda>(x, sc2). giveS (Some x, sc2))) (\<lambda>(st', sc2).
     bindS (run_loop body sc2) (\<lambda>(b, refs). giveS (SFor p init' cond' st' b refs (scope_refs sc2))))))"

section \<open>Match\<close>

definition arm_target :: "host_text \<Rightarrow> enum_info \<Rightarrow> pos \<Rightarrow> ustr \<Rightarrow> variant_info analysis" where
  "arm_target H info p written =
     bindS (case variant_named info written of Some v \<Rightarrow> giveS (Some v) | None \<Rightarrow> variant_by_short_name H info written) (\<lambda>v.
     case v of
       Some v \<Rightarrow> giveS v
     | None \<Rightarrow> bindS (askS (\<lambda>s. written \<in> fst ` set (c_variants s))) (\<lambda>known.
         if known then semantic_error ''is not a variant of'' [written, ei_name info] p
         else bindS (reject_variant_name p written) (\<lambda>_. semantic_error ''Enum has no variant'' [ei_name info, written] p)))"

fun bind_payload :: "pos \<Rightarrow> (ustr \<times> struct_field) list \<Rightarrow> scope \<Rightarrow> (symbol list \<times> scope) analysis" where
  "bind_payload p [] sc = giveS ([], sc)"
| "bind_payload p ((name, fld) # ps) sc = bindS (declare_symbol sc name (sf_type fld) p) (\<lambda>(sy, sc1).
     bindS (bind_payload p ps sc1) (\<lambda>(sys, sc2). giveS (sy # sys, sc2)))"

type_synonym arm = "pos \<times> ustr option \<times> ustr list \<times> tstmt scoped list"

text \<open>One arm: its variant if it names one, with the names covered so far.\<close>

definition run_arm :: "host_text \<Rightarrow> enum_info \<Rightarrow> scope \<Rightarrow> ustr list \<Rightarrow> arm \<Rightarrow> (tarm \<times> ustr list) analysis" where
  "run_arm H info sc covered a =
     (case a of (p, written, bindings, body) \<Rightarrow>
     bindS (case written of
         None \<Rightarrow> giveS None
       | Some w \<Rightarrow> bindS (arm_target H info p w) (\<lambda>v.
           if short_name v \<in> set covered then semantic_error ''Variant is matched twice'' [w] p
           else if length bindings \<noteq> length (si_fields v)
           then semantic_error ''Variant carries another number of values than the arm binds''
             [si_name v, dec_nat (length (si_fields v)), dec_nat (length bindings)] p
           else giveS (Some v))) (\<lambda>variant.
     bindS (case variant of None \<Rightarrow> giveS ([], [] # sc)
       | Some v \<Rightarrow> bind_payload p (zip bindings (si_fields v)) ([] # sc)) (\<lambda>(bound, sc1).
     bindS (run_stmts body sc1) (\<lambda>(b, sc2).
       giveS (TArm p variant bound b (scope_refs sc2),
         case variant of None \<Rightarrow> covered | Some v \<Rightarrow> covered @ [short_name v])))))"

fun run_arms :: "host_text \<Rightarrow> enum_info \<Rightarrow> scope \<Rightarrow> ustr list \<Rightarrow> pos option \<Rightarrow> arm list
    \<Rightarrow> (tarm list \<times> ustr list \<times> pos option) analysis" where
  "run_arms H info sc covered catch_all [] = giveS ([], covered, catch_all)"
| "run_arms H info sc covered catch_all (a # as) =
     (if catch_all \<noteq> None then semantic_error ''Arm comes after _, so it can never match''
        [case fst (snd a) of None \<Rightarrow> lit ''_'' | Some w \<Rightarrow> w] (fst a)
      else bindS (run_arm H info sc covered a) (\<lambda>(t, covered1).
        bindS (run_arms H info sc covered1 (if fst (snd a) = None then Some (fst a) else None) as) (\<lambda>(ts, r).
          giveS (t # ts, r))))"

definition analyze_match :: "senv \<Rightarrow> pos \<Rightarrow> texpr analysis \<Rightarrow> arm list \<Rightarrow> scope \<Rightarrow> tstmt analysis" where
  "analyze_match E p subject arms sc =
     bindS subject (\<lambda>x.
     if \<not> is_enum_type (get_type x) then semantic_error ''match requires an enum'' [type_name (get_type x)] p
     else bindS (askS (\<lambda>s. map_of (c_enums s) (type_name (get_type x)))) (\<lambda>info. case info of
       None \<Rightarrow> raiseS (SemaKeyError (type_name (get_type x)))
     | Some info \<Rightarrow>
         bindS (run_arms (s_host E) info sc [] None arms) (\<lambda>(ts, covered, catch_all).
         let missing = filter (\<lambda>n. n \<notin> set covered) (map short_name (ei_variants info)) in
         if catch_all = None \<and> missing \<noteq> []
         then semantic_error ''match does not cover'' (ei_name info # missing) p
         else bindS (case catch_all of
             Some q \<Rightarrow> if missing = [] then warn ''_ covers no remaining variant'' [ei_name info] q else giveS ()
           | None \<Rightarrow> giveS ()) (\<lambda>_. giveS (SMatch p x ts)))))"

section \<open>Statements\<close>

definition in_scope :: "scope \<Rightarrow> tstmt analysis \<Rightarrow> (tstmt \<times> scope) analysis" where
  "in_scope sc m = bindS m (\<lambda>st. giveS (st, sc))"

definition in_loop :: "string \<Rightarrow> pos \<Rightarrow> tstmt \<Rightarrow> tstmt analysis" where
  "in_loop m p st = bindS (askS c_loop_depth) (\<lambda>d. if d = 0 then semantic_error m [] p else giveS st)"

fun analyze_stmt :: "senv \<Rightarrow> qtype \<Rightarrow> stmt \<Rightarrow> tstmt scoped" and analyze_arm :: "senv \<Rightarrow> qtype \<Rightarrow> match_arm \<Rightarrow> arm" where
  "analyze_stmt E ret (VarDecl p name written init) sc =
     analyze_var_decl E p name written (map_option (\<lambda>e ex. analyze_expr E sc ex e) init) sc"
| "analyze_stmt E ret (Assign p target v) sc = in_scope sc (analyze_assign E p target v sc)"
| "analyze_stmt E ret (Print p v) sc = in_scope sc (analyze_print SPrint p (analyze_expr E sc None v))"
| "analyze_stmt E ret (PrintLn p v) sc = in_scope sc (analyze_print SPrintLn p (analyze_expr E sc None v))"
| "analyze_stmt E ret (Return p v) sc =
     in_scope sc (analyze_return ret p v (map_option (\<lambda>e ex. analyze_expr E sc ex e) v))"
| "analyze_stmt E ret (If p cond then_block else_block) sc = in_scope sc (
     bindS (condition_of ''If condition must be bool'' p (analyze_expr E sc None cond)) (\<lambda>c.
     bindS (run_block (map (analyze_stmt E ret) then_block) sc) (\<lambda>(t, refs).
     case else_block of
       None \<Rightarrow> giveS (SIf p c t refs None)
     | Some b \<Rightarrow>
         if b = [] then giveS (SIf p c t refs None)
         else bindS (run_block (map (analyze_stmt E ret) b) sc) (\<lambda>e. giveS (SIf p c t refs (Some e))))))"
| "analyze_stmt E ret (Match p subject arms) sc =
     in_scope sc (analyze_match E p (analyze_expr E sc None subject) (map (analyze_arm E ret) arms) sc)"
| "analyze_stmt E ret (While p cond body) sc = in_scope sc (
     bindS (condition_of ''While condition must be bool'' p (analyze_expr E sc None cond)) (\<lambda>c.
     bindS (run_loop (map (analyze_stmt E ret) body) sc) (\<lambda>(b, refs). giveS (SWhile p c b refs))))"
| "analyze_stmt E ret (For p init cond st body) sc = in_scope sc (
     analyze_for E p (map_option (analyze_stmt E ret) init) cond (map_option (analyze_stmt E ret) st)
       (map (analyze_stmt E ret) body) sc)"
| "analyze_stmt E ret (Block p ss) sc = in_scope sc (
     bindS (run_block (map (analyze_stmt E ret) ss) sc) (\<lambda>(b, refs). giveS (SBlock p b refs)))"
| "analyze_stmt E ret (Break p) sc = in_scope sc (in_loop ''break outside of a loop'' p (SBreak p))"
| "analyze_stmt E ret (Continue p) sc = in_scope sc (in_loop ''continue outside of a loop'' p (SContinue p))"
| "analyze_stmt E ret (ExprStmt p e) sc = in_scope sc (bindS (analyze_expr E sc None e) (\<lambda>x. giveS (SExpr p x)))"
| "analyze_stmt E ret (VmAsm p src) sc = in_scope sc (giveS (SVmAsm p src (visible sc)))"
| "analyze_arm E ret (MatchArm p written bindings body) = (p, written, bindings, map (analyze_stmt E ret) body)"

end
