(* ===== verification/Analyze.thy ===== *)
theory Analyze
  imports SemaStmt
begin

text \<open>
  \<open>compiler/sema.py\<close>, last part: functions, the registration of declarations, the entry point, and the
  worklist of instantiated bodies, whose length is not bounded by the program and takes fuel.
\<close>

section \<open>Functions\<close>

text \<open>Whether a statement cannot be continued past.\<close>

primrec always_returns :: "stmt \<Rightarrow> bool" and arm_returns :: "match_arm \<Rightarrow> bool" where
  "always_returns (Return p v) = True"
| "always_returns (ExprStmt p e) = (case e of Call _ callee _ _ _ \<Rightarrow> callee = lit ''panic'' | _ \<Rightarrow> False)"
| "always_returns (Block p ss) = list_ex id (map always_returns ss)"
| "always_returns (If p c t e) = (list_ex id (map always_returns t) \<and>
     (case map_option (map always_returns) e of None \<Rightarrow> False | Some bs \<Rightarrow> bs \<noteq> [] \<and> list_ex id bs))"
| "always_returns (Match p s arms) = list_all id (map arm_returns arms)"
| "always_returns (While p c b) = False"
| "always_returns (For p i c s b) = False"
| "always_returns (VarDecl p n t i) = False"
| "always_returns (Assign p a b) = False"
| "always_returns (Print p e) = False"
| "always_returns (PrintLn p e) = False"
| "always_returns (VmAsm p c) = False"
| "always_returns (Break p) = False"
| "always_returns (Continue p) = False"
| "arm_returns (MatchArm p v bs b) = list_ex id (map always_returns b)"

fun declare_params :: "scope \<Rightarrow> (param \<times> qtype) list \<Rightarrow> scope analysis" where
  "declare_params sc [] = giveS sc"
| "declare_params sc ((Param p name written, t) # ps) =
     bindS (declare_symbol sc name t p) (\<lambda>(sy, sc1). declare_params sc1 ps)"

fun analyze_function :: "senv \<Rightarrow> function_def \<Rightarrow> tfunction analysis" where
  "analyze_function E (Function p name params written body tps src) =
     bindS (askS (\<lambda>s. map_of (c_functions s) name)) (\<lambda>sig. case sig of
       None \<Rightarrow> raiseS (SemaKeyError name)
     | Some sig \<Rightarrow>
         bindS (updS (\<lambda>s. s\<lparr>c_frame := [], c_loop_depth := 0, c_function := name, c_file := src\<rparr>)) (\<lambda>_.
         bindS (declare_params [[]] (zip params (sig_params sig))) (\<lambda>sc.
         bindS (run_stmts (map (analyze_stmt E (sig_ret sig)) body) sc) (\<lambda>(sts, _).
         if sig_ret sig \<noteq> TVoid \<and> \<not> list_ex always_returns body
         then semantic_error ''Function missing return statement'' [name] p
         else bindS (askS c_frame) (\<lambda>fr.
           bindS (updS (\<lambda>s. s\<lparr>c_frame := []\<rparr>)) (\<lambda>_.
             giveS \<lparr>tf_pos = p, tf_name = name, tf_file = src, tf_params = length params, tf_frame = fr, tf_body = sts\<rparr>))))))"

definition emit_function :: "tfunction \<Rightarrow> unit analysis" where
  "emit_function f = updS (\<lambda>s. s\<lparr>c_emit := c_emit s @ [f]\<rparr>)"

text \<open>An error without notes gets the chain of the body it was found in.\<close>

definition with_chain :: "chain_note list \<Rightarrow> 'a analysis \<Rightarrow> 'a analysis" where
  "with_chain chain m s = (case m s of
     Inl (SemanticError msg args p notes) \<Rightarrow> Inl (SemanticError msg args p (if notes = [] then chain else notes))
   | r \<Rightarrow> r)"

definition drain_one :: "senv \<Rightarrow> function_def \<Rightarrow> chain_note list \<Rightarrow> unit analysis" where
  "drain_one E clone chain =
     bindS (askS c_chain) (\<lambda>outer.
     bindS (updS (\<lambda>s. s\<lparr>c_chain := chain\<rparr>)) (\<lambda>_.
     bindS (with_chain chain (analyze_function E clone)) (\<lambda>f.
     bindS (updS (\<lambda>s. s\<lparr>c_chain := outer\<rparr>)) (\<lambda>_. emit_function f))))"

fun drain_instantiations :: "nat \<Rightarrow> senv \<Rightarrow> unit analysis" where
  "drain_instantiations 0 E s = Inl SemaFuel"
| "drain_instantiations (Suc n) E s =
     (case c_pending s of
        [] \<Rightarrow> Inr ((), s)
      | (clone, chain) # rest \<Rightarrow>
          bindS (drain_one E clone chain) (\<lambda>_. drain_instantiations n E) (s\<lparr>c_pending := rest\<rparr>))"

section \<open>Declarations\<close>

definition builtin_type_name :: "ustr \<Rightarrow> bool" where
  "builtin_type_name n \<longleftrightarrow> n \<in> fst ` set BUILTIN_TYPES"

fun register_struct :: "struct_def \<Rightarrow> unit analysis" where
  "register_struct (StructDef p name fds tps) =
     (if tps \<noteq> [] then
        bindS (askS (\<lambda>s. name \<in> fst ` set (c_generic_structs s))) (\<lambda>known.
          if known then semantic_error ''Redefinition of struct'' [name] p
          else updS (\<lambda>s. s\<lparr>c_generic_structs := dict_set name (StructDef p name fds tps) (c_generic_structs s)\<rparr>))
      else
        bindS (askS (\<lambda>s. name \<in> fst ` set (c_structs s))) (\<lambda>known.
          if known then semantic_error ''Redefinition of struct'' [name] p
          else if builtin_type_name name then semantic_error ''Struct shadows a built-in type'' [name] p
          else if fds = [] then semantic_error ''Struct must declare at least one field'' [name] p
          else updS (\<lambda>s. s\<lparr>c_structs := dict_set name
            \<lparr>si_name = name, type_id = length (c_structs s), si_fields = []\<rparr> (c_structs s)\<rparr>)))"

fun complete_struct :: "senv \<Rightarrow> struct_def \<Rightarrow> unit analysis" where
  "complete_struct E (StructDef p name fds tps) =
     (if tps \<noteq> [] then giveS ()
      else bindS (struct_fields (resolve_type E) (StructDef p name fds tps) name) (set_struct_fields name))"

definition register_structs :: "senv \<Rightarrow> program_ast \<Rightarrow> unit analysis" where
  "register_structs E prog =
     bindS (forS (structs_of prog) register_struct) (\<lambda>_. forS (structs_of prog) (complete_struct E))"

fun register_variants :: "ustr \<Rightarrow> nat \<Rightarrow> variant_def list \<Rightarrow> unit analysis" where
  "register_variants e i [] = giveS ()"
| "register_variants e i (VariantDef p name payload # vds) =
     bindS (askS (\<lambda>s. qualify e name \<in> fst ` set (c_variants s))) (\<lambda>known.
       if known then semantic_error ''Enum declares a variant twice'' [e, name] p
       else bindS (add_variant e i (VariantDef p name payload)) (\<lambda>_. register_variants e (i + 1) vds))"

fun register_enum :: "enum_def \<Rightarrow> unit analysis" where
  "register_enum (EnumDef p name vds tps) =
     (if tps \<noteq> [] then
        bindS (askS (\<lambda>s. name \<in> fst ` set (c_generic_enums s))) (\<lambda>known.
          if known then semantic_error ''Redefinition of enum'' [name] p
          else updS (\<lambda>s. s\<lparr>c_generic_enums := dict_set name (EnumDef p name vds tps) (c_generic_enums s)\<rparr>))
      else
        bindS (askS (\<lambda>s. (name \<in> fst ` set (c_enums s), name \<in> fst ` set (c_structs s)))) (\<lambda>(known, clash).
          if known then semantic_error ''Redefinition of enum'' [name] p
          else if clash then semantic_error ''Enum clashes with the struct of the same name'' [name] p
          else if builtin_type_name name then semantic_error ''Enum shadows a built-in type'' [name] p
          else if vds = [] then semantic_error ''Enum must declare at least one variant'' [name] p
          else bindS (updS (\<lambda>s. s\<lparr>c_enums := dict_set name \<lparr>ei_name = name, ei_variants = []\<rparr> (c_enums s)\<rparr>)) (\<lambda>_.
            register_variants name 0 vds)))"

fun complete_enum :: "senv \<Rightarrow> enum_def \<Rightarrow> unit analysis" where
  "complete_enum E (EnumDef p name vds tps) =
     (if tps \<noteq> [] then giveS () else fill_variants (resolve_type E) name 0 vds)"

definition register_enums :: "senv \<Rightarrow> program_ast \<Rightarrow> unit analysis" where
  "register_enums E prog =
     bindS (forS (enums_of prog) register_enum) (\<lambda>_. forS (enums_of prog) (complete_enum E))"

section \<open>Signatures\<close>

definition register_builtin :: "senv \<Rightarrow> ustr \<times> builtin_sig \<Rightarrow> unit analysis" where
  "register_builtin E b =
     (case b of (name, ps, r) \<Rightarrow>
     bindS (askS (\<lambda>s. name \<in> fst ` set (c_functions s))) (\<lambda>known.
       if known then giveS ()
       else bindS (uncaught (mapR (type_from_name (s_host E) Map.empty Map.empty) ps)) (\<lambda>params.
         bindS (uncaught (type_from_name (s_host E) Map.empty Map.empty r)) (\<lambda>ret.
         updS (\<lambda>s. s\<lparr>c_functions := dict_set name
           \<lparr>sig_name = name, sig_params = params, sig_ret = ret, sig_builtin = True\<rparr> (c_functions s)\<rparr>)))))"

definition param_signature :: "senv \<Rightarrow> ustr \<Rightarrow> param \<Rightarrow> qtype analysis" where
  "param_signature E fname q =
     bindS (resolve_type E (param_type q) (param_pos q)) (\<lambda>t.
       if is_array_type t then semantic_error ''Array types are not supported for parameters'' [param_name q] (param_pos q)
       else if is_frame_relative t then semantic_error ''ptr is not a parameter type'' [param_name q, fname] (param_pos q)
       else giveS t)"

fun register_function :: "senv \<Rightarrow> function_def \<Rightarrow> unit analysis" where
  "register_function E (Function p name params written body tps src) =
     (if tps \<noteq> [] then
        bindS (askS (\<lambda>s. name \<in> fst ` set (c_generic_functions s) \<or> name \<in> fst ` set (c_functions s))) (\<lambda>known.
          if known then semantic_error ''Redefinition of function'' [name] p
          else updS (\<lambda>s. s\<lparr>c_generic_functions :=
            dict_set name (Function p name params written body tps src) (c_generic_functions s)\<rparr>))
      else
        bindS (askS (\<lambda>s. name \<in> fst ` set (c_generic_functions s))) (\<lambda>generic.
        if generic then semantic_error ''Redefinition of function'' [name] p else
        bindS (mapS (param_signature E name) params) (\<lambda>pts.
        bindS (case written of None \<Rightarrow> giveS TVoid | Some w \<Rightarrow> resolve_type E w p) (\<lambda>ret.
        if is_array_type ret then semantic_error ''Function cannot return an array type'' [name] p
        else if is_frame_relative ret then semantic_error ''Function cannot return a ptr'' [name] p
        else bindS (askS (\<lambda>s. name \<in> fst ` set (c_functions s))) (\<lambda>known.
          if known then semantic_error ''Redefinition of function'' [name] p
          else updS (\<lambda>s. s\<lparr>c_functions := dict_set name
            \<lparr>sig_name = name, sig_params = pts, sig_ret = ret, sig_builtin = False\<rparr> (c_functions s)\<rparr>))))))"

definition check_entry_point :: "program_ast \<Rightarrow> unit analysis" where
  "check_entry_point prog =
     bindS (askS (\<lambda>s. map_of (c_generic_functions s) (lit ''main''))) (\<lambda>generic. case generic of
       Some node \<Rightarrow> semantic_error ''Entry point main must not be generic'' [] (fn_pos node)
     | None \<Rightarrow> bindS (askS (\<lambda>s. map_of (c_functions s) (lit ''main''))) (\<lambda>sig. case sig of
         None \<Rightarrow> semantic_error ''Missing entry point main'' [] (0, 0)
       | Some sig \<Rightarrow>
           let p = (case find (\<lambda>f. fndef_name f = lit ''main'') (functions_of prog) of None \<Rightarrow> (0, 0) | Some f \<Rightarrow> fn_pos f) in
           if sig_params sig \<noteq> [] then semantic_error ''Entry point main must not take parameters'' [] p
           else if sig_ret sig \<noteq> TInt \<and> sig_ret sig \<noteq> TVoid
           then semantic_error ''Entry point main must return int or void'' [type_name (sig_ret sig)] p
           else giveS ()))"

section \<open>Programs\<close>

definition analyze_declared :: "senv \<Rightarrow> function_def \<Rightarrow> unit analysis" where
  "analyze_declared E f =
     (if fn_type_params f \<noteq> [] then giveS () else bindS (analyze_function E f) emit_function)"

definition analyze :: "senv \<Rightarrow> program_ast \<Rightarrow> unit analysis" where
  "analyze E prog =
     bindS (register_structs E prog) (\<lambda>_.
     bindS (register_enums E prog) (\<lambda>_.
     bindS (forS get_builtins (register_builtin E)) (\<lambda>_.
     bindS (forS (functions_of prog) (register_function E)) (\<lambda>_.
     bindS (check_entry_point prog) (\<lambda>_.
     bindS (forS (functions_of prog) (analyze_declared E)) (\<lambda>_.
       drain_instantiations (s_fuel E) E))))))"

text \<open>\<open>SemanticAnalyzer().analyze(program)\<close>: the tables.\<close>

definition analyze_program :: "senv \<Rightarrow> program_ast \<Rightarrow> sema_error + sema" where
  "analyze_program E prog = bindR (analyze E prog new_sema) (\<lambda>(_, s). Inr s)"

end
