(* ===== verification/Codegen.thy ===== *)
theory Codegen
  imports Analyze
begin

text \<open>
  \<open>compiler/codegen_vm.py\<close>: the lowering of the typed tree to bytecode. A method of \<open>CodeGenVM\<close> is a
  state-passing function; the code grows at its end, and a jump is emitted with argument 0 and patched.
  The literal table \<open>strings\<close> with its inverse is the list of literals in the order of their ids, and
  \<open>func_name_to_index\<close> a dictionary. The stacks of loops and scopes have their innermost element first.
\<close>

section \<open>State\<close>

definition MAX_TYPE_ID :: nat where "MAX_TYPE_ID = 0xFFFF"

datatype codegen_fault = CodegenError string "ustr list" pos | CodegenType type_error | CodegenHost host_error

record local_slot =
  slot_index :: nat
  slot_length :: nat

definition is_array_slot :: "local_slot \<Rightarrow> bool" where
  "is_array_slot s \<longleftrightarrow> 0 < slot_length s"

record loop_context =
  break_sites :: "nat list"
  continue_sites :: "nat list"
  scope_depth :: nat

record function_layout =
  lay_name :: ustr
  lay_file :: ustr
  lay_num_locals :: nat
  lay_num_params :: nat
  lay_param_words :: "nat list"
  lay_entry :: nat
  lay_refs :: "nat list"
  lay_slots :: "(symbol \<times> local_slot) list"
  lay_locals :: "local_info list"

record codegen =
  g_code :: bytecode
  g_functions :: "function_layout list"
  g_strings :: "ustr list"
  g_index :: "(ustr \<times> nat) list"
  g_loops :: "loop_context list"
  g_scopes :: "symbol list list"
  g_map :: source_map
  g_loc :: "pos option"

definition new_codegen :: codegen where
  "new_codegen = \<lparr>g_code = [], g_functions = [], g_strings = [], g_index = [], g_loops = [], g_scopes = [],
     g_map = empty_source_map, g_loc = None\<rparr>"

type_synonym 'a gen = "(codegen, codegen_fault, 'a) stateR"

text \<open>What the generator asks of the host and of the tables of semantic analysis; \<open>int_literal\<close> is \<open>int(text, 0)\<close>.\<close>

record genv =
  ge_host :: host_text
  int_literal :: "ustr \<Rightarrow> int option"
  ge_structs :: "(ustr \<times> struct_info) list"
  ge_variants :: "(ustr \<times> variant_info) list"

definition codegen_error :: "string \<Rightarrow> ustr list \<Rightarrow> pos \<Rightarrow> 'a gen" where
  "codegen_error m args p = raiseS (CodegenError m args p)"

section \<open>Emission\<close>

definition emit :: "opcode \<Rightarrow> int option \<Rightarrow> unit gen" where
  "emit o' a = updS (\<lambda>g. g\<lparr>g_code := g_code g @ [instr o' a]\<rparr>)"

abbreviation emit_op :: "opcode \<Rightarrow> unit gen" where "emit_op o' \<equiv> emit o' None"
abbreviation emit_arg :: "opcode \<Rightarrow> nat \<Rightarrow> unit gen" where "emit_arg o' n \<equiv> emit o' (Some (int n))"

definition here :: "nat gen" where
  "here = askS (\<lambda>g. length (g_code g))"

text \<open>A jump whose target is not known yet; its place is returned.\<close>

definition emit_jump :: "opcode \<Rightarrow> nat gen" where
  "emit_jump o' = bindS here (\<lambda>i. bindS (emit_arg o' 0) (\<lambda>_. giveS i))"

definition patch :: "nat \<Rightarrow> nat \<Rightarrow> unit gen" where
  "patch i target = updS (\<lambda>g. g\<lparr>g_code := (g_code g)[i := (g_code g ! i)\<lparr>arg := Some (int target)\<rparr>]\<rparr>)"

definition patch_here :: "nat \<Rightarrow> unit gen" where
  "patch_here i = bindS here (patch i)"

definition enter :: "pos \<Rightarrow> pos option gen" where
  "enter p = bindS (askS g_loc) (\<lambda>outer.
     bindS (updS (\<lambda>g. if fst p \<noteq> 0
       then g\<lparr>g_loc := Some p, g_map := mark (length (g_code g)) (fst p) (snd p) (g_map g)\<rparr> else g)) (\<lambda>_.
     giveS outer))"

definition leave :: "pos option \<Rightarrow> unit gen" where
  "leave outer = updS (\<lambda>g. case outer of
     None \<Rightarrow> g\<lparr>g_loc := None\<rparr>
   | Some q \<Rightarrow> g\<lparr>g_loc := Some q, g_map := mark (length (g_code g)) (fst q) (snd q) (g_map g)\<rparr>)"

definition located :: "pos \<Rightarrow> unit gen \<Rightarrow> unit gen" where
  "located p m = bindS (enter p) (\<lambda>outer. bindS m (\<lambda>_. leave outer))"

definition in_order :: "unit gen list \<Rightarrow> unit gen" where
  "in_order ms = forS ms (\<lambda>m. m)"

text \<open>The place of a text in the literal table, put at its end when it is new.\<close>

fun position_in :: "'a list \<Rightarrow> 'a \<Rightarrow> nat" where
  "position_in [] x = 0"
| "position_in (y # ys) x = (if y = x then 0 else Suc (position_in ys x))"

definition add_string :: "ustr \<Rightarrow> nat gen" where
  "add_string t = bindS (askS (\<lambda>g. position_in (g_strings g) t)) (\<lambda>i.
     bindS (updS (\<lambda>g. if t \<in> set (g_strings g) then g else g\<lparr>g_strings := g_strings g @ [t]\<rparr>)) (\<lambda>_. giveS i))"

section \<open>Frames\<close>

fun layout_symbols :: "host_text \<Rightarrow> nat \<Rightarrow> nat \<Rightarrow> nat \<Rightarrow> symbol list
    \<Rightarrow> type_error + (symbol \<times> local_slot) list \<times> nat list \<times> local_info list \<times> nat" where
  "layout_symbols H nparams position next_idx [] = Inr ([], [], [], next_idx)"
| "layout_symbols H nparams position next_idx (sy # sys) =
     bindR (array_length H (sym_type sy)) (\<lambda>n.
     let len = (case n of None \<Rightarrow> 0 | Some n \<Rightarrow> n);
         width = (if len \<noteq> 0 then len else word_count (sym_type sy)) in
     bindR (layout_symbols H nparams (position + 1) (next_idx + width) sys) (\<lambda>(slots, refs, infos, total).
       Inr ((sy, \<lparr>slot_index = next_idx, slot_length = len\<rparr>) # slots,
         (if is_reference_type (sym_type sy) then next_idx # refs else refs),
         \<lparr>li_name = sym_name sy, li_slot = next_idx, li_type_name = type_name (sym_type sy), li_words = width,
           is_param = position < nparams\<rparr> # infos,
         total)))"

definition build_layout :: "genv \<Rightarrow> tfunction \<Rightarrow> type_error + function_layout" where
  "build_layout C f =
     bindR (layout_symbols (ge_host C) (tf_params f) 0 0 (tf_frame f)) (\<lambda>(slots, refs, infos, total).
       Inr \<lparr>lay_name = tf_name f, lay_file = tf_file f, lay_num_locals = total, lay_num_params = tf_params f,
         lay_param_words = map (\<lambda>sy. word_count (sym_type sy)) (take (tf_params f) (tf_frame f)), lay_entry = 0,
         lay_refs = refs, lay_slots = slots, lay_locals = infos\<rparr>)"

definition slot_of :: "function_layout \<Rightarrow> pos \<Rightarrow> symbol \<Rightarrow> local_slot gen" where
  "slot_of L p sy = (case map_of (lay_slots L) sy of
     None \<Rightarrow> codegen_error ''Symbol has no slot in function'' [sym_name sy, lay_name L] p
   | Some s \<Rightarrow> giveS s)"

fun array_slot :: "function_layout \<Rightarrow> texpr \<Rightarrow> local_slot gen" where
  "array_slot L (TLocal p t sy) = bindS (slot_of L p sy) (\<lambda>s.
     if is_array_slot s then giveS s else codegen_error ''is not an array'' [sym_name sy] p)"
| "array_slot L (TFuncRef p t n) = codegen_error ''No binding recorded for this node'' [] p"
| "array_slot L (TUnit p t v) = codegen_error ''No binding recorded for this node'' [] p"
| "array_slot L e = codegen_error ''Only named local arrays can be indexed'' [] (texpr_pos e)"

definition is_float :: "texpr \<Rightarrow> bool" where
  "is_float e \<longleftrightarrow> get_type e = TFloat"

definition float_bits :: "pyfloat \<Rightarrow> nat gen" where
  "float_bits x = (case pack_f x of None \<Rightarrow> raiseS (CodegenHost OverflowError) | Some b \<Rightarrow> giveS b)"

text \<open>The instruction that moves a value of a type: floats have their own.\<close>

definition store_local :: "qtype \<Rightarrow> opcode" where
  "store_local t = (if t = TFloat then STORE_LOCAL_F else STORE_LOCAL)"

definition load_field :: "qtype \<Rightarrow> opcode" where
  "load_field t = (if t = TFloat then HEAP_LOAD_FIELD_F else HEAP_LOAD_FIELD)"

definition store_field :: "qtype \<Rightarrow> opcode" where
  "store_field t = (if t = TFloat then HEAP_STORE_FIELD_F else HEAP_STORE_FIELD)"

section \<open>Expressions\<close>

definition emit_literal :: "literal_value \<Rightarrow> unit gen" where
  "emit_literal v = (case v of
     LNone \<Rightarrow> emit_arg PUSH_INT 0
   | LBool b \<Rightarrow> emit_arg PUSH_INT (if b then 1 else 0)
   | LInt n \<Rightarrow> emit_arg PUSH_INT (n mod 65536)
   | LFloat x \<Rightarrow> bindS (float_bits x) (emit_arg PUSH_FLOAT)
   | LStr t \<Rightarrow> bindS (add_string t) (emit_arg LOAD_STR))"

definition emit_func_ref :: "pos \<Rightarrow> ustr \<Rightarrow> unit gen" where
  "emit_func_ref p name = bindS (askS (\<lambda>g. map_of (g_index g) name)) (\<lambda>i. case i of
     None \<Rightarrow> codegen_error ''No index for function'' [name] p
   | Some i \<Rightarrow> emit_arg PUSH_INT i)"

definition emit_local :: "function_layout \<Rightarrow> pos \<Rightarrow> qtype \<Rightarrow> symbol \<Rightarrow> unit gen" where
  "emit_local L p t sy = bindS (slot_of L p sy) (\<lambda>s.
     if is_array_slot s then codegen_error ''Array has no value form'' [sym_name sy] p
     else emit_arg (if t = TFloat then LOAD_LOCAL_F else LOAD_LOCAL) (slot_index s))"

text \<open>The fields of a new object, whose address stays on the stack.\<close>

fun emit_fields :: "(struct_field \<times> unit gen) list \<Rightarrow> unit gen" where
  "emit_fields [] = giveS ()"
| "emit_fields ((fld, m) # fs) =
     bindS (emit_op DUP) (\<lambda>_. bindS m (\<lambda>_.
     bindS (emit_arg (store_field (sf_type fld)) (sf_offset fld)) (\<lambda>_. emit_fields fs)))"

definition emit_variant :: "variant_info \<Rightarrow> unit gen list \<Rightarrow> unit gen" where
  "emit_variant v args =
     (if si_fields v = [] then emit_arg LOAD_VARIANT (type_id v)
      else bindS (emit_arg ALLOC_TYPED (type_id v)) (\<lambda>_. emit_fields (zip (si_fields v) args)))"

fun emit_named_fields :: "struct_info \<Rightarrow> (pos \<times> ustr \<times> unit gen) list \<Rightarrow> unit gen" where
  "emit_named_fields info [] = giveS ()"
| "emit_named_fields info ((p, name, m) # fs) =
     (case field_named info name of
        None \<Rightarrow> codegen_error ''Struct has no field'' [si_name info, name] p
      | Some fld \<Rightarrow> bindS (emit_op DUP) (\<lambda>_. bindS m (\<lambda>_.
          bindS (emit_arg (store_field (sf_type fld)) (sf_offset fld)) (\<lambda>_. emit_named_fields info fs))))"

definition emit_struct_lit :: "genv \<Rightarrow> pos \<Rightarrow> qtype \<Rightarrow> (pos \<times> ustr \<times> unit gen) list \<Rightarrow> unit gen" where
  "emit_struct_lit C p t fs = (case map_of (ge_structs C) (type_name t) of
     None \<Rightarrow> codegen_error ''Unknown struct'' [type_name t] p
   | Some info \<Rightarrow> bindS (emit_arg ALLOC_TYPED (type_id info)) (\<lambda>_. emit_named_fields info fs))"

definition field_of :: "genv \<Rightarrow> pos \<Rightarrow> qtype \<Rightarrow> ustr \<Rightarrow> struct_field gen" where
  "field_of C p t name = (case map_of (ge_structs C) (type_name t) of
     None \<Rightarrow> codegen_error ''is not a struct type'' [type_name t] p
   | Some info \<Rightarrow> (case field_named info name of
       None \<Rightarrow> codegen_error ''Struct has no field'' [si_name info, name] p
     | Some fld \<Rightarrow> giveS fld))"

definition emit_unary :: "pos \<Rightarrow> qtype \<Rightarrow> ustr \<Rightarrow> unit gen" where
  "emit_unary p t o' =
     (if o' = lit ''-'' then emit_op (if t = TFloat then FNEG else NEG)
      else if o' = lit ''!'' then emit_op NOT
      else if o' = lit ''~'' then emit_op BITNOT
      else codegen_error ''Unknown unary operator'' [o'] p)"

definition binary_ops :: "(ustr \<times> opcode) list" where
  "binary_ops = [(lit ''+'', ADD), (lit ''-'', SUB), (lit ''*'', MUL), (lit ''/'', DIV), (lit ''%'', MOD),
     (lit ''^'', opcode.XOR), (lit ''&'', opcode.AND), (lit ''|'', opcode.OR), (lit ''<<'', SHL), (lit ''>>'', SHR),
     (lit ''=='', CMP_EQ), (lit ''!='', CMP_NE), (lit ''<'', CMP_LT), (lit ''<='', CMP_LE), (lit ''>'', CMP_GT),
     (lit ''>='', CMP_GE)]"

definition float_ops :: "(ustr \<times> opcode) list" where
  "float_ops = [(lit ''+'', FADD), (lit ''-'', FSUB), (lit ''*'', FMUL), (lit ''/'', FDIV)]"

definition COMPARISONS :: "ustr list" where
  "COMPARISONS = map lit [''=='', ''!='', ''<'', ''<='', ''>'', ''>='']"

text \<open>
  \<open>&&\<close> jumps to the false end when an operand is false, \<open>||\<close> to the true end when one is true: the same
  code with the test and the two results exchanged.
\<close>

definition emit_logical :: "opcode \<Rightarrow> nat \<Rightarrow> nat \<Rightarrow> unit gen \<Rightarrow> unit gen \<Rightarrow> unit gen" where
  "emit_logical test through short l r =
     bindS l (\<lambda>_.
     bindS (emit_jump test) (\<lambda>j1.
     bindS r (\<lambda>_.
     bindS (emit_jump test) (\<lambda>j2.
     bindS (emit_arg PUSH_INT through) (\<lambda>_.
     bindS (emit_jump JMP) (\<lambda>j3.
     bindS here (\<lambda>target.
     bindS (emit_arg PUSH_INT short) (\<lambda>_.
     bindS (patch j1 target) (\<lambda>_.
     bindS (patch j2 target) (\<lambda>_. patch_here j3))))))))))"

definition emit_operator :: "opcode \<Rightarrow> ustr \<Rightarrow> qtype \<Rightarrow> unit gen" where
  "emit_operator oc o' lt =
     (if o' = lit ''+'' \<and> lt = TStr then emit_op STR_CONCAT
      else case map_of float_ops o' of
        Some fop \<Rightarrow> emit_op (if lt = TFloat then fop else oc)
      | None \<Rightarrow>
          if o' \<in> set COMPARISONS \<and> lt = TFloat
          then bindS (emit_op FCMP) (\<lambda>_. bindS (emit_arg PUSH_INT 0) (\<lambda>_. emit_op oc))
          else if o' \<in> set COMPARISONS \<and> lt = TStr
          then bindS (emit_op STR_CMP) (\<lambda>_. bindS (emit_arg PUSH_INT 0) (\<lambda>_. emit_op oc))
          else emit_op oc)"

definition emit_binary :: "pos \<Rightarrow> ustr \<Rightarrow> qtype \<Rightarrow> unit gen \<Rightarrow> unit gen \<Rightarrow> unit gen" where
  "emit_binary p o' lt l r =
     (if o' = lit ''&&'' then emit_logical JZ 1 0 l r
      else if o' = lit ''||'' then emit_logical JNZ 0 1 l r
      else case map_of binary_ops o' of
        None \<Rightarrow> codegen_error ''Unknown binary operator'' [o'] p
      | Some oc \<Rightarrow> bindS l (\<lambda>_. bindS r (\<lambda>_. emit_operator oc o' lt)))"

text \<open>The builtins that are their arguments in source order and then fixed instructions.\<close>

definition plain_builtins :: "((ustr \<times> nat) \<times> (opcode \<times> nat option) list) list" where
  "plain_builtins =
     [((lit ''array_len'', 1), [(ARRAY_LEN, None)]),
      ((lit ''int_to_float'', 1), [(F_FROM_INT, None)]),
      ((lit ''float_to_int'', 1), [(F_TO_INT, None)]),
      ((lit ''float_to_str'', 1), [(STR_FROM_FLOAT, None)]),
      ((lit ''load16'', 1), [(LOAD_INDIRECT, None)]),
      ((lit ''store16'', 2), [(STORE_INDIRECT, None), (PUSH_INT, Some 0)]),
      ((lit ''memcpy'', 3), [(MEMCPY_LOCALS, None), (PUSH_INT, Some 0)]),
      ((lit ''memset'', 3), [(MEMSET_LOCALS, None), (PUSH_INT, Some 0)]),
      ((lit ''ct_eq'', 2), [(CMP_EQ, None)]),
      ((lit ''alloc'', 1), [(ALLOC, None)]),
      ((lit ''heap_load'', 1), [(HEAP_LOAD, None)]),
      ((lit ''str_len'', 1), [(STR_LEN, None)]),
      ((lit ''str_char_at'', 2), [(STR_CHAR_AT, None)]),
      ((lit ''str_slice'', 3), [(STR_SLICE, None)]),
      ((lit ''int_to_str'', 1), [(STR_FROM_INT, None)]),
      ((lit ''char_to_str'', 1), [(STR_FROM_CHAR, None)]),
      ((lit ''panic'', 1), [(PANIC, None), (PUSH_INT, Some 0)]),
      ((lit ''read_line'', 0), [(READ_LINE, None)]),
      ((lit ''argc'', 0), [(ARGC, None)]),
      ((lit ''argv'', 1), [(ARGV, None)]),
      ((lit ''file_read'', 1), [(FILE_READ, None)]),
      ((lit ''file_write'', 2), [(FILE_WRITE, None)]),
      ((lit ''file_append'', 2), [(FILE_APPEND, None)]),
      ((lit ''file_exists'', 1), [(FILE_EXISTS, None)]),
      ((lit ''file_delete'', 1), [(FILE_DELETE, None)]),
      ((lit ''file_error'', 0), [(FILE_ERROR, None)]),
      ((lit ''file_read_bytes'', 1), [(FILE_READ_BYTES, None)]),
      ((lit ''file_write_bytes'', 2), [(FILE_WRITE_BYTES, None)]),
      ((lit ''gc'', 0), [(GC, None), (PUSH_INT, Some 0)]),
      ((lit ''heap_store'', 2), [(HEAP_STORE, None), (PUSH_INT, Some 0)])]"

fun emit_all :: "(opcode \<times> nat option) list \<Rightarrow> unit gen" where
  "emit_all [] = giveS ()"
| "emit_all ((o', a) # is) = bindS (emit o' (map_option int a)) (\<lambda>_. emit_all is)"

definition emit_array_push :: "function_layout \<Rightarrow> texpr \<Rightarrow> unit gen \<Rightarrow> unit gen \<Rightarrow> unit gen" where
  "emit_array_push L arr len v =
     bindS (array_slot L arr) (\<lambda>s.
     bindS len (\<lambda>_. bindS (emit_op DUP) (\<lambda>_. bindS v (\<lambda>_.
     emit_all [(SWAP, None), (BOUNDS_CHECK, Some (slot_length s)), (STORE_LOCAL_IDX, Some (slot_index s)),
       (PUSH_INT, Some 1), (ADD, None)]))))"

definition emit_array_pop :: "function_layout \<Rightarrow> texpr \<Rightarrow> unit gen \<Rightarrow> unit gen" where
  "emit_array_pop L arr len =
     bindS (array_slot L arr) (\<lambda>s. bindS len (\<lambda>_.
     emit_all [(PUSH_INT, Some 1), (SUB, None), (BOUNDS_CHECK, Some (slot_length s)),
       (LOAD_LOCAL_IDX, Some (slot_index s))]))"

text \<open>\<open>y\<close> is emitted twice.\<close>

definition emit_ct_select :: "unit gen \<Rightarrow> unit gen \<Rightarrow> unit gen \<Rightarrow> unit gen" where
  "emit_ct_select msk x y =
     bindS x (\<lambda>_. bindS y (\<lambda>_. bindS (emit_op SUB) (\<lambda>_.
     bindS msk (\<lambda>_. bindS (emit_op MUL) (\<lambda>_. bindS y (\<lambda>_. emit_op ADD))))))"

definition emit_array_new :: "qtype \<Rightarrow> unit gen \<Rightarrow> unit gen" where
  "emit_array_new t len = (case t of
     ArrayObjType _ _ element \<Rightarrow> bindS len (\<lambda>_. emit_arg NEW_ARRAY (if is_reference_type element then 1 else 0))
   | _ \<Rightarrow> raiseS (CodegenHost AttributeError))"

definition emit_direct_call :: "pos \<Rightarrow> ustr \<Rightarrow> unit gen list \<Rightarrow> unit gen" where
  "emit_direct_call p name args = bindS (askS (\<lambda>g. map_of (g_index g) name)) (\<lambda>i. case i of
     None \<Rightarrow> codegen_error ''Call to unknown function'' [name] p
   | Some i \<Rightarrow> bindS (in_order args) (\<lambda>_. emit_arg CALL i))"

definition emit_call :: "function_layout \<Rightarrow> pos \<Rightarrow> qtype \<Rightarrow> ustr \<Rightarrow> ustr option \<Rightarrow> texpr list \<Rightarrow> unit gen list \<Rightarrow> unit gen" where
  "emit_call L p t name target as ms =
     (if name = lit ''array_push'' \<and> length as = 3 then emit_array_push L (as ! 0) (ms ! 1) (ms ! 2)
      else if name = lit ''array_pop'' \<and> length as = 2 then emit_array_pop L (as ! 0) (ms ! 1)
      else if name = lit ''array_new'' \<and> length as = 1 then emit_array_new t (ms ! 0)
      else if name = lit ''ct_select'' \<and> length as = 3 then emit_ct_select (ms ! 0) (ms ! 1) (ms ! 2)
      else case map_of plain_builtins (name, length as) of
        Some is \<Rightarrow> bindS (in_order ms) (\<lambda>_. emit_all is)
      | None \<Rightarrow> emit_direct_call p (case target of Some m \<Rightarrow> m | None \<Rightarrow> name) ms)"

fun emit_expr :: "genv \<Rightarrow> function_layout \<Rightarrow> texpr \<Rightarrow> unit gen" where
  "emit_expr C L (TLit p t v) = located p (emit_literal v)"
| "emit_expr C L (TFuncRef p t name) = located p (emit_func_ref p name)"
| "emit_expr C L (TUnit p t v) = located p (emit_variant v [])"
| "emit_expr C L (TLocal p t sy) = located p (emit_local L p t sy)"
| "emit_expr C L (TAddrLocal p q t sy) = located p (bindS (slot_of L q sy) (\<lambda>s. emit_arg PUSH_INT (slot_index s)))"
| "emit_expr C L (TAddrIndex p t arr idx) = located p (
     bindS (array_slot L arr) (\<lambda>s. bindS (emit_expr C L idx) (\<lambda>_.
       emit_all [(BOUNDS_CHECK, Some (slot_length s)), (PUSH_INT, Some (slot_index s)), (ADD, None)])))"
| "emit_expr C L (TUnary p t o' r) = located p (bindS (emit_expr C L r) (\<lambda>_. emit_unary p t o'))"
| "emit_expr C L (TBinary p t l o' r) = located p (emit_binary p o' (get_type l) (emit_expr C L l) (emit_expr C L r))"
| "emit_expr C L (TIndex p t arr idx) = located p (
     if is_array_obj_type (get_type arr)
     then bindS (emit_expr C L arr) (\<lambda>_. bindS (emit_expr C L idx) (\<lambda>_. emit_op ARRAY_GET))
     else bindS (array_slot L arr) (\<lambda>s. bindS (emit_expr C L idx) (\<lambda>_.
       emit_all [(BOUNDS_CHECK, Some (slot_length s)), (LOAD_LOCAL_IDX, Some (slot_index s))])))"
| "emit_expr C L (TField p t ob name) = located p (
     bindS (field_of C p (get_type ob) name) (\<lambda>fld. bindS (emit_expr C L ob) (\<lambda>_.
       emit_arg (load_field (sf_type fld)) (sf_offset fld))))"
| "emit_expr C L (TStruct p t fs) = located p (
     emit_struct_lit C p t (map (\<lambda>(q, name, e). (q, name, emit_expr C L e)) fs))"
| "emit_expr C L (TVariant p t v as) = located p (emit_variant v (map (emit_expr C L) as))"
| "emit_expr C L (TReceiver p t r as) = located p (
     bindS (in_order (map (emit_expr C L) as)) (\<lambda>_. bindS (emit_expr C L r) (\<lambda>_. emit_op CALL_INDIRECT)))"
| "emit_expr C L (TIndirect p t sy as) = located p (
     bindS (in_order (map (emit_expr C L) as)) (\<lambda>_. bindS (slot_of L p sy) (\<lambda>s.
       bindS (emit_arg LOAD_LOCAL (slot_index s)) (\<lambda>_. emit_op CALL_INDIRECT))))"
| "emit_expr C L (TCall p t name target as) = located p (emit_call L p t name target as (map (emit_expr C L) as))"

end
