(* ===== verification/CodegenStmt.thy ===== *)
theory CodegenStmt
  imports Codegen
begin

text \<open>
  \<open>compiler/codegen_vm.py\<close>, second part: statements with their loops, scopes and \<open>vm_asm\<close> blocks,
  functions, and the whole program with its tables.
\<close>

section \<open>Scopes and loops\<close>

fun release_scope :: "function_layout \<Rightarrow> symbol list \<Rightarrow> unit gen" where
  "release_scope L [] = giveS ()"
| "release_scope L (sy # sys) =
     (case map_of (lay_slots L) sy of
        None \<Rightarrow> release_scope L sys
      | Some s \<Rightarrow> bindS (emit_arg PUSH_INT 0) (\<lambda>_. bindS (emit_arg STORE_LOCAL (slot_index s)) (\<lambda>_. release_scope L sys)))"

definition push_scope :: "symbol list \<Rightarrow> unit gen" where
  "push_scope refs = updS (\<lambda>g. g\<lparr>g_scopes := refs # g_scopes g\<rparr>)"

definition pop_scope :: "unit gen" where
  "pop_scope = updS (\<lambda>g. g\<lparr>g_scopes := tl (g_scopes g)\<rparr>)"

definition scoped_block :: "function_layout \<Rightarrow> symbol list \<Rightarrow> unit gen list \<Rightarrow> unit gen" where
  "scoped_block L refs ms =
     bindS (push_scope refs) (\<lambda>_. bindS (in_order ms) (\<lambda>_. bindS pop_scope (\<lambda>_. release_scope L refs)))"

text \<open>\<open>reversed(self._scopes[depth:])\<close>.\<close>

definition release_scopes_to :: "function_layout \<Rightarrow> nat \<Rightarrow> unit gen" where
  "release_scopes_to L depth =
     bindS (askS (\<lambda>g. take (length (g_scopes g) - depth) (g_scopes g))) (\<lambda>scs. forS scs (release_scope L))"

definition add_site :: "bool \<Rightarrow> nat \<Rightarrow> loop_context \<Rightarrow> loop_context" where
  "add_site is_break i lp =
     (if is_break then lp\<lparr>break_sites := break_sites lp @ [i]\<rparr> else lp\<lparr>continue_sites := continue_sites lp @ [i]\<rparr>)"

definition emit_loop_jump :: "function_layout \<Rightarrow> pos \<Rightarrow> bool \<Rightarrow> unit gen" where
  "emit_loop_jump L p is_break = bindS (askS g_loops) (\<lambda>loops. case loops of
     [] \<Rightarrow> codegen_error ''outside of a loop'' [lit (if is_break then ''break'' else ''continue'')] p
   | lp # _ \<Rightarrow>
       bindS (release_scopes_to L (scope_depth lp)) (\<lambda>_.
       bindS (emit_jump JMP) (\<lambda>i.
       updS (\<lambda>g. g\<lparr>g_loops := (case g_loops g of [] \<Rightarrow> [] | l # ls \<Rightarrow> add_site is_break i l # ls)\<rparr>))))"

definition push_loop :: "unit gen" where
  "push_loop = updS (\<lambda>g. g\<lparr>g_loops :=
     \<lparr>break_sites = [], continue_sites = [], scope_depth = length (g_scopes g)\<rparr> # g_loops g\<rparr>)"

definition pop_loop :: "loop_context gen" where
  "pop_loop = bindS (askS (\<lambda>g. hd (g_loops g))) (\<lambda>lp.
     bindS (updS (\<lambda>g. g\<lparr>g_loops := tl (g_loops g)\<rparr>)) (\<lambda>_. giveS lp))"

definition patch_loop :: "loop_context \<Rightarrow> nat \<Rightarrow> nat \<Rightarrow> unit gen" where
  "patch_loop lp break_pc continue_pc =
     bindS (forS (break_sites lp) (\<lambda>i. patch i break_pc)) (\<lambda>_. forS (continue_sites lp) (\<lambda>i. patch i continue_pc))"

text \<open>The body of a loop: the jumps found in it are handed to the loop.\<close>

definition loop_body :: "function_layout \<Rightarrow> symbol list \<Rightarrow> unit gen list \<Rightarrow> loop_context gen" where
  "loop_body L refs ms = bindS push_loop (\<lambda>_. bindS (scoped_block L refs ms) (\<lambda>_. pop_loop))"

definition emit_if :: "function_layout \<Rightarrow> unit gen \<Rightarrow> unit gen \<Rightarrow> unit gen \<Rightarrow> unit gen" where
  "emit_if L cond then_part else_part =
     bindS cond (\<lambda>_. bindS (emit_jump JZ) (\<lambda>jz. bindS then_part (\<lambda>_.
     bindS (emit_jump JMP) (\<lambda>jmp. bindS (patch_here jz) (\<lambda>_. bindS else_part (\<lambda>_. patch_here jmp))))))"

definition emit_while :: "unit gen \<Rightarrow> loop_context gen \<Rightarrow> unit gen" where
  "emit_while cond body =
     bindS here (\<lambda>loop_start. bindS cond (\<lambda>_. bindS (emit_jump JZ) (\<lambda>jz. bindS body (\<lambda>lp.
     bindS (emit_arg JMP loop_start) (\<lambda>_. bindS here (\<lambda>end_pc. bindS (patch jz end_pc) (\<lambda>_.
     patch_loop lp end_pc loop_start)))))))"

definition emit_for :: "function_layout \<Rightarrow> symbol list \<Rightarrow> unit gen \<Rightarrow> unit gen option \<Rightarrow> unit gen \<Rightarrow> loop_context gen
    \<Rightarrow> unit gen" where
  "emit_for L refs init cond st body =
     bindS (push_scope refs) (\<lambda>_. bindS init (\<lambda>_. bindS here (\<lambda>loop_start.
     bindS (case cond of None \<Rightarrow> giveS None
       | Some c \<Rightarrow> bindS c (\<lambda>_. bindS (emit_jump JZ) (\<lambda>jz. giveS (Some jz)))) (\<lambda>jz.
     bindS body (\<lambda>lp. bindS here (\<lambda>step_pc. bindS st (\<lambda>_.
     bindS (emit_arg JMP loop_start) (\<lambda>_. bindS here (\<lambda>end_pc.
     bindS (case jz of None \<Rightarrow> giveS () | Some i \<Rightarrow> patch i end_pc) (\<lambda>_.
     bindS (patch_loop lp end_pc step_pc) (\<lambda>_.
     bindS pop_scope (\<lambda>_. release_scope L refs))))))))))))"

section \<open>Match\<close>

fun bind_payload_slots :: "function_layout \<Rightarrow> pos \<Rightarrow> (symbol \<times> struct_field) list \<Rightarrow> unit gen" where
  "bind_payload_slots L p [] = giveS ()"
| "bind_payload_slots L p ((sy, fld) # ps) =
     (case map_of (lay_slots L) sy of
        None \<Rightarrow> codegen_error ''No slot for binding'' [sym_name sy] p
      | Some s \<Rightarrow> bindS (emit_all [(DUP, None), (load_field (sf_type fld), Some (sf_offset fld)),
            (store_local (sf_type fld), Some (slot_index s))]) (\<lambda>_. bind_payload_slots L p ps))"

type_synonym gen_arm = "pos \<times> variant_info option \<times> symbol list \<times> unit gen"

definition emit_arm :: "function_layout \<Rightarrow> pos \<Rightarrow> variant_info \<Rightarrow> symbol list \<Rightarrow> unit gen \<Rightarrow> nat gen" where
  "emit_arm L p v bound body =
     bindS (emit_all [(DUP, None), (PUSH_INT, Some (type_id v)), (CMP_EQ, None)]) (\<lambda>_.
     bindS (emit_jump JZ) (\<lambda>jz.
     bindS (emit_op POP) (\<lambda>_. bindS (bind_payload_slots L p (zip bound (si_fields v))) (\<lambda>_.
     bindS (emit_op POP) (\<lambda>_. bindS body (\<lambda>_.
     bindS (emit_jump JMP) (\<lambda>end_jump. bindS (patch_here jz) (\<lambda>_. giveS end_jump))))))))"

text \<open>The jumps to the end, and the body of the last arm that names no variant.\<close>

fun emit_arms :: "function_layout \<Rightarrow> nat list \<Rightarrow> unit gen option \<Rightarrow> gen_arm list \<Rightarrow> (nat list \<times> unit gen option) gen" where
  "emit_arms L jumps catch_all [] = giveS (jumps, catch_all)"
| "emit_arms L jumps catch_all ((p, variant, bound, body) # as) =
     (case variant of
        None \<Rightarrow> emit_arms L jumps (Some body) as
      | Some v \<Rightarrow> bindS (emit_arm L p v bound body) (\<lambda>j. emit_arms L (jumps @ [j]) catch_all as))"

definition emit_match :: "function_layout \<Rightarrow> unit gen \<Rightarrow> gen_arm list \<Rightarrow> unit gen" where
  "emit_match L subject arms =
     bindS subject (\<lambda>_. bindS (emit_all [(DUP, None), (TAG_OF, None)]) (\<lambda>_.
     bindS (emit_arms L [] None arms) (\<lambda>(end_jumps, catch_all).
     bindS (emit_all [(POP, None), (POP, None)]) (\<lambda>_.
     bindS (case catch_all of None \<Rightarrow> giveS () | Some body \<Rightarrow> body) (\<lambda>_. forS end_jumps patch_here)))))"

section \<open>Assembly blocks\<close>

text \<open>Name, opcode, operands popped and results pushed.\<close>

definition simple_ops :: "(ustr \<times> opcode \<times> nat \<times> nat) list" where
  "simple_ops = [(lit ''add'', ADD, 2, 1), (lit ''sub'', SUB, 2, 1), (lit ''mul'', MUL, 2, 1), (lit ''div'', DIV, 2, 1),
     (lit ''neg'', NEG, 1, 1), (lit ''not'', NOT, 1, 1), (lit ''cmp_eq'', CMP_EQ, 2, 1), (lit ''cmp_ne'', CMP_NE, 2, 1),
     (lit ''cmp_lt'', CMP_LT, 2, 1), (lit ''cmp_le'', CMP_LE, 2, 1), (lit ''cmp_gt'', CMP_GT, 2, 1), (lit ''cmp_ge'', CMP_GE, 2, 1)]"

definition local_ops :: "(ustr \<times> opcode \<times> nat \<times> nat) list" where
  "local_ops = [(lit ''load_local'', LOAD_LOCAL, 0, 1), (lit ''store_local'', STORE_LOCAL, 1, 0)]"

text \<open>\<open>str.splitlines\<close> and \<open>str.split\<close>.\<close>

definition line_break :: "nat \<Rightarrow> bool" where
  "line_break c \<longleftrightarrow> c \<in> {10, 11, 12, 13, 28, 29, 30, 133, 8232, 8233}"

fun lines_of :: "ustr \<Rightarrow> ustr \<Rightarrow> ustr list" where
  "lines_of acc [] = (if acc = [] then [] else [acc])"
| "lines_of acc (c # cs) =
     (if line_break c then acc # lines_of [] (if c = 13 \<and> cs \<noteq> [] \<and> hd cs = 10 then tl cs else cs)
      else lines_of (acc @ [c]) cs)"

fun words_of :: "host_text \<Rightarrow> ustr \<Rightarrow> ustr \<Rightarrow> ustr list" where
  "words_of H acc [] = (if acc = [] then [] else [acc])"
| "words_of H acc (c # cs) =
     (if is_space H c then (if acc = [] then words_of H [] cs else acc # words_of H [] cs)
      else words_of H (acc @ [c]) cs)"

text \<open>One line without its semicolon.\<close>

definition asm_line :: "host_text \<Rightarrow> ustr \<Rightarrow> ustr" where
  "asm_line H raw = (let l = strip H raw in if ends_with (lit '';'') l then strip H (butlast l) else l)"

text \<open>The instruction of a line, emitted; the operands it pops and pushes.\<close>

definition asm_local :: "function_layout \<Rightarrow> pos \<Rightarrow> (ustr \<times> symbol) list \<Rightarrow> ustr \<Rightarrow> ustr \<Rightarrow> opcode \<times> nat \<times> nat
    \<Rightarrow> (nat \<times> nat) gen" where
  "asm_local L p names o' name entry =
     (case map_of names name of
        None \<Rightarrow> codegen_error ''vm_asm: unknown local'' [o', name] p
      | Some sy \<Rightarrow> (case map_of (lay_slots L) sy of
          None \<Rightarrow> raiseS (CodegenHost KeyError)
        | Some s \<Rightarrow>
            if is_array_slot s then codegen_error ''vm_asm: is an array'' [o', name] p
            else if sym_type sy = TFloat then codegen_error ''vm_asm: is a float'' [o', name] p
            else bindS (emit_arg (fst entry) (slot_index s)) (\<lambda>_. giveS (snd entry))))"

definition asm_instruction :: "genv \<Rightarrow> function_layout \<Rightarrow> pos \<Rightarrow> (ustr \<times> symbol) list \<Rightarrow> ustr \<Rightarrow> ustr \<Rightarrow> ustr list
    \<Rightarrow> (nat \<times> nat) gen" where
  "asm_instruction C L p names raw o' args =
     (if o' = lit ''push_int'' \<and> length args = 1 then
        (case int_literal C (hd args) of
           None \<Rightarrow> codegen_error ''vm_asm push_int expects an integer literal'' [hd args] p
         | Some v \<Rightarrow> bindS (emit PUSH_INT (Some (v mod 65536))) (\<lambda>_. giveS (0, 1)))
      else case map_of local_ops o' of
        Some entry \<Rightarrow>
          if length args = 1 then asm_local L p names o' (hd args) entry
          else codegen_error ''Unknown or malformed vm_asm instruction'' [strip (ge_host C) raw] p
      | None \<Rightarrow> (case map_of simple_ops o' of
          Some (oc, effect) \<Rightarrow>
            if args = [] then bindS (emit_op oc) (\<lambda>_. giveS effect)
            else codegen_error ''Unknown or malformed vm_asm instruction'' [strip (ge_host C) raw] p
        | None \<Rightarrow> codegen_error ''Unknown or malformed vm_asm instruction'' [strip (ge_host C) raw] p))"

fun asm_lines :: "genv \<Rightarrow> function_layout \<Rightarrow> pos \<Rightarrow> (ustr \<times> symbol) list \<Rightarrow> nat \<Rightarrow> ustr list \<Rightarrow> nat gen" where
  "asm_lines C L p names depth [] = giveS depth"
| "asm_lines C L p names depth (raw # rest) =
     (let l = asm_line (ge_host C) raw in
      if l = [] then asm_lines C L p names depth rest
      else (case words_of (ge_host C) [] l of
        [] \<Rightarrow> raiseS (CodegenHost IndexError)
      | o' # args \<Rightarrow> bindS (asm_instruction C L p names raw o' args) (\<lambda>(pops, pushes).
          if pops > depth then codegen_error ''vm_asm needs more values than the block has'' [l, dec_nat pops, dec_nat depth] p
          else asm_lines C L p names (depth + pushes - pops) rest)))"

definition emit_vm_asm :: "genv \<Rightarrow> function_layout \<Rightarrow> pos \<Rightarrow> ustr \<Rightarrow> (ustr \<times> symbol) list \<Rightarrow> unit gen" where
  "emit_vm_asm C L p src names =
     bindS (asm_lines C L p names 0 (lines_of [] src)) (\<lambda>depth.
       if depth \<noteq> 0 then codegen_error ''vm_asm block leaves values on the operand stack'' [dec_nat depth] p
       else giveS ())"

section \<open>Statements\<close>

definition emit_bool_to_str :: "unit gen" where
  "emit_bool_to_str =
     bindS (add_string (lit ''true'')) (\<lambda>true_sid. bindS (add_string (lit ''false'')) (\<lambda>false_sid.
     bindS (emit_jump JZ) (\<lambda>jz. bindS (emit_arg LOAD_STR true_sid) (\<lambda>_. bindS (emit_jump JMP) (\<lambda>jmp.
     bindS here (\<lambda>false_pc. bindS (emit_arg LOAD_STR false_sid) (\<lambda>_.
     bindS (patch jz false_pc) (\<lambda>_. patch_here jmp))))))))"

definition emit_print :: "opcode \<Rightarrow> opcode \<Rightarrow> opcode \<Rightarrow> qtype \<Rightarrow> unit gen" where
  "emit_print str_op float_op int_op t =
     (if t = TStr then emit_op str_op
      else if t = TFloat then emit_op float_op
      else if t = TBool then bindS emit_bool_to_str (\<lambda>_. emit_op str_op)
      else emit_op int_op)"

fun zero_slots :: "nat \<Rightarrow> nat \<Rightarrow> unit gen" where
  "zero_slots i 0 = giveS ()"
| "zero_slots i (Suc n) = bindS (emit_all [(PUSH_INT, Some 0), (STORE_LOCAL, Some i)]) (\<lambda>_. zero_slots (Suc i) n)"

definition emit_var_decl :: "function_layout \<Rightarrow> pos \<Rightarrow> symbol \<Rightarrow> unit gen option \<Rightarrow> unit gen" where
  "emit_var_decl L p sy init = bindS (slot_of L p sy) (\<lambda>s.
     if is_array_slot s then zero_slots (slot_index s) (slot_length s)
     else bindS (case init of
         Some m \<Rightarrow> m
       | None \<Rightarrow>
           if sym_type sy = TStr then bindS (add_string []) (emit_arg LOAD_STR)
           else if sym_type sy = TFloat then emit_arg PUSH_FLOAT 0
           else emit_arg PUSH_INT 0) (\<lambda>_. emit_arg (store_local (sym_type sy)) (slot_index s)))"

definition emit_assign_var :: "function_layout \<Rightarrow> pos \<Rightarrow> symbol \<Rightarrow> qtype \<Rightarrow> unit gen \<Rightarrow> unit gen" where
  "emit_assign_var L q sy t m = bindS (slot_of L q sy) (\<lambda>s.
     if is_array_slot s then codegen_error ''Cannot assign to array as a whole'' [sym_name sy] q
     else bindS m (\<lambda>_. emit_arg (store_local t) (slot_index s)))"

definition emit_assign_index :: "function_layout \<Rightarrow> pos \<Rightarrow> texpr \<Rightarrow> unit gen \<Rightarrow> unit gen \<Rightarrow> unit gen \<Rightarrow> unit gen" where
  "emit_assign_index L q arr marr midx mval =
     (if is_array_obj_type (get_type arr)
      then bindS marr (\<lambda>_. bindS (located q midx) (\<lambda>_. bindS mval (\<lambda>_. emit_op ARRAY_SET)))
      else bindS (array_slot L arr) (\<lambda>s. bindS mval (\<lambda>_. located q (bindS midx (\<lambda>_.
        emit_all [(BOUNDS_CHECK, Some (slot_length s)), (STORE_LOCAL_IDX, Some (slot_index s))])))))"

definition emit_assign_field :: "genv \<Rightarrow> pos \<Rightarrow> qtype \<Rightarrow> ustr \<Rightarrow> unit gen \<Rightarrow> unit gen \<Rightarrow> unit gen" where
  "emit_assign_field C q t name mob mval =
     bindS (field_of C q t name) (\<lambda>fld. bindS mob (\<lambda>_. bindS mval (\<lambda>_.
       emit_arg (store_field (sf_type fld)) (sf_offset fld))))"

definition run_opt :: "unit gen option \<Rightarrow> unit gen" where
  "run_opt m = (case m of None \<Rightarrow> giveS () | Some m \<Rightarrow> m)"

fun emit_stmt :: "genv \<Rightarrow> function_layout \<Rightarrow> tstmt \<Rightarrow> unit gen"
  and arm_code :: "genv \<Rightarrow> function_layout \<Rightarrow> tarm \<Rightarrow> gen_arm" where
  "emit_stmt C L (SVarDecl p sy init) = located p (emit_var_decl L p sy (map_option (emit_expr C L) init))"
| "emit_stmt C L (SAssignVar p q sy v) = located p (emit_assign_var L q sy (get_type v) (emit_expr C L v))"
| "emit_stmt C L (SAssignIndex p q arr idx v) =
     located p (emit_assign_index L q arr (emit_expr C L arr) (emit_expr C L idx) (emit_expr C L v))"
| "emit_stmt C L (SAssignField p q ob name v) =
     located p (emit_assign_field C q (get_type ob) name (emit_expr C L ob) (emit_expr C L v))"
| "emit_stmt C L (SPrint p v) = located p (
     bindS (emit_expr C L v) (\<lambda>_. emit_print PRINT_STR PRINT_FLOAT PRINT_INT (get_type v)))"
| "emit_stmt C L (SPrintLn p v) = located p (
     bindS (emit_expr C L v) (\<lambda>_. emit_print PRINTLN_STR PRINTLN_FLOAT PRINTLN_INT (get_type v)))"
| "emit_stmt C L (SReturn p v) = located p (
     bindS (case v of Some e \<Rightarrow> emit_expr C L e | None \<Rightarrow> emit_arg PUSH_INT 0) (\<lambda>_. emit_op RET))"
| "emit_stmt C L (SExpr p e) = located p (bindS (emit_expr C L e) (\<lambda>_. emit_op POP))"
| "emit_stmt C L (SIf p c t refs e) = located p (
     emit_if L (emit_expr C L c) (scoped_block L refs (map (emit_stmt C L) t))
       (case e of None \<Rightarrow> giveS () | Some (b, brefs) \<Rightarrow> scoped_block L brefs (map (emit_stmt C L) b)))"
| "emit_stmt C L (SMatch p subject arms) = located p (emit_match L (emit_expr C L subject) (map (arm_code C L) arms))"
| "emit_stmt C L (SWhile p c body refs) = located p (
     emit_while (emit_expr C L c) (loop_body L refs (map (emit_stmt C L) body)))"
| "emit_stmt C L (SFor p init c st body refs for_refs) = located p (
     emit_for L for_refs (run_opt (map_option (emit_stmt C L) init)) (map_option (emit_expr C L) c)
       (run_opt (map_option (emit_stmt C L) st)) (loop_body L refs (map (emit_stmt C L) body)))"
| "emit_stmt C L (SBlock p ss refs) = located p (scoped_block L refs (map (emit_stmt C L) ss))"
| "emit_stmt C L (SBreak p) = located p (emit_loop_jump L p True)"
| "emit_stmt C L (SContinue p) = located p (emit_loop_jump L p False)"
| "emit_stmt C L (SVmAsm p src names) = located p (emit_vm_asm C L p src names)"
| "arm_code C L (TArm p v bound b refs) = (p, v, bound, scoped_block L refs (map (emit_stmt C L) b))"

section \<open>Programs\<close>

definition emit_body :: "genv \<Rightarrow> tfunction \<Rightarrow> function_layout \<Rightarrow> unit gen" where
  "emit_body C f L = bindS (in_order (map (emit_stmt C L) (tf_body f))) (\<lambda>_.
     bindS (emit_arg PUSH_INT 0) (\<lambda>_. emit_op RET))"

fun register_layouts :: "genv \<Rightarrow> tfunction list \<Rightarrow> unit gen" where
  "register_layouts C [] = giveS ()"
| "register_layouts C (f # fs) =
     bindS (askS (\<lambda>g. map_of (g_index g) (tf_name f))) (\<lambda>known.
     if known \<noteq> None then codegen_error ''Duplicate function'' [tf_name f] (tf_pos f)
     else (case build_layout C f of
       Inl e \<Rightarrow> raiseS (CodegenType e)
     | Inr L \<Rightarrow>
         bindS (updS (\<lambda>g. g\<lparr>g_index := g_index g @ [(tf_name f, length (g_functions g))],
           g_functions := g_functions g @ [L]\<rparr>)) (\<lambda>_. register_layouts C fs)))"

fun emit_functions :: "genv \<Rightarrow> nat \<Rightarrow> tfunction list \<Rightarrow> unit gen" where
  "emit_functions C i [] = giveS ()"
| "emit_functions C i (f # fs) =
     bindS here (\<lambda>entry.
     bindS (updS (\<lambda>g. g\<lparr>g_functions := (g_functions g)[i := (g_functions g ! i)\<lparr>lay_entry := entry\<rparr>]\<rparr>)) (\<lambda>_.
     bindS (askS (\<lambda>g. g_functions g ! i)) (\<lambda>L.
     bindS (emit_body C f L) (\<lambda>_. emit_functions C (i + 1) fs))))"

definition function_entry :: "function_layout \<Rightarrow> function_info" where
  "function_entry L = \<lparr>fn_name = lay_name L, entry_pc = lay_entry L, num_locals = lay_num_locals L,
     num_params = lay_num_params L, ref_slots = lay_refs L, param_words = lay_param_words L,
     fn_locals = lay_locals L, source_file = lay_file L\<rparr>"

text \<open>Structs and variants share one table, indexed by type id.\<close>

definition struct_entry :: "bool \<Rightarrow> 'a struct_info_scheme \<Rightarrow> struct_layout" where
  "struct_entry variant info = \<lparr>sl_name = si_name info, word_size = si_word_size info,
     ref_offsets = map sf_offset (filter (\<lambda>f. is_reference_type (sf_type f)) (si_fields info)),
     sl_fields = map (\<lambda>f. \<lparr>fl_name = sf_name f, fl_type_name = type_name (sf_type f), fl_offset = sf_offset f\<rparr>) (si_fields info),
     is_variant = variant\<rparr>"

definition described :: "genv \<Rightarrow> (nat \<times> struct_layout) list" where
  "described C = map (\<lambda>(_, i). (type_id i, struct_entry False i)) (ge_structs C)
     @ map (\<lambda>(_, i). (type_id i, struct_entry True i)) (ge_variants C)"

definition struct_table :: "genv \<Rightarrow> struct_layout option list gen" where
  "struct_table C =
     (let ds = described C;
          highest = foldl max (- 1) (map (int \<circ> fst) ds) in
      if highest > int MAX_TYPE_ID
      then codegen_error ''struct and variant types, but a heap header carries a 16-bit type id'' [dec_int (highest + 1)] (0, 0)
      else giveS (foldl (\<lambda>ls (i, l). ls[i := Some l]) (replicate (nat (highest + 1)) None) ds))"

definition generate :: "genv \<Rightarrow> tfunction list \<Rightarrow> program gen" where
  "generate C fs =
     bindS (register_layouts C fs) (\<lambda>_.
     bindS (emit_functions C 0 fs) (\<lambda>_.
     bindS (struct_table C) (\<lambda>layouts.
     askS (\<lambda>g. \<lparr>code = g_code g, fns = map function_entry (g_functions g), strings = enumerate 0 (g_strings g),
       structs = layouts, srcmap = g_map g, prog_args = []\<rparr>))))"

text \<open>\<open>CodeGenVM().generate(program, ctx)\<close>.\<close>

definition generate_program :: "genv \<Rightarrow> tfunction list \<Rightarrow> codegen_fault + program" where
  "generate_program C fs = bindR (generate C fs new_codegen) (\<lambda>(P, _). Inr P)"

end
