(* ===== verification/Compile.thy ===== *)
theory Compile
  imports CodegenStmt Instructions
begin

text \<open>
  Compiled expressions compute what the source means. The reference is an evaluator of typed \<open>int\<close>
  and \<open>bool\<close> expressions over 16-bit words, with short-circuit logic and undefined operations; the
  code the generator emits, run by the machine, leaves exactly that value on the stack, or faults.
\<close>

section \<open>The meaning of expressions\<close>

definition src_unary :: "ustr \<Rightarrow> 16 word \<Rightarrow> 16 word option" where
  "src_unary o' w =
     (if o' = lit ''-'' then Some (- w)
      else if o' = lit ''!'' then Some (if w = 0 then 1 else 0)
      else if o' = lit ''~'' then Some (not w)
      else None)"

definition src_compare :: "ustr \<Rightarrow> int \<Rightarrow> int \<Rightarrow> bool" where
  "src_compare o' a b =
     (if o' = lit ''=='' then a = b else if o' = lit ''!='' then a \<noteq> b else if o' = lit ''<'' then a < b
      else if o' = lit ''<='' then a \<le> b else if o' = lit ''>'' then a > b else a \<ge> b)"

definition src_binary :: "ustr \<Rightarrow> 16 word \<Rightarrow> 16 word \<Rightarrow> 16 word option" where
  "src_binary o' a b =
     (if o' = lit ''+'' then Some (a + b) else if o' = lit ''-'' then Some (a - b) else if o' = lit ''*'' then Some (a * b)
      else if o' = lit ''/'' then (if b = 0 then None else Some (of_int (sint a sdiv sint b)))
      else if o' = lit ''%'' then (if b = 0 then None else Some (of_int (sint a smod sint b)))
      else if o' = lit ''^'' then Some (semiring_bit_operations_class.xor a b)
      else if o' = lit ''&'' then Some (semiring_bit_operations_class.and a b)
      else if o' = lit ''|'' then Some (semiring_bit_operations_class.or a b)
      else if o' = lit ''<<'' then (if 0 \<le> sint b \<and> sint b \<le> 15 then Some (push_bit (nat (sint b)) a) else None)
      else if o' = lit ''>>'' then (if 0 \<le> sint b \<and> sint b \<le> 15 then Some (signed_drop_bit (nat (sint b)) a) else None)
      else if o' \<in> set COMPARISONS then Some (if src_compare o' (sint a) (sint b) then 1 else 0)
      else None)"

fun eval :: "(symbol \<Rightarrow> 16 word) \<Rightarrow> texpr \<Rightarrow> 16 word option" where
  "eval \<sigma> (TLit p t v) = (case v of LInt n \<Rightarrow> Some (of_nat n) | LBool b \<Rightarrow> Some (if b then 1 else 0) | _ \<Rightarrow> None)"
| "eval \<sigma> (TLocal p t sy) = Some (\<sigma> sy)"
| "eval \<sigma> (TUnary p t o' r) = (case eval \<sigma> r of None \<Rightarrow> None | Some w \<Rightarrow> src_unary o' w)"
| "eval \<sigma> (TBinary p t l o' r) =
     (case eval \<sigma> l of
        None \<Rightarrow> None
      | Some a \<Rightarrow>
          if o' = lit ''&&'' then
            (if a = 0 then Some 0 else (case eval \<sigma> r of None \<Rightarrow> None | Some b \<Rightarrow> Some (if b = 0 then 0 else 1)))
          else if o' = lit ''||'' then
            (if a \<noteq> 0 then Some 1 else (case eval \<sigma> r of None \<Rightarrow> None | Some b \<Rightarrow> Some (if b \<noteq> 0 then 1 else 0)))
          else (case eval \<sigma> r of None \<Rightarrow> None | Some b \<Rightarrow> src_binary o' a b))"
| "eval \<sigma> e = None"

text \<open>The expressions over \<open>int\<close> and \<open>bool\<close> without calls and memory.\<close>

definition scalar_type :: "qtype \<Rightarrow> bool" where
  "scalar_type t \<longleftrightarrow> t = TInt \<or> t = TBool"

fun scalar :: "texpr \<Rightarrow> bool" where
  "scalar (TLit p t v) = (case v of LInt n \<Rightarrow> t = TInt | LBool b \<Rightarrow> t = TBool | _ \<Rightarrow> False)"
| "scalar (TLocal p t sy) = (scalar_type t \<and> sym_type sy = t)"
| "scalar (TUnary p t o' r) = (o' \<in> {lit ''-'', lit ''!'', lit ''~''} \<and> scalar_type t \<and> scalar r)"
| "scalar (TBinary p t l o' r) =
     (o' \<in> {lit ''&&'', lit ''||''} \<union> fst ` set binary_ops \<and> scalar_type t \<and> scalar l \<and> scalar r)"
| "scalar e = False"

lemma scalar_get_type: "scalar e \<Longrightarrow> scalar_type (get_type e)"
  by (cases e) (auto simp: scalar_type_def split: literal_value.splits)

lemma scalar_type_simps: "scalar_type t \<Longrightarrow> t \<noteq> TFloat \<and> t \<noteq> TStr"
  by (auto simp: scalar_type_def TInt_def TBool_def TFloat_def TStr_def)

section \<open>Configurations of the machine\<close>

definition conf :: "'w vm \<Rightarrow> nat \<Rightarrow> nat list \<Rightarrow> bool list \<Rightarrow> 'w vm" where
  "conf s k vs rs = with_stack vs rs (s\<lparr>pc := int k\<rparr>)"

lemma conf_simps [simp]:
  "frame_base (conf s k vs rs) = frame_base s" "locals (conf s k vs rs) = locals s"
  "current_fn (conf s k vs rs) = current_fn s" "pc (conf s k vs rs) = int k"
  "(conf s k vs rs)\<lparr>pc := int j\<rparr> = conf s j vs rs"
  by (simp_all add: conf_def with_stack_def)

lemma conf_pop [simp]:
  "frame_base s \<le> length vs \<Longrightarrow> pop (conf s k (v # vs) (r # rs)) = Inr (v, conf s k vs rs)"
  "frame_base s \<le> length vs \<Longrightarrow> pop2 (conf s k (b # a # vs) (rb # ra # rs)) = Inr (a, b, conf s k vs rs)"
  "push x r (conf s k vs rs) = conf s k (mask16 x # vs) (r # rs)"
  by (simp_all add: conf_def)

lemma step_conf:
  assumes "k < length (code P)"
  shows "step ops P (conf s k vs rs) = exec ops P (code P ! k) (conf s (k + 1) vs rs)"
proof -
  have "int k + 1 = int (k + 1)" by simp
  then show ?thesis using assms by (simp only: step_def conf_simps py_index_nat) simp
qed

lemma conf_step:
  "step ops P (conf s k vs rs) = Inr (Running t) \<Longrightarrow> reaches ops P (conf s k vs rs) t"
  by (blast intro: reaches.intros vm_step.intros)

lemma reaches_trans: "reaches ops P t u \<Longrightarrow> reaches ops P s t \<Longrightarrow> reaches ops P s u"
  by (induction rule: reaches.induct) (auto intro: reaches.intros)

text \<open>The code of the program from \<open>i\<close> on is what has been emitted.\<close>

definition code_at :: "program \<Rightarrow> nat \<Rightarrow> bytecode \<Rightarrow> bool" where
  "code_at P i c \<longleftrightarrow> length c \<le> length (code P) \<and> (\<forall>k. i \<le> k \<and> k < length c \<longrightarrow> code P ! k = c ! k)"

text \<open>Running from \<open>t\<close> gives a value and the state \<open>k\<close> makes of it, or faults.\<close>

definition outcome :: "'w io_ops \<Rightarrow> program \<Rightarrow> 'w vm \<Rightarrow> 'a option \<Rightarrow> ('a \<Rightarrow> 'w vm) \<Rightarrow> bool" where
  "outcome ops P t r k \<longleftrightarrow>
     (case r of
        Some w \<Rightarrow> reaches ops P t (k w)
      | None \<Rightarrow> \<exists>u f. reaches ops P t u \<and> step ops P u = fault f)"

lemma outcome_simps [simp]:
  "outcome ops P t (Some w) k = reaches ops P t (k w)"
  "outcome ops P t None k = (\<exists>u f. reaches ops P t u \<and> step ops P u = fault f)"
  by (simp_all add: outcome_def)

lemma outcome_reach: "reaches ops P t u \<Longrightarrow> outcome ops P u r k \<Longrightarrow> outcome ops P t r k"
  by (cases r) (auto intro: reaches_trans)

lemma outcome_bind:
  "outcome ops P t r k \<Longrightarrow> (\<And>w. r = Some w \<Longrightarrow> outcome ops P (k w) (f w) k')
    \<Longrightarrow> outcome ops P t (case r of None \<Rightarrow> None | Some w \<Rightarrow> f w) k'"
  by (cases r) (auto intro: outcome_reach)

lemma outcome_running: "step ops P t = Inr (Running u) \<Longrightarrow> outcome ops P u r k \<Longrightarrow> outcome ops P t r k"
  by (blast intro: outcome_reach reaches.intros vm_step.intros)

text \<open>The frame holds the variables: each in its slot, none of them a reference.\<close>

definition frame_holds :: "program \<Rightarrow> function_layout \<Rightarrow> (symbol \<Rightarrow> 16 word) \<Rightarrow> 'w vm \<Rightarrow> bool" where
  "frame_holds P L \<sigma> s \<longleftrightarrow>
     (\<forall>sy sl. map_of (lay_slots L) sy = Some sl \<and> scalar_type (sym_type sy) \<longrightarrow>
        slot_index sl < length (locals s) \<and> locals s ! slot_index sl = unat (\<sigma> sy)
        \<and> slot_index sl \<notin> set (current_ref_slots P s))"

section \<open>Single instructions\<close>

lemma mask16_word: "mask16 (int (unat (w :: 16 word))) = unat w"
proof -
  have "uint w < 65536" using unsigned_less [of w, where ?'a = int] by simp
  then show ?thesis by (subst mask16_small) simp_all
qed

lemma word_of_unat [simp]: "word_of (unat w) = w"
  by (simp add: word_of_def)

lemma to_signed_unat [simp]: "to_signed (unat w) = sint (w :: 16 word)"
  using sint_word_of [of "unat w"] unfolding word_of_unat by (rule sym)

lemma unat_less16 [simp]: "unat (w :: 16 word) < 65536"
  using unsigned_less [of w, where ?'a = nat] by simp

lemma word_of_eqD: "v < 65536 \<Longrightarrow> word_of v = w \<Longrightarrow> v = unat w"
  using word_of_inj [of v "unat w"] by simp

lemma step_binop:
  assumes "k < length (code P)" and "code P ! k = instr oc None" and "oc \<in> set binops" and "frame_base s \<le> length vs"
  shows "case word_binop oc a b of
      Some w \<Rightarrow> step ops P (conf s k (unat b # unat a # vs) (False # False # rs))
        = Inr (Running (conf s (k + 1) (unat w # vs) (False # rs)))
    | None \<Rightarrow> \<exists>f. step ops P (conf s k (unat b # unat a # vs) (False # False # rs)) = fault f"
proof -
  have "refines_word P (instr oc None) (s\<lparr>pc := int (k + 1)\<rparr>) vs rs (unat a, False) (unat b, False)"
    using assms(3,4) by (intro refines_binops) simp_all
  note r = this [unfolded refines_word_def fst_conv snd_conv, folded conf_def, unfolded word_of_unat]
  have st: "step ops P (conf s k us ts) = exec ops P (instr oc None) (conf s (k + 1) us ts)" for us ts
    using step_conf [OF assms(1)] by (simp only: assms(2))
  have ex: "exec ops P (instr oc None) u = running m" if "exec_int P (instr oc None) u = Some m" for u m
    using that assms(3) by (auto simp: exec_def exec_control_def exec_plain_def binops_def)
  show ?thesis
  proof (cases "word_binop oc a b")
    case None
    with r show ?thesis unfolding st by (auto simp: running_def dest!: ex)
  next
    case (Some w)
    with r show ?thesis unfolding st by (auto simp: running_def dest!: ex word_of_eqD)
  qed
qed

lemma outcome_binop:
  assumes "k < length (code P)" and "code P ! k = instr oc None" and "oc \<in> set binops" and "frame_base s \<le> length vs"
  shows "outcome ops P (conf s k (unat b # unat a # vs) (False # False # rs)) (word_binop oc a b)
    (\<lambda>w. conf s (k + 1) (unat w # vs) (False # rs))"
  using step_binop [OF assms, where a = a and b = b and ops = ops and rs = rs]
  by (cases "word_binop oc a b") (auto intro: conf_step reaches.intros)

lemma exec_conf:
  assumes "k < length (code P)" and "code P ! k = instr oc a" and "exec ops P (instr oc a) (conf s (k + 1) vs rs) = Inr (Running u)"
  shows "step ops P (conf s k vs rs) = Inr (Running u)"
  unfolding step_conf [OF assms(1)] assms(2) by (rule assms(3))

lemmas exec_one = exec_def exec_control_def exec_plain_def exec_int_def exec_compare_def operand_def running_def

lemma step_push:
  assumes "k < length (code P)" and "code P ! k = instr PUSH_INT (Some n)"
  shows "step ops P (conf s k vs rs) = Inr (Running (conf s (k + 1) (mask16 n # vs) (False # rs)))"
  by (rule exec_conf [OF assms]) (simp add: exec_one)

lemma step_unary:
  assumes "k < length (code P)" and "code P ! k = instr oc None" and "frame_base s \<le> length vs"
  shows "oc = NEG \<Longrightarrow> step ops P (conf s k (v # vs) (r # rs)) = Inr (Running (conf s (k + 1) (mask16 (- int v) # vs) (False # rs)))"
    and "oc = NOT \<Longrightarrow> step ops P (conf s k (v # vs) (r # rs))
      = Inr (Running (conf s (k + 1) ((if v \<noteq> 0 then 0 else 1) # vs) (False # rs)))"
    and "oc = BITNOT \<Longrightarrow> step ops P (conf s k (v # vs) (r # rs))
      = Inr (Running (conf s (k + 1) (mask16 (not (int v)) # vs) (False # rs)))"
  by (rule exec_conf [OF assms(1,2)]; simp add: exec_one assms(3); simp add: mask16_def)+

lemma step_load:
  assumes "k < length (code P)" and "code P ! k = instr LOAD_LOCAL (Some (int n))" and "n < length (locals s)"
    and "n \<notin> set (current_ref_slots P s)"
  shows "step ops P (conf s k vs rs) = Inr (Running (conf s (k + 1) (mask16 (int (locals s ! n)) # vs) (False # rs)))"
proof -
  have "current_ref_slots P (conf s j us ts) = current_ref_slots P s" for j us ts
    by (simp add: current_ref_slots_def)
  moreover have "get_local (conf s j us ts) (int n) = Inr (locals s ! n)" for j us ts
    using assms(3) by (simp add: get_local_def)
  ultimately show ?thesis
    using assms(4) by (intro exec_conf [OF assms(1,2)]) (simp add: exec_one image_iff)
qed

lemma step_compare:
  assumes "k < length (code P)" and "code P ! k = instr oc None" and "frame_base s \<le> length vs"
    and "oc \<in> {CMP_EQ, CMP_NE, CMP_LT, CMP_LE, CMP_GT, CMP_GE}"
  shows "step ops P (conf s k (b # a # vs) (rb # ra # rs)) = Inr (Running (conf s (k + 1)
    ((if compare oc (to_signed a) (to_signed b) then 1 else 0) # vs) (False # rs)))"
proof -
  have "exec_compare (instr oc None) u = Some r \<Longrightarrow> exec ops P (instr oc None) u = running r" for u r
    using assms(4) by (auto simp: exec_def exec_control_def exec_plain_def exec_int_def exec_float_def)
  moreover have "mask16 (of_bool_int c) = (if c then 1 else 0)" for c by (simp add: of_bool_int_def mask16_def)
  ultimately show ?thesis
    using assms(3,4) by (intro exec_conf [OF assms(1,2)]) (simp add: exec_compare_def running_def)
qed

lemma step_jumps:
  assumes "k < length (code P)" and "code P ! k = instr oc (Some (int n))"
  shows "oc = JMP \<Longrightarrow> step ops P (conf s k vs rs) = Inr (Running (conf s n vs rs))"
    and "oc = JZ \<Longrightarrow> frame_base s \<le> length vs \<Longrightarrow>
      step ops P (conf s k (v # vs) (r # rs)) = Inr (Running (conf s (if v = 0 then n else k + 1) vs rs))"
    and "oc = JNZ \<Longrightarrow> frame_base s \<le> length vs \<Longrightarrow>
      step ops P (conf s k (v # vs) (r # rs)) = Inr (Running (conf s (if v \<noteq> 0 then n else k + 1) vs rs))"
  by (rule exec_conf [OF assms]; simp add: exec_one)+

section \<open>What is emitted\<close>

definition grows :: "bytecode \<Rightarrow> bytecode \<Rightarrow> bool" where
  "grows c c' \<longleftrightarrow> length c \<le> length c' \<and> (\<forall>k < length c. c' ! k = c ! k)"

lemma grows_refl [simp]: "grows c c" and grows_append [simp]: "grows c (c @ d)"
  by (simp_all add: grows_def nth_append)

lemma grows_trans: "grows c d \<Longrightarrow> grows d e \<Longrightarrow> grows c e"
  by (auto simp: grows_def)

lemma code_at_grows: "code_at P i c' \<Longrightarrow> grows c c' \<Longrightarrow> i \<le> j \<Longrightarrow> code_at P j c"
  by (auto simp: code_at_def grows_def)

lemma code_at_nth: "code_at P i c \<Longrightarrow> i \<le> k \<Longrightarrow> k < length c \<Longrightarrow> k < length (code P) \<and> code P ! k = c ! k"
  by (auto simp: code_at_def)

lemma located_Inr:
  assumes "located p m g = Inr (u, g')"
  obtains g1 g2 where "m g1 = Inr ((), g2)" and "g_code g1 = g_code g" and "g_code g' = g_code g2"
proof -
  from assms obtain outer g1 g2 where "enter p g = Inr (outer, g1)" "m g1 = Inr ((), g2)" "leave outer g2 = Inr (u, g')"
    by (auto simp: located_def result_simps)
  then show ?thesis
    by (intro that [of g1 g2]) (auto simp: enter_def leave_def result_simps split: option.splits)
qed

lemma emit_Inr [result_simps]: "emit oc a g = Inr (u, g') \<longleftrightarrow> g' = g\<lparr>g_code := g_code g @ [instr oc a]\<rparr>"
  by (simp add: emit_def result_simps)

text \<open>The generator's own steps always succeed, so they can be run.\<close>

lemma gen_run:
  "emit oc a g = Inr ((), g\<lparr>g_code := g_code g @ [instr oc a]\<rparr>)"
  "bindS (emit oc a) f g = f () (g\<lparr>g_code := g_code g @ [instr oc a]\<rparr>)"
  "bindS (emit_jump oc) f2 g = f2 (length (g_code g)) (g\<lparr>g_code := g_code g @ [instr oc (Some 0)]\<rparr>)"
  "bindS here f2 g = f2 (length (g_code g)) g"
  "patch i t g = Inr ((), g\<lparr>g_code := (g_code g)[i := (g_code g ! i)\<lparr>arg := Some (int t)\<rparr>]\<rparr>)"
  "bindS (patch i t) f g = f () (g\<lparr>g_code := (g_code g)[i := (g_code g ! i)\<lparr>arg := Some (int t)\<rparr>]\<rparr>)"
  "patch_here i g = patch i (length (g_code g)) g"
  "bindS (patch_here i) f g = f () (g\<lparr>g_code := (g_code g)[i := (g_code g ! i)\<lparr>arg := Some (int (length (g_code g)))\<rparr>]\<rparr>)"
  by (simp_all add: bindS_def emit_def emit_jump_def here_def patch_def patch_here_def updS_def askS_def giveS_def)

lemma emit_logical_Inr:
  assumes "emit_logical test a b l r g = Inr (u, g')"
    and "\<And>h h'. r h = Inr ((), h') \<Longrightarrow> grows (g_code h) (g_code h')"
  obtains g1 h g2 where "l g = Inr ((), g1)" and "g_code h = g_code g1 @ [instr test (Some 0)]"
    and "r h = Inr ((), g2)" and "grows (g_code h) (g_code g2)"
    and "g_code g' = (g_code g2)[length (g_code g1) := instr test (Some (int (3 + length (g_code g2))))]
      @ [instr test (Some (int (3 + length (g_code g2)))), instr PUSH_INT (Some (int a)),
         instr JMP (Some (int (4 + length (g_code g2)))), instr PUSH_INT (Some (int b))]"
proof -
  obtain g1 where l: "l g = Inr ((), g1)"
    and k: "bindS (emit_jump test) (\<lambda>j1. bindS r (\<lambda>_. bindS (emit_jump test) (\<lambda>j2. bindS (emit_arg PUSH_INT a) (\<lambda>_.
      bindS (emit_jump JMP) (\<lambda>j3. bindS here (\<lambda>target. bindS (emit_arg PUSH_INT b) (\<lambda>_. bindS (patch j1 target) (\<lambda>_.
      bindS (patch j2 target) (\<lambda>_. patch_here j3))))))))) g1 = Inr (u, g')"
    using assms(1) unfolding emit_logical_def bindS_Inr [of l] by auto
  let ?h = "g1\<lparr>g_code := g_code g1 @ [instr test (Some 0)]\<rparr>"
  obtain g2 where r: "r ?h = Inr ((), g2)" and t: "bindS (emit_jump test) (\<lambda>j2. bindS (emit_arg PUSH_INT a) (\<lambda>_.
      bindS (emit_jump JMP) (\<lambda>j3. bindS here (\<lambda>target. bindS (emit_arg PUSH_INT b) (\<lambda>_.
      bindS (patch (length (g_code g1)) target) (\<lambda>_. bindS (patch j2 target) (\<lambda>_. patch_here j3))))))) g2 = Inr (u, g')"
    using k unfolding gen_run(3) bindS_Inr [of r] by auto
  have g: "grows (g_code ?h) (g_code g2)" by (rule assms(2) [OF r])
  then have n1: "length (g_code g1) < length (g_code g2)" "g_code g2 ! length (g_code g1) = instr test (Some 0)"
    by (auto simp: grows_def dest: spec [of _ "length (g_code g1)"])
  show ?thesis
    using n1 t by (intro that [OF l _ r g]) (auto simp: gen_run list_update_append nth_append nth_list_update)
qed

section \<open>Operators\<close>

lemma binary_ops_cases:
  assumes "map_of binary_ops o' = Some oc"
  shows "oc \<in> set binops \<and> o' \<notin> set COMPARISONS \<and> src_binary o' a b = word_binop oc a b
    \<or> oc \<in> {CMP_EQ, CMP_NE, CMP_LT, CMP_LE, CMP_GT, CMP_GE} \<and> o' \<in> set COMPARISONS
      \<and> src_binary o' a b = Some (if compare oc (sint a) (sint b) then 1 else 0)"
proof -
  have "(o', oc) \<in> set binary_ops" by (rule map_of_SomeD [OF assms])
  then show ?thesis
    unfolding binary_ops_def set_simps
    by (elim insertE emptyE; simp add: binops_def COMPARISONS_def src_binary_def src_compare_def word_binop_def compare_def)
qed

lemma emit_operator_scalar:
  assumes "map_of binary_ops o' = Some oc" and "scalar_type t"
  shows "emit_operator oc o' t = emit_op oc"
  using scalar_type_simps [OF assms(2)] by (auto simp: emit_operator_def split: option.splits)

lemma emit_binary_scalar:
  assumes "o' \<in> {lit ''&&'', lit ''||''} \<union> fst ` set binary_ops" and "scalar_type t"
  shows "o' = lit ''&&'' \<and> emit_binary p o' t l r = emit_logical JZ 1 0 l r
    \<or> o' = lit ''||'' \<and> emit_binary p o' t l r = emit_logical JNZ 0 1 l r
    \<or> o' \<noteq> lit ''&&'' \<and> o' \<noteq> lit ''||'' \<and> (\<exists>oc. map_of binary_ops o' = Some oc
      \<and> emit_binary p o' t l r = bindS l (\<lambda>_. bindS r (\<lambda>_. emit_op oc)))"
proof (cases "map_of binary_ops o'")
  case None
  then have "o' \<notin> fst ` set binary_ops" by (simp add: map_of_eq_None_iff)
  with assms(1) show ?thesis by (auto simp: emit_binary_def)
next
  case (Some oc)
  then show ?thesis using assms(2) by (simp add: emit_binary_def emit_operator_scalar)
qed

section \<open>Expressions\<close>

lemma emit_scalar_grows: "scalar e \<Longrightarrow> emit_expr C L e g = Inr (u, g') \<Longrightarrow> grows (g_code g) (g_code g')"
proof (induction e arbitrary: g g' u)
  case (TLit p t v)
  then show ?case
    by (auto elim!: located_Inr simp: emit_literal_def gen_run split: literal_value.splits)
next
  case (TLocal p t sy)
  then show ?case
    by (auto elim!: located_Inr simp: emit_local_def slot_of_def codegen_error_def gen_run result_simps
      split: option.splits if_splits)
next
  case (TUnary p t o' r)
  from TUnary.prems(2) obtain g1 g2 where "bindS (emit_expr C L r) (\<lambda>_. emit_unary p t o') g1 = Inr ((), g2)"
    and c: "g_code g1 = g_code g" "g_code g' = g_code g2"
    by (auto elim: located_Inr)
  then obtain h where "emit_expr C L r g1 = Inr ((), h)" "emit_unary p t o' h = Inr ((), g2)"
    by (auto simp: bindS_Inr)
  with TUnary c show ?case
    by (auto simp: emit_unary_def gen_run codegen_error_def result_simps split: if_splits dest!: TUnary.IH intro: grows_trans)
next
  case (TBinary p t l o' r)
  then have sc: "scalar l" "scalar r" and st: "scalar_type (get_type l)" by (simp_all add: scalar_get_type)
  from TBinary.prems(2) obtain g1 g2
    where e: "emit_binary p o' (get_type l) (emit_expr C L l) (emit_expr C L r) g1 = Inr ((), g2)"
    and c: "g_code g1 = g_code g" "g_code g' = g_code g2"
    by (auto elim: located_Inr)
  have logical: "grows (g_code g1) (g_code g2)"
    if "emit_logical test a b (emit_expr C L l) (emit_expr C L r) g1 = Inr ((), g2)" for test a b
  proof -
    have "emit_expr C L r h = Inr ((), h') \<Longrightarrow> grows (g_code h) (g_code h')" for h h'
      using TBinary.IH(2) sc by blast
    from that this obtain h1 h h2 where "emit_expr C L l g1 = Inr ((), h1)"
      and "g_code h = g_code h1 @ [instr test (Some 0)]" and "emit_expr C L r h = Inr ((), h2)" and "grows (g_code h) (g_code h2)"
      and "g_code g2 = (g_code h2)[length (g_code h1) := instr test (Some (int (3 + length (g_code h2))))]
        @ [instr test (Some (int (3 + length (g_code h2)))), instr PUSH_INT (Some (int a)),
           instr JMP (Some (int (4 + length (g_code h2)))), instr PUSH_INT (Some (int b))]"
      by (rule emit_logical_Inr)
    moreover from this TBinary.IH(1) sc have "grows (g_code g1) (g_code h1)" by blast
    ultimately show ?thesis by (auto simp: grows_def nth_append nth_list_update)
  qed
  have plain: "grows (g_code g1) (g_code g2)"
    if "bindS (emit_expr C L l) (\<lambda>_. bindS (emit_expr C L r) (\<lambda>_. emit_op oc)) g1 = Inr ((), g2)" for oc
  proof -
    from that obtain h1 h2 where "emit_expr C L l g1 = Inr ((), h1)" "emit_expr C L r h1 = Inr ((), h2)"
      and "g_code g2 = g_code h2 @ [instr oc None]"
      by (auto simp: bindS_Inr emit_Inr)
    with TBinary.IH sc show ?thesis by (metis grows_append grows_trans)
  qed
  have "grows (g_code g1) (g_code g2)"
    using emit_binary_scalar [of o' "get_type l" p "emit_expr C L l" "emit_expr C L r"] TBinary.prems(1) e st logical plain
    by (metis scalar.simps(4))
  with c show ?case by simp
qed simp_all

lemma outcome_logical:
  fixes a b :: "16 word"
  assumes left: "outcome ops P (conf s n0 vs rs) rl (\<lambda>w. conf s n1 (unat w # vs) (False # rs))"
    and right: "outcome ops P (conf s (n1 + 1) vs rs) rr (\<lambda>w. conf s n2 (unat w # vs) (False # rs))"
    and code: "n2 + 3 < length (code P)" "n1 < n2" "code P ! n1 = instr test (Some (int (3 + n2)))"
      "code P ! n2 = instr test (Some (int (3 + n2)))" "code P ! (n2 + 1) = instr PUSH_INT (Some (int (unat a)))"
      "code P ! (n2 + 2) = instr JMP (Some (int (4 + n2)))" "code P ! (n2 + 3) = instr PUSH_INT (Some (int (unat b)))"
    and base: "frame_base s \<le> length vs"
    and test: "test = JZ \<and> T = (\<lambda>w. w = 0) \<or> test = JNZ \<and> T = (\<lambda>w. w \<noteq> 0)"
  shows "outcome ops P (conf s n0 vs rs)
    (case rl of None \<Rightarrow> None | Some x \<Rightarrow> if T x then Some b
       else (case rr of None \<Rightarrow> None | Some y \<Rightarrow> Some (if T y then b else a)))
    (\<lambda>w. conf s (n2 + 4) (unat w # vs) (False # rs))"
proof (rule outcome_bind [OF left])
  fix x
  let ?after = "\<lambda>w. conf s (n2 + 4) (unat w # vs) (False # rs)"
  have jump: "step ops P (conf s k (unat w # vs) (r # rs)) = Inr (Running (conf s (if T w then n2 + 3 else k + 1) vs rs))"
    if "k = n1 \<or> k = n2" for k r w
    using test step_jumps(2,3) [of k P test "3 + n2" s vs ops "unat w" r rs] that code base
    by (auto simp: unat_eq_0 add.commute)
  have short: "outcome ops P (conf s (n2 + 3) vs rs) (Some b) ?after"
    using step_push [of "n2 + 3" P "int (unat b)" ops s vs rs] code
    by (auto simp: mask16_word add.commute simp del: of_nat_unat intro: conf_step)
  have through: "outcome ops P (conf s (n2 + 1) vs rs) (Some a) ?after"
    using step_push [of "n2 + 1" P "int (unat a)" ops s vs rs] code
      step_jumps(1) [of "n2 + 2" P JMP "4 + n2" ops s "unat a # vs" "False # rs"]
    by (auto simp: mask16_word add.commute simp del: of_nat_unat intro: reaches_trans conf_step)
  show "outcome ops P (conf s n1 (unat x # vs) (False # rs)) (if T x then Some b
      else (case rr of None \<Rightarrow> None | Some y \<Rightarrow> Some (if T y then b else a))) ?after"
  proof (rule outcome_running [OF jump])
    show "n1 = n1 \<or> n1 = n2" by simp
    have "outcome ops P (conf s n2 (unat y # vs) (False # rs)) (Some (if T y then b else a)) ?after" for y
      using short through by (intro outcome_running [OF jump]) auto
    with short right show "outcome ops P (conf s (if T x then n2 + 3 else n1 + 1) vs rs) (if T x then Some b
        else (case rr of None \<Rightarrow> None | Some y \<Rightarrow> Some (if T y then b else a))) ?after"
      by (auto simp del: outcome_simps intro: outcome_bind)
  qed
qed

lemma frame_holds_load:
  assumes "frame_holds P L \<sigma> s" and "map_of (lay_slots L) sy = Some sl" and "scalar_type (sym_type sy)"
    and "k < length (code P)" and "code P ! k = instr LOAD_LOCAL (Some (int (slot_index sl)))"
  shows "step ops P (conf s k vs rs) = Inr (Running (conf s (k + 1) (unat (\<sigma> sy) # vs) (False # rs)))"
  using assms(1-3) step_load [OF assms(4,5), where s = s] unfolding frame_holds_def by (auto simp: mask16_word simp del: of_nat_unat)

text \<open>One operand and an operator.\<close>

lemma outcome_unary:
  assumes "o' \<in> {lit ''-'', lit ''!'', lit ''~''}" and "emit_unary p t o' g = Inr (u, g')" and "scalar_type t"
    and "code_at P (length (g_code g)) (g_code g')" and "frame_base s \<le> length vs"
  shows "length (g_code g') = length (g_code g) + 1
    \<and> outcome ops P (conf s (length (g_code g)) (unat w # vs) (False # rs)) (src_unary o' w)
      (\<lambda>w. conf s (length (g_code g')) (unat w # vs) (False # rs))"
proof -
  define k where "k = length (g_code g)"
  have words: "mask16 (- int (unat w)) = unat (- w)" "mask16 (not (int (unat w))) = unat (not w)"
  proof -
    have "word_of (mask16 (- int (unat w))) = - w" unfolding word_of_mask16 by simp
    then show "mask16 (- int (unat w)) = unat (- w)" by (intro word_of_eqD mask16_less)
    have "word_of (mask16 (not (int (unat w)))) = not w" unfolding word_of_mask16 by (simp add: of_int_not_eq)
    then show "mask16 (not (int (unat w))) = unat (not w)" by (intro word_of_eqD mask16_less)
  qed
  have t: "t \<noteq> TFloat" by (simp add: scalar_type_simps assms(3))
  from assms(1,2) t obtain oc where g': "g_code g' = g_code g @ [instr oc None]"
    and oc: "o' = lit ''-'' \<and> oc = NEG \<or> o' = lit ''!'' \<and> oc = NOT \<or> o' = lit ''~'' \<and> oc = BITNOT"
    by (auto simp: emit_unary_def gen_run)
  have c: "k < length (code P)" "code P ! k = instr oc None"
    using code_at_nth [OF assms(4), of k] by (simp_all add: g' k_def)
  have "\<exists>w'. src_unary o' w = Some w' \<and> step ops P (conf s k (unat w # vs) (False # rs))
      = Inr (Running (conf s (k + 1) (unat w' # vs) (False # rs)))"
    using oc step_unary [OF c assms(5), where v = "unat w", unfolded words] by (auto simp: src_unary_def unat_eq_0)
  then show ?thesis by (auto simp: g' k_def intro: conf_step)
qed

lemma outcome_operator:
  assumes "map_of binary_ops o' = Some oc" and "k < length (code P)" and "code P ! k = instr oc None"
    and "frame_base s \<le> length vs"
  shows "outcome ops P (conf s k (unat b # unat a # vs) (False # False # rs)) (src_binary o' a b)
    (\<lambda>w. conf s (k + 1) (unat w # vs) (False # rs))"
proof (cases "oc \<in> set binops")
  case True
  then show ?thesis
    using binary_ops_cases [OF assms(1), of a b] outcome_binop [OF assms(2,3) _ assms(4)] by (auto simp: binops_def)
next
  case False
  then have c: "oc \<in> {CMP_EQ, CMP_NE, CMP_LT, CMP_LE, CMP_GT, CMP_GE}"
    and v: "src_binary o' a b = Some (if compare oc (sint a) (sint b) then 1 else 0)"
    using binary_ops_cases [OF assms(1), of a b] by auto
  have "unat (if x then 1 else 0 :: 16 word) = (if x then 1 else 0)" for x by simp
  with step_compare [OF assms(2-4) c, of ops "unat b" "unat a" False False rs] v show ?thesis
    by (simp add: conf_step)
qed

lemma of_nat_mod_word: "(of_nat (n mod 65536) :: 16 word) = of_nat n"
  by (simp add: word_unat_eq_iff unat_of_nat)

lemma literal_code:
  assumes "scalar (TLit p t v)"
  shows "\<exists>n. eval \<sigma> (TLit p t v) = Some (of_nat n) \<and> n < 65536 \<and> emit_literal v = emit_arg PUSH_INT n"
proof (cases v)
  case (LInt n)
  then show ?thesis
    by (intro exI [of _ "n mod 65536"]) (simp add: emit_literal_def of_nat_mod_word del: of_nat_mod)
next
  case (LBool b)
  then show ?thesis by (intro exI [of _ "if b then 1 else 0"]) (simp add: emit_literal_def)
qed (use assms in auto)

lemma expression_outcome:
  assumes "scalar e" and "emit_expr C L e g = Inr (u, g')" and "code_at P (length (g_code g)) (g_code g')"
    and "frame_holds P L \<sigma> s" and "frame_base s \<le> length vs"
  shows "outcome ops P (conf s (length (g_code g)) vs rs) (eval \<sigma> e)
    (\<lambda>w. conf s (length (g_code g')) (unat w # vs) (False # rs))"
  using assms
proof (induction e arbitrary: g g' u vs rs)
  case (TLit p t v)
  obtain n where w: "eval \<sigma> (TLit p t v) = Some (of_nat n)" "n < 65536"
    and m: "emit_literal v = emit_arg PUSH_INT n"
    using literal_code [OF TLit.prems(1)] by blast
  from TLit.prems(2) have g': "g_code g' = g_code g @ [instr PUSH_INT (Some (int n))]"
    by (auto elim!: located_Inr simp: m gen_run)
  have "unat (of_nat n :: 16 word) = n" using w by (simp add: unat_of_nat)
  moreover have "mask16 (int n) = n" using w(2) by (simp add: mask16_small)
  ultimately show ?case
    using step_push [of "length (g_code g)" P "int n" ops s vs rs] code_at_nth [OF TLit.prems(3), of "length (g_code g)"] w(1)
    by (simp add: g' conf_step)
next
  case (TLocal p t sy)
  then obtain sl where sl: "map_of (lay_slots L) sy = Some sl" "scalar_type (sym_type sy)"
    and g': "g_code g' = g_code g @ [instr LOAD_LOCAL (Some (int (slot_index sl)))]"
    by (auto elim!: located_Inr simp: emit_local_def slot_of_def codegen_error_def gen_run result_simps scalar_type_simps
      split: option.splits if_splits)
  show ?case
    using frame_holds_load [OF TLocal.prems(4) sl, of "length (g_code g)" ops vs rs]
      code_at_nth [OF TLocal.prems(3), of "length (g_code g)"]
    by (simp add: g' conf_step)
next
  case (TUnary p t o' r)
  from TUnary.prems(2) obtain g1 h g2 where r: "emit_expr C L r g1 = Inr ((), h)"
    and o: "emit_unary p t o' h = Inr ((), g2)" and c: "g_code g1 = g_code g" "g_code g' = g_code g2"
    by (auto simp: bindS_Inr elim!: located_Inr)
  have gr: "grows (g_code g1) (g_code h)" using TUnary.prems(1) r by (auto intro: emit_scalar_grows)
  have op: "o' \<in> {lit ''-'', lit ''!'', lit ''~''}" "scalar_type t" using TUnary.prems(1) by auto
  obtain oc where g2: "g_code g2 = g_code h @ [instr oc None]"
    using o op(1) by (auto simp: emit_unary_def gen_run)
  have "outcome ops P (conf s (length (g_code g1)) vs rs) (eval \<sigma> r)
      (\<lambda>w. conf s (length (g_code h)) (unat w # vs) (False # rs))"
    using TUnary.prems r c g2 by (intro TUnary.IH) (auto intro: code_at_grows)
  moreover have "outcome ops P (conf s (length (g_code h)) (unat w # vs) (False # rs)) (src_unary o' w)
      (\<lambda>w. conf s (length (g_code g')) (unat w # vs) (False # rs))" for w
  proof -
    have "length (g_code g) \<le> length (g_code h)" using gr c by (simp add: grows_def)
    then have "code_at P (length (g_code h)) (g_code g2)"
      using TUnary.prems(3) c by (auto intro: code_at_grows)
    from outcome_unary [OF op(1) o op(2) this TUnary.prems(5)] show ?thesis unfolding c by blast
  qed
  ultimately show ?case using c by (simp del: outcome_simps) (blast intro: outcome_bind)
next
  case (TBinary p t l o' r)
  then have sc: "scalar l" "scalar r" and st: "scalar_type (get_type l)" by (simp_all add: scalar_get_type)
  from TBinary.prems(2) obtain g1 g2
    where e: "emit_binary p o' (get_type l) (emit_expr C L l) (emit_expr C L r) g1 = Inr ((), g2)"
    and c: "g_code g1 = g_code g" "g_code g' = g_code g2"
    by (auto elim: located_Inr)
  have plain: ?case if o: "o' \<noteq> lit ''&&''" "o' \<noteq> lit ''||''" "map_of binary_ops o' = Some oc"
    and m: "bindS (emit_expr C L l) (\<lambda>_. bindS (emit_expr C L r) (\<lambda>_. emit_op oc)) g1 = Inr ((), g2)" for oc
  proof -
    from m obtain h1 h2 where h: "emit_expr C L l g1 = Inr ((), h1)" "emit_expr C L r h1 = Inr ((), h2)"
      and g2: "g_code g2 = g_code h2 @ [instr oc None]"
      by (auto simp: bindS_Inr emit_Inr)
    have gr: "grows (g_code g1) (g_code h1)" "grows (g_code h1) (g_code h2)"
      using sc h by (auto intro: emit_scalar_grows)
    have le: "length (g_code g) \<le> length (g_code h1)" using gr c by (simp add: grows_def)
    have all: "grows (g_code h2) (g_code g')" by (simp add: c g2)
    have at: "code_at P (length (g_code g1)) (g_code h1)" "code_at P (length (g_code h1)) (g_code h2)"
      using code_at_grows [OF TBinary.prems(3) grows_trans [OF gr(2) all]] code_at_grows [OF TBinary.prems(3) all le] c
      by simp_all
    have L: "outcome ops P (conf s (length (g_code g1)) vs rs) (eval \<sigma> l)
        (\<lambda>w. conf s (length (g_code h1)) (unat w # vs) (False # rs))"
      by (rule TBinary.IH(1) [OF sc(1) h(1) at(1) TBinary.prems(4,5)])
    have R: "outcome ops P (conf s (length (g_code h1)) (unat a # vs) (False # rs)) (eval \<sigma> r)
        (\<lambda>w. conf s (length (g_code h2)) (unat w # unat a # vs) (False # False # rs))" for a
      by (rule TBinary.IH(2) [OF sc(2) h(2) at(2) TBinary.prems(4)]) (use TBinary.prems(5) in simp)
    have O: "outcome ops P (conf s (length (g_code h2)) (unat b # unat a # vs) (False # False # rs)) (src_binary o' a b)
        (\<lambda>w. conf s (length (g_code g2)) (unat w # vs) (False # rs))" for a b
      using outcome_operator [OF o(3), of "length (g_code h2)" P s vs ops b a rs] TBinary.prems(5) gr c g2
        code_at_nth [OF TBinary.prems(3), of "length (g_code h2)"] by (simp add: grows_def)
    have "outcome ops P (conf s (length (g_code g1)) vs rs)
        (case eval \<sigma> l of None \<Rightarrow> None | Some a \<Rightarrow> (case eval \<sigma> r of None \<Rightarrow> None | Some b \<Rightarrow> src_binary o' a b))
        (\<lambda>w. conf s (length (g_code g2)) (unat w # vs) (False # rs))"
      by (rule outcome_bind [OF L], rule outcome_bind [OF R], rule O)
    then show ?thesis using o c by (simp del: outcome_simps cong: option.case_cong)
  qed
  have logical: "outcome ops P (conf s (length (g_code g)) vs rs)
      (case eval \<sigma> l of None \<Rightarrow> None | Some x \<Rightarrow> if T x then Some b
       else (case eval \<sigma> r of None \<Rightarrow> None | Some y \<Rightarrow> Some (if T y then b else a)))
      (\<lambda>w. conf s (length (g_code g')) (unat w # vs) (False # rs))"
    if m: "emit_logical test (unat a) (unat b) (emit_expr C L l) (emit_expr C L r) g1 = Inr ((), g2)"
      and T: "test = JZ \<and> T = (\<lambda>w. w = 0) \<or> test = JNZ \<and> T = (\<lambda>w. w \<noteq> 0)"
    for test T and a b :: "16 word"
  proof -
    have "emit_expr C L r h = Inr ((), h') \<Longrightarrow> grows (g_code h) (g_code h')" for h h'
      using sc by (auto intro: emit_scalar_grows)
    from m this obtain h1 h h2 where h: "emit_expr C L l g1 = Inr ((), h1)"
      "g_code h = g_code h1 @ [instr test (Some 0)]" "emit_expr C L r h = Inr ((), h2)" "grows (g_code h) (g_code h2)"
      and g2: "g_code g2 = (g_code h2)[length (g_code h1) := instr test (Some (int (3 + length (g_code h2))))]
        @ [instr test (Some (int (3 + length (g_code h2)))), instr PUSH_INT (Some (int (unat a))),
           instr JMP (Some (int (4 + length (g_code h2)))), instr PUSH_INT (Some (int (unat b)))]"
      by (rule emit_logical_Inr)
    have gr: "grows (g_code g1) (g_code h1)" using sc h by (auto intro: emit_scalar_grows)
    have n: "length (g_code g) \<le> length (g_code h1)" "length (g_code h1) < length (g_code h2)"
      using gr h c by (auto simp: grows_def)
    have "grows (g_code h1) (g_code g2)" using h by (auto simp: g2 grows_def nth_append nth_list_update)
    then have L: "outcome ops P (conf s (length (g_code g1)) vs rs) (eval \<sigma> l)
        (\<lambda>w. conf s (length (g_code h1)) (unat w # vs) (False # rs))"
      using TBinary.prems sc h c by (intro TBinary.IH(1)) (auto intro: code_at_grows)
    have "code_at P (length (g_code h)) (g_code h2)"
      using TBinary.prems(3) n unfolding code_at_def c by (auto simp: g2 h(2) nth_append)
    then have R: "outcome ops P (conf s (length (g_code h1) + 1) vs rs) (eval \<sigma> r)
        (\<lambda>w. conf s (length (g_code h2)) (unat w # vs) (False # rs))"
      using TBinary.IH(2) [OF sc(2) h(3) _ TBinary.prems(4,5)] h(2) by simp
    let ?n1 = "length (g_code h1)" and ?n2 = "length (g_code h2)"
    have len: "length (g_code g2) = ?n2 + 4" by (simp add: g2)
    have nth: "g_code g2 ! ?n1 = instr test (Some (int (3 + ?n2)))" "g_code g2 ! ?n2 = instr test (Some (int (3 + ?n2)))"
      "g_code g2 ! (?n2 + 1) = instr PUSH_INT (Some (int (unat a)))"
      "g_code g2 ! (?n2 + 2) = instr JMP (Some (int (4 + ?n2)))"
      "g_code g2 ! (?n2 + 3) = instr PUSH_INT (Some (int (unat b)))"
      using n by (simp_all add: g2 nth_append)
    have at: "k < length (code P) \<and> code P ! k = g_code g2 ! k" if "length (g_code g) \<le> k" "k < ?n2 + 4" for k
      using code_at_nth [OF TBinary.prems(3)] that c len by simp
    have "outcome ops P (conf s (length (g_code g1)) vs rs)
        (case eval \<sigma> l of None \<Rightarrow> None | Some x \<Rightarrow> if T x then Some b
         else (case eval \<sigma> r of None \<Rightarrow> None | Some y \<Rightarrow> Some (if T y then b else a)))
        (\<lambda>w. conf s (?n2 + 4) (unat w # vs) (False # rs))"
      by (rule outcome_logical [OF L R _ n(2) _ _ _ _ _ TBinary.prems(5) T]) (use at nth n in simp_all)
    then show ?thesis using c len by simp
  qed
  from emit_binary_scalar [of o' "get_type l" p "emit_expr C L l" "emit_expr C L r"] TBinary.prems(1) e st
  consider (con) "o' = lit ''&&''" "emit_logical JZ 1 0 (emit_expr C L l) (emit_expr C L r) g1 = Inr ((), g2)"
    | (dis) "o' = lit ''||''" "emit_logical JNZ 0 1 (emit_expr C L l) (emit_expr C L r) g1 = Inr ((), g2)"
    | (op) oc where "o' \<noteq> lit ''&&''" "o' \<noteq> lit ''||''" "map_of binary_ops o' = Some oc"
      "bindS (emit_expr C L l) (\<lambda>_. bindS (emit_expr C L r) (\<lambda>_. emit_op oc)) g1 = Inr ((), g2)"
    by (metis scalar.simps(4))
  then show ?case
  proof cases
    case con
    with logical [of JZ 1 0 "\<lambda>w. w = 0"] show ?thesis by (simp del: outcome_simps cong: option.case_cong)
  next
    case dis
    with logical [of JNZ 0 1 "\<lambda>w. w \<noteq> 0"] show ?thesis by (simp del: outcome_simps cong: option.case_cong)
  next
    case (op oc)
    then show ?thesis by (rule plain)
  qed
qed simp_all

end
