(* ===== verification/CompileStmt.thy ===== *)
theory CompileStmt
  imports Compile
begin

text \<open>
  Compiled statements do what the source means. The reference is a big-step semantics of declarations,
  assignments, conditionals, loops with \<open>break\<close> and \<open>continue\<close>, blocks and returns over \<open>int\<close> and \<open>bool\<close>
  variables; the machine, running the emitted code with every jump patched, follows it.
\<close>

section \<open>The meaning of statements\<close>

text \<open>How a statement ends: normally, by a jump, with a returned value, or in a fault.\<close>

datatype signal = Next | Brk | Cont | Ret "16 word" | Faulted

definition enters :: "texpr option \<Rightarrow> (symbol \<Rightarrow> 16 word) \<Rightarrow> bool" where
  "enters cond \<sigma> \<longleftrightarrow> (case cond of None \<Rightarrow> True | Some c \<Rightarrow> \<exists>w. eval \<sigma> c = Some w \<and> w \<noteq> 0)"

definition else_part :: "(tstmt list \<times> symbol list) option \<Rightarrow> tstmt list" where
  "else_part e = (case e of None \<Rightarrow> [] | Some b \<Rightarrow> fst b)"

inductive runs :: "tstmt \<Rightarrow> (symbol \<Rightarrow> 16 word) \<Rightarrow> signal \<Rightarrow> (symbol \<Rightarrow> 16 word) \<Rightarrow> bool"
  and runs_all :: "tstmt list \<Rightarrow> (symbol \<Rightarrow> 16 word) \<Rightarrow> signal \<Rightarrow> (symbol \<Rightarrow> 16 word) \<Rightarrow> bool"
  and runs_loop :: "texpr option \<Rightarrow> tstmt option \<Rightarrow> tstmt list \<Rightarrow> (symbol \<Rightarrow> 16 word) \<Rightarrow> signal
    \<Rightarrow> (symbol \<Rightarrow> 16 word) \<Rightarrow> bool" where
  run_decl: "eval \<sigma> e = Some w \<Longrightarrow> runs (SVarDecl p sy (Some e)) \<sigma> Next (\<sigma>(sy := w))"
| run_decl_zero: "runs (SVarDecl p sy None) \<sigma> Next (\<sigma>(sy := 0))"
| run_decl_fault: "eval \<sigma> e = None \<Longrightarrow> runs (SVarDecl p sy (Some e)) \<sigma> Faulted \<sigma>"
| run_assign: "eval \<sigma> e = Some w \<Longrightarrow> runs (SAssignVar p q sy e) \<sigma> Next (\<sigma>(sy := w))"
| run_assign_fault: "eval \<sigma> e = None \<Longrightarrow> runs (SAssignVar p q sy e) \<sigma> Faulted \<sigma>"
| run_expr: "eval \<sigma> e = Some w \<Longrightarrow> runs (SExpr p e) \<sigma> Next \<sigma>"
| run_expr_fault: "eval \<sigma> e = None \<Longrightarrow> runs (SExpr p e) \<sigma> Faulted \<sigma>"
| run_return: "eval \<sigma> e = Some w \<Longrightarrow> runs (SReturn p (Some e)) \<sigma> (Ret w) \<sigma>"
| run_return_void: "runs (SReturn p None) \<sigma> (Ret 0) \<sigma>"
| run_return_fault: "eval \<sigma> e = None \<Longrightarrow> runs (SReturn p (Some e)) \<sigma> Faulted \<sigma>"
| run_if: "eval \<sigma> c = Some w \<Longrightarrow> runs_all (if w \<noteq> 0 then t else else_part e) \<sigma> sig \<sigma>'
    \<Longrightarrow> runs (SIf p c t refs e) \<sigma> sig \<sigma>'"
| run_if_fault: "eval \<sigma> c = None \<Longrightarrow> runs (SIf p c t refs e) \<sigma> Faulted \<sigma>"
| run_while: "runs_loop (Some c) None body \<sigma> sig \<sigma>' \<Longrightarrow> runs (SWhile p c body refs) \<sigma> sig \<sigma>'"
| run_for: "runs_loop cond st body \<sigma> sig \<sigma>' \<Longrightarrow> runs (SFor p None cond st body refs refs') \<sigma> sig \<sigma>'"
| run_for_init: "runs i \<sigma> Next \<sigma>1 \<Longrightarrow> runs_loop cond st body \<sigma>1 sig \<sigma>'
    \<Longrightarrow> runs (SFor p (Some i) cond st body refs refs') \<sigma> sig \<sigma>'"
| run_for_init_stop: "runs i \<sigma> sig \<sigma>1 \<Longrightarrow> sig \<noteq> Next \<Longrightarrow> runs (SFor p (Some i) cond st body refs refs') \<sigma> sig \<sigma>1"
| run_block: "runs_all ss \<sigma> sig \<sigma>' \<Longrightarrow> runs (SBlock p ss refs) \<sigma> sig \<sigma>'"
| run_break: "runs (SBreak p) \<sigma> Brk \<sigma>"
| run_continue: "runs (SContinue p) \<sigma> Cont \<sigma>"
| run_nil: "runs_all [] \<sigma> Next \<sigma>"
| run_cons: "runs st \<sigma> Next \<sigma>1 \<Longrightarrow> runs_all sts \<sigma>1 sig \<sigma>2 \<Longrightarrow> runs_all (st # sts) \<sigma> sig \<sigma>2"
| run_cons_stop: "runs st \<sigma> sig \<sigma>1 \<Longrightarrow> sig \<noteq> Next \<Longrightarrow> runs_all (st # sts) \<sigma> sig \<sigma>1"
| loop_end: "eval \<sigma> c = Some 0 \<Longrightarrow> runs_loop (Some c) st body \<sigma> Next \<sigma>"
| loop_cond_fault: "eval \<sigma> c = None \<Longrightarrow> runs_loop (Some c) st body \<sigma> Faulted \<sigma>"
| loop_break: "enters cond \<sigma> \<Longrightarrow> runs_all body \<sigma> Brk \<sigma>1 \<Longrightarrow> runs_loop cond st body \<sigma> Next \<sigma>1"
| loop_stop: "enters cond \<sigma> \<Longrightarrow> runs_all body \<sigma> sig \<sigma>1 \<Longrightarrow> sig = Faulted \<or> sig = Ret w
    \<Longrightarrow> runs_loop cond st body \<sigma> sig \<sigma>1"
| loop_more: "enters cond \<sigma> \<Longrightarrow> runs_all body \<sigma> sig \<sigma>1 \<Longrightarrow> sig = Next \<or> sig = Cont
    \<Longrightarrow> runs_loop cond None body \<sigma>1 sig' \<sigma>' \<Longrightarrow> runs_loop cond None body \<sigma> sig' \<sigma>'"
| loop_step: "enters cond \<sigma> \<Longrightarrow> runs_all body \<sigma> sig \<sigma>1 \<Longrightarrow> sig = Next \<or> sig = Cont
    \<Longrightarrow> runs x \<sigma>1 Next \<sigma>2 \<Longrightarrow> runs_loop cond (Some x) body \<sigma>2 sig' \<sigma>' \<Longrightarrow> runs_loop cond (Some x) body \<sigma> sig' \<sigma>'"
| loop_step_stop: "enters cond \<sigma> \<Longrightarrow> runs_all body \<sigma> sig \<sigma>1 \<Longrightarrow> sig = Next \<or> sig = Cont
    \<Longrightarrow> runs x \<sigma>1 sig' \<sigma>2 \<Longrightarrow> sig' \<noteq> Next \<Longrightarrow> runs_loop cond (Some x) body \<sigma> sig' \<sigma>2"

text \<open>The statements covered; the clauses of a \<open>for\<close> are declarations, assignments or expressions.\<close>

fun clause :: "tstmt \<Rightarrow> bool" where
  "clause (SVarDecl p sy i) = True"
| "clause (SAssignVar p q sy e) = True"
| "clause (SExpr p e) = True"
| "clause s = False"

fun covered :: "tstmt \<Rightarrow> bool" where
  "covered (SVarDecl p sy i) = (scalar_type (sym_type sy) \<and> (case i of None \<Rightarrow> True | Some e \<Rightarrow> scalar e))"
| "covered (SAssignVar p q sy e) = (scalar_type (sym_type sy) \<and> scalar e)"
| "covered (SExpr p e) = scalar e"
| "covered (SReturn p v) = (case v of None \<Rightarrow> True | Some e \<Rightarrow> scalar e)"
| "covered (SIf p c t refs e) = (scalar c \<and> refs = [] \<and> list_all covered t
     \<and> (case e of None \<Rightarrow> True | Some (b, r) \<Rightarrow> r = [] \<and> list_all covered b))"
| "covered (SWhile p c body refs) = (scalar c \<and> refs = [] \<and> list_all covered body)"
| "covered (SFor p init cond st body refs for_refs) =
     ((case init of None \<Rightarrow> True | Some s \<Rightarrow> clause s \<and> covered s) \<and> (case cond of None \<Rightarrow> True | Some c \<Rightarrow> scalar c)
      \<and> (case st of None \<Rightarrow> True | Some s \<Rightarrow> clause s \<and> covered s) \<and> refs = [] \<and> for_refs = [] \<and> list_all covered body)"
| "covered (SBlock p ss refs) = (refs = [] \<and> list_all covered ss)"
| "covered (SBreak p) = True"
| "covered (SContinue p) = True"
| "covered s = False"

section \<open>What emission keeps\<close>

text \<open>The loops, the scopes and the layouts, which an expression leaves alone.\<close>

definition jump_state :: "codegen \<Rightarrow> loop_context list \<times> symbol list list \<times> function_layout list" where
  "jump_state g = (g_loops g, g_scopes g, g_functions g)"

definition keeps :: "'a gen \<Rightarrow> bool" where
  "keeps m \<longleftrightarrow> (\<forall>g x g'. m g = Inr (x, g') \<longrightarrow> jump_state g' = jump_state g)"

named_theorems keeps_intros

lemma keeps_bind [keeps_intros]: "keeps m \<Longrightarrow> (\<And>x. keeps (f x)) \<Longrightarrow> keeps (bindS m f)"
  by (auto simp: keeps_def bindS_Inr)

lemma keeps_basic [keeps_intros]:
  "keeps (giveS x)" "keeps (raiseS e)" "keeps (askS f)" "keeps here" "keeps (emit oc a)" "keeps (emit_jump oc)"
  "keeps (patch i t)" "keeps (patch_here i)" "keeps (enter p)" "keeps (leave q)" "keeps (codegen_error msg args q0)"
  "keeps (add_string str)" "keeps (float_bits fl)"
  by (auto simp: keeps_def jump_state_def result_simps here_def emit_def emit_jump_def patch_def patch_here_def enter_def
    leave_def codegen_error_def add_string_def float_bits_def split: option.splits if_splits)

lemma keeps_if [keeps_intros]: "(c \<Longrightarrow> keeps m) \<Longrightarrow> (\<not> c \<Longrightarrow> keeps n) \<Longrightarrow> keeps (if c then m else n)"
  by simp

lemma keeps_option [keeps_intros]: "keeps m \<Longrightarrow> (\<And>x. keeps (f x)) \<Longrightarrow> keeps (case r of None \<Rightarrow> m | Some x \<Rightarrow> f x)"
  by (cases r) simp_all

lemma keeps_located [keeps_intros]: "keeps m \<Longrightarrow> keeps (located p m)"
  unfolding located_def by (intro keeps_intros)

lemma keeps_scalar: "scalar e \<Longrightarrow> keeps (emit_expr C L e)"
proof (induction e)
  case (TLit p t v)
  then show ?case by (cases v) (auto simp: emit_literal_def intro!: keeps_intros)
next
  case (TLocal p t sy)
  then show ?case by (auto simp: emit_local_def slot_of_def intro!: keeps_intros)
next
  case (TUnary p t o' r)
  then show ?case by (auto simp: emit_unary_def intro!: keeps_intros)
next
  case (TBinary p t l o' r)
  then show ?case
    by (auto simp: emit_binary_def emit_logical_def emit_operator_def intro!: keeps_intros)
qed simp_all

section \<open>The sites of a loop\<close>

definition brks :: "codegen \<Rightarrow> nat set" where
  "brks g = (case g_loops g of [] \<Rightarrow> {} | lp # _ \<Rightarrow> set (break_sites lp))"

definition conts :: "codegen \<Rightarrow> nat set" where
  "conts g = (case g_loops g of [] \<Rightarrow> {} | lp # _ \<Rightarrow> set (continue_sites lp))"

text \<open>
  The sites found so far are jumps already emitted, and the scopes opened since the loop began
  have nothing to release.
\<close>

definition tidy :: "codegen \<Rightarrow> bool" where
  "tidy g \<longleftrightarrow> (\<forall>j \<in> brks g \<union> conts g. j < length (g_code g) \<and> op (g_code g ! j) = JMP) \<and> brks g \<inter> conts g = {}
     \<and> (\<forall>lp ls. g_loops g = lp # ls \<longrightarrow>
          set (take (length (g_scopes g) - scope_depth lp) (g_scopes g)) \<subseteq> {[]})"

definition extends :: "codegen \<Rightarrow> codegen \<Rightarrow> bool" where
  "extends g g' \<longleftrightarrow> grows (g_code g) (g_code g') \<and> g_scopes g' = g_scopes g \<and> g_functions g' = g_functions g
     \<and> map scope_depth (g_loops g') = map scope_depth (g_loops g) \<and> tl (g_loops g') = tl (g_loops g)
     \<and> brks g \<subseteq> brks g' \<and> conts g \<subseteq> conts g'
     \<and> (\<forall>j \<in> (brks g' \<union> conts g') - (brks g \<union> conts g). length (g_code g) \<le> j) \<and> tidy g'"

lemma control_sites: "jump_state g' = jump_state g \<Longrightarrow> brks g' = brks g \<and> conts g' = conts g \<and> g_scopes g' = g_scopes g
    \<and> g_loops g' = g_loops g \<and> g_functions g' = g_functions g"
  by (auto simp: jump_state_def brks_def conts_def)

lemma extends_refl: "tidy g \<Longrightarrow> extends g g"
  by (simp add: extends_def)

lemma extends_trans: "extends g h \<Longrightarrow> extends h k \<Longrightarrow> extends g k"
proof -
  assume g: "extends g h" and h: "extends h k"
  have le: "length (g_code g) \<le> length (g_code h)" using g by (simp add: extends_def grows_def)
  have "length (g_code g) \<le> j" if "j \<in> (brks k \<union> conts k) - (brks g \<union> conts g)" for j
  proof (cases "j \<in> brks h \<union> conts h")
    case True
    with g that show ?thesis by (auto simp: extends_def)
  next
    case False
    with h that have "length (g_code h) \<le> j" by (auto simp: extends_def)
    with le show ?thesis by simp
  qed
  then show "extends g k" using g h unfolding extends_def by (auto intro: grows_trans)
qed

lemma extends_tidy: "extends g h \<Longrightarrow> tidy h"
  by (simp add: extends_def)

lemma tidy_grows: "tidy g \<Longrightarrow> jump_state g' = jump_state g \<Longrightarrow> grows (g_code g) (g_code g') \<Longrightarrow> tidy g'"
  using control_sites [of g' g] by (simp add: tidy_def grows_def) (metis order_less_le_trans)

lemma extends_control:
  assumes "tidy g" and "jump_state g' = jump_state g" and "grows (g_code g) (g_code g')"
  shows "extends g g'"
proof -
  have "tidy g'" using assms tidy_grows by blast
  then show ?thesis using assms control_sites [OF assms(2)] by (auto simp: extends_def)
qed

lemma extends_eq:
  assumes "extends g h" and "jump_state g1 = jump_state g" "g_code g1 = g_code g" and "jump_state h1 = jump_state h" "g_code h1 = g_code h"
  shows "extends g1 h1"
proof -
  have "tidy h1" using assms by (auto intro: tidy_grows simp: extends_def)
  then show ?thesis
    using assms control_sites [OF assms(2)] control_sites [OF assms(4)] by (auto simp: extends_def)
qed

lemma located_view:
  assumes "located p m g = Inr (u, g')"
  obtains g1 g2 where "m g1 = Inr ((), g2)" and "g_code g1 = g_code g" and "jump_state g1 = jump_state g"
    and "g_code g' = g_code g2" and "jump_state g' = jump_state g2"
proof -
  from assms obtain outer g1 g2 where s: "enter p g = Inr (outer, g1)" "m g1 = Inr ((), g2)" "leave outer g2 = Inr (u, g')"
    by (auto simp: located_def result_simps)
  moreover have "g_code g1 = g_code g" "jump_state g1 = jump_state g" "g_code g' = g_code g2" "jump_state g' = jump_state g2"
    using s by (auto simp: enter_def leave_def result_simps jump_state_def split: option.splits)
  ultimately show ?thesis using that by blast
qed

lemma in_order_simps [simp]:
  "in_order [] = giveS ()" "in_order (m # ms) = bindS m (\<lambda>_. in_order ms)"
  by (simp_all add: in_order_def)

lemma scalar_extends:
  assumes "scalar e" and "emit_expr C L e g = Inr (u, g')" and "tidy g"
  shows "extends g g'" and "jump_state g' = jump_state g"
  using keeps_scalar [OF assms(1)] emit_scalar_grows [OF assms(1,2)] assms(2,3)
  by (auto simp: keeps_def intro: extends_control)

lemma emit_extends:
  assumes "tidy g"
  shows "extends g (g\<lparr>g_code := g_code g @ c\<rparr>)"
  using assms by (intro extends_control) (simp_all add: jump_state_def)

lemma new_sites: "extends g h \<Longrightarrow> tidy g \<Longrightarrow> j \<in> brks h \<union> conts h \<Longrightarrow> j < length (g_code g) \<Longrightarrow> j \<in> brks g \<union> conts g"
  unfolding extends_def by (meson DiffI not_le)

text \<open>Patching an instruction of the part that was added.\<close>

lemma patched_extends:
  assumes "extends g h" and "length (g_code g) \<le> i" and "i \<notin> brks h \<union> conts h"
  shows "extends g (h\<lparr>g_code := (g_code h)[i := x]\<rparr>)"
proof -
  let ?h = "h\<lparr>g_code := (g_code h)[i := x]\<rparr>"
  have same: "brks ?h = brks h" "conts ?h = conts h" by (simp_all add: brks_def conts_def)
  have "op ((g_code h)[i := x] ! j) = op (g_code h ! j)" if "j \<in> brks h \<union> conts h" for j
    using that assms(3) by (metis nth_list_update_neq)
  then have "tidy ?h" using extends_tidy [OF assms(1)] by (simp add: tidy_def same)
  with assms(1,2) show ?thesis by (simp add: extends_def same) (simp add: grows_def)
qed

section \<open>Straight code\<close>

definition straight :: "'a gen \<Rightarrow> bool" where
  "straight m \<longleftrightarrow> (\<forall>g x g'. m g = Inr (x, g') \<longrightarrow> jump_state g' = jump_state g \<and> grows (g_code g) (g_code g'))"

named_theorems straight_intros

lemma straight_bind [straight_intros]: "straight m \<Longrightarrow> (\<And>x. straight (f x)) \<Longrightarrow> straight (bindS m f)"
  unfolding straight_def bindS_Inr by (metis grows_trans)

lemma straight_basic [straight_intros]:
  "straight (giveS x)" "straight (raiseS e)" "straight (emit oc a)" "straight (enter p)" "straight (leave q)"
  "straight (add_string str)" "straight (codegen_error msg args q0)"
  by (auto simp: straight_def jump_state_def result_simps emit_def enter_def leave_def add_string_def codegen_error_def
    split: option.splits if_splits)

lemma straight_if [straight_intros]: "(c \<Longrightarrow> straight m) \<Longrightarrow> (\<not> c \<Longrightarrow> straight n) \<Longrightarrow> straight (if c then m else n)"
  by simp

lemma straight_option [straight_intros]:
  "(r = None \<Longrightarrow> straight m) \<Longrightarrow> (\<And>x. r = Some x \<Longrightarrow> straight (f x)) \<Longrightarrow> straight (case r of None \<Rightarrow> m | Some x \<Rightarrow> f x)"
  by (cases r) simp_all

lemma straight_more [straight_intros]: "straight (emit_all is)" "straight (slot_of L p sy)" "straight m \<Longrightarrow> straight (located p m)"
  unfolding located_def slot_of_def by (induction "is" rule: emit_all.induct) (auto intro!: straight_intros)

lemma straight_zero_slots [straight_intros]: "straight (zero_slots i n)"
  by (induction i n rule: zero_slots.induct) (auto intro!: straight_intros)

lemma straight_scalar: "scalar e \<Longrightarrow> straight (emit_expr C L e)"
  using keeps_scalar emit_scalar_grows by (fastforce simp: straight_def keeps_def)

lemma straight_extends: "straight m \<Longrightarrow> m g = Inr (x, g') \<Longrightarrow> tidy g \<Longrightarrow> extends g g'"
  unfolding straight_def by (blast intro: extends_control)

text \<open>The statements without jumps.\<close>

lemma straight_stmts:
  "covered (SVarDecl p sy i) \<Longrightarrow> straight (emit_stmt C L (SVarDecl p sy i))"
  "covered (SAssignVar p q sy e) \<Longrightarrow> straight (emit_stmt C L (SAssignVar p q sy e))"
  "covered (SExpr p e) \<Longrightarrow> straight (emit_stmt C L (SExpr p e))"
  "covered (SReturn p v) \<Longrightarrow> straight (emit_stmt C L (SReturn p v))"
  by (auto simp: emit_var_decl_def emit_assign_var_def split: option.splits if_splits
    intro!: straight_intros straight_scalar)

lemma straight_clause: "clause st \<Longrightarrow> covered st \<Longrightarrow> straight (emit_stmt C L st)"
  by (cases st) (auto simp only: clause.simps intro: straight_stmts)

lemma run_opt_simps [simp]: "run_opt None = giveS ()" "run_opt (Some m) = m"
  by (simp_all add: run_opt_def)

lemma straight_run_opt [straight_intros]: "(\<And>st. x = Some st \<Longrightarrow> clause st \<and> covered st)
    \<Longrightarrow> straight (run_opt (map_option (emit_stmt C L) x))"
  by (cases x) (simp_all add: straight_basic straight_clause del: emit_stmt.simps)

section \<open>Code with jumps\<close>

text \<open>A block with nothing to release: its statements run with one more scope.\<close>

definition opened :: "codegen \<Rightarrow> codegen" where
  "opened g = g\<lparr>g_scopes := [] # g_scopes g\<rparr>"

definition closed :: "codegen \<Rightarrow> codegen" where
  "closed g = g\<lparr>g_scopes := tl (g_scopes g)\<rparr>"

lemma scoped_block_Inr:
  "scoped_block L [] ms g = Inr (u, g') \<longleftrightarrow> (\<exists>h. in_order ms (opened g) = Inr ((), h) \<and> g' = closed h)"
  by (auto simp: scoped_block_def push_scope_def pop_scope_def result_simps opened_def closed_def)

lemma tidy_opened: "tidy g \<Longrightarrow> tidy (opened g)"
  unfolding tidy_def opened_def brks_def conts_def
  by (auto simp: Suc_diff_le take_Cons' dest!: in_set_takeD split: list.splits if_splits)

lemma opened_extends: "extends (opened g) h \<Longrightarrow> extends g (closed h)"
  unfolding extends_def opened_def closed_def tidy_def brks_def conts_def
  by (auto simp: take_Cons' Suc_diff_le split: list.splits if_splits)

lemma emit_if_view:
  assumes "emit_if L cond t e g = Inr (u, g')" and "tidy g"
    and cond: "\<And>h. cond g = Inr ((), h) \<Longrightarrow> extends g h"
    and t: "\<And>h h'. t h = Inr ((), h') \<Longrightarrow> tidy h \<Longrightarrow> extends h h'"
    and e: "\<And>h h'. e h = Inr ((), h') \<Longrightarrow> tidy h \<Longrightarrow> extends h h'"
  obtains h1 h2 h3 h4 where "cond g = Inr ((), h1)"
    and "t (h1\<lparr>g_code := g_code h1 @ [instr JZ (Some 0)]\<rparr>) = Inr ((), h2)"
    and "g_code h3 = (g_code h2)[length (g_code h1) := instr JZ (Some (int (1 + length (g_code h2))))] @ [instr JMP (Some 0)]"
    and "jump_state h3 = jump_state h2" and "e h3 = Inr ((), h4)"
    and "g_code g' = (g_code h4)[length (g_code h2) := instr JMP (Some (int (length (g_code h4))))]"
    and "jump_state g' = jump_state h4"
    and "extends g h1" and "extends (h1\<lparr>g_code := g_code h1 @ [instr JZ (Some 0)]\<rparr>) h2" and "extends g h3"
    and "extends h3 h4" and "extends g g'"
proof -
  obtain h1 where c: "cond g = Inr ((), h1)"
    and k: "bindS (emit_jump JZ) (\<lambda>jz. bindS t (\<lambda>_. bindS (emit_jump JMP) (\<lambda>jmp. bindS (patch_here jz) (\<lambda>_.
      bindS e (\<lambda>_. patch_here jmp))))) h1 = Inr (u, g')"
    using assms(1) unfolding emit_if_def bindS_Inr [of cond] by auto
  let ?h1 = "h1\<lparr>g_code := g_code h1 @ [instr JZ (Some 0)]\<rparr>"
  obtain h2 where h2: "t ?h1 = Inr ((), h2)" and k2: "bindS (emit_jump JMP) (\<lambda>jmp. bindS (patch_here (length (g_code h1))) (\<lambda>_.
      bindS e (\<lambda>_. patch_here jmp))) h2 = Inr (u, g')"
    using k unfolding gen_run(3) bindS_Inr [of t] by auto
  have g1: "extends g h1" by (rule cond [OF c])
  then have g1': "extends g ?h1" using extends_trans emit_extends extends_tidy by blast
  have g2: "extends ?h1 h2" by (rule t [OF h2 extends_tidy [OF g1']])
  let ?h2 = "h2\<lparr>g_code := g_code h2 @ [instr JMP (Some 0)]\<rparr>"
  have g2': "extends ?h1 ?h2" using g2 extends_trans emit_extends extends_tidy by blast
  have at: "length (g_code h1) < length (g_code h2)" "g_code h2 ! length (g_code h1) = instr JZ (Some 0)"
    using g2 by (auto simp: extends_def grows_def dest: spec [of _ "length (g_code h1)"])
  have "length (g_code h1) \<notin> brks ?h2 \<union> conts ?h2"
    using new_sites [OF g2' extends_tidy [OF g1'], of "length (g_code h1)"] extends_tidy [OF g1]
    by (auto simp: tidy_def brks_def conts_def)
  moreover have "length (g_code g) \<le> length (g_code h1)" using g1 by (simp add: extends_def grows_def)
  ultimately have g3: "extends g (?h2\<lparr>g_code := (g_code ?h2)[length (g_code h1) := instr JZ (Some (int (1 + length (g_code h2))))]\<rparr>)"
      (is "extends g ?h3")
    using extends_trans [OF g1' g2'] by (intro patched_extends) auto
  obtain h4 where h4: "e ?h3 = Inr ((), h4)" and k4: "patch_here (length (g_code h2)) h4 = Inr (u, g')"
    using k2 at unfolding gen_run(3,8) bindS_Inr [of e] by (auto simp: nth_append)
  have g4: "extends ?h3 h4" by (rule e [OF h4 extends_tidy [OF g3]])
  have at4: "length (g_code h2) < length (g_code h4)" "g_code h4 ! length (g_code h2) = instr JMP (Some 0)"
    using g4 at by (auto simp: extends_def grows_def nth_append dest: spec [of _ "length (g_code h2)"])
  have "length (g_code h2) \<notin> brks h4 \<union> conts h4"
    using new_sites [OF g4 extends_tidy [OF g3], of "length (g_code h2)"] extends_tidy [OF g2]
    by (auto simp: tidy_def brks_def conts_def)
  moreover have "length (g_code g) \<le> length (g_code h2)" using g1' g2 by (simp add: extends_def grows_def)
  ultimately have "extends g (h4\<lparr>g_code := (g_code h4)[length (g_code h2) := instr JMP (Some (int (length (g_code h4))))]\<rparr>)"
    using extends_trans [OF g3 g4] by (intro patched_extends)
  moreover have "g' = h4\<lparr>g_code := (g_code h4)[length (g_code h2) := instr JMP (Some (int (length (g_code h4))))]\<rparr>"
    using k4 at4 by (simp add: gen_run)
  ultimately show ?thesis
    using at by (intro that [OF c h2 _ _ h4 _ _ g1 g2 g3 g4]) (auto simp: jump_state_def list_update_append)
qed

section \<open>Loops\<close>

text \<open>The part \<open>while\<close> and \<open>for\<close> share: condition, body, step and the jump back.\<close>

definition loop_tail :: "nat \<Rightarrow> nat option \<Rightarrow> unit gen \<Rightarrow> loop_context gen \<Rightarrow> (loop_context \<times> nat \<times> nat) gen" where
  "loop_tail start jz st body =
     bindS body (\<lambda>lp. bindS here (\<lambda>step_pc. bindS st (\<lambda>_. bindS (emit_arg JMP start) (\<lambda>_. bindS here (\<lambda>end_pc.
     bindS (case jz of None \<Rightarrow> giveS () | Some i \<Rightarrow> patch i end_pc) (\<lambda>_. giveS (lp, end_pc, step_pc)))))))"

definition emit_loop :: "unit gen option \<Rightarrow> unit gen \<Rightarrow> loop_context gen \<Rightarrow> (loop_context \<times> nat \<times> nat) gen" where
  "emit_loop cond st body =
     bindS here (\<lambda>start. case cond of
       None \<Rightarrow> loop_tail start None st body
     | Some c \<Rightarrow> bindS c (\<lambda>_. bindS (emit_jump JZ) (\<lambda>jz. loop_tail start (Some jz) st body)))"

lemma bindS_assoc: "bindS (bindS m f) h = bindS m (\<lambda>x. bindS (f x) h)"
  by (rule ext) (simp add: bindS_def bindR_assoc split_def)

lemma here_unused: "bindS here (\<lambda>_. m) = m"
  by (rule ext) (simp add: gen_run)

lemma emit_while_loop:
  "emit_while c body = bindS here (\<lambda>start. bindS (emit_loop (Some c) (giveS ()) body) (\<lambda>(lp, e, _). patch_loop lp e start))"
  by (rule ext) (simp add: emit_while_def emit_loop_def loop_tail_def bindS_assoc here_unused gen_run(4))

lemma emit_for_loop:
  "emit_for L refs init cond st body = bindS (push_scope refs) (\<lambda>_. bindS init (\<lambda>_.
     bindS (emit_loop cond st body) (\<lambda>(lp, e, k). bindS (patch_loop lp e k) (\<lambda>_. bindS pop_scope (\<lambda>_. release_scope L refs)))))"
  by (cases cond) (simp_all add: emit_for_def emit_loop_def loop_tail_def bindS_assoc)

definition looped :: "codegen \<Rightarrow> codegen" where
  "looped g = g\<lparr>g_loops := \<lparr>break_sites = [], continue_sites = [], scope_depth = length (g_scopes g)\<rparr> # g_loops g\<rparr>"

lemma tidy_looped: "tidy (opened (looped g))"
  by (auto simp: tidy_def opened_def looped_def brks_def conts_def Suc_diff_le take_Cons')

lemma loop_body_Inr:
  "loop_body L [] ms g = Inr (lp, g') \<longleftrightarrow> (\<exists>h. in_order ms (opened (looped g)) = Inr ((), h)
     \<and> lp = hd (g_loops h) \<and> g' = (closed h)\<lparr>g_loops := tl (g_loops h)\<rparr>)"
  by (auto simp: loop_body_def push_loop_def pop_loop_def looped_def[symmetric] bindS_Inr scoped_block_Inr method_simps
    closed_def)

lemma loop_body_state:
  assumes "extends (opened (looped g)) h"
  shows "jump_state ((closed h)\<lparr>g_loops := tl (g_loops h)\<rparr>) = jump_state g"
    and "g_loops h \<noteq> []" and "brks h = set (break_sites (hd (g_loops h)))" and "conts h = set (continue_sites (hd (g_loops h)))"
    and "grows (g_code g) (g_code h)" and "\<And>j. j \<in> brks h \<union> conts h \<Longrightarrow> length (g_code g) \<le> j \<and> j < length (g_code h)
      \<and> op (g_code h ! j) = JMP"
  using assms by (auto simp: extends_def opened_def looped_def closed_def jump_state_def brks_def conts_def tidy_def
    split: list.splits)

lemma loop_tail_view:
  assumes "loop_tail start jz st (loop_body L [] ms) g = Inr ((lp, e, k), g')" and "straight st"
    and ms: "\<And>h h'. in_order ms h = Inr ((), h') \<Longrightarrow> tidy h \<Longrightarrow> extends h h'"
  obtains hb hs hs' where "in_order ms (opened (looped g)) = Inr ((), hb)" and "extends (opened (looped g)) hb"
    and "lp = hd (g_loops hb)" and "g_code hs = g_code hb" and "jump_state hs = jump_state g" and "st hs = Inr ((), hs')"
    and "grows (g_code hb) (g_code hs')" and "e = length (g_code hs') + 1" and "k = length (g_code hb)"
    and "jump_state g' = jump_state g" and "g_code g' = (let c = g_code hs' @ [instr JMP (Some (int start))] in
      case jz of None \<Rightarrow> c | Some i \<Rightarrow> c[i := (c ! i)\<lparr>arg := Some (int e)\<rparr>])"
proof -
  obtain hs where b: "loop_body L [] ms g = Inr (lp, hs)"
    and t: "bindS here (\<lambda>step_pc. bindS st (\<lambda>_. bindS (emit_arg JMP start) (\<lambda>_. bindS here (\<lambda>end_pc.
     bindS (case jz of None \<Rightarrow> giveS () | Some i \<Rightarrow> patch i end_pc) (\<lambda>_. giveS (lp, end_pc, step_pc)))))) hs = Inr ((lp, e, k), g')"
    using assms(1) unfolding loop_tail_def bindS_Inr [of "loop_body L [] ms"]
    by (auto simp: gen_run bindS_Inr method_simps)
  from b obtain hb where hb: "in_order ms (opened (looped g)) = Inr ((), hb)" "lp = hd (g_loops hb)"
    and hs: "hs = (closed hb)\<lparr>g_loops := tl (g_loops hb)\<rparr>"
    by (auto simp: loop_body_Inr)
  have eb: "extends (opened (looped g)) hb" by (rule ms [OF hb(1) tidy_looped])
  have code: "g_code hs = g_code hb" by (simp add: hs closed_def)
  have js: "jump_state hs = jump_state g" using loop_body_state(1) [OF eb] by (simp add: hs)
  from t obtain hs' where st: "st hs = Inr ((), hs')" and k: "k = length (g_code hs)"
    and t': "bindS (emit_arg JMP start) (\<lambda>_. bindS here (\<lambda>end_pc.
     bindS (case jz of None \<Rightarrow> giveS () | Some i \<Rightarrow> patch i end_pc) (\<lambda>_. giveS (lp, end_pc, length (g_code hs))))) hs' = Inr ((lp, e, k), g')"
    unfolding gen_run(4) bindS_Inr [of st] by (auto simp: gen_run bindS_Inr method_simps)
  have "jump_state hs' = jump_state hs" "grows (g_code hs) (g_code hs')" using assms(2) st by (auto simp: straight_def)
  then show ?thesis
    using t' js code k by (intro that [OF hb(1) eb hb(2) code js st])
      (auto simp: gen_run method_simps jump_state_def Let_def split: option.splits)
qed

definition patch_all :: "nat \<Rightarrow> nat list \<Rightarrow> bytecode \<Rightarrow> bytecode" where
  "patch_all t js c = fold (\<lambda>j c. c[j := (c ! j)\<lparr>arg := Some (int t)\<rparr>]) js c"

lemma length_patch_all [simp]: "length (patch_all t js c) = length c"
  unfolding patch_all_def by (induction js arbitrary: c) simp_all

lemma nth_patch_all: "j < length c \<Longrightarrow> patch_all t js c ! j = (if j \<in> set js then (c ! j)\<lparr>arg := Some (int t)\<rparr> else c ! j)"
  unfolding patch_all_def
proof (induction js arbitrary: c)
  case (Cons a js)
  then show ?case by (cases "a = j") auto
qed simp

lemma forS_patch: "forS js (\<lambda>j. patch j t) g = Inr ((), g\<lparr>g_code := patch_all t js (g_code g)\<rparr>)"
  unfolding patch_all_def by (induction js arbitrary: g) (simp_all add: gen_run giveS_def)

lemma patch_loop_Inr: "patch_loop lp b k g = Inr (u, g') \<longleftrightarrow>
    g' = g\<lparr>g_code := patch_all k (continue_sites lp) (patch_all b (break_sites lp) (g_code g))\<rparr>"
  by (auto simp: patch_loop_def bindS_def forS_patch)

text \<open>The program holds the code of \<open>g\<close> from \<open>i\<close> on, its sites patched to the two targets.\<close>

definition linked :: "program \<Rightarrow> nat \<Rightarrow> codegen \<Rightarrow> nat \<Rightarrow> nat \<Rightarrow> bool" where
  "linked P i g b k \<longleftrightarrow> length (g_code g) \<le> length (code P) \<and> (\<forall>j. i \<le> j \<and> j < length (g_code g) \<longrightarrow>
     code P ! j = (if j \<in> brks g then instr JMP (Some (int b)) else if j \<in> conts g then instr JMP (Some (int k))
       else g_code g ! j))"

lemma linked_nth: "linked P i g b k \<Longrightarrow> i \<le> j \<Longrightarrow> j < length (g_code g) \<Longrightarrow> j \<notin> brks g \<union> conts g
    \<Longrightarrow> j < length (code P) \<and> code P ! j = g_code g ! j"
  by (auto simp: linked_def)

lemma linked_sub:
  assumes "linked P i g b k" and "i \<le> i'" and "length (g_code h) \<le> length (g_code g)"
    and "\<And>j. i' \<le> j \<Longrightarrow> j < length (g_code h) \<Longrightarrow> g_code g ! j = g_code h ! j
      \<and> (j \<in> brks g \<longleftrightarrow> j \<in> brks h) \<and> (j \<in> conts g \<longleftrightarrow> j \<in> conts h)"
  shows "linked P i' h b k"
  using assms by (auto simp: linked_def)

lemma extends_old:
  assumes "extends g g'" and "j < length (g_code g)"
  shows "g_code g' ! j = g_code g ! j" and "j \<in> brks g' \<longleftrightarrow> j \<in> brks g" and "j \<in> conts g' \<longleftrightarrow> j \<in> conts g"
proof -
  have "j \<notin> (brks g' \<union> conts g') - (brks g \<union> conts g)" using assms unfolding extends_def by (meson not_le)
  moreover have "brks g' \<inter> conts g' = {}" "brks g \<subseteq> brks g'" "conts g \<subseteq> conts g'"
    using assms(1) by (auto simp: extends_def tidy_def)
  ultimately show "g_code g' ! j = g_code g ! j" "j \<in> brks g' \<longleftrightarrow> j \<in> brks g" "j \<in> conts g' \<longleftrightarrow> j \<in> conts g"
    using assms by (auto simp: extends_def grows_def)
qed

lemma linked_extends:
  assumes "linked P i g' b k" and "extends g g'" and "i \<le> i'"
  shows "linked P i' g b k"
  by (rule linked_sub [OF assms(1,3)]) (use assms(2) extends_old [OF assms(2)] in \<open>auto simp: extends_def grows_def\<close>)

text \<open>Without sites of its own a part is held as it is.\<close>

lemma linked_code_at:
  assumes "linked P i g b k" and "\<And>j. j \<in> brks g \<union> conts g \<Longrightarrow> j < i"
  shows "code_at P i (g_code g)"
  using assms by (auto simp: linked_def code_at_def dest!: spec) force+

lemma linked_same:
  assumes "linked P i g b k" and "jump_state h = jump_state g" and "g_code h = g_code g"
  shows "linked P i h b k"
  using assms control_sites [OF assms(2)] by (simp add: linked_def)

lemma emit_loop_start:
  assumes "emit_loop cond st body g = Inr (r, g1)" and "\<And>c. cond = Some c \<Longrightarrow> straight c"
  obtains (always) "cond = None" and "loop_tail (length (g_code g)) None st body g = Inr (r, g1)"
  | (tested) c h1 where "cond = Some c" and "c g = Inr ((), h1)" and "jump_state h1 = jump_state g" and "grows (g_code g) (g_code h1)"
    and "loop_tail (length (g_code g)) (Some (length (g_code h1))) st body (h1\<lparr>g_code := g_code h1 @ [instr JZ (Some 0)]\<rparr>) = Inr (r, g1)"
proof (cases cond)
  case None
  with assms(1) show ?thesis by (intro always) (simp_all add: emit_loop_def gen_run)
next
  case (Some c)
  with assms(1) obtain h1 where c: "c g = Inr ((), h1)"
    and "loop_tail (length (g_code g)) (Some (length (g_code h1))) st body (h1\<lparr>g_code := g_code h1 @ [instr JZ (Some 0)]\<rparr>) = Inr (r, g1)"
    by (auto simp: emit_loop_def gen_run bindS_Inr [of c])
  moreover have "jump_state h1 = jump_state g" "grows (g_code g) (g_code h1)"
    using assms(2) [OF Some] c by (auto simp: straight_def)
  ultimately show ?thesis using tested Some by blast
qed

text \<open>What the patched code of a loop is, whatever its condition.\<close>

lemma patched_loop:
  assumes t: "loop_tail start jz st (loop_body L [] ms) h = Inr ((lp, e, k0), g1)" and p: "patch_loop lp e k g1 = Inr (u, g')"
    and st: "straight st" and ms: "\<And>h h'. in_order ms h = Inr ((), h') \<Longrightarrow> tidy h \<Longrightarrow> extends h h'"
    and jz: "case jz of None \<Rightarrow> True | Some i \<Rightarrow> i < length (g_code h) \<and> g_code h ! i = instr JZ (Some 0)"
  obtains hb hs hs' where "in_order ms (opened (looped h)) = Inr ((), hb)" and "extends (opened (looped h)) hb"
    and "\<And>j. length (g_code h) \<le> j \<Longrightarrow> j < length (g_code hb) \<Longrightarrow> g_code g' ! j =
      (if j \<in> brks hb then instr JMP (Some (int e)) else if j \<in> conts hb then instr JMP (Some (int k)) else g_code hb ! j)"
    and "st hs = Inr ((), hs')" and "jump_state hs = jump_state h" and "g_code hs = g_code hb" and "k0 = length (g_code hb)"
    and "grows (g_code hb) (g_code hs')" and "\<And>j. length (g_code hb) \<le> j \<Longrightarrow> j < length (g_code hs') \<Longrightarrow> g_code g' ! j = g_code hs' ! j"
    and "g_code g' ! length (g_code hs') = instr JMP (Some (int start))" and "length (g_code g') = length (g_code hs') + 1"
    and "e = length (g_code hs') + 1" and "jump_state g' = jump_state h" and "grows (g_code h) (g_code hb)"
    and "\<And>j. j < length (g_code h) \<Longrightarrow> g_code g' ! j = (if jz = Some j then instr JZ (Some (int e)) else g_code h ! j)"
proof -
  from t st ms obtain hb hs hs' where a: "in_order ms (opened (looped h)) = Inr ((), hb)"
    "extends (opened (looped h)) hb" "lp = hd (g_loops hb)" "g_code hs = g_code hb" "jump_state hs = jump_state h"
    "st hs = Inr ((), hs')" "grows (g_code hb) (g_code hs')" "e = length (g_code hs') + 1" "k0 = length (g_code hb)"
    "jump_state g1 = jump_state h" and g1: "g_code g1 = (let c = g_code hs' @ [instr JMP (Some (int start))] in
      case jz of None \<Rightarrow> c | Some i \<Rightarrow> c[i := (c ! i)\<lparr>arg := Some (int e)\<rparr>])"
    by (rule loop_tail_view)
  note body = loop_body_state [OF a(2)]
  have g': "g_code g' = patch_all k (continue_sites lp) (patch_all e (break_sites lp) (g_code g1))"
    and js: "jump_state g' = jump_state h" using p a(10) by (simp_all add: patch_loop_Inr jump_state_def)
  have len: "length (g_code g1) = length (g_code hs') + 1" by (auto simp: g1 Let_def split: option.splits)
  have sites: "set (break_sites lp) = brks hb" "set (continue_sites lp) = conts hb" using body(3,4) a(3) by simp_all
  have nth: "g_code g' ! j = (let x = g_code g1 ! j in let y = (if j \<in> brks hb then x\<lparr>arg := Some (int e)\<rparr> else x) in
      if j \<in> conts hb then y\<lparr>arg := Some (int k)\<rparr> else y)" if "j < length (g_code hs') + 1" for j
    using that len by (simp add: g' nth_patch_all sites Let_def)
  have le: "length (g_code h) \<le> length (g_code hb)" "length (g_code hb) \<le> length (g_code hs')"
    using body(5) a(7) by (auto simp: grows_def)
  have site: "length (g_code h) \<le> j \<and> j < length (g_code hb)" if "j \<in> brks hb \<union> conts hb" for j
    using body(6) that by blast
  have old: "g_code g1 ! j = g_code hb ! j" if "length (g_code h) \<le> j" "j < length (g_code hb)" for j
    using that le jz a(7) by (auto simp: g1 Let_def nth_append grows_def split: option.splits)
  have upd: "y\<lparr>arg := x\<rparr> = instr (op y) x" for y :: instruction and x by (cases y) simp
  have disj: "brks hb \<inter> conts hb = {}" using a(2) by (simp add: extends_def tidy_def)
  show ?thesis
  proof (rule that [OF a(1,2) _ a(6,5,4,9,7) _ _ _ a(8) js body(5)])
    show "g_code g' ! j = (if j \<in> brks hb then instr JMP (Some (int e)) else if j \<in> conts hb then instr JMP (Some (int k))
        else g_code hb ! j)" if "length (g_code h) \<le> j" "j < length (g_code hb)" for j
      using that le nth [of j] old [OF that] body(6) [of j] disj by (auto simp: Let_def upd)
    show "g_code g' ! j = g_code hs' ! j" if "length (g_code hb) \<le> j" "j < length (g_code hs')" for j
      using that le nth [of j] site [of j] jz by (auto simp: Let_def g1 nth_append split: option.splits)
    show "g_code g' ! length (g_code hs') = instr JMP (Some (int start))"
      using le nth [of "length (g_code hs')"] site [of "length (g_code hs')"] jz
      by (auto simp: Let_def g1 nth_append split: option.splits)
    show "length (g_code g') = length (g_code hs') + 1" by (simp add: g' len)
    have hj: "g_code hs' ! j = g_code h ! j" if "j < length (g_code h)" for j
      using that body(5) a(7) by (simp add: grows_def)
    show "g_code g' ! j = (if jz = Some j then instr JZ (Some (int e)) else g_code h ! j)" if "j < length (g_code h)" for j
      using that le nth [of j] site [of j] jz hj [of j]
      by (auto simp: Let_def g1 nth_append nth_list_update split: option.splits)
  qed
qed

lemma in_order_extends:
  assumes "in_order ms g = Inr (u, g')" and "tidy g" and "\<And>m h h'. m \<in> set ms \<Longrightarrow> m h = Inr ((), h') \<Longrightarrow> tidy h \<Longrightarrow> extends h h'"
  shows "extends g g'"
  using assms
proof (induction ms arbitrary: g)
  case Nil
  then show ?case by (simp add: method_simps extends_refl)
next
  case (Cons m ms)
  then obtain h where h: "m g = Inr ((), h)" "in_order ms h = Inr (u, g')" by (auto simp: bindS_Inr)
  have gh: "extends g h" using Cons.prems(3) [of m g h] h(1) Cons.prems(2) by simp
  have sub: "extends k k'" if "m' \<in> set ms" "m' k = Inr ((), k')" "tidy k" for m' k k'
    using Cons.prems(3) [of m' k k'] that by simp
  have "extends h g'" by (rule Cons.IH [OF h(2) extends_tidy [OF gh] sub])
  with gh show ?case by (rule extends_trans)
qed

lemma loop_extends:
  assumes "emit_loop cond st (loop_body L [] ms) g = Inr ((lp, e, k0), g1)" and "patch_loop lp e k g1 = Inr (u, g')"
    and "tidy g" and "straight st" and "\<And>c. cond = Some c \<Longrightarrow> straight c"
    and ms: "\<And>h h'. in_order ms h = Inr ((), h') \<Longrightarrow> tidy h \<Longrightarrow> extends h h'"
  shows "extends g g' \<and> jump_state g' = jump_state g"
proof -
  have "jump_state g' = jump_state g \<and> grows (g_code g) (g_code g')"
  proof (rule emit_loop_start [OF assms(1)])
    assume always: "loop_tail (length (g_code g)) None st (loop_body L [] ms) g = Inr ((lp, e, k0), g1)"
    show ?thesis
      by (rule patched_loop [OF always assms(2,4) ms]) (auto simp: grows_def)
  next
    fix c and h1 :: codegen
    let ?h = "h1\<lparr>g_code := g_code h1 @ [instr JZ (Some 0)]\<rparr>"
    assume tested: "jump_state h1 = jump_state g" "grows (g_code g) (g_code h1)"
      "loop_tail (length (g_code g)) (Some (length (g_code h1))) st (loop_body L [] ms) ?h = Inr ((lp, e, k0), g1)"
    show ?thesis
      by (rule patched_loop [OF tested(3) assms(2,4) ms]) (use tested(1,2) in \<open>auto simp: grows_def jump_state_def nth_append\<close>)
  qed (rule assms(5))
  with assms(3) show ?thesis by (blast intro: extends_control)
qed

lemma release_nothing: "set scs \<subseteq> {[]} \<Longrightarrow> forS scs (release_scope L) g = Inr ((), g)"
  by (induction scs) (simp_all add: giveS_def bindS_def)

lemma loop_jump_Inr:
  assumes "emit_loop_jump L p br g = Inr (u, g')" and "tidy g"
  shows "extends g g'" and "g_code g' = g_code g @ [instr JMP (Some 0)]"
    and "length (g_code g) \<in> (if br then brks g' else conts g')"
proof -
  obtain lp ls where loops: "g_loops g = lp # ls"
    using assms(1) by (auto simp: emit_loop_jump_def codegen_error_def raiseS_def split: list.splits)
  let ?n = "length (g_code g)"
  have "release_scopes_to L (scope_depth lp) g = Inr ((), g)"
    using assms(2) loops unfolding release_scopes_to_def by (simp add: tidy_def release_nothing)
  then have g': "g' = g\<lparr>g_code := g_code g @ [instr JMP (Some 0)], g_loops := add_site br ?n lp # ls\<rparr>"
    using assms(1) loops by (auto simp: emit_loop_jump_def bindS_Inr gen_run(3) method_simps emit_jump_def here_def emit_def)
  have sites: "brks g' = brks g \<union> (if br then {?n} else {})" "conts g' = conts g \<union> (if br then {} else {?n})"
    by (auto simp: g' brks_def conts_def add_site_def loops)
  have fresh: "?n \<notin> brks g \<union> conts g" using assms(2) by (auto simp: tidy_def)
  show "g_code g' = g_code g @ [instr JMP (Some 0)]" "?n \<in> (if br then brks g' else conts g')"
    using sites by (cases br; simp add: g')+
  have "j < length (g_code g') \<and> op (g_code g' ! j) = JMP" if "j \<in> brks g' \<union> conts g'" for j
  proof (cases "j = ?n")
    case False
    with that sites have "j \<in> brks g \<union> conts g" by (auto split: if_splits)
    with assms(2) have "j < ?n \<and> op (g_code g ! j) = JMP" unfolding tidy_def by blast
    then show ?thesis by (simp add: g' nth_append)
  qed (simp add: g')
  moreover have "brks g' \<inter> conts g' = {}" using assms(2) fresh by (auto simp: sites tidy_def)
  moreover have "set (take (length (g_scopes g) - scope_depth lp) (g_scopes g)) \<subseteq> {[]}"
    using assms(2) loops by (simp add: tidy_def)
  ultimately have "tidy g'" by (simp add: tidy_def) (simp add: g' add_site_def)
  moreover have "g_code g' = g_code g @ [instr JMP (Some 0)]" "g_scopes g' = g_scopes g" "g_functions g' = g_functions g"
    "g_loops g' = add_site br ?n lp # ls"
    by (simp_all add: g')
  ultimately show "extends g g'"
    using loops by (auto simp: extends_def sites add_site_def grows_def nth_append split: if_splits)
qed

text \<open>Emission that only extends what is there.\<close>

definition orderly :: "unit gen \<Rightarrow> bool" where
  "orderly m \<longleftrightarrow> (\<forall>g g'. tidy g \<longrightarrow> m g = Inr ((), g') \<longrightarrow> extends g g')"

lemma orderlyD: "orderly m \<Longrightarrow> m g = Inr ((), g') \<Longrightarrow> tidy g \<Longrightarrow> extends g g'"
  by (simp add: orderly_def)

lemma orderly_straight: "straight m \<Longrightarrow> orderly m"
  by (auto simp: orderly_def intro: straight_extends)

lemma orderly_located: "orderly m \<Longrightarrow> orderly (located p m)"
  unfolding orderly_def
proof (intro allI impI)
  fix g g' assume m: "\<forall>g g'. tidy g \<longrightarrow> m g = Inr ((), g') \<longrightarrow> extends g g'" and g: "tidy g" "located p m g = Inr ((), g')"
  from g(2) obtain g1 g2 where v: "m g1 = Inr ((), g2)" "g_code g1 = g_code g" "jump_state g1 = jump_state g"
    "g_code g' = g_code g2" "jump_state g' = jump_state g2" by (rule located_view)
  have "tidy g1" using tidy_grows [OF g(1) v(3)] v(2) by (simp add: grows_def)
  with m v(1) have "extends g1 g2" by blast
  then show "extends g g'" by (rule extends_eq) (simp_all add: v)
qed

lemma orderly_in_order: "(\<And>m. m \<in> set ms \<Longrightarrow> orderly m) \<Longrightarrow> orderly (in_order ms)"
  unfolding orderly_def by (blast intro: in_order_extends)

lemma orderly_block: "(\<And>m. m \<in> set ms \<Longrightarrow> orderly m) \<Longrightarrow> orderly (scoped_block L [] ms)"
  using orderly_in_order [of ms]
  by (auto simp: orderly_def scoped_block_Inr intro: opened_extends tidy_opened)

lemma orderly_if: "straight c \<Longrightarrow> orderly t \<Longrightarrow> orderly e \<Longrightarrow> orderly (emit_if L c t e)"
  unfolding orderly_def
proof (intro allI impI)
  fix g g' assume "straight c" and t: "\<forall>g g'. tidy g \<longrightarrow> t g = Inr ((), g') \<longrightarrow> extends g g'"
    and e: "\<forall>g g'. tidy g \<longrightarrow> e g = Inr ((), g') \<longrightarrow> extends g g'" and g: "tidy g" "emit_if L c t e g = Inr ((), g')"
  then show "extends g g'" by (rule_tac emit_if_view [OF g(2,1)]) (blast intro: straight_extends)+
qed

lemma orderly_while:
  assumes "straight c" and ms: "\<And>m. m \<in> set ms \<Longrightarrow> orderly m"
  shows "orderly (emit_while c (loop_body L [] ms))"
  unfolding orderly_def
proof (intro allI impI)
  fix g g' assume g: "tidy g" "emit_while c (loop_body L [] ms) g = Inr ((), g')"
  then obtain lp e k0 g1 where "emit_loop (Some c) (giveS ()) (loop_body L [] ms) g = Inr ((lp, e, k0), g1)"
    "patch_loop lp e (length (g_code g)) g1 = Inr ((), g')"
    by (auto simp: emit_while_loop gen_run(4) bindS_Inr)
  then show "extends g g'"
    using loop_extends [of "Some c" "giveS ()" L ms g lp e k0 g1 "length (g_code g)" "()" g'] g(1) assms(1)
      orderlyD [OF orderly_in_order [of ms, OF ms]]
    by (simp add: straight_basic)
qed

lemma orderly_for:
  assumes "straight i" and "\<And>c. cond = Some c \<Longrightarrow> straight c" and "straight st" and ms: "\<And>m. m \<in> set ms \<Longrightarrow> orderly m"
  shows "orderly (emit_for L [] i cond st (loop_body L [] ms))"
  unfolding orderly_def
proof (intro allI impI)
  fix g g' assume g: "tidy g" "emit_for L [] i cond st (loop_body L [] ms) g = Inr ((), g')"
  then obtain g1 lp e k0 g2 g3 where i: "i (opened g) = Inr ((), g1)"
    and l: "emit_loop cond st (loop_body L [] ms) g1 = Inr ((lp, e, k0), g2)" "patch_loop lp e k0 g2 = Inr ((), g3)"
    and g': "g' = closed g3"
    by (auto simp: emit_for_loop bindS_Inr push_scope_def pop_scope_def result_simps opened_def closed_def)
  have a: "extends (opened g) g1" using straight_extends [OF assms(1) i] g(1) tidy_opened by blast
  have "extends g1 g3"
    using loop_extends [OF l extends_tidy [OF a] assms(3,2) orderlyD [OF orderly_in_order [of ms, OF ms]]] by simp
  with a show "extends g g'" unfolding g' by (blast intro: opened_extends extends_trans)
qed

lemma orderly_loop_jump: "orderly (emit_loop_jump L p br)"
  by (auto simp: orderly_def intro: loop_jump_Inr)

lemma emit_stmt_orderly: "covered st \<Longrightarrow> orderly (emit_stmt C L st)"
proof (induction st rule: covered.induct)
  case (1 p sy i)
  then show ?case by (rule orderly_straight [OF straight_stmts(1)])
next
  case (2 p q sy e)
  then show ?case by (rule orderly_straight [OF straight_stmts(2)])
next
  case (3 p e)
  then show ?case by (rule orderly_straight [OF straight_stmts(3)])
next
  case (4 p v)
  then show ?case by (rule orderly_straight [OF straight_stmts(4)])
next
  case (5 p c t refs e)
  then show ?case
    by (auto simp: list_all_iff intro!: orderly_located orderly_if orderly_block straight_scalar
      split: option.splits) (simp add: orderly_def method_simps extends_refl)
next
  case (6 p c body refs)
  then show ?case by (auto simp: list_all_iff intro!: orderly_located orderly_while straight_scalar)
next
  case (7 p init cond st body refs for_refs)
  have "refs = []" "for_refs = []" using 7 by auto
  moreover have "orderly (emit_for L [] (run_opt (map_option (emit_stmt C L) init)) (map_option (emit_expr C L) cond)
      (run_opt (map_option (emit_stmt C L) st)) (loop_body L [] (map (emit_stmt C L) body)))"
    by (rule orderly_for) (use 7 in \<open>auto simp: list_all_iff split: option.splits intro: straight_scalar straight_clause straight_basic\<close>)
  ultimately show ?case by (simp add: orderly_located)
next
  case (8 p ss refs)
  then show ?case by (auto simp: list_all_iff intro!: orderly_located orderly_block)
qed (simp_all add: orderly_located orderly_loop_jump)

end
