(* ===== verification/CompileRun.thy ===== *)
theory CompileRun
  imports CompileStmt
begin

text \<open>
  Compiled statements run as their meaning says. Where the emitted parts of a statement lie in the
  patched program is read off the generator (\<open>gen_at\<close>); the run of the machine then follows the
  big-step semantics, part by part.
\<close>

section \<open>Where the parts lie\<close>

text \<open>The program holds from \<open>i\<close> to \<open>j\<close> what \<open>m\<close> emits, its open jumps leading to \<open>b\<close> and \<open>k\<close>.\<close>

definition gen_at :: "program \<Rightarrow> nat \<Rightarrow> nat \<Rightarrow> nat \<Rightarrow> nat \<Rightarrow> unit gen \<Rightarrow> bool" where
  "gen_at P i j b k m \<longleftrightarrow> (\<exists>h h'. tidy h \<and> length (g_code h) = i \<and> length (g_code h') = j \<and> m h = Inr ((), h')
     \<and> linked P i h' b k)"

definition op_at :: "program \<Rightarrow> nat \<Rightarrow> opcode \<Rightarrow> int option \<Rightarrow> bool" where
  "op_at P i oc a \<longleftrightarrow> i < length (code P) \<and> code P ! i = instr oc a"

lemma op_atD: "op_at P i oc a \<Longrightarrow> i < length (code P)" "op_at P i oc a \<Longrightarrow> code P ! i = instr oc a"
  by (simp_all add: op_at_def)

lemma gen_atI: "tidy h \<Longrightarrow> m h = Inr ((), h') \<Longrightarrow> linked P i h' b k \<Longrightarrow> length (g_code h) = i \<Longrightarrow> length (g_code h') = j
    \<Longrightarrow> gen_at P i j b k m"
  by (auto simp: gen_at_def)

lemma gen_at_located:
  assumes "gen_at P i j b k (located p m)"
  shows "gen_at P i j b k m"
proof -
  from assms obtain h h' where h: "tidy h" "length (g_code h) = i" "length (g_code h') = j" "located p m h = Inr ((), h')"
    "linked P i h' b k" by (auto simp: gen_at_def)
  from h(4) obtain g1 g2 where v: "m g1 = Inr ((), g2)" "g_code g1 = g_code h" "jump_state g1 = jump_state h"
    "g_code h' = g_code g2" "jump_state h' = jump_state g2" by (rule located_view)
  have "tidy g1" using tidy_grows [OF h(1) v(3)] v(2) by (simp add: grows_def)
  moreover have "linked P i g2 b k" using v(4,5) by (intro linked_same [OF h(5)]) simp_all
  ultimately show ?thesis using h v by (intro gen_atI [of g1 m g2]) simp_all
qed

lemma gen_at_seq:
  assumes "gen_at P i j b k (bindS m (\<lambda>_. m'))" and "orderly m" and "orderly m'"
  obtains n where "gen_at P i n b k m" and "gen_at P n j b k m'" and "i \<le> n" and "n \<le> j"
proof -
  from assms(1) obtain h g h' where h: "tidy h" "length (g_code h) = i" "length (g_code h') = j" "m h = Inr ((), g)"
    "m' g = Inr ((), h')" "linked P i h' b k" by (auto simp: gen_at_def bindS_Inr)
  have e: "extends h g" by (rule orderlyD [OF assms(2) h(4,1)])
  have e: "extends h g" "extends g h'" by (fact, rule orderlyD [OF assms(3) h(5) extends_tidy [OF e]])
  then have le: "i \<le> length (g_code g)" "length (g_code g) \<le> j" using h by (auto simp: extends_def grows_def)
  show ?thesis
  proof (rule that)
    show "gen_at P i (length (g_code g)) b k m"
      using h linked_extends [OF h(6) e(2) order_refl] by (intro gen_atI [of h _ g]) simp_all
    have "linked P (length (g_code g)) h' b k" by (rule linked_sub [OF h(6) le(1) order_refl]) auto
    then show "gen_at P (length (g_code g)) j b k m'" using h extends_tidy [OF e(1)] by (intro gen_atI [of g m' h']) simp_all
  qed (rule le)+
qed

lemma gen_at_emit:
  assumes "gen_at P i j b k (emit oc a)"
  shows "op_at P i oc a" and "j = i + 1"
proof -
  from assms obtain h where h: "tidy h" "length (g_code h) = i" "j = i + 1"
    "linked P i (h\<lparr>g_code := g_code h @ [instr oc a]\<rparr>) b k" by (auto simp: gen_at_def emit_Inr)
  have "i \<notin> brks h \<union> conts h" using h(1,2) by (auto simp: tidy_def)
  with linked_nth [OF h(4), of i] h(2) show "op_at P i oc a" by (simp add: op_at_def brks_def conts_def nth_append)
  show "j = i + 1" by (rule h)
qed

lemma gen_at_give: "gen_at P i j b k (giveS ()) \<Longrightarrow> j = i"
  by (auto simp: gen_at_def giveS_def)

lemma gen_at_slot:
  assumes "gen_at P i j b k (bindS (slot_of L p sy) f)"
  obtains sl where "map_of (lay_slots L) sy = Some sl" and "gen_at P i j b k (f sl)"
  using assms by (auto simp: gen_at_def slot_of_def bindS_Inr result_simps codegen_error_def split: option.splits)

lemma gen_at_block:
  assumes "gen_at P i j b k (scoped_block L [] ms)"
  shows "gen_at P i j b k (in_order ms)"
proof -
  from assms obtain h g where h: "tidy h" "length (g_code h) = i" "length (g_code g) = j" "in_order ms (opened h) = Inr ((), g)"
    "linked P i (closed g) b k" by (auto simp: gen_at_def scoped_block_Inr closed_def)
  have "linked P i g b k" using h(5) by (simp add: linked_def closed_def brks_def conts_def)
  then show ?thesis using h tidy_opened [OF h(1)] by (intro gen_atI [of "opened h" _ g]) (simp_all add: opened_def)
qed

lemma gen_at_jump:
  assumes "gen_at P i j b k (emit_loop_jump L p br)"
  shows "op_at P i JMP (Some (int (if br then b else k)))" and "j = i + 1"
proof -
  from assms obtain h h' where h: "tidy h" "length (g_code h) = i" "length (g_code h') = j" "emit_loop_jump L p br h = Inr ((), h')"
    "linked P i h' b k" by (auto simp: gen_at_def)
  note v = loop_jump_Inr [OF h(4,1)]
  show "j = i + 1" using v(2) h by simp
  have "brks h' \<inter> conts h' = {}" using v(1) by (simp add: extends_def tidy_def)
  then have "i \<in> brks h' \<and> br \<or> i \<in> conts h' \<and> i \<notin> brks h' \<and> \<not> br" using v(3) h(2) by (auto split: if_splits)
  then show "op_at P i JMP (Some (int (if br then b else k)))"
    using h v(2) unfolding linked_def op_at_def by (auto dest!: spec [of _ i])
qed

lemma gen_at_if:
  assumes "gen_at P i j b k (emit_if L c t e)" and "straight c" and "orderly t" and "orderly e"
  obtains m n where "gen_at P i m b k c" and "op_at P m JZ (Some (int (n + 1)))" and "gen_at P (m + 1) n b k t"
    and "op_at P n JMP (Some (int j))" and "gen_at P (n + 1) j b k e"
proof -
  from assms(1) obtain h h' where h: "tidy h" "length (g_code h) = i" "length (g_code h') = j" "emit_if L c t e h = Inr ((), h')"
    "linked P i h' b k" by (auto simp: gen_at_def)
  from h(4,1) obtain h1 h2 h3 h4 where v: "c h = Inr ((), h1)"
    "t (h1\<lparr>g_code := g_code h1 @ [instr JZ (Some 0)]\<rparr>) = Inr ((), h2)"
    "g_code h3 = (g_code h2)[length (g_code h1) := instr JZ (Some (int (1 + length (g_code h2))))] @ [instr JMP (Some 0)]"
    "jump_state h3 = jump_state h2" "e h3 = Inr ((), h4)"
    "g_code h' = (g_code h4)[length (g_code h2) := instr JMP (Some (int (length (g_code h4))))]"
    "jump_state h' = jump_state h4"
    "extends h h1" "extends (h1\<lparr>g_code := g_code h1 @ [instr JZ (Some 0)]\<rparr>) h2" "extends h h3" "extends h3 h4" "extends h h'"
    by (rule emit_if_view) (blast intro: straight_extends [OF assms(2) _ h(1)] orderlyD [OF assms(3)] orderlyD [OF assms(4)])+
  let ?h1 = "h1\<lparr>g_code := g_code h1 @ [instr JZ (Some 0)]\<rparr>"
  have t1: "tidy h1" "tidy ?h1" "tidy h2" "tidy h3" "tidy h4"
    using v(8,9,10,11) emit_extends [of h1] by (auto dest: extends_tidy)
  have le: "i \<le> length (g_code h1)" "length (g_code h1) < length (g_code h2)" "length (g_code h3) = length (g_code h2) + 1"
    "length (g_code h3) \<le> length (g_code h4)" "length (g_code h4) = j"
    using v(3,6,8,9,11) h(2,3) by (auto simp: extends_def grows_def)
  have s4: "brks h' = brks h4" "conts h' = conts h4" "brks h3 = brks h2" "conts h3 = conts h2"
    using control_sites [OF v(7)] control_sites [OF v(4)] by simp_all
  have n2: "length (g_code h2) \<notin> brks h4 \<union> conts h4"
    using new_sites [OF v(11) t1(4), of "length (g_code h2)"] le t1(3) s4 by (auto simp: tidy_def)
  have n1: "length (g_code h1) \<notin> brks h4 \<union> conts h4"
    using new_sites [OF v(11) t1(4), of "length (g_code h1)"] new_sites [OF v(9) t1(2), of "length (g_code h1)"] le t1(1) s4
    by (auto simp: tidy_def brks_def conts_def)
  have code: "g_code h' ! a = (if a = length (g_code h2) then instr JMP (Some (int j)) else if a < length (g_code h3)
      then g_code h3 ! a else g_code h4 ! a)" if "a < j" for a
    using that v(6) le extends_old(1) [OF v(11), of a] by (auto simp: nth_list_update)
  have sites: "(a \<in> brks h' \<longleftrightarrow> a \<in> brks h2) \<and> (a \<in> conts h' \<longleftrightarrow> a \<in> conts h2)" if "a \<le> length (g_code h2)" for a
    using that le extends_old(2,3) [OF v(11), of a] s4 by auto
  show ?thesis
  proof (rule that)
    show "op_at P (length (g_code h2)) JMP (Some (int j))" "op_at P (length (g_code h1)) JZ (Some (int (length (g_code h2) + 1)))"
      unfolding op_at_def using linked_nth [OF h(5), of "length (g_code h2)"] linked_nth [OF h(5), of "length (g_code h1)"]
        n1 n2 le h(3) s4 v(3) code by (auto simp: nth_append)
    have "linked P (length (g_code h2) + 1) h4 b k"
      by (rule linked_sub [OF h(5)]) (use le h(3) code extends_old(1) [OF v(11)] s4 in auto)
    then show "gen_at P (length (g_code h2) + 1) j b k e" using v(5) t1 le by (intro gen_atI [of h3 _ h4]) simp_all
    have "linked P (length (g_code h1) + 1) h2 b k"
      by (rule linked_sub [OF h(5)]) (use le h(3) code sites v(3) in \<open>auto simp: nth_append\<close>)
    then show "gen_at P (length (g_code h1) + 1) (length (g_code h2)) b k t"
      using v(2) t1 le by (intro gen_atI [of ?h1 _ h2]) simp_all
    have "linked P i h1 b k"
      by (rule linked_sub [OF h(5) order_refl])
        (use le h(3) code sites v(3) extends_old [OF v(9)] in \<open>auto simp: nth_append brks_def conts_def\<close>)
    then show "gen_at P i (length (g_code h1)) b k c" using v(1) h by (intro gen_atI [of h _ h1]) simp_all
  qed
qed

text \<open>The loops: a test, the body, the step, the jump back.\<close>

definition test_at :: "program \<Rightarrow> nat \<Rightarrow> nat \<Rightarrow> nat \<Rightarrow> unit gen option \<Rightarrow> bool" where
  "test_at P i j e cond \<longleftrightarrow> (case cond of None \<Rightarrow> j = i
     | Some c \<Rightarrow> \<exists>n b k. gen_at P i n b k c \<and> op_at P n JZ (Some (int e)) \<and> j = n + 1)"

definition tail_at :: "program \<Rightarrow> nat \<Rightarrow> nat \<Rightarrow> nat \<Rightarrow> nat option \<Rightarrow> unit gen \<Rightarrow> unit gen list \<Rightarrow> bool" where
  "tail_at P i m e target st ms \<longleftrightarrow> (\<exists>n k b' k'. gen_at P m n e k (in_order ms)
     \<and> (case target of None \<Rightarrow> k = n | Some t \<Rightarrow> k = t) \<and> gen_at P n k' b' b' st
     \<and> op_at P k' JMP (Some (int i)) \<and> e = k' + 1)"

definition loop_at :: "program \<Rightarrow> nat \<Rightarrow> nat \<Rightarrow> nat option \<Rightarrow> unit gen option \<Rightarrow> unit gen \<Rightarrow> unit gen list \<Rightarrow> bool" where
  "loop_at P i e target cond st ms \<longleftrightarrow> (\<exists>m. test_at P i m e cond \<and> tail_at P i m e target st ms)"

lemma tidy_sites: "tidy h \<Longrightarrow> j \<in> brks h \<union> conts h \<Longrightarrow> j < length (g_code h)"
  by (simp add: tidy_def)

lemma loop_region:
  assumes l: "loop_tail i jz st (loop_body L [] ms) h = Inr ((lp, e, k0), g1)"
    and p: "patch_loop lp e (case target of None \<Rightarrow> k0 | Some t \<Rightarrow> t) g1 = Inr (u, g')"
    and st: "straight st" and ms: "orderly (in_order ms)" and h: "tidy h"
    and jz: "case jz of None \<Rightarrow> True | Some i \<Rightarrow> i < length (g_code h) \<and> g_code h ! i = instr JZ (Some 0)"
    and P: "linked P (length (g_code h)) g' b k"
  shows "tail_at P i (length (g_code h)) e target st ms \<and> e = length (g_code g') \<and> jump_state g' = jump_state h
     \<and> (\<forall>j < length (g_code h). g_code g' ! j = (if jz = Some j then instr JZ (Some (int e)) else g_code h ! j))
     \<and> length (g_code h) \<le> length (g_code g')"
proof (rule patched_loop [OF l p st orderlyD [OF ms] jz])
  let ?kt = "case target of None \<Rightarrow> k0 | Some t \<Rightarrow> t"
  fix hb hs hs' :: codegen
  assume b: "in_order ms (opened (looped h)) = Inr ((), hb)" "extends (opened (looped h)) hb"
    "\<And>j. length (g_code h) \<le> j \<Longrightarrow> j < length (g_code hb) \<Longrightarrow> g_code g' ! j =
      (if j \<in> brks hb then instr JMP (Some (int e)) else if j \<in> conts hb then instr JMP (Some (int ?kt)) else g_code hb ! j)"
    and s: "st hs = Inr ((), hs')" "jump_state hs = jump_state h" "g_code hs = g_code hb" "k0 = length (g_code hb)"
    "grows (g_code hb) (g_code hs')" "\<And>j. length (g_code hb) \<le> j \<Longrightarrow> j < length (g_code hs') \<Longrightarrow> g_code g' ! j = g_code hs' ! j"
    and j: "g_code g' ! length (g_code hs') = instr JMP (Some (int i))" "length (g_code g') = length (g_code hs') + 1"
    "e = length (g_code hs') + 1" and js: "jump_state g' = jump_state h" and g: "grows (g_code h) (g_code hb)"
    and old: "\<And>j. j < length (g_code h) \<Longrightarrow> g_code g' ! j = (if jz = Some j then instr JZ (Some (int e)) else g_code h ! j)"
  have le: "length (g_code h) \<le> length (g_code hb)" "length (g_code hb) \<le> length (g_code hs')"
    using g s(5) by (auto simp: grows_def)
  have sites: "j \<notin> brks g' \<union> conts g'" if "length (g_code h) \<le> j" for j
    using tidy_sites [OF h, of j] that control_sites [OF js] by auto
  have Pc: "j < length (code P) \<and> code P ! j = g_code g' ! j" if "length (g_code h) \<le> j" "j < length (g_code g')" for j
    using linked_nth [OF P that sites [OF that(1)]] .
  have "linked P (length (g_code h)) hb e ?kt"
    using le j(2) Pc P b(3) unfolding linked_def by auto
  then have "gen_at P (length (g_code h)) (length (g_code hb)) e ?kt (in_order ms)"
    using b(1) tidy_looped [of h] by (intro gen_atI [of "opened (looped h)" _ hb]) (simp_all add: opened_def looped_def)
  moreover have ths: "tidy hs" using tidy_grows [OF h s(2)] g s(3) by simp
  have "jump_state hs' = jump_state h" using st s(1,2) by (auto simp: straight_def)
  then have "linked P (length (g_code hb)) hs' b b"
    using le j(2) Pc P s(6) sites control_sites [of hs' h] control_sites [OF js] unfolding linked_def by auto
  then have "gen_at P (length (g_code hb)) (length (g_code hs')) b b st"
    using s(1,3) ths by (intro gen_atI [of hs _ hs']) simp_all
  moreover have "op_at P (length (g_code hs')) JMP (Some (int i))" using Pc j le by (simp add: op_at_def)
  moreover have "case target of None \<Rightarrow> ?kt = length (g_code hb) | Some t \<Rightarrow> ?kt = t" using s(4) by (cases target) simp_all
  ultimately have "tail_at P i (length (g_code h)) e target st ms" using j(3) unfolding tail_at_def by blast
  then show ?thesis using j le js old by simp
qed

lemma loop_at_emitted:
  assumes l: "emit_loop cond st (loop_body L [] ms) g = Inr ((lp, e, k0), g1)"
    and p: "patch_loop lp e (case target of None \<Rightarrow> k0 | Some t \<Rightarrow> t) g1 = Inr (u, g')"
    and st: "straight st" and c: "\<And>c. cond = Some c \<Longrightarrow> straight c" and ms: "orderly (in_order ms)" and g: "tidy g"
    and P: "linked P (length (g_code g)) g' b k"
  shows "loop_at P (length (g_code g)) (length (g_code g')) target cond st ms"
proof (rule emit_loop_start [OF l])
  assume cond: "cond = None" and t: "loop_tail (length (g_code g)) None st (loop_body L [] ms) g = Inr ((lp, e, k0), g1)"
  from loop_region [OF t p st ms g _ P] cond show ?thesis by (auto simp: loop_at_def test_at_def)
next
  fix c' and h1 :: codegen
  let ?h = "h1\<lparr>g_code := g_code h1 @ [instr JZ (Some 0)]\<rparr>"
  assume cond: "cond = Some c'" "c' g = Inr ((), h1)" "jump_state h1 = jump_state g" "grows (g_code g) (g_code h1)"
    and t: "loop_tail (length (g_code g)) (Some (length (g_code h1))) st (loop_body L [] ms) ?h = Inr ((lp, e, k0), g1)"
  have le: "length (g_code g) \<le> length (g_code h1)" using cond(4) by (simp add: grows_def)
  have js: "jump_state ?h = jump_state g" using cond(3) by (simp add: jump_state_def)
  have th: "tidy ?h" by (rule tidy_grows [OF g js]) (use cond(4) grows_trans in simp)
  have P': "linked P (length (g_code ?h)) g' b k" by (rule linked_sub [OF P]) (use le in auto)
  from loop_region [OF t p st ms th _ P'] have r: "tail_at P (length (g_code g)) (length (g_code ?h)) e target st ms"
    "e = length (g_code g')" "jump_state g' = jump_state ?h" "length (g_code ?h) \<le> length (g_code g')"
    and old: "\<And>j. j < length (g_code ?h) \<Longrightarrow> g_code g' ! j = (if length (g_code h1) = j then instr JZ (Some (int e)) else g_code ?h ! j)"
    by (auto simp: nth_append)
  have sites: "brks g' = brks g" "conts g' = conts g" "brks h1 = brks g" "conts h1 = conts g"
    using control_sites [of g' g] control_sites [OF cond(3)] r(3) js by auto
  have "linked P (length (g_code g)) h1 b k"
    by (rule linked_sub [OF P order_refl]) (use r(4) old sites in \<open>auto simp: nth_append\<close>)
  then have "gen_at P (length (g_code g)) (length (g_code h1)) b k c'"
    using cond(2) g by (intro gen_atI [of g _ h1]) simp_all
  moreover have "op_at P (length (g_code h1)) JZ (Some (int e))"
    unfolding op_at_def using linked_nth [OF P le] tidy_sites [OF g, of "length (g_code h1)"] sites le r(4) old by auto
  ultimately show ?thesis using r(1,2) cond(1) unfolding loop_at_def test_at_def by auto
qed (rule c)

lemma gen_at_while:
  assumes "gen_at P i j b k (emit_while c (loop_body L [] ms))" and "straight c" and "orderly (in_order ms)"
  shows "loop_at P i j (Some i) (Some c) (giveS ()) ms"
proof -
  from assms(1) obtain h h' where h: "tidy h" "length (g_code h) = i" "length (g_code h') = j"
    "emit_while c (loop_body L [] ms) h = Inr ((), h')" "linked P i h' b k" by (auto simp: gen_at_def)
  then obtain lp e k0 g1 where "emit_loop (Some c) (giveS ()) (loop_body L [] ms) h = Inr ((lp, e, k0), g1)"
    "patch_loop lp e (case Some i of None \<Rightarrow> k0 | Some t \<Rightarrow> t) g1 = Inr ((), h')"
    by (auto simp: emit_while_loop gen_run(4) bindS_Inr)
  from loop_at_emitted [OF this] show ?thesis using h assms(2,3) by (auto simp: straight_basic)
qed

lemma gen_at_for:
  assumes "gen_at P i j b k (emit_for L [] init cond st (loop_body L [] ms))" and "straight init" and "straight st"
    and "\<And>c. cond = Some c \<Longrightarrow> straight c" and "\<And>m. m \<in> set ms \<Longrightarrow> orderly m"
  obtains n where "gen_at P i n b k init" and "loop_at P n j None cond st ms"
proof -
  from assms(1) obtain h h' where h: "tidy h" "length (g_code h) = i" "length (g_code h') = j"
    "emit_for L [] init cond st (loop_body L [] ms) h = Inr ((), h')" "linked P i h' b k" by (auto simp: gen_at_def)
  then obtain g1 lp e k0 g2 g3 where r: "init (opened h) = Inr ((), g1)"
    and l: "emit_loop cond st (loop_body L [] ms) g1 = Inr ((lp, e, k0), g2)"
      "patch_loop lp e (case None of None \<Rightarrow> k0 | Some t \<Rightarrow> t) g2 = Inr ((), g3)"
    and h': "h' = closed g3"
    by (auto simp: emit_for_loop bindS_Inr push_scope_def pop_scope_def result_simps opened_def closed_def)
  have a: "extends (opened h) g1" by (rule straight_extends [OF assms(2) r tidy_opened [OF h(1)]])
  have o': "orderly (in_order ms)" by (rule orderly_in_order [OF assms(5)])
  have b: "extends g1 g3"
    using loop_extends [OF l extends_tidy [OF a] assms(3,4) orderlyD [OF o']] by simp
  have len: "length (g_code g3) = j" "i \<le> length (g_code g1)" using h(2,3) h' a by (simp_all add: closed_def extends_def opened_def grows_def)
  have P: "linked P i g3 b k" using h(5) by (simp add: h' linked_def closed_def brks_def conts_def)
  have "linked P (length (g_code g1)) g3 b k" by (rule linked_sub [OF P len(2)]) auto
  from loop_at_emitted [OF l assms(3,4) o' extends_tidy [OF a] this] have "loop_at P (length (g_code g1)) j None cond st ms"
    by (simp add: len)
  moreover have "gen_at P i (length (g_code g1)) b k init"
    using linked_extends [OF P b order_refl] r h tidy_opened by (intro gen_atI [of "opened h" _ g1]) (simp_all add: opened_def)
  ultimately show ?thesis using that by blast
qed

section \<open>How a run ends\<close>

text \<open>Every variable of a word has a slot of its own.\<close>

definition scalar_slots :: "function_layout \<Rightarrow> bool" where
  "scalar_slots L \<longleftrightarrow> (\<forall>sy sl. map_of (lay_slots L) sy = Some sl \<and> scalar_type (sym_type sy) \<longrightarrow> \<not> is_array_slot sl
     \<and> (\<forall>sy' sl'. map_of (lay_slots L) sy' = Some sl' \<and> scalar_type (sym_type sy') \<and> slot_index sl' = slot_index sl \<longrightarrow> sy' = sy))"

text \<open>The machine gets to \<open>j\<close> with the stack it had; only the variables have changed.\<close>

definition lands :: "'w io_ops \<Rightarrow> program \<Rightarrow> function_layout \<Rightarrow> nat list \<Rightarrow> bool list \<Rightarrow> 'w vm \<Rightarrow> 'w vm \<Rightarrow> nat
    \<Rightarrow> (symbol \<Rightarrow> 16 word) \<Rightarrow> bool" where
  "lands ops P L vs rs s t j \<sigma> \<longleftrightarrow> (\<exists>ls. reaches ops P t (conf (s\<lparr>locals := ls\<rparr>) j vs rs) \<and> frame_holds P L \<sigma> (s\<lparr>locals := ls\<rparr>))"

definition faults :: "'w io_ops \<Rightarrow> program \<Rightarrow> 'w vm \<Rightarrow> bool" where
  "faults ops P t \<longleftrightarrow> (\<exists>u f. reaches ops P t u \<and> step ops P u = fault f)"

definition returns :: "'w io_ops \<Rightarrow> program \<Rightarrow> nat list \<Rightarrow> bool list \<Rightarrow> 'w vm \<Rightarrow> 'w vm \<Rightarrow> 16 word \<Rightarrow> bool" where
  "returns ops P vs rs s t w \<longleftrightarrow> (\<exists>ls i. reaches ops P t (conf (s\<lparr>locals := ls\<rparr>) i (unat w # vs) (False # rs)) \<and> op_at P i RET None)"

fun ends :: "'w io_ops \<Rightarrow> program \<Rightarrow> function_layout \<Rightarrow> nat list \<Rightarrow> bool list \<Rightarrow> 'w vm \<Rightarrow> nat \<Rightarrow> nat \<Rightarrow> nat \<Rightarrow> 'w vm \<Rightarrow> signal
    \<Rightarrow> (symbol \<Rightarrow> 16 word) \<Rightarrow> bool" where
  "ends ops P L vs rs s j b k t Next \<sigma> = lands ops P L vs rs s t j \<sigma>"
| "ends ops P L vs rs s j b k t Brk \<sigma> = lands ops P L vs rs s t b \<sigma>"
| "ends ops P L vs rs s j b k t Cont \<sigma> = lands ops P L vs rs s t k \<sigma>"
| "ends ops P L vs rs s j b k t (Ret w) \<sigma> = returns ops P vs rs s t w"
| "ends ops P L vs rs s j b k t Faulted \<sigma> = faults ops P t"

lemma conf_locals: "conf (s\<lparr>locals := ls\<rparr>) k vs rs = (conf s k vs rs)\<lparr>locals := ls\<rparr>"
  by (simp add: conf_def with_stack_def)

lemma lands_here: "frame_holds P L \<sigma> s \<Longrightarrow> reaches ops P t (conf s j vs rs) \<Longrightarrow> lands ops P L vs rs s t j \<sigma>"
  unfolding lands_def by (rule exI [of _ "locals s"]) simp

lemma ends_reach: "reaches ops P t u \<Longrightarrow> ends ops P L vs rs s j b k u sig \<sigma> \<Longrightarrow> ends ops P L vs rs s j b k t sig \<sigma>"
  by (cases sig) (auto simp: lands_def faults_def returns_def intro: reaches_trans)

lemma ends_step: "step ops P t = Inr (Running u) \<Longrightarrow> ends ops P L vs rs s j b k u sig \<sigma> \<Longrightarrow> ends ops P L vs rs s j b k t sig \<sigma>"
  by (blast intro: ends_reach conf_step reaches.intros vm_step.intros)

lemma ends_then:
  assumes "lands ops P L vs rs s t i \<sigma>" and "frame_base s \<le> length vs"
    and "\<And>s'. frame_holds P L \<sigma> s' \<Longrightarrow> frame_base s' \<le> length vs \<Longrightarrow> ends ops P L vs rs s' j b k (conf s' i vs rs) sig \<sigma>'"
  shows "ends ops P L vs rs s j b k t sig \<sigma>'"
proof -
  from assms(1) obtain ls where r: "reaches ops P t (conf (s\<lparr>locals := ls\<rparr>) i vs rs)" and f: "frame_holds P L \<sigma> (s\<lparr>locals := ls\<rparr>)"
    by (auto simp: lands_def)
  have "ends ops P L vs rs (s\<lparr>locals := ls\<rparr>) j b k (conf (s\<lparr>locals := ls\<rparr>) i vs rs) sig \<sigma>'"
    by (rule assms(3) [OF f]) (simp add: assms(2))
  then have "ends ops P L vs rs s j b k (conf (s\<lparr>locals := ls\<rparr>) i vs rs) sig \<sigma>'"
    by (cases sig) (auto simp: lands_def returns_def)
  with r show ?thesis by (rule ends_reach)
qed

lemma ends_redirect: "sig = Next \<Longrightarrow> j = j' \<Longrightarrow> ends ops P L vs rs s j b k t sig \<sigma> \<Longrightarrow> ends ops P L vs rs s j' b' k' t sig \<sigma>"
  by simp

section \<open>Expressions, stores and jumps\<close>

lemma gen_at_expr:
  assumes "gen_at P i j b k (emit_expr C L e)" and "scalar e" and "frame_holds P L \<sigma> s" and "frame_base s \<le> length vs"
  shows "outcome ops P (conf s i vs rs) (eval \<sigma> e) (\<lambda>w. conf s j (unat w # vs) (False # rs))"
proof -
  from assms(1) obtain h h' where h: "tidy h" "length (g_code h) = i" "length (g_code h') = j" "emit_expr C L e h = Inr ((), h')"
    "linked P i h' b k" by (auto simp: gen_at_def)
  have js: "jump_state h' = jump_state h" by (rule scalar_extends(2) [OF assms(2) h(4,1)])
  have "code_at P i (g_code h')"
    using tidy_sites [OF h(1)] control_sites [OF js] h(2) by (intro linked_code_at [OF h(5)]) simp
  then show ?thesis
    using expression_outcome [OF assms(2) h(4) _ assms(3,4), where ops = ops and rs = rs] h(2,3) by simp
qed

lemma step_store:
  assumes "op_at P k STORE_LOCAL (Some (int n))" and "n < length (locals s)" and "frame_base s \<le> length vs"
  shows "step ops P (conf s k (unat w # vs) (r # rs)) = Inr (Running (conf (s\<lparr>locals := (locals s)[n := unat (w :: 16 word)]\<rparr>) (k + 1) vs rs))"
proof -
  have "set_local (int n) (int (unat w)) (conf s j vs rs) = Inr (conf (s\<lparr>locals := (locals s)[n := unat w]\<rparr>) j vs rs)" for j
    using assms(2) unfolding set_local_def mask16_word by (simp add: conf_locals)
  then show ?thesis
    using assms(3) by (intro exec_conf [OF op_atD [OF assms(1)]]) (simp add: exec_one del: of_nat_unat)
qed

lemma step_pop:
  assumes "op_at P k POP None" and "frame_base s \<le> length vs"
  shows "step ops P (conf s k (v # vs) (r # rs)) = Inr (Running (conf s (k + 1) vs rs))"
  using assms(2) by (intro exec_conf [OF op_atD [OF assms(1)]]) (simp add: exec_one exec_float_def exec_string_def
    exec_locals_def exec_stack_def)

lemma frame_holds_store:
  assumes "frame_holds P L \<sigma> s" and "scalar_slots L" and "map_of (lay_slots L) sy = Some sl" and "scalar_type (sym_type sy)"
  shows "frame_holds P L (\<sigma>(sy := w)) (s\<lparr>locals := (locals s)[slot_index sl := unat w]\<rparr>)"
    and "slot_index sl < length (locals s)"
proof -
  let ?s = "s\<lparr>locals := (locals s)[slot_index sl := unat w]\<rparr>"
  have "slot_index sl' < length (locals ?s) \<and> locals ?s ! slot_index sl' = unat ((\<sigma>(sy := w)) sy')
      \<and> slot_index sl' \<notin> set (current_ref_slots P ?s)"
    if "map_of (lay_slots L) sy' = Some sl'" "scalar_type (sym_type sy')" for sy' sl'
  proof -
    have "slot_index sl' < length (locals s) \<and> locals s ! slot_index sl' = unat (\<sigma> sy') \<and> slot_index sl' \<notin> set (current_ref_slots P s)"
      using assms(1) that by (auto simp: frame_holds_def)
    moreover have "sy' = sy \<and> sl' = sl \<or> sy' \<noteq> sy \<and> slot_index sl' \<noteq> slot_index sl"
      using assms(2-4) that unfolding scalar_slots_def by (metis option.inject)
    ultimately show ?thesis by (auto simp: current_ref_slots_def)
  qed
  then show "frame_holds P L (\<sigma>(sy := w)) ?s" unfolding frame_holds_def by blast
  show "slot_index sl < length (locals s)" using assms(1,3,4) by (auto simp: frame_holds_def)
qed

lemma store_lands:
  assumes "outcome ops P t (Some w) (\<lambda>w. conf s i (unat w # vs) (False # rs))" and "op_at P i STORE_LOCAL (Some (int (slot_index sl)))"
    and "frame_holds P L \<sigma> s" and "scalar_slots L" and "map_of (lay_slots L) sy = Some sl" and "scalar_type (sym_type sy)"
    and "frame_base s \<le> length vs"
  shows "lands ops P L vs rs s t (i + 1) (\<sigma>(sy := w))"
proof -
  note st = frame_holds_store [OF assms(3-6)]
  have "reaches ops P t (conf (s\<lparr>locals := (locals s)[slot_index sl := unat w]\<rparr>) (i + 1) vs rs)"
    using assms(1) conf_step [OF step_store [OF assms(2) st(2) assms(7), of ops w False rs]] by (auto intro: reaches_trans)
  with st(1) show ?thesis unfolding lands_def by blast
qed

section \<open>The parts of each statement\<close>

lemma gen_at_store:
  assumes "gen_at P i j b k (bindS m (\<lambda>_. emit oc a))" and "straight m"
  obtains n where "gen_at P i n b k m" and "op_at P n oc a" and "j = n + 1"
  using assms(1) orderly_straight [OF assms(2)] orderly_straight [OF straight_basic(3)]
  by (rule gen_at_seq) (use that gen_at_emit in blast)

lemma gen_at_decl:
  assumes "gen_at P i j b k (emit_stmt C L (SVarDecl p sy x))" and "covered (SVarDecl p sy x)" and "scalar_slots L"
  obtains sl n where "map_of (lay_slots L) sy = Some sl"
    and "gen_at P i n b k (case x of None \<Rightarrow> emit PUSH_INT (Some 0) | Some e \<Rightarrow> emit_expr C L e)"
    and "op_at P n STORE_LOCAL (Some (int (slot_index sl)))" and "j = n + 1"
proof -
  from assms(1) obtain sl where sl: "map_of (lay_slots L) sy = Some sl" and g: "gen_at P i j b k (
      if is_array_slot sl then zero_slots (slot_index sl) (slot_length sl)
      else bindS (case map_option (emit_expr C L) x of Some m \<Rightarrow> m
       | None \<Rightarrow> if sym_type sy = TStr then bindS (add_string []) (emit_arg LOAD_STR)
           else if sym_type sy = TFloat then emit_arg PUSH_FLOAT 0 else emit_arg PUSH_INT 0)
         (\<lambda>_. emit_arg (store_local (sym_type sy)) (slot_index sl)))"
    by (auto simp: emit_var_decl_def dest!: gen_at_located elim!: gen_at_slot)
  have t: "scalar_type (sym_type sy)" using assms(2) by simp
  moreover have "\<not> is_array_slot sl" using assms(3) sl t by (auto simp: scalar_slots_def)
  ultimately have "gen_at P i j b k (bindS (case x of None \<Rightarrow> emit PUSH_INT (Some 0) | Some e \<Rightarrow> emit_expr C L e)
      (\<lambda>_. emit STORE_LOCAL (Some (int (slot_index sl)))))"
    using g by (cases x) (simp_all add: scalar_type_simps store_local_def)
  moreover have "straight (case x of None \<Rightarrow> emit PUSH_INT (Some 0) | Some e \<Rightarrow> emit_expr C L e)"
    using assms(2) by (cases x) (simp_all add: straight_basic straight_scalar)
  ultimately show ?thesis using that [OF sl] by (rule gen_at_store)
qed

lemma gen_at_assign:
  assumes "gen_at P i j b k (emit_stmt C L (SAssignVar p q sy e))" and "covered (SAssignVar p q sy e)"
  obtains sl n where "map_of (lay_slots L) sy = Some sl" and "gen_at P i n b k (emit_expr C L e)"
    and "op_at P n STORE_LOCAL (Some (int (slot_index sl)))" and "j = n + 1"
proof -
  from assms(1) obtain sl where sl: "map_of (lay_slots L) sy = Some sl" and g: "gen_at P i j b k (
      if is_array_slot sl then codegen_error ''Cannot assign to array as a whole'' [sym_name sy] q
      else bindS (emit_expr C L e) (\<lambda>_. emit_arg (store_local (get_type e)) (slot_index sl)))"
    by (auto simp: emit_assign_var_def dest!: gen_at_located elim!: gen_at_slot)
  then have "gen_at P i j b k (bindS (emit_expr C L e) (\<lambda>_. emit STORE_LOCAL (Some (int (slot_index sl)))))"
    using assms(2) scalar_get_type [of e] by (auto simp: scalar_type_simps store_local_def gen_at_def codegen_error_def raiseS_def split: if_splits)
  then show ?thesis using that [OF sl] straight_scalar assms(2) by (rule_tac gen_at_store) auto
qed

lemma stmts_orderly: "list_all covered ss \<Longrightarrow> orderly (in_order (map (emit_stmt C L) ss))"
  by (rule orderly_in_order) (auto simp: list_all_iff intro: emit_stmt_orderly simp del: emit_stmt.simps)

lemma gen_at_if_stmt:
  assumes "gen_at P i j b k (emit_stmt C L (SIf p c t refs e))" and "covered (SIf p c t refs e)"
  obtains m n where "gen_at P i m b k (emit_expr C L c)" and "op_at P m JZ (Some (int (n + 1)))"
    and "gen_at P (m + 1) n b k (in_order (map (emit_stmt C L) t))" and "op_at P n JMP (Some (int j))"
    and "gen_at P (n + 1) j b k (in_order (map (emit_stmt C L) (else_part e)))"
proof -
  let ?e = "case e of None \<Rightarrow> giveS () | Some (b, brefs) \<Rightarrow> scoped_block L brefs (map (emit_stmt C L) b)"
  have g: "gen_at P i j b k (emit_if L (emit_expr C L c) (scoped_block L [] (map (emit_stmt C L) t)) ?e)"
    using assms by (auto dest: gen_at_located)
  have o1: "orderly (scoped_block L [] (map (emit_stmt C L) t))"
    using assms(2) by (intro orderly_block) (auto simp: list_all_iff intro: emit_stmt_orderly simp del: emit_stmt.simps)
  have o2: "orderly ?e"
    using assms(2) by (auto simp: list_all_iff orderly_straight [OF straight_basic(1)] intro!: orderly_block emit_stmt_orderly
      simp del: emit_stmt.simps split: option.splits)
  from gen_at_if [OF g straight_scalar o1 o2] assms(2) obtain m n where r: "gen_at P i m b k (emit_expr C L c)"
    "op_at P m JZ (Some (int (n + 1)))" "gen_at P (m + 1) n b k (scoped_block L [] (map (emit_stmt C L) t))"
    "op_at P n JMP (Some (int j))" "gen_at P (n + 1) j b k ?e" by (auto simp del: emit_stmt.simps)
  have "gen_at P (n + 1) j b k (in_order (map (emit_stmt C L) (else_part e)))"
    using r(5) assms(2) by (auto simp: else_part_def simp del: emit_stmt.simps split: option.splits dest: gen_at_block)
  then show ?thesis using that r gen_at_block by blast
qed

lemma gen_at_while_stmt:
  assumes "gen_at P i j b k (emit_stmt C L (SWhile p c body refs))" and "covered (SWhile p c body refs)"
  shows "loop_at P i j (Some i) (map_option (emit_expr C L) (Some c)) (run_opt (map_option (emit_stmt C L) None))
    (map (emit_stmt C L) body)"
  using gen_at_while [of P i j b k "emit_expr C L c" L "map (emit_stmt C L) body"] assms straight_scalar stmts_orderly
  by (auto simp del: in_order_simps dest!: gen_at_located)

lemma gen_at_for_stmt:
  assumes "gen_at P i j b k (emit_stmt C L (SFor p init cond st body refs refs'))" and "covered (SFor p init cond st body refs refs')"
  obtains n where "gen_at P i n b k (run_opt (map_option (emit_stmt C L) init))"
    and "loop_at P n j None (map_option (emit_expr C L) cond) (run_opt (map_option (emit_stmt C L) st)) (map (emit_stmt C L) body)"
proof (rule gen_at_for)
  have "refs = []" "refs' = []" using assms(2) by auto
  then show "gen_at P i j b k (emit_for L [] (run_opt (map_option (emit_stmt C L) init)) (map_option (emit_expr C L) cond)
      (run_opt (map_option (emit_stmt C L) st)) (loop_body L [] (map (emit_stmt C L) body)))"
    using assms(1) by (auto dest: gen_at_located)
qed (use assms(2) that in \<open>auto simp: list_all_iff simp del: emit_stmt.simps split: option.splits
    intro: straight_scalar straight_clause straight_basic emit_stmt_orderly\<close>)

section \<open>The machine follows the meaning\<close>

lemma clause_signal: "runs st \<sigma> sig \<sigma>' \<Longrightarrow> clause st \<Longrightarrow> sig = Next \<or> sig = Faulted"
  by (cases st) (auto elim: runs.cases)

lemma expr_faults:
  assumes "gen_at P i j b k (emit_expr C L e)" and "scalar e" and "frame_holds P L \<sigma> s" and "frame_base s \<le> length vs"
    and "eval \<sigma> e = None"
  shows "faults ops P (conf s i vs rs)"
  using gen_at_expr [OF assms(1-4), of ops rs] assms(5) by (simp add: faults_def)

lemma expr_reaches:
  assumes "gen_at P i j b k (emit_expr C L e)" and "scalar e" and "frame_holds P L \<sigma> s" and "frame_base s \<le> length vs"
    and "eval \<sigma> e = Some w"
  shows "reaches ops P (conf s i vs rs) (conf s j (unat w # vs) (False # rs))"
  using gen_at_expr [OF assms(1-4), of ops rs] assms(5) by simp

lemma jump_reaches: "op_at P i JMP (Some (int n)) \<Longrightarrow> reaches ops P (conf s i vs rs) (conf s n vs rs)"
  unfolding op_at_def by (auto intro: conf_step step_jumps(1))

lemma test_reaches:
  assumes "gen_at P i n b k (emit_expr C L c)" and "op_at P n JZ (Some (int e))" and "scalar c"
    and "frame_holds P L \<sigma> s" and "frame_base s \<le> length vs" and "eval \<sigma> c = Some w"
  shows "reaches ops P (conf s i vs rs) (conf s (if w = 0 then e else n + 1) vs rs)"
proof -
  have "step ops P (conf s n (unat w # vs) (False # rs)) = Inr (Running (conf s (if unat w = 0 then e else n + 1) vs rs))"
    using assms(2,5) unfolding op_at_def by (intro step_jumps(2)) simp_all
  from reaches_trans [OF conf_step [OF this] expr_reaches [OF assms(1,3,4,5,6)]]
  show ?thesis by (simp add: unat_eq_0)
qed

text \<open>Each way to run a statement has the machine end as it should.\<close>

definition follows :: "'w io_ops \<Rightarrow> program \<Rightarrow> function_layout \<Rightarrow> nat list \<Rightarrow> bool list \<Rightarrow> nat \<Rightarrow> nat \<Rightarrow> nat \<Rightarrow> nat
    \<Rightarrow> (symbol \<Rightarrow> 16 word) \<Rightarrow> signal \<Rightarrow> (symbol \<Rightarrow> 16 word) \<Rightarrow> bool" where
  "follows ops P L vs rs i j b k \<sigma> sig \<sigma>' \<longleftrightarrow> (\<forall>s. frame_holds P L \<sigma> s \<longrightarrow> frame_base s \<le> length vs
     \<longrightarrow> ends ops P L vs rs s j b k (conf s i vs rs) sig \<sigma>')"

lemma follows_next: "follows ops P L vs rs i n b k \<sigma> Next \<sigma>1 \<Longrightarrow> follows ops P L vs rs n j b' k' \<sigma>1 sig \<sigma>'
    \<Longrightarrow> follows ops P L vs rs i j b' k' \<sigma> sig \<sigma>'"
  unfolding follows_def by (auto intro: ends_then)

lemma follows_stop: "follows ops P L vs rs i n b k \<sigma> sig \<sigma>' \<Longrightarrow> sig \<noteq> Next \<Longrightarrow> follows ops P L vs rs i j b k \<sigma> sig \<sigma>'"
  unfolding follows_def by (cases sig) auto

lemma follows_goto:
  assumes "\<And>s :: 'w vm. frame_holds P L \<sigma> s \<Longrightarrow> frame_base s \<le> length vs \<Longrightarrow> reaches ops P (conf s i vs rs) (conf s n vs rs)"
    and "follows (ops :: 'w io_ops) P L vs rs n j b k \<sigma> sig \<sigma>'"
  shows "follows ops P L vs rs i j b k \<sigma> sig \<sigma>'"
  using assms unfolding follows_def by (blast intro: ends_reach)

lemma follows_here: "follows ops P L vs rs i i b k \<sigma> Next \<sigma>"
  unfolding follows_def by (auto intro: lands_here reaches.intros)

lemma follows_fault:
  "gen_at P i n b k (emit_expr C L e) \<Longrightarrow> scalar e \<Longrightarrow> eval \<sigma> e = None \<Longrightarrow> follows ops P L vs rs i j b' k' \<sigma> Faulted \<sigma>'"
  unfolding follows_def by (auto intro: expr_faults)

lemma follows_store:
  assumes "\<And>s :: 'w vm. frame_holds P L \<sigma> s \<Longrightarrow> frame_base s \<le> length vs
      \<Longrightarrow> reaches ops P (conf s i vs rs) (conf s n (unat w # vs) (False # rs))"
    and "op_at P n STORE_LOCAL (Some (int (slot_index sl)))" and "scalar_slots L" and "map_of (lay_slots L) sy = Some sl"
    and "scalar_type (sym_type sy)" and "j = n + 1"
  shows "follows (ops :: 'w io_ops) P L vs rs i j b k \<sigma> Next (\<sigma>(sy := w))"
  unfolding follows_def
proof (intro allI impI)
  fix s :: "'w vm" assume s: "frame_holds P L \<sigma> s" "frame_base s \<le> length vs"
  then have "outcome ops P (conf s i vs rs) (Some w) (\<lambda>w. conf s n (unat w # vs) (False # rs))" using assms(1) by simp
  from store_lands [OF this assms(2) s(1) assms(3-5) s(2)]
  show "ends ops P L vs rs s j b k (conf s i vs rs) Next (\<sigma>(sy := w))" using assms(6) by simp
qed

lemma follows_return:
  assumes "\<And>s :: 'w vm. frame_holds P L \<sigma> s \<Longrightarrow> frame_base s \<le> length vs
      \<Longrightarrow> reaches ops P (conf s i vs rs) (conf s n (unat w # vs) (False # rs))"
    and "op_at P n RET None"
  shows "follows (ops :: 'w io_ops) P L vs rs i j b k \<sigma> (Ret w) \<sigma>'"
  unfolding follows_def
proof (intro allI impI)
  fix s :: "'w vm" assume "frame_holds P L \<sigma> s" "frame_base s \<le> length vs"
  then have "reaches ops P (conf s i vs rs) (conf (s\<lparr>locals := locals s\<rparr>) n (unat w # vs) (False # rs))" using assms(1) by simp
  then show "ends ops P L vs rs s j b k (conf s i vs rs) (Ret w) \<sigma>'" using assms(2) unfolding ends.simps returns_def by blast
qed

lemma push_zero_reaches: "op_at P i PUSH_INT (Some 0) \<Longrightarrow> reaches ops P (conf s i vs rs) (conf s (i + 1) (unat (0 :: 16 word) # vs) (False # rs))"
  unfolding op_at_def using step_push [of i P 0 ops s vs rs] by (auto simp: mask16_def intro: conf_step)

definition clause_opt :: "tstmt option \<Rightarrow> bool" where
  "clause_opt x \<longleftrightarrow> (case x of None \<Rightarrow> True | Some st \<Rightarrow> clause st \<and> covered st)"

definition scalar_opt :: "texpr option \<Rightarrow> bool" where
  "scalar_opt c \<longleftrightarrow> (case c of None \<Rightarrow> True | Some e \<Rightarrow> scalar e)"

lemma follows_test:
  assumes "test_at P i m e (map_option (emit_expr C L) cond)" and "scalar_opt cond" and "enters cond \<sigma>"
    and "follows ops P L vs rs m j b k \<sigma> sig \<sigma>'"
  shows "follows ops P L vs rs i j b k \<sigma> sig \<sigma>'"
proof (cases cond)
  case None
  with assms show ?thesis by (simp add: test_at_def)
next
  case (Some c)
  with assms obtain n b' k' w where "gen_at P i n b' k' (emit_expr C L c)" "op_at P n JZ (Some (int e))" "m = n + 1"
    "scalar c" "eval \<sigma> c = Some w" "w \<noteq> 0" by (auto simp: test_at_def enters_def scalar_opt_def)
  with assms(4) test_reaches show ?thesis by (intro follows_goto [where n = m and i = i]) fastforce+
qed

lemma tail_body:
  assumes "tail_at P i m e target st ms" and "sig = Next \<or> sig = Cont"
    and body: "\<And>n k. gen_at P m n e k (in_order ms) \<Longrightarrow> follows ops P L vs rs m n e k \<sigma> sig \<sigma>1"
    and st: "\<And>n k' b'. gen_at P n k' b' b' st \<Longrightarrow> op_at P k' JMP (Some (int i)) \<Longrightarrow> follows ops P L vs rs n j b k \<sigma>1 sig' \<sigma>'"
    and direct: "target = Some i \<Longrightarrow> follows ops P L vs rs i j b k \<sigma>1 sig' \<sigma>'" and target: "target = None \<or> target = Some i"
  shows "follows ops P L vs rs m j b k \<sigma> sig' \<sigma>'"
proof -
  from assms(1) obtain n kt b' k' where t: "gen_at P m n e kt (in_order ms)" "gen_at P n k' b' b' st"
    "case target of None \<Rightarrow> kt = n | Some t \<Rightarrow> kt = t" "op_at P k' JMP (Some (int i))" by (auto simp: tail_at_def)
  let ?to = "if sig = Next then n else kt"
  have "follows ops P L vs rs m ?to e kt \<sigma> Next \<sigma>1"
    using body [OF t(1)] assms(2) by (auto simp: follows_def)
  moreover have "follows ops P L vs rs ?to j b k \<sigma>1 sig' \<sigma>'"
    using st [OF t(2,4)] direct target t(3) by auto
  ultimately show ?thesis by (rule follows_next)
qed

lemma statement_follows:
  assumes sl: "scalar_slots L"
  shows "runs st \<sigma> sig \<sigma>' \<Longrightarrow> (\<And>i j b k. covered st \<Longrightarrow> gen_at P i j b k (emit_stmt C L st)
      \<Longrightarrow> follows (ops :: 'w io_ops) P L vs rs i j b k \<sigma> sig \<sigma>')"
    and "runs_all ss \<sigma> sig \<sigma>' \<Longrightarrow> (\<And>i j b k. list_all covered ss \<Longrightarrow> gen_at P i j b k (in_order (map (emit_stmt C L) ss))
      \<Longrightarrow> follows ops P L vs rs i j b k \<sigma> sig \<sigma>')"
    and "runs_loop cond x ss \<sigma> sig \<sigma>' \<Longrightarrow> (\<And>i e target b k. scalar_opt cond \<Longrightarrow> clause_opt x \<Longrightarrow> list_all covered ss
      \<Longrightarrow> loop_at P i e target (map_option (emit_expr C L) cond) (run_opt (map_option (emit_stmt C L) x)) (map (emit_stmt C L) ss)
      \<Longrightarrow> target = None \<or> target = Some i \<and> x = None \<Longrightarrow> follows ops P L vs rs i e b k \<sigma> sig \<sigma>')"
proof (induction rule: runs_runs_all_runs_loop.inducts)
  case (run_decl \<sigma> e w p sy)
  from run_decl(3,2) sl obtain sl n where v: "map_of (lay_slots L) sy = Some sl" "gen_at P i n b k (emit_expr C L e)"
    "op_at P n STORE_LOCAL (Some (int (slot_index sl)))" "j = n + 1" by (rule gen_at_decl) simp
  have "scalar e" "scalar_type (sym_type sy)" using run_decl by auto
  with v run_decl(1) sl show ?case by (intro follows_store expr_reaches)
next
  case (run_decl_zero p sy \<sigma>)
  from run_decl_zero(2,1) sl obtain sl n where v: "map_of (lay_slots L) sy = Some sl" "gen_at P i n b k (emit PUSH_INT (Some 0))"
    "op_at P n STORE_LOCAL (Some (int (slot_index sl)))" "j = n + 1" by (rule gen_at_decl) simp
  have "scalar_type (sym_type sy)" using run_decl_zero by auto
  with v sl gen_at_emit [OF v(2)] show ?case by (intro follows_store) (auto intro: push_zero_reaches [simplified])
next
  case (run_decl_fault \<sigma> e p sy)
  from run_decl_fault(3,2) sl obtain sl n where v: "gen_at P i n b k (emit_expr C L e)" by (rule gen_at_decl) simp
  with run_decl_fault(1,2) show ?case by (intro follows_fault) auto
next
  case (run_assign \<sigma> e w p q sy)
  from run_assign(3,2) obtain sl n where v: "map_of (lay_slots L) sy = Some sl" "gen_at P i n b k (emit_expr C L e)"
    "op_at P n STORE_LOCAL (Some (int (slot_index sl)))" "j = n + 1" by (rule gen_at_assign)
  have "scalar e" "scalar_type (sym_type sy)" using run_assign by auto
  with v run_assign(1) sl show ?case by (intro follows_store expr_reaches)
next
  case (run_assign_fault \<sigma> e p q sy)
  from run_assign_fault(3,2) obtain sl n where v: "gen_at P i n b k (emit_expr C L e)" by (rule gen_at_assign)
  with run_assign_fault(1,2) show ?case by (intro follows_fault) auto
next
  case (run_expr \<sigma> e w p)
  from run_expr(2,3) obtain n where v: "gen_at P i n b k (emit_expr C L e)" "op_at P n POP None" "j = n + 1"
    by (auto dest!: gen_at_located elim!: gen_at_store intro: straight_scalar)
  show ?case
  proof (rule follows_goto)
    fix s :: "'w vm" assume s: "frame_holds P L \<sigma> s" "frame_base s \<le> length vs"
    from reaches_trans [OF conf_step [OF step_pop [OF v(2) s(2)]] expr_reaches [OF v(1) _ s run_expr(1)]] run_expr(2)
    show "reaches ops P (conf s i vs rs) (conf s j vs rs)" by (simp add: v(3))
  qed (rule follows_here)
next
  case (run_expr_fault \<sigma> e p)
  from run_expr_fault(2,3) obtain n where "gen_at P i n b k (emit_expr C L e)"
    by (auto dest!: gen_at_located elim!: gen_at_store intro: straight_scalar)
  with run_expr_fault(1,2) show ?case by (intro follows_fault) auto
next
  case (run_return \<sigma> e w p)
  from run_return(2,3) obtain n where v: "gen_at P i n b k (emit_expr C L e)" "op_at P n RET None"
    by (auto dest!: gen_at_located elim!: gen_at_store intro: straight_scalar)
  with run_return show ?case by (intro follows_return expr_reaches) auto
next
  case (run_return_void p \<sigma>)
  from run_return_void(2) obtain n where v: "gen_at P i n b k (emit PUSH_INT (Some 0))" "op_at P n RET None"
    by (auto dest!: gen_at_located elim!: gen_at_store intro: straight_basic)
  with gen_at_emit [OF v(1)] show ?case by (intro follows_return) (auto intro: push_zero_reaches [simplified])
next
  case (run_return_fault \<sigma> e p)
  from run_return_fault(2,3) obtain n where "gen_at P i n b k (emit_expr C L e)"
    by (auto dest!: gen_at_located elim!: gen_at_store intro: straight_scalar)
  with run_return_fault(1,2) show ?case by (intro follows_fault) auto
next
  case (run_if \<sigma> c w t e sig \<sigma>' p refs)
  from run_if(5,4) obtain m n where v: "gen_at P i m b k (emit_expr C L c)" "op_at P m JZ (Some (int (n + 1)))"
    "gen_at P (m + 1) n b k (in_order (map (emit_stmt C L) t))" "op_at P n JMP (Some (int j))"
    "gen_at P (n + 1) j b k (in_order (map (emit_stmt C L) (else_part e)))" by (rule gen_at_if_stmt)
  have test: "reaches ops P (conf s i vs rs) (conf s (if w = 0 then n + 1 else m + 1) vs rs)"
    if "frame_holds P L \<sigma> s" "frame_base s \<le> length vs" for s :: "'w vm"
    using test_reaches [OF v(1,2) _ that run_if(1)] run_if(4) by simp
  have "list_all covered t" "list_all covered (else_part e)" using run_if(4) by (auto simp: else_part_def split: option.splits)
  moreover have "follows ops P L vs rs n j b k \<sigma>' Next \<sigma>'"
    by (rule follows_goto [OF jump_reaches [OF v(4)] follows_here])
  ultimately have "follows ops P L vs rs (if w = 0 then n + 1 else m + 1) j b k \<sigma> sig \<sigma>'"
    using run_if(3) [of "m + 1" n b k] run_if(3) [of "n + 1" j b k] v(3,5) follows_next follows_stop
    by (cases "sig = Next"; auto simp del: in_order_simps) blast+
  with test show ?case by (rule follows_goto)
next
  case (run_if_fault \<sigma> c p t refs e)
  from run_if_fault(3,2) obtain m n where "gen_at P i m b k (emit_expr C L c)" by (rule gen_at_if_stmt)
  with run_if_fault(1,2) show ?case by (intro follows_fault) auto
next
  case (run_while c body \<sigma> sig \<sigma>' p refs)
  show ?case
    by (rule run_while(2) [OF _ _ _ gen_at_while_stmt [OF run_while(4,3)]])
      (use run_while(3) in \<open>auto simp: scalar_opt_def clause_opt_def\<close>)
next
  case (run_for cond st body \<sigma> sig \<sigma>' p refs refs')
  from run_for(4,3) obtain n where v: "gen_at P i n b k (run_opt (map_option (emit_stmt C L) None))"
    "loop_at P n j None (map_option (emit_expr C L) cond) (run_opt (map_option (emit_stmt C L) st)) (map (emit_stmt C L) body)"
    by (rule gen_at_for_stmt)
  have "n = i" using v(1) gen_at_give by simp
  with v(2) show ?case
    by (intro run_for(2)) (use run_for(3) in \<open>auto simp: scalar_opt_def clause_opt_def split: option.splits\<close>)
next
  case (run_for_init x \<sigma> \<sigma>1 cond st body sig \<sigma>' p refs refs')
  from run_for_init(6,5) obtain n where v: "gen_at P i n b k (run_opt (map_option (emit_stmt C L) (Some x)))"
    "loop_at P n j None (map_option (emit_expr C L) cond) (run_opt (map_option (emit_stmt C L) st)) (map (emit_stmt C L) body)"
    by (rule gen_at_for_stmt)
  have "follows ops P L vs rs i n b k \<sigma> Next \<sigma>1"
    using v(1) run_for_init(5) by (intro run_for_init(3)) (auto simp del: emit_stmt.simps)
  moreover have "follows ops P L vs rs n j b k \<sigma>1 sig \<sigma>'"
    by (rule run_for_init(4) [OF _ _ _ v(2)])
      (use run_for_init(5) in \<open>auto simp: scalar_opt_def clause_opt_def split: option.splits\<close>)
  ultimately show ?case by (rule follows_next)
next
  case (run_for_init_stop x \<sigma> sig \<sigma>1 p cond st body refs refs')
  from run_for_init_stop(5,4) obtain n where v: "gen_at P i n b k (run_opt (map_option (emit_stmt C L) (Some x)))"
    by (rule gen_at_for_stmt)
  then have "follows ops P L vs rs i n b k \<sigma> sig \<sigma>1"
    using run_for_init_stop(4) by (intro run_for_init_stop(3)) (auto simp del: emit_stmt.simps)
  then show ?case using run_for_init_stop(2) by (rule follows_stop)
next
  case (run_block ss \<sigma> sig \<sigma>' p refs)
  have "gen_at P i j b k (scoped_block L [] (map (emit_stmt C L) ss))"
    using run_block(3,4) by (auto dest: gen_at_located)
  then show ?case using run_block(2) [OF _ gen_at_block] run_block(3) by simp
next
  case (run_break p \<sigma>)
  then have "gen_at P i j b k (emit_loop_jump L p True)" by (auto dest: gen_at_located)
  from gen_at_jump(1) [OF this] have r: "reaches ops P (conf s i vs rs) (conf s b vs rs)" for s :: "'w vm"
    by (simp add: jump_reaches)
  show ?case unfolding follows_def using r by (auto intro: lands_here)
next
  case (run_continue p \<sigma>)
  then have "gen_at P i j b k (emit_loop_jump L p False)" by (auto dest: gen_at_located)
  from gen_at_jump(1) [OF this] have r: "reaches ops P (conf s i vs rs) (conf s k vs rs)" for s :: "'w vm"
    by (simp add: jump_reaches)
  show ?case unfolding follows_def using r by (auto intro: lands_here)
next
  case (run_nil \<sigma>)
  then have "j = i" by (auto dest: gen_at_give)
  then show ?case by (simp add: follows_here)
next
  case (run_cons st \<sigma> \<sigma>1 sts sig \<sigma>2)
  then have o': "orderly (emit_stmt C L st)" "orderly (in_order (map (emit_stmt C L) sts))"
    by (auto simp del: emit_stmt.simps intro: emit_stmt_orderly stmts_orderly)
  from run_cons(6) have "gen_at P i j b k (bindS (emit_stmt C L st) (\<lambda>_. in_order (map (emit_stmt C L) sts)))" by simp
  from this o' obtain n where "gen_at P i n b k (emit_stmt C L st)" "gen_at P n j b k (in_order (map (emit_stmt C L) sts))"
    by (rule gen_at_seq)
  with run_cons show ?case by (intro follows_next [of ops P L vs rs i n b k \<sigma> \<sigma>1 j b k]) auto
next
  case (run_cons_stop st \<sigma> sig \<sigma>1 sts)
  then have o': "orderly (emit_stmt C L st)" "orderly (in_order (map (emit_stmt C L) sts))"
    by (auto simp del: emit_stmt.simps intro: emit_stmt_orderly stmts_orderly)
  from run_cons_stop(5) have "gen_at P i j b k (bindS (emit_stmt C L st) (\<lambda>_. in_order (map (emit_stmt C L) sts)))" by simp
  from this o' obtain n where "gen_at P i n b k (emit_stmt C L st)" by (rule gen_at_seq)
  with run_cons_stop show ?case by (intro follows_stop [of ops P L vs rs i n b k \<sigma> sig \<sigma>1 j]) auto
next
  case (loop_end \<sigma> c x ss)
  from loop_end(5,2) obtain n b' k' where v: "gen_at P i n b' k' (emit_expr C L c)" "op_at P n JZ (Some (int e))" "scalar c"
    by (auto simp: loop_at_def test_at_def scalar_opt_def)
  show ?case
    by (rule follows_goto [OF _ follows_here]) (use test_reaches [OF v] loop_end(1) in fastforce)
next
  case (loop_cond_fault \<sigma> c x ss)
  then obtain n b' k' where "gen_at P i n b' k' (emit_expr C L c)" "scalar c"
    by (auto simp: loop_at_def test_at_def scalar_opt_def)
  with loop_cond_fault(1) show ?case by (intro follows_fault)
next
  case (loop_break cond \<sigma> ss \<sigma>1 x)
  from loop_break(7) obtain m n k' where v: "test_at P i m e (map_option (emit_expr C L) cond)"
    "gen_at P m n e k' (in_order (map (emit_stmt C L) ss))" by (auto simp: loop_at_def tail_at_def)
  have "follows ops P L vs rs m n e k' \<sigma> Brk \<sigma>1" using loop_break(3) [OF loop_break(6) v(2)] .
  then have "follows ops P L vs rs m e b k \<sigma> Next \<sigma>1" by (simp add: follows_def)
  with v(1) loop_break(4,1) show ?case by (rule follows_test)
next
  case (loop_stop cond \<sigma> ss sig \<sigma>1 w x)
  from loop_stop(8) obtain m n k' where v: "test_at P i m e (map_option (emit_expr C L) cond)"
    "gen_at P m n e k' (in_order (map (emit_stmt C L) ss))" by (auto simp: loop_at_def tail_at_def)
  have "follows ops P L vs rs m n e k' \<sigma> sig \<sigma>1" using loop_stop(4) [OF loop_stop(7) v(2)] .
  then have "follows ops P L vs rs m e b k \<sigma> sig \<sigma>1" using loop_stop(3) by (auto simp: follows_def)
  with v(1) loop_stop(5,1) show ?case by (rule follows_test)
next
  case (loop_more cond \<sigma> ss sig \<sigma>1 sig' \<sigma>')
  from loop_more(10) obtain m where v: "test_at P i m e (map_option (emit_expr C L) cond)"
    "tail_at P i m e target (giveS ()) (map (emit_stmt C L) ss)" by (auto simp: loop_at_def)
  have again: "follows ops P L vs rs i e b k \<sigma>1 sig' \<sigma>'" using loop_more by (intro loop_more(6)) auto
  have "follows ops P L vs rs m e b k \<sigma> sig' \<sigma>'"
  proof (rule tail_body [OF v(2) loop_more(3)])
    fix n k' b' assume "gen_at P n k' b' b' (giveS ())" and jmp: "op_at P k' JMP (Some (int i))"
    then have "k' = n" by (simp add: gen_at_give)
    with jmp show "follows ops P L vs rs n e b k \<sigma>1 sig' \<sigma>'" by (intro follows_goto [OF jump_reaches again]) simp
  qed (use loop_more(5) [OF loop_more(9)] again loop_more(11) in auto)
  with v(1) loop_more(7,1) show ?case by (rule follows_test)
next
  case (loop_step cond \<sigma> ss sig \<sigma>1 x \<sigma>2 sig' \<sigma>')
  then obtain m where v: "test_at P i m e (map_option (emit_expr C L) cond)"
    "tail_at P i m e None (emit_stmt C L x) (map (emit_stmt C L) ss)" by (auto simp: loop_at_def simp del: emit_stmt.simps)
  have x: "covered x" using loop_step(10) by (simp add: clause_opt_def)
  have again: "follows ops P L vs rs i e b k \<sigma>2 sig' \<sigma>'" using loop_step by (intro loop_step(8)) auto
  have "follows ops P L vs rs m e b k \<sigma> sig' \<sigma>'"
  proof (rule tail_body [OF v(2) loop_step(3)])
    fix n k' b' assume st: "gen_at P n k' b' b' (emit_stmt C L x)" and jmp: "op_at P k' JMP (Some (int i))"
    have "follows ops P L vs rs k' e b k \<sigma>2 sig' \<sigma>'" by (rule follows_goto [OF jump_reaches [OF jmp] again])
    with loop_step(7) [OF x st] show "follows ops P L vs rs n e b k \<sigma>1 sig' \<sigma>'" by (rule follows_next)
  qed (use loop_step(6) [OF loop_step(11)] in auto)
  with v(1) loop_step(9,1) show ?case by (rule follows_test)
next
  case (loop_step_stop cond \<sigma> ss sig \<sigma>1 x sig' \<sigma>2)
  then obtain m where v: "test_at P i m e (map_option (emit_expr C L) cond)"
    "tail_at P i m e None (emit_stmt C L x) (map (emit_stmt C L) ss)" by (auto simp: loop_at_def simp del: emit_stmt.simps)
  have x: "covered x" "clause x" using loop_step_stop(9) by (simp_all add: clause_opt_def)
  have f: "sig' = Faulted" using clause_signal [OF loop_step_stop(4) x(2)] loop_step_stop(5) by simp
  have "follows ops P L vs rs m e b k \<sigma> sig' \<sigma>2"
  proof (rule tail_body [OF v(2) loop_step_stop(3)])
    fix n k' b' assume st: "gen_at P n k' b' b' (emit_stmt C L x)"
    from loop_step_stop(7) [OF x(1) st] show "follows ops P L vs rs n e b k \<sigma>1 sig' \<sigma>2" by (simp add: follows_def f)
  qed (use loop_step_stop(6) [OF loop_step_stop(10)] in auto)
  with v(1) loop_step_stop(8,1) show ?case by (rule follows_test)
qed

end
