(* ===== verification/CompileProgram.thy ===== *)
theory CompileProgram
  imports CompileRun Frames TypeNames
begin

text \<open>
  Whole programs. The layout of a frame gives every symbol words of its own, and a program of
  covered functions, once generated and booted, runs its \<open>main\<close> to the result the source has.
\<close>

section \<open>The layout of a frame\<close>

definition slot_width :: "symbol \<times> local_slot \<Rightarrow> nat" where
  "slot_width = (\<lambda>(sy, sl). if slot_length sl \<noteq> 0 then slot_length sl else word_count (sym_type sy))"

definition slot_end :: "symbol \<times> local_slot \<Rightarrow> nat" where
  "slot_end p = slot_index (snd p) + slot_width p"

definition ordered_slots :: "nat \<Rightarrow> (symbol \<times> local_slot) list \<Rightarrow> nat \<Rightarrow> bool" where
  "ordered_slots n slots words \<longleftrightarrow> sorted_wrt (\<lambda>p q. slot_end p \<le> slot_index (snd q)) slots
     \<and> (\<forall>p \<in> set slots. n \<le> slot_index (snd p) \<and> slot_end p \<le> words) \<and> n \<le> words"

definition ref_indices :: "(symbol \<times> local_slot) list \<Rightarrow> nat list" where
  "ref_indices slots = map (slot_index \<circ> snd) (filter (\<lambda>(sy, sl). is_reference_type (sym_type sy)) slots)"

lemma layout_symbols_shape:
  "layout_symbols H np position n sys = Inr (slots, refs, infos, words) \<Longrightarrow>
     map fst slots = sys \<and> ordered_slots n slots words \<and> refs = ref_indices slots
     \<and> (\<forall>(sy, sl) \<in> set slots. array_length H (sym_type sy) = Inr (if slot_length sl = 0 then None else Some (slot_length sl))
          \<or> array_length H (sym_type sy) = Inr (Some 0))"
proof (induction sys arbitrary: position n slots refs infos words)
  case Nil
  then show ?case by (simp add: ordered_slots_def ref_indices_def)
next
  case (Cons sy sys)
  from Cons.prems obtain r slots' refs' infos' where r: "array_length H (sym_type sy) = Inr r"
    and rest: "layout_symbols H np (position + 1) (n + (if (case r of None \<Rightarrow> 0 | Some n \<Rightarrow> n) \<noteq> 0
        then (case r of None \<Rightarrow> 0 | Some n \<Rightarrow> n) else word_count (sym_type sy))) sys = Inr (slots', refs', infos', words)"
    and slots: "slots = (sy, \<lparr>slot_index = n, slot_length = (case r of None \<Rightarrow> 0 | Some n \<Rightarrow> n)\<rparr>) # slots'"
    and refs: "refs = (if is_reference_type (sym_type sy) then n # refs' else refs')"
    by (auto simp: Let_def result_simps)
  let ?p = "(sy, \<lparr>slot_index = n, slot_length = (case r of None \<Rightarrow> 0 | Some n \<Rightarrow> n)\<rparr>)"
  have "ordered_slots (slot_end ?p) slots' words" using Cons.IH [OF rest] by (auto simp: slot_end_def slot_width_def split: if_splits)
  moreover have "n \<le> slot_end ?p" by (simp add: slot_end_def)
  ultimately have "ordered_slots n slots words" unfolding ordered_slots_def slots by (auto simp: slot_end_def)
  moreover have "refs = ref_indices slots" using Cons.IH [OF rest] by (simp add: refs slots ref_indices_def)
  ultimately show ?case using Cons.IH [OF rest] r by (cases r) (auto simp: slots)
qed

lemma slot_width_pos: "0 < slot_width p"
  by (cases p) (simp add: slot_width_def word_count_def)

lemma ordered_slots_disjoint:
  assumes "ordered_slots n slots words" and "p \<in> set slots" and "q \<in> set slots" and "p \<noteq> q"
  shows "slot_end p \<le> slot_index (snd q) \<or> slot_end q \<le> slot_index (snd p)"
proof -
  from assms(2,3) obtain i j where ij: "i < length slots" "j < length slots" "p = slots ! i" "q = slots ! j"
    by (auto simp: in_set_conv_nth)
  have "i < j \<or> j < i" using assms(4) ij by (metis linorder_neqE_nat)
  then show ?thesis
    using assms(1) ij sorted_wrt_nth_less [of _ slots] unfolding ordered_slots_def by metis
qed

lemma build_layout_slots:
  assumes "build_layout C f = Inr L"
  shows "map fst (lay_slots L) = tf_frame f" and "ordered_slots 0 (lay_slots L) (lay_num_locals L)"
    and "lay_refs L = ref_indices (lay_slots L)" and "lay_num_params L = tf_params f" and "lay_name L = tf_name f"
    and "\<And>sy sl. (sy, sl) \<in> set (lay_slots L) \<Longrightarrow> array_length (ge_host C) (sym_type sy) = Inr None \<Longrightarrow> slot_length sl = 0"
  using assms by (auto simp: build_layout_def result_simps dest!: layout_symbols_shape dest!: bspec split: if_splits)

lemma scalar_not_array: "scalar_type t \<Longrightarrow> array_length H t = Inr None \<and> \<not> is_reference_type t"
  by (auto simp: scalar_type_def TInt_def TBool_def array_length_def array_length_from_name_def is_reference_type_def
    is_struct_type_def is_enum_type_def is_array_obj_type_def THeapPtr_def TStr_def starts_with_def ends_with_def
    lit_def)

lemma layout_scalar_slots:
  assumes "build_layout C f = Inr L"
  shows "scalar_slots L"
    and "map_of (lay_slots L) sy = Some sl \<Longrightarrow> scalar_type (sym_type sy) \<Longrightarrow>
      slot_index sl < lay_num_locals L \<and> slot_index sl \<notin> set (lay_refs L)"
proof -
  note L = build_layout_slots [OF assms]
  have same: "p = q" if "p \<in> set (lay_slots L)" "q \<in> set (lay_slots L)" "slot_index (snd p) = slot_index (snd q)" for p q
    using ordered_slots_disjoint [OF L(2) that(1,2)] that(3) slot_width_pos [of p] slot_width_pos [of q]
    by (auto simp: slot_end_def)
  have "\<not> is_array_slot sl \<and> (\<forall>sy' sl'. map_of (lay_slots L) sy' = Some sl' \<and> scalar_type (sym_type sy')
      \<and> slot_index sl' = slot_index sl \<longrightarrow> sy' = sy)" if "map_of (lay_slots L) sy = Some sl" "scalar_type (sym_type sy)" for sy sl
    using map_of_SomeD [OF that(1)] L(6) scalar_not_array [OF that(2)] same
    by (fastforce simp: is_array_slot_def dest: map_of_SomeD)
  then show "scalar_slots L" unfolding scalar_slots_def by blast
  assume sy: "map_of (lay_slots L) sy = Some sl" "scalar_type (sym_type sy)"
  note m = map_of_SomeD [OF sy(1)]
  have "slot_end (sy, sl) \<le> lay_num_locals L" using L(2) m unfolding ordered_slots_def by blast
  moreover have "slot_index sl \<notin> set (lay_refs L)"
  proof
    assume "slot_index sl \<in> set (lay_refs L)"
    then obtain q where q: "q \<in> set (lay_slots L)" "is_reference_type (sym_type (fst q))" "slot_index (snd q) = slot_index sl"
      by (auto simp: L(3) ref_indices_def)
    then have "q = (sy, sl)" using same [OF q(1) m] by simp
    with q(2) scalar_not_array [OF sy(2)] show False by simp
  qed
  ultimately show "slot_index sl < lay_num_locals L \<and> slot_index sl \<notin> set (lay_refs L)"
    using slot_width_pos [of "(sy, sl)"] by (simp add: slot_end_def)
qed

section \<open>Where the functions lie\<close>

lemma register_layouts_Inr:
  "register_layouts C fs g = Inr (u, g') \<Longrightarrow> \<exists>Ls. g_functions g' = g_functions g @ Ls \<and> list_all2 (\<lambda>f L. build_layout C f = Inr L) fs Ls
     \<and> distinct (map tf_name fs) \<and> set (map tf_name fs) \<inter> fst ` set (g_index g) = {}
     \<and> g_code g' = g_code g \<and> g_loops g' = g_loops g"
proof (induction fs arbitrary: g)
  case Nil
  then show ?case by (simp add: method_simps)
next
  case (Cons f fs)
  from Cons.prems obtain L where new: "map_of (g_index g) (tf_name f) = None" "build_layout C f = Inr L"
    and rest: "register_layouts C fs (g\<lparr>g_index := g_index g @ [(tf_name f, length (g_functions g))],
      g_functions := g_functions g @ [L]\<rparr>) = Inr (u, g')"
    by (auto simp: result_simps codegen_error_def split: if_splits sum.splits)
  from Cons.IH [OF rest] obtain Ls where "g_functions g' = g_functions g @ L # Ls" "list_all2 (\<lambda>f L. build_layout C f = Inr L) fs Ls"
    "distinct (map tf_name fs)" "set (map tf_name fs) \<inter> fst ` set (g_index g @ [(tf_name f, length (g_functions g))]) = {}"
    "g_code g' = g_code g" "g_loops g' = g_loops g" by auto
  moreover have "tf_name f \<notin> fst ` set (g_index g)" using new(1) by (simp add: map_of_eq_None_iff)
  ultimately show ?case using new(2) by (intro exI [of _ "L # Ls"]) auto
qed

lemma orderly_seq: "orderly m \<Longrightarrow> orderly m' \<Longrightarrow> orderly (bindS m (\<lambda>_. m'))"
  unfolding orderly_def by (auto simp: bindS_Inr) (blast intro: extends_trans dest: extends_tidy)

lemma body_orderly: "list_all covered (tf_body f) \<Longrightarrow> orderly (emit_body C f L)"
  unfolding emit_body_def
  by (intro orderly_seq stmts_orderly orderly_straight straight_basic)

lemma tidy_no_loops: "g_loops g = [] \<Longrightarrow> tidy g"
  by (simp add: tidy_def brks_def conts_def)

lemma extends_no_loops: "extends g g' \<Longrightarrow> g_loops g = [] \<Longrightarrow> g_loops g' = []"
  by (auto simp: extends_def)

lemma emit_functions_Inr:
  assumes "emit_functions C i fs g = Inr (u, g')" and "g_loops g = []" and "list_all (\<lambda>f. list_all covered (tf_body f)) fs"
    and "i + length fs \<le> length (g_functions g)"
  shows "grows (g_code g) (g_code g') \<and> length (g_functions g') = length (g_functions g)
     \<and> (\<forall>j < i. g_functions g' ! j = g_functions g ! j)
     \<and> (\<forall>j < length fs. \<exists>h h'. g_loops h = [] \<and> g_functions g' ! (i + j) = (g_functions g ! (i + j))\<lparr>lay_entry := length (g_code h)\<rparr>
          \<and> emit_body C (fs ! j) (g_functions g' ! (i + j)) h = Inr ((), h') \<and> grows (g_code h') (g_code g'))"
  using assms
proof (induction fs arbitrary: i g)
  case Nil
  then show ?case by (simp add: method_simps)
next
  case (Cons f fs)
  let ?L = "(g_functions g ! i)\<lparr>lay_entry := length (g_code g)\<rparr>"
  let ?g = "g\<lparr>g_functions := (g_functions g)[i := ?L]\<rparr>"
  have i: "i < length (g_functions g)" using Cons.prems(4) by simp
  from Cons.prems(1) i obtain h where body: "emit_body C f ?L ?g = Inr ((), h)" and rest: "emit_functions C (i + 1) fs h = Inr (u, g')"
    by (auto simp: gen_run method_simps bindS_Inr)
  have e: "extends ?g h"
    using Cons.prems(2,3) by (intro orderlyD [OF body_orderly body tidy_no_loops]) simp_all
  then have h: "g_loops h = []" "g_functions h = (g_functions g)[i := ?L]" "grows (g_code g) (g_code h)"
    using extends_no_loops [OF e] Cons.prems(2) by (simp_all add: extends_def)
  have IH: "grows (g_code h) (g_code g') \<and> length (g_functions g') = length (g_functions h)
     \<and> (\<forall>j < i + 1. g_functions g' ! j = g_functions h ! j)
     \<and> (\<forall>j < length fs. \<exists>k h'. g_loops k = [] \<and> g_functions g' ! (i + 1 + j) = (g_functions h ! (i + 1 + j))\<lparr>lay_entry := length (g_code k)\<rparr>
          \<and> emit_body C (fs ! j) (g_functions g' ! (i + 1 + j)) k = Inr ((), h') \<and> grows (g_code h') (g_code g'))"
    by (rule Cons.IH [OF rest h(1)]) (use Cons.prems(3,4) h(2) in simp_all)
  have "\<exists>k h'. g_loops k = [] \<and> g_functions g' ! (i + j) = (g_functions g ! (i + j))\<lparr>lay_entry := length (g_code k)\<rparr>
          \<and> emit_body C ((f # fs) ! j) (g_functions g' ! (i + j)) k = Inr ((), h') \<and> grows (g_code h') (g_code g')"
    if "j < length (f # fs)" for j
  proof (cases j)
    case 0
    have "g_functions g' ! i = ?L" using IH h(2) i by simp
    then show ?thesis using 0 body IH Cons.prems(2) by (intro exI [of _ ?g] exI [of _ h]) simp
  next
    case (Suc k)
    then have "k < length fs" using that by simp
    with IH obtain k' h' where "g_loops k' = []" "g_functions g' ! (i + 1 + k) = (g_functions h ! (i + 1 + k))\<lparr>lay_entry := length (g_code k')\<rparr>"
      "emit_body C (fs ! k) (g_functions g' ! (i + 1 + k)) k' = Inr ((), h')" "grows (g_code h') (g_code g')" by blast
    then show ?thesis using Suc h(2) by (intro exI [of _ k'] exI [of _ h']) simp
  qed
  moreover have "grows (g_code g) (g_code g')" using IH h(3) grows_trans by blast
  ultimately show ?case using IH h(2) by simp
qed

text \<open>A function of the program: its entry in the table and its code.\<close>

lemma body_gen_at:
  assumes "emit_body C f L h = Inr ((), h')" and "g_loops h = []" and "list_all covered (tf_body f)"
    and "grows (g_code h') (code P)"
  shows "gen_at P (length (g_code h)) (length (g_code h')) b k (emit_body C f L)"
proof -
  have e: "extends h h'" by (rule orderlyD [OF body_orderly [OF assms(3)] assms(1) tidy_no_loops [OF assms(2)]])
  have "brks h' = {}" "conts h' = {}" using extends_no_loops [OF e assms(2)] by (simp_all add: brks_def conts_def)
  then have "linked P (length (g_code h)) h' b k" using assms(4) by (simp add: linked_def grows_def)
  then show ?thesis using assms(1,2) by (intro gen_atI [of h _ h']) (simp_all add: tidy_no_loops)
qed

lemma generated_function:
  assumes "generate_program C fs = Inr P" and "list_all (\<lambda>f. list_all covered (tf_body f)) fs" and "i < length fs"
  obtains L e j where "build_layout C (fs ! i) = Inr L" and "fns P ! i = function_entry (L\<lparr>lay_entry := e\<rparr>)"
    and "\<And>b k. gen_at P e j b k (emit_body C (fs ! i) (L\<lparr>lay_entry := e\<rparr>))"
    and "length (fns P) = length fs" and "distinct (map tf_name fs)"
proof -
  from assms(1) obtain g1 g2 g3 ls where r: "register_layouts C fs new_codegen = Inr ((), g1)" "emit_functions C 0 fs g1 = Inr ((), g2)"
    "struct_table C g2 = Inr (ls, g3)" and P: "code P = g_code g3" "fns P = map function_entry (g_functions g3)"
    by (auto simp: generate_program_def generate_def result_simps)
  have g3: "g3 = g2" using r(3) by (auto simp: struct_table_def Let_def result_simps codegen_error_def split: if_splits)
  from register_layouts_Inr [OF r(1)] have g1: "list_all2 (\<lambda>f L. build_layout C f = Inr L) fs (g_functions g1)"
    "distinct (map tf_name fs)" "g_code g1 = []" "g_loops g1 = []" by (auto simp: new_codegen_def)
  have len: "length (g_functions g1) = length fs" using list_all2_lengthD [OF g1(1)] by simp
  from emit_functions_Inr [OF r(2) g1(4) assms(2)] len assms(3) obtain h h' where f: "length (g_functions g2) = length fs"
    "g_loops h = []" "g_functions g2 ! i = (g_functions g1 ! i)\<lparr>lay_entry := length (g_code h)\<rparr>"
    "emit_body C (fs ! i) (g_functions g2 ! i) h = Inr ((), h')" "grows (g_code h') (g_code g2)" by auto
  have "list_all covered (tf_body (fs ! i))" using assms(2,3) by (simp add: list_all_length)
  note at = body_gen_at [OF f(4) f(2) this]
  show ?thesis
  proof (rule that [of "g_functions g1 ! i" "length (g_code h)" "length (g_code h')"])
    show "build_layout C (fs ! i) = Inr (g_functions g1 ! i)" using list_all2_nthD [OF g1(1) assms(3)] .
    show "fns P ! i = function_entry ((g_functions g1 ! i)\<lparr>lay_entry := length (g_code h)\<rparr>)" using f(1,3) assms(3) P(2) g3 by simp
  qed (use at f P g3 g1(2) in auto)
qed

section \<open>Running a function, and the program\<close>

text \<open>What the function gives: a body that runs off its end returns 0.\<close>

definition answers :: "'w io_ops \<Rightarrow> program \<Rightarrow> nat list \<Rightarrow> bool list \<Rightarrow> 'w vm \<Rightarrow> 'w vm \<Rightarrow> signal \<Rightarrow> bool" where
  "answers ops P vs rs s t sig \<longleftrightarrow> (case sig of Next \<Rightarrow> returns ops P vs rs s t 0 | Ret w \<Rightarrow> returns ops P vs rs s t w
     | Faulted \<Rightarrow> faults ops P t | _ \<Rightarrow> True)"

lemma body_answers:
  assumes sl: "scalar_slots L" and body: "list_all covered (tf_body f)"
    and at: "\<And>b k. gen_at P i j b k (emit_body C f L)" and run: "runs_all (tf_body f) \<sigma> sig \<sigma>'"
    and s: "frame_holds P L \<sigma> s" "frame_base s \<le> length vs"
  shows "answers ops P vs rs s (conf s i vs rs) sig"
proof -
  have o': "orderly (in_order (map (emit_stmt C L) (tf_body f)))" "orderly (bindS (emit PUSH_INT (Some 0)) (\<lambda>_. emit RET None))"
    by (intro stmts_orderly orderly_straight straight_basic orderly_seq body)+
  from at [of 0 0] have "gen_at P i j 0 0 (bindS (in_order (map (emit_stmt C L) (tf_body f)))
      (\<lambda>_. bindS (emit PUSH_INT (Some 0)) (\<lambda>_. emit RET None)))" by (simp add: emit_body_def)
  from this o' obtain n where n: "gen_at P i n 0 0 (in_order (map (emit_stmt C L) (tf_body f)))"
    "gen_at P n j 0 0 (bindS (emit PUSH_INT (Some 0)) (\<lambda>_. emit RET None))" by (rule gen_at_seq)
  from n(2) straight_basic(3) obtain m where m: "gen_at P n m 0 0 (emit PUSH_INT (Some 0))" "op_at P m RET None" by (rule gen_at_store)
  note push = gen_at_emit [OF m(1)]
  have body': "follows ops P L vs rs i n 0 0 \<sigma> sig \<sigma>'" by (rule statement_follows(2) [OF sl run body n(1)])
  have last: "follows ops P L vs rs n n 0 0 \<sigma>' (Ret 0) \<sigma>'"
    using push m(2) by (intro follows_return) (auto intro: push_zero_reaches [simplified])
  show ?thesis
  proof (cases sig)
    case Next
    then have "follows ops P L vs rs i n 0 0 \<sigma> (Ret 0) \<sigma>'" using follows_next [OF _ last] body' by simp
    then show ?thesis using s Next by (simp add: follows_def answers_def)
  qed (use body' s in \<open>auto simp: follows_def answers_def\<close>)
qed

lemma run_reaches: "reaches ops P s t \<Longrightarrow> \<exists>n. \<forall>k. run ops P (n + k) s = run ops P k t"
proof (induction rule: reaches.induct)
  case (reach_here s)
  show ?case by (rule exI [of _ 0]) simp
next
  case (reach_more s t u)
  then obtain n where n: "\<forall>k. run ops P (n + k) s = run ops P k t" by blast
  have "run ops P (n + 1 + k) s = run ops P k u" for k
    using n [rule_format, of "Suc k"] reach_more.hyps(2) by (simp add: vm_step_iff)
  then show ?case by blast
qed

lemma ret_exits:
  assumes "op_at P i RET None" and "frame_base s = 0" and "call_stack s = []"
  shows "\<exists>t. step ops P (conf s i [unat (w :: 16 word)] [False]) = Inr (Finished (sint w) t)"
proof -
  have "exec ops P (instr RET None) (conf s (i + 1) [unat w] [False]) = exec_ret (conf s (i + 1) [unat w] [False])"
    by (simp add: exec_def exec_control_def)
  then show ?thesis
    using op_atD [OF assms(1)] assms(2,3) by (simp add: step_conf exec_ret_def Let_def) (simp add: conf_def with_stack_def)
qed

definition result :: "signal \<Rightarrow> 'w run_result \<Rightarrow> bool" where
  "result sig r \<longleftrightarrow> (case sig of Next \<Rightarrow> \<exists>t. r = Exit 0 t | Ret w \<Rightarrow> \<exists>t. r = Exit (sint w) t
     | Faulted \<Rightarrow> \<exists>e t. r = Fault (VMError e) t | _ \<Rightarrow> True)"

lemma answers_result:
  assumes "answers ops P [] [] s (conf s i [] []) sig" and "frame_base s = 0" and "call_stack s = []"
  shows "\<exists>n. result sig (run ops P n (conf s i [] []))"
proof -
  have exits: "\<exists>n t. run ops P n (conf s i [] []) = Exit (sint w) t" if "returns ops P [] [] s (conf s i [] []) w" for w
  proof -
    from that obtain ls k where r: "reaches ops P (conf s i [] []) (conf (s\<lparr>locals := ls\<rparr>) k [unat w] [False])" and ret: "op_at P k RET None"
      by (auto simp: returns_def)
    from run_reaches [OF r] obtain n where n: "run ops P (n + 1) (conf s i [] []) = run ops P 1 (conf (s\<lparr>locals := ls\<rparr>) k [unat w] [False])"
      by blast
    from ret_exits [OF ret, of "s\<lparr>locals := ls\<rparr>" ops w] assms(2,3)
    obtain t where "step ops P (conf (s\<lparr>locals := ls\<rparr>) k [unat w] [False]) = Inr (Finished (sint w) t)" by auto
    with n have "run ops P (n + 1) (conf s i [] []) = Exit (sint w) t" by simp
    then show ?thesis by blast
  qed
  have fault: "\<exists>n e t. run ops P n (conf s i [] []) = Fault (VMError e) t" if "faults ops P (conf s i [] [])"
  proof -
    from that obtain u f where u: "reaches ops P (conf s i [] []) u" "step ops P u = fault f" by (auto simp: faults_def)
    from run_reaches [OF u(1)] obtain n where "run ops P (n + 1) (conf s i [] []) = run ops P 1 u" by blast
    with u(2) have "run ops P (n + 1) (conf s i [] []) = Fault (VMError f) u" by simp
    then show ?thesis by blast
  qed
  show ?thesis
    using assms(1) exits [of 0] exits fault by (cases sig) (auto simp: answers_def result_def)
qed

lemma func_index_unique:
  assumes "distinct (map fn_name (fns P))" and "i < length (fns P)" and "fn_name (fns P ! i) = n"
  shows "func_index P n = Some i"
proof -
  let ?z = "zip (map fn_name (fns P)) [0..<length (fns P)]"
  have "(n, i) \<in> set (rev ?z)" using assms(2,3) by (force simp: set_zip)
  moreover have "distinct (map fst (rev ?z))" using assms(1) by (simp add: rev_map [symmetric])
  ultimately show ?thesis unfolding func_index_def by (rule map_of_is_SomeI [rotated])
qed

lemma frame_holds_start:
  assumes "build_layout C f = Inr L" and "length (locals s) = lay_num_locals L" and "locals s = replicate (lay_num_locals L) 0"
    and "current_ref_slots P s = lay_refs L"
  shows "frame_holds P L (\<lambda>_. 0) s"
  using layout_scalar_slots(2) [OF assms(1)] assms(2-4) by (auto simp: frame_holds_def)

lemma main_runs:
  assumes gen: "generate_program C fs = Inr P" and covered: "list_all (\<lambda>f. list_all covered (tf_body f)) fs"
    and f: "i < length fs" "tf_name (fs ! i) = lit ''main''" and run: "runs_all (tf_body (fs ! i)) (\<lambda>_. 0) sig \<sigma>'"
    and boot: "boot P s0 = Inr s" and empty: "stack s = []" "stack_is_ref s = []" "call_stack s = []"
  shows "\<exists>n. result sig (run ops P n s)"
proof -
  have names: "map fn_name (fns P) = map tf_name fs"
    by (rule nth_equalityI) (use gen covered f(1) in \<open>auto elim!: generated_function [OF gen covered]
      simp: function_entry_def build_layout_slots(5)\<close>)
  obtain L e j where L: "build_layout C (fs ! i) = Inr L"
    "fns P ! i = function_entry (L\<lparr>lay_entry := e\<rparr>)"
    "\<And>b k. gen_at P e j b k (emit_body C (fs ! i) (L\<lparr>lay_entry := e\<rparr>))" "length (fns P) = length fs" "distinct (map tf_name fs)"
    by (rule generated_function [OF gen covered f(1)]) blast
  have "func_index P (lit ''main'') = Some i"
    using func_index_unique [of P i] names f L(4,5) by (metis nth_map)
  with boot have s: "locals s = replicate (lay_num_locals L) 0" "current_fn s = i" "pc s = int e" "frame_base s = 0"
    by (auto simp: boot_def result_simps L(2) function_entry_def)
  have start: "s = conf s e [] []" using empty s(3) by (simp add: conf_def with_stack_def)
  have "current_ref_slots P s = lay_refs L" using s(2) f(1) L(2,4) by (simp add: current_ref_slots_def function_entry_def)
  then have hold: "frame_holds P (L\<lparr>lay_entry := e\<rparr>) (\<lambda>_. 0) s"
    using frame_holds_start [OF L(1) _ s(1)] s(1) by (simp add: frame_holds_def)
  have slots: "scalar_slots (L\<lparr>lay_entry := e\<rparr>)" using layout_scalar_slots(1) [OF L(1)] by (simp add: scalar_slots_def)
  have "list_all covered (tf_body (fs ! i))" using covered f(1) by (simp add: list_all_length)
  from body_answers [OF slots this L(3) run hold, of "[]" ops "[]"] s(4)
  have "answers ops P [] [] s (conf s e [] []) sig" by simp
  from answers_result [OF this s(4) empty(3)] start show ?thesis by simp
qed

section \<open>The properties\<close>

text \<open>
  Claim C1. A generated program of covered functions runs its \<open>main\<close> to the end the source
  has: it exits with the value returned, with 0 when the body runs off its end, and with a fault of
  the machine when an operation of the source is undefined.
\<close>

theorem compiled_main:
  assumes "generate_program C fs = Inr P" and "list_all (\<lambda>f. list_all covered (tf_body f)) fs"
    and "f \<in> set fs" and "tf_name f = lit ''main''" and "runs_all (tf_body f) (\<lambda>_. 0) sig \<sigma>'"
    and "boot P s0 = Inr s" and "stack s = []" and "stack_is_ref s = []" and "call_stack s = []"
  shows "\<exists>n. result sig (run ops P n s)"
proof -
  from assms(3) obtain i where "i < length fs" "fs ! i = f" by (auto simp: in_set_conv_nth)
  with assms show ?thesis by (auto intro: main_runs)
qed

text \<open>
  Claim C2. What the generator emits for a covered statement, its jumps patched, takes the machine
  to where the statement's end sends it: behind the code, to the loop's end or its next round, to a
  return with the value on the stack, or to a fault. Only the variables of the frame change.
\<close>

theorem statement_compiled:
  assumes "runs st \<sigma> sig \<sigma>'" and "covered st" and "scalar_slots L" and "tidy g" and "emit_stmt C L st g = Inr ((), g')"
    and "linked P (length (g_code g)) g' b k" and "frame_holds P L \<sigma> s" and "frame_base s \<le> length vs"
  shows "ends ops P L vs rs s (length (g_code g')) b k (conf s (length (g_code g)) vs rs) sig \<sigma>'"
proof -
  have "gen_at P (length (g_code g)) (length (g_code g')) b k (emit_stmt C L st)"
    using assms(4-6) by (intro gen_atI [of g _ g']) (simp_all del: emit_stmt.simps)
  from statement_follows(1) [OF assms(3,1,2) this] assms(7,8) show ?thesis unfolding follows_def by blast
qed

text \<open>
  Claim C3. A frame's layout gives each symbol words of its own inside the frame, and lists exactly
  the slots of reference types as references.
\<close>

theorem frame_layout:
  assumes "build_layout C f = Inr L"
  shows "map fst (lay_slots L) = tf_frame f
    \<and> (\<forall>i < length (lay_slots L). slot_end (lay_slots L ! i) \<le> lay_num_locals L
         \<and> slot_index (snd (lay_slots L ! i)) < slot_end (lay_slots L ! i)
         \<and> (\<forall>j < i. slot_end (lay_slots L ! j) \<le> slot_index (snd (lay_slots L ! i))))
    \<and> lay_refs L = map (slot_index \<circ> snd) (filter (\<lambda>(sy, sl). is_reference_type (sym_type sy)) (lay_slots L))"
proof -
  note L = build_layout_slots [OF assms]
  have "slot_end (lay_slots L ! j) \<le> slot_index (snd (lay_slots L ! i))" if "j < i" "i < length (lay_slots L)" for i j
    using L(2) that sorted_wrt_nth_less unfolding ordered_slots_def by blast
  moreover have "slot_end (lay_slots L ! i) \<le> lay_num_locals L" if "i < length (lay_slots L)" for i
    using L(2) that unfolding ordered_slots_def by simp
  moreover have "slot_index (snd p) < slot_end p" for p using slot_width_pos [of p] by (simp add: slot_end_def)
  ultimately show ?thesis using L(1,3) by (simp add: ref_indices_def)
qed

section \<open>Witnesses\<close>

definition count_env :: genv where
  "count_env = \<lparr>ge_host = ascii_host, int_literal = (\<lambda>_. None), ge_structs = [], ge_variants = []\<rparr>"

abbreviation count_x :: symbol where
  "count_x \<equiv> \<lparr>sym_name = lit ''x'', sym_type = TInt, sym_id = 0\<rparr>"

definition count_main :: tfunction where
  "count_main = \<lparr>tf_pos = (0, 0), tf_name = lit ''main'', tf_file = [], tf_params = 0, tf_frame = [count_x],
     tf_body = [SVarDecl (0, 0) count_x (Some (TLit (0, 0) TInt (LInt 5))),
       SReturn (0, 0) (Some (TUnary (0, 0) TInt (lit ''-'') (TLocal (0, 0) TInt count_x)))]\<rparr>"

definition count_program :: program where
  "count_program = \<lparr>code = [instr PUSH_INT (Some 5), instr STORE_LOCAL (Some 0), instr LOAD_LOCAL (Some 0),
       instr NEG None, instr RET None, instr PUSH_INT (Some 0), instr RET None],
     fns = [\<lparr>fn_name = lit ''main'', entry_pc = 0, num_locals = 1, num_params = 0, ref_slots = [], param_words = [],
       fn_locals = [\<lparr>li_name = lit ''x'', li_slot = 0, li_type_name = type_name TInt, li_words = 1, is_param = False\<rparr>],
       source_file = []\<rparr>],
     strings = [], structs = [], srcmap = empty_source_map, prog_args = []\<rparr>"

lemma int_slot: "array_length H TInt = Inr None" "is_reference_type TInt = False" "word_count TInt = 1" "TInt \<noteq> TFloat" "TInt \<noteq> TStr"
  "TBool \<noteq> TFloat" "TBool \<noteq> TStr"
  using scalar_not_array [of TInt H] scalar_type_simps [of TInt] scalar_type_simps [of TBool] by (auto simp: scalar_type_def word_count_def)

lemmas gen_eval = gen_run method_simps emit_body_def located_def enter_def leave_def emit_var_decl_def emit_assign_var_def
  slot_of_def is_array_slot_def emit_literal_def emit_local_def emit_unary_def emit_binary_def emit_operator_def
  store_local_def emit_while_def loop_body_def scoped_block_def push_scope_def pop_scope_def push_loop_def pop_loop_def
  patch_loop_def bindS_def giveS_def askS_def updS_def emit_def here_def emit_jump_def patch_def patch_here_def

lemma count_generated: "generate_program count_env [count_main] = Inr count_program"
  by (simp add: generate_program_def generate_def new_codegen_def count_main_def count_env_def build_layout_def
    gen_eval int_slot struct_table_def described_def enumerate_eq_zip count_program_def function_entry_def)

lemma count_runs: "runs_all (tf_body count_main) (\<lambda>_. 0) (Ret (- 5)) ((\<lambda>_. 0)(count_x := 5))"
proof -
  have "runs (SVarDecl (0, 0) count_x (Some (TLit (0, 0) TInt (LInt 5)))) (\<lambda>_. 0) Next ((\<lambda>_. 0)(count_x := 5))"
    by (rule run_decl) simp
  moreover have "runs (SReturn (0, 0) (Some (TUnary (0, 0) TInt (lit ''-'') (TLocal (0, 0) TInt count_x)))) ((\<lambda>_. 0)(count_x := 5))
      (Ret (- 5)) ((\<lambda>_. 0)(count_x := 5))"
    by (rule run_return) (simp add: src_unary_def)
  ultimately show ?thesis by (auto simp: count_main_def intro: run_cons run_cons_stop)
qed

lemma count_covered: "list_all covered (tf_body count_main)"
  by (simp add: count_main_def scalar_type_def)

lemma count_boot: "boot count_program (new_vm no_io) = Inr ((new_vm no_io)\<lparr>locals := [0]\<rparr>)"
  by (simp add: boot_def count_program_def func_index_def materialise_literals_def materialise_variants_def new_vm_def)

theorem compiled_main_witness: "\<exists>n t. run capture_ops count_program n ((new_vm no_io)\<lparr>locals := [0]\<rparr>) = Exit (- 5) t"
proof -
  have "\<exists>n. result (Ret (- 5)) (run capture_ops count_program n ((new_vm no_io)\<lparr>locals := [0]\<rparr>))"
    by (rule compiled_main [OF count_generated _ _ _ count_runs count_boot])
      (simp_all add: count_covered count_main_def new_vm_def, simp add: scalar_type_def)
  then show ?thesis by (simp add: result_def)
qed

definition count_frame :: function_layout where
  "count_frame = \<lparr>lay_name = lit ''main'', lay_file = [], lay_num_locals = 1,
    lay_num_params = 0, lay_param_words = [], lay_entry = 0, lay_refs = [],
    lay_slots = [(count_x, \<lparr>slot_index = 0, slot_length = 0\<rparr>)],
    lay_locals = [\<lparr>li_name = lit ''x'', li_slot = 0, li_type_name = type_name TInt, li_words = 1, is_param = False\<rparr>]\<rparr>"

lemma count_layout: "build_layout count_env count_main = Inr count_frame"
  by (simp add: build_layout_def count_main_def count_env_def count_frame_def method_simps int_slot)

theorem frame_layout_witness: "map fst (lay_slots count_frame) = [count_x] \<and> slot_end (lay_slots count_frame ! 0) \<le> 1"
  using frame_layout [OF count_layout] by (auto simp: count_main_def count_frame_def)

theorem statement_compiled_witness:
  "lands capture_ops count_program count_frame [] [] ((new_vm no_io)\<lparr>locals := [0]\<rparr>)
     (conf ((new_vm no_io)\<lparr>locals := [0]\<rparr>) 0 [] []) 2 ((\<lambda>_. 0)(count_x := 5))"
proof -
  let ?st = "SVarDecl (0, 0) count_x (Some (TLit (0, 0) TInt (LInt 5)))"
  let ?g' = "new_codegen\<lparr>g_code := [instr PUSH_INT (Some 5), instr STORE_LOCAL (Some 0)]\<rparr>"
  have "ends capture_ops count_program count_frame [] [] ((new_vm no_io)\<lparr>locals := [0]\<rparr>) (length (g_code ?g')) 0 0
      (conf ((new_vm no_io)\<lparr>locals := [0]\<rparr>) (length (g_code new_codegen)) [] []) Next ((\<lambda>_. 0)(count_x := 5))"
  proof (rule statement_compiled)
    show "runs ?st (\<lambda>_. 0) Next ((\<lambda>_. 0)(count_x := 5))" by (rule run_decl) simp
    show "covered ?st" by (simp add: scalar_type_def)
    show "scalar_slots count_frame" by (rule layout_scalar_slots(1) [OF count_layout])
    show "tidy new_codegen" by (rule tidy_no_loops) (simp add: new_codegen_def)
    show "emit_stmt count_env count_frame ?st new_codegen = Inr ((), ?g')"
      by (simp add: gen_eval count_frame_def int_slot new_codegen_def)
    show "linked count_program (length (g_code new_codegen)) ?g' 0 0"
      by (auto simp: linked_def count_program_def new_codegen_def brks_def conts_def nth_Cons split: nat.splits)
    show "frame_holds count_program count_frame (\<lambda>_. 0) ((new_vm no_io)\<lparr>locals := [0]\<rparr>)"
      by (simp add: frame_holds_def count_frame_def count_program_def current_ref_slots_def new_vm_def split: if_splits)
  qed (simp add: new_vm_def)
  then show ?thesis by (simp add: new_codegen_def numeral_2_eq_2)
qed

end
