(* ===== verification/Resolver.thy ===== *)
theory Resolver
  imports Parsing Types
begin

text \<open>
  Include resolution, \<open>compiler/resolver.py\<close>: the files reached from the entry file are lexed and
  parsed, each once, and their declarations merged. Paths and the file system are the host's and a
  parameter; the recursion over includes has fuel, shown to be enough when the files that exist are
  finitely many.
\<close>

section \<open>The host\<close>

text \<open>What \<open>pathlib\<close> is asked: \<open>resolve\<close>, \<open>parent\<close>, \<open>/\<close>, \<open>exists\<close> and \<open>read_text\<close>, a path being its text.\<close>

datatype read_fault = ReadFailed ustr | NotUtf8

record host_files =
  hf_resolve :: "ustr \<Rightarrow> ustr"
  hf_parent :: "ustr \<Rightarrow> ustr"
  hf_join :: "ustr \<Rightarrow> ustr \<Rightarrow> ustr"
  hf_exists :: "ustr \<Rightarrow> bool"
  hf_read :: "ustr \<Rightarrow> read_fault + ustr"
  hf_unicode :: unicode
  hf_space :: "nat \<Rightarrow> bool"

datatype resolve_fault =
    CannotFind ustr | CannotReadFile ustr ustr | NotATextFile ustr
  | LexFails ustr int int lex_fault | ParseFails ustr int int parse_fault
  | StructRedefined ustr ustr ustr | StructClashesEnum ustr ustr ustr
  | EnumRedefined ustr ustr ustr | EnumClashesStruct ustr ustr ustr
  | FunctionRedefined ustr ustr ustr

datatype resolve_error = ResolveError resolve_fault | ResolveHost host_error | ResolveFuel

section \<open>The state of a resolution\<close>

record resolver =
  included :: "ustr set"
  source_files :: "ustr list"
  all_functions :: "function_def list"
  function_origins :: "(ustr \<times> ustr) list"
  all_structs :: "struct_def list"
  struct_origins :: "(ustr \<times> ustr) list"
  all_enums :: "enum_def list"
  enum_origins :: "(ustr \<times> ustr) list"

definition new_resolver :: resolver where
  "new_resolver = \<lparr>included = {}, source_files = [], all_functions = [], function_origins = [], all_structs = [],
     struct_origins = [], all_enums = [], enum_origins = []\<rparr>"

type_synonym 'a resolving = "(resolver, resolve_error, 'a) stateR"

definition resolve_fail :: "resolve_fault \<Rightarrow> 'a resolving" where
  "resolve_fail f = raiseS (ResolveError f)"

fun struct_name :: "struct_def \<Rightarrow> ustr" where
  "struct_name (StructDef p n fs tps) = n"

fun enum_name :: "enum_def \<Rightarrow> ustr" where
  "enum_name (EnumDef p n vs tps) = n"

fun function_name :: "function_def \<Rightarrow> ustr" where
  "function_name (Function p n ps r b tps src) = n"

text \<open>\<open>fn.source_file = str(file_path)\<close>.\<close>

fun stamp :: "ustr \<Rightarrow> function_def \<Rightarrow> function_def" where
  "stamp path (Function p n ps r b tps src) = Function p n ps r b tps path"

fun include_path :: "incl \<Rightarrow> ustr" where
  "include_path (Include p path) = path"

section \<open>One file\<close>

definition resolve_path :: "host_files \<Rightarrow> ustr \<Rightarrow> ustr \<Rightarrow> ustr \<Rightarrow> ustr" where
  "resolve_path H std path relative_to =
     (if starts_with (lit ''std/'') path then hf_resolve H (hf_join H std (drop 4 path))
      else hf_resolve H (hf_join H (hf_parent H relative_to) path))"

definition parse_source :: "host_files \<Rightarrow> ustr \<Rightarrow> ustr \<Rightarrow> resolve_error + program_ast" where
  "parse_source H path src =
     (case tokenize (hf_unicode H) src of
        Inl (LexError f l c) \<Rightarrow> Inl (ResolveError (LexFails path l c f))
      | Inl (LexHost e) \<Rightarrow> Inl (ResolveHost e)
      | Inr ts \<Rightarrow> (case parse (hf_space H) (2 * length ts + 1) ts of
          Inl (ParseError f l c) \<Rightarrow> Inl (ResolveError (ParseFails path l c f))
        | Inl (ParseHost e) \<Rightarrow> Inl (ResolveHost e)
        | Inl ParseFuel \<Rightarrow> Inl ResolveFuel
        | Inr prog \<Rightarrow> Inr prog))"

definition load_file :: "host_files \<Rightarrow> ustr \<Rightarrow> resolve_error + program_ast" where
  "load_file H path =
     (if \<not> hf_exists H path then Inl (ResolveError (CannotFind path))
      else case hf_read H path of
        Inl (ReadFailed m) \<Rightarrow> Inl (ResolveError (CannotReadFile path m))
      | Inl NotUtf8 \<Rightarrow> Inl (ResolveError (NotATextFile path))
      | Inr src \<Rightarrow> parse_source H path src)"

section \<open>Merging\<close>

definition add_struct :: "ustr \<Rightarrow> struct_def \<Rightarrow> unit resolving" where
  "add_struct path sd s =
     (case map_of (struct_origins s) (struct_name sd) of
        Some orig \<Rightarrow> Inl (ResolveError (StructRedefined (struct_name sd) path orig))
      | None \<Rightarrow> (case map_of (enum_origins s) (struct_name sd) of
          Some orig \<Rightarrow> Inl (ResolveError (StructClashesEnum (struct_name sd) path orig))
        | None \<Rightarrow> Inr ((), s\<lparr>struct_origins := dict_set (struct_name sd) path (struct_origins s),
            all_structs := all_structs s @ [sd]\<rparr>)))"

definition add_enum :: "ustr \<Rightarrow> enum_def \<Rightarrow> unit resolving" where
  "add_enum path ed s =
     (case map_of (enum_origins s) (enum_name ed) of
        Some orig \<Rightarrow> Inl (ResolveError (EnumRedefined (enum_name ed) path orig))
      | None \<Rightarrow> (case map_of (struct_origins s) (enum_name ed) of
          Some orig \<Rightarrow> Inl (ResolveError (EnumClashesStruct (enum_name ed) path orig))
        | None \<Rightarrow> Inr ((), s\<lparr>enum_origins := dict_set (enum_name ed) path (enum_origins s),
            all_enums := all_enums s @ [ed]\<rparr>)))"

definition add_function :: "ustr \<Rightarrow> function_def \<Rightarrow> unit resolving" where
  "add_function path f s =
     (case map_of (function_origins s) (function_name f) of
        Some orig \<Rightarrow> Inl (ResolveError (FunctionRedefined (function_name f) path orig))
      | None \<Rightarrow> Inr ((), s\<lparr>function_origins := dict_set (function_name f) path (function_origins s),
          all_functions := all_functions s @ [stamp path f]\<rparr>))"

definition merge_file :: "ustr \<Rightarrow> program_ast \<Rightarrow> unit resolving" where
  "merge_file path prog =
     bindS (forS (structs_of prog) (add_struct path)) (\<lambda>_.
     bindS (forS (enums_of prog) (add_enum path)) (\<lambda>_.
       forS (functions_of prog) (add_function path)))"

definition lift_load :: "resolve_error + 'a \<Rightarrow> 'a resolving" where
  "lift_load r s = bindR r (\<lambda>x. Inr (x, s))"

text \<open>Depth first: what a file includes is merged before the file itself.\<close>

fun resolve_file :: "host_files \<Rightarrow> ustr \<Rightarrow> nat \<Rightarrow> ustr \<Rightarrow> unit resolving" where
  "resolve_file H std 0 path = raiseS ResolveFuel"
| "resolve_file H std (Suc n) path =
     bindS (askS (\<lambda>s. path \<in> included s)) (\<lambda>known.
     if known then giveS ()
     else bindS (updS (\<lambda>s. s\<lparr>included := insert path (included s), source_files := source_files s @ [path]\<rparr>)) (\<lambda>_.
       bindS (lift_load (load_file H path)) (\<lambda>prog.
       bindS (forS (includes_of prog) (\<lambda>i. resolve_file H std n (resolve_path H std (include_path i) path))) (\<lambda>_.
         merge_file path prog))))"

text \<open>\<open>resolve\<close>: every table is cleared first, so a resolver can be used again.\<close>

definition resolve :: "host_files \<Rightarrow> ustr \<Rightarrow> nat \<Rightarrow> ustr \<Rightarrow> resolve_error + program_ast \<times> ustr list" where
  "resolve H std fuel entry =
     bindR (resolve_file H std fuel (hf_resolve H entry) new_resolver) (\<lambda>(_, s).
       Inr (\<lparr>includes_of = [], functions_of = all_functions s, structs_of = all_structs s, enums_of = all_enums s\<rparr>,
         source_files s))"

section \<open>What merging does\<close>

text \<open>The tables of origins list the declarations merged so far.\<close>

definition merged_ok :: "resolver \<Rightarrow> bool" where
  "merged_ok s \<longleftrightarrow> map fst (struct_origins s) = map struct_name (all_structs s)
     \<and> map fst (enum_origins s) = map enum_name (all_enums s)
     \<and> map fst (function_origins s) = map function_name (all_functions s)
     \<and> map snd (function_origins s) = map decl_file (all_functions s)
     \<and> distinct (map struct_name (all_structs s) @ map enum_name (all_enums s))
     \<and> distinct (map function_name (all_functions s))"

lemma stamp_simps [simp]: "function_name (stamp path f) = function_name f" "decl_file (stamp path f) = path"
  by (cases f; simp)+

lemma merged_steps:
  "add_struct path sd s = Inr (u, s') \<Longrightarrow> merged_ok s \<Longrightarrow> merged_ok s'"
  "add_enum path ed s = Inr (u, s') \<Longrightarrow> merged_ok s \<Longrightarrow> merged_ok s'"
  "add_function path f s = Inr (u, s') \<Longrightarrow> merged_ok s \<Longrightarrow> merged_ok s'"
  by (auto simp: add_struct_def add_enum_def add_function_def merged_ok_def map_of_eq_None_iff dict_set_new
    simp flip: set_map split: option.splits)

lemma forS_invariant:
  assumes "forS xs f s = Inr (u, s')" and "I s" and "\<And>x t u t'. x \<in> set xs \<Longrightarrow> f x t = Inr (u, t') \<Longrightarrow> I t \<Longrightarrow> I t'"
  shows "I s'"
  using assms
proof (induction xs arbitrary: s)
  case Nil
  then show ?case by (simp add: giveS_def)
next
  case (Cons x xs)
  then obtain t where t: "f x s = Inr ((), t)" "forS xs f t = Inr (u, s')" by (auto simp: bindS_Inr)
  show ?case by (rule Cons.IH [OF t(2)]) (use Cons.prems(2,3) t(1) in auto)
qed

lemma merge_file_ok:
  assumes "merge_file path prog s = Inr (u, s')" and "merged_ok s"
  shows "merged_ok s'"
proof -
  from assms(1) obtain s1 s2 where "forS (structs_of prog) (add_struct path) s = Inr ((), s1)"
    "forS (enums_of prog) (add_enum path) s1 = Inr ((), s2)" "forS (functions_of prog) (add_function path) s2 = Inr (u, s')"
    by (auto simp: merge_file_def bindS_Inr)
  with assms(2) forS_invariant [where I = merged_ok] merged_steps show ?thesis by metis
qed

lemma forS_add_struct:
  "forS sds (add_struct path) s = Inr (u, s') \<Longrightarrow> all_structs s' = all_structs s @ sds \<and> all_enums s' = all_enums s
     \<and> all_functions s' = all_functions s \<and> included s' = included s \<and> source_files s' = source_files s"
  by (induction sds arbitrary: s) (simp add: giveS_def, fastforce simp: bindS_Inr add_struct_def split: option.splits)

lemma forS_add_enum:
  "forS eds (add_enum path) s = Inr (u, s') \<Longrightarrow> all_structs s' = all_structs s \<and> all_enums s' = all_enums s @ eds
     \<and> all_functions s' = all_functions s \<and> included s' = included s \<and> source_files s' = source_files s"
  by (induction eds arbitrary: s) (simp add: giveS_def, fastforce simp: bindS_Inr add_enum_def split: option.splits)

lemma forS_add_function:
  "forS fs (add_function path) s = Inr (u, s') \<Longrightarrow> all_structs s' = all_structs s \<and> all_enums s' = all_enums s
     \<and> all_functions s' = all_functions s @ map (stamp path) fs \<and> included s' = included s \<and> source_files s' = source_files s"
  by (induction fs arbitrary: s) (simp add: giveS_def, fastforce simp: bindS_Inr add_function_def split: option.splits)

lemmas forS_add = forS_add_struct forS_add_enum forS_add_function

lemma merge_file_adds:
  assumes "merge_file path prog s = Inr (u, s')"
  shows "all_structs s' = all_structs s @ structs_of prog" and "all_enums s' = all_enums s @ enums_of prog"
    and "all_functions s' = all_functions s @ map (stamp path) (functions_of prog)"
    and "included s' = included s" and "source_files s' = source_files s"
  using assms by (auto simp: merge_file_def bindS_Inr dest!: forS_add)

section \<open>What is reached\<close>

definition includes_file :: "host_files \<Rightarrow> ustr \<Rightarrow> ustr \<Rightarrow> ustr \<Rightarrow> bool" where
  "includes_file H std p q \<longleftrightarrow> (\<exists>prog i. load_file H p = Inr prog \<and> i \<in> set (includes_of prog)
     \<and> q = resolve_path H std (include_path i) p)"

definition loaded :: "host_files \<Rightarrow> ustr \<Rightarrow> program_ast" where
  "loaded H p = (case load_file H p of Inr prog \<Rightarrow> prog | Inl _ \<Rightarrow> \<lparr>includes_of = [], functions_of = [], structs_of = [], enums_of = []\<rparr>)"

text \<open>From \<open>s\<close> to \<open>s'\<close> the files of \<open>order\<close> were merged, each once, with all they include.\<close>

definition grown :: "host_files \<Rightarrow> ustr \<Rightarrow> resolver \<Rightarrow> resolver \<Rightarrow> bool" where
  "grown H std s s' \<longleftrightarrow> (\<exists>order files. included s' = included s \<union> set order \<and> included s \<inter> set order = {} \<and> distinct order
     \<and> source_files s' = source_files s @ files \<and> distinct files \<and> set files = set order
     \<and> (\<forall>q \<in> set order. \<exists>prog. load_file H q = Inr prog)
     \<and> (\<forall>q \<in> set order. \<forall>r. includes_file H std q r \<longrightarrow> r \<in> included s')
     \<and> all_functions s' = all_functions s @ concat (map (\<lambda>q. map (stamp q) (functions_of (loaded H q))) order)
     \<and> all_structs s' = all_structs s @ concat (map (\<lambda>q. structs_of (loaded H q)) order)
     \<and> all_enums s' = all_enums s @ concat (map (\<lambda>q. enums_of (loaded H q)) order))"

lemma grown_refl: "grown H std s s"
  unfolding grown_def by (intro exI [of _ "[]"]) simp

lemma grown_mono: "grown H std s s' \<Longrightarrow> included s \<subseteq> included s'"
  by (auto simp: grown_def)

lemma grown_trans:
  assumes "grown H std s t" and "grown H std t u"
  shows "grown H std s u"
proof -
  from assms(1) obtain o1 f1 where a: "included t = included s \<union> set o1" "included s \<inter> set o1 = {}" "distinct o1"
    "source_files t = source_files s @ f1" "distinct f1" "set f1 = set o1" "\<forall>q \<in> set o1. \<exists>prog. load_file H q = Inr prog"
    "\<forall>q \<in> set o1. \<forall>r. includes_file H std q r \<longrightarrow> r \<in> included t"
    "all_functions t = all_functions s @ concat (map (\<lambda>q. map (stamp q) (functions_of (loaded H q))) o1)"
    "all_structs t = all_structs s @ concat (map (\<lambda>q. structs_of (loaded H q)) o1)"
    "all_enums t = all_enums s @ concat (map (\<lambda>q. enums_of (loaded H q)) o1)" unfolding grown_def by blast
  from assms(2) obtain o2 f2 where b: "included u = included t \<union> set o2" "included t \<inter> set o2 = {}" "distinct o2"
    "source_files u = source_files t @ f2" "distinct f2" "set f2 = set o2" "\<forall>q \<in> set o2. \<exists>prog. load_file H q = Inr prog"
    "\<forall>q \<in> set o2. \<forall>r. includes_file H std q r \<longrightarrow> r \<in> included u"
    "all_functions u = all_functions t @ concat (map (\<lambda>q. map (stamp q) (functions_of (loaded H q))) o2)"
    "all_structs u = all_structs t @ concat (map (\<lambda>q. structs_of (loaded H q)) o2)"
    "all_enums u = all_enums t @ concat (map (\<lambda>q. enums_of (loaded H q)) o2)" unfolding grown_def by blast
  show ?thesis unfolding grown_def
    by (intro exI [of _ "o1 @ o2"] exI [of _ "f1 @ f2"]) (use a b in auto)
qed

text \<open>What is merged from \<open>p\<close> on is reached from \<open>p\<close> by includes.\<close>

definition reached :: "host_files \<Rightarrow> ustr \<Rightarrow> ustr \<Rightarrow> resolver \<Rightarrow> resolver \<Rightarrow> bool" where
  "reached H std p s s' \<longleftrightarrow> p \<in> included s' \<and> (\<forall>q \<in> included s' - included s. (includes_file H std)\<^sup>*\<^sup>* p q)"

lemma forS_grown:
  assumes "forS is f s = Inr (u, s')"
    and "\<And>i t t'. i \<in> set is \<Longrightarrow> f i t = Inr ((), t') \<Longrightarrow> grown H std t t' \<and> reached H std (g i) t t' \<and> (merged_ok t \<longrightarrow> merged_ok t')"
  shows "grown H std s s' \<and> (\<forall>i \<in> set is. g i \<in> included s') \<and> (merged_ok s \<longrightarrow> merged_ok s')
    \<and> (\<forall>q \<in> included s' - included s. \<exists>i \<in> set is. (includes_file H std)\<^sup>*\<^sup>* (g i) q)"
  using assms
proof (induction "is" arbitrary: s)
  case Nil
  then show ?case by (simp add: giveS_def grown_refl)
next
  case (Cons i "is")
  from Cons.prems(1) obtain t where t: "f i s = Inr ((), t)" "forS is f t = Inr (u, s')" by (auto simp: bindS_Inr)
  have a: "grown H std s t \<and> reached H std (g i) s t \<and> (merged_ok s \<longrightarrow> merged_ok t)" by (rule Cons.prems(2) [OF _ t(1)]) simp
  have b: "grown H std t s' \<and> (\<forall>i \<in> set is. g i \<in> included s') \<and> (merged_ok t \<longrightarrow> merged_ok s')
    \<and> (\<forall>q \<in> included s' - included t. \<exists>i \<in> set is. (includes_file H std)\<^sup>*\<^sup>* (g i) q)"
    by (rule Cons.IH [OF t(2)]) (rule Cons.prems(2); simp)
  show ?case using a b grown_trans grown_mono [of H std t s'] unfolding reached_def by auto
qed

lemma resolve_file_grown:
  "resolve_file H std n p s = Inr (u, s') \<Longrightarrow> grown H std s s' \<and> reached H std p s s' \<and> (merged_ok s \<longrightarrow> merged_ok s')"
proof (induction n arbitrary: p s u s')
  case 0
  then show ?case by (simp add: raiseS_def)
next
  case (Suc n)
  show ?case
  proof (cases "p \<in> included s")
    case True
    with Suc.prems show ?thesis by (simp add: giveS_def grown_refl reached_def)
  next
    case False
    let ?s = "s\<lparr>included := insert p (included s), source_files := source_files s @ [p]\<rparr>"
    let ?g = "\<lambda>i. resolve_path H std (include_path i) p"
    from Suc.prems False obtain prog t where l: "load_file H p = Inr prog"
      and t: "forS (includes_of prog) (\<lambda>i. resolve_file H std n (?g i)) ?s = Inr ((), t)" and m: "merge_file p prog t = Inr (u, s')"
      by (auto simp: bindS_Inr lift_load_def bindR_eq_Inr giveS_def)
    from forS_grown [OF t, of H std ?g] Suc.IH
    have g: "grown H std ?s t" "\<forall>i \<in> set (includes_of prog). ?g i \<in> included t" "merged_ok ?s \<longrightarrow> merged_ok t"
      "\<forall>q \<in> included t - included ?s. \<exists>i \<in> set (includes_of prog). (includes_file H std)\<^sup>*\<^sup>* (?g i) q" by blast+
    note adds = merge_file_adds [OF m]
    have inc: "includes_file H std p r \<Longrightarrow> r \<in> included t" for r using l g(2) by (auto simp: includes_file_def)
    have step: "i \<in> set (includes_of prog) \<Longrightarrow> includes_file H std p (?g i)" for i using l by (auto simp: includes_file_def)
    have lp: "loaded H p = prog" by (simp add: loaded_def l)
    from g(1) obtain order files where o': "included t = insert p (included s) \<union> set order" "insert p (included s) \<inter> set order = {}"
      "distinct order" "source_files t = source_files s @ p # files" "distinct files" "set files = set order"
      "\<forall>q \<in> set order. \<exists>prog. load_file H q = Inr prog" "\<forall>q \<in> set order. \<forall>r. includes_file H std q r \<longrightarrow> r \<in> included t"
      "all_functions t = all_functions s @ concat (map (\<lambda>q. map (stamp q) (functions_of (loaded H q))) order)"
      "all_structs t = all_structs s @ concat (map (\<lambda>q. structs_of (loaded H q)) order)"
      "all_enums t = all_enums s @ concat (map (\<lambda>q. enums_of (loaded H q)) order)" unfolding grown_def by auto
    have "grown H std s s'" unfolding grown_def
      by (intro exI [of _ "order @ [p]"] exI [of _ "p # files"]) (use o' adds False l lp inc in auto)
    moreover have "reached H std p s s'" unfolding reached_def
    proof (intro conjI ballI)
      show "p \<in> included s'" using o'(1) adds(4) by simp
      fix q assume "q \<in> included s' - included s"
      then consider "q = p" | "q \<in> included t - included ?s" using adds(4) by auto
      then show "(includes_file H std)\<^sup>*\<^sup>* p q"
        by cases (use g(4) step in \<open>auto intro: converse_rtranclp_into_rtranclp\<close>)
    qed
    moreover have "merged_ok s \<longrightarrow> merged_ok s'"
      using g(3) merge_file_ok [OF m] by (auto simp: merged_ok_def)
    ultimately show ?thesis by blast
  qed
qed

lemma resolve_file_first:
  assumes "resolve_file H std n p s = Inr (u, s')" and "p \<notin> included s"
  shows "\<exists>fs. source_files s' = source_files s @ p # fs"
proof -
  from assms obtain m prog t where "n = Suc m" and t: "forS (includes_of prog)
      (\<lambda>i. resolve_file H std m (resolve_path H std (include_path i) p))
      (s\<lparr>included := insert p (included s), source_files := source_files s @ [p]\<rparr>) = Inr ((), t)"
    and "merge_file p prog t = Inr (u, s')"
    by (cases n) (auto simp: raiseS_def bindS_Inr lift_load_def bindR_eq_Inr giveS_def)
  moreover have "\<exists>fs. source_files t = source_files s @ p # fs"
    using t by (rule forS_invariant) (auto dest!: resolve_file_grown simp: grown_def)
  ultimately show ?thesis by (simp add: merge_file_adds)
qed

section \<open>Fuel\<close>

lemma load_no_fuel: "load_file H p \<noteq> Inl ResolveFuel"
proof -
  have "parse (hf_space H) (2 * length ts + 1) ts \<noteq> Inl ParseFuel" if "tokenize (hf_unicode H) src = Inr ts" for src ts
    using parse_total [OF tokenize_ok [OF that] le_less_trans [OF weight_le], of _ "hf_space H"] by fastforce
  then show ?thesis
    by (auto simp: load_file_def parse_source_def split: sum.splits lex_error.splits parse_error.splits read_fault.splits)
qed

lemma merge_no_fuel: "merge_file p prog s \<noteq> Inl ResolveFuel"
proof -
  have f: "forS xs f s \<noteq> Inl ResolveFuel" if "\<And>x t. f x t \<noteq> Inl ResolveFuel" for xs and f :: "'b \<Rightarrow> unit resolving" and s
    using that by (induction xs arbitrary: s) (auto simp: giveS_def bindS_def bindR_eq_Inl)
  have "forS xs (add_struct p) t \<noteq> Inl ResolveFuel" "forS ys (add_enum p) t \<noteq> Inl ResolveFuel"
    "forS zs (add_function p) t \<noteq> Inl ResolveFuel" for xs ys zs t
    by (rule f; simp add: add_struct_def add_enum_def add_function_def split: option.splits)+
  then show ?thesis by (auto simp: merge_file_def bindS_def bindR_eq_Inl)
qed

lemma bindS_Inl: "bindS m f s = Inl e \<longleftrightarrow> m s = Inl e \<or> (\<exists>x t. m s = Inr (x, t) \<and> f x t = Inl e)"
  by (auto simp: bindS_def bindR_eq_Inl)

lemma forS_no_fuel:
  assumes "\<And>i t. i \<in> set is \<Longrightarrow> J t \<Longrightarrow> f i t \<noteq> Inl ResolveFuel" and "\<And>i t u t'. i \<in> set is \<Longrightarrow> J t \<Longrightarrow> f i t = Inr (u, t') \<Longrightarrow> J t'"
    and "J s"
  shows "forS is f s \<noteq> Inl ResolveFuel"
  using assms
proof (induction "is" arbitrary: s)
  case Nil
  then show ?case by (simp add: giveS_def)
next
  case (Cons i "is")
  have "forS is f t \<noteq> Inl ResolveFuel" if t: "f i s = Inr (u, t)" for u t
  proof (rule Cons.IH)
    show "J t" using Cons.prems(2) [OF _ Cons.prems(3) t] by simp
    show "J t'" if "x \<in> set is" "J t" "f x t = Inr (u, t')" for x t u t' by (rule Cons.prems(2) [OF _ that(2,3)]) (simp add: that(1))
  qed (use Cons.prems(1) in simp)
  with Cons.prems(1,3) show ?case by (auto simp: bindS_def bindR_eq_Inl)
qed

lemma resolve_file_fuel:
  assumes "finite {q. hf_exists H q}"
  shows "card ({q. hf_exists H q} - included s) < n \<Longrightarrow> resolve_file H std n p s \<noteq> Inl ResolveFuel"
proof (induction n arbitrary: p s)
  case (Suc n)
  let ?E = "{q. hf_exists H q}"
  let ?s = "s\<lparr>included := insert p (included s), source_files := source_files s @ [p]\<rparr>"
  let ?f = "\<lambda>i. resolve_file H std n (resolve_path H std (include_path i) p)"
  have loop: "forS is ?f ?s \<noteq> Inl ResolveFuel" if "p \<notin> included s" "hf_exists H p" for "is"
  proof (rule forS_no_fuel [where J = "\<lambda>t. insert p (included s) \<subseteq> included t"])
    fix i and t :: resolver assume t: "insert p (included s) \<subseteq> included t"
    have "?E - included t \<subset> ?E - included s" using t that by blast
    then have "card (?E - included t) < card (?E - included s)" using assms by (intro psubset_card_mono) auto
    with Suc.prems show "?f i t \<noteq> Inl ResolveFuel" by (intro Suc.IH) simp
    fix u t' assume "?f i t = Inr (u, t')"
    from resolve_file_grown [OF this] grown_mono [of H std t t'] t show "insert p (included s) \<subseteq> included t'" by auto
  qed simp
  show ?case
  proof
    assume f: "resolve_file H std (Suc n) p s = Inl ResolveFuel"
    then have new: "p \<notin> included s" by (auto simp: giveS_def)
    with f have "load_file H p = Inl ResolveFuel \<or> (\<exists>prog. load_file H p = Inr prog \<and>
        (forS (includes_of prog) ?f ?s = Inl ResolveFuel \<or> (\<exists>t. merge_file p prog t = Inl ResolveFuel)))"
      by (cases "load_file H p") (auto simp: bindS_Inl lift_load_def)
    then obtain prog where "load_file H p = Inr prog" "forS (includes_of prog) ?f ?s = Inl ResolveFuel"
      using load_no_fuel merge_no_fuel by blast
    moreover from this have "hf_exists H p" by (auto simp: load_file_def split: if_splits)
    ultimately show False using loop [OF new] by blast
  qed
qed simp

section \<open>The properties\<close>



text \<open>
  Claim C29. Resolution ends whatever the files include, cycles and repeats among them: with more
  fuel than there are files it gives a program or an error of its own.
\<close>

theorem resolve_returns:
  assumes "finite {q. hf_exists H q}" and "card {q. hf_exists H q} < fuel"
  shows "resolve H std fuel entry \<noteq> Inl ResolveFuel"
proof -
  have "card ({q. hf_exists H q} - included new_resolver) < fuel" using assms(2) by (simp add: new_resolver_def)
  from resolve_file_fuel [OF assms(1) this] show ?thesis by (auto simp: resolve_def bindR_eq_Inl)
qed

section \<open>Witnesses\<close>

text \<open>Two files that include each other.\<close>

definition loop_source :: "nat \<Rightarrow> ustr" where
  "loop_source c = lit ''include '' @ [34, c, 34, 59]"

definition loop_host :: host_files where
  "loop_host = \<lparr>hf_resolve = (\<lambda>p. p), hf_parent = (\<lambda>p. []), hf_join = (\<lambda>p q. q), hf_exists = (\<lambda>p. p \<in> {[97], [98]}),
     hf_read = (\<lambda>p. Inr (loop_source (if p = [97] then 98 else 97))), hf_unicode = ascii_only, hf_space = (\<lambda>c. c = 32)\<rparr>"

definition loop_file :: "nat \<Rightarrow> program_ast" where
  "loop_file c = \<lparr>includes_of = [Include (1, 9) [c]], functions_of = [], structs_of = [], enums_of = []\<rparr>"

lemma loop_tokens: "c = 97 \<or> c = 98 \<Longrightarrow> tokenize ascii_only (loop_source c) = Inr
  [\<lparr>tok_type = INCLUDE, lexeme = lit ''include'', tok_line = 1, tok_col = 1, tok_literal = NoValue\<rparr>,
   \<lparr>tok_type = STRING, lexeme = [34, c, 34], tok_line = 1, tok_col = 9, tok_literal = TextValue [c]\<rparr>,
   \<lparr>tok_type = SEMICOLON, lexeme = [59], tok_line = 1, tok_col = 12, tok_literal = NoValue\<rparr>,
   \<lparr>tok_type = EOF, lexeme = [], tok_line = 1, tok_col = 13, tok_literal = NoValue\<rparr>]"
  by (auto simp: lex_eval loop_source_def)

lemmas parse_eval = bindP_def giveP_def failP_def tpos_def peekP_def previousP_def at_endP_def checkP_def advanceP_def
  consumeP_def include_of_def parse_program_def py_index_def

lemma entries_fuel: "e_fuel (entries sp n) = n"
  by (cases n) simp_all

lemma loop_parses:
  fixes c :: nat
  defines "ts \<equiv> [\<lparr>tok_type = INCLUDE, lexeme = lit ''include'', tok_line = 1, tok_col = 1, tok_literal = NoValue\<rparr>,
   \<lparr>tok_type = STRING, lexeme = [34, c, 34], tok_line = 1, tok_col = 9, tok_literal = TextValue [c]\<rparr>,
   \<lparr>tok_type = SEMICOLON, lexeme = [59], tok_line = 1, tok_col = 12, tok_literal = NoValue\<rparr>,
   \<lparr>tok_type = EOF, lexeme = [], tok_line = 1, tok_col = 13, tok_literal = NoValue\<rparr>]"
  shows "parse sp (Suc (Suc n)) ts = Inr (loop_file c)"
proof -
  have "include_loop (Suc (Suc n)) \<lparr>toks = ts, cur = 0\<rparr> = Inr ([Include (1, 9) [c]], \<lparr>toks = ts, cur = 3\<rparr>)"
    by (simp add: ts_def parse_eval)
  moreover have "decl_loop (Suc k) R prog \<lparr>toks = ts, cur = 3\<rparr> = Inr (prog, \<lparr>toks = ts, cur = 3\<rparr>)" for k R prog
    by (simp add: ts_def parse_eval)
  ultimately show ?thesis
    unfolding parse_def parse_program_def entries_fuel bindP_def by (simp del: entries.simps include_loop.simps add: loop_file_def)
qed

lemma loop_loads: "p = [97] \<or> p = [98] \<Longrightarrow> load_file loop_host p = Inr (loop_file (if p = [97] then 98 else 97))"
  using loop_tokens [of 97] loop_tokens [of 98] loop_parses [of _ 7]
  by (auto simp: load_file_def parse_source_def loop_host_def)

lemma bindR_unit: "bindR r (\<lambda>(x, t). Inr ((), t)) = r"
  by (cases r) auto

lemma loop_step:
  assumes "p = [97] \<or> p = [98]"
  shows "resolve_file loop_host [] (Suc n) p s = (if p \<in> included s then Inr ((), s) else
    resolve_file loop_host [] n (if p = [97] then [98] else [97])
      (s\<lparr>included := insert p (included s), source_files := source_files s @ [p]\<rparr>))"
proof -
  have "resolve_path loop_host [] [c] p = [c]" for c by (simp add: resolve_path_def loop_host_def starts_with_def lit_def)
  then show ?thesis
    using loop_loads [OF assms] assms
    by (auto simp: giveS_def loop_file_def lift_load_def merge_file_def bindS_def askS_def updS_def bindR_unit)
qed

lemma loop_resolves: "resolve loop_host [] 3 [97] = Inr (\<lparr>includes_of = [], functions_of = [], structs_of = [], enums_of = []\<rparr>, [[97], [98]])"
proof -
  have "hf_resolve loop_host [97] = [97]" by (simp add: loop_host_def)
  then show ?thesis by (simp add: resolve_def eval_nat_numeral new_resolver_def loop_step del: resolve_file.simps)
qed



theorem resolve_returns_witness: "resolve loop_host [] 3 [97] \<noteq> Inl ResolveFuel"
proof (rule resolve_returns)
  have "{q. hf_exists loop_host q} = {[97], [98]}" by (auto simp: loop_host_def)
  then show "finite {q. hf_exists loop_host q}" "card {q. hf_exists loop_host q} < 3" by simp_all
qed

end
