(* ===== verification/Debugger.thy ===== *)
theory Debugger
  imports Interp
begin

text \<open>
  The debugger core, \<open>runtime/debugger.py\<close>: breakpoints, stepping and inspection over the one hook
  the machine calls before each instruction, and the backtrace a fault is decorated with. The front
  end is a parameter, a function that is handed each stop and answers with the debugger it leaves
  behind; what other threads do between two instructions is another.
\<close>

section \<open>State\<close>

datatype mode = RunFree | AtEntry | StepIn | StepOver | FinishFrame

datatype stop_reason = EntryStop | BreakpointStop | StepStop | PauseStop | FaultStop

record breakpoint =
  bp_id :: nat
  bp_pc :: int
  bp_function :: ustr
  bp_file :: ustr
  bp_line :: int
  bp_enabled :: bool
  bp_hits :: nat

record frame_view =
  fv_depth :: nat
  fv_fn :: nat
  fv_function :: ustr
  fv_file :: ustr
  fv_pc :: int
  fv_line :: "int option"
  fv_col :: "int option"
  fv_locals :: "nat list"

record stop =
  stop_why :: stop_reason
  stop_frame :: frame_view
  stop_breakpoint :: "breakpoint option"
  stop_error :: "vm_error option"

text \<open>\<open>_by_pc\<close> shares its breakpoints with \<open>breakpoints\<close>; here it holds their ids.\<close>

record debugger =
  breakpoints :: "(nat \<times> breakpoint) list"
  by_pc :: "(int \<times> nat) list"
  next_id :: nat
  dmode :: "mode option"
  from_line :: "int option"
  from_depth :: int
  pause_requested :: bool

definition new_debugger :: debugger where
  "new_debugger = \<lparr>breakpoints = [], by_pc = [], next_id = 1, dmode = Some AtEntry, from_line = None, from_depth = 0,
     pause_requested = False\<rparr>"

datatype debugger_error = NoFunction ustr | NoSourceFile ustr | NoCodeAfter int ustr | NoBreakpoint nat

section \<open>Program layout\<close>

definition entry_order :: "program \<Rightarrow> nat list \<Rightarrow> nat list" where
  "entry_order P = sort_key (\<lambda>i. entry_pc (fns P ! i))"

text \<open>\<open>_function_ranges\<close>: each function's pcs end where the next one begins.\<close>

definition function_ranges :: "program \<Rightarrow> (nat \<times> nat \<times> nat) list" where
  "function_ranges P =
     (let order = entry_order P [0..<length (fns P)];
          starts = map (\<lambda>i. entry_pc (fns P ! i)) order
      in zip order (zip starts (tl starts @ [length (code P)])))"

definition range_of :: "program \<Rightarrow> nat \<Rightarrow> nat \<times> nat" where
  "range_of P i = the (map_of (function_ranges P) i)"

definition entry_file :: "program \<Rightarrow> ustr" where
  "entry_file P = (case find (\<lambda>f. fn_name f = lit ''main'') (fns P) of
     Some f \<Rightarrow> source_file f
   | None \<Rightarrow> (case fns P of [] \<Rightarrow> [] | f # _ \<Rightarrow> source_file f))"

text \<open>\<open>path.replace(os.sep, '/')\<close>; the separator is the host's.\<close>

definition slashed :: "nat \<Rightarrow> ustr \<Rightarrow> ustr" where
  "slashed sep path = map (\<lambda>c. if c = sep then 47 else c) path"

definition path_suffix :: "ustr \<Rightarrow> ustr \<Rightarrow> bool" where
  "path_suffix s path \<longleftrightarrow> length s \<le> length path \<and> drop (length path - length s) path = s"

definition functions_in_file :: "nat \<Rightarrow> program \<Rightarrow> ustr \<Rightarrow> nat list" where
  "functions_in_file sep P wanted =
     (let w = slashed sep wanted in
      filter (\<lambda>i. let path = slashed sep (source_file (fns P ! i)) in
        path = w \<or> path_suffix (47 # dropWhile (\<lambda>c. c = 46 \<or> c = 47) w) path) [0..<length (fns P)])"

section \<open>Breakpoints\<close>

definition add_breakpoint :: "program \<Rightarrow> int \<Rightarrow> nat \<Rightarrow> int \<Rightarrow> debugger \<Rightarrow> nat \<times> debugger" where
  "add_breakpoint P p i line d =
     (case map_of (by_pc d) p of
        Some known \<Rightarrow> (known, d)
      | None \<Rightarrow> let bp = \<lparr>bp_id = next_id d, bp_pc = p, bp_function = fn_name (fns P ! i), bp_file = source_file (fns P ! i),
            bp_line = line, bp_enabled = True, bp_hits = 0\<rparr> in
          (next_id d, d\<lparr>next_id := next_id d + 1, breakpoints := dict_set (next_id d) bp (breakpoints d),
             by_pc := dict_set p (next_id d) (by_pc d)\<rparr>))"

text \<open>Exceptions of the host are kept apart from the debugger's own.\<close>

type_synonym 'a debugging = "vm_error + debugger_error + 'a"

definition break_at_function :: "program \<Rightarrow> ustr \<Rightarrow> debugger \<Rightarrow> (nat \<times> debugger) debugging" where
  "break_at_function P name d =
     (case find (\<lambda>i. fn_name (fns P ! i) = name) [0..<length (fns P)] of
        None \<Rightarrow> Inr (Inl (NoFunction name))
      | Some i \<Rightarrow> bindR (lift_host (lookup (srcmap P) (int (entry_pc (fns P ! i))))) (\<lambda>pos.
          Inr (Inr (add_breakpoint P (int (entry_pc (fns P ! i))) i (case pos of None \<Rightarrow> 0 | Some (l, _) \<Rightarrow> l) d))))"

definition line_pc :: "program \<Rightarrow> int \<Rightarrow> nat \<Rightarrow> nat option" where
  "line_pc P line i = (let (start, end) = range_of P i in first_pc_on_line (srcmap P) line start (Some end))"

text \<open>The first function with code on the line, in the order of the code.\<close>

fun first_on_line :: "program \<Rightarrow> int \<Rightarrow> nat list \<Rightarrow> (nat \<times> nat) option" where
  "first_on_line P line [] = None"
| "first_on_line P line (i # is) = (case line_pc P line i of Some p \<Rightarrow> Some (i, p) | None \<Rightarrow> first_on_line P line is)"

definition lines_of :: "program \<Rightarrow> nat list \<Rightarrow> int list" where
  "lines_of P is = concat (map (\<lambda>i. let (start, end) = range_of P i in lines_in (srcmap P) start (Some end)) is)"

definition later_lines :: "program \<Rightarrow> nat list \<Rightarrow> int \<Rightarrow> int list" where
  "later_lines P is line = filter (\<lambda>l. line < l) (lines_of P is)"

text \<open>The recursion of \<open>break_at_line\<close> over the lines that follow.\<close>

function place_on_line :: "program \<Rightarrow> nat list \<Rightarrow> int \<Rightarrow> (nat \<times> nat \<times> int) option" where
  "place_on_line P is line =
     (case first_on_line P line (entry_order P is) of
        Some (i, p) \<Rightarrow> Some (i, p, line)
      | None \<Rightarrow> (case later_lines P is line of
          [] \<Rightarrow> None
        | l # ls \<Rightarrow> place_on_line P is (Min (set (l # ls)))))"
  by pat_completeness auto
termination
proof (relation "measure (\<lambda>(P, is, line). length (later_lines P is line))", simp, clarsimp simp del: set_simps)
  fix P "is" and line l :: int and ls
  assume l: "later_lines P is line = l # ls"
  define m where "m = Min (set (l # ls))"
  have m: "m \<in> set (later_lines P is line)" unfolding l m_def by (rule Min_in) simp_all
  then have "line < m" by (simp add: later_lines_def)
  then have "later_lines P is m = filter (\<lambda>x. m < x) (later_lines P is line)"
    by (auto simp: later_lines_def intro!: filter_cong)
  also have "length \<dots> < length (later_lines P is line)" by (rule length_filter_less [OF m]) simp
  finally show "length (later_lines P is (Min (set (l # ls)))) < Suc (length ls)" by (simp add: l m_def)
qed

declare place_on_line.simps [simp del]

definition break_at_line :: "nat \<Rightarrow> program \<Rightarrow> int \<Rightarrow> ustr \<Rightarrow> debugger \<Rightarrow> debugger_error + nat \<times> debugger" where
  "break_at_line sep P line file d =
     (let wanted = (if file \<noteq> [] then file else entry_file P); is = functions_in_file sep P wanted in
      if is = [] then Inl (NoSourceFile wanted)
      else case place_on_line P is line of
        None \<Rightarrow> Inl (NoCodeAfter line wanted)
      | Some (i, p, l) \<Rightarrow> Inr (add_breakpoint P (int p) i l d))"

definition clear_breakpoints :: "debugger \<Rightarrow> debugger" where
  "clear_breakpoints d = d\<lparr>breakpoints := [], by_pc := []\<rparr>"

definition remove_breakpoint :: "nat \<Rightarrow> debugger \<Rightarrow> debugger_error + debugger" where
  "remove_breakpoint i d =
     (case map_of (breakpoints d) i of
        None \<Rightarrow> Inl (NoBreakpoint i)
      | Some bp \<Rightarrow> Inr (d\<lparr>breakpoints := filter (\<lambda>p. fst p \<noteq> i) (breakpoints d),
          by_pc := filter (\<lambda>p. fst p \<noteq> bp_pc bp) (by_pc d)\<rparr>))"

definition set_enabled :: "nat \<Rightarrow> bool \<Rightarrow> debugger \<Rightarrow> debugger_error + debugger" where
  "set_enabled i on d =
     (case map_of (breakpoints d) i of
        None \<Rightarrow> Inl (NoBreakpoint i)
      | Some bp \<Rightarrow> Inr (d\<lparr>breakpoints := dict_set i (bp\<lparr>bp_enabled := on\<rparr>) (breakpoints d)\<rparr>))"

section \<open>Frames\<close>

definition view :: "program \<Rightarrow> nat \<Rightarrow> nat \<times> int \<times> nat list \<Rightarrow> host_error + frame_view" where
  "view P depth e = (case e of (i, p, slots) \<Rightarrow>
     bindR (lookup (srcmap P) p) (\<lambda>pos. Inr \<lparr>fv_depth = depth, fv_fn = i,
       fv_function = (if i < length (fns P) then fn_name (fns P ! i) else lit ''<function '' @ dec_nat i @ lit ''>''),
       fv_file = (if i < length (fns P) then source_file (fns P ! i) else []), fv_pc = p,
       fv_line = map_option fst pos, fv_col = map_option snd pos, fv_locals = slots\<rparr>))"

text \<open>The call stack, innermost first; a suspended caller is at its \<open>CALL\<close>.\<close>

definition frames :: "program \<Rightarrow> 'w vm \<Rightarrow> vm_error + frame_view list" where
  "frames P s = lift_host (mapR (\<lambda>(depth, e). view P depth e)
     (enumerate 0 ((current_fn s, pc s, locals s) # map (\<lambda>f. (fn_index f, return_pc f - 1, frame_locals f)) (call_stack s))))"

definition innermost :: "program \<Rightarrow> 'w vm \<Rightarrow> vm_error + frame_view" where
  "innermost P s = bindR (frames P s) (\<lambda>fs. Inr (hd fs))"

definition locals_of :: "program \<Rightarrow> frame_view \<Rightarrow> local_info list" where
  "locals_of P f = (if fv_fn f < length (fns P) then fn_locals (fns P ! fv_fn f) else [])"

definition lookup_name :: "program \<Rightarrow> frame_view \<Rightarrow> ustr \<Rightarrow> local_info list" where
  "lookup_name P f name = filter (\<lambda>li. li_name li = name) (locals_of P f)"

section \<open>Running\<close>

text \<open>How a run under the debugger can be cut short, besides a fault of the program.\<close>

datatype cut = Quit | ResumeNotChosen | HostFails vm_error

text \<open>The front end's answer: what it raised, if anything, and the debugger it leaves.\<close>

type_synonym ('w, 'f) front_end = "stop \<Rightarrow> 'w vm \<Rightarrow> debugger \<Rightarrow> 'f \<Rightarrow> cut option \<times> debugger \<times> 'f"

definition current_line :: "program \<Rightarrow> 'w vm \<Rightarrow> vm_error + int option" where
  "current_line P s = bindR (lift_host (lookup (srcmap P) (pc s))) (\<lambda>pos. Inr (map_option fst pos))"

definition resume :: "program \<Rightarrow> mode \<Rightarrow> 'w vm \<Rightarrow> nat \<Rightarrow> debugger \<Rightarrow> vm_error + debugger" where
  "resume P m s depth d = bindR (current_line P s) (\<lambda>line.
     Inr (d\<lparr>dmode := Some m, from_depth := int (length (call_stack s)) - int depth, from_line := line\<rparr>))"

text \<open>\<open>_stop\<close>: the mode is cleared before the front end is asked and checked after it.\<close>

definition hand_over :: "('w, 'f) front_end \<Rightarrow> stop \<Rightarrow> 'w vm \<Rightarrow> debugger \<Rightarrow> 'f \<Rightarrow> cut option \<times> debugger \<times> 'f" where
  "hand_over FE st s d f = (case FE st s (d\<lparr>dmode := None\<rparr>) f of (raised, d', f') \<Rightarrow>
     (case raised of Some c \<Rightarrow> Some c | None \<Rightarrow> if dmode d' = None then Some ResumeNotChosen else None, d', f'))"

text \<open>\<open>_run_to_completion\<close>, the front end of a debugger that is given none.\<close>

definition run_to_completion :: "program \<Rightarrow> ('w, 'f) front_end" where
  "run_to_completion P st s d f = (case resume P RunFree s 0 d of
     Inl e \<Rightarrow> (Some (HostFails e), d, f)
   | Inr d' \<Rightarrow> (None, d', f))"

definition stop_with :: "('w, 'f) front_end \<Rightarrow> program \<Rightarrow> stop_reason \<Rightarrow> breakpoint option \<Rightarrow> vm_error option \<Rightarrow> 'w vm
    \<Rightarrow> debugger \<Rightarrow> 'f \<Rightarrow> cut option \<times> debugger \<times> 'f" where
  "stop_with FE P why bp err s d f = (case innermost P s of
     Inl e \<Rightarrow> (Some (HostFails e), d, f)
   | Inr fr \<Rightarrow> hand_over FE \<lparr>stop_why = why, stop_frame = fr, stop_breakpoint = bp, stop_error = err\<rparr> s d f)"

text \<open>The condition of a step: the source line and the call depth against those it began at.\<close>

definition step_over :: "mode \<Rightarrow> int \<Rightarrow> int \<Rightarrow> int option \<Rightarrow> int option \<Rightarrow> bool" where
  "step_over m depth from_d line from_l \<longleftrightarrow> (case m of
     FinishFrame \<Rightarrow> depth < from_d
   | StepOver \<Rightarrow> depth < from_d \<or> depth = from_d \<and> line \<noteq> from_l
   | _ \<Rightarrow> depth \<noteq> from_d \<or> line \<noteq> from_l)"

definition breakpoint_here :: "debugger \<Rightarrow> 'w vm \<Rightarrow> breakpoint option" where
  "breakpoint_here d s = (case map_of (by_pc d) (pc s) of
     None \<Rightarrow> None
   | Some i \<Rightarrow> (case map_of (breakpoints d) i of Some bp \<Rightarrow> if bp_enabled bp then Some bp else None | None \<Rightarrow> None))"

text \<open>\<open>_on_instruction\<close>.\<close>

definition on_instruction :: "('w, 'f) front_end \<Rightarrow> program \<Rightarrow> 'w vm \<Rightarrow> debugger \<Rightarrow> 'f \<Rightarrow> cut option \<times> debugger \<times> 'f" where
  "on_instruction FE P s d f =
     (if pause_requested d then stop_with FE P PauseStop None None s (d\<lparr>pause_requested := False\<rparr>) f
      else case breakpoint_here d s of
        Some bp \<Rightarrow> let bp' = bp\<lparr>bp_hits := bp_hits bp + 1\<rparr> in
          stop_with FE P BreakpointStop (Some bp') None s (d\<lparr>breakpoints := dict_set (bp_id bp) bp' (breakpoints d)\<rparr>) f
      | None \<Rightarrow> (case dmode d of
          Some RunFree \<Rightarrow> (None, d, f)
        | Some AtEntry \<Rightarrow> stop_with FE P EntryStop None None s d f
        | m \<Rightarrow> (case current_line P s of
            Inl e \<Rightarrow> (Some (HostFails e), d, f)
          | Inr line \<Rightarrow>
              if step_over (case m of Some k \<Rightarrow> k | None \<Rightarrow> StepIn) (int (length (call_stack s))) (from_depth d) line (from_line d)
              then stop_with FE P StepStop None None s d f else (None, d, f))))"

datatype ('w, 'f) debug_result =
    Ended int "'w vm" debugger 'f
  | Faulting vm_error "'w vm" debugger 'f
  | CutShort cut "'w vm" debugger 'f
  | StillGoing "'w vm" debugger 'f

text \<open>
  The loop of the machine with the hook in place. A fault stops one last time, the front end seeing
  the machine past the instruction that raised; \<open>others\<close> is what the other threads do between two
  instructions.
\<close>

definition fault_stop :: "('w, 'f) front_end \<Rightarrow> program \<Rightarrow> vm_error \<Rightarrow> 'w vm \<Rightarrow> 'w vm \<Rightarrow> debugger \<Rightarrow> 'f
    \<Rightarrow> ('w, 'f) debug_result" where
  "fault_stop FE P e s seen d f = (case e of
     Host _ \<Rightarrow> Faulting e s d f
   | VMError _ \<Rightarrow> (case stop_with FE P FaultStop None (Some e) seen d f of
       (Some c, d', f') \<Rightarrow> CutShort c s d' f'
     | (None, d', f') \<Rightarrow> Faulting e s d' f'))"

fun debug_run :: "'w io_ops \<Rightarrow> program \<Rightarrow> ('w, 'f) front_end \<Rightarrow> (debugger \<Rightarrow> 'f \<Rightarrow> debugger \<times> 'f) \<Rightarrow> nat \<Rightarrow> 'w vm
    \<Rightarrow> debugger \<Rightarrow> 'f \<Rightarrow> ('w, 'f) debug_result" where
  "debug_run ops P FE others 0 s d f = StillGoing s d f"
| "debug_run ops P FE others (Suc n) s d f =
     (if int (length (code P)) \<le> pc s then Ended 0 s d f
      else case others d f of (d0, f0) \<Rightarrow>
        (case on_instruction FE P s d0 f0 of
           (Some c, d1, f1) \<Rightarrow> CutShort c s d1 f1
         | (None, d1, f1) \<Rightarrow>
             (case step ops P s of
                Inl e \<Rightarrow> fault_stop FE P e s (s\<lparr>pc := pc s + 1\<rparr>) d1 f1
              | Inr (Finished v s') \<Rightarrow> Ended v s' d1 f1
              | Inr (Running s') \<Rightarrow> debug_run ops P FE others n s' d1 f1)))"

definition debug_main :: "'w io_ops \<Rightarrow> program \<Rightarrow> ('w, 'f) front_end \<Rightarrow> (debugger \<Rightarrow> 'f \<Rightarrow> debugger \<times> 'f) \<Rightarrow> nat \<Rightarrow> 'w vm
    \<Rightarrow> debugger \<Rightarrow> 'f \<Rightarrow> ('w, 'f) debug_result" where
  "debug_main ops P FE others fuel s d f = (case boot P s of
     Inl e \<Rightarrow> fault_stop FE P e s s d f
   | Inr s1 \<Rightarrow> debug_run ops P FE others fuel s1 d f)"

end
