(* ===== verification/DebugValues.thy ===== *)
theory DebugValues
  imports Debugger Types
begin

text \<open>
  What the debugger shows of a value, \<open>runtime/debugger.py\<close>: slots and heap words described by
  their declared type, one level at a time or flattened on one line; and the backtrace the machine
  puts on a fault, \<open>runtime/vm.py\<close>.
\<close>

section \<open>Values\<close>

datatype value_kind = ScalarValue | StructValue | VariantValue | ArrayValue

datatype dvalue = DValue (summary: ustr) (shown_type: ustr) (value_kind: value_kind) (address: nat) (object_name: ustr)
  (elements: "(ustr \<times> dvalue) list")

definition ARRAY_PREVIEW :: nat where "ARRAY_PREVIEW = 32"

definition MAX_STRUCT_DEPTH :: nat where "MAX_STRUCT_DEPTH = 3"

definition scalar :: "ustr \<Rightarrow> ustr \<Rightarrow> dvalue" where
  "scalar txt ty = DValue txt ty ScalarValue 0 [] []"

definition expandable :: "dvalue \<Rightarrow> bool" where
  "expandable v \<longleftrightarrow> value_kind v \<noteq> ScalarValue"

text \<open>\<open>[i]\<close>, the name an element goes by.\<close>

definition index_name :: "nat \<Rightarrow> ustr" where
  "index_name i = lit ''['' @ dec_nat i @ lit '']''"

text \<open>\<open><T at ref>\<close>, what is shown of an object that is not read.\<close>

definition at_address :: "ustr \<Rightarrow> nat \<Rightarrow> ustr" where
  "at_address what ref = lit ''<'' @ what @ lit '' at '' @ dec_nat ref @ lit ''>''"

text \<open>\<open>except (VMError, IndexError)\<close>, and \<open>except IndexError\<close> alone.\<close>

definition unless_broken :: "'a \<Rightarrow> vm_error + 'a \<Rightarrow> vm_error + 'a" where
  "unless_broken x r = (case r of Inl (VMError f) \<Rightarrow> Inr x | Inl (Host IndexError) \<Rightarrow> Inr x | r' \<Rightarrow> r')"

definition unless_outside :: "'a \<Rightarrow> vm_error + 'a \<Rightarrow> vm_error + 'a" where
  "unless_outside x r = (case r of Inl (Host IndexError) \<Rightarrow> Inr x | r' \<Rightarrow> r')"

section \<open>Reading\<close>

definition layout_at :: "program \<Rightarrow> 'w vm \<Rightarrow> nat \<Rightarrow> vm_error + struct_layout option" where
  "layout_at P s ref =
     (if ref < HEADER_BYTES then Inr None
      else unless_outside None (bindR (kind s (ref - HEADER_BYTES)) (\<lambda>k.
        if k \<noteq> KIND_STRUCT then Inr None
        else bindR (detail s (ref - HEADER_BYTES)) (\<lambda>type_id.
          Inr (if type_id < length (structs P) then structs P ! type_id else None)))))"

definition float_text :: "nat \<Rightarrow> nat \<Rightarrow> vm_error + ustr" where
  "float_text low high = lift_host (format_float (bits_to_float (semiring_bit_operations_class.or low (push_bit 16 high))))"

definition describe_object :: "program \<Rightarrow> 'w vm \<Rightarrow> nat \<Rightarrow> ustr \<Rightarrow> vm_error + dvalue" where
  "describe_object P s ref ty =
     (if ref = 0 then Inr (scalar (lit ''null'') ty)
      else bindR (layout_at P s ref) (\<lambda>found. case found of
        None \<Rightarrow> Inr (scalar (at_address ty ref) ty)
      | Some l \<Rightarrow>
          if sl_fields l = [] then
            (if is_variant l then Inr (DValue (sl_name l) ty ScalarValue 0 (sl_name l) [])
             else Inr (scalar (at_address ty ref) ty))
          else if is_variant l then Inr (DValue (sl_name l @ lit ''('' @ [8230] @ lit '')'') ty VariantValue ref (sl_name l) [])
          else Inr (DValue (sl_name l @ lit '' {'' @ [8230] @ lit ''}'') ty StructValue ref (sl_name l) [])))"

text \<open>The word of a field, read by \<open>word\<close>, or the two words of a float.\<close>

definition read_field :: "'w vm \<Rightarrow> nat \<Rightarrow> ustr \<Rightarrow> (nat \<Rightarrow> vm_error + dvalue) \<Rightarrow> vm_error + dvalue" where
  "read_field s addr ty word = unless_broken (scalar (lit ''<unreadable>'') ty)
     (if ty = lit ''float'' then bindR (read_word s addr) (\<lambda>low. bindR (read_word s (addr + 2)) (\<lambda>high.
        bindR (float_text low high) (\<lambda>t. Inr (scalar t ty))))
      else bindR (read_word s addr) word)"

definition is_array_name :: "ustr \<Rightarrow> bool" where
  "is_array_name ty \<longleftrightarrow> starts_with (lit ''Array<'') ty \<and> ends_with (lit ''>'') ty"

definition element_name :: "ustr \<Rightarrow> ustr" where
  "element_name ty = drop 6 (butlast ty)"

text \<open>A heap array, its elements read by \<open>element\<close> from their addresses.\<close>

definition describe_array :: "'w vm \<Rightarrow> nat \<Rightarrow> ustr \<Rightarrow> (nat \<Rightarrow> vm_error + dvalue) \<Rightarrow> vm_error + dvalue" where
  "describe_array s ref ty element =
     (if ref = 0 then Inr (scalar (lit ''null'') ty)
      else bindR (unless_broken None (bindR (array_at ref (lit ''print'') s) (\<lambda>(_, count, _). Inr (Some count)))) (\<lambda>found.
        case found of
          None \<Rightarrow> Inr (scalar (at_address ty ref) ty)
        | Some count \<Rightarrow>
            bindR (mapR (\<lambda>i. bindR (element (ref + i * 2)) (\<lambda>v. Inr (index_name i, v))) [0..<min count ARRAY_PREVIEW]) (\<lambda>es.
              let inner = join (lit '', '') (map (summary \<circ> snd) es) @
                (if ARRAY_PREVIEW < count then lit '', '' @ [8230] @ lit '' '' @ dec_nat (count - ARRAY_PREVIEW) @ lit '' more'' else [])
              in Inr (DValue (lit ''['' @ inner @ lit '']'') ty ArrayValue ref [] es))))"

lemma element_name_shorter: "is_array_name ty \<Longrightarrow> length (element_name ty) < length ty"
  by (auto simp: is_array_name_def element_name_def starts_with_def lit_def dest: arg_cong [where f = length])

function describe_word :: "program \<Rightarrow> 'w vm \<Rightarrow> nat \<Rightarrow> ustr \<Rightarrow> vm_error + dvalue" where
  "describe_word P s word ty =
     (if ty = lit ''bool'' then Inr (scalar (if word \<noteq> 0 then lit ''true'' else lit ''false'') ty)
      else if ty = lit ''str'' then
        (if word = 0 then Inr (scalar (lit ''null'') ty)
         else unless_broken (scalar (lit ''<unreadable str at '' @ dec_nat word @ lit ''>'') ty)
           (bindR (string_text word s) (\<lambda>t. Inr (scalar ([34] @ t @ [34]) ty))))
      else if ty \<in> {lit ''int'', lit ''heapptr'', lit ''ptr''} then Inr (scalar (dec_int (to_signed word)) ty)
      else if starts_with (lit ''fn('') ty then
        Inr (scalar (if word < length (fns P) then fn_name (fns P ! word)
          else lit ''<function '' @ dec_int (to_signed word) @ lit ''>'') ty)
      else if is_array_name ty then
        describe_array s word ty (\<lambda>addr. read_field s addr (element_name ty) (\<lambda>w. describe_word P s w (element_name ty)))
      else describe_object P s word ty)"
  by pat_completeness auto
termination
  by (relation "measure (\<lambda>(P, s, word, ty). length ty)") (auto intro: element_name_shorter)

declare describe_word.simps [simp del]

definition describe_field :: "program \<Rightarrow> 'w vm \<Rightarrow> nat \<Rightarrow> ustr \<Rightarrow> vm_error + dvalue" where
  "describe_field P s addr ty = read_field s addr ty (\<lambda>w. describe_word P s w ty)"

definition slot_word :: "nat list \<Rightarrow> nat \<Rightarrow> nat" where
  "slot_word slots i = (if i < length slots then slots ! i else 0)"

text \<open>The value that fills \<open>words\<close> slots; the type of an \<open>int[N]\<close> names its elements up to the bracket.\<close>

function describe_slots :: "program \<Rightarrow> 'w vm \<Rightarrow> nat list \<Rightarrow> nat \<Rightarrow> ustr \<Rightarrow> nat \<Rightarrow> vm_error + dvalue" where
  "describe_slots P s slots slot ty words =
     (if ends_with (lit '']'') ty then
        (if 91 \<notin> set ty then raise_host ValueError
         else bindR (mapR (\<lambda>i. bindR (describe_slots P s slots (slot + i) (takeWhile (\<lambda>c. c \<noteq> 91) ty) 1) (\<lambda>v.
                Inr (index_name i, v))) [0..<words]) (\<lambda>es.
           Inr (DValue (lit ''['' @ join (lit '', '') (map (summary \<circ> snd) es) @ lit '']'') ty ArrayValue 0 [] es)))
      else if ty = lit ''float'' then
        bindR (float_text (slot_word slots slot) (slot_word slots (slot + 1))) (\<lambda>t. Inr (scalar t ty))
      else describe_word P s (slot_word slots slot) ty)"
  by pat_completeness auto
termination
proof (relation "measure (\<lambda>(P, s, slots, slot, ty, words). length ty)", simp, clarsimp)
  fix ty :: ustr assume "91 \<in> set ty"
  then have "takeWhile (\<lambda>c. c \<noteq> 91) ty \<noteq> ty" by (metis (mono_tags) set_takeWhileD)
  then show "length (takeWhile (\<lambda>c. c \<noteq> 91) ty) < length ty"
    by (metis length_takeWhile_le le_neq_implies_less takeWhile_eq_take take_all_iff order_refl)
qed

declare describe_slots.simps [simp del]

definition describe_local :: "program \<Rightarrow> 'w vm \<Rightarrow> frame_view \<Rightarrow> local_info \<Rightarrow> vm_error + dvalue" where
  "describe_local P s fr li = describe_slots P s (fv_locals fr) (li_slot li) (li_type_name li) (li_words li)"

text \<open>One level of a value. The payload of a variant is numbered, the fields of a struct are named.\<close>

definition children_of :: "program \<Rightarrow> 'w vm \<Rightarrow> dvalue \<Rightarrow> vm_error + (ustr \<times> dvalue) list" where
  "children_of P s v =
     (if value_kind v = ArrayValue then Inr (elements v)
      else if address v = 0 then Inr []
      else bindR (layout_at P s (address v)) (\<lambda>found. case found of
        None \<Rightarrow> Inr []
      | Some l \<Rightarrow> mapR (\<lambda>(i, f).
          bindR (describe_field P s (address v + fl_offset f * 2) (fl_type_name f)) (\<lambda>c.
            Inr (if value_kind v = VariantValue then index_name i else fl_name f, c))) (enumerate 0 (sl_fields l))))"

function flatten :: "program \<Rightarrow> 'w vm \<Rightarrow> dvalue \<Rightarrow> nat \<Rightarrow> vm_error + ustr" where
  "flatten P s v depth =
     (case value_kind v of
        ScalarValue \<Rightarrow> Inr (summary v)
      | ArrayValue \<Rightarrow> bindR (children_of P s v) (\<lambda>cs.
          bindR (mapR (\<lambda>c. flatten P s c depth) (map snd cs)) (\<lambda>ts. Inr (lit ''['' @ join (lit '', '') ts @ lit '']'')))
      | k \<Rightarrow>
          if MAX_STRUCT_DEPTH \<le> depth then Inr (at_address (object_name v) (address v))
          else bindR (children_of P s v) (\<lambda>cs.
            bindR (mapR (\<lambda>c. flatten P s c (depth + 1)) (map snd cs)) (\<lambda>ts.
              Inr (if k = VariantValue then object_name v @ lit ''('' @ join (lit '', '') ts @ lit '')''
                else object_name v @ lit '' { '' @ join (lit '', '') (map2 (\<lambda>(name, _) t. name @ lit '': '' @ t) cs ts) @ lit '' }''))))"
  by pat_completeness auto
termination
proof (relation "measures [\<lambda>(P, s, v, depth). MAX_STRUCT_DEPTH - depth, \<lambda>(P, s, v, depth). size v]", simp_all)
  fix P :: program and s :: "'w vm" and v c cs
  assume "children_of P s v = Inr cs" "value_kind v = ArrayValue" "c \<in> snd ` set cs"
  then obtain n where "(n, c) \<in> set (elements v)" by (auto simp: children_of_def)
  then show "size c < size v" by (cases v) (auto dest!: split_list)
qed auto

declare flatten.simps [simp del]

definition format_local :: "program \<Rightarrow> 'w vm \<Rightarrow> frame_view \<Rightarrow> local_info \<Rightarrow> vm_error + ustr" where
  "format_local P s fr li = bindR (describe_local P s fr li) (\<lambda>v. flatten P s v 0)"

end
