(* ===== verification/Backtrace.thy ===== *)
theory Backtrace
  imports Interp Types
begin

text \<open>
  Where a fault happened: \<open>_call_frames\<close>, \<open>_short_path\<close> and \<open>_locate\<close> of \<open>runtime/vm.py\<close>, which
  \<open>run_main\<close> applies to every fault of the program. What \<open>os.path.relpath\<close> answers against the
  working directory, and the path separator, are the host's.
\<close>

record host_paths =
  hp_relative :: "ustr \<Rightarrow> ustr option"
  hp_sep :: nat

text \<open>A fault with its text and what \<open>_locate\<close> adds.\<close>

record located_error =
  le_message :: ustr
  le_location :: ustr
  le_frames :: "(nat \<times> int) list"

text \<open>Innermost first: the fetch has moved past the faulting instruction, a caller past its call.\<close>

definition call_frames :: "'w vm \<Rightarrow> (nat \<times> int) list" where
  "call_frames s = (current_fn s, pc s - 1) # map (\<lambda>f. (fn_index f, return_pc f - 1)) (call_stack s)"

definition function_label :: "program \<Rightarrow> nat \<Rightarrow> ustr" where
  "function_label P i = (if i < length (fns P) then fn_name (fns P ! i) else lit ''<function '' @ dec_nat i @ lit ''>'')"

definition function_file :: "program \<Rightarrow> nat \<Rightarrow> ustr" where
  "function_file P i = (if i < length (fns P) then source_file (fns P ! i) else [])"

definition short_path :: "host_paths \<Rightarrow> ustr \<Rightarrow> ustr" where
  "short_path H path =
     (if path = [] then []
      else case hp_relative H path of
        None \<Rightarrow> path
      | Some relative \<Rightarrow>
          if length path < length relative then path
          else map (\<lambda>c. if c = hp_sep H then 47 else c) relative)"

definition pad_right :: "nat \<Rightarrow> ustr \<Rightarrow> ustr" where
  "pad_right width name = name @ replicate (width - length name) 32"

definition spans_files :: "program \<Rightarrow> (nat \<times> int) list \<Rightarrow> bool" where
  "spans_files P fs \<longleftrightarrow> 1 < length (remdups (map (function_file P \<circ> fst) fs))"

text \<open>One line of the trace.\<close>

definition trace_line :: "host_paths \<Rightarrow> program \<Rightarrow> bool \<Rightarrow> nat \<Rightarrow> nat \<times> int \<Rightarrow> host_error + ustr" where
  "trace_line H P spans width fr =
     bindR (lookup (srcmap P) (snd fr)) (\<lambda>pos.
       let here = (case pos of
           None \<Rightarrow> []
         | Some (line, _) \<Rightarrow>
             if spans then lit '' ('' @ short_path H (function_file P (fst fr)) @ lit '':'' @ dec_int line @ lit '')''
             else lit '' (line '' @ dec_int line @ lit '')'')
       in Inr (lit ''  at '' @ pad_right width (function_label P (fst fr)) @ here))"

definition head_line :: "host_paths \<Rightarrow> program \<Rightarrow> bool \<Rightarrow> ustr \<Rightarrow> nat \<Rightarrow> ustr \<Rightarrow> ustr" where
  "head_line H P spans loc i message =
     (let file = short_path H (function_file P i);
          head_in = lit ''in '' @ function_label P i @ (if spans \<and> file \<noteq> [] then lit '' ('' @ file @ lit '')'' else [])
      in join (lit '' '') (filter (\<lambda>part. part \<noteq> []) [loc, head_in @ lit '':'']) @ lit '' '' @ message)"

definition locate :: "host_paths \<Rightarrow> program \<Rightarrow> 'w vm \<Rightarrow> located_error \<Rightarrow> host_error + located_error" where
  "locate H P s e =
     (if le_location e \<noteq> [] then Inr e
      else let fs = call_frames s; spans = spans_files P fs in
        bindR (describe (srcmap P) (snd (hd fs))) (\<lambda>loc.
        bindR (if 1 < length fs
               then mapR (trace_line H P spans (Max (set (map (length \<circ> function_label P \<circ> fst) fs)))) fs
               else Inr []) (\<lambda>trace.
          Inr \<lparr>le_message = join [10] (head_line H P spans loc (fst (hd fs)) (le_message e) # trace),
            le_location = loc, le_frames = fs\<rparr>)))"

end
