(* ===== verification/Debugging.thy ===== *)
theory Debugging
  imports DebugValues Backtrace Frames
begin

text \<open>
  What the debugger promises: a program runs under it as it runs without it, a step stops at the
  first instruction its condition names, a breakpoint on a line lands on the first code of that line
  or of the next that has any, the table of breakpoints stays consistent, and showing a value never
  fails on what the heap holds.
\<close>

section \<open>Looking positions up\<close>

lemma lookup_total:
  assumes "source_map_wf (srcmap P)"
  obtains pos where "lookup (srcmap P) p = Inr pos"
  using position_at_zip [OF assms] by blast

lemma current_line_total: "source_map_wf (srcmap P) \<Longrightarrow> \<exists>line. current_line P s = Inr line"
  by (rule lookup_total [of P "pc s"]) (auto simp: current_line_def lift_host_def)

lemma resume_total: "source_map_wf (srcmap P) \<Longrightarrow> \<exists>d'. resume P m s k d = Inr d' \<and> dmode d' = Some m"
  using current_line_total [of P s] by (auto simp: resume_def)

lemma innermost_total: "source_map_wf (srcmap P) \<Longrightarrow> \<exists>fr. innermost P s = Inr fr"
proof -
  assume wf: "source_map_wf (srcmap P)"
  have "\<exists>v. view P n e = Inr v" for n e
    by (cases e, rule lookup_total [OF wf, of "fst (snd e)"]) (auto simp: view_def)
  then have "\<exists>g. \<forall>n e. view P n e = Inr (g (n, e))" by (metis case_prod_conv)
  then obtain g where "\<And>n e. view P n e = Inr (g (n, e))" by blast
  then have "frames P s = Inr (map g (enumerate 0 ((current_fn s, pc s, locals s) # map (\<lambda>f. (fn_index f, return_pc f - 1, frame_locals f)) (call_stack s))))"
    by (auto simp: frames_def lift_host_def mapR_Inr [where g = g] simp del: enumerate_simps)
  then show ?thesis by (simp add: innermost_def)
qed

section \<open>Transparency\<close>

text \<open>What is left of a run under the debugger once the debugger is forgotten.\<close>

fun outcome_of :: "('w, 'f) debug_result \<Rightarrow> 'w run_result option" where
  "outcome_of (Ended v s d f) = Some (Exit v s)"
| "outcome_of (Faulting e s d f) = Some (Fault e s)"
| "outcome_of (StillGoing s d f) = Some (OutOfFuel s)"
| "outcome_of (CutShort c s d f) = None"

text \<open>A front end that answers every stop by choosing how to go on, given a source map it can read.\<close>

locale answering_front_end =
  fixes FE :: "('w, 'f) front_end" and P :: program
  assumes raises_nothing: "source_map_wf (srcmap P) \<Longrightarrow> fst (FE st s d f) = None"
    and chooses: "source_map_wf (srcmap P) \<Longrightarrow> dmode (fst (snd (FE st s d f))) \<noteq> None"
begin

lemma stop_goes_on: "source_map_wf (srcmap P) \<Longrightarrow> fst (stop_with FE P why bp err s d f) = None"
  using innermost_total [of P s] raises_nothing chooses
  by (auto simp: stop_with_def hand_over_def split: prod.splits option.splits) (metis fst_conv snd_conv option.distinct(1))+

lemma instruction_goes_on: "source_map_wf (srcmap P) \<Longrightarrow> fst (on_instruction FE P s d f) = None"
  using current_line_total [of P s] stop_goes_on
  by (auto simp: on_instruction_def Let_def split: option.splits mode.splits sum.splits)

lemma fault_reported: "source_map_wf (srcmap P) \<Longrightarrow> outcome_of (fault_stop FE P e s seen d f) = Some (Fault e s)"
  using stop_goes_on [of FaultStop None "Some e" seen d f]
  by (auto simp: fault_stop_def split: vm_error.splits prod.splits option.splits)

lemma run_transparent: "source_map_wf (srcmap P) \<Longrightarrow> outcome_of (debug_run ops P FE others n s d f) = Some (run ops P n s)"
proof (induction n arbitrary: s d f)
  case (Suc n)
  obtain d0 f0 where others: "others d f = (d0, f0)" by fastforce
  obtain d1 f1 where "on_instruction FE P s d0 f0 = (None, d1, f1)"
    using instruction_goes_on [OF Suc.prems, of s d0 f0] by (metis fst_conv prod.exhaust)
  then show ?case
    by (auto simp: others step_def Suc.IH [OF Suc.prems] fault_reported [OF Suc.prems] split: sum.splits outcome.splits)
qed simp

end

lemma run_to_completion_answers:
  assumes "source_map_wf (srcmap P)"
  shows "fst (run_to_completion P st s d f) = None" "dmode (fst (snd (run_to_completion P st s d f))) \<noteq> None"
  using resume_total [OF assms, of RunFree s 0 d] by (auto simp: run_to_completion_def)

interpretation unattended: answering_front_end "run_to_completion P" P for P :: program
  by unfold_locales (rule run_to_completion_answers, assumption)+

section \<open>Stepping\<close>

text \<open>The instruction at which the hook has nothing to say.\<close>

definition passes :: "program \<Rightarrow> debugger \<Rightarrow> 'w vm \<Rightarrow> bool" where
  "passes P d s \<longleftrightarrow> \<not> pause_requested d \<and> breakpoint_here d s = None
     \<and> (case dmode d of
          Some RunFree \<Rightarrow> True
        | Some AtEntry \<Rightarrow> False
        | m \<Rightarrow> (case current_line P s of
            Inl e \<Rightarrow> False
          | Inr line \<Rightarrow> \<not> step_over (case m of Some k \<Rightarrow> k | None \<Rightarrow> StepIn) (int (length (call_stack s))) (from_depth d) line (from_line d)))"

lemma passes_quietly: "passes P d s \<Longrightarrow> on_instruction FE P s d f = (None, d, f)"
  by (auto simp: passes_def on_instruction_def split: option.splits mode.splits sum.splits)

lemma run_Suc_OutOfFuel:
  "run ops P (Suc n) s = OutOfFuel u \<longleftrightarrow> (\<exists>t. step ops P s = Inr (Running t) \<and> run ops P n t = OutOfFuel u)"
  by (auto split: sum.splits outcome.splits)

lemma running_below_end: "step ops P s = Inr (Running t) \<Longrightarrow> pc s < int (length (code P))"
  by (auto simp: step_def split: if_splits)

lemma debug_run_passes:
  assumes "run ops P n s = OutOfFuel u" and "\<And>k t. k < n \<Longrightarrow> run ops P k s = OutOfFuel t \<Longrightarrow> passes P d t"
  shows "debug_run ops P FE Pair (n + m) s d f = debug_run ops P FE Pair m u d f"
  using assms
proof (induction n arbitrary: s)
  case (Suc n)
  then obtain t where t: "step ops P s = Inr (Running t)" "run ops P n t = OutOfFuel u"
    by (auto simp: run_Suc_OutOfFuel simp del: run.simps)
  have "passes P d t'" if "k < n" "run ops P k t = OutOfFuel t'" for k t'
    using Suc.prems(2) [of "Suc k"] that t(1) by (simp add: run_Suc_OutOfFuel del: run.simps)
  then have IH: "debug_run ops P FE Pair (n + m) t d f = debug_run ops P FE Pair m u d f"
    by (intro Suc.IH t(2)) auto
  have "passes P d s" using Suc.prems(2) [of 0 s] by simp
  with running_below_end [OF t(1)] IH show ?case by (simp add: passes_quietly t(1))
qed simp

lemma stop_step:
  assumes "\<not> pause_requested d" and "breakpoint_here d u = None" and "dmode d = Some m" and "m \<in> {StepIn, StepOver, FinishFrame}"
    and "current_line P u = Inr line" and "step_over m (int (length (call_stack u))) (from_depth d) line (from_line d)"
  shows "on_instruction FE P u d f = stop_with FE P StepStop None None u d f"
  using assms by (auto simp: on_instruction_def)


section \<open>Where a line breakpoint lands\<close>

text \<open>The marked pcs of a line in the functions \<open>is\<close>.\<close>

definition spots :: "program \<Rightarrow> nat list \<Rightarrow> int \<Rightarrow> nat set" where
  "spots P is l = {p. \<exists>j < length (pcs (srcmap P)). pcs (srcmap P) ! j = p \<and> fst (positions (srcmap P) ! j) = l
     \<and> (\<exists>i \<in> set is. fst (range_of P i) \<le> p \<and> p < snd (range_of P i))}"

lemma spots_Cons: "spots P (i # is) l = spots P [i] l \<union> spots P is l"
  by (auto simp: spots_def)

lemma spots_set: "set is = set js \<Longrightarrow> spots P is l = spots P js l"
  by (simp add: spots_def)

definition marked :: "source_map \<Rightarrow> int \<Rightarrow> nat \<Rightarrow> nat \<Rightarrow> nat list" where
  "marked m line start stop = [p. (p, (l, col)) \<leftarrow> zip (pcs m) (positions m), l = line \<and> in_pc_range start (Some stop) p]"

lemma marked_iff:
  assumes "source_map_wf m"
  shows "p \<in> set (marked m line start stop)
    \<longleftrightarrow> (\<exists>j < length (pcs m). pcs m ! j = p \<and> fst (positions m ! j) = line \<and> start \<le> p \<and> p < stop)"
proof -
  have "length (pcs m) = length (positions m)" using assms by (simp add: source_map_wf_def)
  moreover have "p \<in> set (marked m line start stop) \<longleftrightarrow> start \<le> p \<and> p < stop \<and> (\<exists>col. (p, (line, col)) \<in> set (zip (pcs m) (positions m)))"
    by (auto simp: marked_def in_pc_range_def split: if_splits)
  ultimately show ?thesis by (auto simp: set_zip) (metis fst_conv, metis prod.collapse)
qed

lemma first_pc_marked:
  "first_pc_on_line m line start (Some stop) = (case marked m line start stop of [] \<Rightarrow> None | c # cs \<Rightarrow> Some (fold min cs c))"
  by (simp only: first_pc_on_line_def marked_def)

lemma marked_spots: "source_map_wf (srcmap P) \<Longrightarrow> set (marked (srcmap P) l (fst (range_of P i)) (snd (range_of P i))) = spots P [i] l"
  by (auto simp: marked_iff spots_def)

lemma line_pc_marked:
  "line_pc P l i = (case marked (srcmap P) l (fst (range_of P i)) (snd (range_of P i)) of [] \<Rightarrow> None | c # cs \<Rightarrow> Some (fold min cs c))"
  by (simp add: line_pc_def split_beta first_pc_marked)

lemma line_pc_None: "source_map_wf (srcmap P) \<Longrightarrow> line_pc P l i = None \<longleftrightarrow> spots P [i] l = {}"
  unfolding line_pc_marked by (simp flip: marked_spots split: list.splits)

lemma line_pc_Some:
  assumes "source_map_wf (srcmap P)" and "line_pc P l i = Some p"
  shows "p \<in> spots P [i] l" and "q \<in> spots P [i] l \<Longrightarrow> p \<le> q"
proof -
  obtain c cs where cs: "marked (srcmap P) l (fst (range_of P i)) (snd (range_of P i)) = c # cs" "p = fold min cs c"
    using assms(2) by (auto simp: line_pc_marked split: list.splits)
  then have "set (c # cs) = spots P [i] l" by (metis marked_spots [OF assms(1)])
  moreover have "p \<in> set (c # cs)" "\<forall>x \<in> set (c # cs). p \<le> x" using fold_min_spec [of cs c] by (simp_all add: cs)
  ultimately show "p \<in> spots P [i] l" "q \<in> spots P [i] l \<Longrightarrow> p \<le> q" by auto
qed

lemma lines_of_spots:
  assumes "source_map_wf (srcmap P)"
  shows "l \<in> set (lines_of P is) \<longleftrightarrow> spots P is l \<noteq> {}"
proof -
  have "l \<in> set (lines_in (srcmap P) a (Some b)) \<longleftrightarrow> marked (srcmap P) l a b \<noteq> []" for a b
    by (auto simp: lines_in_def marked_def in_pc_range_def split: if_splits) (erule rev_bexI, simp)+
  moreover have "spots P is l = (\<Union>i \<in> set is. spots P [i] l)" by (auto simp: spots_def)
  ultimately show ?thesis by (simp add: lines_of_def split_beta marked_spots [OF assms, symmetric])
qed

text \<open>The functions in code order; a range ends where the next function begins.\<close>

lemma entry_order_filter: "entry_order P (filter Q is) = filter Q (entry_order P is)"
  by (simp add: entry_order_def filter_sort)

lemma range_of_append:
  assumes "entry_order P [0..<length (fns P)] = xs @ i # ys"
  shows "range_of P i = (entry_pc (fns P ! i), case ys of [] \<Rightarrow> length (code P) | j # _ \<Rightarrow> entry_pc (fns P ! j))"
proof -
  have d: "distinct (xs @ i # ys)" unfolding assms [symmetric] by (simp add: entry_order_def)
  let ?st = "map (\<lambda>j. entry_pc (fns P ! j))"
  define z where "z = zip (?st (xs @ i # ys)) (tl (?st (xs @ i # ys)) @ [length (code P)])"
  have len: "length (xs @ i # ys) = length z" by (simp add: z_def)
  have "map_of (zip (xs @ i # ys) z) ((xs @ i # ys) ! length xs) = Some (z ! length xs)"
    using map_of_zip_nth [OF len d, of "length xs"] by (simp add: len [symmetric])
  moreover have "z ! length xs = (entry_pc (fns P ! i), case ys of [] \<Rightarrow> length (code P) | j # _ \<Rightarrow> entry_pc (fns P ! j))"
    by (cases xs; cases ys) (auto simp: z_def nth_append nth_Cons')
  ultimately show ?thesis by (simp add: range_of_def function_ranges_def assms z_def Let_def)
qed

lemma range_before:
  assumes "entry_order P [0..<length (fns P)] = xs @ i # ys" and "j \<in> set ys"
  shows "snd (range_of P i) \<le> fst (range_of P j)"
proof -
  obtain us vs where ys: "ys = us @ j # vs" using split_list [OF assms(2)] by blast
  have s: "sorted (map (\<lambda>k. entry_pc (fns P ! k)) (xs @ i # ys))" unfolding assms(1) [symmetric] by (simp add: entry_order_def)
  have "range_of P j = (entry_pc (fns P ! j), case vs of [] \<Rightarrow> length (code P) | j # _ \<Rightarrow> entry_pc (fns P ! j))"
    by (rule range_of_append [where xs = "xs @ i # us"]) (simp add: assms(1) ys)
  with s show ?thesis unfolding range_of_append [OF assms(1)] by (cases us) (auto simp: ys sorted_append)
qed

lemma first_on_line_None: "first_on_line P l is = None \<longleftrightarrow> (\<forall>i \<in> set is. line_pc P l i = None)"
  by (induction "is") (auto split: option.splits)

lemma first_on_line_Some:
  "first_on_line P l is = Some (i, p) \<Longrightarrow> \<exists>xs ys. is = xs @ i # ys \<and> (\<forall>j \<in> set xs. line_pc P l j = None) \<and> line_pc P l i = Some p"
proof (induction "is")
  case (Cons j js)
  show ?case
  proof (cases "line_pc P l j")
    case None
    with Cons obtain xs ys where "js = xs @ i # ys" "\<forall>j \<in> set xs. line_pc P l j = None" "line_pc P l i = Some p" by auto
    with None show ?thesis by (intro exI [of _ "j # xs"] exI [of _ ys]) simp
  next
    case (Some q)
    with Cons.prems show ?thesis by (intro exI [of _ "[]"] exI [of _ js]) simp
  qed
qed simp

lemma filter_middle: "filter Q zs = xs @ i # ys \<Longrightarrow> \<exists>us vs. zs = us @ i # vs \<and> filter Q vs = ys"
proof (induction zs arbitrary: xs)
  case (Cons z zs)
  show ?case
  proof (cases "Q z \<and> xs = []")
    case True
    with Cons.prems show ?thesis by (intro exI [of _ "[]"] exI [of _ zs]) simp
  next
    case False
    then have "filter Q zs = (if Q z then tl xs else xs) @ i # ys" using Cons.prems by (cases xs) (auto split: if_splits)
    from Cons.IH [OF this] obtain us vs where "zs = us @ i # vs" "filter Q vs = ys" by blast
    then show ?thesis by (intro exI [of _ "z # us"] exI [of _ vs]) simp
  qed
qed simp

text \<open>The functions of a file are a filtered part of the whole order, so the first hit is the least.\<close>

lemma first_on_line_least:
  assumes wf: "source_map_wf (srcmap P)" and "is": "is = filter Q [0..<length (fns P)]"
    and hit: "first_on_line P l (entry_order P is) = Some (i, p)"
  shows "i \<in> set is" "p \<in> spots P is l" "\<And>q. q \<in> spots P is l \<Longrightarrow> p \<le> q"
proof -
  from first_on_line_Some [OF hit] obtain xs ys where o: "entry_order P is = xs @ i # ys"
    and none: "\<forall>j \<in> set xs. line_pc P l j = None" and p: "line_pc P l i = Some p" by blast
  have set: "set is = set xs \<union> {i} \<union> set ys" using arg_cong [OF o, of set] by (auto simp: entry_order_def)
  then show "i \<in> set is" by simp
  with line_pc_Some(1) [OF wf p] show "p \<in> spots P is l" by (auto simp: spots_def)
  fix q assume "q \<in> spots P is l"
  then obtain j where j: "j \<in> set is" "q \<in> spots P [j] l" by (auto simp: spots_def)
  have "j \<notin> set xs" using none j(2) line_pc_None [OF wf, of l j] by auto
  with j(1) set consider "j = i" | "j \<in> set ys" by auto
  then show "p \<le> q"
  proof cases
    case 1
    with line_pc_Some(2) [OF wf p] j(2) show ?thesis by simp
  next
    case 2
    have "filter Q (entry_order P [0..<length (fns P)]) = xs @ i # ys" using o by (simp add: "is" entry_order_filter)
    from filter_middle [OF this] obtain us vs where u: "entry_order P [0..<length (fns P)] = us @ i # vs" "filter Q vs = ys"
      by blast
    from u(2) 2 have "j \<in> set vs" by auto
    from range_before [OF u(1) this] line_pc_Some(1) [OF wf p] j(2) show ?thesis by (auto simp: spots_def)
  qed
qed

lemma later_lines_spots:
  "source_map_wf (srcmap P) \<Longrightarrow> l' \<in> set (later_lines P is l) \<longleftrightarrow> l < l' \<and> spots P is l' \<noteq> {}"
  by (auto simp: later_lines_def lines_of_spots)

lemma no_hit: "source_map_wf (srcmap P) \<Longrightarrow> first_on_line P l (entry_order P is) = None \<longleftrightarrow> spots P is l = {}"
  by (auto simp: first_on_line_None line_pc_None entry_order_def) (auto simp: spots_def)

lemma place_on_line_spec:
  assumes wf: "source_map_wf (srcmap P)" and "is": "is = filter Q [0..<length (fns P)]"
  shows "case place_on_line P is line of
      None \<Rightarrow> \<forall>l \<ge> line. spots P is l = {}
    | Some (i, p, l) \<Rightarrow> line \<le> l \<and> (\<forall>l' \<ge> line. l' < l \<longrightarrow> spots P is l' = {}) \<and> i \<in> set is
        \<and> p \<in> spots P is l \<and> (\<forall>q \<in> spots P is l. p \<le> q)"
  using wf "is"
proof (induction P "is" line rule: place_on_line.induct [case_names line])
  case (line P js line)
  note hit = place_on_line.simps [of P js line] and none = no_hit [OF line.prems(1), of line js]
  show ?case
  proof (cases "first_on_line P line (entry_order P js)")
    case (Some a)
    obtain i p where a: "a = (i, p)" by fastforce
    from first_on_line_least [OF line.prems Some [unfolded a]] Some show ?thesis by (simp add: hit a)
  next
    case None
    then have here: "spots P js line = {}" by (simp add: none)
    note later = later_lines_spots [OF line.prems(1), of _ js line]
    show ?thesis
    proof (cases "later_lines P js line")
      case Nil
      have "spots P js l = {}" if "line \<le> l" for l using here later [of l] Nil that by (cases "l = line") auto
      then show ?thesis by (simp add: hit None Nil)
    next
      case (Cons k ks)
      define m where "m = Min (set (k # ks))"
      have "m \<in> set (later_lines P js line)" unfolding Cons m_def by (rule Min_in) simp_all
      then have m: "line < m" using later by simp
      have below: "spots P js l = {}" if "line \<le> l" "l < m" for l
      proof (cases "l = line")
        case False
        have "l \<notin> set (later_lines P js line)" using Min_le [of "set (k # ks)" l] that(2) by (auto simp: Cons m_def [symmetric] simp del: set_simps)
        with False that(1) show ?thesis by (simp add: later)
      qed (simp add: here)
      have IH: "case place_on_line P js m of
          None \<Rightarrow> \<forall>l \<ge> m. spots P js l = {}
        | Some (i, p, l) \<Rightarrow> m \<le> l \<and> (\<forall>l' \<ge> m. l' < l \<longrightarrow> spots P js l' = {}) \<and> i \<in> set js
            \<and> p \<in> spots P js l \<and> (\<forall>q \<in> spots P js l. p \<le> q)"
        unfolding m_def by (rule line.IH [OF None Cons line.prems])
      have same: "place_on_line P js line = place_on_line P js m" by (simp add: hit None Cons m_def)
      have ext: "\<forall>l \<ge> line. C l \<longrightarrow> spots P js l = {}" if "\<forall>l \<ge> m. C l \<longrightarrow> spots P js l = {}" for C
        using that below by (metis not_less)
      show ?thesis
      proof (cases "place_on_line P js m")
        case None
        with same IH ext [of "\<lambda>_. True"] show ?thesis by simp
      next
        case (Some x)
        obtain i p l where x: "x = (i, p, l)" by (cases x) fastforce
        with IH Some have "m \<le> l" "\<forall>l' \<ge> m. l' < l \<longrightarrow> spots P js l' = {}" "i \<in> set js" "p \<in> spots P js l"
          "\<forall>q \<in> spots P js l. p \<le> q" by simp_all
        with same Some x m ext [of "\<lambda>l'. l' < l"] show ?thesis by simp
      qed
    qed
  qed
qed

section \<open>The table of breakpoints\<close>

text \<open>Breakpoints and pcs name each other, and an id is never given twice.\<close>

definition table_ok :: "debugger \<Rightarrow> bool" where
  "table_ok d \<longleftrightarrow> (\<forall>p i. map_of (by_pc d) p = Some i \<longleftrightarrow> (\<exists>bp. map_of (breakpoints d) i = Some bp \<and> bp_pc bp = p))
     \<and> (\<forall>i bp. map_of (breakpoints d) i = Some bp \<longrightarrow> bp_id bp = i \<and> i < next_id d)"

lemma table_okD:
  assumes "table_ok d"
  shows "map_of (by_pc d) p = Some i \<longleftrightarrow> (\<exists>bp. map_of (breakpoints d) i = Some bp \<and> bp_pc bp = p)"
    and "map_of (breakpoints d) i = Some bp \<Longrightarrow> bp_id bp = i" and "map_of (breakpoints d) i = Some bp \<Longrightarrow> i < next_id d"
  using assms by (auto simp: table_ok_def)

lemma new_debugger_ok: "table_ok new_debugger"
  by (simp add: table_ok_def new_debugger_def)

lemma table_ok_cong: "breakpoints d' = breakpoints d \<Longrightarrow> by_pc d' = by_pc d \<Longrightarrow> next_id d' = next_id d \<Longrightarrow> table_ok d' = table_ok d"
  by (simp add: table_ok_def)

lemma add_breakpoint_ok:
  assumes "table_ok d" and "add_breakpoint P p i line d = (k, d')"
  shows "table_ok d'" and "map_of (by_pc d') p = Some k"
    and "map_of (by_pc d) p = None \<Longrightarrow> map_of (breakpoints d') k
      = Some \<lparr>bp_id = k, bp_pc = p, bp_function = fn_name (fns P ! i), bp_file = source_file (fns P ! i), bp_line = line, bp_enabled = True, bp_hits = 0\<rparr>"
proof -
  have fresh: "map_of (breakpoints d) (next_id d) = None" using table_okD(3) [OF assms(1)] by (cases "map_of (breakpoints d) (next_id d)") auto
  show "table_ok d'"
  proof (cases "map_of (by_pc d) p")
    case None
    then have "bp_pc bp \<noteq> p" if "map_of (breakpoints d) j = Some bp" for j bp using table_okD(1) [OF assms(1), of p j] that by auto
    moreover have "j \<noteq> next_id d" if "map_of (by_pc d) q = Some j" for q j using table_okD(1) [OF assms(1), of q j] that fresh by auto
    ultimately show ?thesis using assms None fresh
      by (auto simp: table_ok_def add_breakpoint_def map_of_dict_set Let_def less_Suc_eq split: if_splits)
  qed (use assms in \<open>auto simp: add_breakpoint_def\<close>)
  show "map_of (by_pc d') p = Some k" using assms(2)
    by (auto simp: add_breakpoint_def map_of_dict_set Let_def split: option.splits)
  show "map_of (by_pc d) p = None \<Longrightarrow> map_of (breakpoints d') k
      = Some \<lparr>bp_id = k, bp_pc = p, bp_function = fn_name (fns P ! i), bp_file = source_file (fns P ! i), bp_line = line, bp_enabled = True, bp_hits = 0\<rparr>"
    using assms(2) by (auto simp: add_breakpoint_def map_of_dict_set Let_def)
qed

lemma map_of_filter_key: "map_of (filter (\<lambda>p. fst p \<noteq> k) ps) j = (if j = k then None else map_of ps j)"
  by (induction ps) auto

lemma remove_breakpoint_ok:
  assumes "table_ok d" and "remove_breakpoint i d = Inr d'"
  shows "table_ok d'"
proof -
  obtain bp where bp: "map_of (breakpoints d) i = Some bp"
    and d': "d' = d\<lparr>breakpoints := filter (\<lambda>p. fst p \<noteq> i) (breakpoints d), by_pc := filter (\<lambda>p. fst p \<noteq> bp_pc bp) (by_pc d)\<rparr>"
    using assms(2) by (auto simp: remove_breakpoint_def split: option.splits)
  have "map_of (by_pc d) (bp_pc bp) = Some i" using table_okD(1) [OF assms(1)] bp by blast
  then have "bp_pc bp' \<noteq> bp_pc bp" if "map_of (breakpoints d) j = Some bp'" "j \<noteq> i" for j bp'
    using table_okD(1) [OF assms(1), of "bp_pc bp" j] that by auto
  with assms(1) bp show ?thesis by (auto simp: table_ok_def d' map_of_filter_key)
qed

lemma replace_breakpoint_ok:
  assumes "table_ok d" and "map_of (breakpoints d) i = Some bp" and "bp_pc bp' = bp_pc bp" and "bp_id bp' = i"
  shows "table_ok (d\<lparr>breakpoints := dict_set i bp' (breakpoints d)\<rparr>)"
  using assms by (auto simp: table_ok_def map_of_dict_set)

text \<open>
  Claim C30. A breakpoint asked for on a line of a file lands on the least line from there on that has
  code in the functions of that file, at the lowest address of that line, where the source map names
  the line; it is refused exactly when no function is of the file or no line that follows has code.
  The table of breakpoints stays consistent.
\<close>

theorem breakpoint_placed:
  assumes "source_map_wf (srcmap P)" and "table_ok d"
    and "wanted = (if file \<noteq> [] then file else entry_file P)" and "is = functions_in_file sep P wanted"
  shows "case break_at_line sep P line file d of
      Inl e \<Rightarrow> is = [] \<and> e = NoSourceFile wanted \<or> is \<noteq> [] \<and> (\<forall>l \<ge> line. spots P is l = {}) \<and> e = NoCodeAfter line wanted
    | Inr (k, d') \<Rightarrow> table_ok d' \<and> (\<exists>bp p l. map_of (breakpoints d') k = Some bp \<and> bp_pc bp = int p
        \<and> line \<le> l \<and> (\<forall>l' \<ge> line. l' < l \<longrightarrow> spots P is l' = {}) \<and> p \<in> spots P is l \<and> (\<forall>q \<in> spots P is l. p \<le> q)
        \<and> (\<exists>col. lookup (srcmap P) (int p) = Inr (Some (l, col)))
        \<and> (map_of (by_pc d) (int p) = None \<longrightarrow> bp_line bp = l \<and> bp_enabled bp))"
proof -
  have "is": "\<exists>Q. is = filter Q [0..<length (fns P)]" by (auto simp: assms(4) functions_in_file_def Let_def)
  then obtain Q where Q: "is = filter Q [0..<length (fns P)]" by blast
  note place = place_on_line_spec [OF assms(1) Q, of line]
  show ?thesis
  proof (cases "is = [] \<or> place_on_line P is line = None")
    case True
    with place show ?thesis by (auto simp: break_at_line_def assms(3,4) Let_def)
  next
    case False
    then obtain i p l where found: "is \<noteq> []" "place_on_line P is line = Some (i, p, l)" by auto
    with place have l: "line \<le> l" "\<forall>l' \<ge> line. l' < l \<longrightarrow> spots P is l' = {}" "p \<in> spots P is l" "\<forall>q \<in> spots P is l. p \<le> q"
      by simp_all
    from l(3) obtain j where "j < length (pcs (srcmap P))" "pcs (srcmap P) ! j = p" "fst (positions (srcmap P) ! j) = l"
      by (auto simp: spots_def)
    then have at_line: "\<exists>col. lookup (srcmap P) (int p) = Inr (Some (l, col))"
      using lookup_at_marker [OF assms(1)] by (metis prod.collapse)
    obtain k d' where added: "add_breakpoint P (int p) i l d = (k, d')" by fastforce
    have res: "break_at_line sep P line file d = Inr (k, d')"
      using found added by (simp add: break_at_line_def assms(3,4) Let_def)
    note ok = add_breakpoint_ok [OF assms(2) added]
    obtain bp where "map_of (breakpoints d') k = Some bp" "bp_pc bp = int p"
      using table_okD(1) [OF ok(1)] ok(2) by blast
    moreover from this ok(3) have "map_of (by_pc d) (int p) = None \<longrightarrow> bp_line bp = l \<and> bp_enabled bp" by auto
    ultimately show ?thesis using ok(1) l at_line unfolding res by auto
  qed
qed

section \<open>Running unattended or watched\<close>

text \<open>
  Claim C32. A program runs under the debugger as it runs without it: whatever the breakpoints, the
  stepping and what other threads do to the debugger, a front end that answers every stop leaves the
  exit value, the fault and the machine what \<open>run_main\<close> makes them.
\<close>

theorem debugging_transparent:
  assumes "source_map_wf (srcmap P)" and "\<And>st s d f. fst (FE st s d f) = None \<and> dmode (fst (snd (FE st s d f))) \<noteq> None"
  shows "outcome_of (debug_main ops P FE others fuel s d f) = Some (run_main ops P fuel s)"
proof -
  have "answering_front_end FE P" using assms(2) by (simp add: answering_front_end_def)
  note here = answering_front_end.run_transparent [OF this assms(1)] answering_front_end.fault_reported [OF this assms(1)]
  show ?thesis by (auto simp: debug_main_def run_main_def here split: sum.splits)
qed

section \<open>Showing values\<close>

lemma format_float_error: "format_float v = Inl e \<Longrightarrow> e = OverflowError"
proof -
  have "shortest_text ds v = Inl e \<Longrightarrow> e = OverflowError" for ds by (induction ds) (auto split: option.splits if_splits)
  then show "format_float v = Inl e \<Longrightarrow> e = OverflowError" by (auto simp: format_float_def result_simps split: if_splits)
qed

lemma float_text_error: "float_text low high = Inl e \<Longrightarrow> e = Host OverflowError"
  by (auto simp: float_text_def lift_host_def split: sum.splits dest: format_float_error)

lemma mapR_error: "mapR f xs = Inl e \<Longrightarrow> \<exists>x \<in> set xs. f x = Inl e"
  by (induction xs) (auto simp: result_simps)

lemma read_word_error: "read_word s a = Inl e \<Longrightarrow> e = Host IndexError"
  by (simp add: read_word_def split: if_splits)

lemma unless_outside_error: "unless_outside x r = Inl e \<Longrightarrow> r = Inl e \<and> e \<noteq> Host IndexError"
  by (auto simp: unless_outside_def split: sum.splits vm_error.splits host_error.splits)

lemma unless_broken_error: "unless_broken x r = Inl e \<Longrightarrow> r = Inl e \<and> (\<exists>h. e = Host h \<and> h \<noteq> IndexError)"
  by (auto simp: unless_broken_def split: sum.splits vm_error.splits host_error.splits)

lemma layout_at_total: "layout_at P s ref \<noteq> Inl e"
  by (auto simp: layout_at_def kind_def detail_def result_simps dest!: unless_outside_error read_word_error split: if_splits)

lemma describe_object_total: "describe_object P s ref ty \<noteq> Inl e"
  by (auto simp: describe_object_def result_simps layout_at_total split: option.splits if_splits)

lemma read_field_error:
  assumes "read_field s a ty word = Inl e" and "\<And>w e. word w = Inl e \<Longrightarrow> e = Host OverflowError"
  shows "e = Host OverflowError"
  using assms(1) unfolding read_field_def
  by (auto simp: result_simps dest!: unless_broken_error read_word_error float_text_error assms(2) split: if_splits)

lemma string_text_error: "string_text a s = Inl (Host h) \<Longrightarrow> h = IndexError"
  by (auto simp: string_text_def string_bytes_def kind_def detail_def result_simps Let_def dest: read_word_error split: if_splits)

lemma array_at_error: "array_at r nm s = Inl (Host h) \<Longrightarrow> h = IndexError"
  by (auto simp: array_at_def kind_def detail_def result_simps Let_def dest: read_word_error split: if_splits)

lemma describe_array_error:
  assumes "\<And>a e. element a = Inl e \<Longrightarrow> e = Host OverflowError" and "describe_array s ref ty element = Inl e"
  shows "e = Host OverflowError"
  using assms(2)
  by (auto simp: describe_array_def result_simps Let_def dest!: unless_broken_error array_at_error mapR_error assms(1)
    split: if_splits option.splits)

lemma describe_word_error: "describe_word P s word ty = Inl e \<Longrightarrow> e = Host OverflowError"
proof (induction P s word ty arbitrary: e rule: describe_word.induct [case_names word])
  case (word P s word ty)
  show ?case
  proof (cases "is_array_name ty")
    case True
    then have others: "\<not> ty = lit ''bool''" "\<not> ty = lit ''str''" "ty \<notin> {lit ''int'', lit ''heapptr'', lit ''ptr''}" "\<not> starts_with (lit ''fn('') ty"
      by (cases ty; auto simp: is_array_name_def starts_with_def lit_def)+
    note IH = word.IH [OF others True]
    have "read_field s a (element_name ty) (\<lambda>w. describe_word P s w (element_name ty)) = Inl e' \<Longrightarrow> e' = Host OverflowError" for a e'
      by (rule read_field_error) (auto intro: IH)
    moreover have "describe_array s word ty (\<lambda>a. read_field s a (element_name ty) (\<lambda>w. describe_word P s w (element_name ty))) = Inl e"
      using word.prems others True by (simp add: describe_word.simps [of P s word ty])
    ultimately show ?thesis by (rule describe_array_error)
  next
    case False
    with word.prems show ?thesis
      by (auto simp: describe_word.simps [of P s word ty] result_simps describe_object_total
        dest!: unless_broken_error string_text_error split: if_splits)
  qed
qed

lemma describe_field_error: "describe_field P s a ty = Inl e \<Longrightarrow> e = Host OverflowError"
  unfolding describe_field_def by (erule read_field_error) (rule describe_word_error)

lemma describe_slots_error:
  "describe_slots P s slots slot ty words = Inl e \<Longrightarrow> 93 \<notin> set (takeWhile (\<lambda>c. c \<noteq> 91) ty) \<Longrightarrow> e = Host OverflowError"
proof (induction P s slots slot ty words arbitrary: e rule: describe_slots.induct [case_names slots])
  case (slots P s slots slot ty words)
  show ?case
  proof (cases "ends_with (lit '']'') ty")
    case True
    have bracket: "91 \<in> set ty"
    proof (rule ccontr)
      assume "91 \<notin> set ty"
      then have "takeWhile (\<lambda>c. c \<noteq> 91) ty = ty" by (auto simp: takeWhile_eq_all_conv)
      moreover have "93 \<in> set ty" using True by (auto simp: ends_with_def lit_def) (metis in_set_dropD list.set_intros(1))
      ultimately show False using slots.prems(2) by metis
    qed
    have IH: "e' = Host OverflowError"
      if "x < words" "describe_slots P s slots (slot + x) (takeWhile (\<lambda>c. c \<noteq> 91) ty) 1 = Inl e'" for x e'
      using slots.IH [OF True _ _ that(2)] that(1) bracket slots.prems(2) by simp
    with slots.prems bracket True show ?thesis
      by (auto simp: describe_slots.simps [of P s slots slot ty words] result_simps dest!: mapR_error intro: IH)
  next
    case False
    with slots.prems(1) show ?thesis
      by (auto simp: describe_slots.simps [of P s slots slot ty words] result_simps dest: float_text_error describe_word_error split: if_splits)
  qed
qed

lemma children_of_error: "children_of P s v = Inl e \<Longrightarrow> e = Host OverflowError"
  by (auto simp: children_of_def result_simps layout_at_total dest!: mapR_error describe_field_error split: if_splits option.splits)

lemma flatten_error: "flatten P s v depth = Inl e \<Longrightarrow> e = Host OverflowError"
proof (induction P s v depth arbitrary: e rule: flatten.induct [case_names flat])
  case (flat P s v depth)
  from flat.prems show ?case
    by (subst (asm) flatten.simps)
      (auto simp: result_simps Let_def split: value_kind.splits if_splits
        dest!: mapR_error dest: children_of_error flat.IH)
qed

text \<open>
  Claim C33. Whatever the heap and the slots hold, a local is shown as a line of text: a reference that
  leads nowhere or to another kind of object, a cycle or a word outside the heap is no error. Only a
  float whose shortened text is out of range can fail, in the host.
\<close>

theorem inspection_never_faults:
  assumes "93 \<notin> set (takeWhile (\<lambda>c. c \<noteq> 91) (li_type_name li))"
  shows "(\<exists>t. format_local P s fr li = Inr t) \<or> format_local P s fr li = Inl (Host OverflowError)"
proof (cases "format_local P s fr li")
  case (Inl e)
  then have "e = Host OverflowError" using assms
    by (auto simp: format_local_def describe_local_def result_simps dest: describe_slots_error flatten_error)
  with Inl show ?thesis by simp
qed simp

section \<open>The place of a fault\<close>

text \<open>
  The debugger's frames and the backtrace name the same suspended callers. At a fault they differ in
  the innermost frame: the backtrace goes back to the instruction that raised, the view does not.
\<close>

lemma view_place: "view P k e = Inr v \<Longrightarrow> (fv_fn v, fv_pc v) = (fst e, fst (snd e))"
  by (cases e) (auto simp: view_def result_simps)

lemma mapR_places: "mapR (\<lambda>(k, e). view P k e) (enumerate n es) = Inr vs \<Longrightarrow> map (\<lambda>v. (fv_fn v, fv_pc v)) vs = map (\<lambda>e. (fst e, fst (snd e))) es"
  by (induction es arbitrary: n vs) (auto simp: result_simps dest!: view_place)

theorem fault_frames:
  assumes "frames P s = Inr vs"
  shows "map (\<lambda>v. (fv_fn v, fv_pc v)) vs = (current_fn s, pc s) # tl (call_frames s)" and "hd (call_frames s) = (current_fn s, pc s - 1)"
proof -
  have "mapR (\<lambda>(k, e). view P k e) (enumerate 0 ((current_fn s, pc s, locals s) # map (\<lambda>f. (fn_index f, return_pc f - 1, frame_locals f)) (call_stack s))) = Inr vs"
    using assms by (auto simp: frames_def lift_host_def split: sum.splits)
  from mapR_places [OF this] show "map (\<lambda>v. (fv_fn v, fv_pc v)) vs = (current_fn s, pc s) # tl (call_frames s)" by (simp add: call_frames_def)
qed (simp add: call_frames_def)

section \<open>Witnesses\<close>

text \<open>\<open>main\<close> calls \<open>f\<close> on line 3 and returns on line 4; \<open>f\<close> is line 8.\<close>

definition two_functions :: program where
  "two_functions = \<lparr>code = [instr CALL (Some 1), instr RET None, instr PUSH_INT (Some 7), instr RET None],
     fns = [\<lparr>fn_name = lit ''main'', entry_pc = 0, num_locals = 0, num_params = 0, ref_slots = [], param_words = [],
         fn_locals = [], source_file = lit ''/a.ql''\<rparr>,
       \<lparr>fn_name = lit ''f'', entry_pc = 2, num_locals = 0, num_params = 0, ref_slots = [], param_words = [],
         fn_locals = [], source_file = lit ''/a.ql''\<rparr>],
     strings = [], structs = [], srcmap = \<lparr>pcs = [0, 1, 2], positions = [(3, 1), (4, 1), (8, 1)]\<rparr>, prog_args = []\<rparr>"

lemma two_functions_map: "source_map_wf (srcmap two_functions)"
  by (simp add: source_map_wf_def two_functions_def)

definition stepping_from :: debugger where
  "stepping_from = new_debugger\<lparr>dmode := Some StepOver, from_line := Some 3, from_depth := 0\<rparr>"

lemma two_functions_lines:
  "lookup (srcmap two_functions) 0 = Inr (Some (3, 1))" "lookup (srcmap two_functions) 1 = Inr (Some (4, 1))"
  "lookup (srcmap two_functions) 2 = Inr (Some (8, 1))" "lookup (srcmap two_functions) 3 = Inr (Some (8, 1))"
  unfolding position_at_zip [OF two_functions_map] by (simp_all add: two_functions_def position_at_def)

lemma two_functions_steps:
  "pc s = 0 \<Longrightarrow> step ops two_functions s = Inr (Running (s\<lparr>pc := 2, current_fn := 1, locals := [], frame_base := length (stack s),
     call_stack := \<lparr>return_pc = 1, frame_locals = locals s, stack_base = frame_base s, fn_index = current_fn s\<rparr> # call_stack s\<rparr>))"
  "pc s = 2 \<Longrightarrow> step ops two_functions s = Inr (Running (push 7 False (s\<lparr>pc := 3\<rparr>)))"
  "pc s = 3 \<Longrightarrow> step ops two_functions s = exec_ret (s\<lparr>pc := 4\<rparr>)"
  subgoal by (simp add: step_def py_index_def two_functions_def exec_def exec_control_def enter_function_def operand_def running_def)
  subgoal by (simp add: step_def py_index_def two_functions_def exec_def exec_control_def exec_plain_def exec_int_def operand_def running_def)
  subgoal by (simp add: step_def py_index_def two_functions_def exec_def exec_control_def)
  done

lemma two_functions_run:
  assumes "pc s = 0" "call_stack s = []" "stack s = []" "stack_is_ref s = []"
  shows "run ops two_functions 1 s = OutOfFuel t \<Longrightarrow> pc t = 2 \<and> call_stack t \<noteq> []"
    "run ops two_functions 2 s = OutOfFuel t \<Longrightarrow> pc t = 3 \<and> call_stack t \<noteq> []"
    "\<exists>u. run ops two_functions 3 s = OutOfFuel u \<and> pc u = 1 \<and> call_stack u = []"
  subgoal using assms by (auto simp: two_functions_steps)
  subgoal using assms by (auto simp: numeral_2_eq_2 two_functions_steps push_def push_raw_def)
  subgoal using assms by (simp add: numeral_3_eq_3 two_functions_steps exec_ret_def push_def push_raw_def)
  done

lemma start_state: "pc (new_vm w) = 0" "call_stack (new_vm w) = []" "stack (new_vm w) = []" "stack_is_ref (new_vm w) = []"
  by (simp_all add: new_vm_def)


text \<open>Line 5 has no code: the breakpoint moves to line 8.\<close>

theorem breakpoint_placed_witness:
  "\<exists>k d' bp. break_at_line 47 two_functions 5 [] new_debugger = Inr (k, d') \<and> map_of (breakpoints d') k = Some bp
     \<and> bp_pc bp = 2 \<and> bp_line bp = 8"
proof -
  have files: "functions_in_file 47 two_functions (lit ''/a.ql'') = [0, 1]" "entry_file two_functions = lit ''/a.ql''"
    by (simp_all add: functions_in_file_def entry_file_def two_functions_def slashed_def lit_def upt_rec)
  have ranges: "range_of two_functions 0 = (0, 2)" "range_of two_functions 1 = (2, 4)"
    by (simp_all add: range_of_def function_ranges_def entry_order_def two_functions_def upt_rec)
  have maps: "pcs (srcmap two_functions) = [0, 1, 2]" "positions (srcmap two_functions) = [(3, 1), (4, 1), (8, 1)]"
    by (simp_all add: two_functions_def)
  have spots: "spots two_functions [0, 1] l = (if l = 3 then {0} else if l = 4 then {1} else if l = 8 then {2} else {})" for l
  proof -
    have three: "(\<exists>j < length [0, 1, 2 :: nat]. Q j) \<longleftrightarrow> Q 0 \<or> Q 1 \<or> Q 2" for Q :: "nat \<Rightarrow> bool"
      by (simp add: less_Suc_eq numeral_2_eq_2) blast
    show ?thesis unfolding spots_def maps three by (auto simp: ranges ranges(2) [unfolded One_nat_def])
  qed
  have placed: "case break_at_line 47 two_functions 5 [] new_debugger of
      Inl e \<Rightarrow> [0, 1] = ([] :: nat list) \<and> e = NoSourceFile (lit ''/a.ql'')
        \<or> [0, 1] \<noteq> ([] :: nat list) \<and> (\<forall>l \<ge> 5. spots two_functions [0, 1] l = {}) \<and> e = NoCodeAfter 5 (lit ''/a.ql'')
    | Inr (k, d') \<Rightarrow> table_ok d' \<and> (\<exists>bp p l. map_of (breakpoints d') k = Some bp \<and> bp_pc bp = int p
        \<and> 5 \<le> l \<and> (\<forall>l' \<ge> 5. l' < l \<longrightarrow> spots two_functions [0, 1] l' = {}) \<and> p \<in> spots two_functions [0, 1] l
        \<and> (\<forall>q \<in> spots two_functions [0, 1] l. p \<le> q)
        \<and> (\<exists>col. lookup (srcmap two_functions) (int p) = Inr (Some (l, col)))
        \<and> (map_of (by_pc new_debugger) (int p) = None \<longrightarrow> bp_line bp = l \<and> bp_enabled bp))"
    by (rule breakpoint_placed [OF two_functions_map new_debugger_ok]) (simp_all add: files)
  show ?thesis
  proof (cases "break_at_line 47 two_functions 5 [] new_debugger")
    case (Inl e)
    then have "spots two_functions [0, 1] 8 = {}" using placed by simp
    then show ?thesis unfolding spots by simp
  next
    case (Inr r)
    obtain k d' where r: "r = (k, d')" by fastforce
    have "map_of (by_pc new_debugger) q = None" for q by (simp add: new_debugger_def)
    with placed obtain bp p l where bp: "map_of (breakpoints d') k = Some bp" "bp_pc bp = int p" "5 \<le> l" "p \<in> spots two_functions [0, 1] l"
      "bp_line bp = l"
      unfolding Inr r by fastforce
    from bp(3,4) have "l = 8 \<and> p = 2" unfolding spots by (simp split: if_splits)
    with bp show ?thesis unfolding Inr r by auto
  qed
qed

theorem debugging_transparent_witness:
  "outcome_of (debug_main capture_ops tiny_program (run_to_completion tiny_program) Pair 5 (new_vm no_io) new_debugger ())
     = Some (run_main capture_ops tiny_program 5 (new_vm no_io))"
proof -
  have wf: "source_map_wf (srcmap tiny_program)" by (simp add: tiny_program_def source_map_wf_def empty_source_map_def)
  show ?thesis by (rule debugging_transparent [OF wf]) (simp add: run_to_completion_answers [OF wf])
qed

text \<open>A list whose node points at itself is cut off at the depth limit instead of being followed.\<close>

definition ring_program :: program where
  "ring_program = two_functions\<lparr>structs := [Some \<lparr>sl_name = lit ''Node'', word_size = 1, ref_offsets = [0],
     sl_fields = [\<lparr>fl_name = lit ''next'', fl_type_name = lit ''Node'', fl_offset = 0\<rparr>], is_variant = False\<rparr>]\<rparr>"

definition ring_machine :: "capture vm" where
  "ring_machine = (new_vm no_io)\<lparr>locals := [8], heap := wword (wword (wword (\<lambda>_. 0) 4 KIND_STRUCT) 6 0) 8 8\<rparr>"

definition ring_local :: local_info where
  "ring_local = \<lparr>li_name = lit ''n'', li_slot = 0, li_type_name = lit ''Node'', li_words = 1, is_param = False\<rparr>"

theorem inspection_never_faults_witness:
  "\<exists>fr. innermost ring_program ring_machine = Inr fr \<and>
     ((\<exists>t. format_local ring_program ring_machine fr ring_local = Inr t)
        \<or> format_local ring_program ring_machine fr ring_local = Inl (Host OverflowError))"
proof -
  have "source_map_wf (srcmap ring_program)" using two_functions_map by (simp add: ring_program_def)
  then obtain fr where "innermost ring_program ring_machine = Inr fr" using innermost_total by blast
  moreover have "93 \<notin> set (takeWhile (\<lambda>c. c \<noteq> 91) (li_type_name ring_local))" by (simp add: ring_local_def lit_def)
  ultimately show ?thesis using inspection_never_faults by blast
qed

end
