(* ===== verification/Json.thy ===== *)
theory Json
  imports Types Utf8
begin

text \<open>
  What the debug adapter uses of the standard library's \<open>json\<close>: \<open>dumps\<close> with the compact
  separators and \<open>ensure_ascii=False\<close>, and \<open>loads\<close>. The text of the float that a literal denotes is
  a parameter; integers are exact. The parser's recursion has fuel, which the length of the text
  bounds; the host's own limit on recursion is not modelled.
\<close>

section \<open>Values\<close>

datatype json = JNull | JBool bool | JInt int | JReal ustr | JText ustr | JArray "json list" | JObject "(ustr \<times> json) list"

datatype json_fault = BadJson | TooManyDigits | JsonFuel

section \<open>Printing\<close>

definition hex_digit :: "nat \<Rightarrow> nat" where
  "hex_digit d = (if d < 10 then 48 + d else 87 + d)"

text \<open>The letter that follows the backslash in a short escape.\<close>

definition short_escapes :: "(nat \<times> nat) list" where
  "short_escapes = [(34, 34), (92, 92), (10, 110), (13, 114), (9, 116), (12, 102), (8, 98)]"

definition escape_char :: "nat \<Rightarrow> ustr" where
  "escape_char c = (case map_of short_escapes c of
     Some e \<Rightarrow> [92, e]
   | None \<Rightarrow> if c < 32 then [92, 117, 48, 48, hex_digit (c div 16), hex_digit (c mod 16)] else [c])"

definition dump_text :: "ustr \<Rightarrow> ustr" where
  "dump_text t = [34] @ concat (map escape_char t) @ [34]"

fun dumps :: "json \<Rightarrow> ustr" where
  "dumps JNull = lit ''null''"
| "dumps (JBool b) = (if b then lit ''true'' else lit ''false'')"
| "dumps (JInt i) = dec_int i"
| "dumps (JReal t) = t"
| "dumps (JText t) = dump_text t"
| "dumps (JArray xs) = [91] @ join [44] (map dumps xs) @ [93]"
| "dumps (JObject ps) = [123] @ join [44] (map (\<lambda>(k, v). dump_text k @ [58] @ dumps v) ps) @ [125]"

section \<open>Scanning\<close>

definition json_space :: "nat \<Rightarrow> bool" where
  "json_space c \<longleftrightarrow> c \<in> {32, 9, 10, 13}"

definition skip_space :: "ustr \<Rightarrow> ustr" where
  "skip_space t = dropWhile json_space t"

definition ascii_digit :: "nat \<Rightarrow> bool" where
  "ascii_digit c \<longleftrightarrow> 48 \<le> c \<and> c \<le> 57"

definition hex_digit_value :: "nat \<Rightarrow> nat option" where
  "hex_digit_value c = (if ascii_digit c then Some (c - 48) else if 97 \<le> c \<and> c \<le> 102 then Some (c - 87)
     else if 65 \<le> c \<and> c \<le> 70 then Some (c - 55) else None)"

definition hex4 :: "ustr \<Rightarrow> (nat \<times> ustr) option" where
  "hex4 t = (case map hex_digit_value (take 4 t) of
     [Some a, Some b, Some c, Some d] \<Rightarrow> Some (((a * 16 + b) * 16 + c) * 16 + d, drop 4 t)
   | _ \<Rightarrow> None)"

text \<open>What follows a backslash; two escapes of a surrogate pair are one character.\<close>

definition unescape :: "ustr \<Rightarrow> (nat \<times> ustr) option" where
  "unescape t = (case t of
     [] \<Rightarrow> None
   | e # r \<Rightarrow>
       if e = 117 then (case hex4 r of
           None \<Rightarrow> None
         | Some (h, r1) \<Rightarrow>
             if 55296 \<le> h \<and> h < 56320 \<and> take 2 r1 = [92, 117] then (case hex4 (drop 2 r1) of
                 Some (l, r2) \<Rightarrow> if 56320 \<le> l \<and> l < 57344 then Some (65536 + (h - 55296) * 1024 + (l - 56320), r2) else Some (h, r1)
               | None \<Rightarrow> None)
             else Some (h, r1))
       else if e = 47 then Some (47, r)
       else (case map_of (map prod.swap short_escapes) e of Some c \<Rightarrow> Some (c, r) | None \<Rightarrow> None))"

lemma hex4_shorter: "hex4 t = Some (h, r) \<Longrightarrow> length r < length t"
  by (cases t) (auto simp: hex4_def split: list.splits option.splits)

lemma unescape_shorter: "unescape t = Some (c, r) \<Longrightarrow> length r < length t"
  by (auto simp: unescape_def split: list.splits if_splits option.splits dest!: hex4_shorter)

text \<open>A string after its opening quote.\<close>

function scan_text :: "ustr \<Rightarrow> (ustr \<times> ustr) option" where
  "scan_text t = (case t of
     [] \<Rightarrow> None
   | c # r \<Rightarrow>
       if c = 34 then Some ([], r)
       else if c = 92 then (case unescape r of
           None \<Rightarrow> None
         | Some (x, r1) \<Rightarrow> map_option (\<lambda>(xs, r2). (x # xs, r2)) (scan_text r1))
       else if c < 32 then None
       else map_option (\<lambda>(xs, r1). (c # xs, r1)) (scan_text r))"
  by pat_completeness auto
termination
  by (relation "measure length") (auto dest: unescape_shorter)

declare scan_text.simps [simp del]

definition take_digits :: "ustr \<Rightarrow> ustr" where
  "take_digits t = takeWhile ascii_digit t"

text \<open>An optional part of a number: the fraction, then the exponent.\<close>

definition fraction_part :: "ustr \<Rightarrow> ustr" where
  "fraction_part t = (case t of
     c # r \<Rightarrow> if c = 46 \<and> take_digits r \<noteq> [] then 46 # take_digits r else []
   | [] \<Rightarrow> [])"

definition exponent_part :: "ustr \<Rightarrow> ustr" where
  "exponent_part t = (case t of
     c # r \<Rightarrow> if c \<in> {101, 69} then
         (let sign = (if r \<noteq> [] \<and> hd r \<in> {43, 45} then [hd r] else []); ds = take_digits (drop (length sign) r)
          in if ds = [] then [] else c # sign @ ds)
       else []
   | [] \<Rightarrow> [])"

definition int_limit :: nat where "int_limit = 4300"

text \<open>The digits of a number, the sign read already; the host converts at most 4300 digits.\<close>

definition scan_number :: "(ustr \<Rightarrow> ustr) \<Rightarrow> bool \<Rightarrow> ustr \<Rightarrow> json_fault + json \<times> ustr" where
  "scan_number R neg t =
     (let ds = (if t \<noteq> [] \<and> hd t = 48 then [48] else take_digits t);
          r1 = drop (length ds) t; fr = fraction_part r1;
          r2 = drop (length fr) r1; ex = exponent_part r2
      in if ds = [] then Inl BadJson
         else if fr = [] \<and> ex = [] then
           (if int_limit < length ds then Inl TooManyDigits
            else let n = int (read_digits 10 (map (\<lambda>d. d - 48) ds)) in Inr (JInt (if neg then - n else n), r1))
         else Inr (JReal (R ((if neg then [45] else []) @ ds @ fr @ ex)), drop (length ex) r2))"

definition json_words :: "(ustr \<times> json) list" where
  "json_words = [(lit ''null'', JNull), (lit ''true'', JBool True), (lit ''false'', JBool False),
     (lit ''NaN'', JReal (lit ''NaN'')), (lit ''Infinity'', JReal (lit ''Infinity'')), (lit ''-Infinity'', JReal (lit ''-Infinity''))]"

text \<open>The first of the constants the text begins with.\<close>

definition scan_word :: "ustr \<Rightarrow> (json \<times> ustr) option" where
  "scan_word t = map_option (\<lambda>(w, v). (v, drop (length w) t)) (find (\<lambda>(w, v). starts_with w t) json_words)"

section \<open>Parsing\<close>

definition expect_char :: "nat \<Rightarrow> ustr \<Rightarrow> json_fault + ustr" where
  "expect_char c t = (case t of [] \<Rightarrow> Inl BadJson | x # r \<Rightarrow> if x = c then Inr r else Inl BadJson)"

text \<open>A quoted string.\<close>

definition scan_key :: "ustr \<Rightarrow> json_fault + ustr \<times> ustr" where
  "scan_key t = bindR (expect_char 34 t) (\<lambda>r. case scan_text r of None \<Rightarrow> Inl BadJson | Some p \<Rightarrow> Inr p)"

text \<open>
  A value, the elements of an array after the first bracket, the members of an object after the first
  brace. A repeated key keeps its last value.
\<close>

fun parse_json :: "(ustr \<Rightarrow> ustr) \<Rightarrow> nat \<Rightarrow> ustr \<Rightarrow> json_fault + json \<times> ustr"
and parse_elements :: "(ustr \<Rightarrow> ustr) \<Rightarrow> nat \<Rightarrow> ustr \<Rightarrow> json_fault + json list \<times> ustr"
and parse_members :: "(ustr \<Rightarrow> ustr) \<Rightarrow> nat \<Rightarrow> (ustr \<times> json) list \<Rightarrow> ustr \<Rightarrow> json_fault + (ustr \<times> json) list \<times> ustr" where
  "parse_json R 0 t = Inl JsonFuel"
| "parse_json R (Suc n) t = (case t of
     [] \<Rightarrow> Inl BadJson
   | c # r \<Rightarrow>
       if c = 34 then bindR (scan_key t) (\<lambda>(s, r1). Inr (JText s, r1))
       else if c = 123 then
         (case skip_space r of
            x # r1 \<Rightarrow> if x = 125 then Inr (JObject [], r1)
              else bindR (parse_members R n [] (x # r1)) (\<lambda>(ps, r2). Inr (JObject ps, r2))
          | [] \<Rightarrow> Inl BadJson)
       else if c = 91 then
         (case skip_space r of
            x # r1 \<Rightarrow> if x = 93 then Inr (JArray [], r1)
              else bindR (parse_elements R n (x # r1)) (\<lambda>(xs, r2). Inr (JArray xs, r2))
          | [] \<Rightarrow> Inl BadJson)
       else case scan_word t of
         Some p \<Rightarrow> Inr p
       | None \<Rightarrow> if c = 45 then scan_number R True r else scan_number R False t)"
| "parse_elements R 0 t = Inl JsonFuel"
| "parse_elements R (Suc n) t =
     bindR (parse_json R n t) (\<lambda>(v, r). case skip_space r of
       [] \<Rightarrow> Inl BadJson
     | x # r1 \<Rightarrow>
         if x = 93 then Inr ([v], r1)
         else if x = 44 then bindR (parse_elements R n (skip_space r1)) (\<lambda>(vs, r2). Inr (v # vs, r2))
         else Inl BadJson)"
| "parse_members R 0 ps t = Inl JsonFuel"
| "parse_members R (Suc n) ps t =
     bindR (scan_key t) (\<lambda>(k, r). bindR (expect_char 58 (skip_space r)) (\<lambda>r1.
     bindR (parse_json R n (skip_space r1)) (\<lambda>(v, r2). case skip_space r2 of
       [] \<Rightarrow> Inl BadJson
     | x # r3 \<Rightarrow>
         if x = 125 then Inr (dict_set k v ps, r3)
         else if x = 44 then parse_members R n (dict_set k v ps) (skip_space r3)
         else Inl BadJson)))"

text \<open>\<open>json.loads\<close> of a text: a byte order mark is refused, and so is what follows the value.\<close>

definition loads_json :: "(ustr \<Rightarrow> ustr) \<Rightarrow> ustr \<Rightarrow> json_fault + json" where
  "loads_json R t =
     (if t \<noteq> [] \<and> hd t = 65279 then Inl BadJson
      else bindR (parse_json R (2 * length t + 1) (skip_space t)) (\<lambda>(v, r).
        if skip_space r = [] then Inr v else Inl BadJson))"

end
