(* ===== verification/Protocol.thy ===== *)
theory Protocol
  imports Json
begin

text \<open>
  Message framing for the Debug Adapter Protocol, \<open>dap/protocol.py\<close>. The underlying pipe is the
  list of what it will deliver: a read takes at most what it asks for from the first delivery, and an
  empty delivery or none left is the end of the stream. A write under the lock is one step.
\<close>

section \<open>The stream\<close>

datatype protocol_error =
    EndedInHeader | NoTerminator | LengthNotNumber bytes | NegativeLength int | NoLength
  | EndedInBody nat nat | BodyNotJson bytes

datatype stream_error = ProtocolError protocol_error | StreamHost host_error | StreamFuel

record message_stream =
  ms_buffer :: bytes
  ms_in :: "bytes list"
  ms_out :: bytes
  ms_seq :: nat
  ms_open :: bool

definition new_stream :: "bytes list \<Rightarrow> message_stream" where
  "new_stream input = \<lparr>ms_buffer = [], ms_in = input, ms_out = [], ms_seq = 0, ms_open = True\<rparr>"

definition raw :: "string \<Rightarrow> bytes" where
  "raw s = map of_char s"

definition HEADER_TERMINATOR :: bytes where "HEADER_TERMINATOR = [13, 10, 13, 10]"

definition MAX_HEADER_BYTES :: nat where "MAX_HEADER_BYTES = 8192"

section \<open>Reading\<close>

fun read_chunk :: "nat \<Rightarrow> bytes list \<Rightarrow> bytes \<times> bytes list" where
  "read_chunk n [] = ([], [])"
| "read_chunk n (c # cs) = (take n c, if length c \<le> n then cs else drop n c # cs)"

text \<open>The bytes before the first occurrence of a separator and those after it.\<close>

fun cut_at :: "bytes \<Rightarrow> bytes \<Rightarrow> (bytes \<times> bytes) option" where
  "cut_at sep [] = (if sep = [] then Some ([], []) else None)"
| "cut_at sep (b # bs) =
     (if take (length sep) (b # bs) = sep then Some ([], drop (length sep) (b # bs))
      else map_option (\<lambda>(x, y). (b # x, y)) (cut_at sep bs))"

lemma cut_at_split: "cut_at sep bs = Some (x, y) \<Longrightarrow> bs = x @ sep @ y"
proof (induction sep bs arbitrary: x rule: cut_at.induct)
  case (2 sep b bs)
  show ?case
  proof (cases "take (length sep) (b # bs) = sep")
    case True
    with "2.prems" have "x = []" "y = drop (length sep) (b # bs)" by simp_all
    with append_take_drop_id [of "length sep" "b # bs"] True show ?thesis by simp
  qed (use 2 in \<open>auto split: if_splits\<close>)
qed (simp split: if_splits)

text \<open>One byte at a time, for the length of a header is not known in advance.\<close>

function fill_header :: "bytes \<Rightarrow> bytes list \<Rightarrow> protocol_error + (bytes \<times> bytes) option \<times> bytes list" where
  "fill_header buf input =
     (case cut_at HEADER_TERMINATOR buf of
        Some split \<Rightarrow> Inr (Some split, input)
      | None \<Rightarrow>
          if MAX_HEADER_BYTES < length buf then Inl NoTerminator
          else (case read_chunk 1 input of (chunk, input') \<Rightarrow>
            if chunk = [] then (if buf \<noteq> [] then Inl EndedInHeader else Inr (None, input'))
            else fill_header (buf @ chunk) input'))"
  by pat_completeness auto
termination
  by (relation "measure (\<lambda>(buf, input). Suc MAX_HEADER_BYTES - length buf)") (auto simp flip: length_greater_0_conv)

declare fill_header.simps [simp del]

definition read_frame_header :: "message_stream \<Rightarrow> protocol_error + bytes option \<times> message_stream" where
  "read_frame_header st = bindR (fill_header (ms_buffer st) (ms_in st)) (\<lambda>(found, input). Inr (case found of
     None \<Rightarrow> (None, st\<lparr>ms_in := input\<rparr>)
   | Some (header, rest) \<Rightarrow> (Some header, st\<lparr>ms_buffer := rest, ms_in := input\<rparr>)))"

text \<open>\<open>bytes.split\<close> on a line end, \<open>strip\<close> and \<open>lower\<close>.\<close>

function split_lines :: "bytes \<Rightarrow> bytes list" where
  "split_lines bs = (case cut_at [13, 10] bs of None \<Rightarrow> [bs] | Some (line, rest) \<Rightarrow> line # split_lines rest)"
  by pat_completeness auto
termination
  by (relation "measure length") (auto dest: cut_at_split)

declare split_lines.simps [simp del]

definition byte_space :: "byte \<Rightarrow> bool" where
  "byte_space b \<longleftrightarrow> b = 32 \<or> 9 \<le> b \<and> b \<le> 13"

definition strip_bytes :: "bytes \<Rightarrow> bytes" where
  "strip_bytes bs = rev (dropWhile byte_space (rev (dropWhile byte_space bs)))"

definition lower_bytes :: "bytes \<Rightarrow> bytes" where
  "lower_bytes bs = map (\<lambda>b. if 65 \<le> b \<and> b \<le> 90 then b + 32 else b) bs"

text \<open>\<open>int\<close> of a byte string: a sign, digits with single underscores between them, at most 4300.\<close>

fun digits_with_underscores :: "nat list \<Rightarrow> nat list option" where
  "digits_with_underscores [] = None"
| "digits_with_underscores [c] = (if ascii_digit c then Some [c] else None)"
| "digits_with_underscores (c # u # r) =
     (if \<not> ascii_digit c then None
      else map_option ((#) c) (if u = 95 then digits_with_underscores r else digits_with_underscores (u # r)))"

definition int_of_bytes :: "bytes \<Rightarrow> int option" where
  "int_of_bytes bs =
     (let t = map unat bs; signed = t \<noteq> [] \<and> hd t \<in> {43, 45} in
      case digits_with_underscores (if signed then tl t else t) of
        None \<Rightarrow> None
      | Some ds \<Rightarrow> if int_limit < length ds then None
          else let n = int (read_digits 10 (map (\<lambda>d. d - 48) ds)) in Some (if signed \<and> hd t = 45 then - n else n))"

text \<open>The first line that names the length decides.\<close>

fun length_in :: "bytes list \<Rightarrow> protocol_error + nat" where
  "length_in [] = Inl NoLength"
| "length_in (line # rest) =
     (let name = takeWhile (\<lambda>b. b \<noteq> 58) line; after = dropWhile (\<lambda>b. b \<noteq> 58) line in
      if after \<noteq> [] \<and> lower_bytes (strip_bytes name) = raw ''content-length'' then
        (case int_of_bytes (strip_bytes (tl after)) of
           None \<Rightarrow> Inl (LengthNotNumber (tl after))
         | Some n \<Rightarrow> if n < 0 then Inl (NegativeLength n) else Inr (nat n))
      else length_in rest)"

definition content_length :: "bytes \<Rightarrow> protocol_error + nat" where
  "content_length header = length_in (split_lines header)"

function fill_body :: "nat \<Rightarrow> bytes \<Rightarrow> bytes list \<Rightarrow> bool \<times> bytes \<times> bytes list" where
  "fill_body count buf input =
     (if count \<le> length buf then (True, buf, input)
      else (case read_chunk (count - length buf) input of (chunk, input') \<Rightarrow>
        if chunk = [] then (False, buf, input') else fill_body count (buf @ chunk) input'))"
  by pat_completeness auto
termination
  by (relation "measure (\<lambda>(count, buf, input). count - length buf)") (auto simp flip: length_greater_0_conv)

declare fill_body.simps [simp del]

definition read_exactly :: "nat \<Rightarrow> message_stream \<Rightarrow> bytes option \<times> message_stream" where
  "read_exactly count st = (case fill_body count (ms_buffer st) (ms_in st) of (enough, buf, input) \<Rightarrow>
     if enough then (Some (take count buf), st\<lparr>ms_buffer := drop count buf, ms_in := input\<rparr>)
     else (None, st\<lparr>ms_buffer := buf, ms_in := input\<rparr>))"

definition json_body :: "(ustr \<Rightarrow> ustr) \<Rightarrow> bytes \<Rightarrow> stream_error + json" where
  "json_body R body = (case utf8_decode body of
     None \<Rightarrow> Inl (ProtocolError (BodyNotJson body))
   | Some t \<Rightarrow> (case loads_json R t of
       Inl BadJson \<Rightarrow> Inl (ProtocolError (BodyNotJson body))
     | Inl TooManyDigits \<Rightarrow> Inl (StreamHost ValueError)
     | Inl JsonFuel \<Rightarrow> Inl StreamFuel
     | Inr v \<Rightarrow> Inr v))"

definition lift_protocol :: "protocol_error + 'a \<Rightarrow> stream_error + 'a" where
  "lift_protocol r = (case r of Inl e \<Rightarrow> Inl (ProtocolError e) | Inr x \<Rightarrow> Inr x)"

text \<open>\<open>read\<close>: \<open>None\<close> only where a message could begin.\<close>

definition read_message :: "(ustr \<Rightarrow> ustr) \<Rightarrow> message_stream \<Rightarrow> stream_error + json option \<times> message_stream" where
  "read_message R st = bindR (lift_protocol (read_frame_header st)) (\<lambda>(header, st1). case header of
     None \<Rightarrow> Inr (None, st1)
   | Some h \<Rightarrow> bindR (lift_protocol (content_length h)) (\<lambda>len. case read_exactly len st1 of
       (None, st2) \<Rightarrow> Inl (ProtocolError (EndedInBody (length (ms_buffer st2)) len))
     | (Some body, st2) \<Rightarrow> bindR (json_body R body) (\<lambda>v. Inr (Some v, st2))))"

section \<open>Writing\<close>

datatype write_fault = WriterGone | NotEncodable host_error

definition frame_of :: "bytes \<Rightarrow> bytes" where
  "frame_of body = raw ''Content-Length: '' @ map of_nat (dec_nat (length body)) @ HEADER_TERMINATOR @ body"

text \<open>The number is used up even when the message cannot be sent.\<close>

definition write_message :: "(ustr \<times> json) list \<Rightarrow> message_stream \<Rightarrow> (write_fault + nat) \<times> message_stream" where
  "write_message m st =
     (let seq = ms_seq st + 1; st1 = st\<lparr>ms_seq := seq\<rparr> in
      case utf8_encode (dumps (JObject (dict_set (lit ''seq'') (JInt (int seq)) m))) of
        Inl e \<Rightarrow> (Inl (NotEncodable e), st1)
      | Inr body \<Rightarrow>
          if ms_open st then (Inr seq, st1\<lparr>ms_out := ms_out st @ frame_of body\<rparr>) else (Inl WriterGone, st1))"

section \<open>Messages\<close>

definition member :: "ustr \<Rightarrow> json \<Rightarrow> (ustr \<times> json) list \<Rightarrow> json" where
  "member k absent m = (case map_of m k of None \<Rightarrow> absent | Some v \<Rightarrow> v)"

definition response :: "(ustr \<times> json) list \<Rightarrow> json option \<Rightarrow> bool \<Rightarrow> ustr option \<Rightarrow> (ustr \<times> json) list" where
  "response request body success message =
     [(lit ''type'', JText (lit ''response'')), (lit ''request_seq'', member (lit ''seq'') (JInt 0) request),
      (lit ''success'', JBool success), (lit ''command'', member (lit ''command'') (JText []) request)]
     @ (case body of None \<Rightarrow> [] | Some b \<Rightarrow> [(lit ''body'', b)])
     @ (case message of None \<Rightarrow> [] | Some t \<Rightarrow> [(lit ''message'', JText t)])"

definition event :: "ustr \<Rightarrow> json option \<Rightarrow> (ustr \<times> json) list" where
  "event name body =
     [(lit ''type'', JText (lit ''event'')), (lit ''event'', JText name)]
     @ (case body of None \<Rightarrow> [] | Some b \<Rightarrow> [(lit ''body'', b)])"

end
