(* ===== verification/DapValues.thy ===== *)
theory DapValues
  imports Protocol DebugValues
begin

text \<open>
  \<open>dap/values.py\<close>: the numbers by which a client asks for a frame or for what is inside a value,
  and values in the shape the protocol wants.
\<close>

section \<open>Handles\<close>

datatype handle_entry = FrameEntry nat | LocalsEntry nat | ValueEntry dvalue

text \<open>\<open>_frames\<close> is keyed by the kind of entry and the depth, which is the entry.\<close>

record handles =
  h_entries :: "(nat \<times> handle_entry) list"
  h_frames :: "(handle_entry \<times> nat) list"
  h_next :: nat

definition new_handles :: handles where
  "new_handles = \<lparr>h_entries = [], h_frames = [], h_next = 1\<rparr>"

definition clear_handles :: "handles \<Rightarrow> handles" where
  "clear_handles h = h\<lparr>h_entries := [], h_frames := []\<rparr>"

definition store_handle :: "handle_entry \<Rightarrow> handles \<Rightarrow> nat \<times> handles" where
  "store_handle e h = (h_next h, h\<lparr>h_next := h_next h + 1, h_entries := dict_set (h_next h) e (h_entries h)\<rparr>)"

definition keyed_handle :: "handle_entry \<Rightarrow> handles \<Rightarrow> nat \<times> handles" where
  "keyed_handle e h = (case map_of (h_frames h) e of
     Some n \<Rightarrow> (n, h)
   | None \<Rightarrow> (case store_handle e h of (n, h1) \<Rightarrow> (n, h1\<lparr>h_frames := dict_set e n (h_frames h1)\<rparr>)))"

definition frame_handle :: "nat \<Rightarrow> handles \<Rightarrow> nat \<times> handles" where
  "frame_handle depth = keyed_handle (FrameEntry depth)"

definition locals_handle :: "nat \<Rightarrow> handles \<Rightarrow> nat \<times> handles" where
  "locals_handle depth = keyed_handle (LocalsEntry depth)"

definition value_handle :: "dvalue \<Rightarrow> handles \<Rightarrow> nat \<times> handles" where
  "value_handle v h = (if expandable v then store_handle (ValueEntry v) h else (0, h))"

definition get_handle :: "int \<Rightarrow> handles \<Rightarrow> handle_entry option" where
  "get_handle n h = (if n < 0 then None else map_of (h_entries h) (nat n))"

section \<open>Variables\<close>

definition described_value :: "dvalue \<Rightarrow> nat \<Rightarrow> (ustr \<times> json) list" where
  "described_value v reference =
     [(lit ''type'', JText (shown_type v)), (lit ''variablesReference'', JInt (int reference))]
     @ (if value_kind v = ArrayValue then [(lit ''indexedVariables'', JInt (int (length (elements v))))] else [])"

definition variable_body :: "ustr \<Rightarrow> dvalue \<Rightarrow> nat \<Rightarrow> ustr option \<Rightarrow> json" where
  "variable_body name v reference evaluate_name = JObject
     ([(lit ''name'', JText name), (lit ''value'', JText (summary v))] @ described_value v reference
      @ (case evaluate_name of None \<Rightarrow> [] | Some n \<Rightarrow> if n = [] then [] else [(lit ''evaluateName'', JText n)]))"

definition evaluation_body :: "dvalue \<Rightarrow> nat \<Rightarrow> json" where
  "evaluation_body v reference = JObject ((lit ''result'', JText (summary v)) # described_value v reference)"

end
