(* ===== verification/Tables.thy ===== *)
theory Tables
  imports CodegenStmt FileFormat
begin

text \<open>
  The tables a generated program carries. Every step of the generator keeps the source map increasing
  and within the code, its two columns of one length, and the literal table free of repetitions.
\<close>

section \<open>The invariant\<close>

definition tables_ok :: "codegen \<Rightarrow> bool" where
  "tables_ok g \<longleftrightarrow> length (positions (g_map g)) = length (pcs (g_map g)) \<and> sorted_wrt (<) (pcs (g_map g))
     \<and> (\<forall>a \<in> set (pcs (g_map g)). a \<le> length (g_code g)) \<and> distinct (g_strings g)"

lemma mark_tables:
  assumes "tables_ok g"
  shows "tables_ok (g\<lparr>g_loc := q, g_map := mark (length (g_code g)) l c (g_map g)\<rparr>)"
proof (cases "pcs (g_map g) \<noteq> [] \<and> last (pcs (g_map g)) = length (g_code g)")
  case True
  with assms have "positions (g_map g) \<noteq> []" by (auto simp: tables_ok_def)
  with True assms show ?thesis by (auto simp: tables_ok_def mark_def)
next
  case False
  have below: "\<forall>a \<in> set (pcs (g_map g)). a < length (g_code g)"
  proof (cases "pcs (g_map g) = []")
    case ne: False
    define ps where "ps = butlast (pcs (g_map g))"
    have e: "pcs (g_map g) = ps @ [last (pcs (g_map g))]" using ne by (simp add: ps_def)
    have "last (pcs (g_map g)) < length (g_code g)"
      using assms False ne last_in_set [OF ne] by (auto simp: tables_ok_def le_less)
    moreover have "\<forall>a \<in> set ps. a < last (pcs (g_map g))"
      using assms unfolding tables_ok_def by (subst (asm) (2) e) (simp add: sorted_wrt_append)
    ultimately show ?thesis by (subst e) auto
  qed simp
  with False assms show ?thesis by (auto simp: tables_ok_def mark_def sorted_wrt_append)
qed

definition preserves :: "'a gen \<Rightarrow> bool" where
  "preserves m \<longleftrightarrow> (\<forall>g x g'. m g = Inr (x, g') \<longrightarrow> tables_ok g \<longrightarrow> tables_ok g')"

named_theorems preserves_intros

lemma preserves_bind [preserves_intros]: "preserves m \<Longrightarrow> (\<And>x. preserves (f x)) \<Longrightarrow> preserves (bindS m f)"
  unfolding preserves_def bindS_Inr by blast

lemma preserves_basic [preserves_intros]:
  "preserves (giveS x)" "preserves (raiseS e)" "preserves (askS f)" "preserves (codegen_error m args p)" "preserves here"
  by (auto simp: preserves_def giveS_def raiseS_def askS_def codegen_error_def here_def)

lemma preserves_updates [preserves_intros]:
  "preserves (updS (\<lambda>g. g\<lparr>g_loops := a g\<rparr>))" "preserves (updS (\<lambda>g. g\<lparr>g_scopes := b g\<rparr>))" "preserves (updS (\<lambda>g. g\<lparr>g_functions := c g\<rparr>))"
  "preserves (updS (\<lambda>g. g\<lparr>g_index := d g, g_functions := e g\<rparr>))"
  by (auto simp: preserves_def updS_def tables_ok_def)

lemma preserves_emit [preserves_intros]: "preserves (emit oc a)" "preserves (patch i t)" "preserves (enter p)" "preserves (leave q)" "preserves (add_string s)"
proof -
  show "preserves (emit oc a)" "preserves (patch i t)" "preserves (add_string s)"
    by (auto simp: preserves_def emit_def patch_def add_string_def updS_def bindS_def askS_def giveS_def tables_ok_def)
  show "preserves (enter p)" "preserves (leave q)"
    using mark_tables by (auto simp: preserves_def enter_def leave_def updS_def bindS_def askS_def giveS_def split: option.splits)
      (auto simp: tables_ok_def)
qed

lemma preserves_jump [preserves_intros]: "preserves (emit_jump oc)" "preserves (patch_here i)" "preserves m \<Longrightarrow> preserves (located p m)"
  by (auto simp: emit_jump_def patch_here_def located_def intro!: preserves_intros)

lemma preserves_if [preserves_intros]: "(c \<Longrightarrow> preserves m) \<Longrightarrow> (\<not> c \<Longrightarrow> preserves n) \<Longrightarrow> preserves (if c then m else n)"
  by simp

lemma preserves_option [preserves_intros]: "(r = None \<Longrightarrow> preserves m) \<Longrightarrow> (\<And>x. r = Some x \<Longrightarrow> preserves (f x)) \<Longrightarrow> preserves (case r of None \<Rightarrow> m | Some x \<Rightarrow> f x)"
  by (cases r) simp_all

lemma preserves_for [preserves_intros]: "(\<And>x. x \<in> set xs \<Longrightarrow> preserves (f x)) \<Longrightarrow> preserves (forS xs f)"
  by (induction xs) (auto intro: preserves_intros)

lemma preserves_order [preserves_intros]: "(\<And>m. m \<in> set ms \<Longrightarrow> preserves m) \<Longrightarrow> preserves (in_order ms)"
  by (simp add: in_order_def preserves_for)

lemma preserves_all [preserves_intros]: "preserves (emit_all is)"
  by (induction "is" rule: emit_all.induct) (auto intro: preserves_intros)

section \<open>Expressions\<close>

lemma preserves_parts [preserves_intros]:
  "preserves (slot_of L p sy)" "preserves (float_bits x)" "preserves (emit_func_ref p name)" "preserves (emit_unary p t o')" "preserves (emit_operator oc o' t)"
  "preserves (field_of C p t name)"
  by (auto simp: slot_of_def float_bits_def emit_func_ref_def emit_unary_def emit_operator_def field_of_def
    intro!: preserves_intros split: option.splits)

lemma preserves_leaves [preserves_intros]: "preserves (array_slot L e)" "preserves (emit_literal v)" "preserves (emit_local L p t sy)"
proof -
  show "preserves (array_slot L e)" by (cases e) (auto intro!: preserves_intros)
qed (auto simp: emit_literal_def emit_local_def intro!: preserves_intros split: literal_value.splits)

lemma preserves_fields [preserves_intros]: "(\<And>m. m \<in> snd ` set fs \<Longrightarrow> preserves m) \<Longrightarrow> preserves (emit_fields fs)"
  by (induction fs rule: emit_fields.induct) (auto intro!: preserves_intros)

lemma preserves_variant [preserves_intros]: "(\<And>m. m \<in> set ms \<Longrightarrow> preserves m) \<Longrightarrow> preserves (emit_variant v ms)"
  by (auto simp: emit_variant_def intro!: preserves_intros dest: set_zip_rightD)

lemma preserves_named [preserves_intros]: "(\<And>x. x \<in> set fs \<Longrightarrow> preserves (snd (snd x))) \<Longrightarrow> preserves (emit_named_fields info fs)"
  by (induction info fs rule: emit_named_fields.induct) (fastforce intro!: preserves_intros split: option.splits)+

lemma preserves_struct [preserves_intros]: "(\<And>x. x \<in> set fs \<Longrightarrow> preserves (snd (snd x))) \<Longrightarrow> preserves (emit_struct_lit C p t fs)"
  by (auto simp: emit_struct_lit_def intro!: preserves_intros split: option.splits)

lemma preserves_binary [preserves_intros]: "preserves l \<Longrightarrow> preserves r \<Longrightarrow> preserves (emit_binary p o' t l r)"
  by (auto simp: emit_binary_def emit_logical_def intro!: preserves_intros split: option.splits)

lemma preserves_builtins [preserves_intros]:
  "preserves len \<Longrightarrow> preserves v \<Longrightarrow> preserves (emit_array_push L arr len v)" "preserves len \<Longrightarrow> preserves (emit_array_pop L arr len)"
  "preserves len \<Longrightarrow> preserves (emit_array_new t len)" "preserves c \<Longrightarrow> preserves x \<Longrightarrow> preserves y \<Longrightarrow> preserves (emit_ct_select c x y)"
  "(\<And>m. m \<in> set ms \<Longrightarrow> preserves m) \<Longrightarrow> preserves (emit_direct_call p name ms)"
  subgoal unfolding emit_array_push_def by (intro preserves_intros)
  subgoal unfolding emit_array_pop_def by (intro preserves_intros)
  subgoal by (cases t) (simp_all add: emit_array_new_def preserves_intros)
  subgoal unfolding emit_ct_select_def by (intro preserves_intros)
  subgoal unfolding emit_direct_call_def by (intro preserves_intros)
  done

lemma preserves_call [preserves_intros]:
  assumes "\<And>m. m \<in> set ms \<Longrightarrow> preserves m" and "length ms = length as"
  shows "preserves (emit_call L p t name target as ms)"
proof -
  have "i < length as \<Longrightarrow> ms ! i \<in> set ms" for i using assms(2) by simp
  then show ?thesis unfolding emit_call_def by (intro preserves_intros assms(1)) simp_all
qed

lemma preserves_expr [preserves_intros]: "preserves (emit_expr C L e)"
  by (induction C L e rule: emit_expr.induct) (auto intro!: preserves_intros)

section \<open>Statements\<close>

lemma preserves_scopes [preserves_intros]:
  "preserves (release_scope L refs)" "preserves (push_scope refs)" "preserves pop_scope" "preserves push_loop" "preserves pop_loop"
  "preserves (patch_loop lp b c)"
proof -
  show "preserves (release_scope L refs)" by (induction L refs rule: release_scope.induct) (auto intro!: preserves_intros split: option.splits)
qed (auto simp: push_scope_def pop_scope_def push_loop_def pop_loop_def patch_loop_def intro!: preserves_intros)

lemma preserves_blocks [preserves_intros]:
  "(\<And>m. m \<in> set ms \<Longrightarrow> preserves m) \<Longrightarrow> preserves (scoped_block L refs ms)" "(\<And>m. m \<in> set ms \<Longrightarrow> preserves m) \<Longrightarrow> preserves (loop_body L refs ms)"
  "preserves (release_scopes_to L d)" "preserves (emit_loop_jump L p b)"
proof -
  show s: "(\<And>m. m \<in> set ms \<Longrightarrow> preserves m) \<Longrightarrow> preserves (scoped_block L refs ms)"
    unfolding scoped_block_def by (intro preserves_intros)
  show "(\<And>m. m \<in> set ms \<Longrightarrow> preserves m) \<Longrightarrow> preserves (loop_body L refs ms)"
    unfolding loop_body_def by (intro preserves_intros s)
  have r: "preserves (release_scopes_to L d)" for d unfolding release_scopes_to_def by (intro preserves_intros)
  then show "preserves (release_scopes_to L d)" .
  from r show "preserves (emit_loop_jump L p b)"
    unfolding emit_loop_jump_def by (auto intro!: preserves_intros split: list.splits)
qed

lemma preserves_jumps [preserves_intros]:
  "preserves c \<Longrightarrow> preserves m \<Longrightarrow> preserves n \<Longrightarrow> preserves (emit_if L c m n)" "preserves c \<Longrightarrow> preserves b \<Longrightarrow> preserves (emit_while c b)"
  "preserves i \<Longrightarrow> (\<And>m. c' = Some m \<Longrightarrow> preserves m) \<Longrightarrow> preserves st \<Longrightarrow> preserves b \<Longrightarrow> preserves (emit_for L refs i c' st b)"
  unfolding emit_if_def emit_while_def emit_for_def by (intro preserves_intros; simp)+

lemma preserves_payload [preserves_intros]: "preserves (bind_payload_slots L p ps)"
  by (induction L p ps rule: bind_payload_slots.induct) (auto simp del: emit_all.simps intro!: preserves_intros split: option.splits)

text \<open>The arms, and the body of the one that is kept for last.\<close>

lemma preserves_arms:
  assumes "\<And>a. a \<in> set as \<Longrightarrow> preserves (snd (snd (snd a)))" and "\<And>m. c = Some m \<Longrightarrow> preserves m"
  shows "preserves (emit_arms L jumps c as)" and "emit_arms L jumps c as g = Inr ((js, Some m), g') \<Longrightarrow> preserves m"
proof -
  have arm: "preserves b \<Longrightarrow> preserves (emit_arm L p v bound b)" for L p v bound b
    unfolding emit_arm_def by (intro preserves_intros)
  show "preserves (emit_arms L jumps c as)"
    using assms(1)
  proof (induction L jumps c as rule: emit_arms.induct)
    case (2 L jumps catch_all p variant bound body as)
    show ?case
    proof (cases variant)
      case None
      have "preserves (emit_arms L jumps (Some body) as)"
        by (rule "2.IH"(1) [OF None]) (use "2.prems" in auto)
      then show ?thesis by (simp add: None)
    next
      case (Some v)
      have rest: "preserves (emit_arms L (jumps @ [j]) catch_all as)" for j
        by (rule "2.IH"(2) [OF Some]) (use "2.prems" in auto)
      have b: "preserves body" using "2.prems" [of "(p, variant, bound, body)"] by simp
      show ?thesis unfolding Some emit_arms.simps option.case by (intro preserves_bind arm rest b)
    qed
  qed (simp add: preserves_basic)
  show "emit_arms L jumps c as g = Inr ((js, Some m), g') \<Longrightarrow> preserves m"
    using assms
  proof (induction L jumps c as arbitrary: g rule: emit_arms.induct)
    case (2 L jumps catch_all p variant bound body as)
    have b: "preserves body" using "2.prems"(2) [of "(p, variant, bound, body)"] by simp
    show ?case
    proof (cases variant)
      case None
      show ?thesis by (rule "2.IH"(1) [OF None]) (use "2.prems" None b in auto)
    next
      case (Some v)
      then obtain j h where e: "emit_arms L (jumps @ [j]) catch_all as h = Inr ((js, Some m), g')"
        using "2.prems"(1) by (auto simp: bindS_Inr)
      show ?thesis by (rule "2.IH"(2) [OF Some e]) (use "2.prems" in auto)
    qed
  qed (auto simp: giveS_def)
qed

lemma preserves_match:
  assumes "preserves s" and "\<And>a. a \<in> set as \<Longrightarrow> preserves (snd (snd (snd a)))"
  shows "preserves (emit_match L s as)"
proof -
  have arms: "preserves (emit_arms L [] None as)" by (rule preserves_arms(1)) (use assms(2) in auto)
  have "preserves (bindS (emit_arms L [] None as) (\<lambda>(js, c). bindS (emit_all [(POP, None), (POP, None)]) (\<lambda>_.
      bindS (case c of None \<Rightarrow> giveS () | Some body \<Rightarrow> body) (\<lambda>_. forS js patch_here))))" (is "preserves (bindS _ ?k)")
  proof -
    have "tables_ok g'" if run: "bindS (emit_arms L [] None as) ?k g = Inr (x, g')" and "tables_ok g" for g x g'
    proof -
      obtain js c h where a: "emit_arms L [] None as g = Inr ((js, c), h)" and k: "?k (js, c) h = Inr (x, g')"
        using run by (auto simp: bindS_Inr)
      have "preserves m" if "c = Some m" for m
        by (rule preserves_arms(2) [OF _ _ a [unfolded that]]) (use assms(2) in auto)
      then have "preserves (?k (js, c))" by (auto simp del: emit_all.simps intro!: preserves_intros)
      moreover have "tables_ok h" using arms a that(2) unfolding preserves_def by blast
      ultimately show ?thesis using k unfolding preserves_def by blast
    qed
    then show ?thesis unfolding preserves_def by blast
  qed
  then show ?thesis unfolding emit_match_def by (rule preserves_bind [OF assms(1) preserves_bind [OF preserves_all]])
qed

lemma preserves_match_arms [preserves_intros]:
  "preserves s \<Longrightarrow> (\<And>x. x \<in> set xs \<Longrightarrow> preserves (snd (snd (snd (f x))))) \<Longrightarrow> preserves (emit_match L s (map f xs))"
  by (rule preserves_match) auto

lemma preserves_asm [preserves_intros]: "preserves (emit_vm_asm C L p src names)"
proof -
  have "preserves (asm_instruction C L p names raw o' args)" for raw o' args
    by (auto simp: asm_instruction_def asm_local_def intro!: preserves_intros split: option.splits)
  then have "preserves (asm_lines C L p names depth ls)" for depth ls
    by (induction C L p names depth ls rule: asm_lines.induct) (auto simp: Let_def intro!: preserves_intros split: list.splits)
  then show ?thesis unfolding emit_vm_asm_def by (auto intro!: preserves_intros)
qed

lemma preserves_simple [preserves_intros]:
  "preserves (emit_print a b c t)" "(\<And>m. i = Some m \<Longrightarrow> preserves m) \<Longrightarrow> preserves (emit_var_decl L p sy i)"
  "preserves m \<Longrightarrow> preserves (emit_assign_var L p sy t m)" "preserves x \<Longrightarrow> preserves y \<Longrightarrow> preserves z \<Longrightarrow> preserves (emit_assign_index L p arr x y z)"
  "preserves x \<Longrightarrow> preserves y \<Longrightarrow> preserves (emit_assign_field C p t n x y)" "(\<And>m. i = Some m \<Longrightarrow> preserves m) \<Longrightarrow> preserves (run_opt i)"
proof -
  have z: "preserves (zero_slots a n)" for a n
    by (induction a n rule: zero_slots.induct) (auto simp del: emit_all.simps intro!: preserves_intros)
  show "preserves (emit_print a b c t)" unfolding emit_print_def emit_bool_to_str_def by (intro preserves_intros)
  show "(\<And>m. i = Some m \<Longrightarrow> preserves m) \<Longrightarrow> preserves (emit_var_decl L p sy i)"
    unfolding emit_var_decl_def by (intro preserves_intros z) simp_all
  show "preserves m \<Longrightarrow> preserves (emit_assign_var L p sy t m)" unfolding emit_assign_var_def by (intro preserves_intros)
  show "preserves x \<Longrightarrow> preserves y \<Longrightarrow> preserves z \<Longrightarrow> preserves (emit_assign_index L p arr x y z)"
    unfolding emit_assign_index_def by (intro preserves_intros)
  show "preserves x \<Longrightarrow> preserves y \<Longrightarrow> preserves (emit_assign_field C p t n x y)" unfolding emit_assign_field_def by (intro preserves_intros)
  show "(\<And>m. i = Some m \<Longrightarrow> preserves m) \<Longrightarrow> preserves (run_opt i)" by (cases i) (auto simp: run_opt_def intro: preserves_intros)
qed

lemma preserves_stmt [preserves_intros]: "preserves (emit_stmt C L st)" "preserves (snd (snd (snd (arm_code C L a))))"
  by (induction C L st and C L a rule: emit_stmt_arm_code.induct) (auto intro!: preserves_intros split: option.splits prod.splits)

section \<open>Programs\<close>

lemma preserves_program: "preserves (register_layouts C fs)" "preserves (emit_functions C i fs)" "preserves (struct_table C)"
proof -
  show "preserves (register_layouts C fs)"
  proof (induction C fs rule: register_layouts.induct)
    case (2 C f fs)
    then show ?case unfolding register_layouts.simps by (cases "build_layout C f") (auto simp del: bindS_simps intro!: preserves_intros)
  qed (simp add: preserves_basic)
  show "preserves (emit_functions C i fs)"
  proof (induction C i fs rule: emit_functions.induct)
    case (2 C i f fs)
    have "preserves (emit_body C f L)" for L unfolding emit_body_def by (auto intro!: preserves_intros)
    with 2 show ?case by (auto intro!: preserves_intros)
  qed (simp add: preserves_basic)
  show "preserves (struct_table C)" by (auto simp: struct_table_def Let_def intro!: preserves_intros)
qed

lemma generated_tables:
  assumes "generate_program C fs = Inr P"
  shows "length (positions (srcmap P)) = length (pcs (srcmap P))" and "sorted_wrt (<) (pcs (srcmap P))"
    and "\<forall>a \<in> set (pcs (srcmap P)). a \<le> length (code P)" and "\<exists>ts. strings P = enumerate 0 ts \<and> distinct ts"
proof -
  obtain u1 g1 u2 g2 ls g3 where r: "register_layouts C fs new_codegen = Inr (u1, g1)" "emit_functions C 0 fs g1 = Inr (u2, g2)"
      "struct_table C g2 = Inr (ls, g3)"
    and P: "code P = g_code g3" "srcmap P = g_map g3" "strings P = enumerate 0 (g_strings g3)"
    using assms by (auto simp: generate_program_def generate_def bindS_Inr askS_def result_simps)
  have "tables_ok new_codegen" by (simp add: tables_ok_def new_codegen_def empty_source_map_def)
  with r have "tables_ok g3" using preserves_program unfolding preserves_def by metis
  then show "length (positions (srcmap P)) = length (pcs (srcmap P))" "sorted_wrt (<) (pcs (srcmap P))"
    "\<forall>a \<in> set (pcs (srcmap P)). a \<le> length (code P)" "\<exists>ts. strings P = enumerate 0 ts \<and> distinct ts"
    by (auto simp: tables_ok_def P)
qed

end
