(* ===== verification/Stripped.thy ===== *)
theory Stripped
  imports Interp FileFormat
begin

text \<open>
  A machine does not look at the debug tables: a program without its source map, its local names and
  its file names runs step for step as it did with them, faults included.
\<close>

definition without_debug :: "source_map \<Rightarrow> program \<Rightarrow> program" where
  "without_debug m P = P\<lparr>srcmap := m, fns := map strip_function (fns P)\<rparr>"

lemma without_debug_fields [simp]:
  "code (without_debug m P) = code P" "strings (without_debug m P) = strings P" "structs (without_debug m P) = structs P"
  "prog_args (without_debug m P) = prog_args P" "length (fns (without_debug m P)) = length (fns P)"
  by (simp_all add: without_debug_def)

lemma function_fields:
  "i < length (fns P) \<Longrightarrow> fns (without_debug m P) ! i = strip_function (fns P ! i)"
  "ref_slots (strip_function f) = ref_slots f" "num_params (strip_function f) = num_params f" "param_words (strip_function f) = param_words f"
  "num_locals (strip_function f) = num_locals f" "entry_pc (strip_function f) = entry_pc f" "fn_name (strip_function f) = fn_name f"
  by (simp_all add: without_debug_def strip_function_def)

section \<open>The heap\<close>

named_theorems debug_free

lemma walk_free [debug_free]:
  "payload_size (without_debug m P) = payload_size P" "block_end (without_debug m P) = block_end P"
proof -
  show p: "payload_size (without_debug m P) = payload_size P" by (intro ext; unfold payload_size_def debug_free without_debug_fields; rule refl)
  show "block_end (without_debug m P) = block_end P" by (intro ext; unfold block_end_def p debug_free without_debug_fields; rule refl)
qed

lemma blocks_free [debug_free]: "blocks (without_debug m P) = blocks P" "object_starts (without_debug m P) = object_starts P"
proof -
  have walk: "blocks_from (without_debug m P) s a = blocks_from P s a" for s :: "'w vm" and a
  proof (induction P s a rule: blocks_from.induct)
    case (1 P s a)
    then show ?case by (subst (1 2) blocks_from.simps) (auto simp: debug_free intro!: bindR_cong)
  qed
  show b: "(blocks (without_debug m P) :: 'w vm \<Rightarrow> _) = blocks P" by (intro ext; unfold blocks_def walk debug_free without_debug_fields; rule refl)
  show "object_starts (without_debug m P) = object_starts P"
    by (intro ext; unfold object_starts_def blocks_def walk debug_free without_debug_fields; rule refl)
qed

lemma mark_free [debug_free]:
  "containing_object (without_debug m P) = containing_object P" "ref_addrs (without_debug m P) = ref_addrs P"
  "children (without_debug m P) = children P"
proof -
  show "containing_object (without_debug m P) = containing_object P" by (intro ext; unfold containing_object_def debug_free without_debug_fields; rule refl)
  show r: "ref_addrs (without_debug m P) = ref_addrs P" by (intro ext; unfold ref_addrs_def debug_free without_debug_fields; rule refl)
  show "children (without_debug m P) = children P" by (intro ext; unfold children_def r debug_free without_debug_fields; rule refl)
qed

lemma mark_from_free [debug_free]: "mark_from (without_debug m P) = mark_from P"
proof -
  have step_fact: "mark_loop (without_debug m P) starts pending s = mark_loop P starts pending s" for starts pending and s :: "'w vm"
  proof (induction P starts pending s rule: mark_loop.induct)
    case (1 P starts pending s)
    then show ?case
      by (subst (1 2) mark_loop.simps) (auto simp: debug_free intro!: bindR_cong split: list.splits option.splits)
  qed
  show ?thesis by (intro ext; unfold step_fact mark_from_def debug_free without_debug_fields; rule refl)
qed

lemma roots_free [debug_free]: "roots (without_debug m P) = roots P"
proof -
  have step_fact: "frame_roots (without_debug m P) = frame_roots P"
    by (intro ext) (auto simp: frame_roots_def function_fields split: prod.splits)
  show ?thesis by (intro ext; unfold step_fact roots_def debug_free without_debug_fields; rule refl)
qed

lemma plan_free [debug_free]: "plan_compaction (without_debug m P) = plan_compaction P"
proof -
  have step_fact: "plan_step (without_debug m P) = plan_step P" by (intro ext; unfold plan_step_def debug_free without_debug_fields; rule refl)
  show ?thesis by (intro ext; unfold step_fact plan_compaction_def debug_free without_debug_fields; rule refl)
qed

lemma update_free [debug_free]: "update_references (without_debug m P) = update_references P"
proof -
  have mv: "moved (without_debug m P) = moved P" for P by (intro ext; unfold moved_def debug_free without_debug_fields; rule refl)
  have ls: "move_locals (without_debug m P) = move_locals P"
    by (intro ext; auto simp: move_locals_def function_fields)
  have fr: "move_frame (without_debug m P) = move_frame P" by (intro ext; unfold move_frame_def ls debug_free without_debug_fields; rule refl)
  have w: "update_word (without_debug m P) = update_word P" for P by (intro ext; unfold update_word_def mv debug_free without_debug_fields; rule refl)
  have b: "update_block (without_debug m P) = update_block P" for P by (intro ext; unfold update_block_def w debug_free without_debug_fields; rule refl)
  have step_fact: "update_blocks (without_debug m P) fw starts a s = update_blocks P fw starts a s" for fw starts a and s :: "'w vm"
  proof (induction P fw starts a s rule: update_blocks.induct)
    case (1 P fw starts a s)
    from 1 show ?case by (subst (1 2) update_blocks.simps) (auto simp: debug_free b intro!: bindR_cong)
  qed
  show ?thesis by (intro ext; unfold step_fact update_references_def mv ls fr debug_free without_debug_fields; rule refl)
qed

lemma collect_free [debug_free]: "collect (without_debug m P) = collect P"
proof -
  have a: "slide_step (without_debug m P) = slide_step P" by (intro ext; unfold slide_step_def debug_free without_debug_fields; rule refl)
  have b: "slide (without_debug m P) = slide P" by (intro ext; unfold a slide_def debug_free without_debug_fields; rule refl)
  show ?thesis by (intro ext; unfold b collect_def debug_free without_debug_fields; rule refl)
qed

section \<open>Objects and instructions\<close>

lemma reserve_free [debug_free]: "reserve (without_debug m P) = reserve P"
  by (intro ext; unfold reserve_def debug_free without_debug_fields; rule refl)

lemma alloc_free [debug_free]:
  "alloc_struct (without_debug m P) = alloc_struct P" "alloc_array (without_debug m P) = alloc_array P"
  "alloc_raw (without_debug m P) = alloc_raw P" "alloc_string (without_debug m P) = alloc_string P"
  by (intro ext; unfold alloc_struct_def alloc_array_def alloc_raw_def alloc_string_def debug_free without_debug_fields; rule refl)+

lemma text_free [debug_free]: "string_from_text (without_debug m P) = string_from_text P" "field_is_ref (without_debug m P) = field_is_ref P"
  by (intro ext; unfold string_from_text_def field_is_ref_def debug_free without_debug_fields; rule refl)+

lemma slots_free [debug_free]: "current_ref_slots (without_debug m P) = current_ref_slots P"
  by (intro ext; auto simp: current_ref_slots_def function_fields)

lemma enter_free [debug_free]: "enter_function (without_debug m P) = enter_function P"
  by (intro ext) (auto simp: enter_function_def function_fields Let_def)

lemma exec_free [debug_free]:
  "exec_int (without_debug m P) = exec_int P" "exec_string (without_debug m P) = exec_string P" "exec_variant (without_debug m P) = exec_variant P"
  "exec_input ops (without_debug m P) = exec_input ops P" "exec_file ops (without_debug m P) = exec_file ops P"
  "exec_object (without_debug m P) = exec_object P" "exec_heap (without_debug m P) = exec_heap P" "exec_control (without_debug m P) = exec_control P"
  by (intro ext; unfold exec_int_def exec_string_def exec_variant_def exec_input_def exec_file_def exec_object_def exec_heap_def
    exec_control_def debug_free without_debug_fields; rule refl)+

lemma step_free: "step ops (without_debug m P) = step ops P"
  by (intro ext; unfold step_def exec_def exec_plain_def debug_free without_debug_fields; rule refl)

lemma run_free: "run ops (without_debug m P) n s = run ops P n s"
  by (induction n arbitrary: s) (simp_all add: step_free split: sum.split outcome.split)

section \<open>Booting\<close>

lemma literals_free: "materialise_literals (without_debug m P) = materialise_literals P" "materialise_variants (without_debug m P) = materialise_variants P"
proof -
  have sets: "set_literal (without_debug m P) = set_literal P" "set_variant (without_debug m P) = set_variant P"
    by (intro ext; unfold set_literal_def set_variant_def debug_free without_debug_fields; rule refl)+
  show "materialise_literals (without_debug m P) = materialise_literals P" "materialise_variants (without_debug m P) = materialise_variants P"
    by (intro ext; unfold sets materialise_literals_def materialise_variants_def debug_free without_debug_fields; rule refl)+
qed

lemma func_index_free: "func_index (without_debug m P) name = func_index P name"
  by (simp add: func_index_def without_debug_def strip_function_def comp_def)

lemma func_index_less: "func_index P name = Some i \<Longrightarrow> i < length (fns P)"
  by (auto simp: func_index_def dest!: map_of_SomeD set_zip_rightD)

lemma run_main_free: "run_main ops (without_debug m P) n s = run_main ops P n s"
  by (auto simp: run_main_def boot_def func_index_free literals_free run_free function_fields dest: func_index_less split: option.split sum.split)

end
