(* ===== verification/Pipeline.thy ===== *)
theory Pipeline
  imports Resolver Analyze Tables Stripped Backtrace CompileProgram
begin

text \<open>
  The phases put together: \<open>compiler/pipeline.py\<close> and the driver of \<open>compiler/driver_vm.py\<close> without its
  command line parser and its debugger. What is saved in a file is a program that runs as the one that
  was compiled.
\<close>

section \<open>From a file to a program\<close>

text \<open>The host as each phase sees it, and the fuel of the resolver.\<close>

record pipeline_env =
  pl_files :: host_files
  pl_std :: ustr
  pl_fuel :: nat
  pl_sema :: senv
  pl_literal :: "ustr \<Rightarrow> int option"

datatype compile_fault =
  ImportFault resolve_error | SemaFault sema_error | CodegenFault codegen_fault | FileFault ser_error

definition in_phase :: "('e \<Rightarrow> compile_fault) \<Rightarrow> 'e + 'a \<Rightarrow> compile_fault + 'a" where
  "in_phase f r = (case r of Inl e \<Rightarrow> Inl (f e) | Inr x \<Rightarrow> Inr x)"

definition generator_env :: "pipeline_env \<Rightarrow> sema \<Rightarrow> genv" where
  "generator_env W c = \<lparr>ge_host = s_host (pl_sema W), int_literal = pl_literal W, ge_structs = c_structs c, ge_variants = c_variants c\<rparr>"

definition compile_path :: "pipeline_env \<Rightarrow> ustr \<Rightarrow> compile_fault + program \<times> diagnostic list" where
  "compile_path W path =
     bindR (in_phase ImportFault (resolve (pl_files W) (pl_std W) (pl_fuel W) path)) (\<lambda>(prog, files).
     bindR (in_phase SemaFault (analyze_program (pl_sema W) prog)) (\<lambda>c.
     bindR (in_phase CodegenFault (generate_program (generator_env W c) (c_emit c))) (\<lambda>P.
       Inr (P, c_warnings c))))"

text \<open>Dispatched on the first bytes of the file; a loaded program has no warnings.\<close>

definition program_for :: "pipeline_env \<Rightarrow> (ustr \<Rightarrow> ustr + bytes) \<Rightarrow> ustr \<Rightarrow> compile_fault + program \<times> diagnostic list" where
  "program_for W fs path =
     (if is_bytecode fs path then bindR (in_phase FileFault (read_program fs path)) (\<lambda>P. Inr (P, []))
      else compile_path W path)"

text \<open>The label of an error; what has none is not a \<open>CompileError\<close> and is caught by nobody.\<close>

definition error_label :: "compile_fault \<Rightarrow> ustr option" where
  "error_label e = (case e of
     ImportFault (ResolveError _) \<Rightarrow> Some (lit ''Import error'')
   | SemaFault (SemanticError _ _ _ _) \<Rightarrow> Some (lit ''Semantic error'')
   | CodegenFault (CodegenError _ _ _) \<Rightarrow> Some (lit ''Codegen error'')
   | FileFault (BytecodeError _) \<Rightarrow> Some (lit ''Bytecode error'')
   | _ \<Rightarrow> None)"

definition describe_error :: "(compile_fault \<Rightarrow> ustr) \<Rightarrow> compile_fault \<Rightarrow> ustr" where
  "describe_error str e = (case error_label e of None \<Rightarrow> str e | Some l \<Rightarrow> l @ lit '': '' @ str e)"

section \<open>The driver\<close>

definition EXIT_COMPILE_ERROR :: int where "EXIT_COMPILE_ERROR = 2"
definition EXIT_FAULT :: int where "EXIT_FAULT = 3"

text \<open>\<open>value & 0xFF\<close>.\<close>

definition process_exit_code :: "int \<Rightarrow> int" where
  "process_exit_code v = v mod 256"

text \<open>The texts of errors and warnings, the bytes of an argument one character each, and the paths of a backtrace.\<close>

record driver_host =
  dh_text :: "compile_fault \<Rightarrow> ustr"
  dh_warning :: "diagnostic \<Rightarrow> ustr"
  dh_fault :: "vm_fault \<Rightarrow> ustr"
  dh_missing :: "ustr \<Rightarrow> ustr"
  dh_bytes :: "ustr \<Rightarrow> ustr"
  dh_paths :: host_paths

record command =
  cm_source :: ustr
  cm_emit :: "ustr option"
  cm_strip :: bool
  cm_args :: "ustr list"

text \<open>An exit with a code, an exception that leaves the driver, or a program still running when the fuel is used up.\<close>

datatype exit_status = Exited int | Escaped | Unfinished

record 'w process =
  status :: exit_status
  errors :: "ustr list"
  outside :: 'w
  disk :: "ustr \<Rightarrow> bytes option"

definition run_program :: "'w io_ops \<Rightarrow> driver_host \<Rightarrow> program \<Rightarrow> nat \<Rightarrow> 'w \<Rightarrow> exit_status \<times> ustr list \<times> 'w" where
  "run_program ops D P fuel w = (case boot P (new_vm w) of
     Inl (Host h) \<Rightarrow> (Escaped, [], w)
   | Inl (VMError f) \<Rightarrow> (Exited EXIT_FAULT, [lit ''Runtime error: '' @ dh_fault D f], w)
   | Inr s \<Rightarrow> (case run ops P fuel s of
       Exit v s' \<Rightarrow> (Exited (process_exit_code v), [], io s')
     | OutOfFuel s' \<Rightarrow> (Unfinished, [], io s')
     | Fault (Host h) s' \<Rightarrow> (Escaped, [], io s')
     | Fault (VMError f) s' \<Rightarrow>
         (case locate (dh_paths D) P (s'\<lparr>pc := pc s' + 1\<rparr>) \<lparr>le_message = dh_fault D f, le_location = [], le_frames = []\<rparr> of
            Inl h \<Rightarrow> (Escaped, [], io s')
          | Inr e \<Rightarrow> (Exited EXIT_FAULT, [lit ''Runtime error: '' @ le_message e], io s'))))"

definition reading :: "driver_host \<Rightarrow> (ustr \<Rightarrow> bytes option) \<Rightarrow> ustr \<Rightarrow> ustr + bytes" where
  "reading D fs p = (case fs p of None \<Rightarrow> Inl (dh_missing D p) | Some b \<Rightarrow> Inr b)"

text \<open>\<open>main\<close> after the arguments are parsed, without \<open>--debug\<close>.\<close>

definition run_driver :: "'w io_ops \<Rightarrow> pipeline_env \<Rightarrow> driver_host \<Rightarrow> command \<Rightarrow> (ustr \<Rightarrow> bytes option) \<Rightarrow> nat \<Rightarrow> 'w \<Rightarrow> 'w process" where
  "run_driver ops W D c fs fuel w = (case program_for W (reading D fs) (cm_source c) of
     Inl e \<Rightarrow>
       if error_label e = None then \<lparr>status = Escaped, errors = [], outside = w, disk = fs\<rparr>
       else \<lparr>status = Exited EXIT_COMPILE_ERROR, errors = [describe_error (dh_text D) e], outside = w, disk = fs\<rparr>
   | Inr (P, ws) \<Rightarrow>
       let warned = map (\<lambda>d. lit ''Warning: '' @ dh_warning D d) ws in
       (case cm_emit c of
         Some out \<Rightarrow> (case write_program fs P out (\<not> cm_strip c) of
             Inl e \<Rightarrow> \<lparr>status = Escaped, errors = warned, outside = w, disk = fs\<rparr>
           | Inr fs' \<Rightarrow> \<lparr>status = Exited 0, errors = warned, outside = w, disk = fs'\<rparr>)
       | None \<Rightarrow> (case run_program ops D (P\<lparr>prog_args := map (dh_bytes D) (cm_source c # cm_args c)\<rparr>) fuel w of
           (st, out, w') \<Rightarrow> \<lparr>status = st, errors = warned @ out, outside = w', disk = fs\<rparr>)))"

section \<open>Saved programs\<close>

text \<open>
  Claim C35. Every program the code generator gives has a source map with one position for each of
  its addresses, the addresses strictly increasing and none past the code, so that a search in it is
  sound, and literals numbered from 0 in order, no text twice.
\<close>

theorem program_tables:
  assumes "generate_program C tfs = Inr P"
  shows "length (positions (srcmap P)) = length (pcs (srcmap P)) \<and> sorted_wrt (<) (pcs (srcmap P))
    \<and> (\<forall>i < length (pcs (srcmap P)). pcs (srcmap P) ! i \<le> length (code P))
    \<and> map fst (strings P) = [0..<length (strings P)] \<and> distinct (map snd (strings P))"
  using generated_tables [OF assms] by auto

theorem program_tables_witness:
  "sorted_wrt (<) (pcs (srcmap count_program)) \<and> distinct (map snd (strings count_program))"
  using program_tables [OF count_generated] by blast

lemma dumps_magic: "dumps P debug = Inr bs \<Longrightarrow> take 4 bs = MAGIC"
  by (auto simp: dumps_def catR_eq result_simps)

lemma saved_generated:
  assumes "generate_program C tfs = Inr P"
  shows "file_ok P" and "sort_key fst (strings P) = strings P"
proof -
  obtain ts where ts: "strings P = enumerate 0 ts" using generated_tables(4) [OF assms] by blast
  then show "file_ok P" using generated_tables(1) [OF assms] by (simp add: file_ok_def distinct_enumerate)
  show "sort_key fst (strings P) = strings P" by (rule sort_key_id_if_sorted) (simp add: ts)
qed

lemma saved_run:
  assumes "sort_key fst (strings P) = strings P"
  shows "run_main ops ((saved debug P)\<lparr>prog_args := as\<rparr>) fuel s = run_main ops (P\<lparr>prog_args := as\<rparr>) fuel s"
proof (cases debug)
  case True
  then have "(saved debug P)\<lparr>prog_args := as\<rparr> = P\<lparr>prog_args := as\<rparr>" using assms by (simp add: saved_def)
  then show ?thesis by simp
next
  case False
  then have "(saved debug P)\<lparr>prog_args := as\<rparr> = without_debug empty_source_map (P\<lparr>prog_args := as\<rparr>)"
    using assms by (simp add: saved_def without_debug_def)
  then show ?thesis by (simp add: run_main_free)
qed

text \<open>
  Claim C34. What the code generator makes and the driver saves, with its debug information or
  without, is found again by the pipeline whatever the file is called, without the compiler being
  asked, and runs as the program that was saved: from every machine, with every argument list, the
  same instructions give the same exit value, the same fault or the same state.
\<close>

theorem saved_program_runs:
  assumes "generate_program C tfs = Inr P" and "dumps P debug = Inr bs" and "fs path = Inr bs"
  shows "\<exists>Q. program_for W fs path = Inr (Q, [])
    \<and> (\<forall>as fuel s. run_main ops (Q\<lparr>prog_args := as\<rparr>) fuel s = run_main ops (P\<lparr>prog_args := as\<rparr>) fuel s)"
proof -
  have "loads bs = Inr (saved debug P)"
    by (rule loads_of_reads(1) [OF file_reads [OF saved_generated(1) [OF assms(1)] assms(2)]])
  then have "program_for W fs path = Inr (saved debug P, [])"
    using dumps_magic [OF assms(2)] assms(3) by (simp add: program_for_def is_bytecode_def read_program_def in_phase_def)
  then show ?thesis using saved_run [OF saved_generated(2) [OF assms(1)]] by blast
qed

lemma count_dumps: "\<exists>bs. dumps count_program False = Inr bs"
  by (simp add: count_program_def dumps_def write_strings_def put_string_def write_structs_def
    write_functions_def put_function_def put_local_def write_code_def put_instruction_def write_source_map_def put_marker_def
    put_u32_int_def put_text_def put_u32_list_def lift_ser_def utf8_char_def surrogate_def put_u8_def put_u16_def put_u32_def pack_def
    lit_def catR.simps empty_source_map_def)

theorem saved_program_runs_witness:
  "\<forall>W path. \<exists>bs Q. program_for W (\<lambda>_. Inr bs) path = Inr (Q, [])
    \<and> run_main capture_ops (Q\<lparr>prog_args := []\<rparr>) 9 (new_vm no_io) = run_main capture_ops (count_program\<lparr>prog_args := []\<rparr>) 9 (new_vm no_io)"
proof (intro allI)
  fix W path
  obtain bs where "dumps count_program False = Inr bs" using count_dumps by blast
  from saved_program_runs [OF count_generated this, where fs = "\<lambda>_. Inr bs" and path = path and W = W and ops = capture_ops]
  show "\<exists>bs Q. program_for W (\<lambda>_. Inr bs) path = Inr (Q, [])
    \<and> run_main capture_ops (Q\<lparr>prog_args := []\<rparr>) 9 (new_vm no_io) = run_main capture_ops (count_program\<lparr>prog_args := []\<rparr>) 9 (new_vm no_io)" by blast
qed

section \<open>The end of a driver run\<close>

text \<open>
  The exit code is a byte; 2 is given, with nothing run and nothing written, when there is no program,
  and a file is only ever written by a run that was asked to.
\<close>

lemma driver_ends:
  assumes "run_driver ops W D c fs fuel w = p"
  shows "status p = Exited k \<Longrightarrow> 0 \<le> k \<and> k < 256"
    and "program_for W (reading D fs) (cm_source c) = Inl e \<Longrightarrow> error_label e \<noteq> None \<Longrightarrow> status p = Exited 2 \<and> outside p = w \<and> disk p = fs"
    and "cm_emit c = None \<Longrightarrow> disk p = fs"
    and "cm_emit c = Some out \<Longrightarrow> outside p = w \<and> (\<forall>q. q \<noteq> out \<longrightarrow> disk p q = fs q)"
proof -
  have code: "run_program ops D P fuel w = (Exited k, out, w') \<Longrightarrow> 0 \<le> k \<and> k < 256" for P k out w'
    by (auto simp: run_program_def EXIT_FAULT_def process_exit_code_def split: sum.splits vm_error.splits run_result.splits)
  then show "status p = Exited k \<Longrightarrow> 0 \<le> k \<and> k < 256"
    using assms by (auto simp: run_driver_def Let_def EXIT_COMPILE_ERROR_def split: sum.splits option.splits prod.splits if_splits)
  show "program_for W (reading D fs) (cm_source c) = Inl e \<Longrightarrow> error_label e \<noteq> None \<Longrightarrow> status p = Exited 2 \<and> outside p = w \<and> disk p = fs"
    using assms by (auto simp: run_driver_def EXIT_COMPILE_ERROR_def)
  show "cm_emit c = None \<Longrightarrow> disk p = fs"
    using assms by (auto simp: run_driver_def Let_def split: sum.splits option.splits prod.splits if_splits)
  show "cm_emit c = Some out \<Longrightarrow> outside p = w \<and> (\<forall>q. q \<noteq> out \<longrightarrow> disk p q = fs q)"
    using assms by (auto simp: run_driver_def Let_def write_program_def result_simps split: sum.splits option.splits prod.splits if_splits)
qed

section \<open>The pipeline under the debug adapter\<close>

text \<open>What a launch request is answered from.\<close>

definition compile_for_adapter :: "pipeline_env \<Rightarrow> driver_host \<Rightarrow> (ustr \<Rightarrow> ustr + bytes) \<Rightarrow> ustr \<Rightarrow> ustr + program \<times> ustr list" where
  "compile_for_adapter W D fs path = (case program_for W fs path of
     Inl e \<Rightarrow> Inl (describe_error (dh_text D) e)
   | Inr (P, ws) \<Rightarrow> Inr (P, map (dh_warning D) ws))"

end
