(* ===== verification/Session.thy ===== *)
theory Session
  imports DapValues Pipeline
begin

text \<open>
  The debug adapter's session, \<open>dap/session.py\<close>: two threads over one state. The request loop handles
  one request in a step; the program's thread runs one instruction, or one half of a stop, in a step.
  The steps interleave freely. A handler that raises ends the loop, with the state it had reached.
\<close>

section \<open>State\<close>

text \<open>
  What the session asks of its host: compiling a path (the text of the error, or the program and its
  warnings, as \<open>compile_for_adapter\<close> gives them), paths, characters, the text of a fault and of a host exception, bytes as text, \<open>int\<close> and \<open>str\<close> of the JSON
  values other than integers and texts, and how many steps of the program a join waits for.
\<close>

record adapter_env =
  ae_compile :: "ustr \<Rightarrow> ustr + program \<times> ustr list"
  ae_resolve :: "ustr \<Rightarrow> ustr"
  ae_base :: "ustr \<Rightarrow> ustr"
  ae_sep :: nat
  ae_paths :: host_paths
  ae_unicode :: unicode
  ae_space :: "nat \<Rightarrow> bool"
  ae_fault_text :: "vm_fault \<Rightarrow> ustr"
  ae_host_text :: "vm_error \<Rightarrow> ustr"
  ae_int :: "json \<Rightarrow> host_error + int"
  ae_str :: "json \<Rightarrow> ustr"
  ae_repr :: "bytes \<Rightarrow> ustr"
  ae_json_text :: "bytes \<Rightarrow> ustr"
  ae_true_real :: "ustr \<Rightarrow> bool"
  ae_real :: "ustr \<Rightarrow> ustr"
  ae_patience :: nat

record client_breakpoint =
  cb_id :: nat
  cb_function :: "ustr option"
  cb_client_path :: ustr
  cb_path :: ustr
  cb_line :: int
  cb_resolved_file :: ustr
  cb_resolved_line :: "int option"
  cb_message :: ustr
  cb_reported :: "json option"

text \<open>
  The program's thread: not started, about to boot, about to call the hook, parked in a stop (with the
  text of the fault if it is one), over.
  The machine's own input and output are the texts printed by the instruction that runs.
\<close>

datatype vm_thread = NoThread | Starting "ustr list vm" | Going "ustr list vm" | Parked "ustr list vm" stop ustr | Over

text \<open>
  A debugger belongs to the program it was made for; the thread keeps the one it was started with. The
  messages handed to the stream are kept in order beside the stream.
\<close>

record session =
  wire :: message_stream
  sent :: "(ustr \<times> json) list list"
  serving :: bool
  looping :: bool
  loaded :: "program option"
  launch_args :: "(ustr \<times> json) list option"
  configuration_done :: bool
  started :: bool
  stop_on_entry :: bool
  suspension :: "(stop \<times> mode option) option"
  disconnecting :: bool
  ended :: bool
  vm_thread :: vm_thread
  vm_program :: "program option"
  debuggers :: "(program \<times> debugger) list"
  current_debugger :: "nat option"
  thread_debugger :: nat
  faulted :: bool
  source_breakpoints :: "(ustr \<times> client_breakpoint list) list"
  function_breakpoints :: "client_breakpoint list"
  next_breakpoint_id :: nat
  hit_ids :: "(nat \<times> nat list) list"
  client_paths :: "(ustr \<times> ustr) list"
  session_handles :: handles
  input_warned :: bool

definition new_session :: "message_stream \<Rightarrow> session" where
  "new_session st = \<lparr>wire = st, sent = [], serving = True, looping = True, loaded = None, launch_args = None, configuration_done = False,
     started = False, stop_on_entry = False, suspension = None, disconnecting = False, ended = False, vm_thread = NoThread,
     vm_program = None, debuggers = [], current_debugger = None, thread_debugger = 0, faulted = False,
     source_breakpoints = [], function_breakpoints = [], next_breakpoint_id = 1, hit_ids = [], client_paths = [],
     session_handles = new_handles, input_warned = False\<rparr>"

type_synonym 'a handling = "(session, vm_error \<times> session, 'a) stateR"

definition crash :: "host_error \<Rightarrow> 'a handling" where
  "crash e s = Inl (Host e, s)"

definition lift_vm :: "vm_error + 'a \<Rightarrow> 'a handling" where
  "lift_vm r s = (case r of Inl e \<Rightarrow> Inl (e, s) | Inr x \<Rightarrow> Inr (x, s))"

section \<open>Sending\<close>

text \<open>A write that fails ends the loop after the request at hand.\<close>

definition send :: "(ustr \<times> json) list \<Rightarrow> session \<Rightarrow> session" where
  "send m s = (case write_message m (wire s) of
     (Inr _, w) \<Rightarrow> s\<lparr>wire := w, sent := sent s @ [m]\<rparr>
   | (Inl _, w) \<Rightarrow> s\<lparr>wire := w, sent := sent s @ [m], serving := False\<rparr>)"

definition emit :: "string \<Rightarrow> json option \<Rightarrow> session \<Rightarrow> session" where
  "emit name body = send (event (lit name) body)"

definition emit_output :: "string \<Rightarrow> ustr \<Rightarrow> session \<Rightarrow> session" where
  "emit_output category t = emit ''output'' (Some (JObject [(lit ''category'', JText (lit category)), (lit ''output'', JText t)]))"

definition reply :: "(ustr \<times> json) list \<Rightarrow> json option \<Rightarrow> session \<Rightarrow> session" where
  "reply request body = send (response request body True None)"

definition refuse :: "(ustr \<times> json) list \<Rightarrow> ustr \<Rightarrow> session \<Rightarrow> session" where
  "refuse request message = send (response request None False (Some message))"

section \<open>Values of a request\<close>

text \<open>Python's truth of a JSON value, \<open>x or {}\<close>, \<open>x or []\<close> and \<open>int(x or 0)\<close>.\<close>

definition truthy :: "adapter_env \<Rightarrow> json \<Rightarrow> bool" where
  "truthy E v = (case v of JNull \<Rightarrow> False | JBool b \<Rightarrow> b | JInt i \<Rightarrow> i \<noteq> 0 | JReal t \<Rightarrow> ae_true_real E t
     | JText t \<Rightarrow> t \<noteq> [] | JArray xs \<Rightarrow> xs \<noteq> [] | JObject ps \<Rightarrow> ps \<noteq> [])"

definition object_or_empty :: "adapter_env \<Rightarrow> json \<Rightarrow> (ustr \<times> json) list handling" where
  "object_or_empty E v = (if \<not> truthy E v then giveS [] else case v of JObject ps \<Rightarrow> giveS ps | _ \<Rightarrow> crash AttributeError)"

definition arguments_of :: "adapter_env \<Rightarrow> (ustr \<times> json) list \<Rightarrow> (ustr \<times> json) list handling" where
  "arguments_of E m = object_or_empty E (member (lit ''arguments'') JNull m)"

definition int_value :: "adapter_env \<Rightarrow> json \<Rightarrow> int handling" where
  "int_value E v s = (case v of JInt i \<Rightarrow> Inr (i, s)
     | _ \<Rightarrow> (case ae_int E v of Inl e \<Rightarrow> Inl (Host e, s) | Inr i \<Rightarrow> Inr (i, s)))"

definition int_or_zero :: "adapter_env \<Rightarrow> json \<Rightarrow> int handling" where
  "int_or_zero E v = (if truthy E v then int_value E v else giveS 0)"

definition text_value :: "adapter_env \<Rightarrow> json \<Rightarrow> ustr" where
  "text_value E v = (case v of JText t \<Rightarrow> t | _ \<Rightarrow> ae_str E v)"

text \<open>A list of objects to iterate over, absent or empty ones included.\<close>

definition wanted_list :: "adapter_env \<Rightarrow> json \<Rightarrow> (ustr \<times> json) list list handling" where
  "wanted_list E v =
     (if \<not> truthy E v then giveS []
      else case v of
        JArray xs \<Rightarrow> mapS (\<lambda>x. case x of JObject ps \<Rightarrow> giveS ps | _ \<Rightarrow> crash AttributeError) xs
      | JText t \<Rightarrow> crash AttributeError
      | JObject ps \<Rightarrow> crash AttributeError
      | _ \<Rightarrow> crash TypeError)"

text \<open>\<open>is_identifier\<close>: the lexer's rule for a name.\<close>

definition is_identifier :: "unicode \<Rightarrow> ustr \<Rightarrow> bool" where
  "is_identifier U t \<longleftrightarrow> (case t of [] \<Rightarrow> False
     | c # r \<Rightarrow> (is_alpha U c \<or> c = 95) \<and> (\<forall>x \<in> set r. is_alnum U x \<or> x = 95))"

text \<open>A slice \<open>xs[start:stop]\<close>, negative indices counting from the end.\<close>

definition py_slice :: "'a list \<Rightarrow> int \<Rightarrow> int \<Rightarrow> 'a list" where
  "py_slice xs start stop =
     (let n = int (length xs);
          fit = (\<lambda>i. nat (if i < 0 then max 0 (i + n) else min i n))
      in drop (fit start) (take (fit stop) xs))"

section \<open>Files and debuggers\<close>

definition source_body :: "adapter_env \<Rightarrow> session \<Rightarrow> ustr \<Rightarrow> json" where
  "source_body E s path = JObject
     [(lit ''path'', JText (case map_of (client_paths s) path of Some p \<Rightarrow> p | None \<Rightarrow> path)), (lit ''name'', JText (ae_base E path))]"

definition remember_path :: "adapter_env \<Rightarrow> ustr \<Rightarrow> ustr handling" where
  "remember_path E client_path s =
     Inr (ae_resolve E client_path, s\<lparr>client_paths := dict_set (ae_resolve E client_path) client_path (client_paths s)\<rparr>)"

definition set_debugger :: "nat \<Rightarrow> debugger \<Rightarrow> session \<Rightarrow> session" where
  "set_debugger i d s = s\<lparr>debuggers := (debuggers s)[i := (fst (debuggers s ! i), d)]\<rparr>"

definition ask_pause :: "session \<Rightarrow> session" where
  "ask_pause s = (case current_debugger s of
     None \<Rightarrow> s
   | Some i \<Rightarrow> set_debugger i ((snd (debuggers s ! i))\<lparr>pause_requested := True\<rparr>) s)"

text \<open>What a refused breakpoint says.\<close>

definition debugger_text :: "debugger_error \<Rightarrow> ustr" where
  "debugger_text e = (case e of
     NoFunction name \<Rightarrow> lit ''no function named '' @ [39] @ name @ [39]
   | NoSourceFile wanted \<Rightarrow> lit ''no source file matching '' @ [39] @ wanted @ [39]
   | NoCodeAfter l wanted \<Rightarrow> lit ''no code at or after line '' @ dec_int l @ lit '' in '' @ wanted
   | NoBreakpoint i \<Rightarrow> lit ''no breakpoint '' @ dec_nat i)"

definition breakpoint_body :: "adapter_env \<Rightarrow> session \<Rightarrow> client_breakpoint \<Rightarrow> json" where
  "breakpoint_body E s r =
     (let verified = cb_resolved_line r \<noteq> None;
          common = [(lit ''id'', JInt (int (cb_id r))), (lit ''verified'', JBool verified)]
            @ (if cb_message r \<noteq> [] then [(lit ''message'', JText (cb_message r))] else []);
          line_at = (case cb_resolved_line r of Some l \<Rightarrow> l | None \<Rightarrow> cb_line r)
      in JObject (common @
        (if cb_function r \<noteq> None then
           (if verified then [(lit ''source'', source_body E s (cb_resolved_file r)), (lit ''line'', JInt line_at)] else [])
         else [(lit ''line'', JInt line_at),
           (lit ''source'', JObject [(lit ''path'', JText (cb_client_path r)), (lit ''name'', JText (ae_base E (cb_client_path r)))])])))"

text \<open>\<open>ClientBreakpoint.resolve\<close>: where the debugger puts it, or why not.\<close>

definition resolve_breakpoint :: "adapter_env \<Rightarrow> program \<Rightarrow> client_breakpoint \<Rightarrow> debugger
    \<Rightarrow> vm_error + client_breakpoint \<times> nat option \<times> debugger" where
  "resolve_breakpoint E P r d =
     bindR (case cb_function r of
         Some name \<Rightarrow> break_at_function P name d
       | None \<Rightarrow> Inr (break_at_line (ae_sep E) P (cb_line r) (cb_path r) d)) (\<lambda>placed. Inr (case placed of
       Inl e \<Rightarrow> (r\<lparr>cb_resolved_file := [], cb_resolved_line := None, cb_message := debugger_text e\<rparr>, None, d)
     | Inr (i, d') \<Rightarrow> (case map_of (breakpoints d') i of
         Some bp \<Rightarrow> (r\<lparr>cb_resolved_file := bp_file bp, cb_resolved_line := Some (bp_line bp), cb_message := []\<rparr>, Some i, d')
       | None \<Rightarrow> (r, None, d'))))"

text \<open>Placing the records in turn; two that land on one pc share the debugger's breakpoint.\<close>

fun place_records :: "adapter_env \<Rightarrow> program \<Rightarrow> client_breakpoint list \<Rightarrow> debugger \<Rightarrow> (nat \<times> nat list) list
    \<Rightarrow> vm_error + client_breakpoint list \<times> debugger \<times> (nat \<times> nat list) list" where
  "place_records E P [] d hits = Inr ([], d, hits)"
| "place_records E P (r # rs) d hits =
     bindR (resolve_breakpoint E P r d) (\<lambda>(r', bp, d1).
     bindR (place_records E P rs d1 (case bp of
         None \<Rightarrow> hits
       | Some i \<Rightarrow> dict_set i ((case map_of hits i of None \<Rightarrow> [] | Some ids \<Rightarrow> ids) @ [cb_id r]) hits)) (\<lambda>(rs', d2, hits').
       Inr (r' # rs', d2, hits')))"

fun place_sources :: "adapter_env \<Rightarrow> program \<Rightarrow> (ustr \<times> client_breakpoint list) list \<Rightarrow> debugger \<Rightarrow> (nat \<times> nat list) list
    \<Rightarrow> vm_error + (ustr \<times> client_breakpoint list) list \<times> debugger \<times> (nat \<times> nat list) list" where
  "place_sources E P [] d hits = Inr ([], d, hits)"
| "place_sources E P ((path, rs) # rest) d hits =
     bindR (place_records E P rs d hits) (\<lambda>(rs', d1, hits1).
     bindR (place_sources E P rest d1 hits1) (\<lambda>(rest', d2, hits2). Inr ((path, rs') # rest', d2, hits2)))"

definition place_breakpoints :: "adapter_env \<Rightarrow> unit handling" where
  "place_breakpoints E s = (case current_debugger s of
     None \<Rightarrow> Inr ((), s)
   | Some i \<Rightarrow> (case debuggers s ! i of (P, d) \<Rightarrow>
       bindS (lift_vm (bindR (place_records E P (function_breakpoints s) (clear_breakpoints d) []) (\<lambda>(fs, d1, hits1).
           bindR (place_sources E P (source_breakpoints s) d1 hits1) (\<lambda>(ss, d2, hits2). Inr (fs, ss, d2, hits2)))))
         (\<lambda>(fs, ss, d2, hits2). updS (\<lambda>s. set_debugger i d2 s\<lparr>function_breakpoints := fs, source_breakpoints := ss, hit_ids := hits2\<rparr>)) s))"

text \<open>Only a record the client has been told about is news when it changes.\<close>

definition report_record :: "adapter_env \<Rightarrow> client_breakpoint \<Rightarrow> session \<Rightarrow> client_breakpoint \<times> session" where
  "report_record E r s =
     (let body = breakpoint_body E s r in
      (r\<lparr>cb_reported := Some body\<rparr>,
       if cb_reported r \<noteq> None \<and> cb_reported r \<noteq> Some body
       then emit ''breakpoint'' (Some (JObject [(lit ''reason'', JText (lit ''changed'')), (lit ''breakpoint'', body)])) s else s))"

fun report_records :: "adapter_env \<Rightarrow> client_breakpoint list \<Rightarrow> session \<Rightarrow> client_breakpoint list \<times> session" where
  "report_records E [] s = ([], s)"
| "report_records E (r # rs) s = (case report_record E r s of (r', s1) \<Rightarrow>
     (case report_records E rs s1 of (rs', s2) \<Rightarrow> (r' # rs', s2)))"

fun report_sources :: "adapter_env \<Rightarrow> (ustr \<times> client_breakpoint list) list \<Rightarrow> session \<Rightarrow> (ustr \<times> client_breakpoint list) list \<times> session" where
  "report_sources E [] s = ([], s)"
| "report_sources E ((path, rs) # rest) s = (case report_records E rs s of (rs', s1) \<Rightarrow>
     (case report_sources E rest s1 of (rest', s2) \<Rightarrow> ((path, rs') # rest', s2)))"

definition report_breakpoints :: "adapter_env \<Rightarrow> session \<Rightarrow> session" where
  "report_breakpoints E s =
     (case report_records E (function_breakpoints s) s of (fs, s1) \<Rightarrow>
        (case report_sources E (source_breakpoints s1) s1 of (ss, s2) \<Rightarrow>
           s2\<lparr>function_breakpoints := fs, source_breakpoints := ss\<rparr>))"

definition rebuild_breakpoints :: "adapter_env \<Rightarrow> unit handling" where
  "rebuild_breakpoints E = bindS (place_breakpoints E) (\<lambda>_. updS (report_breakpoints E))"

section \<open>The end of the program\<close>

definition EXIT_RUNTIME_ERROR :: int where "EXIT_RUNTIME_ERROR = 3"

text \<open>\<open>_end\<close>, once.\<close>

definition end_program :: "int option \<Rightarrow> session \<Rightarrow> session" where
  "end_program exit_code s =
     (if ended s then s
      else let s1 = s\<lparr>ended := True\<rparr>;
        s2 = (case exit_code of None \<Rightarrow> s1 | Some c \<Rightarrow> emit ''exited'' (Some (JObject [(lit ''exitCode'', JInt c)])) s1)
      in emit ''terminated'' None s2)"

definition thread_ends :: "session \<Rightarrow> session" where
  "thread_ends s = s\<lparr>vm_thread := Over\<rparr>"

definition program_exits :: "int \<Rightarrow> session \<Rightarrow> session" where
  "program_exits v s = thread_ends (end_program (Some (process_exit_code v))
     (emit_output ''console'' (lit ''Program exited with code '' @ dec_int (process_exit_code v) @ [10]) s))"

definition program_quits :: "session \<Rightarrow> session" where
  "program_quits s = thread_ends (end_program (if faulted s then Some EXIT_RUNTIME_ERROR else None) s)"

definition program_faults :: "ustr \<Rightarrow> session \<Rightarrow> session" where
  "program_faults message s = thread_ends (end_program (Some EXIT_RUNTIME_ERROR)
     (emit_output ''stderr'' (lit ''Runtime error: '' @ message @ [10]) s))"

definition adapter_fails :: "adapter_env \<Rightarrow> vm_error \<Rightarrow> session \<Rightarrow> session" where
  "adapter_fails E e s = thread_ends (end_program None (emit_output ''stderr'' (lit ''Adapter error: '' @ ae_host_text E e @ [10]) s))"

section \<open>The program's thread\<close>

text \<open>\<open>AdapterIO\<close>: output only, and none of the operations on files.\<close>

definition no_file :: os_error where
  "no_file = \<lparr>os_text = [], os_class = []\<rparr>"

definition adapter_ops :: "ustr list io_ops" where
  "adapter_ops = \<lparr>io_write = (\<lambda>t w. w @ [t]), io_read_line = (\<lambda>w. ([], w)),
     io_read_file = (\<lambda>_ w. (Inl no_file, w)), io_write_file = (\<lambda>_ _ _ w. (Inl no_file, w)),
     io_file_exists = (\<lambda>_ w. (Inl no_file, w)), io_delete_file = (\<lambda>_ w. (Inl no_file, w))\<rparr>"

text \<open>The instruction gets as far as asking for a file, which \<open>AdapterIO\<close> has no attribute for.\<close>

definition asks_for_file :: "instruction \<Rightarrow> ustr list vm \<Rightarrow> bool" where
  "asks_for_file i vm \<longleftrightarrow>
     (if op i \<in> {FILE_READ, FILE_EXISTS, FILE_DELETE, FILE_READ_BYTES} then (\<exists>r. pop_text vm = Inr r)
      else if op i \<in> {FILE_WRITE, FILE_APPEND} then (\<exists>r. bindR (pop_string vm) (\<lambda>(d, vm1). pop_text vm1) = Inr r)
      else if op i = FILE_WRITE_BYTES then
        (\<exists>r. bindR (pop vm) (\<lambda>(a, vm1). bindR (array_bytes a (lit ''file_write_bytes'') vm1) (\<lambda>d. pop_text vm1)) = Inr r)
      else False)"

definition warn_input :: "instruction \<Rightarrow> session \<Rightarrow> session" where
  "warn_input i s =
     (if op i = READ_LINE \<and> \<not> input_warned s
      then emit_output ''console'' (lit ''Program input is not available under the debugger; read_line() reports end of input.'' @ [10])
        (s\<lparr>input_warned := True\<rparr>)
      else s)"

definition flush_output :: "ustr list vm \<Rightarrow> session \<Rightarrow> session" where
  "flush_output vm s = fold (emit_output ''stdout'') (io vm) s"

definition own_debugger :: "session \<Rightarrow> program \<times> debugger" where
  "own_debugger s = debuggers s ! thread_debugger s"

definition reason_text :: "stop_reason \<Rightarrow> string" where
  "reason_text r = (case r of EntryStop \<Rightarrow> ''entry'' | BreakpointStop \<Rightarrow> ''breakpoint'' | StepStop \<Rightarrow> ''step''
     | PauseStop \<Rightarrow> ''pause'' | FaultStop \<Rightarrow> ''exception'')"

definition stopped_body :: "session \<Rightarrow> stop \<Rightarrow> ustr \<Rightarrow> json" where
  "stopped_body s st message = JObject
     ([(lit ''reason'', JText (lit (reason_text (stop_why st)))), (lit ''threadId'', JInt 1), (lit ''allThreadsStopped'', JBool True)]
      @ (case stop_breakpoint st of
           None \<Rightarrow> []
         | Some bp \<Rightarrow> [(lit ''hitBreakpointIds'', JArray (map (\<lambda>n. JInt (int n))
             (case map_of (hit_ids s) (bp_id bp) of None \<Rightarrow> [] | Some ids \<Rightarrow> ids)))])
      @ (case stop_error st of
           None \<Rightarrow> []
         | Some _ \<Rightarrow> [(lit ''description'', JText (lit ''Runtime error'')), (lit ''text'', JText message)]))"

text \<open>The first half of \<open>_on_stop\<close>: announce the stop and park, unless the session is ending.\<close>

definition announce :: "ustr list vm \<Rightarrow> stop \<Rightarrow> ustr \<Rightarrow> session \<Rightarrow> session" where
  "announce vm st message s =
     (let s1 = (if stop_why st = FaultStop
          then emit_output ''stderr'' (lit ''Runtime error: '' @ message @ [10]) (s\<lparr>faulted := True\<rparr>) else s)
      in if disconnecting s1 then program_quits s1
         else emit ''stopped'' (Some (stopped_body s1 st message))
           (s1\<lparr>session_handles := clear_handles (session_handles s1), suspension := Some (st, None), vm_thread := Parked vm st message\<rparr>))"

definition fault_stops :: "adapter_env \<Rightarrow> vm_error \<Rightarrow> ustr \<Rightarrow> ustr list vm \<Rightarrow> session \<Rightarrow> session" where
  "fault_stops E e message vm s = (case own_debugger s of (P, d) \<Rightarrow> (case innermost P vm of
     Inl h \<Rightarrow> adapter_fails E h s
   | Inr fr \<Rightarrow> announce vm \<lparr>stop_why = FaultStop, stop_frame = fr, stop_breakpoint = None, stop_error = Some e\<rparr> message
       (set_debugger (thread_debugger s) (d\<lparr>dmode := None\<rparr>) s)))"

definition located_text :: "adapter_env \<Rightarrow> program \<Rightarrow> ustr list vm \<Rightarrow> vm_fault \<Rightarrow> host_error + ustr" where
  "located_text E P vm f = bindR (locate (ae_paths E) P vm \<lparr>le_message = ae_fault_text E f, le_location = [], le_frames = []\<rparr>)
     (\<lambda>e. Inr (le_message e))"

text \<open>The instruction at which the hook has let the machine go on.\<close>

definition execute :: "adapter_env \<Rightarrow> program \<Rightarrow> ustr list vm \<Rightarrow> session \<Rightarrow> session" where
  "execute E P vm s = (case py_index (code P) (pc vm) of
     None \<Rightarrow> adapter_fails E (Host IndexError) s
   | Some i \<Rightarrow> let s1 = warn_input i s; past = vm\<lparr>pc := pc vm + 1\<rparr> in
       if asks_for_file i past then adapter_fails E (Host AttributeError) s1
       else case step adapter_ops P (vm\<lparr>io := []\<rparr>) of
         Inl (Host h) \<Rightarrow> adapter_fails E (Host h) s1
       | Inl (VMError f) \<Rightarrow> (case located_text E P past f of
           Inl h \<Rightarrow> adapter_fails E (Host h) s1
         | Inr message \<Rightarrow> fault_stops E (VMError f) message past s1)
       | Inr (Finished v vm') \<Rightarrow> program_exits v (flush_output vm' s1)
       | Inr (Running vm') \<Rightarrow> (flush_output vm' s1)\<lparr>vm_thread := Going (vm'\<lparr>io := []\<rparr>)\<rparr>)"

text \<open>The hook with the front end left out: what stop it wants, if any.\<close>

definition wants_stop :: "(ustr list, stop option) front_end" where
  "wants_stop st vm d f = (Some Quit, d, Some st)"

definition before_instruction :: "adapter_env \<Rightarrow> program \<Rightarrow> ustr list vm \<Rightarrow> session \<Rightarrow> session" where
  "before_instruction E P vm s = (case own_debugger s of (DP, d) \<Rightarrow>
     (case on_instruction wants_stop DP vm d None of (raised, d1, wanted) \<Rightarrow>
       let s1 = set_debugger (thread_debugger s) d1 s in
       case raised of
         None \<Rightarrow> execute E P vm s1
       | Some (HostFails e) \<Rightarrow> adapter_fails E e s1
       | Some _ \<Rightarrow> (case wanted of
           None \<Rightarrow> s1
         | Some st \<Rightarrow>
             if stop_why st = EntryStop \<and> \<not> stop_on_entry s then
               (case resume DP RunFree vm 0 d1 of
                  Inl e \<Rightarrow> adapter_fails E e s1
                | Inr d2 \<Rightarrow> execute E P vm (set_debugger (thread_debugger s) d2 s1))
             else announce vm st [] s1)))"

text \<open>The second half of \<open>_on_stop\<close>, once there is a mode or the session is ending.\<close>

definition wake :: "adapter_env \<Rightarrow> program \<Rightarrow> ustr list vm \<Rightarrow> stop \<Rightarrow> ustr \<Rightarrow> session \<Rightarrow> session" where
  "wake E P vm st message s =
     (let s1 = s\<lparr>suspension := None\<rparr> in
      if disconnecting s then program_quits s1
      else case suspension s of
        Some (_, Some m) \<Rightarrow> (case own_debugger s of (DP, d) \<Rightarrow> (case resume DP m vm 0 d of
            Inl e \<Rightarrow> adapter_fails E e s1
          | Inr d1 \<Rightarrow> let s2 = set_debugger (thread_debugger s) d1 s1 in
              if stop_why st = FaultStop then program_faults message s2 else execute E P vm s2))
      | _ \<Rightarrow> s)"

definition program_step :: "adapter_env \<Rightarrow> session \<Rightarrow> session" where
  "program_step E s = (case vm_program s of
     None \<Rightarrow> s
   | Some P \<Rightarrow> (case vm_thread s of
       NoThread \<Rightarrow> s
     | Over \<Rightarrow> s
     | Starting vm \<Rightarrow> (case boot P vm of
         Inl (Host h) \<Rightarrow> adapter_fails E (Host h) s
       | Inl (VMError f) \<Rightarrow> fault_stops E (VMError f) (ae_fault_text E f) vm s
       | Inr vm1 \<Rightarrow> s\<lparr>vm_thread := Going vm1\<rparr>)
     | Going vm \<Rightarrow> if int (length (code P)) \<le> pc vm then program_exits 0 s else before_instruction E P vm s
     | Parked vm st message \<Rightarrow> wake E P vm st message s))"

definition alive :: "session \<Rightarrow> bool" where
  "alive s \<longleftrightarrow> vm_thread s \<noteq> NoThread \<and> vm_thread s \<noteq> Over"

fun join_program :: "adapter_env \<Rightarrow> nat \<Rightarrow> session \<Rightarrow> session" where
  "join_program E 0 s = s"
| "join_program E (Suc n) s = (if alive s then join_program E n (program_step E s) else s)"

definition kill_program :: "adapter_env \<Rightarrow> session \<Rightarrow> session" where
  "kill_program E s = (if alive s then join_program E (ae_patience E) (ask_pause (s\<lparr>disconnecting := True\<rparr>)) else s)"

definition end_session :: "adapter_env \<Rightarrow> session \<Rightarrow> session" where
  "end_session E s =
     (let s1 = kill_program E s;
          s2 = (if started s1 then end_program (if faulted s1 then Some EXIT_RUNTIME_ERROR else None) s1 else s1)
      in s2\<lparr>serving := False\<rparr>)"

definition wait_for_program :: "adapter_env \<Rightarrow> session \<Rightarrow> session" where
  "wait_for_program E s =
     (if vm_thread s = NoThread then s
      else let s1 = (if suspension s = None then join_program E (ae_patience E) s else s)
      in if alive s1 then kill_program E s1 else s1)"

section \<open>Requests\<close>

definition capabilities :: json where
  "capabilities = JObject
     ([(lit ''supportsConfigurationDoneRequest'', JBool True), (lit ''supportsTerminateRequest'', JBool True),
       (lit ''supportsCancelRequest'', JBool False), (lit ''supportsFunctionBreakpoints'', JBool True),
       (lit ''supportsEvaluateForHovers'', JBool True), (lit ''supportsSetVariable'', JBool False),
       (lit ''supportsConditionalBreakpoints'', JBool False), (lit ''supportsHitConditionalBreakpoints'', JBool False),
       (lit ''supportsStepBack'', JBool False), (lit ''supportsRestartRequest'', JBool False),
       (lit ''supportsExceptionInfoRequest'', JBool False), (lit ''exceptionBreakpointFilters'', JArray [])])"

definition on_initialize :: "(ustr \<times> json) list \<Rightarrow> unit handling" where
  "on_initialize m = updS (\<lambda>s. emit ''initialized'' None (reply m (Some capabilities) s))"

text \<open>
  \<open>_start_if_ready\<close>: the second of \<open>launch\<close> and \<open>configurationDone\<close> starts the program. The program's
  arguments are taken to be texts; another value is refused here and not when the program asks for it.
\<close>

definition argument_texts :: "adapter_env \<Rightarrow> json \<Rightarrow> ustr list handling" where
  "argument_texts E v =
     (if \<not> truthy E v then giveS []
      else case v of
        JArray xs \<Rightarrow> mapS (\<lambda>x. case x of JText t \<Rightarrow> giveS t | _ \<Rightarrow> crash TypeError) xs
      | JText t \<Rightarrow> giveS (map (\<lambda>c. [c]) t)
      | JObject ps \<Rightarrow> giveS (map fst ps)
      | _ \<Rightarrow> crash TypeError)"

definition start_if_ready :: "adapter_env \<Rightarrow> unit handling" where
  "start_if_ready E = bindS (askS (\<lambda>s. (started s, loaded s, configuration_done s, launch_args s, current_debugger s))) (\<lambda>(st, prog, conf, largs, cur).
     case prog of
       Some P \<Rightarrow> if st \<or> \<not> conf then giveS ()
         else bindS (updS (\<lambda>s. s\<lparr>started := True\<rparr>)) (\<lambda>_.
           let args = (case largs of None \<Rightarrow> [] | Some a \<Rightarrow> a) in
           bindS (argument_texts E (member (lit ''args'') JNull args)) (\<lambda>texts.
             updS (\<lambda>s. s\<lparr>vm_program := Some (P\<lparr>prog_args := text_value E (member (lit ''program'') (JText []) args) # texts\<rparr>),
               vm_thread := Starting (new_vm []), thread_debugger := (case cur of Some i \<Rightarrow> i | None \<Rightarrow> 0)\<rparr>)))
     | None \<Rightarrow> giveS ())"

definition on_launch :: "adapter_env \<Rightarrow> (ustr \<times> json) list \<Rightarrow> unit handling" where
  "on_launch E m = bindS (arguments_of E m) (\<lambda>args.
     let path = member (lit ''program'') JNull args in
     if \<not> truthy E path then updS (refuse m (lit ''launch needs a '' @ [39] @ lit ''program'' @ [39] @ lit '' path''))
     else case path of
       JText p \<Rightarrow> bindS (remember_path E p) (\<lambda>_. case ae_compile E p of
           Inl message \<Rightarrow> updS (\<lambda>s. end_program None (refuse m message (emit_output ''stderr'' (message @ [10]) s)))
         | Inr (P, warnings) \<Rightarrow>
             bindS (updS (\<lambda>s. fold (\<lambda>w. emit_output ''stderr'' (lit ''Warning: '' @ w @ [10])) warnings s)) (\<lambda>_.
             bindS (updS (\<lambda>s. reply m None (s\<lparr>loaded := Some P, launch_args := Some args,
                 stop_on_entry := truthy E (member (lit ''stopOnEntry'') JNull args),
                 debuggers := debuggers s @ [(P, new_debugger)], current_debugger := Some (length (debuggers s))\<rparr>))) (\<lambda>_.
             bindS (rebuild_breakpoints E) (\<lambda>_. start_if_ready E))))
     | _ \<Rightarrow> crash TypeError)"

definition on_configuration_done :: "adapter_env \<Rightarrow> (ustr \<times> json) list \<Rightarrow> unit handling" where
  "on_configuration_done E m = bindS (updS (\<lambda>s. reply m None (s\<lparr>configuration_done := True\<rparr>))) (\<lambda>_. start_if_ready E)"

text \<open>The program and machine that may be read: only those of a parked thread.\<close>

definition suspended_view :: "session \<Rightarrow> (program \<times> ustr list vm) option" where
  "suspended_view s = (case suspension s of
     None \<Rightarrow> None
   | Some _ \<Rightarrow> (case (vm_thread s, current_debugger s) of
       (Parked vm st message, Some i) \<Rightarrow> Some (fst (debuggers s ! i), vm)
     | _ \<Rightarrow> None))"

definition require_suspended :: "(ustr \<times> json) list \<Rightarrow> (program \<Rightarrow> ustr list vm \<Rightarrow> unit handling) \<Rightarrow> unit handling" where
  "require_suspended m k = bindS (askS suspended_view) (\<lambda>found. case found of
     None \<Rightarrow> updS (refuse m (lit ''the program is not suspended''))
   | Some (P, vm) \<Rightarrow> k P vm)"

definition new_handle :: "(handles \<Rightarrow> nat \<times> handles) \<Rightarrow> nat handling" where
  "new_handle f s = (case f (session_handles s) of (n, h) \<Rightarrow> Inr (n, s\<lparr>session_handles := h\<rparr>))"

definition stack_frame :: "adapter_env \<Rightarrow> frame_view \<Rightarrow> json handling" where
  "stack_frame E fv = bindS (new_handle (frame_handle (fv_depth fv))) (\<lambda>n. askS (\<lambda>s. JObject
     ([(lit ''id'', JInt (int n)), (lit ''name'', JText (fv_function fv)),
       (lit ''line'', JInt (case fv_line fv of None \<Rightarrow> 0 | Some l \<Rightarrow> l)), (lit ''column'', JInt (case fv_col fv of None \<Rightarrow> 0 | Some c \<Rightarrow> c))]
      @ (if fv_file fv \<noteq> [] then [(lit ''source'', source_body E s (fv_file fv))] else []))))"

definition on_stack_trace :: "adapter_env \<Rightarrow> (ustr \<times> json) list \<Rightarrow> unit handling" where
  "on_stack_trace E m = require_suspended m (\<lambda>P vm.
     bindS (arguments_of E m) (\<lambda>args.
     bindS (lift_vm (frames P vm)) (\<lambda>fs.
     bindS (int_or_zero E (member (lit ''startFrame'') JNull args)) (\<lambda>start.
     bindS (int_or_zero E (member (lit ''levels'') JNull args)) (\<lambda>levels.
     bindS (mapS (stack_frame E) (py_slice fs start (if levels \<noteq> 0 then start + levels else int (length fs)))) (\<lambda>shown.
       updS (reply m (Some (JObject [(lit ''stackFrames'', JArray shown), (lit ''totalFrames'', JInt (int (length fs)))])))))))))"

definition frame_for :: "adapter_env \<Rightarrow> program \<Rightarrow> ustr list vm \<Rightarrow> json \<Rightarrow> frame_view option handling" where
  "frame_for E P vm frame_id = bindS (lift_vm (frames P vm)) (\<lambda>fs.
     if frame_id = JNull then giveS (case fs of [] \<Rightarrow> None | f # _ \<Rightarrow> Some f)
     else bindS (int_value E frame_id) (\<lambda>n. askS (\<lambda>s. case get_handle n (session_handles s) of
         Some (FrameEntry depth) \<Rightarrow> if depth < length fs then Some (fs ! depth) else None
       | _ \<Rightarrow> None)))"

definition on_scopes :: "adapter_env \<Rightarrow> (ustr \<times> json) list \<Rightarrow> unit handling" where
  "on_scopes E m = require_suspended m (\<lambda>P vm.
     bindS (arguments_of E m) (\<lambda>args.
     bindS (frame_for E P vm (member (lit ''frameId'') JNull args)) (\<lambda>found. case found of
       None \<Rightarrow> updS (refuse m (lit ''unknown frame''))
     | Some fv \<Rightarrow> bindS (new_handle (locals_handle (fv_depth fv))) (\<lambda>n.
         updS (reply m (Some (JObject [(lit ''scopes'', JArray [JObject
           [(lit ''name'', JText (lit ''Locals'')), (lit ''presentationHint'', JText (lit ''locals'')),
            (lit ''variablesReference'', JInt (int n)), (lit ''expensive'', JBool False)]])])))))))"

definition local_variable :: "program \<Rightarrow> ustr list vm \<Rightarrow> frame_view \<Rightarrow> local_info \<Rightarrow> json handling" where
  "local_variable P vm fv li = bindS (lift_vm (describe_local P vm fv li)) (\<lambda>v.
     let shadowed = 1 < length (filter (\<lambda>other. li_name other = li_name li) (locals_of P fv)) in
     bindS (new_handle (value_handle v)) (\<lambda>n. giveS (variable_body
       (if shadowed then li_name li @ lit '' (slot '' @ dec_nat (li_slot li) @ lit '')'' else li_name li) v n
       (if shadowed then None else Some (li_name li)))))"

definition frame_variables :: "program \<Rightarrow> ustr list vm \<Rightarrow> nat \<Rightarrow> json list handling" where
  "frame_variables P vm depth = bindS (lift_vm (frames P vm)) (\<lambda>fs.
     if length fs \<le> depth then giveS []
     else mapS (local_variable P vm (fs ! depth)) (locals_of P (fs ! depth)))"

definition child_variables :: "program \<Rightarrow> ustr list vm \<Rightarrow> dvalue \<Rightarrow> json list handling" where
  "child_variables P vm v = bindS (lift_vm (children_of P vm v)) (\<lambda>cs.
     mapS (\<lambda>(name, c). bindS (new_handle (value_handle c)) (\<lambda>n. giveS (variable_body name c n None))) cs)"

text \<open>The payload of a frame's number is not a value: asking for what is inside it raises.\<close>

definition on_variables :: "adapter_env \<Rightarrow> (ustr \<times> json) list \<Rightarrow> unit handling" where
  "on_variables E m = require_suspended m (\<lambda>P vm.
     bindS (arguments_of E m) (\<lambda>args.
     bindS (int_or_zero E (member (lit ''variablesReference'') JNull args)) (\<lambda>n.
     bindS (askS (\<lambda>s. get_handle n (session_handles s))) (\<lambda>entry. case entry of
       None \<Rightarrow> updS (refuse m (lit ''unknown or stale variablesReference''))
     | Some e \<Rightarrow> bindS (case e of
           LocalsEntry depth \<Rightarrow> frame_variables P vm depth
         | ValueEntry v \<Rightarrow> child_variables P vm v
         | FrameEntry depth \<Rightarrow> crash AttributeError) (\<lambda>vs.
         updS (reply m (Some (JObject [(lit ''variables'', JArray vs)]))))))))"

definition strip_with :: "(nat \<Rightarrow> bool) \<Rightarrow> ustr \<Rightarrow> ustr" where
  "strip_with sp t = rev (dropWhile sp (rev (dropWhile sp t)))"

definition on_evaluate :: "adapter_env \<Rightarrow> (ustr \<times> json) list \<Rightarrow> unit handling" where
  "on_evaluate E m = require_suspended m (\<lambda>P vm.
     bindS (arguments_of E m) (\<lambda>args.
     bindS (frame_for E P vm (member (lit ''frameId'') JNull args)) (\<lambda>found. case found of
       None \<Rightarrow> updS (refuse m (lit ''unknown frame''))
     | Some fv \<Rightarrow>
         (let given = member (lit ''expression'') JNull args in
          bindS (if \<not> truthy E given then giveS [] else case given of JText t \<Rightarrow> giveS (strip_with (ae_space E) t) | _ \<Rightarrow> crash AttributeError)
            (\<lambda>name.
              if \<not> is_identifier (ae_unicode E) name then updS (refuse m (lit ''only variable names can be evaluated''))
              else case lookup_name P fv name of
                [] \<Rightarrow> updS (refuse m (lit ''no variable named '' @ [39] @ name @ [39] @ lit '' in '' @ fv_function fv))
              | [li] \<Rightarrow> bindS (lift_vm (describe_local P vm fv li)) (\<lambda>v.
                  bindS (new_handle (value_handle v)) (\<lambda>n. updS (reply m (Some (evaluation_body v n)))))
              | lis \<Rightarrow> updS (refuse m ([39] @ name @ [39] @ lit '' names more than one slot here ('' @
                  join (lit '', '') (map (\<lambda>li. dec_nat (li_slot li)) lis) @ lit ''); see Locals'')))))))"

definition records_of :: "adapter_env \<Rightarrow> ustr \<Rightarrow> ustr \<Rightarrow> (ustr \<times> json) list list \<Rightarrow> client_breakpoint list handling" where
  "records_of E client_path path wanted = mapS (\<lambda>want.
     bindS (askS next_breakpoint_id) (\<lambda>n.
     bindS (updS (\<lambda>s. s\<lparr>next_breakpoint_id := n + 1\<rparr>)) (\<lambda>_.
     bindS (int_value E (member (lit ''line'') (JInt 0) want)) (\<lambda>l.
       giveS \<lparr>cb_id = n, cb_function = None, cb_client_path = client_path, cb_path = path, cb_line = l, cb_resolved_file = [],
         cb_resolved_line = None, cb_message = [], cb_reported = None\<rparr>)))) wanted"

definition on_set_breakpoints :: "adapter_env \<Rightarrow> (ustr \<times> json) list \<Rightarrow> unit handling" where
  "on_set_breakpoints E m = bindS (arguments_of E m) (\<lambda>args.
     bindS (object_or_empty E (member (lit ''source'') JNull args)) (\<lambda>source.
     let given = member (lit ''path'') JNull source in
     if \<not> truthy E given then updS (refuse m (lit ''setBreakpoints needs a source path''))
     else case given of
       JText client_path \<Rightarrow>
         bindS (remember_path E client_path) (\<lambda>path.
         bindS (wanted_list E (member (lit ''breakpoints'') JNull args)) (\<lambda>wanted.
         bindS (records_of E client_path path wanted) (\<lambda>records.
         bindS (updS (\<lambda>s. s\<lparr>source_breakpoints := dict_set path records (source_breakpoints s)\<rparr>)) (\<lambda>_.
         bindS (rebuild_breakpoints E) (\<lambda>_. updS (\<lambda>s. reply m (Some (JObject [(lit ''breakpoints'',
           JArray (map (breakpoint_body E s) (the (map_of (source_breakpoints s) path))))])) s))))))
     | _ \<Rightarrow> crash TypeError))"

definition function_records :: "adapter_env \<Rightarrow> (ustr \<times> json) list list \<Rightarrow> client_breakpoint list handling" where
  "function_records E wanted = mapS (\<lambda>want.
     bindS (askS next_breakpoint_id) (\<lambda>n.
     bindS (updS (\<lambda>s. s\<lparr>next_breakpoint_id := n + 1\<rparr>)) (\<lambda>_.
       giveS \<lparr>cb_id = n, cb_function = Some (text_value E (member (lit ''name'') (JText []) want)), cb_client_path = [], cb_path = [],
         cb_line = 0, cb_resolved_file = [], cb_resolved_line = None, cb_message = [], cb_reported = None\<rparr>))) wanted"

definition on_set_function_breakpoints :: "adapter_env \<Rightarrow> (ustr \<times> json) list \<Rightarrow> unit handling" where
  "on_set_function_breakpoints E m = bindS (arguments_of E m) (\<lambda>args.
     bindS (wanted_list E (member (lit ''breakpoints'') JNull args)) (\<lambda>wanted.
     bindS (function_records E wanted) (\<lambda>records.
     bindS (updS (\<lambda>s. s\<lparr>function_breakpoints := records\<rparr>)) (\<lambda>_.
     bindS (rebuild_breakpoints E) (\<lambda>_. updS (\<lambda>s. reply m (Some (JObject [(lit ''breakpoints'',
       JArray (map (breakpoint_body E s) (function_breakpoints s)))])) s))))))"

definition threads_body :: json where
  "threads_body = JObject [(lit ''threads'', JArray [JObject [(lit ''id'', JInt 1), (lit ''name'', JText (lit ''main''))]])]"

definition refuse_resume :: "session \<Rightarrow> ustr option" where
  "refuse_resume s = (case suspension s of
     None \<Rightarrow> Some (lit ''the program is not suspended'')
   | Some (st, _) \<Rightarrow> if stop_why st = FaultStop then Some (lit ''the program has faulted and cannot continue'') else None)"

definition release :: "mode \<Rightarrow> session \<Rightarrow> session" where
  "release k s = (case suspension s of None \<Rightarrow> s | Some (st, _) \<Rightarrow> s\<lparr>suspension := Some (st, Some k)\<rparr>)"

text \<open>The reply goes out before the program is let go.\<close>

definition on_resume :: "mode \<Rightarrow> json option \<Rightarrow> (ustr \<times> json) list \<Rightarrow> unit handling" where
  "on_resume k body m = updS (\<lambda>s. case refuse_resume s of
     Some message \<Rightarrow> refuse m message s
   | None \<Rightarrow> release k (reply m body s))"

definition on_pause :: "(ustr \<times> json) list \<Rightarrow> unit handling" where
  "on_pause m = updS (\<lambda>s. if \<not> alive s then refuse m (lit ''no program is running'') s else ask_pause (reply m None s))"

definition on_disconnect :: "adapter_env \<Rightarrow> (ustr \<times> json) list \<Rightarrow> unit handling" where
  "on_disconnect E m = updS (\<lambda>s. end_session E (reply m None s))"

text \<open>
  \<open>getattr(self, "_on_" + command)\<close>: the command \<open>stop\<close> finds the method of the program's thread and
  calls it with the wrong number of arguments.
\<close>

definition handlers :: "adapter_env \<Rightarrow> (string \<times> ((ustr \<times> json) list \<Rightarrow> unit handling)) list" where
  "handlers E =
     [(''initialize'', on_initialize), (''launch'', on_launch E), (''configurationDone'', on_configuration_done E),
      (''stackTrace'', on_stack_trace E), (''scopes'', on_scopes E), (''variables'', on_variables E), (''evaluate'', on_evaluate E),
      (''setBreakpoints'', on_set_breakpoints E), (''setFunctionBreakpoints'', on_set_function_breakpoints E),
      (''threads'', \<lambda>m. updS (reply m (Some threads_body))),
      (''continue'', on_resume RunFree (Some (JObject [(lit ''allThreadsContinued'', JBool True)]))),
      (''next'', on_resume StepOver None), (''stepIn'', on_resume StepIn None), (''stepOut'', on_resume FinishFrame None),
      (''pause'', on_pause), (''disconnect'', on_disconnect E), (''terminate'', on_disconnect E),
      (''stop'', \<lambda>m. crash TypeError)]"

definition handle_request :: "adapter_env \<Rightarrow> (ustr \<times> json) list \<Rightarrow> unit handling" where
  "handle_request E m =
     (case find (\<lambda>(name, h). text_value E (member (lit ''command'') (JText []) m) = lit name) (handlers E) of
        Some (name, h) \<Rightarrow> h m
      | None \<Rightarrow> updS (refuse m (lit ''unsupported request '' @ [39] @ text_value E (member (lit ''command'') JNull m) @ [39])))"

definition dispatch :: "adapter_env \<Rightarrow> json \<Rightarrow> unit handling" where
  "dispatch E request = (case request of
     JObject m \<Rightarrow> if member (lit ''type'') JNull m \<noteq> JText (lit ''request'') then giveS () else handle_request E m
   | _ \<Rightarrow> crash AttributeError)"

section \<open>The loop\<close>

definition protocol_text :: "adapter_env \<Rightarrow> protocol_error \<Rightarrow> ustr" where
  "protocol_text E e = (case e of
     EndedInHeader \<Rightarrow> lit ''stream ended part-way through a header''
   | NoTerminator \<Rightarrow> lit ''no header terminator in 8192 bytes; the stream is not DAP''
   | LengthNotNumber bs \<Rightarrow> lit ''Content-Length is not a number: '' @ ae_repr E bs
   | NegativeLength n \<Rightarrow> lit ''negative Content-Length: '' @ dec_int n
   | NoLength \<Rightarrow> lit ''message has no Content-Length header''
   | EndedInBody had wanted \<Rightarrow> lit ''stream ended after '' @ dec_nat had @ lit '' of '' @ dec_nat wanted @ lit '' body bytes''
   | BodyNotJson body \<Rightarrow> lit ''message body is not JSON: '' @ ae_json_text E body)"

text \<open>
  One turn of \<open>serve\<close>: the flag is looked at between requests, so one that arrives while the loop is
  waiting is still handled. On every way out the program is waited for.
\<close>

definition leave_loop :: "adapter_env \<Rightarrow> session \<Rightarrow> session" where
  "leave_loop E s = wait_for_program E (s\<lparr>looping := False\<rparr>)"

definition serve_step :: "adapter_env \<Rightarrow> session \<Rightarrow> session" where
  "serve_step E s = (case read_message (ae_real E) (wire s) of
       Inl (ProtocolError e) \<Rightarrow> leave_loop E (emit_output ''stderr'' (lit ''Protocol error: '' @ protocol_text E e @ [10]) s)
     | Inl _ \<Rightarrow> leave_loop E s
     | Inr (None, w) \<Rightarrow> leave_loop E (s\<lparr>wire := w\<rparr>)
     | Inr (Some request, w) \<Rightarrow> (case dispatch E request (s\<lparr>wire := w\<rparr>) of
         Inl (e, s1) \<Rightarrow> leave_loop E s1
       | Inr (_, s1) \<Rightarrow> if serving s1 then s1 else leave_loop E s1))"

text \<open>Either thread may take the next step.\<close>

inductive session_step :: "adapter_env \<Rightarrow> session \<Rightarrow> session \<Rightarrow> bool" for E where
  loop_step: "looping s \<Longrightarrow> session_step E s (serve_step E s)"
| program_moves: "session_step E s (program_step E s)"

inductive session_reaches :: "adapter_env \<Rightarrow> session \<Rightarrow> session \<Rightarrow> bool" for E where
  reaches_here: "session_reaches E s s"
| reaches_next: "session_reaches E s t \<Longrightarrow> session_step E t u \<Longrightarrow> session_reaches E s u"

inductive_cases session_stepE: "session_step E s t"

end
