(* ===== verification/JsonText.thy ===== *)
theory JsonText
  imports Json
begin

text \<open>
  What \<open>dumps\<close> prints \<open>loads\<close> reads back, and the fuel of the parser is enough for every text.
\<close>

section \<open>Strings\<close>

lemma ascii_digits: "c \<in> set (dec_nat n) \<Longrightarrow> ascii_digit c"
  using dec_nat_digits by (simp add: ascii_digit_def)

lemma hex_value_digit: "d < 16 \<Longrightarrow> hex_digit_value (hex_digit d) = Some d"
  by (auto simp: hex_digit_value_def hex_digit_def ascii_digit_def)

lemma hex4_low: "c < 32 \<Longrightarrow> hex4 (48 # 48 # hex_digit (c div 16) # hex_digit (c mod 16) # r) = Some (c, r)"
  using hex_value_digit [of "c div 16"] hex_value_digit [of "c mod 16"] hex_value_digit [of 0]
  by (simp add: hex4_def hex_digit_def)

lemma scan_text_escape:
  assumes "scan_text r = Some (xs, r')"
  shows "scan_text (escape_char c @ r) = Some (c # xs, r')"
proof (cases "map_of short_escapes c")
  case (Some e)
  then have "e \<noteq> 117 \<and> e \<noteq> 47 \<and> map_of (map prod.swap short_escapes) e = Some c"
    by (auto simp: short_escapes_def split: if_splits)
  then have "unescape (e # r) = Some (c, r)" by (simp add: unescape_def)
  with Some assms show ?thesis by (simp add: escape_char_def scan_text.simps [of "92 # _"])
next
  case None
  show ?thesis
  proof (cases "c < 32")
    case True
    have "unescape (117 # 48 # 48 # hex_digit (c div 16) # hex_digit (c mod 16) # r) = Some (c, r)"
      using True by (simp add: unescape_def hex4_low)
    with None True assms show ?thesis by (simp add: escape_char_def scan_text.simps [of "92 # _"])
  next
    case False
    from None have "c \<noteq> 34" "c \<noteq> 92" by (auto simp: short_escapes_def split: if_splits)
    with None False assms show ?thesis by (simp add: escape_char_def scan_text.simps [of "c # _"])
  qed
qed

lemma scan_text_dump: "scan_text (concat (map escape_char t) @ 34 # r) = Some (t, r)"
proof (induction t)
  case Nil
  then show ?case by (simp add: scan_text.simps [of "34 # _"])
next
  case (Cons c t)
  then show ?case by (simp add: scan_text_escape)
qed

lemma scan_key_dump: "scan_key (dump_text t @ r) = Inr (t, r)"
  by (simp add: scan_key_def dump_text_def expect_char_def scan_text_dump)

section \<open>Numbers\<close>

text \<open>What may follow a value.\<close>

definition after_value :: "ustr \<Rightarrow> bool" where
  "after_value r \<longleftrightarrow> r = [] \<or> hd r \<in> {44, 93, 125}"

lemma after_value_parts: "after_value r \<Longrightarrow> fraction_part r = [] \<and> exponent_part r = [] \<and> take_digits r = []"
  by (cases r) (auto simp: after_value_def fraction_part_def exponent_part_def take_digits_def ascii_digit_def)

lemma take_digits_append: "(\<And>c. c \<in> set ds \<Longrightarrow> ascii_digit c) \<Longrightarrow> take_digits (ds @ r) = ds @ take_digits r"
  by (simp add: take_digits_def)

lemma dec_nat_zero: "hd (dec_nat n) = 48 \<Longrightarrow> n = 0"
proof (induction n rule: dec_nat.induct)
  case (1 n)
  show ?case
  proof (cases "n < 10")
    case True
    with "1.prems" show ?thesis by (subst (asm) dec_nat.simps) simp
  next
    case False
    then have "dec_nat n = dec_nat (n div 10) @ [48 + n mod 10]" by (subst dec_nat.simps) simp
    with "1.prems" have "hd (dec_nat (n div 10)) = 48" by simp
    with "1.IH" [OF False] have "n div 10 = 0" by blast
    with False show ?thesis by simp
  qed
qed

lemma scan_number_dec:
  assumes "after_value r" and "length (dec_nat n) \<le> int_limit"
  shows "scan_number R neg (dec_nat n @ r) = Inr (JInt (if neg then - int n else int n), r)"
proof -
  have digits: "take_digits (dec_nat n @ r) = dec_nat n"
    using take_digits_append [of "dec_nat n" r] ascii_digits after_value_parts [OF assms(1)] by simp
  have "(if dec_nat n @ r \<noteq> [] \<and> hd (dec_nat n @ r) = 48 then [48] else take_digits (dec_nat n @ r)) = dec_nat n"
  proof (cases "hd (dec_nat n) = 48")
    case True
    then have "n = 0" by (rule dec_nat_zero)
    then have "dec_nat n = [48]" by (simp add: dec_nat.simps)
    then show ?thesis by simp
  qed (simp add: digits)
  with assms show ?thesis by (simp add: scan_number_def after_value_parts read_dec_nat Let_def)
qed

section \<open>Values\<close>

text \<open>Values that are printed exactly: no floats, integers the host converts, keys that differ.\<close>

fun plain_json :: "json \<Rightarrow> bool" where
  "plain_json (JReal t) = False"
| "plain_json (JInt i) = (length (dec_nat (nat \<bar>i\<bar>)) \<le> int_limit)"
| "plain_json (JArray xs) = (\<forall>x \<in> set xs. plain_json x)"
| "plain_json (JObject ps) = (distinct (map fst ps) \<and> (\<forall>p \<in> set ps. plain_json (snd p)))"
| "plain_json _ = True"

lemma dec_int_hd: "\<exists>c cs. dec_int i = c # cs \<and> (c = 45 \<or> ascii_digit c)"
  using ascii_digits [of "hd (dec_nat (nat i))" "nat i"]
  by (cases "dec_nat (nat i)") (auto simp: dec_int_def)

lemma dumps_head: "plain_json v \<Longrightarrow> \<exists>c cs. dumps v = c # cs \<and> \<not> json_space c \<and> c \<noteq> 93 \<and> c \<noteq> 125 \<and> c < 256"
proof (cases v)
  case (JInt i)
  with dec_int_hd [of i] show ?thesis by (auto simp: json_space_def ascii_digit_def)
qed (auto simp: lit_def dump_text_def json_space_def)

lemma skip_space_dumps [simp]: "plain_json v \<Longrightarrow> skip_space (dumps v @ r) = dumps v @ r"
  using dumps_head [of v] by (auto simp: skip_space_def)

lemma skip_space_key [simp]: "skip_space (dump_text k @ r) = dump_text k @ r"
  by (simp add: skip_space_def dump_text_def json_space_def)

lemma skip_space_after [simp]: "after_value r \<Longrightarrow> skip_space r = r" "skip_space (58 # r) = 58 # r"
  by (cases r; auto simp: skip_space_def after_value_def json_space_def)+

lemma word_heads: "(w, v) \<in> set json_words \<Longrightarrow> hd w \<in> {110, 116, 102, 78, 73} \<and> w \<noteq> [] \<or> take 2 w = [45, 73]"
  by (auto simp: json_words_def lit_def)

lemma scan_word_digit: "c = 45 \<and> r \<noteq> [] \<and> ascii_digit (hd r) \<or> ascii_digit c \<Longrightarrow> scan_word (c # r) = None"
proof -
  assume c: "c = 45 \<and> r \<noteq> [] \<and> ascii_digit (hd r) \<or> ascii_digit c"
  have "\<not> starts_with w (c # r)" if "(w, v) \<in> set json_words" for w v
  proof
    assume "starts_with w (c # r)"
    then have w: "take (length w) (c # r) = w" by (simp add: starts_with_def)
    from word_heads [OF that] show False
    proof (elim disjE conjE)
      assume "hd w \<in> {110, 116, 102, 78, 73}" "w \<noteq> []"
      with w c show False by (cases w) (auto simp: ascii_digit_def)
    next
      assume "take 2 w = [45, 73]"
      moreover from this have "2 \<le> length w" by (metis le_cases length_Cons list.size(3) numeral_2_eq_2 order_refl take_all)
      then have "take 2 (take (length w) (c # r)) = take 2 (c # r)" by (simp add: min_def)
      ultimately have "take 2 (c # r) = [45, 73]" unfolding w by simp
      with c show False by (cases r) (auto simp: ascii_digit_def)
    qed
  qed
  then have "find (\<lambda>(w, v). starts_with w (c # r)) json_words = None" by (auto simp: find_None_iff)
  then show ?thesis by (simp add: scan_word_def)
qed

lemma parse_int:
  assumes "after_value r" and "plain_json (JInt i)"
  shows "parse_json R (Suc n) (dec_int i @ r) = Inr (JInt i, r)"
proof (cases "i < 0")
  case True
  let ?d = "dec_nat (nat (- i))"
  have "scan_word (45 # ?d @ r) = None"
    by (rule scan_word_digit) (use ascii_digits [of "hd ?d" "nat (- i)"] in \<open>simp add: hd_append\<close>)
  with True assms show ?thesis by (simp add: dec_int_def scan_number_dec)
next
  case False
  obtain c cs where d: "dec_nat (nat i) = c # cs" by (cases "dec_nat (nat i)") auto
  then have c: "ascii_digit c" using ascii_digits [of c "nat i"] by simp
  then have "scan_word (c # cs @ r) = None" by (intro scan_word_digit) simp
  moreover have "c \<noteq> 34 \<and> c \<noteq> 123 \<and> c \<noteq> 91 \<and> c \<noteq> 45" using c by (auto simp: ascii_digit_def)
  moreover have "scan_number R False ((c # cs) @ r) = Inr (JInt i, r)"
    using scan_number_dec [OF assms(1), of "nat i" R False] assms(2) False by (simp flip: d)
  ultimately show ?thesis using False by (simp add: dec_int_def d)
qed

section \<open>Reading back\<close>

text \<open>The fuel a printed value needs, for every text that may follow it.\<close>

definition reads_back :: "json \<Rightarrow> bool" where
  "reads_back v \<longleftrightarrow> (\<forall>R n r. after_value r \<longrightarrow> 2 * length (dumps v) \<le> n + 1 \<longrightarrow> parse_json R n (dumps v @ r) = Inr (v, r))"

lemma reads_backD: "reads_back v \<Longrightarrow> after_value r \<Longrightarrow> 2 * length (dumps v) \<le> n + 1 \<Longrightarrow> parse_json R n (dumps v @ r) = Inr (v, r)"
  by (simp add: reads_back_def)

lemma after_close [simp]: "after_value (93 # r)" "after_value (125 # r)" "after_value (44 # r)"
  by (simp_all add: after_value_def)

lemma parse_elements_back:
  assumes "xs \<noteq> []" and "\<forall>x \<in> set xs. plain_json x \<and> reads_back x"
    and "2 * length (join [44] (map dumps xs)) \<le> n"
  shows "parse_elements R n (join [44] (map dumps xs) @ 93 # r) = Inr (xs, r)"
  using assms
proof (induction xs arbitrary: n)
  case (Cons x xs)
  obtain c cs where x: "dumps x = c # cs" using dumps_head Cons.prems(2) by fastforce
  show ?case
  proof (cases xs)
    case Nil
    obtain m where n: "n = Suc m" using Cons.prems(3) Nil x by (cases n) simp_all
    have "parse_json R m (dumps x @ 93 # r) = Inr (x, 93 # r)"
      by (rule reads_backD) (use Cons.prems(2,3) n Nil in simp_all)
    then show ?thesis by (simp add: n Nil)
  next
    case (Cons y ys)
    let ?rest = "join [44] (map dumps xs)"
    have j: "join [44] (map dumps (x # xs)) = dumps x @ 44 # ?rest" by (simp add: Cons)
    have "n \<noteq> 0" using Cons.prems(3) unfolding j by simp
    then obtain m where n: "n = Suc m" by (cases n) simp_all
    have fuel: "2 * length (dumps x) + 2 + 2 * length ?rest \<le> Suc m" using Cons.prems(3) unfolding j n by simp
    have "parse_json R m (dumps x @ 44 # ?rest @ 93 # r) = Inr (x, 44 # ?rest @ 93 # r)"
      by (rule reads_backD) (use Cons.prems(2) fuel in simp_all)
    moreover have "parse_elements R m (?rest @ 93 # r) = Inr (xs, r)"
      by (rule Cons.IH) (use Cons.prems(2) fuel Cons in simp_all)
    moreover have "skip_space (?rest @ 93 # r) = ?rest @ 93 # r"
      using Cons.prems(2) by (cases ys) (simp_all add: Cons)
    ultimately show ?thesis unfolding j by (simp add: n)
  qed
qed simp

definition member_text :: "ustr \<times> json \<Rightarrow> ustr" where
  "member_text p = dump_text (fst p) @ [58] @ dumps (snd p)"

lemma dumps_object: "dumps (JObject ps) = [123] @ join [44] (map member_text ps) @ [125]"
proof -
  have "(\<lambda>(k, v). dump_text k @ [58] @ dumps v) = member_text" by (auto simp: fun_eq_iff member_text_def)
  then show ?thesis by simp
qed

lemma parse_members_back:
  assumes "ps \<noteq> []" and "\<forall>p \<in> set ps. plain_json (snd p) \<and> reads_back (snd p)"
    and "2 * length (join [44] (map member_text ps)) \<le> n" and "distinct (map fst (qs @ ps))"
  shows "parse_members R n qs (join [44] (map member_text ps) @ 125 # r) = Inr (qs @ ps, r)"
  using assms
proof (induction ps arbitrary: n qs)
  case (Cons p ps)
  obtain k v where p: "p = (k, v)" by fastforce
  have fresh: "dict_set k v qs = qs @ [(k, v)]" using Cons.prems(4) by (intro dict_set_new) (force simp: p)
  show ?case
  proof (cases ps)
    case Nil
    have j: "join [44] (map member_text (p # ps)) = dump_text k @ 58 # dumps v" by (simp add: Nil member_text_def p)
    have "n \<noteq> 0" using Cons.prems(3) unfolding j by simp
    then obtain m where n: "n = Suc m" by (cases n) simp_all
    have "parse_json R m (dumps v @ 125 # r) = Inr (v, 125 # r)"
      by (rule reads_backD) (use Cons.prems(2,3)[unfolded j n] in \<open>simp_all add: p\<close>)
    moreover have "plain_json v" using Cons.prems(2) by (simp add: p)
    ultimately show ?thesis unfolding j by (simp add: n scan_key_dump expect_char_def fresh Nil p)
  next
    case (Cons q qs')
    let ?rest = "join [44] (map member_text ps)"
    have j: "join [44] (map member_text (p # ps)) = dump_text k @ 58 # dumps v @ 44 # ?rest" by (simp add: Cons member_text_def p)
    have "n \<noteq> 0" using Cons.prems(3) unfolding j by simp
    then obtain m where n: "n = Suc m" by (cases n) simp_all
    have fuel: "2 * length (dumps v) + 2 + 2 * length ?rest \<le> Suc m" using Cons.prems(3) unfolding j n by simp
    have "parse_json R m (dumps v @ 44 # ?rest @ 125 # r) = Inr (v, 44 # ?rest @ 125 # r)"
      by (rule reads_backD) (use Cons.prems(2) fuel in \<open>simp_all add: p\<close>)
    moreover have "parse_members R m (qs @ [(k, v)]) (?rest @ 125 # r) = Inr ((qs @ [(k, v)]) @ ps, r)"
      by (rule Cons.IH) (use Cons.prems(2,4) fuel Cons in \<open>simp_all add: p\<close>)
    moreover have "skip_space (?rest @ 125 # r) = ?rest @ 125 # r" by (cases qs') (simp_all add: Cons member_text_def)
    moreover have "plain_json v" using Cons.prems(2) by (simp add: p)
    ultimately show ?thesis unfolding j by (simp add: n scan_key_dump expect_char_def fresh p)
  qed
qed simp

lemma reads_backI:
  assumes "dumps v \<noteq> []" and "\<And>R n r. after_value r \<Longrightarrow> 2 * length (dumps v) \<le> Suc (Suc n) \<Longrightarrow> parse_json R (Suc n) (dumps v @ r) = Inr (v, r)"
  shows "reads_back v"
  unfolding reads_back_def
proof (intro allI impI)
  fix R n r assume r: "after_value r" and n: "2 * length (dumps v) \<le> n + 1"
  have "0 < length (dumps v)" using assms(1) by simp
  with n obtain m where m: "n = Suc m" by (cases n) simp_all
  with n assms(2) [OF r, of m] show "parse_json R n (dumps v @ r) = Inr (v, r)" by simp
qed

lemma scan_word_atoms:
  "scan_word (lit ''null'' @ r) = Some (JNull, r)" "scan_word (lit ''true'' @ r) = Some (JBool True, r)"
  "scan_word (lit ''false'' @ r) = Some (JBool False, r)"
  by (simp_all add: scan_word_def json_words_def starts_with_def lit_def)

lemma atom_heads: "lit ''null'' = 110 # lit ''ull''" "lit ''true'' = 116 # lit ''rue''" "lit ''false'' = 102 # lit ''alse''"
  by (simp_all add: lit_def)

lemma plain_reads_back: "plain_json v \<Longrightarrow> reads_back v"
proof (induction v rule: dumps.induct)
  case 1
  show ?case by (rule reads_backI) (use scan_word_atoms(1) in \<open>simp_all add: atom_heads\<close>)
next
  case (2 b)
  show ?case by (rule reads_backI; cases b) (use scan_word_atoms(2,3) in \<open>simp_all add: atom_heads\<close>)
next
  case (3 i)
  show ?case by (rule reads_backI) (use parse_int 3 dec_int_hd [of i] in auto)
next
  case (5 t)
  have "parse_json R (Suc n) (dump_text t @ r) = Inr (JText t, r)" for R n r
    using scan_key_dump [of t r] by (simp add: dump_text_def)
  then show ?case by (intro reads_backI) (simp_all add: dump_text_def)
next
  case (6 xs)
  show ?case
  proof (rule reads_backI)
    fix R n and r :: ustr assume n: "2 * length (dumps (JArray xs)) \<le> Suc (Suc n)"
    show "parse_json R (Suc n) (dumps (JArray xs) @ r) = Inr (JArray xs, r)"
    proof (cases "xs = []")
      case True
      then show ?thesis by (simp add: skip_space_def json_space_def)
    next
      case False
      obtain x ys where xs: "xs = x # ys" using False by (cases xs) auto
      let ?t = "join [44] (map dumps xs)"
      have "parse_elements R n (?t @ 93 # r) = Inr (xs, r)"
        by (rule parse_elements_back [OF False]) (use 6 n in auto)
      moreover have "plain_json x" using 6(2) by (simp add: xs)
      then obtain c cs where "?t = c # cs" "\<not> json_space c" "c \<noteq> 93"
        using dumps_head [of x] by (cases ys) (auto simp: xs)
      ultimately show ?thesis by (simp add: skip_space_def)
    qed
  qed simp
next
  case (7 ps)
  show ?case
  proof (rule reads_backI)
    fix R n and r :: ustr assume n: "2 * length (dumps (JObject ps)) \<le> Suc (Suc n)"
    show "parse_json R (Suc n) (dumps (JObject ps) @ r) = Inr (JObject ps, r)"
    proof (cases "ps = []")
      case True
      then show ?thesis by (simp add: skip_space_def json_space_def)
    next
      case False
      obtain p qs where ps: "ps = p # qs" using False by (cases ps) auto
      let ?t = "join [44] (map member_text ps)"
      have "parse_members R n [] (?t @ 125 # r) = Inr ([] @ ps, r)"
        by (rule parse_members_back [OF False]) (use 7 n in \<open>auto simp: dumps_object simp del: dumps.simps\<close>)
      moreover obtain cs where "?t = 34 # cs" by (cases qs) (auto simp: ps member_text_def dump_text_def)
      ultimately show ?thesis unfolding dumps_object by (simp add: skip_space_def json_space_def)
    qed
  qed simp
qed simp

theorem loads_dumps:
  assumes "plain_json v"
  shows "loads_json R (dumps v) = Inr v"
proof -
  obtain c cs where c: "dumps v = c # cs" "\<not> json_space c" "c < 256" using dumps_head [OF assms] by blast
  have "parse_json R (2 * length (dumps v) + 1) (dumps v @ []) = Inr (v, [])"
    by (rule reads_backD [OF plain_reads_back [OF assms]]) (simp_all add: after_value_def)
  then show ?thesis using skip_space_dumps [OF assms, of "[]"] c by (simp add: loads_json_def skip_space_def)
qed

section \<open>Enough fuel\<close>

lemma skip_space_le: "length (skip_space t) \<le> length t"
  by (simp add: skip_space_def length_dropWhile_le)

lemma scan_text_shorter: "scan_text t = Some (x, r) \<Longrightarrow> length r < length t"
proof (induction t arbitrary: x rule: scan_text.induct [case_names scan])
  case (scan t)
  have step: "length r < length (c # t')" if "unescape t' = Some (y, u)" "scan_text u = Some (z, r)" "t = c # t'" "c = 92" for c t' y u z
  proof -
    have "length r < length u" by (rule scan.IH(1) [OF that(3) _ that(4,1) refl that(2)]) (simp add: that(4))
    with unescape_shorter [OF that(1)] show ?thesis by simp
  qed
  from scan.prems show ?case
    by (subst (asm) scan_text.simps)
      (auto split: list.splits if_splits option.splits dest: step scan.IH(2))
qed

lemma scan_key_shorter: "scan_key t = Inr (k, r) \<Longrightarrow> length r < length t"
  by (cases t) (auto simp: scan_key_def expect_char_def split: if_splits option.splits dest!: scan_text_shorter)

lemma expect_char_shorter: "expect_char c t = Inr r \<Longrightarrow> length r < length t"
  by (auto simp: expect_char_def split: list.splits if_splits)

lemma scan_number_shorter: "scan_number R neg t = Inr (v, r) \<Longrightarrow> length r < length t"
  by (cases t) (auto simp: scan_number_def Let_def take_digits_def split: if_splits)

lemma scan_word_shorter: "scan_word t = Some (v, r) \<Longrightarrow> length r < length t"
proof -
  have "(w, v) \<in> set json_words \<Longrightarrow> w \<noteq> []" for w v by (auto simp: json_words_def lit_def)
  moreover assume "scan_word t = Some (v, r)"
  then obtain w where w: "find (\<lambda>(w, v). starts_with w t) json_words = Some (w, v)" "r = drop (length w) t"
    by (auto simp: scan_word_def)
  then have "(w, v) \<in> set json_words" "starts_with w t" by (auto simp: find_Some_iff) (metis nth_mem)
  ultimately have "w \<noteq> []" "take (length w) t = w" by (auto simp: starts_with_def)
  with w(2) show ?thesis by (cases t) auto
qed

lemma parse_shorter:
  "(\<forall>t v r. parse_json R n t = Inr (v, r) \<longrightarrow> length r < length t)
   \<and> (\<forall>t vs r. parse_elements R n t = Inr (vs, r) \<longrightarrow> length r < length t)
   \<and> (\<forall>ps t qs r. parse_members R n ps t = Inr (qs, r) \<longrightarrow> length r < length t)"
proof (induction n)
  case (Suc n)
  then have J: "\<And>t v r. parse_json R n t = Inr (v, r) \<Longrightarrow> length r < length t"
    and E: "\<And>t vs r. parse_elements R n t = Inr (vs, r) \<Longrightarrow> length r < length t"
    and M: "\<And>ps t qs r. parse_members R n ps t = Inr (qs, r) \<Longrightarrow> length r < length t" by blast+
  have "length r < length t" if p: "parse_json R (Suc n) t = Inr (v, r)" for t v r
  proof (cases t)
    case (Cons c t')
    with p skip_space_le [of t'] show ?thesis
      by (auto simp: result_simps split: if_splits list.splits option.splits
        dest!: scan_key_shorter scan_word_shorter scan_number_shorter E M)
  qed (use p in simp)
  moreover have "length r < length t" if p: "parse_elements R (Suc n) t = Inr (vs, r)" for t vs r
  proof -
    from p obtain v1 r1 where v1: "parse_json R n t = Inr (v1, r1)" by (auto simp: result_simps)
    show ?thesis
    proof (cases "skip_space r1")
      case (Cons x r2)
      with J [OF v1] skip_space_le [of r1] have l: "length r2 < length t" by simp
      have "r = r2 \<or> (\<exists>vs'. parse_elements R n (skip_space r2) = Inr (vs', r))"
        using p by (auto simp: v1 Cons result_simps split: if_splits)
      with l skip_space_le [of r2] E show ?thesis by fastforce
    qed (use p v1 in simp)
  qed
  moreover have "length r < length t" if p: "parse_members R (Suc n) ps t = Inr (qs, r)" for ps t qs r
  proof -
    from p obtain k r0 r1 v r2 where k: "scan_key t = Inr (k, r0)" "expect_char 58 (skip_space r0) = Inr r1"
      "parse_json R n (skip_space r1) = Inr (v, r2)" by (auto simp: result_simps)
    show ?thesis
    proof (cases "skip_space r2")
      case (Cons x r3)
      then have l: "length r3 < length t"
        using scan_key_shorter [OF k(1)] expect_char_shorter [OF k(2)] J [OF k(3)]
          skip_space_le [of r0] skip_space_le [of r1] skip_space_le [of r2] by simp
      have "r = r3 \<or> (\<exists>ps' qs'. parse_members R n ps' (skip_space r3) = Inr (qs', r))"
        using p by (auto simp: k Cons split: if_splits)
      with l skip_space_le [of r3] M show ?thesis by fastforce
    qed (use p k in simp)
  qed
  ultimately show ?case by blast
qed simp

lemma scan_not_fuel: "scan_key t \<noteq> Inl JsonFuel" "expect_char c t \<noteq> Inl JsonFuel" "scan_number R neg t \<noteq> Inl JsonFuel"
  by (auto simp: scan_key_def expect_char_def scan_number_def Let_def result_simps split: list.splits if_splits option.splits)

lemma parse_fuel:
  "(\<forall>t. 2 * length t < n \<longrightarrow> parse_json R n t \<noteq> Inl JsonFuel)
   \<and> (\<forall>t. 2 * length t + 1 < n \<longrightarrow> parse_elements R n t \<noteq> Inl JsonFuel)
   \<and> (\<forall>ps t. 2 * length t + 1 < n \<longrightarrow> parse_members R n ps t \<noteq> Inl JsonFuel)"
proof (induction n)
  case (Suc n)
  then have J: "\<And>t. 2 * length t < n \<Longrightarrow> parse_json R n t \<noteq> Inl JsonFuel"
    and E: "\<And>t. 2 * length t + 1 < n \<Longrightarrow> parse_elements R n t \<noteq> Inl JsonFuel"
    and M: "\<And>ps t. 2 * length t + 1 < n \<Longrightarrow> parse_members R n ps t \<noteq> Inl JsonFuel" by blast+
  have "parse_json R (Suc n) t \<noteq> Inl JsonFuel" if "2 * length t < Suc n" for t
  proof (cases t)
    case (Cons c t')
    show ?thesis
    proof (cases "skip_space t'")
      case (Cons x r)
      then have "2 * length (x # r) + 1 < n" using skip_space_le [of t'] that \<open>t = c # t'\<close> by simp
      with E M scan_not_fuel \<open>t = c # t'\<close> Cons show ?thesis by (auto simp: result_simps split: option.splits)
    qed (use scan_not_fuel Cons in \<open>auto simp: result_simps split: option.splits\<close>)
  qed simp
  moreover have "parse_elements R (Suc n) t \<noteq> Inl JsonFuel" if t: "2 * length t + 1 < Suc n" for t
  proof (cases "parse_json R n t")
    case (Inr p)
    obtain v r where p: "p = (v, r)" by fastforce
    show ?thesis
    proof (cases "skip_space r")
      case (Cons x r1)
      have "length r < length t" using parse_shorter Inr p by blast
      with Cons skip_space_le [of r] skip_space_le [of r1] t have "2 * length (skip_space r1) + 1 < n" by simp
      with E Inr p Cons show ?thesis by (auto simp: result_simps)
    qed (simp add: Inr p)
  qed (use J t in auto)
  moreover have "parse_members R (Suc n) ps t \<noteq> Inl JsonFuel" if t: "2 * length t + 1 < Suc n" for ps t
  proof
    assume fuel: "parse_members R (Suc n) ps t = Inl JsonFuel"
    from fuel scan_not_fuel obtain k r r1 where k: "scan_key t = Inr (k, r)" "expect_char 58 (skip_space r) = Inr r1"
      by (auto simp: result_simps)
    then have l1: "length r1 < length t"
      using scan_key_shorter [of t k r] expect_char_shorter [of 58 "skip_space r" r1] skip_space_le [of r] by simp
    then have "2 * length (skip_space r1) < n" using skip_space_le [of r1] t by simp
    with J fuel k obtain v r2 where v: "parse_json R n (skip_space r1) = Inr (v, r2)" by (auto simp: result_simps)
    then have "length r2 < length (skip_space r1)" using parse_shorter by blast
    with l1 have "2 * length (skip_space r3) + 1 < n" if "skip_space r2 = x # r3" for x r3
      using that skip_space_le [of r1] skip_space_le [of r2] skip_space_le [of r3] t by simp
    with M fuel k v show False by (auto simp: result_simps split: list.splits if_splits)
  qed
  ultimately show ?case by blast
qed simp

lemma loads_json_returns: "loads_json R t \<noteq> Inl JsonFuel"
proof -
  have "parse_json R (2 * length t + 1) (skip_space t) \<noteq> Inl JsonFuel"
    using parse_fuel [of "2 * length t + 1" R] skip_space_le [of t] by simp
  then show ?thesis by (auto simp: loads_json_def result_simps split: if_splits)
qed

end
