(* ===== verification/Framing.thy ===== *)
theory Framing
  imports Protocol JsonText
begin

text \<open>
  What the adapter writes is what a client reads, however the pipe cuts the bytes into deliveries.
\<close>

section \<open>The pipe\<close>

lemma read_chunk_some:
  assumes "[] \<notin> set input" and "input \<noteq> []" and "0 < n"
  obtains c input' where "read_chunk n input = (c, input')" "c \<noteq> []" "length c \<le> n" "concat input = c @ concat input'" "[] \<notin> set input'"
proof -
  obtain d ds where input: "input = d # ds" using assms(2) by (cases input) auto
  with assms show ?thesis
    by (intro that [of "take n d" "if length d \<le> n then ds else drop n d # ds"]) auto
qed

lemma fill_body_reads:
  assumes "[] \<notin> set input" and "buf @ concat input = body @ rest" and "length buf \<le> length body"
  shows "\<exists>input'. fill_body (length body) buf input = (True, body, input') \<and> concat input' = rest \<and> [] \<notin> set input'"
  using assms
proof (induction "length body - length buf" arbitrary: buf input rule: less_induct)
  case less
  show ?case
  proof (cases "length body \<le> length buf")
    case True
    with less.prems have "buf = body" "concat input = rest" by (metis append_eq_append_conv le_antisym)+
    with less.prems(1) show ?thesis by (intro exI [of _ input]) (simp add: fill_body.simps)
  next
    case False
    then have some: "input \<noteq> []" using less.prems(2,3) by (auto dest: arg_cong [of _ _ length])
    obtain c input' where c: "read_chunk (length body - length buf) input = (c, input')" "c \<noteq> []"
      "length c \<le> length body - length buf" "concat input = c @ concat input'" "[] \<notin> set input'"
      by (rule read_chunk_some [OF less.prems(1) some, of "length body - length buf"]) (use False in simp_all)
    moreover have "length body - length (buf @ c) < length body - length buf" using c(2) False by (simp flip: length_greater_0_conv)
    ultimately show ?thesis
      using less.hyps [of "buf @ c" input'] less.prems False by (simp add: fill_body.simps [of _ buf])
  qed
qed

lemma cut_at_first:
  assumes "13 \<notin> set h"
  shows "cut_at HEADER_TERMINATOR (h @ HEADER_TERMINATOR @ r) = Some (h, r)"
  using assms by (induction h) (simp_all add: HEADER_TERMINATOR_def)

lemma cut_at_none:
  assumes "13 \<notin> set h" and "h @ HEADER_TERMINATOR = p @ z" and "z \<noteq> []"
  shows "cut_at HEADER_TERMINATOR p = None"
proof (rule ccontr)
  assume "cut_at HEADER_TERMINATOR p \<noteq> None"
  then obtain x y where "p = x @ HEADER_TERMINATOR @ y" using cut_at_split by fastforce
  with assms(2) have e: "h @ HEADER_TERMINATOR = x @ HEADER_TERMINATOR @ y @ z" by simp
  have "length x < length h" using arg_cong [OF e, of length] assms(3) by (cases z) auto
  moreover have "(h @ HEADER_TERMINATOR) ! length x = 13" unfolding e by (simp add: HEADER_TERMINATOR_def nth_append)
  ultimately have "h ! length x = 13" by (simp add: nth_append)
  with \<open>length x < length h\<close> assms(1) show False by (metis nth_mem)
qed

lemma fill_header_reads:
  assumes "[] \<notin> set input" and "buf @ concat input = (h @ HEADER_TERMINATOR) @ rest" and "length buf \<le> length (h @ HEADER_TERMINATOR)"
    and "13 \<notin> set h" and "length (h @ HEADER_TERMINATOR) \<le> MAX_HEADER_BYTES"
  shows "\<exists>input'. fill_header buf input = Inr (Some (h, []), input') \<and> concat input' = rest \<and> [] \<notin> set input'"
  using assms
proof (induction "length (h @ HEADER_TERMINATOR) - length buf" arbitrary: buf input rule: less_induct)
  case less
  show ?case
  proof (cases "length (h @ HEADER_TERMINATOR) \<le> length buf")
    case True
    with less.prems(2,3) have "buf = h @ HEADER_TERMINATOR" "concat input = rest" by (metis append_eq_append_conv le_antisym)+
    with less.prems(1) cut_at_first [OF less.prems(4), of "[]"] show ?thesis
      by (intro exI [of _ input]) (simp add: fill_header.simps)
  next
    case False
    then have some: "input \<noteq> []" using less.prems(2,3) by (auto dest: arg_cong [of _ _ length])
    obtain c input' where c: "read_chunk 1 input = (c, input')" "c \<noteq> []" "length c \<le> 1"
      "concat input = c @ concat input'" "[] \<notin> set input'"
      by (rule read_chunk_some [OF less.prems(1) some, of 1]) simp
    have "h @ HEADER_TERMINATOR = buf @ drop (length buf) (h @ HEADER_TERMINATOR)"
      using less.prems(2) False by (metis append_eq_append_conv_if append_take_drop_id nat_le_linear)
    then have none: "cut_at HEADER_TERMINATOR buf = None"
      using False by (intro cut_at_none [OF less.prems(4)]) auto
    have short: "length (h @ HEADER_TERMINATOR) - length (buf @ c) < length (h @ HEADER_TERMINATOR) - length buf"
      using c(2) False by (simp flip: length_greater_0_conv)
    have more: "length (buf @ c) \<le> length (h @ HEADER_TERMINATOR)" using c(3) False by simp
    have "\<exists>i. fill_header (buf @ c) input' = Inr (Some (h, []), i) \<and> concat i = rest \<and> [] \<notin> set i"
      by (rule less.hyps [OF short c(5) _ more less.prems(4,5)]) (use less.prems(2) c(4) in simp)
    moreover have "\<not> MAX_HEADER_BYTES < length buf" using False less.prems(5) by simp
    ultimately show ?thesis using c(1,2) none by (simp add: fill_header.simps [of buf])
  qed
qed

section \<open>One frame\<close>

lemma length_dec_nat_bound: "n < 10 ^ Suc k \<Longrightarrow> length (dec_nat n) \<le> Suc k"
proof (induction k arbitrary: n)
  case 0
  then show ?case by (simp add: dec_nat.simps)
next
  case (Suc k)
  show ?case
  proof (cases "n < 10")
    case False
    have "length (dec_nat (n div 10)) \<le> Suc k" by (rule Suc.IH) (use Suc.prems in \<open>simp add: less_mult_imp_div_less\<close>)
    with False show ?thesis by (subst dec_nat.simps) simp
  qed (simp add: dec_nat.simps)
qed

lemma dec_nat_limit: "n < 10 ^ int_limit \<Longrightarrow> length (dec_nat n) \<le> int_limit"
proof -
  assume n: "n < 10 ^ int_limit"
  obtain k where k: "int_limit = Suc k" by (cases int_limit) (simp_all add: int_limit_def)
  show ?thesis using length_dec_nat_bound n unfolding k by blast
qed

lemma digits_plain: "(\<And>c. c \<in> set ds \<Longrightarrow> ascii_digit c) \<Longrightarrow> ds \<noteq> [] \<Longrightarrow> digits_with_underscores ds = Some ds"
proof (induction ds rule: digits_with_underscores.induct)
  case (3 c u r)
  have "u \<noteq> 95" using "3.prems"(1) [of u] by (auto simp: ascii_digit_def)
  with 3 show ?case by simp
qed auto

definition digit_bytes :: "nat \<Rightarrow> bytes" where
  "digit_bytes n = map of_nat (dec_nat n)"

lemma unat_digit_bytes: "map unat (digit_bytes n) = dec_nat n"
proof -
  have "map (unat \<circ> (of_nat :: nat \<Rightarrow> byte)) (dec_nat n) = dec_nat n"
    by (rule unat_of_nat_bytes) (use dec_nat_digits [of _ n] in fastforce)
  then show ?thesis by (simp add: digit_bytes_def)
qed

lemma digit_byte: "b \<in> set (digit_bytes n) \<Longrightarrow> 48 \<le> b \<and> b \<le> 57"
proof -
  assume "b \<in> set (digit_bytes n)"
  then have "unat b \<in> set (dec_nat n)" by (metis unat_digit_bytes image_eqI list.set_map)
  then show ?thesis using dec_nat_digits by (fastforce simp: word_le_nat_alt)
qed

lemma int_of_digit_bytes: "length (dec_nat n) \<le> int_limit \<Longrightarrow> int_of_bytes (digit_bytes n) = Some (int n)"
proof -
  assume lim: "length (dec_nat n) \<le> int_limit"
  have "dec_nat n \<noteq> [] \<and> hd (dec_nat n) \<notin> {43, 45}"
    using dec_nat_digits [of "hd (dec_nat n)" n] by auto
  moreover have "digits_with_underscores (dec_nat n) = Some (dec_nat n)" by (rule digits_plain) (use ascii_digits in auto)
  ultimately show ?thesis using lim by (simp add: int_of_bytes_def unat_digit_bytes read_dec_nat Let_def)
qed

lemma dropWhile_none: "(\<And>x. x \<in> set xs \<Longrightarrow> \<not> p x) \<Longrightarrow> dropWhile p xs = xs"
  by (cases xs) auto

lemma header_length:
  assumes "length (dec_nat n) \<le> int_limit"
  shows "content_length (raw ''Content-Length: '' @ digit_bytes n) = Inr n"
proof -
  have name: "raw ''Content-Length: '' = raw ''Content-Length'' @ [58, 32]" by (simp add: raw_def)
  have no: "58 \<notin> set (raw ''Content-Length'')" "13 \<notin> set (raw ''Content-Length: '')" by (simp_all add: raw_def)
  have colon: "b \<noteq> 58" if "b \<in> set (raw ''Content-Length'')" for b using that no(1) by metis
  have ds: "13 \<notin> set (digit_bytes n)" using digit_byte [of 13 n] by auto
  have "cut_at [13, 10] bs = None" if "13 \<notin> set bs" for bs :: bytes using that by (induction bs) auto
  with no ds have "split_lines (raw ''Content-Length: '' @ digit_bytes n) = [raw ''Content-Length: '' @ digit_bytes n]"
    by (subst split_lines.simps) simp
  moreover have "takeWhile (\<lambda>b. b \<noteq> 58) (raw ''Content-Length: '' @ digit_bytes n) = raw ''Content-Length''"
    "dropWhile (\<lambda>b. b \<noteq> 58) (raw ''Content-Length: '' @ digit_bytes n) = 58 # 32 # digit_bytes n"
    using colon by (simp_all add: name takeWhile_append2 dropWhile_append2)
  moreover have "lower_bytes (strip_bytes (raw ''Content-Length'')) = raw ''content-length''"
    by (simp add: raw_def strip_bytes_def byte_space_def lower_bytes_def)
  moreover have "\<not> byte_space b" if "b \<in> set (digit_bytes n)" for b using digit_byte [OF that] order.trans [of 48 b 13] by (auto simp: byte_space_def)
  then have "dropWhile byte_space (digit_bytes n) = digit_bytes n" "dropWhile byte_space (rev (digit_bytes n)) = rev (digit_bytes n)"
    by (intro dropWhile_none; simp)+
  then have "strip_bytes (32 # digit_bytes n) = digit_bytes n" by (simp add: strip_bytes_def byte_space_def [of 32])
  ultimately show ?thesis using int_of_digit_bytes [OF assms] by (simp add: content_length_def Let_def)
qed

text \<open>A reader at the start of a frame takes exactly that frame.\<close>

lemma read_frame:
  assumes "ms_buffer st = []" and "[] \<notin> set (ms_in st)" and "concat (ms_in st) = frame_of body @ rest"
    and "length (dec_nat (length body)) \<le> int_limit" and "json_body R body = Inr v"
  shows "\<exists>st'. read_message R st = Inr (Some v, st') \<and> ms_buffer st' = [] \<and> [] \<notin> set (ms_in st') \<and> concat (ms_in st') = rest"
proof -
  let ?h = "raw ''Content-Length: '' @ digit_bytes (length body)"
  have "length ?h = 16 + length (dec_nat (length body))" by (simp add: raw_def digit_bytes_def)
  then have len: "length (?h @ HEADER_TERMINATOR) \<le> MAX_HEADER_BYTES"
    using assms(4) by (simp add: HEADER_TERMINATOR_def MAX_HEADER_BYTES_def int_limit_def)
  have no: "13 \<notin> set ?h" using digit_byte [of 13 "length body"] by (auto simp: raw_def)
  have "[] @ concat (ms_in st) = (?h @ HEADER_TERMINATOR) @ body @ rest" by (simp add: assms(3) frame_of_def digit_bytes_def)
  from fill_header_reads [OF assms(2) this _ no len] obtain i1 where
    h: "fill_header [] (ms_in st) = Inr (Some (?h, []), i1)" "concat i1 = body @ rest" "[] \<notin> set i1" by auto
  from fill_body_reads [OF h(3), of "[]" body rest] h(2) obtain i2 where
    b: "fill_body (length body) [] i1 = (True, body, i2)" "concat i2 = rest" "[] \<notin> set i2" by auto
  show ?thesis
    using h(1) b header_length [OF assms(4)] assms(5)
    by (simp add: read_message_def read_frame_header_def assms(1) lift_protocol_def read_exactly_def)
qed

section \<open>A conversation\<close>

text \<open>The messages written in turn, up to one that cannot be.\<close>

fun send_all :: "(ustr \<times> json) list list \<Rightarrow> message_stream \<Rightarrow> write_fault + message_stream" where
  "send_all [] st = Inr st"
| "send_all (m # ms) st = (case write_message m st of (Inl e, st1) \<Rightarrow> Inl e | (Inr seq, st1) \<Rightarrow> send_all ms st1)"

fun receive :: "(ustr \<Rightarrow> ustr) \<Rightarrow> nat \<Rightarrow> message_stream \<Rightarrow> stream_error + json list \<times> message_stream" where
  "receive R 0 st = Inr ([], st)"
| "receive R (Suc n) st = bindR (read_message R st) (\<lambda>(v, st1). case v of
     None \<Rightarrow> Inr ([], st1)
   | Some x \<Rightarrow> bindR (receive R n st1) (\<lambda>(xs, st2). Inr (x # xs, st2)))"

definition numbered :: "nat \<Rightarrow> (ustr \<times> json) list \<Rightarrow> json" where
  "numbered i m = JObject (dict_set (lit ''seq'') (JInt (int i)) m)"

lemma send_all_out: "send_all ms st = Inr st' \<Longrightarrow> length (ms_out st) + length ms \<le> length (ms_out st')"
proof (induction ms arbitrary: st)
  case (Cons m ms)
  then obtain st1 where "send_all ms st1 = Inr st'" "length (ms_out st) + 1 \<le> length (ms_out st1)"
    by (auto simp: write_message_def Let_def frame_of_def HEADER_TERMINATOR_def split: sum.splits if_splits)
  with Cons.IH [of st1] show ?case by simp
qed simp

lemma plain_numbered:
  assumes "plain_json (JObject m)" and "length (dec_nat i) \<le> int_limit"
  shows "plain_json (numbered i m)"
proof -
  have "distinct (map fst (dict_set k v ps))" if "distinct (map fst ps)" for k :: ustr and v :: json and ps
    using that by (induction ps) (auto simp: keys_dict_set)
  moreover have "p \<in> set (dict_set k v ps) \<Longrightarrow> p = (k, v) \<or> p \<in> set ps" for p and k :: ustr and v :: json and ps
    by (induction ps) (auto split: if_splits)
  ultimately show ?thesis using assms by (fastforce simp: numbered_def)
qed

lemma write_message_ok:
  "write_message m w = (Inr n, w1) \<Longrightarrow> \<exists>body. utf8_encode (dumps (numbered (ms_seq w + 1) m)) = Inr body
     \<and> w1 = w\<lparr>ms_seq := ms_seq w + 1, ms_out := ms_out w @ frame_of body\<rparr>"
  by (auto simp: write_message_def numbered_def Let_def simp del: dumps.simps split: sum.splits if_splits)

lemma conversation:
  assumes "send_all ms w = Inr w'" and "\<forall>m \<in> set ms. plain_json (JObject m)"
    and "ms_buffer st = []" and "[] \<notin> set (ms_in st)" and "ms_out w @ concat (ms_in st) = ms_out w'"
    and "ms_seq w \<le> length (ms_out w)" and "length (ms_out w') < 10 ^ int_limit"
  shows "\<exists>st'. receive R (length ms) st = Inr (map2 numbered [ms_seq w + 1..<ms_seq w + 1 + length ms] ms, st')
    \<and> read_message R st' = Inr (None, st')"
  using assms
proof (induction ms arbitrary: w st)
  case Nil
  then have "ms_in st = []" by (cases "ms_in st") auto
  with Nil show ?case by (simp add: read_message_def read_frame_header_def fill_header.simps HEADER_TERMINATOR_def lift_protocol_def)
next
  case (Cons m ms)
  obtain n w1 where "write_message m w = (Inr n, w1)" and rest: "send_all ms w1 = Inr w'"
    using Cons.prems(1) by (auto split: prod.splits sum.splits)
  from write_message_ok [OF this(1)] obtain body where body: "utf8_encode (dumps (numbered (ms_seq w + 1) m)) = Inr body"
    and w1: "w1 = w\<lparr>ms_seq := ms_seq w + 1, ms_out := ms_out w @ frame_of body\<rparr>" by blast
  have more: "length (ms_out w1) + length ms \<le> length (ms_out w')" by (rule send_all_out [OF rest])
  have frame: "length (frame_of body) > length body" by (simp add: frame_of_def HEADER_TERMINATOR_def)
  obtain tail where tail: "ms_out w' = ms_out w1 @ tail"
  proof -
    have "send_all ms v = Inr v' \<Longrightarrow> \<exists>t. ms_out v' = ms_out v @ t" for v v'
      by (induction ms arbitrary: v) (fastforce simp: write_message_def Let_def split: sum.splits if_splits)+
    with rest that show ?thesis by blast
  qed
  have input: "concat (ms_in st) = frame_of body @ tail" using Cons.prems(5) by (simp add: w1 tail)
  have small: "length body < 10 ^ int_limit" "ms_seq w + 1 < 10 ^ int_limit"
    using Cons.prems(6,7) more frame by (simp_all add: w1)
  have "plain_json (numbered (ms_seq w + 1) m)"
    using Cons.prems(2) small by (intro plain_numbered dec_nat_limit) auto
  then have "json_body R body = Inr (numbered (ms_seq w + 1) m)"
    using utf8_decode_encode [OF body] loads_dumps by (simp add: json_body_def)
  from read_frame [OF Cons.prems(3,4) input dec_nat_limit [OF small(1)] this] obtain st1 where
    st1: "read_message R st = Inr (Some (numbered (ms_seq w + 1) m), st1)" "ms_buffer st1 = []" "[] \<notin> set (ms_in st1)" "concat (ms_in st1) = tail" by blast
  have "\<exists>st'. receive R (length ms) st1 = Inr (map2 numbered [ms_seq w1 + 1..<ms_seq w1 + 1 + length ms] ms, st')
      \<and> read_message R st' = Inr (None, st')"
    by (rule Cons.IH [OF rest _ st1(2,3)]) (use Cons.prems(2,6,7) st1(4) tail frame in \<open>simp_all add: w1\<close>)
  moreover have "[ms_seq w + 1..<ms_seq w + 1 + length (m # ms)] = (ms_seq w + 1) # [ms_seq w1 + 1..<ms_seq w1 + 1 + length ms]"
    by (simp add: w1 upt_conv_Cons del: upt_Suc)
  ultimately show ?case by (auto simp: st1(1) simp del: upt_Suc)
qed

text \<open>
  Claim C40. Messages written by the adapter are read by its peer one by one, each with the next
  number, and then the end of the stream, whatever deliveries the pipe makes of the bytes and
  whatever characters the messages contain.
\<close>

theorem frames_roundtrip:
  assumes "send_all ms (new_stream []) = Inr w" and "\<forall>m \<in> set ms. plain_json (JObject m)"
    and "concat input = ms_out w" and "[] \<notin> set input" and "length (ms_out w) < 10 ^ int_limit"
  shows "\<exists>st. receive R (length ms) (new_stream input) = Inr (map2 numbered [1..<length ms + 1] ms, st)
    \<and> read_message R st = Inr (None, st)"
  using conversation [OF assms(1,2), of "new_stream input" R] assms(3,4,5) by (simp add: new_stream_def)

definition accented_message :: "(ustr \<times> json) list" where
  "accented_message = [(lit ''output'', JText [233])]"

theorem frames_roundtrip_witness:
  "\<exists>w st. send_all [accented_message] (new_stream []) = Inr w
    \<and> receive (\<lambda>t. t) 1 (new_stream [take 3 (ms_out w), drop 3 (ms_out w)]) = Inr ([numbered 1 accented_message], st)
    \<and> read_message (\<lambda>t. t) st = Inr (None, st)"
proof -
  have "case send_all [accented_message] (new_stream []) of Inl e \<Rightarrow> False | Inr w \<Rightarrow> length (ms_out w) = 45"
    by code_simp
  then obtain w where w: "send_all [accented_message] (new_stream []) = Inr w" "length (ms_out w) = 45"
    by (auto split: sum.splits)
  have plain: "\<forall>m \<in> set [accented_message]. plain_json (JObject m)" by (simp add: accented_message_def)
  have "(45::nat) < 10 ^ 2" by simp
  also have "\<dots> \<le> 10 ^ int_limit" by (rule power_increasing) (simp_all add: int_limit_def)
  finally have small: "length (ms_out w) < 10 ^ int_limit" by (simp add: w(2))
  have pieces: "concat [take 3 (ms_out w), drop 3 (ms_out w)] = ms_out w" by simp
  have full: "[] \<notin> set [take 3 (ms_out w), drop 3 (ms_out w)]" using w(2) by auto
  from frames_roundtrip [OF w(1) plain pieces full small, of "\<lambda>t. t"] show ?thesis using w(1) by auto
qed

end
