(* ===== verification/Sessions.thy ===== *)
theory Sessions
  imports Session Framing
begin

text \<open>
  Every handler answers the request it is given once, whatever else it sends on the way; the program's
  thread and the values a request carries are silent.
\<close>

section \<open>Responses\<close>

definition is_response :: "(ustr \<times> json) list \<Rightarrow> bool" where
  "is_response m \<longleftrightarrow> map_of m (lit ''type'') = Some (JText (lit ''response''))"

definition responses :: "session \<Rightarrow> (ustr \<times> json) list list" where
  "responses s = filter is_response (sent s)"

lemma send_sent [simp]: "sent (send m s) = sent s @ [m]"
  by (auto simp: send_def split: prod.splits sum.splits)

lemma event_no_response [simp]: "\<not> is_response (event name body)"
  by (simp add: is_response_def event_def)

lemma response_response [simp]: "is_response (response m body ok message)"
  by (simp add: is_response_def response_def)

lemma emit_responses [simp]: "responses (emit name body s) = responses s" "responses (emit_output category t s) = responses s"
  by (simp_all add: responses_def emit_def emit_output_def)

lemma responses_cong: "sent s' = sent s \<Longrightarrow> responses s' = responses s"
  by (simp add: responses_def)

lemma set_debugger_fields [simp]:
  "sent (set_debugger i d s) = sent s" "sent (ask_pause s) = sent s"
  by (simp_all add: set_debugger_def ask_pause_def split: option.splits)

lemma fold_output [simp]: "responses (fold (emit_output c) ts s) = responses s"
  by (induction ts arbitrary: s) simp_all

lemma responses_updates [simp]:
  "responses (s\<lparr>ended := b1\<rparr>) = responses s" "responses (s\<lparr>vm_thread := t\<rparr>) = responses s" "responses (s\<lparr>suspension := u\<rparr>) = responses s"
  "responses (s\<lparr>input_warned := b2\<rparr>) = responses s" "responses (s\<lparr>faulted := b3\<rparr>) = responses s" "responses (s\<lparr>session_handles := h\<rparr>) = responses s"
  "responses (s\<lparr>disconnecting := b4\<rparr>) = responses s" "responses (s\<lparr>serving := b5\<rparr>) = responses s" "responses (set_debugger i d s) = responses s"
  "responses (ask_pause s) = responses s" "responses (s\<lparr>loaded := l\<rparr>) = responses s" "responses (s\<lparr>launch_args := a\<rparr>) = responses s"
  "responses (s\<lparr>stop_on_entry := b6\<rparr>) = responses s" "responses (s\<lparr>debuggers := ds\<rparr>) = responses s"
  "responses (s\<lparr>current_debugger := cd\<rparr>) = responses s" "responses (s\<lparr>configuration_done := b7\<rparr>) = responses s"
  by (simp_all add: responses_def)

lemma end_program_responses [simp]: "responses (end_program c s) = responses s"
  by (simp add: end_program_def Let_def split: option.splits)

lemma endings_responses [simp]:
  "responses (program_exits v s) = responses s" "responses (program_quits s) = responses s"
  "responses (program_faults t s) = responses s" "responses (adapter_fails E e s) = responses s"
  by (simp_all add: program_exits_def program_quits_def program_faults_def adapter_fails_def thread_ends_def)

lemma announce_responses [simp]: "responses (announce vm st t s) = responses s"
  by (simp add: announce_def Let_def)

lemma execute_responses [simp]: "responses (execute E P vm s) = responses s"
  by (auto simp: execute_def fault_stops_def warn_input_def flush_output_def Let_def
    split: option.splits sum.splits vm_error.splits outcome.splits prod.splits)

lemma program_step_responses [simp]: "responses (program_step E s) = responses s"
  by (auto simp: program_step_def before_instruction_def wake_def fault_stops_def Let_def
    split: option.splits sum.splits vm_error.splits vm_thread.splits prod.splits cut.splits)

lemma join_responses [simp]: "responses (join_program E n s) = responses s"
  by (induction n arbitrary: s) simp_all

lemma kill_responses [simp]: "responses (kill_program E s) = responses s" "responses (end_session E s) = responses s"
  by (simp_all add: kill_program_def end_session_def Let_def)

section \<open>Handlers that answer once\<close>

definition silent :: "'a handling \<Rightarrow> bool" where
  "silent h \<longleftrightarrow> (\<forall>s y t. h s = Inr (y, t) \<longrightarrow> responses t = responses s)"

definition answers :: "(ustr \<times> json) list \<Rightarrow> 'a handling \<Rightarrow> bool" where
  "answers m h \<longleftrightarrow> (\<forall>s y t. h s = Inr (y, t) \<longrightarrow> (\<exists>body ok message. responses t = responses s @ [response m body ok message]))"

named_theorems handler_intros

lemma silent_bind [handler_intros]: "silent f \<Longrightarrow> (\<And>x. silent (g x)) \<Longrightarrow> silent (bindS f g)"
  by (fastforce simp: silent_def bindS_Inr)

lemma answers_bind [handler_intros]: "silent f \<Longrightarrow> (\<And>x. answers m (g x)) \<Longrightarrow> answers m (bindS f g)"
  by (fastforce simp: silent_def answers_def bindS_Inr)

lemma answers_first: "answers m f \<Longrightarrow> (\<And>x. silent (g x)) \<Longrightarrow> answers m (bindS f g)"
  by (fastforce simp: silent_def answers_def bindS_Inr)

lemma silent_basic [handler_intros]: "silent (giveS x)" "silent (crash e)" "silent (askS f)" "silent (lift_vm r)" "silent (new_handle f')"
  "silent (remember_path E p)"
  by (auto simp: silent_def crash_def lift_vm_def new_handle_def remember_path_def responses_def method_simps split: sum.splits prod.splits)

lemma answers_crash [handler_intros]: "answers m (crash e)"
  by (simp add: answers_def crash_def)

lemma silent_upd: "(\<And>s. responses (f s) = responses s) \<Longrightarrow> silent (updS f)"
  by (simp add: silent_def updS_def)

lemma answers_upd: "(\<And>s. \<exists>body ok message. responses (f s) = responses s @ [response m body ok message]) \<Longrightarrow> answers m (updS f)"
  by (auto simp: answers_def updS_def)

lemma silent_map [handler_intros]: "(\<And>x. silent (f x)) \<Longrightarrow> silent (mapS f xs)"
  by (induction xs) (auto intro: handler_intros)

lemma reply_responses:
  "responses (reply m body s) = responses s @ [response m body True None]" "responses (refuse m t s) = responses s @ [response m None False (Some t)]"
  by (simp_all add: reply_def refuse_def responses_def)

lemma some_response [simp]: "\<exists>body' ok' message'. response m body ok message = response m body' ok' message'"
  by blast

lemma answers_reply [handler_intros]: "answers m (updS (reply m body))" "answers m (updS (refuse m t))"
  by (rule answers_upd; simp only: reply_responses; blast)+

lemma silent_values [handler_intros]:
  "silent (object_or_empty E v)" "silent (arguments_of E m)" "silent (int_value E v)" "silent (int_or_zero E v)" "silent (wanted_list E v)"
  "silent (argument_texts E v)"
proof -
  show o: "silent (object_or_empty E v)" for v by (auto simp: object_or_empty_def intro!: handler_intros split: json.splits)
  show "silent (arguments_of E m)" by (simp add: arguments_of_def o)
  show i: "silent (int_value E v)" by (auto simp: silent_def int_value_def split: json.splits sum.splits)
  then show "silent (int_or_zero E v)" by (simp add: int_or_zero_def silent_basic)
  show "silent (wanted_list E v)" "silent (argument_texts E v)"
    by (auto simp: wanted_list_def argument_texts_def intro!: handler_intros split: json.splits)
qed

lemma report_responses: "report_records E rs s = (rs', s1) \<Longrightarrow> responses s1 = responses s"
  by (induction rs arbitrary: s rs' s1) (auto simp: report_record_def Let_def split: prod.splits if_splits)

lemma report_sources_responses: "report_sources E ps s = (ps', s1) \<Longrightarrow> responses s1 = responses s"
  by (induction E ps s arbitrary: ps' s1 rule: report_sources.induct) (auto split: prod.splits dest!: report_responses)

lemma report_breakpoints_responses [simp]: "responses (report_breakpoints E s) = responses s"
  by (auto simp: report_breakpoints_def responses_def split: prod.splits)
    (metis report_responses report_sources_responses responses_def)

lemma silent_rebuild [handler_intros]: "silent (rebuild_breakpoints E)"
proof -
  have "silent (place_breakpoints E)"
    by (auto simp: silent_def place_breakpoints_def bindS_Inr lift_vm_def updS_def responses_def split: option.splits prod.splits sum.splits)
  moreover have "silent (updS (report_breakpoints E))" by (rule silent_upd) simp
  ultimately show ?thesis by (simp add: rebuild_breakpoints_def silent_bind)
qed

lemma silent_start [handler_intros]: "silent (start_if_ready E)"
  by (auto simp: start_if_ready_def Let_def intro!: handler_intros silent_upd split: option.splits) (auto simp: responses_def)

lemma silent_records [handler_intros]: "silent (records_of E cp p wanted)" "silent (function_records E wanted)"
  by (auto simp: records_of_def function_records_def intro!: handler_intros silent_upd) (auto simp: responses_def)

lemma silent_frames [handler_intros]:
  "silent (stack_frame E fv)" "silent (frame_for E P vm v)" "silent (frame_variables P vm k)" "silent (child_variables P vm dv)"
  by (auto simp: stack_frame_def frame_for_def frame_variables_def local_variable_def child_variables_def Let_def
    intro!: handler_intros split: prod.splits)

lemma answers_suspended [handler_intros]: "(\<And>P vm. answers m (k P vm)) \<Longrightarrow> answers m (require_suspended m k)"
  by (auto simp: require_suspended_def intro!: handler_intros split: option.splits)

lemma answers_update_reply: "(\<And>s. \<exists>u. responses u = responses s \<and> f s = reply m body u \<or> responses u = responses s \<and> f s = refuse m t u)
    \<Longrightarrow> answers m (updS f)"
  by (rule answers_upd) (metis reply_responses)

lemma answers_inspection [handler_intros]:
  "answers m (on_stack_trace E m)" "answers m (on_scopes E m)" "answers m (on_variables E m)" "answers m (on_evaluate E m)"
  subgoal by (auto simp: on_stack_trace_def intro!: handler_intros)
  subgoal by (auto simp: on_scopes_def intro!: handler_intros split: option.splits)
  subgoal by (auto simp: on_variables_def intro!: handler_intros split: option.splits handle_entry.splits)
  subgoal by (auto simp: on_evaluate_def Let_def intro!: handler_intros split: option.splits list.splits json.splits)
  done

lemma answers_breakpoints [handler_intros]: "answers m (on_set_breakpoints E m)" "answers m (on_set_function_breakpoints E m)"
proof -
  have body: "answers m (updS (\<lambda>s. reply m (b s) s))" for b
    by (rule answers_upd) (auto simp: reply_responses)
  have quiet: "silent (updS (\<lambda>s. s\<lparr>source_breakpoints := x s\<rparr>))" "silent (updS (\<lambda>s. s\<lparr>function_breakpoints := y s\<rparr>))" for x y
    by (rule silent_upd; simp add: responses_def)+
  show "answers m (on_set_breakpoints E m)"
    by (auto simp: on_set_breakpoints_def Let_def intro!: handler_intros body quiet split: json.splits)
  show "answers m (on_set_function_breakpoints E m)"
    by (auto simp: on_set_function_breakpoints_def intro!: handler_intros body quiet)
qed

lemma answers_control [handler_intros]:
  "answers m (on_initialize m)" "answers m (on_resume k b m)" "answers m (on_pause m)" "answers m (on_disconnect E m)"
proof -
  have "responses (release k s) = responses s" for s by (simp add: release_def split: option.splits prod.splits)
  then show "answers m (on_resume k b m)" by (auto simp: on_resume_def reply_responses intro!: answers_upd split: option.splits)
qed (auto simp: on_initialize_def on_pause_def on_disconnect_def reply_responses intro!: answers_upd)

lemma answers_start [handler_intros]: "answers m (on_launch E m)" "answers m (on_configuration_done E m)"
proof -
  have updated: "answers m (updS (\<lambda>s. reply m None (s\<lparr>loaded := a s, launch_args := b s, stop_on_entry := c s, debuggers := d s, current_debugger := e s\<rparr>)))"
    for a b c d e
    by (rule answers_upd) (simp add: reply_responses)
  have configured: "answers m (updS (\<lambda>s. reply m None (s\<lparr>configuration_done := f s\<rparr>)))" for f
    by (rule answers_upd) (simp add: reply_responses)
  have warned: "silent (updS (\<lambda>s. fold (\<lambda>w. emit_output ''stderr'' (lit ''Warning: '' @ w @ [10])) ws s))" for ws
  proof (rule silent_upd)
    show "responses (fold (\<lambda>w. emit_output ''stderr'' (lit ''Warning: '' @ w @ [10])) ws s) = responses s" for s
      by (induction ws arbitrary: s) simp_all
  qed
  have failed: "answers m (updS (\<lambda>s. end_program None (refuse m t (emit_output ''stderr'' u s))))" for t u
    by (rule answers_upd) (simp add: reply_responses)
  show "answers m (on_configuration_done E m)"
    unfolding on_configuration_done_def by (rule answers_first; intro configured handler_intros)
  have loaded: "answers m (bindS (updS (\<lambda>s. fold (\<lambda>w. emit_output ''stderr'' (lit ''Warning: '' @ w @ [10])) ws s)) (\<lambda>_.
      bindS (updS (\<lambda>s. reply m None (s\<lparr>loaded := a s, launch_args := b s, stop_on_entry := c s, debuggers := d s, current_debugger := e s\<rparr>)))
        (\<lambda>_. bindS (rebuild_breakpoints E) (\<lambda>_. start_if_ready E))))" for ws a b c d e
    by (rule answers_bind [OF warned], rule answers_first [OF updated], intro handler_intros)
  show "answers m (on_launch E m)"
    unfolding on_launch_def Let_def
    by (auto intro!: handler_intros loaded failed split: json.splits sum.splits prod.splits)
qed

lemma answers_request: "answers m (handle_request E m)"
proof -
  have "\<forall>(name, h) \<in> set (handlers E). answers m (h m)"
    unfolding handlers_def by (auto intro!: handler_intros)
  then have "find p (handlers E) = Some (name, h) \<Longrightarrow> answers m (h m)" for p name h
    by (auto simp: find_Some_iff) (metis case_prod_conv nth_mem)
  then show ?thesis unfolding handle_request_def
    by (auto split: option.splits intro!: handler_intros)
qed

end
