(* ===== verification/SessionLife.thy ===== *)
theory SessionLife
  imports Sessions
begin

text \<open>
  The life of a session, over every interleaving of its two threads: the end of the program is
  reported once, the program starts when both requests have come, its state is read only while it is
  parked, a number keeps its meaning, and a disconnect stops the program.
\<close>

section \<open>What a step leaves alone\<close>

lemma send_fields [simp]:
  "looping (send m s) = looping s" "loaded (send m s) = loaded s" "configuration_done (send m s) = configuration_done s"
  "started (send m s) = started s" "stop_on_entry (send m s) = stop_on_entry s" "suspension (send m s) = suspension s"
  "disconnecting (send m s) = disconnecting s" "ended (send m s) = ended s" "vm_thread (send m s) = vm_thread s"
  "vm_program (send m s) = vm_program s" "debuggers (send m s) = debuggers s" "current_debugger (send m s) = current_debugger s"
  "thread_debugger (send m s) = thread_debugger s" "faulted (send m s) = faulted s" "session_handles (send m s) = session_handles s"
  by (auto simp: send_def split: prod.splits sum.splits)

lemma send_names [simp]: "emit name body s = send (event (lit name) body) s"
  by (simp add: emit_def)

lemmas sends = emit_output_def reply_def refuse_def

lemma set_debugger_core [simp]:
  "looping (set_debugger i d s) = looping s" "loaded (set_debugger i d s) = loaded s"
  "configuration_done (set_debugger i d s) = configuration_done s"
  "started (set_debugger i d s) = started s" "suspension (set_debugger i d s) = suspension s"
  "disconnecting (set_debugger i d s) = disconnecting s" "ended (set_debugger i d s) = ended s" "vm_thread (set_debugger i d s) = vm_thread s"
  "vm_program (set_debugger i d s) = vm_program s" "length (debuggers (set_debugger i d s)) = length (debuggers s)"
  "current_debugger (set_debugger i d s) = current_debugger s" "thread_debugger (set_debugger i d s) = thread_debugger s"
  "faulted (set_debugger i d s) = faulted s" "session_handles (set_debugger i d s) = session_handles s"
  by (simp_all add: set_debugger_def)

section \<open>Reports of the end\<close>

definition ending :: "(ustr \<times> json) list \<Rightarrow> bool" where
  "ending m \<longleftrightarrow> map_of m (lit ''event'') \<in> {Some (JText (lit ''exited'')), Some (JText (lit ''terminated''))}"

definition endings :: "session \<Rightarrow> (ustr \<times> json) list list" where
  "endings s = filter ending (sent s)"

lemma event_ending [simp]: "ending (event name body) \<longleftrightarrow> name \<in> {lit ''exited'', lit ''terminated''}"
  by (auto simp: ending_def event_def)

lemma response_no_ending [simp]: "\<not> ending (response m body ok message)"
  by (auto simp: ending_def response_def split: option.splits)

lemma endings_send [simp]: "endings (send m s) = endings s @ (if ending m then [m] else [])"
  by (simp add: endings_def)

lemma endings_cong: "sent s' = sent s \<Longrightarrow> endings s' = endings s"
  by (simp add: endings_def)

lemma endings_updates [simp]:
  "endings (s\<lparr>wire := x0\<rparr>) = endings s" "endings (s\<lparr>serving := x1\<rparr>) = endings s" "endings (s\<lparr>looping := x2\<rparr>) = endings s"
  "endings (s\<lparr>loaded := x3\<rparr>) = endings s" "endings (s\<lparr>launch_args := x4\<rparr>) = endings s" "endings (s\<lparr>configuration_done := x5\<rparr>) = endings s"
  "endings (s\<lparr>started := x6\<rparr>) = endings s" "endings (s\<lparr>stop_on_entry := x7\<rparr>) = endings s" "endings (s\<lparr>suspension := x8\<rparr>) = endings s"
  "endings (s\<lparr>disconnecting := x9\<rparr>) = endings s" "endings (s\<lparr>ended := x10\<rparr>) = endings s" "endings (s\<lparr>vm_thread := x11\<rparr>) = endings s"
  "endings (s\<lparr>vm_program := x12\<rparr>) = endings s" "endings (s\<lparr>debuggers := x13\<rparr>) = endings s" "endings (s\<lparr>current_debugger := x14\<rparr>) = endings s"
  "endings (s\<lparr>thread_debugger := x15\<rparr>) = endings s" "endings (s\<lparr>faulted := x16\<rparr>) = endings s" "endings (s\<lparr>source_breakpoints := x17\<rparr>) = endings s"
  "endings (s\<lparr>function_breakpoints := x18\<rparr>) = endings s" "endings (s\<lparr>next_breakpoint_id := x19\<rparr>) = endings s" "endings (s\<lparr>hit_ids := x20\<rparr>) = endings s"
  "endings (s\<lparr>client_paths := x21\<rparr>) = endings s" "endings (s\<lparr>session_handles := x22\<rparr>) = endings s" "endings (s\<lparr>input_warned := x23\<rparr>) = endings s"
  "endings (set_debugger i d s) = endings s"
  by (simp_all add: endings_def)

section \<open>The invariant\<close>

definition handles_ok :: "handles \<Rightarrow> bool" where
  "handles_ok h \<longleftrightarrow> (\<forall>n e. map_of (h_entries h) n = Some e \<longrightarrow> n < h_next h)"

definition ends_once :: "session \<Rightarrow> bool" where
  "ends_once s \<longleftrightarrow> (if ended s
     then \<exists>body. endings s = [event (lit ''terminated'') None] \<or> endings s = [event (lit ''exited'') body, event (lit ''terminated'') None]
     else endings s = [])"

definition begun :: "session \<Rightarrow> bool" where
  "begun s \<longleftrightarrow> started s \<and> loaded s \<noteq> None \<and> configuration_done s \<and> vm_program s \<noteq> None \<and> thread_debugger s < length (debuggers s)"

definition base_ok :: "session \<Rightarrow> bool" where
  "base_ok s \<longleftrightarrow> ends_once s \<and> handles_ok (session_handles s) \<and> (\<forall>i. current_debugger s = Some i \<longrightarrow> i < length (debuggers s))
     \<and> (loaded s \<noteq> None \<longrightarrow> current_debugger s \<noteq> None)"

definition parked_ok :: "session \<Rightarrow> bool" where
  "parked_ok s \<longleftrightarrow> (case vm_thread s of
     Parked vm st message \<Rightarrow> (\<exists>k. suspension s = Some (st, k) \<and> (stop_why st = FaultStop \<longrightarrow> k = None \<and> faulted s))
   | _ \<Rightarrow> suspension s = None)"

definition session_ok :: "session \<Rightarrow> bool" where
  "session_ok s \<longleftrightarrow> base_ok s \<and> (vm_thread s \<noteq> NoThread \<longrightarrow> begun s) \<and> parked_ok s"

text \<open>The program's thread between its stops.\<close>

definition ready :: "session \<Rightarrow> bool" where
  "ready s \<longleftrightarrow> base_ok s \<and> begun s \<and> suspension s = None"

text \<open>Numbers are given out upwards and keep their entry as long as they have one.\<close>

definition keeps_numbers :: "handles \<Rightarrow> handles \<Rightarrow> bool" where
  "keeps_numbers h h' \<longleftrightarrow> h_next h \<le> h_next h'
     \<and> (\<forall>n < h_next h. map_of (h_entries h') n \<in> {None, map_of (h_entries h) n})"

lemma keeps_numbers_refl [simp]: "keeps_numbers h h"
  by (simp add: keeps_numbers_def)

lemma keeps_numbers_trans: "keeps_numbers h h' \<Longrightarrow> keeps_numbers h' h'' \<Longrightarrow> keeps_numbers h h''"
  by (auto simp: keeps_numbers_def) (metis order_less_le_trans insert_iff singletonD)

definition goes :: "session \<Rightarrow> session \<Rightarrow> bool" where
  "goes s t \<longleftrightarrow> (session_ok s \<longrightarrow> session_ok t \<and> keeps_numbers (session_handles s) (session_handles t))"

lemma goes_refl [simp]: "goes s s"
  by (simp add: goes_def)

lemma goes_trans: "goes s t \<Longrightarrow> goes t u \<Longrightarrow> goes s u"
  by (auto simp: goes_def intro: keeps_numbers_trans)

lemma new_session_ok: "session_ok (new_session st)"
  by (simp add: session_ok_def base_ok_def ends_once_def endings_def handles_ok_def parked_ok_def new_session_def new_handles_def)

text \<open>What the parts of the invariant do not look at.\<close>

lemma base_updates [simp]:
  "base_ok (s\<lparr>wire := x0\<rparr>) = base_ok s" "base_ok (s\<lparr>serving := x1\<rparr>) = base_ok s" "base_ok (s\<lparr>looping := x2\<rparr>) = base_ok s"
  "base_ok (s\<lparr>stop_on_entry := x3\<rparr>) = base_ok s" "base_ok (s\<lparr>suspension := x4\<rparr>) = base_ok s" "base_ok (s\<lparr>disconnecting := x5\<rparr>) = base_ok s"
  "base_ok (s\<lparr>vm_thread := x6\<rparr>) = base_ok s" "base_ok (s\<lparr>faulted := x7\<rparr>) = base_ok s" "base_ok (s\<lparr>source_breakpoints := x8\<rparr>) = base_ok s"
  "base_ok (s\<lparr>function_breakpoints := x9\<rparr>) = base_ok s" "base_ok (s\<lparr>next_breakpoint_id := x10\<rparr>) = base_ok s" "base_ok (s\<lparr>hit_ids := x11\<rparr>) = base_ok s"
  "base_ok (s\<lparr>client_paths := x12\<rparr>) = base_ok s" "base_ok (s\<lparr>input_warned := x13\<rparr>) = base_ok s" "base_ok (s\<lparr>launch_args := x14\<rparr>) = base_ok s"
  by (simp_all add: base_ok_def ends_once_def)

lemma begun_updates [simp]:
  "begun (s\<lparr>wire := x0\<rparr>) = begun s" "begun (s\<lparr>serving := x1\<rparr>) = begun s" "begun (s\<lparr>looping := x2\<rparr>) = begun s"
  "begun (s\<lparr>stop_on_entry := x3\<rparr>) = begun s" "begun (s\<lparr>suspension := x4\<rparr>) = begun s" "begun (s\<lparr>disconnecting := x5\<rparr>) = begun s"
  "begun (s\<lparr>vm_thread := x6\<rparr>) = begun s" "begun (s\<lparr>faulted := x7\<rparr>) = begun s" "begun (s\<lparr>source_breakpoints := x8\<rparr>) = begun s"
  "begun (s\<lparr>function_breakpoints := x9\<rparr>) = begun s" "begun (s\<lparr>next_breakpoint_id := x10\<rparr>) = begun s" "begun (s\<lparr>hit_ids := x11\<rparr>) = begun s"
  "begun (s\<lparr>client_paths := x12\<rparr>) = begun s" "begun (s\<lparr>input_warned := x13\<rparr>) = begun s" "begun (s\<lparr>launch_args := x14\<rparr>) = begun s"
  "begun (s\<lparr>ended := x15\<rparr>) = begun s" "begun (s\<lparr>session_handles := x16\<rparr>) = begun s"
  by (simp_all add: begun_def)

section \<open>The program's thread\<close>

lemma lit_names [simp]: "lit ''output'' \<notin> {lit ''exited'', lit ''terminated''}" "lit ''stopped'' \<notin> {lit ''exited'', lit ''terminated''}"
  "lit ''breakpoint'' \<notin> {lit ''exited'', lit ''terminated''}" "lit ''initialized'' \<notin> {lit ''exited'', lit ''terminated''}"
  by simp_all

text \<open>Sending anything but the end, and changing a debugger, keep every part of the invariant.\<close>

lemma keeps_parts:
  "\<not> ending m \<Longrightarrow> base_ok (send m s) = base_ok s" "begun (send m s) = begun s" "parked_ok (send m s) = parked_ok s"
  "base_ok (set_debugger i d s) = base_ok s" "begun (set_debugger i d s) = begun s" "parked_ok (set_debugger i d s) = parked_ok s"
  by (simp_all add: base_ok_def ends_once_def begun_def parked_ok_def split: vm_thread.split)

lemma ready_parts [simp]:
  "\<not> ending m \<Longrightarrow> ready (send m s) = ready s" "ready (set_debugger i d s) = ready s" "ready (s\<lparr>vm_thread := t\<rparr>) = ready s"
  "ready (s\<lparr>input_warned := b\<rparr>) = ready s" "ready (s\<lparr>faulted := f\<rparr>) = ready s"
  by (simp_all add: ready_def keeps_parts)

lemma ready_output [simp]: "ready (emit_output c t s) = ready s" "ready (fold (emit_output c) ts s) = ready s"
proof -
  show o: "ready (emit_output c t s) = ready s" for t s by (simp add: sends)
  show "ready (fold (emit_output c) ts s) = ready s" by (induction ts arbitrary: s) (simp_all add: o)
qed

lemma output_fields [simp]:
  "vm_thread (emit_output c t s) = vm_thread s" "session_handles (emit_output c t s) = session_handles s"
  "disconnecting (emit_output c t s) = disconnecting s" "stop_on_entry (emit_output c t s) = stop_on_entry s"
  "session_handles (fold (emit_output c) ts s) = session_handles s" "vm_thread (fold (emit_output c) ts s) = vm_thread s"
proof -
  show "session_handles (fold (emit_output c) ts s) = session_handles s" "vm_thread (fold (emit_output c) ts s) = vm_thread s"
    by (induction ts arbitrary: s) (simp_all add: sends)
qed (simp_all add: sends)

lemma ready_end: "ready s \<Longrightarrow> ready (end_program c s) \<and> session_handles (end_program c s) = session_handles s"
  by (cases c) (auto simp: ready_def base_ok_def ends_once_def begun_def end_program_def Let_def)

lemma ready_over: "ready s \<Longrightarrow> session_ok (thread_ends s)" "session_handles (thread_ends s) = session_handles s"
  by (simp_all add: thread_ends_def ready_def session_ok_def parked_ok_def)

lemma ready_going: "ready s \<Longrightarrow> session_ok (s\<lparr>vm_thread := Going vm\<rparr>)"
  by (simp add: ready_def session_ok_def parked_ok_def)

text \<open>Where the thread's work may leave a session that was ready.\<close>

definition leads :: "session \<Rightarrow> session \<Rightarrow> bool" where
  "leads s t \<longleftrightarrow> (ready s \<longrightarrow> session_ok t \<and> keeps_numbers (session_handles s) (session_handles t))"

lemma leads_endings:
  "leads s (program_exits v s)" "leads s (program_quits s)" "leads s (program_faults t s)" "leads s (adapter_fails E e s)"
  by (auto simp: leads_def program_exits_def program_quits_def program_faults_def adapter_fails_def ready_over ready_end)

lemma leads_via: "leads u t \<Longrightarrow> ready s \<longrightarrow> ready u \<Longrightarrow> session_handles u = session_handles s \<Longrightarrow> leads s t"
  by (simp add: leads_def)

lemma leads_announce: "leads s (announce vm st t s)"
proof -
  have park: "leads s (send (event (lit ''stopped'') b) (s\<lparr>session_handles := clear_handles (session_handles s), suspension := Some (st, None),
      vm_thread := Parked vm st t\<rparr>))" if "stop_why st = FaultStop \<longrightarrow> faulted s" for s b
    using that by (auto simp: leads_def ready_def session_ok_def keeps_parts parked_ok_def clear_handles_def keeps_numbers_def)
      (auto simp: base_ok_def ends_once_def handles_ok_def)
  define s1 where "s1 = (if stop_why st = FaultStop
    then emit_output ''stderr'' (lit ''Runtime error: '' @ t @ [10]) (s\<lparr>faulted := True\<rparr>) else s)"
  have s1: "ready s \<longrightarrow> ready s1" "session_handles s1 = session_handles s" "stop_why st = FaultStop \<longrightarrow> faulted s1"
    by (simp_all add: s1_def sends)
  have "announce vm st t s = (if disconnecting s1 then program_quits s1
      else emit ''stopped'' (Some (stopped_body s1 st t)) (s1\<lparr>session_handles := clear_handles (session_handles s1),
        suspension := Some (st, None), vm_thread := Parked vm st t\<rparr>))"
    by (simp add: announce_def s1_def Let_def)
  moreover have "leads s1 \<dots>" using park [OF s1(3)] leads_endings(2) by simp
  ultimately show ?thesis using leads_via [OF _ s1(1,2)] by simp
qed

lemma leads_fault: "leads s (fault_stops E e t vm s)"
  by (auto simp: fault_stops_def intro: leads_endings leads_via [OF leads_announce] split: prod.splits sum.splits)

lemma leads_execute: "leads s (execute E P vm s)"
proof -
  have warned: "ready (warn_input i s) = ready s" "session_handles (warn_input i s) = session_handles s" for i
    by (simp_all add: warn_input_def)
  have flushed: "leads u ((flush_output vm' u)\<lparr>vm_thread := Going v\<rparr>)" "leads u (program_exits n (flush_output vm' u))" for u vm' v n
    by (auto simp: leads_def flush_output_def ready_going program_exits_def ready_over ready_end)
  show ?thesis
    unfolding execute_def Let_def
    by (auto intro: leads_endings leads_via [OF leads_endings(4)] leads_via [OF leads_fault] leads_via [OF flushed(1)] leads_via [OF flushed(2)]
      simp: warned split: option.splits sum.splits vm_error.splits outcome.splits)
qed

lemma leads_before:
  assumes "session_ok s"
  shows "leads s (before_instruction E P vm s)"
proof -
  have dbg: "leads (set_debugger i d s) t \<Longrightarrow> leads s t" for i d s t by (simp add: leads_def)
  have stay: "leads s (set_debugger i d s)" for i d
    using assms by (simp add: leads_def session_ok_def keeps_parts)
  show ?thesis
    unfolding before_instruction_def Let_def
    by (auto intro!: dbg [OF leads_execute] dbg [OF dbg [OF leads_execute]] dbg [OF leads_endings(4)] dbg [OF leads_announce] stay
      split: prod.splits option.splits cut.splits sum.splits)
qed

lemma goes_ready: "leads u t \<Longrightarrow> (session_ok s \<Longrightarrow> ready u) \<Longrightarrow> session_handles u = session_handles s \<Longrightarrow> goes s t"
  by (auto simp: leads_def goes_def)

lemma goes_wake:
  assumes "vm_thread s = Parked vm st message"
  shows "goes s (wake E P vm st message s)"
proof -
  have free: "ready (s\<lparr>suspension := None\<rparr>)" if "session_ok s"
    using that by (simp add: session_ok_def ready_def assms)
  have dbg: "leads (set_debugger i d u) t \<Longrightarrow> leads u t" for i d u t by (simp add: leads_def)
  have "leads (s\<lparr>suspension := None\<rparr>) t \<Longrightarrow> goes s t" for t by (rule goes_ready [OF _ free]) simp_all
  then show ?thesis
    unfolding wake_def Let_def
    by (auto intro: leads_endings dbg [OF leads_endings(3)] dbg [OF leads_execute] split: option.splits prod.splits sum.splits)
qed

lemma goes_program_step: "goes s (program_step E s)"
proof (cases "vm_thread s")
  case (Starting vm)
  have r: "session_ok s \<Longrightarrow> ready s" using Starting by (simp add: session_ok_def ready_def parked_ok_def)
  have l: "leads s t \<Longrightarrow> goes s t" for t by (rule goes_ready [OF _ r]) simp_all
  have g: "goes s (s\<lparr>vm_thread := Going vm1\<rparr>)" for vm1 using ready_going r by (auto simp: goes_def)
  show ?thesis
    by (auto simp: program_step_def Starting intro: l leads_endings leads_fault g split: option.splits sum.splits vm_error.splits)
next
  case (Going vm)
  have r: "session_ok s \<Longrightarrow> ready s" using Going by (simp add: session_ok_def ready_def parked_ok_def)
  have l: "(session_ok s \<Longrightarrow> leads s t) \<Longrightarrow> goes s t" for t using r by (auto simp: goes_def leads_def)
  show ?thesis
    by (auto simp: program_step_def Going intro!: l leads_endings leads_before split: option.splits)
qed (auto simp: program_step_def intro: goes_wake split: option.splits)

lemma goes_join: "goes s (join_program E n s)"
  by (induction n arbitrary: s) (auto intro: goes_trans goes_program_step)

section \<open>The request loop\<close>

text \<open>Changes that touch nothing the invariant looks at.\<close>

lemma goes_same:
  assumes "base_ok t = base_ok s" and "begun t = begun s" and "parked_ok t = parked_ok s" and "vm_thread t = vm_thread s"
    and "session_handles t = session_handles s"
  shows "goes s t"
  using assms by (simp add: goes_def session_ok_def)

lemma goes_send: "\<not> ending m \<Longrightarrow> goes s (send m s)"
  by (rule goes_same) (simp_all add: keeps_parts)

lemma goes_replies: "goes s (reply m b s)" "goes s (refuse m t s)" "goes s (emit_output c u s)"
  by (simp_all add: sends goes_send)

lemma goes_ask_pause: "goes s (ask_pause s)"
proof (cases "current_debugger s")
  case (Some i)
  then show ?thesis by (intro goes_same) (simp_all add: ask_pause_def keeps_parts)
qed (simp add: ask_pause_def)

lemma goes_kill: "goes s (kill_program E s)"
proof -
  have "goes s (s\<lparr>disconnecting := True\<rparr>)" by (rule goes_same) (simp_all add: parked_ok_def split: vm_thread.split)
  from goes_trans [OF goes_trans [OF this goes_ask_pause] goes_join] show ?thesis by (simp add: kill_program_def)
qed

lemma end_program_fields [simp]:
  "vm_thread (end_program c s) = vm_thread s" "suspension (end_program c s) = suspension s" "faulted (end_program c s) = faulted s"
  "started (end_program c s) = started s" "session_handles (end_program c s) = session_handles s" "begun (end_program c s) = begun s"
  "debuggers (end_program c s) = debuggers s" "current_debugger (end_program c s) = current_debugger s" "loaded (end_program c s) = loaded s"
  by (auto simp: end_program_def Let_def begun_def split: option.split)

lemma end_program_once: "ends_once s \<Longrightarrow> ends_once (end_program c s)"
  by (cases c) (auto simp: end_program_def ends_once_def Let_def)

lemma goes_end_program: "goes s (end_program c s)"
proof -
  have "parked_ok (end_program c s) = parked_ok s" by (simp add: parked_ok_def split: vm_thread.split)
  then show ?thesis using end_program_once by (auto simp: goes_def session_ok_def base_ok_def)
qed

lemma goes_end_session: "goes s (end_session E s)"
proof -
  have stop: "goes u (u\<lparr>serving := False\<rparr>)" for u by (rule goes_same) (simp_all add: parked_ok_def split: vm_thread.split)
  show ?thesis
    unfolding end_session_def Let_def
    by (cases "started (kill_program E s)") (simp_all add: goes_trans [OF goes_kill stop] goes_trans [OF goes_trans [OF goes_kill goes_end_program] stop])
qed

section \<open>Handlers\<close>

text \<open>Whatever a handler does, finishing or raising, keeps the invariant.\<close>

definition reached :: "(vm_error \<times> session) + ('a \<times> session) \<Rightarrow> session" where
  "reached r = (case r of Inl (e, t) \<Rightarrow> t | Inr (y, t) \<Rightarrow> t)"

definition sound :: "'a handling \<Rightarrow> bool" where
  "sound h \<longleftrightarrow> (\<forall>s. goes s (reached (h s)))"

named_theorems sound_intros

lemma reached_simps [simp]: "reached (Inl (e, t)) = t" "reached (Inr (y, t)) = t"
  by (simp_all add: reached_def)

lemma reached_bind: "reached (bindS f g s) = reached (f s) \<or> (\<exists>x. reached (bindS f g s) = reached (g x (reached (f s))))"
proof (cases "f s")
  case (Inl r)
  obtain e t where "r = (e, t)" by (cases r)
  with Inl show ?thesis by (simp add: bindS_def)
next
  case (Inr r)
  obtain x t where "r = (x, t)" by (cases r)
  with Inr show ?thesis by (auto simp: bindS_def)
qed

lemma sound_bind [sound_intros]:
  assumes "sound f" and "\<And>x. sound (g x)"
  shows "sound (bindS f g)"
proof -
  have "goes s (reached (bindS f g s))" for s
    using reached_bind [of f g s] assms goes_trans unfolding sound_def by metis
  then show ?thesis by (simp add: sound_def)
qed

lemma sound_basic [sound_intros]: "sound (giveS x)" "sound (crash e)" "sound (askS f)" "sound (lift_vm r)"
  by (auto simp: sound_def reached_def crash_def lift_vm_def giveS_def askS_def split: sum.splits)

lemma sound_upd [sound_intros]: "(\<And>s. goes s (f s)) \<Longrightarrow> sound (updS f)"
  by (simp add: sound_def reached_def updS_def)

lemma sound_map [sound_intros]: "(\<And>x. sound (f x)) \<Longrightarrow> sound (mapS f xs)"
  by (induction xs) (auto intro: sound_intros)

text \<open>The values of a request are read without a trace.\<close>

definition traceless :: "'a handling \<Rightarrow> bool" where
  "traceless h \<longleftrightarrow> (\<forall>s. reached (h s) = s)"

lemma traceless_sound: "traceless h \<Longrightarrow> sound h"
  by (simp add: traceless_def sound_def)

lemma traceless_basic: "traceless (giveS x)" "traceless (crash e)" "traceless (askS f)" "traceless (lift_vm r)"
  by (auto simp: traceless_def reached_def crash_def lift_vm_def giveS_def askS_def split: sum.splits)

lemma traceless_bind: "traceless f \<Longrightarrow> (\<And>x. traceless (g x)) \<Longrightarrow> traceless (bindS f g)"
  using reached_bind unfolding traceless_def by metis

lemma traceless_map: "(\<And>x. traceless (f x)) \<Longrightarrow> traceless (mapS f xs)"
  by (induction xs) (auto intro: traceless_basic traceless_bind)

lemma traceless_values:
  "traceless (object_or_empty E v)" "traceless (arguments_of E m)" "traceless (int_value E v)" "traceless (int_or_zero E v)"
  "traceless (wanted_list E v)" "traceless (argument_texts E v)"
proof -
  show o: "traceless (object_or_empty E v)" for v by (auto simp: object_or_empty_def intro!: traceless_basic split: json.splits)
  show "traceless (arguments_of E m)" by (simp add: arguments_of_def o)
  show i: "traceless (int_value E v)" by (cases v; cases "ae_int E v") (simp_all add: traceless_def int_value_def)
  then show "traceless (int_or_zero E v)" by (simp add: int_or_zero_def traceless_basic)
  show "traceless (wanted_list E v)" "traceless (argument_texts E v)"
    by (auto simp: wanted_list_def argument_texts_def intro!: traceless_map traceless_basic split: json.splits)
qed

lemmas sound_values [sound_intros] = traceless_values [THEN traceless_sound]

text \<open>Numbers.\<close>

lemma handle_given:
  assumes "f = value_handle v \<or> f = frame_handle depth \<or> f = locals_handle depth" and "f h = (n, h')" and "handles_ok h"
  shows "handles_ok h' \<and> keeps_numbers h h'"
  using assms
  by (auto simp: value_handle_def frame_handle_def locals_handle_def keyed_handle_def store_handle_def handles_ok_def keeps_numbers_def map_of_dict_set less_Suc_eq
    split: if_splits option.splits prod.splits)

lemma goes_handles:
  assumes "session_ok s \<Longrightarrow> handles_ok h \<and> keeps_numbers (session_handles s) h"
  shows "goes s (s\<lparr>session_handles := h\<rparr>)"
  using assms by (auto simp: goes_def session_ok_def base_ok_def ends_once_def parked_ok_def split: vm_thread.splits)

lemma sound_handle [sound_intros]: "sound (new_handle (value_handle v))" "sound (new_handle (frame_handle k))" "sound (new_handle (locals_handle k))"
proof -
  have "sound (new_handle f)" if "f = value_handle v \<or> f = frame_handle k \<or> f = locals_handle k" for f
  proof -
    have "goes s (reached (new_handle f s))" for s
    proof -
      obtain n h' where f: "f (session_handles s) = (n, h')" by (cases "f (session_handles s)")
      have "goes s (s\<lparr>session_handles := h'\<rparr>)"
        by (rule goes_handles) (use handle_given [OF that f] in \<open>auto simp: session_ok_def base_ok_def\<close>)
      then show ?thesis by (simp add: new_handle_def f)
    qed
    then show ?thesis by (simp add: sound_def)
  qed
  then show "sound (new_handle (value_handle v))" "sound (new_handle (frame_handle k))" "sound (new_handle (locals_handle k))" by blast+
qed

text \<open>Breakpoints.\<close>

lemma parked_updates [simp]:
  "parked_ok (s\<lparr>source_breakpoints := x1\<rparr>) = parked_ok s" "parked_ok (s\<lparr>function_breakpoints := x2\<rparr>) = parked_ok s"
  "parked_ok (s\<lparr>next_breakpoint_id := x3\<rparr>) = parked_ok s" "parked_ok (s\<lparr>hit_ids := x4\<rparr>) = parked_ok s"
  "parked_ok (s\<lparr>client_paths := x5\<rparr>) = parked_ok s" "parked_ok (s\<lparr>wire := x6\<rparr>) = parked_ok s"
  "parked_ok (s\<lparr>configuration_done := x7\<rparr>) = parked_ok s" "parked_ok (s\<lparr>started := x8\<rparr>) = parked_ok s"
  "parked_ok (s\<lparr>looping := x9\<rparr>) = parked_ok s"
  by (simp_all add: parked_ok_def split: vm_thread.split)

lemma goes_report: "report_records E rs s = (rs', s1) \<Longrightarrow> goes s s1"
proof (induction rs arbitrary: s rs' s1)
  case (Cons r rs)
  have "goes s (snd (report_record E r s))" by (auto simp: report_record_def Let_def intro!: goes_send)
  with Cons show ?case by (auto split: prod.splits) (metis goes_trans snd_conv)
qed simp

lemma goes_report_sources: "report_sources E ps s = (ps', s1) \<Longrightarrow> goes s s1"
  by (induction E ps s arbitrary: ps' s1 rule: report_sources.induct) (auto split: prod.splits dest!: goes_report intro: goes_trans)

lemma sound_rebuild [sound_intros]: "sound (rebuild_breakpoints E)"
proof -
  have placed: "goes s (set_debugger i d s\<lparr>function_breakpoints := a, source_breakpoints := b, hit_ids := c\<rparr>)" for s i d a b c
    by (rule goes_same) (simp_all add: keeps_parts)
  have "goes s (reached (place_breakpoints E s))" for s
  proof (cases "current_debugger s")
    case (Some i)
    obtain P d where d: "debuggers s ! i = (P, d)" by (cases "debuggers s ! i")
    have "sound (bindS (lift_vm r) (\<lambda>(a, b, d2, c). updS (\<lambda>s. set_debugger i d2 s\<lparr>function_breakpoints := a, source_breakpoints := b, hit_ids := c\<rparr>)))" for r
      by (auto intro!: sound_intros placed split: prod.splits)
    then show ?thesis by (simp add: place_breakpoints_def Some d sound_def)
  qed (simp add: place_breakpoints_def)
  then have "sound (place_breakpoints E)" by (simp add: sound_def)
  moreover have "goes s (report_breakpoints E s)" for s
  proof -
    obtain fs s1 where 1: "report_records E (function_breakpoints s) s = (fs, s1)" by (cases "report_records E (function_breakpoints s) s")
    obtain ss s2 where 2: "report_sources E (source_breakpoints s1) s1 = (ss, s2)" by (cases "report_sources E (source_breakpoints s1) s1")
    have "goes s2 (s2\<lparr>function_breakpoints := fs, source_breakpoints := ss\<rparr>)" by (rule goes_same) simp_all
    with goes_report [OF 1] goes_report_sources [OF 2] show ?thesis
      unfolding report_breakpoints_def by (simp add: 1 2) (metis goes_trans)
  qed
  ultimately show ?thesis by (simp add: rebuild_breakpoints_def sound_bind sound_upd)
qed

lemma sound_records [sound_intros]: "sound (records_of E cp p wanted)" "sound (function_records E wanted)"
proof -
  have "goes s (s\<lparr>next_breakpoint_id := n\<rparr>)" for s n by (rule goes_same) simp_all
  then show "sound (records_of E cp p wanted)" "sound (function_records E wanted)"
    by (auto simp: records_of_def function_records_def intro!: sound_intros)
qed

lemma sound_path [sound_intros]: "sound (remember_path E p)"
proof -
  have "goes s (s\<lparr>client_paths := c\<rparr>)" for s c by (rule goes_same) simp_all
  then show ?thesis by (simp add: sound_def remember_path_def)
qed

lemma sound_replies [sound_intros]: "sound (updS (reply m b))" "sound (updS (refuse m t))"
  by (intro sound_intros goes_replies)+

lemma sound_reply_about [sound_intros]: "sound (updS (\<lambda>s. reply m (b s) s))"
  by (intro sound_intros goes_replies)

lemma sound_frames [sound_intros]:
  "sound (stack_frame E fv)" "sound (frame_for E P vm v)" "sound (frame_variables P vm k)" "sound (child_variables P vm dv)"
  by (auto simp: stack_frame_def frame_for_def frame_variables_def local_variable_def child_variables_def Let_def
    intro!: sound_intros split: prod.splits)

lemma sound_suspended [sound_intros]: "(\<And>P vm. sound (k P vm)) \<Longrightarrow> sound (require_suspended m k)"
  by (auto simp: require_suspended_def intro!: sound_intros split: option.splits)

lemma sound_inspection [sound_intros]:
  "sound (on_stack_trace E m)" "sound (on_scopes E m)" "sound (on_variables E m)" "sound (on_evaluate E m)"
  subgoal by (auto simp: on_stack_trace_def intro!: sound_intros)
  subgoal by (auto simp: on_scopes_def intro!: sound_intros split: option.splits)
  subgoal by (auto simp: on_variables_def intro!: sound_intros split: option.splits handle_entry.splits)
  subgoal by (auto simp: on_evaluate_def Let_def intro!: sound_intros split: option.splits list.splits json.splits)
  done

lemma sound_breakpoints [sound_intros]: "sound (on_set_breakpoints E m)" "sound (on_set_function_breakpoints E m)"
proof -
  have quiet: "goes s (s\<lparr>source_breakpoints := x\<rparr>)" "goes s (s\<lparr>function_breakpoints := y\<rparr>)" for s x y
    by (rule goes_same; simp)+
  show "sound (on_set_breakpoints E m)"
    by (auto simp: on_set_breakpoints_def Let_def intro!: sound_intros goes_replies quiet split: json.splits)
  show "sound (on_set_function_breakpoints E m)"
    by (auto simp: on_set_function_breakpoints_def intro!: sound_intros goes_replies quiet)
qed

text \<open>Starting.\<close>

lemma goes_thread_starts:
  assumes "\<not> started s" and "loaded s = Some P" and "configuration_done s"
  shows "goes s (s\<lparr>started := True\<rparr>)"
    "goes s (s\<lparr>started := True, vm_program := Some Q, vm_thread := Starting vm, thread_debugger := (case current_debugger s of Some i \<Rightarrow> i | None \<Rightarrow> 0)\<rparr>)"
  using assms by (auto simp: goes_def session_ok_def begun_def base_ok_def ends_once_def endings_def parked_ok_def split: vm_thread.splits)

lemma sound_start [sound_intros]: "sound (start_if_ready E)"
proof -
  have "goes s (reached (start_if_ready E s))" for s
  proof (cases "\<exists>P. loaded s = Some P \<and> \<not> started s \<and> configuration_done s")
    case True
    then obtain P where P: "loaded s = Some P" "\<not> started s" "configuration_done s" by blast
    define v where "v = member (lit ''args'') JNull (case launch_args s of None \<Rightarrow> [] | Some a \<Rightarrow> a)"
    have quiet: "reached (argument_texts E v u) = u" for u using traceless_values(6) unfolding traceless_def by blast
    show ?thesis
    proof (cases "argument_texts E v (s\<lparr>started := True\<rparr>)")
      case (Inl r)
      obtain e u where r: "r = (e, u)" by (cases r)
      have "u = s\<lparr>started := True\<rparr>" using quiet [of "s\<lparr>started := True\<rparr>"] by (simp add: Inl r)
      then show ?thesis using goes_thread_starts(1) [OF P(2,1,3)]
        by (simp add: start_if_ready_def P Let_def bindS_def [of "argument_texts E v"] Inl r flip: v_def)
    next
      case (Inr r)
      obtain texts u where r: "r = (texts, u)" by (cases r)
      have "u = s\<lparr>started := True\<rparr>" using quiet [of "s\<lparr>started := True\<rparr>"] by (simp add: Inr r)
      then show ?thesis using goes_thread_starts(2) [OF P(2,1,3)]
        by (simp add: start_if_ready_def P Let_def bindS_def [of "argument_texts E v"] Inr r updS_def flip: v_def)
    qed
  next
    case False
    then show ?thesis by (auto simp: start_if_ready_def giveS_def split: option.splits)
  qed
  then show ?thesis by (simp add: sound_def)
qed

lemma goes_loads:
  "goes s (s\<lparr>loaded := Some P, launch_args := a, stop_on_entry := b, debuggers := debuggers s @ [d], current_debugger := Some (length (debuggers s))\<rparr>)"
  by (auto simp: goes_def session_ok_def begun_def base_ok_def ends_once_def endings_def parked_ok_def split: vm_thread.splits)

lemma sound_launch [sound_intros]: "sound (on_launch E m)" "sound (on_configuration_done E m)"
proof -
  have warned: "goes s (fold (\<lambda>w. emit_output ''stderr'' (lit ''Warning: '' @ w @ [10])) ws s)" for ws s
    by (induction ws arbitrary: s) (auto intro: goes_trans goes_replies)
  have failed: "goes s (end_program None (refuse m t (emit_output ''stderr'' u s)))" for s t u
    by (rule goes_trans [OF goes_trans [OF goes_replies(3) goes_replies(2)] goes_end_program])
  have configured: "goes s (reply m None (s\<lparr>configuration_done := True\<rparr>))" for s
  proof (rule goes_trans [OF _ goes_replies(1)])
    show "goes s (s\<lparr>configuration_done := True\<rparr>)"
      by (auto simp: goes_def session_ok_def begun_def base_ok_def ends_once_def endings_def parked_ok_def split: vm_thread.splits)
  qed
  show "sound (on_launch E m)"
    unfolding on_launch_def Let_def
    by (auto intro!: sound_intros warned failed goes_trans [OF goes_loads goes_replies(1)] split: json.splits sum.splits prod.splits)
  show "sound (on_configuration_done E m)"
    by (auto simp: on_configuration_done_def intro!: sound_intros configured)
qed

text \<open>Letting the program go on, pausing it, and leaving.\<close>

lemma goes_release: "refuse_resume s = None \<Longrightarrow> goes s (release k (reply m b s))"
proof (rule goes_trans [OF goes_replies(1) [of s m b]])
  assume "refuse_resume s = None"
  then obtain st k' where "suspension s = Some (st, k')" "stop_why st \<noteq> FaultStop"
    by (auto simp: refuse_resume_def split: option.splits if_splits)
  then show "goes (reply m b s) (release k (reply m b s))"
    by (auto simp: goes_def release_def sends session_ok_def parked_ok_def split: vm_thread.splits)
qed

lemma sound_control [sound_intros]:
  "sound (on_initialize m)" "sound (on_resume k b m)" "sound (on_pause m)" "sound (on_disconnect E m)"
proof -
  have "goes s (emit ''initialized'' None (reply m b s))" for s b
    by (rule goes_trans [OF goes_replies(1) [of s m b]]) (simp add: goes_send)
  then show "sound (on_initialize m)" unfolding on_initialize_def by (intro sound_intros)
  show "sound (on_resume k b m)"
    by (auto simp: on_resume_def intro!: sound_intros goes_replies goes_release split: option.splits)
  show "sound (on_pause m)"
    by (auto simp: on_pause_def intro!: sound_intros goes_replies goes_trans [OF goes_replies(1) goes_ask_pause])
  show "sound (on_disconnect E m)"
    unfolding on_disconnect_def by (intro sound_intros goes_trans [OF goes_replies(1) goes_end_session])
qed

lemma sound_dispatch: "sound (dispatch E v)"
proof -
  have "\<forall>(name, h) \<in> set (handlers E). sound (h m)" for m
    unfolding handlers_def by (auto intro!: sound_intros)
  then have "find p (handlers E) = Some (name, h) \<Longrightarrow> sound (h m)" for p name h m
    by (auto simp: find_Some_iff) (metis case_prod_conv nth_mem)
  then have "sound (handle_request E m)" for m
    unfolding handle_request_def by (auto split: option.splits intro!: sound_intros)
  then show ?thesis unfolding dispatch_def by (auto split: json.splits intro!: sound_intros)
qed

section \<open>Every reachable session\<close>

lemma goes_leave: "goes s (leave_loop E s)"
proof -
  have stop: "goes s (s\<lparr>looping := False\<rparr>)" by (rule goes_same) simp_all
  have "goes u (wait_for_program E u)" for u
    by (auto simp: wait_for_program_def Let_def intro: goes_trans [OF goes_join goes_kill] goes_join goes_kill)
  then show ?thesis unfolding leave_loop_def by (rule goes_trans [OF stop])
qed

lemma goes_serve: "goes s (serve_step E s)"
proof -
  have wire: "goes s (s\<lparr>wire := w\<rparr>)" for w by (rule goes_same) simp_all
  have "goes s (reached (dispatch E r (s\<lparr>wire := w\<rparr>)))" for r w
    using sound_dispatch [of E r] goes_trans [OF wire] unfolding sound_def by blast
  then show ?thesis
    unfolding serve_step_def
    by (auto intro: goes_leave goes_trans [OF wire goes_leave] goes_trans [OF goes_replies(3) goes_leave] goes_trans [OF _ goes_leave]
      split: sum.splits stream_error.splits option.splits) (metis goes_trans goes_leave reached_simps)+
qed

lemma goes_reaches: "session_reaches E s t \<Longrightarrow> goes s t"
  by (induction rule: session_reaches.induct) (auto elim!: session_stepE intro: goes_trans goes_serve goes_program_step)

lemmas reachable_ok = goes_reaches [unfolded goes_def, rule_format, OF _ new_session_ok]

end
