(* ===== verification/Adapter.thy ===== *)
theory Adapter
  imports SessionLife
begin

text \<open>
  What a client of the debug adapter can rely on, stated over the sessions that can be reached, and the
  requests that break it.
\<close>

definition ascii_letters :: unicode where
  "ascii_letters = \<lparr>is_digit = (\<lambda>c. 48 \<le> c \<and> c \<le> 57), is_alpha = (\<lambda>c. 97 \<le> c \<and> c \<le> 122), is_alnum = (\<lambda>c. 97 \<le> c \<and> c \<le> 122),
     lower = (\<lambda>c. [c]), decimal = (\<lambda>c. if 48 \<le> c \<and> c \<le> 57 then Some (c - 48) else None)\<rparr>"

text \<open>A host that compiles nothing, for the examples.\<close>

definition plain_env :: adapter_env where
  "plain_env = \<lparr>ae_compile = (\<lambda>p. Inl (lit ''cannot open '' @ p)), ae_resolve = (\<lambda>p. p), ae_base = (\<lambda>p. p), ae_sep = 47,
     ae_paths = \<lparr>hp_relative = (\<lambda>p. None), hp_sep = 47\<rparr>, ae_unicode = ascii_letters, ae_space = (\<lambda>c. c = 32), ae_fault_text = (\<lambda>_. []),
     ae_host_text = (\<lambda>_. []), ae_int = (\<lambda>_. Inl TypeError), ae_str = (\<lambda>_. []), ae_repr = (\<lambda>_. []), ae_json_text = (\<lambda>_. []),
     ae_true_real = (\<lambda>_. True), ae_real = (\<lambda>t. t), ae_patience = 2\<rparr>"

definition idle_program :: program where
  "idle_program = \<lparr>code = [\<lparr>op = PUSH_INT, arg = Some 7\<rparr>, \<lparr>op = RET, arg = None\<rparr>],
     fns = [\<lparr>fn_name = lit ''main'', entry_pc = 0, num_locals = 0, num_params = 0, ref_slots = [],
             param_words = [], fn_locals = [], source_file = []\<rparr>],
     strings = [], structs = [], srcmap = \<lparr>pcs = [], positions = []\<rparr>, prog_args = []\<rparr>"

section \<open>Answers\<close>

text \<open>
  Claim C39. Every request that is handled is answered by exactly one response, which names the
  request by its number and its command, whatever else is sent in between.
\<close>

theorem one_response:
  assumes "dispatch E (JObject m) s = Inr ((), s')" and "map_of m (lit ''type'') = Some (JText (lit ''request''))"
  shows "\<exists>r. filter is_response (sent s') = filter is_response (sent s) @ [r]
    \<and> map_of r (lit ''request_seq'') = Some (member (lit ''seq'') (JInt 0) m)
    \<and> map_of r (lit ''command'') = Some (member (lit ''command'') (JText []) m)"
proof -
  have "handle_request E m s = Inr ((), s')" using assms by (simp add: dispatch_def member_def)
  with answers_request [of m E] obtain body ok message where "responses s' = responses s @ [response m body ok message]"
    unfolding answers_def by blast
  then show ?thesis by (auto simp: responses_def response_def lit_def)
qed

definition threads_request :: "(ustr \<times> json) list" where
  "threads_request = [(lit ''seq'', JInt 7), (lit ''type'', JText (lit ''request'')), (lit ''command'', JText (lit ''threads''))]"

theorem one_response_witness:
  "\<exists>s' r. dispatch plain_env (JObject threads_request) (new_session (new_stream [])) = Inr ((), s')
    \<and> filter is_response (sent s') = [r] \<and> map_of r (lit ''request_seq'') = Some (JInt 7)
    \<and> map_of r (lit ''command'') = Some (JText (lit ''threads''))"
proof -
  let ?s = "new_session (new_stream [])"
  have d: "dispatch plain_env (JObject threads_request) ?s = Inr ((), reply threads_request (Some threads_body) ?s)"
    by (simp add: dispatch_def handle_request_def handlers_def threads_request_def member_def text_value_def updS_def)
  have "map_of threads_request (lit ''type'') = Some (JText (lit ''request''))" by (simp add: threads_request_def)
  from one_response [OF d this] show ?thesis using d
    by (auto simp: new_session_def member_def threads_request_def)
qed

section \<open>The life of a session\<close>

text \<open>
  Claim C36. In every reachable session, whatever the interleaving, the end of the program has been
  reported at most once and exactly if the session says so; a program that has been started was
  launched and configured; there is a stop to answer exactly while the program's thread is parked;
  and a fault that is being looked at is never resumed.
\<close>

theorem session_lifecycle:
  assumes "session_reaches E (new_session st) s"
  shows "(\<exists>body. filter ending (sent s) \<in> {[], [event (lit ''terminated'') None],
       [event (lit ''exited'') body, event (lit ''terminated'') None]})
    \<and> (filter ending (sent s) = [] \<longleftrightarrow> \<not> ended s)
    \<and> (vm_thread s \<noteq> NoThread \<longrightarrow> started s \<and> loaded s \<noteq> None \<and> configuration_done s)
    \<and> (suspension s \<noteq> None \<longleftrightarrow> (\<exists>vm stop message. vm_thread s = Parked vm stop message))
    \<and> (\<forall>stop k. suspension s = Some (stop, Some k) \<longrightarrow> stop_why stop \<noteq> FaultStop)"
proof -
  have ok: "base_ok s" "vm_thread s \<noteq> NoThread \<longrightarrow> begun s" "parked_ok s"
    using reachable_ok [OF assms] by (simp_all add: session_ok_def)
  have "ends_once s" using ok(1) by (simp add: base_ok_def)
  moreover have "suspension s \<noteq> None \<longleftrightarrow> (\<exists>vm stop message. vm_thread s = Parked vm stop message)"
    "\<forall>stop k. suspension s = Some (stop, Some k) \<longrightarrow> stop_why stop \<noteq> FaultStop"
    using ok(3) by (auto simp: parked_ok_def split: vm_thread.splits)
  moreover have "vm_thread s \<noteq> NoThread \<longrightarrow> started s \<and> loaded s \<noteq> None \<and> configuration_done s"
    using ok(2) by (simp add: begun_def)
  ultimately show ?thesis by (auto simp: ends_once_def endings_def split: if_splits)
qed

definition message_frame :: bytes where
  "message_frame = frame_of (raw ''{}'')"

theorem session_lifecycle_witness:
  "\<exists>s. session_reaches plain_env (new_session (new_stream [message_frame])) s
    \<and> s = serve_step plain_env (new_session (new_stream [message_frame]))
    \<and> (filter ending (sent s) = [] \<longleftrightarrow> \<not> ended s)"
proof -
  let ?s = "new_session (new_stream [message_frame])"
  have "session_reaches plain_env ?s (serve_step plain_env ?s)"
    by (rule reaches_next [OF reaches_here loop_step]) (simp add: new_session_def)
  with session_lifecycle [OF this] show ?thesis by blast
qed

section \<open>Numbers\<close>

text \<open>Whenever the program stops anew the numbers given out before are gone.\<close>

definition fresh_stop :: "session \<Rightarrow> bool" where
  "fresh_stop s \<longleftrightarrow> ((\<exists>vm st t. vm_thread s = Parked vm st t) \<longrightarrow> h_entries (session_handles s) = [])"

lemma fresh_endings: "fresh_stop (program_exits v s)" "fresh_stop (program_quits s)" "fresh_stop (program_faults t s)" "fresh_stop (adapter_fails E e s)"
  by (simp_all add: fresh_stop_def program_exits_def program_quits_def program_faults_def adapter_fails_def thread_ends_def)

lemma fresh_announce: "fresh_stop (announce vm st t s)"
  by (simp add: announce_def Let_def fresh_endings) (simp add: fresh_stop_def clear_handles_def)

lemma fresh_fault: "fresh_stop (fault_stops E e t vm s)"
  by (simp add: fault_stops_def fresh_endings fresh_announce split: prod.split sum.split)

lemma fresh_execute: "fresh_stop (execute E P vm s)"
proof -
  have "fresh_stop (s\<lparr>vm_thread := Going vm\<rparr>)" for s vm by (simp add: fresh_stop_def)
  then show ?thesis
    by (simp add: execute_def Let_def fresh_endings fresh_fault split: option.split sum.split vm_error.split outcome.split)
qed

lemma fresh_unparked: "vm_thread s = Going vm \<Longrightarrow> fresh_stop s"
  by (simp add: fresh_stop_def)

lemma fresh_step: "program_step E s = s \<or> fresh_stop (program_step E s)"
proof (cases "vm_thread s")
  case (Starting vm)
  then show ?thesis
    by (auto simp: program_step_def fresh_endings fresh_fault fresh_unparked split: option.split sum.split vm_error.split)
next
  case (Going vm)
  then show ?thesis
    by (auto simp: program_step_def before_instruction_def Let_def fresh_endings fresh_execute fresh_announce fresh_unparked
      split: option.split sum.split prod.split cut.split)
next
  case (Parked vm st t)
  then show ?thesis
    by (auto simp: program_step_def wake_def Let_def fresh_endings fresh_execute split: option.split sum.split prod.split)
qed (auto simp: program_step_def split: option.split)

text \<open>
  Claim C38. A number given out at some moment means the same or is refused at every later moment,
  and a number that was dropped never comes back; when the program's thread stops anew, every number
  of an earlier stop is refused.
\<close>

theorem stale_numbers:
  assumes "session_reaches E (new_session st) s" and "session_reaches E s t"
  shows "(\<forall>n. n < int (h_next (session_handles s)) \<longrightarrow> get_handle n (session_handles t) \<in> {None, get_handle n (session_handles s)})
    \<and> (\<forall>n vm stop message. vm_thread (program_step E t) = Parked vm stop message \<and> program_step E t \<noteq> t
      \<longrightarrow> get_handle n (session_handles (program_step E t)) = None)"
proof
  have "keeps_numbers (session_handles s) (session_handles t)"
    using goes_reaches [OF assms(2)] reachable_ok [OF assms(1)] by (simp add: goes_def)
  then show "\<forall>n. n < int (h_next (session_handles s)) \<longrightarrow> get_handle n (session_handles t) \<in> {None, get_handle n (session_handles s)}"
    by (auto simp: keeps_numbers_def get_handle_def)
  show "\<forall>n vm stop message. vm_thread (program_step E t) = Parked vm stop message \<and> program_step E t \<noteq> t
      \<longrightarrow> get_handle n (session_handles (program_step E t)) = None"
    using fresh_step [of E t] by (auto simp: fresh_stop_def get_handle_def)
qed

theorem stale_numbers_witness:
  "session_reaches plain_env (new_session (new_stream [])) (program_step plain_env (new_session (new_stream [])))
    \<and> get_handle 0 (session_handles (program_step plain_env (new_session (new_stream [])))) = None"
proof -
  let ?s = "new_session (new_stream [])"
  have r: "session_reaches plain_env ?s (program_step plain_env ?s)" by (rule reaches_next [OF reaches_here program_moves])
  have s: "0 < int (h_next (session_handles ?s))" "get_handle 0 (session_handles ?s) = None"
    by (simp_all add: new_session_def new_handles_def get_handle_def)
  from stale_numbers [OF reaches_here r, THEN conjunct1, rule_format, OF s(1)] show ?thesis using r by (simp add: s(2))
qed

section \<open>Disconnecting\<close>

definition over :: "session \<Rightarrow> bool" where
  "over s \<longleftrightarrow> vm_thread s = Over \<and> ended s"

lemma end_program_ended [simp]: "ended (end_program c s)"
  by (simp add: end_program_def Let_def split: option.split)

lemma over_endings [simp]: "over (program_exits v s)" "over (program_quits s)" "over (program_faults t s)" "over (adapter_fails E e s)"
  by (simp_all add: over_def program_exits_def program_quits_def program_faults_def adapter_fails_def thread_ends_def)

lemma over_announce: "disconnecting s \<Longrightarrow> over (announce vm st t s)"
  by (simp add: announce_def Let_def)

lemma over_fault: "disconnecting s \<Longrightarrow> over (fault_stops E e t vm s)"
  by (simp add: fault_stops_def over_announce split: prod.split sum.split)

definition pausing :: "session \<Rightarrow> bool" where
  "pausing s \<longleftrightarrow> disconnecting s \<and> vm_program s \<noteq> None \<and> pause_requested (snd (own_debugger s))"

lemma pausing_stops: "pausing s \<Longrightarrow> over (before_instruction E P vm s)"
  by (auto simp: pausing_def before_instruction_def on_instruction_def stop_with_def hand_over_def wants_stop_def Let_def over_announce
    split: prod.split sum.split)

lemma pausing_step:
  assumes "pausing s" and "alive s"
  shows "over (program_step E s) \<or> pausing (program_step E s) \<and> (\<exists>vm. vm_thread (program_step E s) = Going vm)"
    and "vm_thread s = Going vm \<Longrightarrow> over (program_step E s)"
proof -
  obtain P where P: "vm_program s = Some P" "disconnecting s" using assms(1) by (auto simp: pausing_def)
  have start: "pausing (s\<lparr>vm_thread := t\<rparr>)" for t using assms(1) by (simp add: pausing_def own_debugger_def)
  show "vm_thread s = Going vm \<Longrightarrow> over (program_step E s)"
    using pausing_stops [OF assms(1)] by (simp add: program_step_def P)
  show "over (program_step E s) \<or> pausing (program_step E s) \<and> (\<exists>vm. vm_thread (program_step E s) = Going vm)"
    using assms(2) P start pausing_stops [OF assms(1)]
    by (auto simp: program_step_def alive_def over_fault wake_def Let_def split: vm_thread.split sum.split vm_error.split)
qed

lemma pausing_joined:
  assumes "pausing s" and "alive s" and "2 \<le> k"
  shows "over (join_program E k s)"
proof -
  have stay: "over s \<Longrightarrow> join_program E n s = s" for n s by (cases n) (simp_all add: over_def alive_def)
  have one: "vm_thread s = Going vm \<Longrightarrow> pausing s \<Longrightarrow> over (join_program E (Suc n) s)" for s vm n
    using pausing_step(2) stay by (simp add: alive_def)
  obtain n where k: "k = Suc (Suc n)" using assms(3) by (metis Suc_le_D Suc_le_mono numeral_2_eq_2)
  show ?thesis
    using pausing_step(1) [OF assms(1,2), of E] one assms(2) stay [of "program_step E s" "Suc n"] unfolding k
    by (metis join_program.simps(2))
qed


definition started_session :: session where
  "started_session = (new_session (new_stream []))\<lparr>started := True, configuration_done := True, loaded := Some idle_program,
     vm_program := Some idle_program, vm_thread := Starting (new_vm []), debuggers := [(idle_program, new_debugger)], current_debugger := Some 0\<rparr>"


section \<open>Requests that break the session\<close>

text \<open>Two resumes that arrive before the thread wakes are both granted, and the second replaces the first.\<close>

lemma double_resume:
  assumes "suspension s = Some (stop, None)" and "stop_why stop \<noteq> FaultStop"
  shows "\<exists>t. bindS (on_resume StepOver None m) (\<lambda>_. on_resume RunFree None m') s = Inr ((), t)
    \<and> sent t = sent s @ [response m None True None, response m' None True None] \<and> suspension t = Some (stop, Some RunFree)"
  using assms by (simp add: on_resume_def updS_def bindS_def refuse_resume_def release_def sends)

text \<open>A frame's number is in the same table as the numbers of scopes, and asking for what is inside it raises.\<close>

lemma variables_of_frame:
  assumes "suspended_view s = Some (P, vm)" and "get_handle n (session_handles s) = Some (FrameEntry depth)" and "n \<noteq> 0"
    and "m = [(lit ''arguments'', JObject [(lit ''variablesReference'', JInt n)])]"
  shows "on_variables E m s = Inl (Host AttributeError, s)"
  using assms
  by (simp add: on_variables_def require_suspended_def arguments_of_def object_or_empty_def member_def truthy_def int_or_zero_def int_value_def
      bindS_def giveS_def askS_def crash_def)

text \<open>A request named after the method that waits in a stop finds that method and raises.\<close>

lemma stop_request:
  "dispatch E (JObject [(lit ''type'', JText (lit ''request'')), (lit ''command'', JText (lit ''stop''))]) s = Inl (Host TypeError, s)"
  by (simp add: dispatch_def handle_request_def handlers_def member_def text_value_def crash_def)

text \<open>A program that asks for a file dies of the adapter's own error.\<close>

lemma file_under_adapter:
  assumes "py_index (code P) (pc vm) = Some i" and "asks_for_file i (vm\<lparr>pc := pc vm + 1\<rparr>)" and "op i \<noteq> READ_LINE"
  shows "execute E P vm s = adapter_fails E (Host AttributeError) s"
  using assms by (simp add: execute_def Let_def warn_input_def)

end
