(* ===== verification/Spec2Isabelle.thy ===== *)
theory Spec2Isabelle
  imports Instructions FileFormat Scanning TypeNames Parsing CompileProgram Resolver Debugging Adapter
begin

text \<open>
  A verification development for QuinLang: a compiler, a virtual machine with a garbage collector, a
  bytecode file format, a debugger and a debug adapter, all in Python under \<open>src/\<close>.

  How the parts interact. \<open>compiler/resolver.py\<close> reads the entry file and its includes, each through
  \<open>lexer.py\<close> and \<open>parser.py\<close>, and merges the trees (\<open>ast.py\<close>); \<open>sema.py\<close> checks the merged program with
  the types of \<open>compiler_types.py\<close> and the signatures of \<open>builtins.py\<close>, instantiates the generic
  declarations and leaves side tables; \<open>codegen_vm.py\<close> lowers the tree to the instructions and tables
  of \<open>bytecode.py\<close>; \<open>serialize.py\<close> writes these to a file and reads them back; \<open>runtime/vm.py\<close> boots and
  runs them over \<open>program_io.py\<close>; \<open>runtime/debugger.py\<close> hooks into its fetch loop; \<open>dap/session.py\<close> is a
  front end of the debugger that talks to an editor over \<open>dap/protocol.py\<close>.

  Conventions. \<open>Prelude\<close>: a raise is an \<open>Inl\<close> with the error as a value, and the host's own exceptions
  (\<open>host_error\<close>) are kept apart from those the program defines; a method that updates its object passes
  the state (\<open>stateR\<close>); a Python text is a list of code points (\<open>ustr\<close>). Methods keep their names,
  without the leading underscore, and classes with fields are records.

  The machine. \<open>Bytecode\<close> is \<open>bytecode.py\<close>: opcodes with their numbers, instructions, the source map.
  \<open>Values\<close> and \<open>Float32\<close> are 16-bit words and 32-bit floats. \<open>Machine\<close> is the state of \<open>QuinVM\<close>, \<open>Heap\<close>
  its object headers and the walk over the blocks, \<open>Collector\<close> the mark-compact collector, \<open>Objects\<close>
  allocation, strings and arrays, \<open>Interp\<close> every opcode and the fetch loop, \<open>Backtrace\<close> the place of a
  fault, \<open>ProgramIO\<close> the interface to the outside and its in-memory form. \<open>Marking\<close>, \<open>Compaction\<close> and
  \<open>Collection\<close> show that a collection keeps exactly the reachable objects; \<open>Allocation\<close> what an
  allocation gives, and that memory is reported exhausted only when collecting could not help; \<open>Frames\<close> the calling
  convention; \<open>Instructions\<close> single families of instructions.

  The file format. \<open>Utf8\<close> is the host's codec, \<open>Serialize\<close> the writer and the reader. \<open>Codec\<close> states the
  law of one record as a locale, closed under sequences and lists; \<open>FileFormat\<close> interprets it on every
  record and concludes for whole files, damaged ones included.

  The front end. \<open>Lexer\<close> is \<open>tokens.py\<close> and \<open>lexer.py\<close>, with its properties in \<open>Scanning\<close>; \<open>Types\<close> is
  \<open>compiler_types.py\<close>, where \<open>Spelling\<close> reads type names as trees and \<open>TypeNames\<close> shows that the string
  surgery of the code agrees with operations on trees; \<open>Syntax\<close> is \<open>ast.py\<close>, \<open>Parser\<close> is \<open>parser.py\<close> and
  \<open>Parsing\<close> shows that it returns; \<open>Resolver\<close> is \<open>resolver.py\<close> with its properties. \<open>Builtins\<close> is the
  table of builtins, \<open>Typed\<close> the side tables, and \<open>Sema\<close>, \<open>SemaExpr\<close>, \<open>SemaStmt\<close>, \<open>Analyze\<close> are \<open>sema.py\<close>
  from scopes to whole programs.

  The code generator. \<open>Codegen\<close> and \<open>CodegenStmt\<close> are \<open>codegen_vm.py\<close>. \<open>Compile\<close>, \<open>CompileStmt\<close>,
  \<open>CompileRun\<close> and \<open>CompileProgram\<close> prove it correct against a big-step semantics of the statements over
  \<open>int\<close> and \<open>bool\<close> without calls and memory: expressions, then the jumps of statements, then the run of
  the patched code, then a whole program from \<open>generate\<close> through \<open>boot\<close> to the exit value. \<open>Tables\<close> shows of
  every generated program, whatever it uses, that its source map and literal table are in order.

  The pipeline. \<open>Pipeline\<close> is \<open>pipeline.py\<close> and the driver: the phases in turn, the choice between a source
  and a saved program, running and exit codes. \<open>Stripped\<close> shows that the machine never looks at the
  debug tables, so a saved program, stripped or not, runs as the one that was saved.

  The debugger. \<open>Debugger\<close>, \<open>DebugValues\<close> and \<open>Debugging\<close> are \<open>runtime/debugger.py\<close>: the front end is a
  parameter, with what a front end that answers every stop promises as a locale.

  The debug adapter. \<open>Json\<close> is what the adapter uses of the standard library's \<open>json\<close>, with the round
  trip in \<open>JsonText\<close>; \<open>Protocol\<close> is \<open>protocol.py\<close>, reading from any deliveries of the bytes, with its
  round trip in \<open>Framing\<close>; \<open>DapValues\<close> is \<open>values.py\<close>; \<open>Session\<close> is \<open>session.py\<close> as two threads over one
  state, whose steps interleave freely. \<open>Sessions\<close> shows that every handler answers once, \<open>SessionLife\<close>
  an invariant of every reachable session, \<open>Adapter\<close> what a client can rely on and four requests that
  break the session.

  Bounds and fuel. The run of the machine, with or without the debugger, takes a number of
  instructions, since a program need not end; theorems about results give the number. The parser takes
  twice the number of tokens and one more, shown enough, with more changing nothing; JSON takes twice
  the length of the text and one more, shown enough; include resolution takes any number above that of
  the files, shown enough, cycles included. Joining the program's thread with a timeout is a number of
  its steps (\<open>ae_patience\<close>); two are enough once it has been asked to stop. The loops of the lexer, the
  collector and the message reader end by a measure.

  Not modelled. \<open>ConsoleIO\<close> of \<open>program_io.py\<close>, which is the operating system. The host's character
  database, file system and paths, the texts of its exceptions and its float formatting are
  parameters. A message of semantic analysis is its fixed text and its values, before they are put
  together. A request of the debug adapter is one step, so two threads do not interleave within one,
  and a message is written whole, as the lock sees to. \<open>compiler/debug.py\<close>,
  \<open>dap/__main__.py\<close>, the editor's launcher and the driver's argument parser are command lines, terminal
  text and the standard streams around the modelled parts; the driver's \<open>--debug\<close> is left out with them.
  The correctness of compiled code is not shown for calls, heap objects, floats and \<open>vm_asm\<close>.
\<close>

end
